(* ===== verification/Prelude.thy ===== *)
theory Prelude
  imports Complex_Main "HOL-Library.AList" "HOL-Library.Sublist"
begin

text \<open>
  The part of the model every component shares: the Python exceptions as a datatype, results
  as sums, dictionaries as association lists in insertion order, and the generic lemmas on
  them. The collections \<open>res_simps\<close> and \<open>dict_simps\<close> hold the rewrite rules of results and
  dictionaries; component proofs use them by name.
\<close>

named_theorems res_simps "rules for results and their sequencing"
named_theorems dict_simps "rules for dictionaries"

section \<open>Exceptions and results\<close>

text \<open>
  One constructor per exception class the modelled code raises or catches. The strings are the
  messages or codes the code attaches; HTTP statuses are integers.
\<close>

datatype exn =
    FileNotFoundError string
  | ValueError string
  | ValidationError string
  | RuntimeError string
  | KeyError
  | IndexError
  | ZeroDivisionError
  | AssertionError
  | HTTPStatusError int
  | RequestError
  | StateConflict string
  | WriteRejected string
  | WriteUncertain string
  | AuthRejected string int
  | CapacityReached string
  | CreateDeferred rat
  | AllocationConflict string
  | InventoryConflict string
  | ProviderUnavailable string
  | CreateRejected int
  | CreateUnknown string
  | BudgetRejected string
  | BudgetNotReserved string
  | RecordingConflict string
  | PyException string

type_synonym 'a result = "exn + 'a"

definition rbind :: "'e + 'a \<Rightarrow> ('a \<Rightarrow> 'e + 'b) \<Rightarrow> 'e + 'b" where
  "rbind r f = (case r of Inl e \<Rightarrow> Inl e | Inr x \<Rightarrow> f x)"

definition rmap :: "('a \<Rightarrow> 'b) \<Rightarrow> 'e + 'a \<Rightarrow> 'e + 'b" where
  "rmap f r = (case r of Inl e \<Rightarrow> Inl e | Inr x \<Rightarrow> Inr (f x))"

definition require :: "bool \<Rightarrow> 'e \<Rightarrow> 'e + unit" where
  "require b e = (if b then Inr () else Inl e)"

definition some_or :: "'a option \<Rightarrow> 'e \<Rightarrow> 'e + 'a" where
  "some_or x e = (case x of None \<Rightarrow> Inl e | Some v \<Rightarrow> Inr v)"

definition is_ok :: "'e + 'a \<Rightarrow> bool" where
  "is_ok r = (case r of Inl _ \<Rightarrow> False | Inr _ \<Rightarrow> True)"

lemma rbind_simps [simp, res_simps]:
  "rbind (Inl e) f = Inl e"
  "rbind (Inr x) f = f x"
  by (simp_all add: rbind_def)

lemma rbind_eq_Inr [res_simps]:
  "rbind r f = Inr y \<longleftrightarrow> (\<exists>x. r = Inr x \<and> f x = Inr y)"
  by (cases r) auto

lemma rbind_eq_Inl [res_simps]:
  "rbind r f = Inl e \<longleftrightarrow> r = Inl e \<or> (\<exists>x. r = Inr x \<and> f x = Inl e)"
  by (cases r) auto

lemma rmap_simps [simp, res_simps]:
  "rmap f (Inl e) = Inl e"
  "rmap f (Inr x) = Inr (f x)"
  by (simp_all add: rmap_def)

lemma rmap_eq_Inr [res_simps]: "rmap f r = Inr y \<longleftrightarrow> (\<exists>x. r = Inr x \<and> y = f x)"
  by (cases r) auto

lemma require_eq [simp, res_simps]:
  "require b e = Inr u \<longleftrightarrow> b"
  "require b e = Inl e' \<longleftrightarrow> \<not> b \<and> e' = e"
  by (auto simp: require_def)

lemma require_simps [simp, res_simps]:
  "require True e = Inr ()"
  "require False e = Inl e"
  by (simp_all add: require_def)

lemma some_or_simps [simp, res_simps]:
  "some_or None e = Inl e"
  "some_or (Some v) e = Inr v"
  by (simp_all add: some_or_def)

lemma some_or_eq_Inr [simp, res_simps]: "some_or x e = Inr v \<longleftrightarrow> x = Some v"
  by (cases x) auto

lemma is_ok_simps [simp, res_simps]:
  "is_ok (Inl e) \<longleftrightarrow> False"
  "is_ok (Inr x) \<longleftrightarrow> True"
  by (simp_all add: is_ok_def)

lemma is_ok_iff: "is_ok r \<longleftrightarrow> (\<exists>x. r = Inr x)"
  by (cases r) auto

text \<open>A loop that maps a fallible function over a list stops at the first error.\<close>

fun rmapM :: "('a \<Rightarrow> 'e + 'b) \<Rightarrow> 'a list \<Rightarrow> 'e + 'b list" where
  "rmapM f [] = Inr []"
| "rmapM f (x # xs) =
     (case f x of Inl e \<Rightarrow> Inl e
      | Inr y \<Rightarrow> (case rmapM f xs of Inl e \<Rightarrow> Inl e | Inr ys \<Rightarrow> Inr (y # ys)))"

lemma rmapM_Inr_length: "rmapM f xs = Inr ys \<Longrightarrow> length ys = length xs"
  by (induction xs arbitrary: ys) (auto split: sum.splits)

lemma rmapM_total: "(\<And>x. x \<in> set xs \<Longrightarrow> f x = Inr (g x)) \<Longrightarrow> rmapM f xs = Inr (map g xs)"
  by (induction xs) auto

section \<open>Dictionaries\<close>

text \<open>
  A Python \<^verbatim>\<open>dict\<close> keeps its insertion order: storing to a present key replaces the value in
  place, storing to a new key appends, deleting removes the entry. These are the operations of
  the library's association lists; a dictionary is well formed when its keys are distinct.
\<close>

type_synonym ('k, 'v) dict = "('k \<times> 'v) list"

abbreviation dget :: "('k, 'v) dict \<Rightarrow> 'k \<Rightarrow> 'v option" where
  "dget d k \<equiv> map_of d k"

abbreviation dset :: "'k \<Rightarrow> 'v \<Rightarrow> ('k, 'v) dict \<Rightarrow> ('k, 'v) dict" where
  "dset k v d \<equiv> AList.update k v d"

abbreviation ddel :: "'k \<Rightarrow> ('k, 'v) dict \<Rightarrow> ('k, 'v) dict" where
  "ddel k d \<equiv> AList.delete k d"

abbreviation dkeys :: "('k, 'v) dict \<Rightarrow> 'k list" where
  "dkeys d \<equiv> map fst d"

abbreviation dvalues :: "('k, 'v) dict \<Rightarrow> 'v list" where
  "dvalues d \<equiv> map snd d"

abbreviation dict_ok :: "('k, 'v) dict \<Rightarrow> bool" where
  "dict_ok d \<equiv> distinct (dkeys d)"

definition dhas :: "('k, 'v) dict \<Rightarrow> 'k \<Rightarrow> bool" where
  "dhas d k = (map_of d k \<noteq> None)"

definition dget_default :: "('k, 'v) dict \<Rightarrow> 'k \<Rightarrow> 'v \<Rightarrow> 'v" where
  "dget_default d k v = (case map_of d k of None \<Rightarrow> v | Some x \<Rightarrow> x)"

text \<open>A loop of stores into a dictionary, as a dict comprehension or \<^verbatim>\<open>update\<close> makes it.\<close>

fun dset_all :: "('k \<times> 'v) list \<Rightarrow> ('k, 'v) dict \<Rightarrow> ('k, 'v) dict" where
  "dset_all [] d = d"
| "dset_all ((k, v) # kvs) d = dset_all kvs (dset k v d)"

lemma dget_dset [simp, dict_simps]:
  "map_of (AList.update k v d) k' = (if k' = k then Some v else map_of d k')"
  by (simp add: update_conv')

lemma dget_ddel [simp, dict_simps]:
  "map_of (AList.delete k d) k' = (if k' = k then None else map_of d k')"
  by (simp add: delete_conv')

lemma dhas_iff [dict_simps]: "dhas d k \<longleftrightarrow> k \<in> set (dkeys d)"
  by (auto simp: dhas_def map_of_eq_None_iff)

lemma dict_ok_dset [simp, dict_simps]: "dict_ok d \<Longrightarrow> dict_ok (dset k v d)"
  by (rule distinct_update)

lemma dict_ok_ddel [simp, dict_simps]: "dict_ok d \<Longrightarrow> dict_ok (ddel k d)"
  by (simp add: delete_keys distinct_removeAll)

lemma dkeys_dset [dict_simps]:
  "dkeys (dset k v d) = (if k \<in> set (dkeys d) then dkeys d else dkeys d @ [k])"
  by (simp add: update_keys)

lemma set_dkeys_dset [simp, dict_simps]: "set (dkeys (dset k v d)) = insert k (set (dkeys d))"
  by (auto simp: dkeys_dset)

lemma set_dkeys_ddel [simp, dict_simps]: "set (dkeys (ddel k d)) = set (dkeys d) - {k}"
  by (simp add: delete_keys)

lemma length_dset_new [dict_simps]:
  "dget d k = None \<Longrightarrow> length (dset k v d) = Suc (length d)"
  by (induction d) auto

lemma length_dset_old [dict_simps]:
  "dget d k \<noteq> None \<Longrightarrow> length (dset k v d) = length d"
  by (induction d) auto

lemma length_ddel [dict_simps]:
  "dict_ok d \<Longrightarrow> dget d k \<noteq> None \<Longrightarrow> Suc (length (ddel k d)) = length d"
proof (induction d)
  case Nil
  then show ?case by simp
next
  case (Cons p d)
  show ?case
  proof (cases "fst p = k")
    case True
    with Cons.prems have "k \<notin> fst ` set d" by auto
    then have "filter (\<lambda>q. k \<noteq> fst q) d = d"
      by (intro filter_True) (auto simp: image_iff)
    then show ?thesis using True by (simp add: AList.delete_eq case_prod_unfold)
  next
    case False
    with Cons.prems have "dget d k \<noteq> None" "dict_ok d" by (cases p; auto)+
    with Cons.IH have "Suc (length (ddel k d)) = length d" by simp
    with False show ?thesis by (simp add: AList.delete_eq case_prod_unfold)
  qed
qed

lemma dget_dset_all:
  "dget (dset_all kvs d) k = (case map_of (rev kvs) k of None \<Rightarrow> dget d k | Some v \<Rightarrow> Some v)"
  by (induction kvs d rule: dset_all.induct) (auto simp: map_add_def split: option.splits)

lemma set_dkeys_dset_all [simp, dict_simps]:
  "set (dkeys (dset_all kvs d)) = set (dkeys d) \<union> set (map fst kvs)"
  by (induction kvs d rule: dset_all.induct) (auto simp del: set_map)

lemma dict_ok_dset_all [simp, dict_simps]: "dict_ok d \<Longrightarrow> dict_ok (dset_all kvs d)"
  by (induction kvs d rule: dset_all.induct) auto

lemma dget_mem: "dget d k = Some v \<Longrightarrow> (k, v) \<in> set d"
  by (rule map_of_SomeD)

lemma dget_of_mem: "dict_ok d \<Longrightarrow> (k, v) \<in> set d \<Longrightarrow> dget d k = Some v"
  by (rule map_of_is_SomeI)

lemma dget_filter:
  "dict_ok d \<Longrightarrow> dget (filter (\<lambda>(k, v). P k v) d) k =
     (case dget d k of None \<Rightarrow> None | Some v \<Rightarrow> (if P k v then Some v else None))"
proof (induction d)
  case (Cons p d)
  obtain k' v' where p: "p = (k', v')" by force
  from Cons.prems p have ok: "dict_ok d" and new: "k' \<notin> set (dkeys d)" by auto
  have "dget d k' = None" using new by (auto simp: map_of_eq_None_iff)
  with Cons.IH[OF ok] show ?case by (auto simp: p split: option.splits)
qed simp

lemma dict_ok_filter [simp]: "dict_ok d \<Longrightarrow> dict_ok (filter P d)"
  by (rule distinct_map_filter)

lemma dget_map_values:
  "dget (map (\<lambda>(k, v). (k, f k v)) d) k = map_option (f k) (dget d k)"
  by (induction d) auto

section \<open>Lists\<close>

text \<open>\<^verbatim>\<open>for x in xs: if p(x): return x\<close> and the last element satisfying a predicate.\<close>

fun find_first :: "('a \<Rightarrow> bool) \<Rightarrow> 'a list \<Rightarrow> 'a option" where
  "find_first p [] = None"
| "find_first p (x # xs) = (if p x then Some x else find_first p xs)"

lemma find_first_Some:
  "find_first p xs = Some x \<longleftrightarrow> (\<exists>us vs. xs = us @ x # vs \<and> p x \<and> (\<forall>u\<in>set us. \<not> p u))"
proof (induction xs)
  case (Cons a xs)
  show ?case
  proof (cases "p a")
    case True
    then show ?thesis by (auto simp: Cons_eq_append_conv)
  next
    case False
    have "(\<exists>us vs. a # xs = us @ x # vs \<and> p x \<and> (\<forall>u\<in>set us. \<not> p u)) \<longleftrightarrow>
        (\<exists>us vs. xs = us @ x # vs \<and> p x \<and> (\<forall>u\<in>set us. \<not> p u))" (is "?l \<longleftrightarrow> ?r")
    proof
      assume ?l
      with False show ?r by (auto simp: Cons_eq_append_conv)
    next
      assume ?r
      then obtain us vs where "xs = us @ x # vs" "p x" "\<forall>u\<in>set us. \<not> p u" by blast
      with False show ?l by (intro exI [of _ "a # us"] exI [of _ vs]) auto
    qed
    with False Cons.IH show ?thesis by simp
  qed
qed simp

lemma find_first_None: "find_first p xs = None \<longleftrightarrow> (\<forall>x\<in>set xs. \<not> p x)"
  by (induction xs) auto

lemma find_first_mem: "find_first p xs = Some x \<Longrightarrow> x \<in> set xs \<and> p x"
  by (auto simp: find_first_Some)

text \<open>\<^verbatim>\<open>s.strip()\<close> for the blanks of ASCII, and \<^verbatim>\<open>s.split(c)\<close> for one character.\<close>

definition is_blank :: "char \<Rightarrow> bool" where
  "is_blank c = (c \<in> {CHR '' '', CHR 0x09, CHR 0x0A, CHR 0x0B, CHR 0x0C, CHR 0x0D, CHR 0x1C,
                       CHR 0x1D, CHR 0x1E, CHR 0x1F})"

definition strip :: "string \<Rightarrow> string" where
  "strip s = rev (dropWhile is_blank (rev (dropWhile is_blank s)))"

fun split_on :: "char \<Rightarrow> string \<Rightarrow> string list" where
  "split_on c [] = [[]]"
| "split_on c (x # xs) =
     (if x = c then [] # split_on c xs
      else (case split_on c xs of [] \<Rightarrow> [[x]] | y # ys \<Rightarrow> (x # y) # ys))"

fun join_with :: "string \<Rightarrow> string list \<Rightarrow> string" where
  "join_with sep [] = []"
| "join_with sep [x] = x"
| "join_with sep (x # y # ys) = x @ sep @ join_with sep (y # ys)"

lemma split_on_nonempty [simp]: "split_on c s \<noteq> []"
  by (induction s) (auto split: list.splits)

lemma split_on_fresh: "c \<notin> set s \<Longrightarrow> split_on c s = [s]"
  by (induction s) auto

lemma split_on_append:
  "c \<notin> set s \<Longrightarrow> split_on c (s @ c # t) = s # split_on c t"
  by (induction s) auto

lemma split_on_join:
  "xs \<noteq> [] \<Longrightarrow> (\<And>x. x \<in> set xs \<Longrightarrow> c \<notin> set x) \<Longrightarrow> split_on c (join_with [c] xs) = xs"
proof (induction "[c]" xs rule: join_with.induct)
  case (3 x y ys)
  then have "split_on c (join_with [c] (y # ys)) = y # ys" by simp
  with 3 show ?case by (simp add: split_on_append)
qed (auto simp: split_on_fresh)

text \<open>Decimal digits of a natural number, as \<^verbatim>\<open>str\<close> prints it.\<close>

fun nat_digits :: "nat \<Rightarrow> string" where
  "nat_digits n =
     (if n < 10 then [char_of (48 + n)] else nat_digits (n div 10) @ [char_of (48 + n mod 10)])"

declare nat_digits.simps [simp del]

definition show_int :: "int \<Rightarrow> string" where
  "show_int i = (if i < 0 then ''-'' @ nat_digits (nat (- i)) else nat_digits (nat i))"

definition is_digit :: "char \<Rightarrow> bool" where
  "is_digit c = (48 \<le> (of_char c :: nat) \<and> (of_char c :: nat) \<le> 57)"

definition nat_of_digits :: "string \<Rightarrow> nat" where
  "nat_of_digits s = foldl (\<lambda>acc c. 10 * acc + (of_char c - 48)) 0 s"

lemma of_char_digit [simp]: "d < 10 \<Longrightarrow> (of_char (char_of (48 + d)) :: nat) = 48 + d"
  by (simp add: of_char_of)

lemma nat_of_digits_snoc:
  "nat_of_digits (s @ [c]) = 10 * nat_of_digits s + (of_char c - 48)"
  by (simp add: nat_of_digits_def)

lemma nat_of_digits_digits: "nat_of_digits (nat_digits n) = n"
proof (induction n rule: nat_digits.induct)
  case (1 n)
  show ?case
  proof (cases "n < 10")
    case True
    then show ?thesis by (subst nat_digits.simps) (simp add: nat_of_digits_def)
  next
    case False
    with 1 have "nat_of_digits (nat_digits (n div 10)) = n div 10" by simp
    with False show ?thesis by (subst nat_digits.simps) (simp add: nat_of_digits_snoc)
  qed
qed

lemma nat_digits_digits: "c \<in> set (nat_digits n) \<Longrightarrow> is_digit c"
proof (induction n rule: nat_digits.induct)
  case (1 n)
  have d: "d < 10 \<Longrightarrow> is_digit (char_of (48 + d))" for d :: nat
    by (simp add: is_digit_def)
  show ?case
  proof (cases "n < 10")
    case True
    with "1.prems" have "c = char_of (48 + n)" by (simp add: nat_digits.simps [of n])
    with True show ?thesis by (simp add: d)
  next
    case False
    with "1.prems" have "c \<in> set (nat_digits (n div 10)) \<or> c = char_of (48 + n mod 10)"
      by (auto simp: nat_digits.simps [of n])
    with False "1.IH" show ?thesis by (auto simp: d)
  qed
qed

lemma nat_digits_inj: "nat_digits m = nat_digits n \<Longrightarrow> m = n"
  by (metis nat_of_digits_digits)

section \<open>Actions\<close>

text \<open>
  A coroutine that reads and writes the state of its object and may raise: it returns a result
  and the state it leaves, also when it raises. \<open>keeps P m\<close> says that \<open>m\<close> preserves \<open>P\<close>,
  whether it returns or raises.
\<close>

type_synonym ('s, 'a) action = "'s \<Rightarrow> 'a result \<times> 's"

definition act_return :: "'a \<Rightarrow> ('s, 'a) action" where
  "act_return x s = (Inr x, s)"

definition act_raise :: "exn \<Rightarrow> ('s, 'a) action" where
  "act_raise e s = (Inl e, s)"

definition act_bind :: "('s, 'a) action \<Rightarrow> ('a \<Rightarrow> ('s, 'b) action) \<Rightarrow> ('s, 'b) action" where
  "act_bind m f s = (case m s of (Inl e, s') \<Rightarrow> (Inl e, s') | (Inr x, s') \<Rightarrow> f x s')"

definition act_get :: "('s \<Rightarrow> 'a) \<Rightarrow> ('s, 'a) action" where
  "act_get f s = (Inr (f s), s)"

definition act_modify :: "('s \<Rightarrow> 's) \<Rightarrow> ('s, unit) action" where
  "act_modify f s = (Inr (), f s)"

definition act_lift :: "'a result \<Rightarrow> ('s, 'a) action" where
  "act_lift r s = (r, s)"

definition keeps :: "('s \<Rightarrow> bool) \<Rightarrow> ('s, 'a) action \<Rightarrow> bool" where
  "keeps P m = (\<forall>s. P s \<longrightarrow> P (snd (m s)))"

named_theorems act_simps "evaluation of actions"
named_theorems keeps_intros "preservation by the actions"

lemma act_eval [act_simps]:
  "act_return x s = (Inr x, s)"
  "act_raise e s = (Inl e, s)"
  "act_get f s = (Inr (f s), s)"
  "act_modify g s = (Inr (), g s)"
  "act_lift r s = (r, s)"
  by (simp_all add: act_return_def act_raise_def act_get_def act_modify_def act_lift_def)

lemma act_bind_eval [act_simps]:
  "m s = (Inr x, s') \<Longrightarrow> act_bind m f s = f x s'"
  "m s = (Inl e, s') \<Longrightarrow> act_bind m f s = (Inl e, s')"
  by (simp_all add: act_bind_def)

lemma act_bind_Inr:
  "act_bind m f s = (Inr y, s'') \<longleftrightarrow> (\<exists>x s'. m s = (Inr x, s') \<and> f x s' = (Inr y, s''))"
  by (auto simp: act_bind_def split: prod.splits sum.splits)

lemma act_bind_cases:
  assumes "act_bind m f s = (r, s'')"
  obtains (raised) e where "m s = (Inl e, s'')" "r = Inl e"
    | (returned) x s' where "m s = (Inr x, s')" "f x s' = (r, s'')"
  using assms by (auto simp: act_bind_def split: prod.splits sum.splits)

lemma keepsD: "keeps P m \<Longrightarrow> P s \<Longrightarrow> m s = (r, s') \<Longrightarrow> P s'"
  by (metis keeps_def snd_conv)

lemma keeps_return [keeps_intros]: "keeps P (act_return x)"
  by (simp add: keeps_def act_simps)

lemma keeps_raise [keeps_intros]: "keeps P (act_raise e)"
  by (simp add: keeps_def act_simps)

lemma keeps_get [keeps_intros]: "keeps P (act_get f)"
  by (simp add: keeps_def act_simps)

lemma keeps_lift [keeps_intros]: "keeps P (act_lift r)"
  by (simp add: keeps_def act_simps)

lemma keeps_modify [keeps_intros]: "(\<And>s. P s \<Longrightarrow> P (f s)) \<Longrightarrow> keeps P (act_modify f)"
  by (simp add: keeps_def act_simps)

lemma keeps_bind [keeps_intros]:
  assumes "keeps P m" "\<And>x. keeps P (f x)"
  shows "keeps P (act_bind m f)"
  unfolding keeps_def
proof (intro allI impI)
  fix s
  assume "P s"
  with assms(1) have p: "P (snd (m s))" by (simp add: keeps_def)
  show "P (snd (act_bind m f s))"
  proof (cases "m s")
    case (Pair r s')
    with p assms(2) show ?thesis by (cases r) (auto simp: act_bind_def keeps_def)
  qed
qed

lemma keeps_if [keeps_intros]: "keeps P m \<Longrightarrow> keeps P m' \<Longrightarrow> keeps P (if b then m else m')"
  by simp

lemma keeps_option [keeps_intros]:
  "keeps P m \<Longrightarrow> (\<And>y. keeps P (f y)) \<Longrightarrow> keeps P (case x of None \<Rightarrow> m | Some y \<Rightarrow> f y)"
  by (simp split: option.split)

text \<open>
  \<open>wp m Q s\<close>: the result and the state that \<open>m\<close> leaves from \<open>s\<close> satisfy \<open>Q\<close>. The rules compute it
  along the structure of an action.
\<close>

definition wp :: "('s, 'a) action \<Rightarrow> ('a result \<Rightarrow> 's \<Rightarrow> bool) \<Rightarrow> 's \<Rightarrow> bool" where
  "wp m Q s = (case m s of (r, s') \<Rightarrow> Q r s')"

named_theorems wp_simps "weakest preconditions of actions"

lemma wpD: "wp m Q s \<Longrightarrow> m s = (r, s') \<Longrightarrow> Q r s'"
  by (simp add: wp_def)

lemma wp_bind [wp_simps]:
  "wp (act_bind m f) Q s = wp m (\<lambda>r s'. case r of Inl e \<Rightarrow> Q (Inl e) s' | Inr x \<Rightarrow> wp (f x) Q s') s"
  by (simp add: wp_def act_bind_def split: prod.split sum.split)

lemma wp_return [wp_simps]: "wp (act_return x) Q s = Q (Inr x) s"
  by (simp add: wp_def act_simps)

lemma wp_raise [wp_simps]: "wp (act_raise e) Q s = Q (Inl e) s"
  by (simp add: wp_def act_simps)

lemma wp_get [wp_simps]: "wp (act_get f) Q s = Q (Inr (f s)) s"
  by (simp add: wp_def act_simps)

lemma wp_modify [wp_simps]: "wp (act_modify g) Q s = Q (Inr ()) (g s)"
  by (simp add: wp_def act_simps)

lemma wp_lift [wp_simps]: "wp (act_lift r) Q s = Q r s"
  by (simp add: wp_def act_simps)

lemma wp_if [wp_simps]: "wp (if b then m else m') Q s = (if b then wp m Q s else wp m' Q s)"
  by simp

lemma wp_option [wp_simps]:
  "wp (case x of None \<Rightarrow> m | Some y \<Rightarrow> f y) Q s = (case x of None \<Rightarrow> wp m Q s | Some y \<Rightarrow> wp (f y) Q s)"
  by (simp split: option.split)

lemma wp_mono: "wp m Q s \<Longrightarrow> (\<And>r s'. Q r s' \<Longrightarrow> R r s') \<Longrightarrow> wp m R s"
  by (auto simp: wp_def)

end
