(* ===== verification/Traces.thy ===== *)
theory Traces
  imports Prelude
begin

text \<open>
  Reasoning about what an action adds to a log in its state: \<open>traced lg m Q\<close> says that \<open>m\<close>, from every
  state, appends some events to the log \<open>lg\<close>, and that they and the result satisfy \<open>Q\<close>. The rules follow
  the structure of the action. \<open>preceded\<close> states of every event of a trace what came before it; \<open>hist\<close> follows an action whose state is
  tied to its log by an invariant; \<open>yields\<close> says that an action logs only what is allowed.
\<close>

definition traced :: "('s \<Rightarrow> 'e list) \<Rightarrow> ('s, 'a) action \<Rightarrow> ('a result \<Rightarrow> 'e list \<Rightarrow> bool) \<Rightarrow> bool" where
  "traced lg m Q = (\<forall>s. case m s of (r, s') \<Rightarrow> \<exists>es. lg s' = lg s @ es \<and> Q r es)"

text \<open>\<^verbatim>\<open>try ... except ... else\<close>.\<close>

definition act_handle :: "('s, 'a) action \<Rightarrow> (exn \<Rightarrow> ('s, 'b) action) \<Rightarrow> ('a \<Rightarrow> ('s, 'b) action) \<Rightarrow> ('s, 'b) action" where
  "act_handle m f g s = (case m s of (Inl e, s') \<Rightarrow> f e s' | (Inr x, s') \<Rightarrow> g x s')"

named_theorems traced_rules "traces of composed actions"

lemma tracedD: "traced lg m Q \<Longrightarrow> m s = (r, s') \<Longrightarrow> \<exists>es. lg s' = lg s @ es \<and> Q r es"
  unfolding traced_def by (drule spec [of _ s]) simp

lemma traced_iff: "traced lg m Q \<longleftrightarrow> (\<forall>s r s'. m s = (r, s') \<longrightarrow> (\<exists>es. lg s' = lg s @ es \<and> Q r es))"
  unfolding traced_def by (auto split: prod.splits)

lemma traced_mono: "traced lg m R \<Longrightarrow> (\<And>r es. R r es \<Longrightarrow> Q r es) \<Longrightarrow> traced lg m Q"
  unfolding traced_def by (simp split: prod.splits) blast

lemma traced_conj: "traced lg m Q \<Longrightarrow> traced lg m R \<Longrightarrow> traced lg m (\<lambda>r es. Q r es \<and> R r es)"
  unfolding traced_def by (simp split: prod.splits) (metis same_append_eq)

lemma traced_bind [traced_rules]:
  assumes "traced lg m (\<lambda>r es. case r of Inl e \<Rightarrow> Q (Inl e) es | Inr x \<Rightarrow> traced lg (f x) (\<lambda>r' es'. Q r' (es @ es')))"
  shows "traced lg (act_bind m f) Q"
  unfolding traced_def
proof (intro allI, clarsimp split: prod.splits)
  fix s r s'
  assume b: "act_bind m f s = (r, s')"
  obtain q s1 where q: "m s = (q, s1)" by force
  from tracedD [OF assms q] obtain es where es: "lg s1 = lg s @ es"
    "case q of Inl e \<Rightarrow> Q (Inl e) es | Inr x \<Rightarrow> traced lg (f x) (\<lambda>r' es'. Q r' (es @ es'))" by blast
  show "\<exists>es. lg s' = lg s @ es \<and> Q r es"
  proof (cases q)
    case (Inl e)
    with b q es show ?thesis by (auto simp: act_bind_def)
  next
    case (Inr x)
    with es have g: "traced lg (f x) (\<lambda>r' es'. Q r' (es @ es'))" by simp
    from Inr b q have "f x s1 = (r, s')" by (simp add: act_bind_def)
    from tracedD [OF g this] obtain es' where "lg s' = lg s1 @ es'" "Q r (es @ es')" by auto
    with es(1) show ?thesis by auto
  qed
qed

lemma traced_seq:
  assumes "traced lg m R" "\<And>e es. R (Inl e) es \<Longrightarrow> Q (Inl e) es"
    "\<And>x es. R (Inr x) es \<Longrightarrow> traced lg (f x) (\<lambda>r es'. Q r (es @ es'))"
  shows "traced lg (act_bind m f) Q"
  by (rule traced_bind, rule traced_mono [OF assms(1)]) (auto split: sum.split intro: assms)

lemma traced_handle [traced_rules]:
  assumes "traced lg m (\<lambda>r es. case r of Inl e \<Rightarrow> traced lg (f e) (\<lambda>r' es'. Q r' (es @ es'))
    | Inr x \<Rightarrow> traced lg (g x) (\<lambda>r' es'. Q r' (es @ es')))"
  shows "traced lg (act_handle m f g) Q"
  unfolding traced_iff
proof (intro allI impI)
  fix s r s'
  assume b: "act_handle m f g s = (r, s')"
  obtain q s1 where q: "m s = (q, s1)" by force
  from tracedD [OF assms q] obtain es where es: "lg s1 = lg s @ es"
    "case q of Inl e \<Rightarrow> traced lg (f e) (\<lambda>r' es'. Q r' (es @ es')) | Inr x \<Rightarrow> traced lg (g x) (\<lambda>r' es'. Q r' (es @ es'))" by blast
  obtain n where n: "n s1 = (r, s')" "traced lg n (\<lambda>r' es'. Q r' (es @ es'))"
    using b q es(2) by (cases q) (auto simp: act_handle_def)
  from tracedD [OF n(2,1)] obtain es' where "lg s' = lg s1 @ es'" "Q r (es @ es')" by auto
  with es(1) show "\<exists>es. lg s' = lg s @ es \<and> Q r es" by auto
qed

lemma traced_return [traced_rules]: "Q (Inr x) [] \<Longrightarrow> traced lg (act_return x) Q"
  by (simp add: traced_def act_simps)

lemma traced_raise [traced_rules]: "Q (Inl e) [] \<Longrightarrow> traced lg (act_raise e) Q"
  by (simp add: traced_def act_simps)

lemma traced_lift [traced_rules]: "Q r [] \<Longrightarrow> traced lg (act_lift r) Q"
  by (simp add: traced_def act_simps)

lemma traced_get [traced_rules]: "(\<And>x. Q (Inr x) []) \<Longrightarrow> traced lg (act_get f) Q"
  by (simp add: traced_def act_simps)

lemma traced_modify: "(\<And>s. lg (f s) = lg s @ es) \<Longrightarrow> Q (Inr ()) es \<Longrightarrow> traced lg (act_modify f) Q"
  by (simp add: traced_def act_simps)

lemma traced_silent: "(\<And>s. lg (snd (m s)) = lg s) \<Longrightarrow> (\<And>r. Q r []) \<Longrightarrow> traced lg m Q"
  unfolding traced_def by (auto split: prod.split) (metis append_Nil2 snd_conv)

lemma traced_if [traced_rules]: "(b \<Longrightarrow> traced lg m Q) \<Longrightarrow> (\<not> b \<Longrightarrow> traced lg m' Q) \<Longrightarrow> traced lg (if b then m else m') Q"
  by simp

lemma traced_option [traced_rules]:
  "(x = None \<Longrightarrow> traced lg m Q) \<Longrightarrow> (\<And>y. x = Some y \<Longrightarrow> traced lg (f y) Q) \<Longrightarrow>
     traced lg (case x of None \<Rightarrow> m | Some y \<Rightarrow> f y) Q"
  by (simp split: option.split)

section \<open>Order in a trace\<close>

text \<open>\<open>preceded C h es\<close>: every event of \<open>es\<close> satisfies \<open>C\<close> with the events before it, the latest first; \<open>h\<close> came earlier.\<close>

fun preceded :: "('e \<Rightarrow> 'e list \<Rightarrow> bool) \<Rightarrow> 'e list \<Rightarrow> 'e list \<Rightarrow> bool" where
  "preceded C h [] = True"
| "preceded C h (e # es) = (C e h \<and> preceded C (e # h) es)"

lemma preceded_append: "preceded C h (es @ es') \<longleftrightarrow> preceded C h es \<and> preceded C (rev es @ h) es'"
  by (induction es arbitrary: h) auto

lemma preceded_trivial: "(\<And>e h. e \<in> set es \<Longrightarrow> C e h) \<Longrightarrow> preceded C h es"
  by (induction es arbitrary: h) auto

lemma preceded_split: "preceded C h es \<Longrightarrow> es = us @ e # vs \<Longrightarrow> C e (rev us @ h)"
  by (simp add: preceded_append)

section \<open>Reasoning along a history\<close>

text \<open>
  \<open>along lg C m Q h\<close>: after the history \<open>h\<close> (latest first) every event \<open>m\<close> logs satisfies \<open>C\<close>, and its result
  and the history it leaves satisfy \<open>Q\<close>. The rules of \<open>along_rules\<close> follow the actions as weakest
  preconditions do.
\<close>

definition along :: "('s \<Rightarrow> 'e list) \<Rightarrow> ('e \<Rightarrow> 'e list \<Rightarrow> bool) \<Rightarrow> ('s, 'a) action \<Rightarrow> ('a result \<Rightarrow> 'e list \<Rightarrow> bool) \<Rightarrow> 'e list \<Rightarrow> bool" where
  "along lg C m Q h = traced lg m (\<lambda>r es. preceded C h es \<and> Q r (rev es @ h))"

named_theorems along_rules "actions along a history"

lemma along_mono: "along lg C m R h \<Longrightarrow> (\<And>r h'. R r h' \<Longrightarrow> Q r h') \<Longrightarrow> along lg C m Q h"
  unfolding along_def by (erule traced_mono) auto

lemma along_traced: "along lg C m Q [] \<Longrightarrow> traced lg m (\<lambda>r es. preceded C [] es \<and> Q r (rev es))"
  by (simp add: along_def)

lemma along_bind [along_rules]:
  assumes "along lg C m (\<lambda>r h'. case r of Inl e \<Rightarrow> Q (Inl e) h' | Inr x \<Rightarrow> along lg C (f x) Q h') h"
  shows "along lg C (act_bind m f) Q h"
  unfolding along_def
proof (rule traced_seq [OF assms [unfolded along_def]], goal_cases)
  case (2 x es)
  then have "traced lg (f x) (\<lambda>r es'. preceded C (rev es @ h) es' \<and> Q r (rev es' @ rev es @ h))" by simp
  then show ?case by (rule traced_mono) (use 2 in \<open>simp add: preceded_append\<close>)
qed simp

lemma along_seq:
  assumes "along lg C m R h" "\<And>e h'. R (Inl e) h' \<Longrightarrow> Q (Inl e) h'" "\<And>x h'. R (Inr x) h' \<Longrightarrow> along lg C (f x) Q h'"
  shows "along lg C (act_bind m f) Q h"
  by (rule along_bind, rule along_mono [OF assms(1)]) (auto split: sum.split intro: assms)

lemma along_handle [along_rules]:
  assumes "along lg C m (\<lambda>r h'. case r of Inl e \<Rightarrow> along lg C (f e) Q h' | Inr x \<Rightarrow> along lg C (g x) Q h') h"
  shows "along lg C (act_handle m f g) Q h"
  unfolding along_def
proof (rule traced_handle, rule traced_mono [OF assms [unfolded along_def [where m = m]]], goal_cases)
  case (1 r es)
  then show ?case
    by (cases r) (auto simp: along_def preceded_append elim!: traced_mono)
qed

lemma along_return [along_rules]: "Q (Inr x) h \<Longrightarrow> along lg C (act_return x) Q h"
  by (simp add: along_def traced_return)

lemma along_raise [along_rules]: "Q (Inl e) h \<Longrightarrow> along lg C (act_raise e) Q h"
  by (simp add: along_def traced_raise)

lemma along_lift [along_rules]: "Q r h \<Longrightarrow> along lg C (act_lift r) Q h"
  by (simp add: along_def traced_lift)

lemma along_get [along_rules]: "(\<And>x. Q (Inr x) h) \<Longrightarrow> along lg C (act_get f) Q h"
  by (simp add: along_def traced_get)

lemma along_if [along_rules]: "(b \<Longrightarrow> along lg C m Q h) \<Longrightarrow> (\<not> b \<Longrightarrow> along lg C m' Q h) \<Longrightarrow> along lg C (if b then m else m') Q h"
  by simp

lemma along_option [along_rules]:
  "(x = None \<Longrightarrow> along lg C m Q h) \<Longrightarrow> (\<And>y. x = Some y \<Longrightarrow> along lg C (f y) Q h) \<Longrightarrow>
     along lg C (case x of None \<Rightarrow> m | Some y \<Rightarrow> f y) Q h"
  by (simp split: option.split)

text \<open>An action that logs nothing, and one that logs one event.\<close>

lemma along_silent: "(\<And>s. lg (snd (m s)) = lg s) \<Longrightarrow> (\<And>r. Q r h) \<Longrightarrow> along lg C m Q h"
  unfolding along_def by (rule traced_silent) auto

lemma along_event: "(\<And>s. lg (f s) = lg s @ [e]) \<Longrightarrow> C e h \<Longrightarrow> Q (Inr ()) (e # h) \<Longrightarrow> along lg C (act_modify f) Q h"
  unfolding along_def by (rule traced_modify) auto

section \<open>Histories with an invariant\<close>

text \<open>
  \<open>hist lg J m Q h\<close>: from every state with the invariant \<open>J\<close> whose log is \<open>h\<close> (latest first), \<open>m\<close> keeps \<open>J\<close>, and its
  result and the log it leaves satisfy \<open>Q\<close>.
\<close>

definition hist :: "('s \<Rightarrow> 'e list) \<Rightarrow> ('s \<Rightarrow> bool) \<Rightarrow> ('s, 'a) action \<Rightarrow> ('a result \<Rightarrow> 'e list \<Rightarrow> bool) \<Rightarrow> 'e list \<Rightarrow> bool" where
  "hist lg J m Q h = (\<forall>s. J s \<longrightarrow> lg s = rev h \<longrightarrow> (case m s of (r, s') \<Rightarrow> J s' \<and> Q r (rev (lg s'))))"

text \<open>\<^verbatim>\<open>try ... finally\<close>.\<close>

definition act_finally :: "('s, 'a) action \<Rightarrow> ('s, unit) action \<Rightarrow> ('s, 'a) action" where
  "act_finally m f s = (case m s of (r, s') \<Rightarrow> (case f s' of (Inl e, s'') \<Rightarrow> (Inl e, s'') | (Inr _, s'') \<Rightarrow> (r, s'')))"

named_theorems hist_rules "actions along a history with an invariant"

lemma histI: "(\<And>s r s'. J s \<Longrightarrow> lg s = rev h \<Longrightarrow> m s = (r, s') \<Longrightarrow> J s' \<and> Q r (rev (lg s'))) \<Longrightarrow> hist lg J m Q h"
  by (auto simp: hist_def)

lemma histD: "hist lg J m Q h \<Longrightarrow> J s \<Longrightarrow> lg s = rev h \<Longrightarrow> m s = (r, s') \<Longrightarrow> J s' \<and> Q r (rev (lg s'))"
  by (auto simp: hist_def)

lemma hist_mono: "hist lg J m R h \<Longrightarrow> (\<And>r h'. R r h' \<Longrightarrow> Q r h') \<Longrightarrow> hist lg J m Q h"
  by (fastforce simp: hist_def)

lemma hist_bind [hist_rules]:
  assumes "hist lg J m (\<lambda>r h'. case r of Inl e \<Rightarrow> Q (Inl e) h' | Inr x \<Rightarrow> hist lg J (f x) Q h') h"
  shows "hist lg J (act_bind m f) Q h"
proof (rule histI)
  fix s r s'
  assume s: "J s" "lg s = rev h" and b: "act_bind m f s = (r, s')"
  obtain q s1 where q: "m s = (q, s1)" by force
  from histD [OF assms s q] b q show "J s' \<and> Q r (rev (lg s'))"
    by (cases q) (auto simp: act_bind_def hist_def)
qed

lemma hist_seq:
  assumes "hist lg J m R h" "\<And>e h'. R (Inl e) h' \<Longrightarrow> Q (Inl e) h'" "\<And>x h'. R (Inr x) h' \<Longrightarrow> hist lg J (f x) Q h'"
  shows "hist lg J (act_bind m f) Q h"
  by (rule hist_bind, rule hist_mono [OF assms(1)]) (auto split: sum.split intro: assms)

lemma hist_handle [hist_rules]:
  assumes "hist lg J m (\<lambda>r h'. case r of Inl e \<Rightarrow> hist lg J (f e) Q h' | Inr x \<Rightarrow> hist lg J (g x) Q h') h"
  shows "hist lg J (act_handle m f g) Q h"
proof (rule histI)
  fix s r s'
  assume s: "J s" "lg s = rev h" and b: "act_handle m f g s = (r, s')"
  obtain q s1 where q: "m s = (q, s1)" by force
  from histD [OF assms s q] b q show "J s' \<and> Q r (rev (lg s'))"
    by (cases q) (auto simp: act_handle_def hist_def)
qed

lemma hist_finally [hist_rules]:
  assumes "hist lg J m (\<lambda>r h'. hist lg J f (\<lambda>r' h''. case r' of Inl e \<Rightarrow> Q (Inl e) h'' | Inr _ \<Rightarrow> Q r h'') h') h"
  shows "hist lg J (act_finally m f) Q h"
proof (rule histI)
  fix s r s'
  assume s: "J s" "lg s = rev h" and b: "act_finally m f s = (r, s')"
  obtain q s1 where q: "m s = (q, s1)" by force
  obtain q' s2 where q': "f s1 = (q', s2)" by force
  from histD [OF assms s q] have "J s1" "hist lg J f (\<lambda>r' h''. case r' of Inl e \<Rightarrow> Q (Inl e) h'' | Inr _ \<Rightarrow> Q q h'') (rev (lg s1))"
    by auto
  from histD [OF this(2,1) _ q'] b q q' show "J s' \<and> Q r (rev (lg s'))"
    by (cases q') (auto simp: act_finally_def)
qed

lemma hist_return [hist_rules]: "Q (Inr x) h \<Longrightarrow> hist lg J (act_return x) Q h"
  by (simp add: hist_def act_simps)

lemma hist_raise [hist_rules]: "Q (Inl e) h \<Longrightarrow> hist lg J (act_raise e) Q h"
  by (simp add: hist_def act_simps)

lemma hist_lift [hist_rules]: "Q r h \<Longrightarrow> hist lg J (act_lift r) Q h"
  by (simp add: hist_def act_simps)

lemma hist_get: "(\<And>s. J s \<Longrightarrow> lg s = rev h \<Longrightarrow> Q (Inr (f s)) h) \<Longrightarrow> hist lg J (act_get f) Q h"
  by (simp add: hist_def act_simps)

lemma hist_if [hist_rules]: "(b \<Longrightarrow> hist lg J m Q h) \<Longrightarrow> (\<not> b \<Longrightarrow> hist lg J m' Q h) \<Longrightarrow> hist lg J (if b then m else m') Q h"
  by simp

lemma hist_option [hist_rules]:
  "(x = None \<Longrightarrow> hist lg J m Q h) \<Longrightarrow> (\<And>y. x = Some y \<Longrightarrow> hist lg J (f y) Q h) \<Longrightarrow>
     hist lg J (case x of None \<Rightarrow> m | Some y \<Rightarrow> f y) Q h"
  by (simp split: option.split)

section \<open>Actions that log only what is allowed\<close>

text \<open>\<open>yields lg C m P\<close>: whatever was logged before, all that \<open>m\<close> logs satisfies \<open>C\<close>, and when it returns, \<open>P\<close> holds.\<close>

definition yields :: "('s \<Rightarrow> 'e list) \<Rightarrow> ('e \<Rightarrow> 'e list \<Rightarrow> bool) \<Rightarrow> ('s, 'a) action \<Rightarrow> ('a \<Rightarrow> 'e list \<Rightarrow> bool) \<Rightarrow> bool" where
  "yields lg C m P = (\<forall>h. along lg C m (\<lambda>r h'. \<forall>x. r = Inr x \<longrightarrow> P x h') h)"

abbreviation plain :: "('s \<Rightarrow> 'e list) \<Rightarrow> ('e \<Rightarrow> 'e list \<Rightarrow> bool) \<Rightarrow> ('s, 'a) action \<Rightarrow> bool" where
  "plain lg C m \<equiv> yields lg C m (\<lambda>_ _. True)"

named_theorems yields_rules "actions that log only what is allowed"

lemma yieldsD:
  assumes "yields lg C m P" "m s = (r, s')"
  obtains es where "lg s' = lg s @ es" "preceded C h es" "\<forall>x. r = Inr x \<longrightarrow> P x (rev es @ h)"
proof -
  from assms(1) have "traced lg m (\<lambda>r es. preceded C h es \<and> (\<forall>x. r = Inr x \<longrightarrow> P x (rev es @ h)))"
    unfolding yields_def along_def by (rule spec)
  from tracedD [OF this assms(2)] that show thesis by blast
qed

lemma along_extends: "along lg C m Q h \<Longrightarrow> along lg C m (\<lambda>r h'. Q r h' \<and> (\<exists>es. h' = es @ h)) h"
  unfolding along_def by (erule traced_mono) auto

lemma along_yields:
  assumes "yields lg C m P" "\<And>e es. Q (Inl e) (es @ h)" "\<And>x es. P x (es @ h) \<Longrightarrow> Q (Inr x) (es @ h)"
  shows "along lg C m Q h"
proof -
  from assms(1) have "along lg C m (\<lambda>r h'. \<forall>x. r = Inr x \<longrightarrow> P x h') h" by (simp add: yields_def)
  from along_extends [OF this] show ?thesis
  proof (rule along_mono, goal_cases)
    case (1 r h')
    then obtain es where "h' = es @ h" by blast
    with 1 assms(2,3) show ?case by (cases r) simp_all
  qed
qed

lemma along_plain: "plain lg C m \<Longrightarrow> (\<And>r es. Q r (es @ h)) \<Longrightarrow> along lg C m Q h"
  by (rule along_yields) auto

lemma yields_weaken: "yields lg C m R \<Longrightarrow> (\<And>x h. R x h \<Longrightarrow> P x h) \<Longrightarrow> yields lg C m P"
  unfolding yields_def by (blast intro: along_mono)

lemma plainI: "yields lg C m R \<Longrightarrow> plain lg C m"
  by (erule yields_weaken) simp

lemma yields_bind [yields_rules]:
  assumes "plain lg C m" "\<And>x. yields lg C (f x) P"
  shows "yields lg C (act_bind m f) P"
  unfolding yields_def
  by (intro allI along_seq [OF along_plain [OF assms(1), where Q = "\<lambda>_ _. True"]]) (use assms(2) in \<open>auto simp: yields_def\<close>)

lemma yields_handle [yields_rules]:
  assumes "plain lg C m" "\<And>e. yields lg C (f e) P" "\<And>x. yields lg C (g x) P"
  shows "yields lg C (act_handle m f g) P"
  unfolding yields_def
  by (intro allI along_handle along_plain [OF assms(1)]) (use assms(2,3) in \<open>auto simp: yields_def split: sum.split\<close>)

lemma yields_catch:
  assumes "yields lg C m P" "\<And>e. yields lg C (f e) P"
  shows "yields lg C (act_handle m f act_return) P"
  unfolding yields_def
  by (intro allI along_handle along_yields [OF assms(1)]) (use assms(2) in \<open>auto simp: yields_def intro: along_return\<close>)

lemma yields_finally [yields_rules]:
  assumes "yields lg C m P" "plain lg C f" "\<And>x h es. P x h \<Longrightarrow> P x (es @ h)"
  shows "yields lg C (act_finally m f) P"
  unfolding yields_def along_def traced_iff
proof (intro allI impI)
  fix h s r s'
  assume b: "act_finally m f s = (r, s')"
  obtain q s1 where q: "m s = (q, s1)" by force
  obtain q' s2 where q': "f s1 = (q', s2)" by force
  from assms(1) q obtain es where es: "lg s1 = lg s @ es" "preceded C h es" "\<forall>x. q = Inr x \<longrightarrow> P x (rev es @ h)"
    by (rule yieldsD)
  from assms(2) q' obtain es' where es': "lg s2 = lg s1 @ es'" "preceded C (rev es @ h) es'"
    by (rule yieldsD)
  from b q q' have s2: "s' = s2" "r = (case q' of Inl e \<Rightarrow> Inl e | Inr _ \<Rightarrow> q)"
    by (auto simp: act_finally_def split: sum.splits)
  moreover have "P x (rev (es @ es') @ h)" if "r = Inr x" for x
    using that es(3) assms(3) s2(2) by (cases q') auto
  ultimately show "\<exists>es. lg s' = lg s @ es \<and> preceded C h es \<and> (\<forall>x. r = Inr x \<longrightarrow> P x (rev es @ h))"
    using es(1,2) es' s2(1) by (intro exI [of _ "es @ es'"]) (simp add: preceded_append)
qed

lemma yields_return [yields_rules]: "(\<And>h. P x h) \<Longrightarrow> yields lg C (act_return x) P"
  by (simp add: yields_def along_return)

lemma yields_raise [yields_rules]: "yields lg C (act_raise e) P"
  by (simp add: yields_def along_raise)

lemma plain_lift [yields_rules]: "plain lg C (act_lift r)"
  by (simp add: yields_def along_lift)

lemma plain_get [yields_rules]: "plain lg C (act_get f)"
  by (simp add: yields_def along_get)

lemma yields_if [yields_rules]: "(b \<Longrightarrow> yields lg C m P) \<Longrightarrow> (\<not> b \<Longrightarrow> yields lg C m' P) \<Longrightarrow> yields lg C (if b then m else m') P"
  by simp

lemma yields_option [yields_rules]:
  "(x = None \<Longrightarrow> yields lg C m P) \<Longrightarrow> (\<And>y. x = Some y \<Longrightarrow> yields lg C (f y) P) \<Longrightarrow>
     yields lg C (case x of None \<Rightarrow> m | Some y \<Rightarrow> f y) P"
  by (simp split: option.split)

lemma yields_pair [yields_rules]: "(\<And>a b. x = (a, b) \<Longrightarrow> yields lg C (f a b) P) \<Longrightarrow> yields lg C (case x of (a, b) \<Rightarrow> f a b) P"
  by (cases x) simp

lemma yields_let [yields_rules]: "yields lg C (f v) P \<Longrightarrow> yields lg C (let x = v in f x) P"
  by simp

lemma plain_silent: "(\<And>s. lg (snd (m s)) = lg s) \<Longrightarrow> plain lg C m"
  by (simp add: yields_def along_silent)

lemma plain_modify: "(\<And>s. lg (f s) = lg s) \<Longrightarrow> plain lg C (act_modify f)"
  by (rule plain_silent) (simp add: act_simps)

lemma yields_event: "(\<And>s. lg (f s) = lg s @ [e]) \<Longrightarrow> (\<And>h. C e h) \<Longrightarrow> (\<And>h. P () (e # h)) \<Longrightarrow> yields lg C (act_modify f) P"
  unfolding yields_def by (auto intro: along_event)

end
