(* ===== verification/PyFloat.thy ===== *)
theory PyFloat
  imports Prelude "HOL-Library.Log_Nat"
begin

text \<open>
  Python's \<^verbatim>\<open>float\<close> as IEEE 754 binary64: a finite float is the rational it denotes, and every
  arithmetic operation is the exact rational operation followed by \<open>fl\<close>, rounding to the
  nearest representable value, ties to even, with gradual underflow at exponent -1074. The
  theory shows what the components need of rounding: it is monotone, odd, the identity on
  integers and half integers of the sizes the code uses, and exact on its own results'
  negation. Overflow to infinity and not-a-number are not modelled: the magnitudes the code
  computes with (penalties, counts, block times) are far below \<open>2 ^ 1024\<close>.
\<close>

type_synonym pyfloat = rat

section \<open>Rounding to an integer\<close>

definition round_half_even :: "rat \<Rightarrow> int" where
  "round_half_even q =
     (let f = \<lfloor>q\<rfloor>; d = q - of_int f
      in if d < 1 / 2 then f else if 1 / 2 < d then f + 1 else if even f then f else f + 1)"

text \<open>\<^verbatim>\<open>int(x)\<close> truncates towards zero.\<close>

definition py_trunc :: "rat \<Rightarrow> int" where
  "py_trunc q = (if 0 \<le> q then \<lfloor>q\<rfloor> else - \<lfloor>- q\<rfloor>)"

lemma round_half_even_of_int [simp]: "round_half_even (of_int i) = i"
  by (simp add: round_half_even_def)

lemma round_half_even_bounds:
  "of_int (round_half_even q) \<le> q + 1 / 2" "q - 1 / 2 \<le> of_int (round_half_even q)"
proof -
  have f: "of_int \<lfloor>q\<rfloor> \<le> q" "q < of_int \<lfloor>q\<rfloor> + 1" by linarith+
  consider "q - of_int \<lfloor>q\<rfloor> < 1 / 2" | "1 / 2 < q - of_int \<lfloor>q\<rfloor>" | "q - of_int \<lfloor>q\<rfloor> = 1 / 2"
    by linarith
  then have "of_int (round_half_even q) \<le> q + 1 / 2 \<and> q - 1 / 2 \<le> of_int (round_half_even q)"
  proof cases
    case 1
    then have "round_half_even q = \<lfloor>q\<rfloor>" by (simp add: round_half_even_def)
    with 1 f show ?thesis by linarith
  next
    case 2
    then have "round_half_even q = \<lfloor>q\<rfloor> + 1" by (simp add: round_half_even_def)
    then have "(of_int (round_half_even q) :: rat) = of_int \<lfloor>q\<rfloor> + 1" by simp
    with 2 f show ?thesis by linarith
  next
    case 3
    have "(of_int (round_half_even q) :: rat) = of_int \<lfloor>q\<rfloor> \<or>
        (of_int (round_half_even q) :: rat) = of_int \<lfloor>q\<rfloor> + 1"
      by (simp add: round_half_even_def Let_def)
    with 3 f show ?thesis by linarith
  qed
  then show "of_int (round_half_even q) \<le> q + 1 / 2" "q - 1 / 2 \<le> of_int (round_half_even q)"
    by auto
qed

lemma round_half_even_cases:
  "round_half_even q = \<lfloor>q\<rfloor> \<or> round_half_even q = \<lfloor>q\<rfloor> + 1"
  by (simp add: round_half_even_def Let_def)

lemma round_half_even_mono: "p \<le> q \<Longrightarrow> round_half_even p \<le> round_half_even q"
proof -
  assume le: "p \<le> q"
  then have fle: "\<lfloor>p\<rfloor> \<le> \<lfloor>q\<rfloor>" by (rule floor_mono)
  show ?thesis
  proof (cases "\<lfloor>p\<rfloor> = \<lfloor>q\<rfloor>")
    case True
    then show ?thesis using le by (auto simp: round_half_even_def Let_def)
  next
    case False
    with fle have "\<lfloor>p\<rfloor> + 1 \<le> \<lfloor>q\<rfloor>" by simp
    then show ?thesis using round_half_even_cases [of p] round_half_even_cases [of q] by auto
  qed
qed

lemma round_half_even_minus: "round_half_even (- q) = - round_half_even q"
proof (cases "q = of_int \<lfloor>q\<rfloor>")
  case True
  then obtain i where "q = of_int i" by blast
  then show ?thesis using round_half_even_of_int [of "- i"] by simp
next
  case False
  have "of_int \<lfloor>q\<rfloor> \<le> q" "q < of_int \<lfloor>q\<rfloor> + 1" by linarith+
  with False have lt: "of_int \<lfloor>q\<rfloor> < q" by linarith
  have fm: "\<lfloor>- q\<rfloor> = - \<lfloor>q\<rfloor> - 1"
    using lt \<open>q < of_int \<lfloor>q\<rfloor> + 1\<close> by (intro floor_unique) auto
  show ?thesis
    by (auto simp: round_half_even_def Let_def fm field_simps)
qed

lemma round_half_even_le_int: "q \<le> of_int i \<Longrightarrow> round_half_even q \<le> i"
  using round_half_even_mono [of q "of_int i"] by simp

lemma round_half_even_ge_int: "of_int i \<le> q \<Longrightarrow> i \<le> round_half_even q"
  using round_half_even_mono [of "of_int i" q] by simp

lemma py_trunc_of_int [simp]: "py_trunc (of_int i) = i"
  by (simp add: py_trunc_def)

lemma py_trunc_nonneg: "0 \<le> q \<Longrightarrow> 0 \<le> py_trunc q"
  by (simp add: py_trunc_def)

lemma py_trunc_le: "0 \<le> q \<Longrightarrow> of_int (py_trunc q) \<le> q"
  by (simp add: py_trunc_def)

lemma py_trunc_mono: "p \<le> q \<Longrightarrow> py_trunc p \<le> py_trunc q"
proof -
  assume le: "p \<le> q"
  consider "0 \<le> p" | "p < 0" "0 \<le> q" | "q < 0" by linarith
  then show ?thesis
  proof cases
    case 1
    then show ?thesis using le by (simp add: py_trunc_def floor_mono)
  next
    case 2
    then have "0 \<le> \<lfloor>- p\<rfloor>" "0 \<le> \<lfloor>q\<rfloor>" by simp_all
    moreover have "py_trunc p = - \<lfloor>- p\<rfloor>" "py_trunc q = \<lfloor>q\<rfloor>"
      using 2 by (simp_all add: py_trunc_def)
    ultimately show ?thesis by linarith
  next
    case 3
    with le have "\<lfloor>- q\<rfloor> \<le> \<lfloor>- p\<rfloor>" by (intro floor_mono) simp
    with 3 le show ?thesis by (simp add: py_trunc_def)
  qed
qed

section \<open>The binary exponent\<close>

text \<open>
  \<open>ilog2 q\<close> is the exponent of the leading bit of a positive rational, computed from the bit
  lengths of its numerator and denominator.
\<close>

definition ilog2 :: "rat \<Rightarrow> int" where
  "ilog2 q =
     (let (a, b) = quotient_of q; k = bitlen a - bitlen b
      in if 2 powi k \<le> q then k else k - 1)"

lemma powi_le_iff: "(2::rat) powi m \<le> 2 powi n \<longleftrightarrow> m \<le> n"
  by (metis less_le_not_le linorder_linear one_less_numeral_iff power_int_increasing
      power_int_strict_increasing semiring_norm(76) less_imp_le)

lemma powi_less_iff: "(2::rat) powi m < 2 powi n \<longleftrightarrow> m < n"
  by (meson linorder_not_le powi_le_iff)

lemma powi_pos [simp]: "0 < (2::rat) powi n"
  by (simp add: zero_less_power_int)

lemma powi_Suc: "(2::rat) powi (n + 1) = 2 * 2 powi n"
  by (simp add: power_int_add_1')

lemma ilog2_bounds:
  assumes "0 < q"
  shows "2 powi (ilog2 q) \<le> q" "q < 2 powi (ilog2 q + 1)"
proof -
  obtain a b where ab: "quotient_of q = (a, b)" by force
  then have q: "q = of_int a / of_int b" by (rule quotient_of_div)
  have b: "0 < b" using ab by (rule quotient_of_denom_pos)
  have a: "0 < a" using assms b by (simp add: q zero_less_divide_iff)
  have la: "1 \<le> bitlen a" and lb: "1 \<le> bitlen b"
    using a b by (auto simp: bitlen_alt_def)
  have pw: "0 \<le> n \<Longrightarrow> (2::rat) powi n = of_int (2 ^ nat n)" for n
    by (simp add: power_int_nonneg_exp)
  have a1: "(2::rat) powi (bitlen a - 1) \<le> of_int a" and a2: "of_int a < (2::rat) powi bitlen a"
    using bitlen_bounds [OF a] la by (simp_all add: pw del: of_int_power)
  have b1: "(2::rat) powi (bitlen b - 1) \<le> of_int b" and b2: "of_int b < (2::rat) powi bitlen b"
    using bitlen_bounds [OF b] lb by (simp_all add: pw del: of_int_power)
  define k where "k = bitlen a - bitlen b"
  have up: "q < 2 powi (k + 1)"
  proof -
    have "q < 2 powi bitlen a / of_int b"
      using a2 b by (simp add: q divide_strict_right_mono)
    also have "\<dots> \<le> 2 powi bitlen a / 2 powi (bitlen b - 1)"
      using b1 by (intro divide_left_mono) (auto simp: b)
    also have "\<dots> = 2 powi (k + 1)"
      by (simp add: k_def flip: power_int_diff) (simp add: algebra_simps)
    finally show ?thesis .
  qed
  have lo: "2 powi (k - 1) \<le> q"
  proof -
    have "2 powi (k - 1) = (2::rat) powi (bitlen a - 1) / 2 powi bitlen b"
      by (simp add: k_def flip: power_int_diff) (simp add: algebra_simps)
    also have "\<dots> \<le> of_int a / 2 powi bitlen b"
      using a1 by (intro divide_right_mono) auto
    also have "\<dots> \<le> q"
      unfolding q using a b b2 by (intro divide_left_mono) auto
    finally show ?thesis .
  qed
  have il: "ilog2 q = (if 2 powi k \<le> q then k else k - 1)"
    by (simp add: ilog2_def ab k_def Let_def)
  show "2 powi (ilog2 q) \<le> q" using lo by (simp add: il)
  show "q < 2 powi (ilog2 q + 1)" using up by (simp add: il)
qed

lemma ilog2_unique:
  assumes "2 powi k \<le> q" "q < 2 powi (k + 1)"
  shows "ilog2 q = k"
proof -
  have "0 < q" using assms(1) powi_pos [of k] by linarith
  note b = ilog2_bounds [OF this]
  have "(2::rat) powi k < 2 powi (ilog2 q + 1)" using assms(1) b(2) by linarith
  moreover have "(2::rat) powi ilog2 q < 2 powi (k + 1)" using assms(2) b(1) by linarith
  ultimately show ?thesis by (simp add: powi_less_iff)
qed

lemma ilog2_mono: "0 < p \<Longrightarrow> p \<le> q \<Longrightarrow> ilog2 p \<le> ilog2 q"
proof -
  assume "0 < p" "p \<le> q"
  then have "2 powi ilog2 p \<le> p" "q < 2 powi (ilog2 q + 1)" by (auto intro: ilog2_bounds)
  with \<open>p \<le> q\<close> have "(2::rat) powi ilog2 p < 2 powi (ilog2 q + 1)" by linarith
  then show ?thesis by (simp add: powi_less_iff)
qed

section \<open>Rounding to a float\<close>

text \<open>The unit in the last place of a nonzero rational: 53 significant bits, at least -1074.\<close>

definition ulp_exp :: "rat \<Rightarrow> int" where
  "ulp_exp q = max (ilog2 \<bar>q\<bar> - 52) (- 1074)"

definition fl :: "rat \<Rightarrow> pyfloat" where
  "fl q = (if q = 0 then 0
           else of_int (round_half_even (q / 2 powi ulp_exp q)) * 2 powi ulp_exp q)"

definition is_float :: "rat \<Rightarrow> bool" where
  "is_float q = (fl q = q)"

lemma fl_0 [simp]: "fl 0 = 0"
  by (simp add: fl_def)

lemma fl_minus: "fl (- q) = - fl q"
  by (simp add: fl_def ulp_exp_def round_half_even_minus)

lemma fl_exact: "q = of_int m * 2 powi ulp_exp q \<Longrightarrow> fl q = q"
  by (metis fl_0 fl_def mult_cancel_right nonzero_mult_div_cancel_right power_int_not_zero
      round_half_even_of_int zero_neq_numeral)

lemma fl_le_boundary:
  assumes "0 < q" "q \<le> 2 powi k" "ulp_exp q \<le> k"
  shows "fl q \<le> 2 powi k"
proof -
  let ?e = "ulp_exp q"
  have "q / 2 powi ?e \<le> 2 powi (k - ?e)"
    using assms by (simp add: power_int_diff field_simps divide_right_mono)
  also have "\<dots> = of_int (2 ^ nat (k - ?e))"
    using assms(3) by (simp add: power_int_nonneg_exp)
  finally have "round_half_even (q / 2 powi ?e) \<le> 2 ^ nat (k - ?e)"
    by (rule round_half_even_le_int)
  then have "(of_int (round_half_even (q / 2 powi ?e)) :: rat) \<le> of_int (2 ^ nat (k - ?e))"
    by (simp only: of_int_le_iff)
  also have "\<dots> = 2 powi (k - ?e)" using assms(3) by (simp add: power_int_nonneg_exp)
  finally have "of_int (round_half_even (q / 2 powi ?e)) * 2 powi ?e \<le>
      (2::rat) powi (k - ?e) * 2 powi ?e"
    by (intro mult_right_mono) auto
  then show ?thesis using assms(1) by (simp add: fl_def flip: power_int_add)
qed

lemma fl_ge_boundary:
  assumes "0 < q" "2 powi k \<le> q" "ulp_exp q \<le> k"
  shows "2 powi k \<le> fl q"
proof -
  let ?e = "ulp_exp q"
  have "of_int (2 ^ nat (k - ?e)) = (2::rat) powi (k - ?e)"
    using assms(3) by (simp add: power_int_nonneg_exp)
  also have "\<dots> \<le> q / 2 powi ?e"
    using assms by (simp add: power_int_diff field_simps divide_right_mono)
  finally have "2 ^ nat (k - ?e) \<le> round_half_even (q / 2 powi ?e)"
    by (rule round_half_even_ge_int)
  then have "of_int (2 ^ nat (k - ?e)) \<le> (of_int (round_half_even (q / 2 powi ?e)) :: rat)"
    by (simp only: of_int_le_iff)
  then have "(2::rat) powi (k - ?e) * 2 powi ?e \<le>
      of_int (round_half_even (q / 2 powi ?e)) * 2 powi ?e"
    using assms(3) by (intro mult_right_mono) (simp_all add: power_int_nonneg_exp)
  then show ?thesis using assms(1) by (simp add: fl_def flip: power_int_add)
qed

lemma fl_nonneg: "0 \<le> q \<Longrightarrow> 0 \<le> fl q"
proof (cases "q = 0")
  case False
  assume "0 \<le> q"
  with False have "of_int 0 \<le> q / 2 powi ulp_exp q" by simp
  then have "0 \<le> round_half_even (q / 2 powi ulp_exp q)" by (rule round_half_even_ge_int)
  then show ?thesis by (simp add: fl_def)
qed simp

lemma fl_mono_pos:
  assumes "0 < p" "p \<le> q"
  shows "fl p \<le> fl q"
proof (cases "ulp_exp p = ulp_exp q")
  case True
  have "p / 2 powi ulp_exp q \<le> q / 2 powi ulp_exp q"
    using assms(2) by (intro divide_right_mono) auto
  then have "round_half_even (p / 2 powi ulp_exp q) \<le> round_half_even (q / 2 powi ulp_exp q)"
    by (rule round_half_even_mono)
  then show ?thesis using assms True by (simp add: fl_def mult_right_mono)
next
  case False
  have q: "0 < q" using assms by simp
  have "ilog2 p \<le> ilog2 q" using assms by (rule ilog2_mono)
  then have lt: "ulp_exp p < ulp_exp q" using False assms q by (auto simp: ulp_exp_def)
  define k where "k = ilog2 q"
  have kq: "2 powi k \<le> q" using ilog2_bounds(1) [OF q] by (simp add: k_def)
  have uq: "ulp_exp q = k - 52" using lt q by (auto simp: ulp_exp_def k_def)
  have pk: "p < 2 powi k"
  proof -
    have "ilog2 p < k" using lt assms(1) q by (auto simp: ulp_exp_def k_def)
    then have "(2::rat) powi (ilog2 p + 1) \<le> 2 powi k" by (simp add: powi_le_iff)
    with ilog2_bounds(2) [OF assms(1)] show ?thesis by linarith
  qed
  have "fl p \<le> 2 powi k" using assms(1) pk lt uq by (intro fl_le_boundary) auto
  also have "2 powi k \<le> fl q" using q kq uq by (intro fl_ge_boundary) auto
  finally show ?thesis .
qed

lemma fl_mono: "p \<le> q \<Longrightarrow> fl p \<le> fl q"
proof -
  assume le: "p \<le> q"
  consider "0 < p" | "p \<le> 0" "0 \<le> q" | "q < 0" by linarith
  then show ?thesis
  proof cases
    case 1
    then show ?thesis using le by (rule fl_mono_pos)
  next
    case 2
    then have "fl p \<le> 0" using fl_nonneg [of "- p"] by (simp add: fl_minus)
    also have "0 \<le> fl q" using 2 by (simp add: fl_nonneg)
    finally show ?thesis .
  next
    case 3
    with le have "fl (- q) \<le> fl (- p)" by (intro fl_mono_pos) auto
    then show ?thesis by (simp add: fl_minus)
  qed
qed

text \<open>Integers of at most 53 bits, and their halves, are floats.\<close>

lemma fl_dyadic:
  assumes "\<bar>m\<bar> < 2 ^ 53" "- 1074 \<le> e"
  shows "fl (of_int m * 2 powi e) = of_int m * 2 powi e"
proof (cases "m = 0")
  case False
  let ?q = "of_int m * 2 powi e :: rat"
  have q0: "0 < \<bar>?q\<bar>" using False by (simp add: abs_mult)
  have "\<bar>?q\<bar> < 2 powi (e + 53)"
  proof -
    have "(of_int \<bar>m\<bar> :: rat) < of_int (2 ^ 53)" using assms(1) by (simp only: of_int_less_iff)
    then have "of_int \<bar>m\<bar> * 2 powi e < 2 ^ 53 * (2::rat) powi e"
      by (intro mult_strict_right_mono) auto
    also have "\<dots> = 2 powi (e + 53)" by (simp add: power_int_add)
    finally show ?thesis by (simp add: abs_mult)
  qed
  with ilog2_bounds(1) [OF q0] have "(2::rat) powi ilog2 \<bar>?q\<bar> < 2 powi (e + 53)" by linarith
  then have "ilog2 \<bar>?q\<bar> < e + 53" by (simp add: powi_less_iff)
  then have le: "ulp_exp ?q \<le> e" using assms(2) by (simp add: ulp_exp_def)
  have "2 powi e = (2::rat) powi (e - ulp_exp ?q) * 2 powi ulp_exp ?q"
    by (simp flip: power_int_add)
  also have "(2::rat) powi (e - ulp_exp ?q) = of_int (2 ^ nat (e - ulp_exp ?q))"
    using le by (simp add: power_int_nonneg_exp)
  finally have "?q = of_int (m * 2 ^ nat (e - ulp_exp ?q)) * 2 powi ulp_exp ?q"
    by simp
  then show ?thesis by (rule fl_exact)
qed simp

lemma fl_of_int: "\<bar>m\<bar> < 2 ^ 53 \<Longrightarrow> fl (of_int m) = of_int m"
  using fl_dyadic [of m 0] by simp

lemma fl_half: "\<bar>m\<bar> < 2 ^ 53 \<Longrightarrow> fl (of_int m / 2) = of_int m / 2"
  using fl_dyadic [of m "- 1"] by (simp add: power_int_minus field_simps)

lemma fl_1 [simp]: "fl 1 = 1"
  using fl_of_int [of 1] by simp

lemma fl_le_int: "q \<le> of_int m \<Longrightarrow> \<bar>m\<bar> < 2 ^ 53 \<Longrightarrow> fl q \<le> of_int m"
  using fl_mono [of q "of_int m"] by (simp add: fl_of_int)

lemma fl_ge_int: "of_int m \<le> q \<Longrightarrow> \<bar>m\<bar> < 2 ^ 53 \<Longrightarrow> of_int m \<le> fl q"
  using fl_mono [of "of_int m" q] by (simp add: fl_of_int)

section \<open>Arithmetic\<close>

definition fadd :: "pyfloat \<Rightarrow> pyfloat \<Rightarrow> pyfloat" where "fadd x y = fl (x + y)"
definition fsub :: "pyfloat \<Rightarrow> pyfloat \<Rightarrow> pyfloat" where "fsub x y = fl (x - y)"
definition fmul :: "pyfloat \<Rightarrow> pyfloat \<Rightarrow> pyfloat" where "fmul x y = fl (x * y)"

text \<open>
  True division. Dividing by zero raises in Python; the model's callers guard the divisor as
  the code does. Dividing two integers is correctly rounded as well, so \<open>int_div\<close> is the same
  operation on the exact quotient.
\<close>

definition fdiv :: "pyfloat \<Rightarrow> pyfloat \<Rightarrow> pyfloat" where "fdiv x y = fl (x / y)"
definition int_div :: "int \<Rightarrow> int \<Rightarrow> pyfloat" where "int_div a b = fl (of_int a / of_int b)"

text \<open>\<^verbatim>\<open>sum\<close> over floats: the terms are added from the left, starting at 0.\<close>

definition fsum :: "pyfloat list \<Rightarrow> pyfloat" where
  "fsum xs = foldl fadd 0 xs"

lemma fadd_minus: "fadd (- x) (- y) = - fadd x y"
  using fl_minus [of "x + y"] by (simp add: fadd_def algebra_simps)

lemma fsub_swap: "fsub y x = - fsub x y"
  using fl_minus [of "x - y"] by (simp add: fsub_def)

lemma fsub_self [simp]: "fsub x x = 0"
  by (simp add: fsub_def)

lemma fadd_commute: "fadd x y = fadd y x"
  by (simp add: fadd_def add.commute)

lemma fsub_neg_iff: "\<bar>x\<bar> < 2 ^ 52 \<Longrightarrow> x < y \<Longrightarrow> fsub x y \<le> 0"
  using fl_mono [of "x - y" 0] by (simp add: fsub_def)

lemma int_div_minus: "int_div (- a) b = - int_div a b"
  using fl_minus [of "of_int a / of_int b"] by (simp add: int_div_def)

lemma int_div_mono: "0 < b \<Longrightarrow> a \<le> a' \<Longrightarrow> int_div a b \<le> int_div a' b"
  unfolding int_div_def by (intro fl_mono divide_right_mono) auto

lemma int_div_bounds:
  assumes "0 < b" "\<bar>a\<bar> \<le> b"
  shows "- 1 \<le> int_div a b" "int_div a b \<le> 1"
proof -
  have "(of_int a :: rat) \<le> of_int b" "- (of_int b :: rat) \<le> of_int a"
    using assms by (simp_all flip: of_int_minus)
  then have "(of_int a / of_int b :: rat) \<le> of_int 1" "of_int (- 1) \<le> (of_int a / of_int b :: rat)"
    using assms(1) by (simp_all add: field_simps)
  from fl_le_int [OF this(1)] fl_ge_int [OF this(2)]
  show "- 1 \<le> int_div a b" "int_div a b \<le> 1" by (simp_all add: int_div_def)
qed

section \<open>Printing\<close>

text \<open>
  The formats \<^verbatim>\<open>.nf\<close> and \<^verbatim>\<open>+.nf\<close>: the exact value rounded to \<open>n\<close> decimals, ties to even.
\<close>

definition show_fixed :: "nat \<Rightarrow> rat \<Rightarrow> string" where
  "show_fixed n x =
     (let c = nat (round_half_even (\<bar>x\<bar> * 10 ^ n)); ds = nat_digits (c mod 10 ^ n)
      in nat_digits (c div 10 ^ n) @
         (if n = 0 then [] else ''.'' @ replicate (n - length ds) (CHR ''0'') @ ds))"

definition show_signed :: "nat \<Rightarrow> rat \<Rightarrow> string" where
  "show_signed n x = (if x < 0 then ''-'' else ''+'') @ show_fixed n x"

end
