(* ===== verification/Competition.thy ===== *)
theory Competition
  imports PyFloat
begin

text \<open>
  The data every service shares, from \<^verbatim>\<open>shared/subnet_common/competition\<close>: round stages and
  state, configuration, schedule, leader history, submissions, generated results, match
  matrix, match reports, validation and audit verdicts, validation requests and the round
  result. Instants are integers, microseconds since the epoch in UTC; dates are day numbers.
  Documents are kept as typed values: the JSON codec (pydantic) is a library the sources call.
\<close>

section \<open>Time\<close>

type_synonym datetime = int
type_synonym timedelta = int

definition us_per_second :: int where "us_per_second = 1000000"
definition us_per_hour :: int where "us_per_hour = 3600000000"
definition us_per_day :: int where "us_per_day = 86400000000"

text \<open>\<^verbatim>\<open>t.date()\<close> and \<^verbatim>\<open>datetime.combine(date, time, tzinfo=UTC)\<close>.\<close>

definition dt_date :: "datetime \<Rightarrow> int" where
  "dt_date t = t div us_per_day"

definition dt_combine :: "int \<Rightarrow> int \<Rightarrow> datetime" where
  "dt_combine day tod = day * us_per_day + tod"

text \<open>
  \<^verbatim>\<open>timedelta.total_seconds()\<close> is a correctly rounded division; \<^verbatim>\<open>timedelta(hours=h)\<close> splits a
  float into its integral hours, exact, and its fraction, scaled in floating point and rounded
  to the nearest microsecond.
\<close>

definition total_seconds :: "timedelta \<Rightarrow> pyfloat" where
  "total_seconds d = int_div d us_per_second"

definition td_hours :: "pyfloat \<Rightarrow> timedelta" where
  "td_hours h = py_trunc h * us_per_hour
     + round_half_even (fl ((h - of_int (py_trunc h)) * of_int us_per_hour))"

lemma us_consts: "us_per_second = 1000000" "us_per_hour = 3600000000" "us_per_day = 86400000000"
  by (simp_all add: us_per_second_def us_per_hour_def us_per_day_def)

lemma dt_date_combine [simp]: "0 \<le> tod \<Longrightarrow> tod < us_per_day \<Longrightarrow> dt_date (dt_combine d tod) = d"
  by (simp add: dt_date_def dt_combine_def us_per_day_def)

lemma dt_combine_mono: "d \<le> e \<Longrightarrow> dt_combine d tod \<le> dt_combine e tod"
  by (simp add: dt_combine_def us_per_day_def)

lemma dt_date_mono: "s \<le> t \<Longrightarrow> dt_date s \<le> dt_date t"
  by (simp add: dt_date_def us_per_day_def zdiv_mono1)

lemma dt_date_add_days: "dt_date (t + k * us_per_day) = dt_date t + k"
  by (simp add: dt_date_def us_per_day_def)

section \<open>Stage and state\<close>

datatype round_stage =
  OPEN | MINER_GENERATION | COLLECTING | DUELS | FINALIZING | FINISHED | PAUSED

fun stage_value :: "round_stage \<Rightarrow> string" where
  "stage_value OPEN = ''open''"
| "stage_value MINER_GENERATION = ''miner_generation''"
| "stage_value COLLECTING = ''collecting''"
| "stage_value DUELS = ''duels''"
| "stage_value FINALIZING = ''finalizing''"
| "stage_value FINISHED = ''finished''"
| "stage_value PAUSED = ''paused''"

record competition_state =
  current_round :: int
  stage :: round_stage
  next_stage_eta :: "datetime option"

record competition_config =
  cfg_name :: string
  first_evaluation_date :: int
  last_competition_date :: int
  round_start_time :: int
  generation_stage_minutes :: int
  finalization_buffer_hours :: pyfloat
  win_margin :: pyfloat
  prompts_per_round :: int
  carryover_prompts :: int
  round_duration_days :: int

lemma stage_value_inj: "stage_value a = stage_value b \<Longrightarrow> a = b"
  by (cases a; cases b) simp_all

section \<open>Schedule\<close>

record round_schedule =
  earliest_reveal_block :: int
  latest_reveal_block :: int
  generation_deadline_block :: "int option"
  witness_storage_prefix :: string
  witness_save_submissions :: bool

definition segment_char :: "char \<Rightarrow> bool" where
  "segment_char c = (c \<in> set ''ABCDEFGHIJKLMNOPQRSTUVWXYZabcdefghijklmnopqrstuvwxyz0123456789_-'')"

text \<open>
  The validator's pattern \<^verbatim>\<open>(?:[A-Za-z0-9_-]+/)+\<close>, matched in full: cut at the slashes, the last
  piece is empty and every other one is a nonempty safe segment, and there is one at least.
\<close>

definition prefix_segments_ok :: "string \<Rightarrow> bool" where
  "prefix_segments_ok v =
     (let segs = split_on (CHR ''/'') v
      in 2 \<le> length segs \<and> last segs = [] \<and>
         list_all (\<lambda>s. s \<noteq> [] \<and> list_all segment_char s) (butlast segs))"

definition storage_prefix :: "string \<Rightarrow> string result" where
  "storage_prefix v =
     (if v \<noteq> [] \<and> (200 < length v \<or> \<not> prefix_segments_ok v)
      then Inl (ValueError ''Storage prefix must contain safe path segments and end in /'')
      else Inr v)"

definition validate_schedule :: "round_schedule \<Rightarrow> round_schedule result" where
  "validate_schedule s =
     (if (case generation_deadline_block s of None \<Rightarrow> False | Some d \<Rightarrow> d < 0)
      then Inl (ValidationError ''generation_deadline_block'')
      else rmap (\<lambda>_. s) (storage_prefix (witness_storage_prefix s)))"

lemma storage_prefix_id: "storage_prefix v = Inr w \<Longrightarrow> w = v"
  by (simp add: storage_prefix_def split: if_splits)

lemma prefix_ends_in_slash: "prefix_segments_ok v \<Longrightarrow> \<exists>p. v = p @ ''/''"
proof -
  have "2 \<le> length (split_on (CHR ''/'') v) \<Longrightarrow> last (split_on (CHR ''/'') v) = [] \<Longrightarrow>
      v \<noteq> [] \<and> last v = CHR ''/''"
  proof (induction v)
    case (Cons x v)
    show ?case
    proof (cases "x = CHR ''/''")
      case True
      show ?thesis
      proof (cases "v = []")
        case False
        have "2 \<le> length (split_on (CHR ''/'') v)"
        proof (rule ccontr)
          assume "\<not> ?thesis"
          then have "length (split_on (CHR ''/'') v) = 1"
            by (cases "split_on (CHR ''/'') v") (auto simp: not_le less_Suc_eq)
          then obtain p where p: "split_on (CHR ''/'') v = [p]" by (metis length_0_conv length_Suc_conv One_nat_def)
          with Cons.prems True have "p = []" by simp
          with p False show False by (cases v) (auto split: if_splits list.splits)
        qed
        with Cons True False show ?thesis by simp
      qed (use True in simp)
    next
      case False
      obtain y ys where y: "split_on (CHR ''/'') v = y # ys"
        by (cases "split_on (CHR ''/'') v") auto
      with Cons.prems False have "2 \<le> length (split_on (CHR ''/'') v)"
        "last (split_on (CHR ''/'') v) = []" by (auto split: if_splits)
      with Cons.IH show ?thesis by auto
    qed
  qed simp
  moreover assume "prefix_segments_ok v"
  ultimately have "v \<noteq> []" "last v = CHR ''/''"
    by (auto simp: prefix_segments_ok_def Let_def)
  then show ?thesis by (metis append_butlast_last_id)
qed

section \<open>Leader history\<close>

record leader_entry =
  le_hotkey :: string
  le_repo :: string
  le_commit :: string
  le_docker :: string
  le_weight :: pyfloat
  effective_block :: int

type_synonym leader_state = "leader_entry list"

definition get_leader :: "leader_state \<Rightarrow> int \<Rightarrow> leader_entry option" where
  "get_leader transitions block = find_first (\<lambda>e. effective_block e \<le> block) (rev transitions)"

definition get_latest :: "leader_state \<Rightarrow> leader_entry option" where
  "get_latest transitions = (if transitions = [] then None else Some (last transitions))"

definition leader_append :: "leader_state \<Rightarrow> leader_entry \<Rightarrow> leader_state result" where
  "leader_append transitions e =
     (if transitions \<noteq> [] \<and> effective_block e \<le> effective_block (last transitions)
      then Inl (ValueError ''New entry must have a later effective_block'')
      else Inr (transitions @ [e]))"

definition leaders_sorted :: "leader_state \<Rightarrow> bool" where
  "leaders_sorted ts = sorted_wrt (\<lambda>a b. effective_block a < effective_block b) ts"

lemma leader_append_sorted:
  "leaders_sorted ts \<Longrightarrow> leader_append ts e = Inr ts' \<Longrightarrow> leaders_sorted ts'"
proof -
  assume s: "leaders_sorted ts" and a: "leader_append ts e = Inr ts'"
  from a have ts': "ts' = ts @ [e]" and lt: "ts \<noteq> [] \<Longrightarrow> effective_block (last ts) < effective_block e"
    by (auto simp: leader_append_def split: if_splits)
  have "effective_block x < effective_block e" if x: "x \<in> set ts" for x
  proof -
    have ne: "ts \<noteq> []" using x by auto
    have "x = last ts \<or> effective_block x < effective_block (last ts)"
      using s x by (cases ts rule: rev_cases) (auto simp: leaders_sorted_def sorted_wrt_append)
    with lt [OF ne] show ?thesis by auto
  qed
  with s show ?thesis by (simp add: ts' leaders_sorted_def sorted_wrt_append)
qed

text \<open>With an append-only history, the active leader is the latest one already effective.\<close>

lemma get_leader_spec:
  assumes "leaders_sorted ts"
  shows "get_leader ts b = Some e \<longleftrightarrow>
    e \<in> set ts \<and> effective_block e \<le> b \<and>
    (\<forall>x\<in>set ts. effective_block x \<le> b \<longrightarrow> effective_block x \<le> effective_block e)"
    (is "?l \<longleftrightarrow> ?r")
proof
  assume ?l
  then obtain us vs where r: "rev ts = us @ e # vs" and e: "effective_block e \<le> b"
    and us: "\<forall>u\<in>set us. \<not> effective_block u \<le> b"
    by (auto simp: get_leader_def find_first_Some)
  have ts: "ts = rev vs @ e # rev us"
    using arg_cong [OF r, of rev] by simp
  have "\<forall>x\<in>set vs. effective_block x < effective_block e"
    using assms by (auto simp: leaders_sorted_def ts sorted_wrt_append)
  with us e show ?r by (auto simp: ts intro: less_imp_le)
next
  assume r: ?r
  then have "\<exists>x\<in>set (rev ts). effective_block x \<le> b" by auto
  then obtain e' where e': "get_leader ts b = Some e'"
    by (cases "get_leader ts b") (auto simp: get_leader_def find_first_None)
  then have mem: "e' \<in> set ts" "effective_block e' \<le> b"
    by (auto simp: get_leader_def dest: find_first_mem)
  obtain us vs where "rev ts = us @ e' # vs" "\<forall>u\<in>set us. \<not> effective_block u \<le> b"
    using e' by (auto simp: get_leader_def find_first_Some)
  note us = this(2)
  have ts: "ts = rev vs @ e' # rev us"
    using arg_cong [OF \<open>rev ts = us @ e' # vs\<close>, of rev] by simp
  have "effective_block e' \<le> effective_block e" using r mem by auto
  moreover have "\<forall>x\<in>set vs. effective_block x < effective_block e'"
    using assms by (auto simp: leaders_sorted_def ts sorted_wrt_append)
  ultimately have "e = e'" using r us by (auto simp: ts)
  with e' show ?l by simp
qed

section \<open>Submissions and generated results\<close>

record miner_submission =
  ms_repo :: string
  ms_commit :: string
  revealed_at_block :: int
  tie_breaker :: string
  ms_round :: string

record generation_result =
  gen_js :: "string option"
  gen_views :: "string option"
  gen_failure_reason :: "string option"
  gen_size :: int

definition empty_generation :: generation_result where
  "empty_generation = \<lparr>gen_js = None, gen_views = None, gen_failure_reason = None, gen_size = 0\<rparr>"

definition is_failed :: "generation_result \<Rightarrow> bool" where
  "is_failed g = (gen_failure_reason g \<noteq> None)"

type_synonym generations_map = "(string, generation_result) dict"

section \<open>Match matrix and reports\<close>

type_synonym match_matrix = "(string \<times> string, pyfloat) dict"

definition matrix_add :: "match_matrix \<Rightarrow> string \<Rightarrow> string \<Rightarrow> pyfloat \<Rightarrow> match_matrix" where
  "matrix_add m left right margin = dset (left, right) margin m"

definition matrix_has :: "match_matrix \<Rightarrow> string \<Rightarrow> string \<Rightarrow> bool" where
  "matrix_has m left right = dhas m (left, right)"

definition matrix_get :: "match_matrix \<Rightarrow> string \<Rightarrow> string \<Rightarrow> pyfloat option" where
  "matrix_get m left right = dget m (left, right)"

definition matrix_len :: "match_matrix \<Rightarrow> nat" where
  "matrix_len m = length m"

lemma matrix_has_get: "matrix_has m l r \<longleftrightarrow> matrix_get m l r \<noteq> None"
  by (simp add: matrix_has_def matrix_get_def dhas_def)

lemma matrix_get_add [simp]:
  "matrix_get (matrix_add m l r x) l' r' = (if l' = l \<and> r' = r then Some x else matrix_get m l' r')"
  by (auto simp: matrix_get_def matrix_add_def)

lemma matrix_has_add [simp]:
  "matrix_has (matrix_add m l r x) l' r' \<longleftrightarrow> (l' = l \<and> r' = r) \<or> matrix_has m l' r'"
  by (auto simp: matrix_has_get)

datatype duel_winner = WIN_LEFT | WIN_RIGHT | WIN_DRAW | WIN_SKIPPED

text \<open>The winner of the same duel with the sides exchanged.\<close>

fun flip_winner :: "duel_winner \<Rightarrow> duel_winner" where
  "flip_winner WIN_LEFT = WIN_RIGHT"
| "flip_winner WIN_RIGHT = WIN_LEFT"
| "flip_winner w = w"

record duel_report =
  dr_name :: string
  dr_prompt :: string
  dr_left_js :: "string option"
  dr_left_png :: "string option"
  dr_right_js :: "string option"
  dr_right_png :: "string option"
  dr_winner :: duel_winner

record match_report =
  mr_left :: string
  mr_right :: string
  mr_score :: int
  mr_margin :: pyfloat
  mr_duels :: "duel_report list"

record round_result =
  winner_hotkey :: string
  rr_repo :: string
  rr_commit :: string

section \<open>Verdicts and requests\<close>

datatype verdict = PASSED | FAILED

record audit_result =
  ar_hotkey :: string
  ar_verdict :: verdict
  ar_reason :: string

record validation_result =
  vr_verdict :: verdict
  vr_reason :: string

definition validate_result :: "validation_result \<Rightarrow> validation_result result" where
  "validate_result r =
     (if vr_verdict r = FAILED \<and> strip (vr_reason r) = []
      then Inl (ValueError ''Failed validation requires a reason'') else Inr r)"

text \<open>Requests are deduplicated by hotkey: the append-only list is its dictionary's values.\<close>

type_synonym validation_requests = "(string, string) dict"

definition request_add :: "validation_requests \<Rightarrow> string \<Rightarrow> bool \<times> validation_requests" where
  "request_add rs hotkey =
     (if dhas rs hotkey then (False, rs) else (True, dset hotkey hotkey rs))"

fun requests_from_list :: "string list \<Rightarrow> validation_requests \<Rightarrow> validation_requests" where
  "requests_from_list [] rs = rs"
| "requests_from_list (h # hs) rs = requests_from_list hs (snd (request_add rs h))"

definition requests_to_list :: "validation_requests \<Rightarrow> string list" where
  "requests_to_list rs = dvalues rs"

definition requests_ok :: "validation_requests \<Rightarrow> bool" where
  "requests_ok rs = (dict_ok rs \<and> (\<forall>(k, v)\<in>set rs. v = k))"

lemma request_add_ok: "requests_ok rs \<Longrightarrow> requests_ok (snd (request_add rs h))"
proof -
  assume ok: "requests_ok rs"
  have d: "dict_ok (snd (request_add rs h))"
    using ok by (simp add: requests_ok_def request_add_def)
  have "v = k" if kv: "(k, v) \<in> set (snd (request_add rs h))" for k v
  proof -
    have "dget (snd (request_add rs h)) k = Some v" using d kv by (rule dget_of_mem)
    then have "v = k \<or> dget rs k = Some v"
      by (auto simp: request_add_def split: if_splits)
    then show ?thesis using ok by (auto simp: requests_ok_def dest!: dget_mem)
  qed
  with d show ?thesis by (auto simp: requests_ok_def)
qed

lemma requests_to_list_keys: "requests_ok rs \<Longrightarrow> requests_to_list rs = dkeys rs"
  by (auto simp: requests_ok_def requests_to_list_def)

lemma request_add_list:
  "requests_ok rs \<Longrightarrow> requests_to_list (snd (request_add rs h)) =
     (if h \<in> set (requests_to_list rs) then requests_to_list rs else requests_to_list rs @ [h])"
  using requests_to_list_keys [OF request_add_ok, of rs h]
  by (auto simp: requests_to_list_keys request_add_def dhas_iff dkeys_dset)

lemma requests_from_list_append:
  "requests_ok rs \<Longrightarrow> distinct (requests_to_list rs @ hs) \<Longrightarrow>
     requests_to_list (requests_from_list hs rs) = requests_to_list rs @ hs"
proof (induction hs rs rule: requests_from_list.induct)
  case (2 h hs rs)
  then have "requests_to_list (snd (request_add rs h)) = requests_to_list rs @ [h]"
    by (simp add: request_add_list)
  with 2 show ?case by (simp add: request_add_ok)
qed simp

text \<open>Saving the requests and reading them back gives the same list.\<close>

lemma requests_roundtrip:
  "requests_ok rs \<Longrightarrow>
     requests_to_list (requests_from_list (requests_to_list rs) []) = requests_to_list rs"
proof -
  assume ok: "requests_ok rs"
  then have "distinct (requests_to_list rs)"
    by (simp add: requests_to_list_keys) (simp add: requests_ok_def)
  then show ?thesis
    using requests_from_list_append [of "[]" "requests_to_list rs"]
    by (simp add: requests_ok_def requests_to_list_def)
qed

section \<open>Prompts\<close>

definition require_prompts :: "string option \<Rightarrow> string list result" where
  "require_prompts content =
     (case content of None \<Rightarrow> Inl (FileNotFoundError ''prompts.txt'')
      | Some c \<Rightarrow> Inr (filter (\<lambda>l. l \<noteq> []) (split_on (CHR 0x0A) (strip c))))"

section \<open>Properties of the leader history\<close>

text \<open>
  Appending a transition keeps the leader history in order of effective blocks, and changes
  the active leader exactly from the new effective block on: before it, every block has the leader
  it had.
\<close>

theorem leader_append_effective:
  assumes "leaders_sorted ts" "leader_append ts e = Inr ts'"
  shows "leaders_sorted ts' \<and>
    (\<forall>b. get_leader ts' b = (if effective_block e \<le> b then Some e else get_leader ts b))"
  using leader_append_sorted [OF assms] assms(2)
  by (auto simp: leader_append_def get_leader_def split: if_splits)

definition example_leader :: "string \<Rightarrow> int \<Rightarrow> leader_entry" where
  "example_leader h b = \<lparr>le_hotkey = h, le_repo = [], le_commit = [], le_docker = [], le_weight = 1, effective_block = b\<rparr>"

theorem leader_append_effective_witness:
  "get_leader [example_leader ''a'' 10, example_leader ''b'' 20] 19 = Some (example_leader ''a'' 10) \<and>
   get_leader [example_leader ''a'' 10, example_leader ''b'' 20] 20 = Some (example_leader ''b'' 20)"
proof -
  have "leaders_sorted [example_leader ''a'' 10]" by (simp add: leaders_sorted_def)
  moreover have "leader_append [example_leader ''a'' 10] (example_leader ''b'' 20) =
    Inr [example_leader ''a'' 10, example_leader ''b'' 20]"
    by (simp add: leader_append_def example_leader_def)
  ultimately show ?thesis
    using leader_append_effective [of "[example_leader ''a'' 10]" "example_leader ''b'' 20"]
    by (simp add: get_leader_def example_leader_def)
qed

end
