(* ===== verification/Timeline.thy ===== *)
theory Timeline
  imports Competition
begin

text \<open>
  The judge's tournament timeline, from \<^verbatim>\<open>judge_service/timeline.py\<close>: which candidates
  qualifies, which beat the defender of their moment, which were rejected by a verdict, and
  whether the round can be finalized. The lemmas characterise the chain of winners, its
  verification, the effect of a rejection, and the pairs of miners still to be played.
\<close>

section \<open>Entries\<close>

datatype entry_status = WON | LOST | PENDING | REJECTED

record timeline_entry =
  te_hotkey :: string
  te_status :: entry_status
  te_defender :: string
  te_margin :: "pyfloat option"
  te_verified :: bool
  te_reason :: "string option"

type_synonym timeline = "timeline_entry list"

type_synonym validation_map = "(string, validation_result) dict"
type_synonym audit_map = "(string, audit_result) dict"

definition leaders :: "timeline \<Rightarrow> timeline" where
  "leaders es = filter (\<lambda>e. te_status e = WON) es"

definition next_match :: "timeline \<Rightarrow> (string \<times> string) option" where
  "next_match es = map_option (\<lambda>e. (te_defender e, te_hotkey e))
     (find_first (\<lambda>e. te_status e = PENDING) es)"

definition winner :: "timeline \<Rightarrow> string" where
  "winner es = (if leaders es \<noteq> [] then te_hotkey (last (leaders es)) else ''leader'')"

fun is_finalized :: "timeline \<Rightarrow> bool" where
  "is_finalized [] = True"
| "is_finalized (e # es) =
     (if te_status e = PENDING then False
      else if te_status e = WON \<and> \<not> te_verified e then False
      else is_finalized es)"

fun unplayed_right :: "match_matrix \<Rightarrow> string \<Rightarrow> string list \<Rightarrow> string option" where
  "unplayed_right m left [] = None"
| "unplayed_right m left (r # rs) =
     (if \<not> matrix_has m left r then Some r else unplayed_right m left rs)"

fun unplayed_pair :: "match_matrix \<Rightarrow> string list \<Rightarrow> (string \<times> string) option" where
  "unplayed_pair m [] = None"
| "unplayed_pair m (left # rest) =
     (case unplayed_right m left rest of
        Some r \<Rightarrow> Some (left, r)
      | None \<Rightarrow> unplayed_pair m rest)"

definition find_exploratory_duel :: "timeline \<Rightarrow> match_matrix \<Rightarrow> (string \<times> string) option" where
  "find_exploratory_duel es m =
     unplayed_pair m (map te_hotkey (filter (\<lambda>e. te_status e \<noteq> REJECTED) es))"

section \<open>Deriving the timeline\<close>

definition candidate_rejection_reason ::
  "validation_result option \<Rightarrow> audit_result option \<Rightarrow> string option" where
  "candidate_rejection_reason validation source_audit =
     (case validation of
        Some v \<Rightarrow>
          if vr_verdict v = FAILED then Some (''validation: '' @ vr_reason v)
          else (case source_audit of
                  Some a \<Rightarrow> if ar_verdict a = FAILED
                    then Some (''source audit'' @
                      (if ar_reason a \<noteq> [] then '': '' @ take 64 (ar_reason a) else []))
                    else None
                | None \<Rightarrow> None)
      | None \<Rightarrow>
          (case source_audit of
             Some a \<Rightarrow> if ar_verdict a = FAILED
               then Some (''source audit'' @
                 (if ar_reason a \<noteq> [] then '': '' @ take 64 (ar_reason a) else []))
               else None
           | None \<Rightarrow> None))"

definition passed_both :: "validation_map \<Rightarrow> audit_map \<Rightarrow> string \<Rightarrow> bool" where
  "passed_both V A h =
     ((case dget A h of None \<Rightarrow> False | Some a \<Rightarrow> ar_verdict a = PASSED) \<and>
      (case dget V h of None \<Rightarrow> False | Some v \<Rightarrow> vr_verdict v = PASSED))"

fun derive_from :: "match_matrix \<Rightarrow> pyfloat \<Rightarrow> validation_map \<Rightarrow> audit_map \<Rightarrow>
    string \<Rightarrow> bool \<Rightarrow> string list \<Rightarrow> timeline" where
  "derive_from m w V A defender dv [] = []"
| "derive_from m w V A defender dv (h # hs) =
     (case matrix_get m ''leader'' h of
        None \<Rightarrow> derive_from m w V A defender dv hs
      | Some q \<Rightarrow>
        if q < w then derive_from m w V A defender dv hs
        else
        (case candidate_rejection_reason (dget V h) (dget A h) of
           Some reason \<Rightarrow>
             \<lparr>te_hotkey = h, te_status = REJECTED, te_defender = defender, te_margin = None,
              te_verified = False, te_reason = Some reason\<rparr> # derive_from m w V A defender dv hs
         | None \<Rightarrow>
           (case matrix_get m defender h of
              None \<Rightarrow>
                \<lparr>te_hotkey = h, te_status = PENDING, te_defender = defender, te_margin = None,
                 te_verified = False, te_reason = None\<rparr> # derive_from m w V A defender dv hs
            | Some margin \<Rightarrow>
              if margin < w then
                \<lparr>te_hotkey = h, te_status = LOST, te_defender = defender, te_margin = Some margin,
                 te_verified = False, te_reason = None\<rparr> # derive_from m w V A defender dv hs
              else
                (let verified = dv \<and> passed_both V A h
                 in \<lparr>te_hotkey = h, te_status = WON, te_defender = defender,
                     te_margin = Some margin, te_verified = verified, te_reason = None\<rparr>
                    # derive_from m w V A h verified hs))))"

definition derive :: "string list \<Rightarrow> match_matrix \<Rightarrow> pyfloat \<Rightarrow> validation_map \<Rightarrow> audit_map \<Rightarrow> timeline" where
  "derive hs m w V A = derive_from m w V A ''leader'' True hs"

section \<open>Rendering\<close>

text \<open>The format \<^verbatim>\<open>:+.2%\<close>: the float times 100, with two decimals and an explicit sign.\<close>

definition show_pct :: "pyfloat \<Rightarrow> string" where
  "show_pct x = show_signed 2 (fmul x 100) @ ''%''"

definition render_entry :: "nat \<Rightarrow> timeline_entry \<Rightarrow> string" where
  "render_entry i e =
     (let hotkey = take 10 (te_hotkey e); defender = take 10 (te_defender e);
          margin = (case te_margin e of None \<Rightarrow> [] | Some x \<Rightarrow> show_pct x);
          n = nat_digits i
      in case te_status e of
           WON \<Rightarrow> ''  '' @ n @ ''. '' @ hotkey @ ''  won '' @ margin @ '' vs '' @ defender @ ''  ['' @
             (if te_verified e then ''verified'' else ''unverified'') @ '']''
         | PENDING \<Rightarrow> ''  '' @ n @ ''. '' @ hotkey @ ''  pending''
         | LOST \<Rightarrow> ''  '' @ n @ ''. '' @ hotkey @ ''  lost to '' @ defender @ '' ('' @ margin @ '')''
         | REJECTED \<Rightarrow> ''  '' @ n @ ''. '' @ hotkey @ ''  rejected: '' @
             (case te_reason e of None \<Rightarrow> ''None'' | Some r \<Rightarrow> r))"

fun render_entries :: "nat \<Rightarrow> timeline \<Rightarrow> string list" where
  "render_entries i [] = []"
| "render_entries i (e # es) = render_entry i e # render_entries (Suc i) es"

definition render_timeline :: "timeline \<Rightarrow> string" where
  "render_timeline es =
     (if es = [] then ''leader (no qualifiers)''
      else join_with [CHR 0x0A]
        (''leader'' # render_entries 1 es @
         (if leaders es \<noteq> [] then [''Current leader: '' @ take 10 (te_hotkey (last (leaders es)))] else [])))"

section \<open>The chain of winners\<close>

definition qualifies :: "match_matrix \<Rightarrow> pyfloat \<Rightarrow> string \<Rightarrow> bool" where
  "qualifies m w h = (case matrix_get m ''leader'' h of None \<Rightarrow> False | Some q \<Rightarrow> w \<le> q)"

definition is_rejected :: "validation_map \<Rightarrow> audit_map \<Rightarrow> string \<Rightarrow> bool" where
  "is_rejected V A h = (candidate_rejection_reason (dget V h) (dget A h) \<noteq> None)"

lemma is_rejected_iff:
  "is_rejected V A h \<longleftrightarrow>
     (\<exists>v. dget V h = Some v \<and> vr_verdict v = FAILED) \<or>
     (\<exists>a. dget A h = Some a \<and> ar_verdict a = FAILED)"
  by (auto simp: is_rejected_def candidate_rejection_reason_def split: option.splits)

lemma passed_not_rejected: "passed_both V A h \<Longrightarrow> \<not> is_rejected V A h"
  by (auto simp: passed_both_def is_rejected_iff split: option.splits)

lemma is_finalized_iff:
  "is_finalized es \<longleftrightarrow> (\<forall>e\<in>set es. te_status e \<noteq> PENDING \<and> (te_status e = WON \<longrightarrow> te_verified e))"
  by (induction es) auto

text \<open>
  The state a prefix of the timeline leaves behind: the defender (the last winner, or the given
  one) and whether every winner so far is verified.
\<close>

fun chain_defender :: "string \<Rightarrow> timeline \<Rightarrow> string" where
  "chain_defender d [] = d"
| "chain_defender d (e # es) = chain_defender (if te_status e = WON then te_hotkey e else d) es"

lemma chain_defender_append [simp]:
  "chain_defender d (us @ vs) = chain_defender (chain_defender d us) vs"
  by (induction us arbitrary: d) auto

lemma chain_defender_winner: "chain_defender ''leader'' es = winner es"
proof -
  have "chain_defender d es = (if leaders es \<noteq> [] then te_hotkey (last (leaders es)) else d)" for d
    by (induction es arbitrary: d) (auto simp: leaders_def)
  then show ?thesis by (simp add: winner_def)
qed

definition entry_ok :: "match_matrix \<Rightarrow> pyfloat \<Rightarrow> validation_map \<Rightarrow> audit_map \<Rightarrow> timeline_entry \<Rightarrow> bool" where
  "entry_ok m w V A e =
     (case te_status e of
        REJECTED \<Rightarrow> is_rejected V A (te_hotkey e)
      | PENDING \<Rightarrow> \<not> is_rejected V A (te_hotkey e) \<and>
          matrix_get m (te_defender e) (te_hotkey e) = None
      | LOST \<Rightarrow> \<not> is_rejected V A (te_hotkey e) \<and>
          (case matrix_get m (te_defender e) (te_hotkey e) of None \<Rightarrow> False
           | Some x \<Rightarrow> x < w \<and> te_margin e = Some x)
      | WON \<Rightarrow> \<not> is_rejected V A (te_hotkey e) \<and>
          (case matrix_get m (te_defender e) (te_hotkey e) of None \<Rightarrow> False
           | Some x \<Rightarrow> w \<le> x \<and> te_margin e = Some x))"

lemma derive_from_Cons:
  assumes "qualifies m w h"
  shows "\<exists>f d' dv'. derive_from m w V A d dv (h # hs) = f # derive_from m w V A d' dv' hs \<and>
     te_defender f = d \<and> entry_ok m w V A f \<and> d' = chain_defender d [f] \<and>
     (te_status f = WON \<longrightarrow> te_verified f = (dv \<and> passed_both V A (te_hotkey f)) \<and> dv' = te_verified f) \<and>
     (te_status f \<noteq> WON \<longrightarrow> dv' = dv)"
proof -
  from assms obtain q where q: "matrix_get m ''leader'' h = Some q" "\<not> q < w"
    by (auto simp: qualifies_def split: option.splits)
  consider r where "candidate_rejection_reason (dget V h) (dget A h) = Some r"
    | "candidate_rejection_reason (dget V h) (dget A h) = None" "matrix_get m d h = None"
    | x where "candidate_rejection_reason (dget V h) (dget A h) = None" "matrix_get m d h = Some x" "x < w"
    | x where "candidate_rejection_reason (dget V h) (dget A h) = None" "matrix_get m d h = Some x" "\<not> x < w"
    by fastforce
  then show ?thesis
    by cases (simp_all add: q entry_ok_def is_rejected_def Let_def)
qed

lemma derive_from_split:
  "derive_from m w V A d dv hs = us @ e # vs \<Longrightarrow>
     te_defender e = chain_defender d us \<and> entry_ok m w V A e \<and>
     (te_status e = WON \<longrightarrow>
        te_verified e = (dv \<and> passed_both V A (te_hotkey e) \<and>
                         (\<forall>x\<in>set us. te_status x = WON \<longrightarrow> passed_both V A (te_hotkey x))))"
proof (induction hs arbitrary: d dv us)
  case (Cons h hs)
  show ?case
  proof (cases "qualifies m w h")
    case False
    then have "derive_from m w V A d dv hs = us @ e # vs"
      using Cons.prems by (auto simp: qualifies_def split: option.splits if_splits)
    then show ?thesis by (rule Cons.IH)
  next
    case True
    from derive_from_Cons [OF this, of V A d dv hs] obtain f d' dv' where
      f: "derive_from m w V A d dv (h # hs) = f # derive_from m w V A d' dv' hs"
      and fd: "te_defender f = d" and ok: "entry_ok m w V A f" and d': "d' = chain_defender d [f]"
      and w: "te_status f = WON \<Longrightarrow> te_verified f = (dv \<and> passed_both V A (te_hotkey f)) \<and> dv' = te_verified f"
      and nw: "te_status f \<noteq> WON \<Longrightarrow> dv' = dv" by blast
    show ?thesis
    proof (cases us)
      case Nil
      with Cons.prems f have "e = f" by simp
      with Nil fd ok w show ?thesis by auto
    next
      case (Cons u us')
      with Cons.prems f have u: "u = f" and r: "derive_from m w V A d' dv' hs = us' @ e # vs" by simp_all
      from Cons.IH [OF r] show ?thesis
        using w nw by (auto simp: Cons u d')
    qed
  qed
qed simp

lemma derive_hotkeys: "map te_hotkey (derive_from m w V A d dv hs) = filter (qualifies m w) hs"
proof (induction hs arbitrary: d dv)
  case (Cons h hs)
  then show ?case
    by (auto simp: qualifies_def Let_def split: option.splits)
qed simp

lemma derive_split:
  assumes "derive hs m w V A = us @ e # vs"
  shows "te_defender e = winner us" "entry_ok m w V A e"
    "te_status e = WON \<Longrightarrow> te_verified e \<longleftrightarrow>
       (\<forall>x\<in>set (leaders (us @ [e])). passed_both V A (te_hotkey x))"
  using derive_from_split [OF assms [unfolded derive_def]]
  by (auto simp: chain_defender_winner leaders_def)

lemma derive_mem_split:
  "e \<in> set (derive hs m w V A) \<Longrightarrow> \<exists>us vs. derive hs m w V A = us @ e # vs"
  by (meson split_list)

lemma derive_hotkey_mem:
  "e \<in> set (derive hs m w V A) \<Longrightarrow> te_hotkey e \<in> set hs \<and> qualifies m w (te_hotkey e)"
proof -
  assume "e \<in> set (derive hs m w V A)"
  then have "te_hotkey e \<in> set (map te_hotkey (derive hs m w V A))" by simp
  then show ?thesis by (simp add: derive_def derive_hotkeys)
qed

text \<open>
  A rejected candidate leaves no trace on the others: without it the derivation continues with
  the same defender, so every other entry is the same.
\<close>

lemma derive_without_rejected:
  "derive_from m w V A d dv (filter (\<lambda>h. \<not> is_rejected V A h) hs) =
     filter (\<lambda>e. te_status e \<noteq> REJECTED) (derive_from m w V A d dv hs)"
proof (induction hs arbitrary: d dv)
  case (Cons h hs)
  show ?case
  proof (cases "is_rejected V A h")
    case True
    with Cons.IH show ?thesis
      by (auto simp: is_rejected_def split: option.splits)
  next
    case False
    then have "candidate_rejection_reason (dget V h) (dget A h) = None" by (simp add: is_rejected_def)
    with Cons.IH False show ?thesis by (auto simp: Let_def split: option.splits)
  qed
qed simp

section \<open>Pairs still to play\<close>

text \<open>
  \<open>before xs l r\<close>: \<open>l\<close> stands before \<open>r\<close> in the order of the submissions. The pairs the judge
  can ever play are those of the list that starts with the incumbent.
\<close>

fun ordered_pairs :: "'a list \<Rightarrow> ('a \<times> 'a) list" where
  "ordered_pairs [] = []"
| "ordered_pairs (x # xs) = map (Pair x) xs @ ordered_pairs xs"

definition unplayed :: "match_matrix \<Rightarrow> string list \<Rightarrow> nat" where
  "unplayed m hs = length (filter (\<lambda>(l, r). \<not> matrix_has m l r) (ordered_pairs (''leader'' # hs)))"

lemma length_ordered_pairs: "2 * length (ordered_pairs xs) = length xs * (length xs - 1)"
proof (induction xs)
  case (Cons x xs)
  then show ?case by (cases xs) (auto simp: algebra_simps)
qed simp

lemma ordered_pairs_split:
  "(l, r) \<in> set (ordered_pairs xs) \<longleftrightarrow> (\<exists>as bs. xs = as @ l # bs \<and> r \<in> set bs)"
proof (induction xs)
  case (Cons x xs)
  show ?case
  proof
    assume "(l, r) \<in> set (ordered_pairs (x # xs))"
    then consider "l = x" "r \<in> set xs" | "(l, r) \<in> set (ordered_pairs xs)" by auto
    then show "\<exists>as bs. x # xs = as @ l # bs \<and> r \<in> set bs"
    proof cases
      case 1
      then have "x # xs = [] @ l # xs" "r \<in> set xs" by simp_all
      then show ?thesis by blast
    next
      case 2
      with Cons.IH obtain as bs where "xs = as @ l # bs" "r \<in> set bs" by blast
      then have "x # xs = (x # as) @ l # bs" "r \<in> set bs" by simp_all
      then show ?thesis by blast
    qed
  next
    assume "\<exists>as bs. x # xs = as @ l # bs \<and> r \<in> set bs"
    then obtain as bs where "x # xs = as @ l # bs" "r \<in> set bs" by blast
    with Cons.IH show "(l, r) \<in> set (ordered_pairs (x # xs))"
      by (cases as) auto
  qed
qed simp

lemma ordered_pairs_mono: "subseq xs ys \<Longrightarrow> set (ordered_pairs xs) \<subseteq> set (ordered_pairs ys)"
  by (induction rule: list_emb.induct) (auto dest: list_emb_set)

lemma unplayed_right_Some:
  "unplayed_right m l rs = Some r \<Longrightarrow> r \<in> set rs \<and> \<not> matrix_has m l r"
  by (induction rs) (auto split: if_splits)

lemma unplayed_right_None:
  "unplayed_right m l rs = None \<longleftrightarrow> (\<forall>r\<in>set rs. matrix_has m l r)"
  by (induction rs) auto

lemma unplayed_pair_Some:
  "unplayed_pair m xs = Some (l, r) \<Longrightarrow> (l, r) \<in> set (ordered_pairs xs) \<and> \<not> matrix_has m l r"
proof (induction xs)
  case (Cons x xs)
  then show ?case
    by (cases "unplayed_right m x xs") (auto dest: unplayed_right_Some)
qed simp

lemma unplayed_pair_None:
  "unplayed_pair m xs = None \<longleftrightarrow> (\<forall>(l, r)\<in>set (ordered_pairs xs). matrix_has m l r)"
proof (induction xs)
  case (Cons x xs)
  then show ?case
    using unplayed_right_None [of m x xs] by (auto split: option.splits)
qed simp

lemma unplayed_add_less:
  assumes "(l, r) \<in> set (ordered_pairs (''leader'' # hs))" "\<not> matrix_has m l r"
  shows "unplayed (matrix_add m l r x) hs < unplayed m hs"
proof -
  let ?P = "\<lambda>(a, b). \<not> matrix_has m a b" and ?Q = "\<lambda>(a, b). \<not> matrix_has (matrix_add m l r x) a b"
  have "length (filter ?Q ps) \<le> length (filter ?P ps) \<and>
      ((l, r) \<in> set ps \<longrightarrow> length (filter ?Q ps) < length (filter ?P ps))" for ps
    using assms(2) by (induction ps) auto
  with assms(1) show ?thesis unfolding unplayed_def by blast
qed

lemma subseq_derive_hotkeys: "subseq (map te_hotkey (filter P (derive hs m w V A))) hs"
proof -
  have "subseq (map te_hotkey (filter P (derive hs m w V A))) (map te_hotkey (derive hs m w V A))"
    by (intro subseq_map subseq_filter_left)
  also have "subseq (map te_hotkey (derive hs m w V A)) hs"
    by (simp add: derive_def derive_hotkeys)
  finally (subseq_order.trans) show ?thesis .
qed

lemma exploratory_pair:
  assumes "find_exploratory_duel (derive hs m w V A) m = Some (l, r)"
  shows "(l, r) \<in> set (ordered_pairs (''leader'' # hs))" "\<not> matrix_has m l r"
proof -
  from assms unplayed_pair_Some have
    p: "(l, r) \<in> set (ordered_pairs (map te_hotkey (filter (\<lambda>e. te_status e \<noteq> REJECTED) (derive hs m w V A))))"
    and "\<not> matrix_has m l r" by (auto simp: find_exploratory_duel_def)
  then show "\<not> matrix_has m l r" by simp
  have "(l, r) \<in> set (ordered_pairs hs)"
    using ordered_pairs_mono [OF subseq_derive_hotkeys] p by (rule subsetD)
  then show "(l, r) \<in> set (ordered_pairs (''leader'' # hs))" by simp
qed

lemma winner_prefix_mem: "leaders us \<noteq> [] \<Longrightarrow> \<exists>e\<in>set us. te_hotkey e = winner us"
proof -
  assume ne: "leaders us \<noteq> []"
  then have "last (leaders us) \<in> set (leaders us)" by (rule last_in_set)
  then have "last (leaders us) \<in> set us" by (simp add: leaders_def)
  with ne show ?thesis by (auto simp: winner_def)
qed

lemma next_match_pair:
  assumes "next_match (derive hs m w V A) = Some (d, h)"
  shows "(d, h) \<in> set (ordered_pairs (''leader'' # hs))" "\<not> matrix_has m d h" "h \<in> set hs"
proof -
  let ?es = "derive hs m w V A"
  from assms obtain us e vs where sp: "?es = us @ e # vs" and p: "te_status e = PENDING"
    and dh: "d = te_defender e" "h = te_hotkey e"
    by (auto simp: next_match_def find_first_Some)
  note s = derive_split [OF sp]
  show "\<not> matrix_has m d h" using s(2) p by (simp add: entry_ok_def matrix_has_get dh)
  show h: "h \<in> set hs" using derive_hotkey_mem [of e hs m w V A] sp by (simp add: dh)
  show "(d, h) \<in> set (ordered_pairs (''leader'' # hs))"
  proof (cases "leaders us = []")
    case True
    then have "d = ''leader''" by (simp add: dh s(1) winner_def)
    with h show ?thesis by simp
  next
    case False
    then obtain u where u: "u \<in> set us" "te_hotkey u = d"
      using winner_prefix_mem by (auto simp: dh s(1))
    then obtain as bs where "us = as @ u # bs" by (meson split_list)
    then have "map te_hotkey ?es = map te_hotkey as @ d # map te_hotkey (bs @ e # vs)"
      using sp u by simp
    then have "(d, h) \<in> set (ordered_pairs (map te_hotkey ?es))"
      unfolding ordered_pairs_split using dh(2) by force
    moreover have "subseq (map te_hotkey ?es) hs" by (simp add: derive_def derive_hotkeys)
    ultimately show ?thesis using ordered_pairs_mono by auto
  qed
qed

section \<open>Properties of the timeline\<close>

lemma filter_status_simps:
  "leaders (filter (\<lambda>e. te_status e \<noteq> REJECTED) es) = leaders es"
  "next_match (filter (\<lambda>e. te_status e \<noteq> REJECTED) es) = next_match es"
  "is_finalized (filter (\<lambda>e. te_status e \<noteq> REJECTED) es) = is_finalized es"
  "find_exploratory_duel (filter (\<lambda>e. te_status e \<noteq> REJECTED) es) m = find_exploratory_duel es m"
  by (induction es) (auto simp: leaders_def next_match_def find_exploratory_duel_def)

definition example_validation :: "verdict \<Rightarrow> validation_result" where
  "example_validation v = \<lparr>vr_verdict = v, vr_reason = []\<rparr>"

definition example_audit :: "verdict \<Rightarrow> audit_result" where
  "example_audit v = \<lparr>ar_hotkey = [], ar_verdict = v, ar_reason = []\<rparr>"

text \<open>Miners a, b, c qualify; a beats the leader, c is rejected, b has not met a yet.\<close>

definition example_matrix :: match_matrix where
  "example_matrix = matrix_add (matrix_add (matrix_add [] ''leader'' ''a'' (1 / 2)) ''leader'' ''b'' (1 / 4))
     ''leader'' ''c'' (1 / 4)"

definition example_verdicts :: validation_map where
  "example_verdicts = [(''a'', example_validation PASSED), (''c'', example_validation FAILED)]"

definition example_audits :: audit_map where
  "example_audits = [(''a'', example_audit PASSED)]"

text \<open>
  C5: Every entry of the derived timeline is exactly what the matrix and the verdicts say: the
  entries are the qualifying miners in submission order; the defender of an entry is the winner of
  the entries before it; the entry is rejected exactly when a verdict failed, otherwise pending
  when the pair was not played, lost below the win margin and won from it on; and a win is verified
  exactly when every winner up to it passed both the source audit and the validation.
\<close>

theorem timeline_entries_sound:
  "map te_hotkey (derive hs m w V A) = filter (qualifies m w) hs \<and>
   (\<forall>us e vs. derive hs m w V A = us @ e # vs \<longrightarrow>
      (let h = te_hotkey e; margin = matrix_get m (te_defender e) h
       in te_defender e = winner us \<and>
          (te_status e = REJECTED \<longleftrightarrow> is_rejected V A h) \<and>
          (te_status e = PENDING \<longleftrightarrow> \<not> is_rejected V A h \<and> margin = None) \<and>
          (te_status e = LOST \<longleftrightarrow> \<not> is_rejected V A h \<and> (\<exists>x. margin = Some x \<and> x < w)) \<and>
          (te_status e = WON \<longleftrightarrow> \<not> is_rejected V A h \<and> (\<exists>x. margin = Some x \<and> w \<le> x)) \<and>
          (te_status e = WON \<longrightarrow>
             (te_verified e \<longleftrightarrow> (\<forall>x\<in>set (leaders (us @ [e])). passed_both V A (te_hotkey x))))))"
proof (intro conjI allI impI)
  show "map te_hotkey (derive hs m w V A) = filter (qualifies m w) hs"
    by (simp add: derive_def derive_hotkeys)
next
  fix us e vs
  assume sp: "derive hs m w V A = us @ e # vs"
  note d = derive_split [OF sp]
  from d(2) show "let h = te_hotkey e; margin = matrix_get m (te_defender e) h
       in te_defender e = winner us \<and>
          (te_status e = REJECTED \<longleftrightarrow> is_rejected V A h) \<and>
          (te_status e = PENDING \<longleftrightarrow> \<not> is_rejected V A h \<and> margin = None) \<and>
          (te_status e = LOST \<longleftrightarrow> \<not> is_rejected V A h \<and> (\<exists>x. margin = Some x \<and> x < w)) \<and>
          (te_status e = WON \<longleftrightarrow> \<not> is_rejected V A h \<and> (\<exists>x. margin = Some x \<and> w \<le> x)) \<and>
          (te_status e = WON \<longrightarrow>
             (te_verified e \<longleftrightarrow> (\<forall>x\<in>set (leaders (us @ [e])). passed_both V A (te_hotkey x))))"
    unfolding Let_def entry_ok_def
    using d(1,3) by (cases "te_status e") (auto split: option.splits)
qed

theorem timeline_entries_sound_witness:
  "te_defender (derive [''a'', ''b'', ''c''] example_matrix (1 / 10) example_verdicts example_audits ! 1) = ''a'' \<and>
   map te_status (derive [''a'', ''b'', ''c''] example_matrix (1 / 10) example_verdicts example_audits) =
     [WON, PENDING, REJECTED]"
proof -
  let ?es = "derive [''a'', ''b'', ''c''] example_matrix (1 / 10) example_verdicts example_audits"
  have st: "map te_status ?es = [WON, PENDING, REJECTED]" by code_simp
  then have l: "length ?es = 3" by (metis length_map length_Cons list.size(3) numeral_3_eq_3)
  then have sp: "?es = take 1 ?es @ ?es ! 1 # drop 2 ?es" by (simp add: id_take_nth_drop numeral_2_eq_2)
  have "winner (take 1 ?es) = ''a''" by code_simp
  moreover have "te_defender (?es ! 1) = winner (take 1 ?es)"
    using conjunct2 [OF timeline_entries_sound [of "[''a'', ''b'', ''c'']" example_matrix "1 / 10"
        example_verdicts example_audits], rule_format, OF sp] by (simp only: Let_def)
  ultimately show ?thesis using st by simp
qed

lemma finalized_winner:
  assumes "is_finalized (derive hs m w V A)"
  shows "let es = derive hs m w V A
    in (\<forall>e\<in>set (leaders es). passed_both V A (te_hotkey e)) \<and>
       (\<forall>h\<in>set hs. qualifies m w h \<longrightarrow> is_rejected V A h \<or> (\<exists>d. matrix_has m d h \<and>
           (\<exists>e\<in>set es. te_hotkey e = h \<and> te_defender e = d))) \<and>
       (winner es = ''leader'' \<or>
        winner es \<in> set hs \<and> qualifies m w (winner es) \<and> passed_both V A (winner es) \<and>
        (\<exists>d x. matrix_get m d (winner es) = Some x \<and> w \<le> x))"
proof -
  let ?es = "derive hs m w V A"
  have fin: "te_status e \<noteq> PENDING" "te_status e = WON \<Longrightarrow> te_verified e" if "e \<in> set ?es" for e
    using assms that by (auto simp: is_finalized_iff)
  have lead: "passed_both V A (te_hotkey e)" if e: "e \<in> set (leaders ?es)" for e
  proof -
    from e have m: "e \<in> set ?es" "te_status e = WON" by (auto simp: leaders_def)
    from m(1) obtain us vs where sp: "?es = us @ e # vs" using derive_mem_split by blast
    with fin(2) [OF m] derive_split(3) [OF sp m(2)] m(2) show ?thesis by (auto simp: leaders_def)
  qed
  have ok: "entry_ok m w V A e" if "e \<in> set ?es" for e
    using derive_mem_split [OF that] derive_split(2) by blast
  have played: "is_rejected V A h \<or> (\<exists>d. matrix_has m d h \<and> (\<exists>e\<in>set ?es. te_hotkey e = h \<and> te_defender e = d))"
    if "h \<in> set hs" "qualifies m w h" for h
  proof -
    have "h \<in> set (map te_hotkey ?es)" using that by (simp add: derive_def derive_hotkeys)
    then obtain e where e: "e \<in> set ?es" "te_hotkey e = h" by auto
    from ok [OF e(1)] fin(1) [OF e(1)] have "is_rejected V A h \<or> matrix_has m (te_defender e) h"
      by (cases "te_status e") (auto simp: entry_ok_def e(2) matrix_has_get split: option.splits)
    with e show ?thesis by blast
  qed
  have win: "winner ?es \<in> set hs \<and> qualifies m w (winner ?es) \<and> passed_both V A (winner ?es) \<and>
      (\<exists>d x. matrix_get m d (winner ?es) = Some x \<and> w \<le> x)" if "winner ?es \<noteq> ''leader''"
  proof -
    have ne: "leaders ?es \<noteq> []" using that by (auto simp: winner_def)
    let ?e = "last (leaders ?es)"
    have e: "?e \<in> set (leaders ?es)" using ne by simp
    then have m: "?e \<in> set ?es" "te_status ?e = WON" by (auto simp: leaders_def)
    have "winner ?es = te_hotkey ?e" using ne by (simp add: winner_def)
    then show ?thesis
      using lead [OF e] derive_hotkey_mem [OF m(1)] ok [OF m(1)] m(2)
      by (auto simp: entry_ok_def split: option.splits)
  qed
  show ?thesis unfolding Let_def using lead played win by blast
qed

text \<open>
  A finalized timeline is safe to act on: nobody who qualifies is still waiting for a match,
  every winner in the chain passed the source audit and the validation, and so the winner of the
  round is either the incumbent or a miner of the round with both verdicts passed who beat the
  defender of its moment by the margin.
\<close>

theorem finalized_winner_verified:
  assumes "is_finalized (derive hs m w V A)"
  shows "let es = derive hs m w V A
    in (\<forall>e\<in>set (leaders es). passed_both V A (te_hotkey e)) \<and>
       (\<forall>h\<in>set hs. qualifies m w h \<longrightarrow> is_rejected V A h \<or> (\<exists>d. matrix_has m d h \<and>
           (\<exists>e\<in>set es. te_hotkey e = h \<and> te_defender e = d))) \<and>
       (winner es = ''leader'' \<or>
        winner es \<in> set hs \<and> qualifies m w (winner es) \<and> passed_both V A (winner es) \<and>
        (\<exists>d x. matrix_get m d (winner es) = Some x \<and> w \<le> x))"
  using assms by (rule finalized_winner)

theorem finalized_winner_verified_witness:
  "winner (derive [''a'', ''c''] example_matrix (1 / 10) example_verdicts example_audits) = ''a'' \<and>
   passed_both example_verdicts example_audits ''a''"
proof -
  have "is_finalized (derive [''a'', ''c''] example_matrix (1 / 10) example_verdicts example_audits)" by code_simp
  from finalized_winner_verified [OF this]
  have "winner (derive [''a'', ''c''] example_matrix (1 / 10) example_verdicts example_audits) = ''leader'' \<or>
    passed_both example_verdicts example_audits
      (winner (derive [''a'', ''c''] example_matrix (1 / 10) example_verdicts example_audits))"
    unfolding Let_def by blast
  moreover have "winner (derive [''a'', ''c''] example_matrix (1 / 10) example_verdicts example_audits) = ''a''"
    by code_simp
  ultimately show ?thesis by simp
qed

text \<open>
  A rejection is the same as never having submitted: removing the rejected miners from the
  submissions changes no other entry, nor the chain of leaders, the next match, the pair explored
  in idle time, or whether the round can be finalized.
\<close>

theorem rejection_is_removal:
  "let es = derive hs m w V A; es' = derive (filter (\<lambda>h. \<not> is_rejected V A h) hs) m w V A
   in es' = filter (\<lambda>e. te_status e \<noteq> REJECTED) es \<and> leaders es' = leaders es \<and>
      next_match es' = next_match es \<and> is_finalized es' = is_finalized es \<and>
      find_exploratory_duel es' m = find_exploratory_duel es m"
  by (simp add: Let_def derive_def derive_without_rejected filter_status_simps)

end
