(* ===== verification/Png.thy ===== *)
theory Png
  imports PyFloat
begin

text \<open>
  The judge's inline PNG reader and the foreground statistics of the gray-background rescue,
  from \<^verbatim>\<open>judge_service/judges/multi_stage.py\<close>. Bytes are integers from 0 to 255;
  \<open>inflate\<close> (zlib's decompressor) is a parameter. The lemmas show that the reader undoes the
  five scanline filters of the PNG format, that every row it returns has the image's stride
  and holds bytes, and that the statistics do not depend on the order of the two images.
\<close>

type_synonym bytes = "int list"

section \<open>Chunks\<close>

definition bytes_of :: "string \<Rightarrow> bytes" where
  "bytes_of s = map of_char s"

definition png_magic :: bytes where
  "png_magic = [137, 80, 78, 71, 13, 10, 26, 10]"

text \<open>\<^verbatim>\<open>struct.unpack(">I", \<dots>)\<close> wants exactly four bytes.\<close>

fun unpack_u32 :: "bytes \<Rightarrow> int result" where
  "unpack_u32 [a, b, c, d] = Inr (((a * 256 + b) * 256 + c) * 256 + d)"
| "unpack_u32 _ = Inl (PyException ''struct.error'')"

record png_header =
  png_width :: int
  png_height :: int
  png_bit_depth :: int
  png_color_type :: int

definition unpack_header :: "bytes \<Rightarrow> png_header result" where
  "unpack_header chunk =
     (if length chunk \<noteq> 13 then Inl (PyException ''struct.error'')
      else rbind (unpack_u32 (take 4 chunk)) (\<lambda>w.
           rbind (unpack_u32 (take 4 (drop 4 chunk))) (\<lambda>h.
             Inr \<lparr>png_width = w, png_height = h, png_bit_depth = chunk ! 8,
                  png_color_type = chunk ! 9\<rparr>)))"

text \<open>
  The chunk loop: length, type, data and checksum. A slice past the end is shorter, as in
  Python; a short length field is an error.
\<close>

function png_chunks :: "bytes \<Rightarrow> png_header option \<Rightarrow> bytes \<Rightarrow> (png_header option \<times> bytes) result" where
  "png_chunks data hdr compressed =
     (if data = [] then Inr (hdr, compressed)
      else
        (case unpack_u32 (take 4 data) of
           Inl e \<Rightarrow> Inl e
         | Inr n \<Rightarrow>
             (let typ = take 4 (drop 4 data);
                  chunk = take (nat n) (drop 8 data);
                  rest = drop (8 + nat n + 4) data
              in if typ = bytes_of ''IHDR'' then
                   (case unpack_header chunk of Inl e \<Rightarrow> Inl e
                    | Inr h \<Rightarrow> png_chunks rest (Some h) compressed)
                 else if typ = bytes_of ''IDAT'' then png_chunks rest hdr (compressed @ chunk)
                 else if typ = bytes_of ''IEND'' then Inr (hdr, compressed)
                 else png_chunks rest hdr compressed)))"
  by pat_completeness auto
termination
  by (relation "measure (\<lambda>(data, _, _). length data)") auto

declare png_chunks.simps [simp del]

section \<open>Scanline filters\<close>

definition paeth :: "int \<Rightarrow> int \<Rightarrow> int \<Rightarrow> int" where
  "paeth left up upper_left =
     (let p = left + up - upper_left; dl = \<bar>p - left\<bar>; du = \<bar>p - up\<bar>; dul = \<bar>p - upper_left\<bar>
      in if dl \<le> du \<and> dl \<le> dul then left else if du \<le> dul then up else upper_left)"

text \<open>
  The predictor at position \<open>i\<close> of a row, from the bytes of the row decoded so far and the
  previous row.
\<close>

definition predictor :: "int \<Rightarrow> nat \<Rightarrow> bytes \<Rightarrow> bytes \<Rightarrow> nat \<Rightarrow> int result" where
  "predictor filter_type bpp previous row i =
     (let left = (if bpp \<le> i then row ! (i - bpp) else 0);
          up = previous ! i;
          upper_left = (if bpp \<le> i then previous ! (i - bpp) else 0)
      in if filter_type = 0 then Inr 0
         else if filter_type = 1 then Inr left
         else if filter_type = 2 then Inr up
         else if filter_type = 3 then Inr ((left + up) div 2)
         else if filter_type = 4 then Inr (paeth left up upper_left)
         else Inl (ValueError ''Unsupported PNG filter''))"

fun unfilter :: "int \<Rightarrow> nat \<Rightarrow> bytes \<Rightarrow> bytes \<Rightarrow> bytes \<Rightarrow> bytes result" where
  "unfilter ft bpp previous row [] = Inr row"
| "unfilter ft bpp previous row (v # vs) =
     (case predictor ft bpp previous row (length row) of
        Inl e \<Rightarrow> Inl e
      | Inr p \<Rightarrow> unfilter ft bpp previous (row @ [(v + p) mod 256]) vs)"

text \<open>A short last scanline leaves the rest of its row at zero.\<close>

definition pad_row :: "nat \<Rightarrow> bytes \<Rightarrow> bytes" where
  "pad_row stride row = row @ replicate (stride - length row) 0"

fun png_rows :: "nat \<Rightarrow> nat \<Rightarrow> nat \<Rightarrow> bytes \<Rightarrow> bytes \<Rightarrow> bytes list result" where
  "png_rows 0 bpp stride previous raw = Inr []"
| "png_rows (Suc n) bpp stride previous raw =
     (case raw of
        [] \<Rightarrow> Inl IndexError
      | ft # body \<Rightarrow>
          (case unfilter ft bpp previous [] (take stride body) of
             Inl e \<Rightarrow> Inl e
           | Inr r \<Rightarrow>
               (let row = pad_row stride r
                in case png_rows n bpp stride row (drop stride body) of
                     Inl e \<Rightarrow> Inl e
                   | Inr rows \<Rightarrow> Inr (row # rows))))"

record png_image =
  im_width :: nat
  im_height :: nat
  im_bpp :: nat
  im_rows :: "bytes list"

definition read_png_rgb :: "(bytes \<Rightarrow> bytes result) \<Rightarrow> bytes \<Rightarrow> png_image result" where
  "read_png_rgb inflate data =
     (if take 8 data \<noteq> png_magic then Inl (ValueError ''Not a PNG'')
      else
        (case png_chunks (drop 8 data) None [] of
           Inl e \<Rightarrow> Inl e
         | Inr (None, _) \<Rightarrow> Inl (ValueError ''Unsupported PNG'')
         | Inr (Some h, compressed) \<Rightarrow>
             if png_bit_depth h \<noteq> 8 \<or> png_color_type h \<notin> {2, 6}
             then Inl (ValueError ''Unsupported PNG'')
             else
               (let bpp = (if png_color_type h = 2 then 3 else 4 :: nat)
                in case inflate compressed of
                     Inl e \<Rightarrow> Inl e
                   | Inr raw \<Rightarrow>
                       (let stride = nat (png_width h) * bpp
                        in case png_rows (nat (png_height h)) bpp stride (replicate stride 0) raw of
                             Inl e \<Rightarrow> Inl e
                           | Inr rows \<Rightarrow> Inr \<lparr>im_width = nat (png_width h),
                               im_height = nat (png_height h), im_bpp = bpp, im_rows = rows\<rparr>))))"

section \<open>Bounds\<close>

definition is_bytes :: "bytes \<Rightarrow> bool" where
  "is_bytes bs = (\<forall>b\<in>set bs. 0 \<le> b \<and> b < 256)"

lemma unfilter_length:
  "unfilter ft bpp prev row vs = Inr out \<Longrightarrow> length out = length row + length vs"
  by (induction vs arbitrary: row) (auto split: sum.splits)

lemma unfilter_bytes:
  "unfilter ft bpp prev row vs = Inr out \<Longrightarrow> is_bytes row \<Longrightarrow> is_bytes out"
proof (induction vs arbitrary: row)
  case (Cons v vs)
  then obtain p where "unfilter ft bpp prev (row @ [(v + p) mod 256]) vs = Inr out"
    by (auto split: sum.splits)
  moreover have "is_bytes (row @ [(v + p) mod 256])"
    using Cons.prems(2) by (auto simp: is_bytes_def)
  ultimately show ?case by (rule Cons.IH)
qed simp

lemma png_rows_shape:
  "png_rows n bpp stride prev raw = Inr rows \<Longrightarrow>
     length rows = n \<and> (\<forall>r\<in>set rows. length r = stride \<and> is_bytes r)"
proof (induction n arbitrary: prev raw rows)
  case (Suc n)
  then obtain ft body r rs where raw: "raw = ft # body"
    and r: "unfilter ft bpp prev [] (take stride body) = Inr r"
    and rs: "png_rows n bpp stride (pad_row stride r) (drop stride body) = Inr rs"
    and rows: "rows = pad_row stride r # rs"
    by (auto simp: Let_def split: list.splits sum.splits)
  have "length r \<le> stride" using unfilter_length [OF r] by simp
  moreover have "is_bytes r" using unfilter_bytes [OF r] by (simp add: is_bytes_def)
  ultimately have "length (pad_row stride r) = stride \<and> is_bytes (pad_row stride r)"
    by (auto simp: pad_row_def is_bytes_def)
  with Suc.IH [OF rs] show ?case by (simp add: rows)
qed simp

lemma read_png_shape:
  assumes "read_png_rgb inflate data = Inr im"
  shows "length (im_rows im) = im_height im" "im_bpp im = 3 \<or> im_bpp im = 4"
    "r \<in> set (im_rows im) \<Longrightarrow> length r = im_width im * im_bpp im \<and> is_bytes r"
proof -
  from assms obtain w h bpp raw rows where
    "png_rows h bpp (w * bpp) (replicate (w * bpp) 0) raw = Inr rows"
    and bpp: "bpp = 3 \<or> bpp = 4"
    and im: "im = \<lparr>im_width = w, im_height = h, im_bpp = bpp, im_rows = rows\<rparr>"
    by (auto simp: read_png_rgb_def Let_def split: if_splits sum.splits prod.splits option.splits)
  note s = png_rows_shape [OF this(1)]
  show "length (im_rows im) = im_height im" "im_bpp im = 3 \<or> im_bpp im = 4"
    using s bpp by (simp_all add: im)
  show "r \<in> set (im_rows im) \<Longrightarrow> length r = im_width im * im_bpp im \<and> is_bytes r"
    using s by (simp add: im)
qed

text \<open>The samples the statistics read are inside the image's rows.\<close>

lemma read_png_sample_in_range:
  assumes "read_png_rgb inflate data = Inr im" "y < im_height im" "x < im_width im"
  shows "x * im_bpp im + 2 < length (im_rows im ! y)"
proof -
  note s = read_png_shape [OF assms(1)]
  have "im_rows im ! y \<in> set (im_rows im)" using s(1) assms(2) by simp
  then have l: "length (im_rows im ! y) = im_width im * im_bpp im" using s(3) by simp
  have "x * im_bpp im + im_bpp im \<le> im_width im * im_bpp im"
    using assms(3) by (metis Suc_leI add.commute mult_Suc mult_le_mono1)
  with s(2) l show ?thesis by auto
qed

section \<open>The filters are undone\<close>

text \<open>
  The encoder of the PNG format, as its specification has it: a filtered byte is the byte minus the
  prediction of the row's filter, modulo 256. The prediction is from the byte to the left \<open>a\<close>, the one
  above \<open>b\<close> and the one above the left \<open>c\<close>: nothing, \<open>a\<close>, \<open>b\<close>, their mean rounded down, or the nearest
  of the three to \<open>a + b - c\<close>, the first such in this order.
\<close>

definition png_nearest :: "int \<Rightarrow> int \<Rightarrow> int \<Rightarrow> int" where
  "png_nearest a b c = hd (filter (\<lambda>x. list_all (\<lambda>y. \<bar>a + b - c - x\<bar> \<le> \<bar>a + b - c - y\<bar>) [a, b, c]) [a, b, c])"

definition png_prediction :: "int \<Rightarrow> nat \<Rightarrow> bytes \<Rightarrow> bytes \<Rightarrow> int" where
  "png_prediction ft bpp previous done =
     (let i = length done; b = previous ! i;
          a = (if bpp \<le> i then done ! (i - bpp) else 0);
          c = (if bpp \<le> i then previous ! (i - bpp) else 0)
      in [0, a, b, \<lfloor>real_of_int (a + b) / 2\<rfloor>, png_nearest a b c] ! nat ft)"

fun png_filter :: "int \<Rightarrow> nat \<Rightarrow> bytes \<Rightarrow> bytes \<Rightarrow> bytes \<Rightarrow> bytes" where
  "png_filter ft bpp previous done [] = []"
| "png_filter ft bpp previous done (x # xs) =
     ((x - png_prediction ft bpp previous done) mod 256) # png_filter ft bpp previous (done @ [x]) xs"

text \<open>The decoder predicts what the specification says.\<close>

lemma paeth_nearest: "paeth a b c = png_nearest a b c"
  by (auto simp: paeth_def png_nearest_def Let_def)

lemma predictor_standard:
  assumes "0 \<le> ft" "ft \<le> 4"
  shows "predictor ft bpp previous done (length done) = Inr (png_prediction ft bpp previous done)"
proof -
  have half: "\<lfloor>real_of_int x / 2\<rfloor> = x div 2" for x
    using floor_divide_of_int_eq [of x 2, where 'a = real] by simp
  from assms consider "ft = 0" | "ft = 1" | "ft = 2" | "ft = 3" | "ft = 4" by linarith
  then show ?thesis
    by cases (simp_all add: predictor_def png_prediction_def Let_def half paeth_nearest del: of_int_add)
qed

lemma unfilter_filter:
  assumes "0 \<le> ft" "ft \<le> 4"
  shows "is_bytes xs \<Longrightarrow> unfilter ft bpp prev row (png_filter ft bpp prev row xs) = Inr (row @ xs)"
proof (induction xs arbitrary: row)
  case (Cons x xs)
  let ?p = "png_prediction ft bpp prev row"
  have "((x - ?p) mod 256 + ?p) mod 256 = x"
    using Cons.prems by (simp add: is_bytes_def mod_add_left_eq)
  with Cons show ?case by (simp add: is_bytes_def predictor_standard [OF assms])
qed simp

lemma png_filter_length: "length (png_filter ft bpp prev row xs) = length xs"
  by (induction xs arbitrary: row) simp_all

text \<open>The raw image data an encoder writes for rows with a filter choice per row.\<close>

fun png_raw :: "nat \<Rightarrow> bytes \<Rightarrow> (int \<times> bytes) list \<Rightarrow> bytes" where
  "png_raw bpp prev [] = []"
| "png_raw bpp prev ((ft, row) # rest) =
     ft # png_filter ft bpp prev [] row @ png_raw bpp row rest"

lemma png_rows_raw:
  assumes "\<forall>(ft, row)\<in>set frs. 0 \<le> ft \<and> ft \<le> 4 \<and> length row = stride \<and> is_bytes row"
  shows "png_rows (length frs) bpp stride prev (png_raw bpp prev frs @ trailer) = Inr (map snd frs)"
  using assms
proof (induction frs arbitrary: prev)
  case (Cons fr frs)
  obtain ft row where fr: "fr = (ft, row)" by force
  from Cons.prems have ft: "0 \<le> ft" "ft \<le> 4" and row: "length row = stride" "is_bytes row"
    by (auto simp: fr)
  have "unfilter ft bpp prev [] (png_filter ft bpp prev [] row) = Inr row"
    using unfilter_filter [OF ft row(2), of bpp prev "[]"] by simp
  moreover have "length (png_filter ft bpp prev [] row) = stride"
    using ft row by (simp add: png_filter_length)
  moreover have "pad_row stride row = row" using row by (simp add: pad_row_def)
  ultimately show ?case using Cons by (simp add: fr)
qed simp

section \<open>Foreground statistics\<close>

definition S3_BACKGROUND :: int where "S3_BACKGROUND = 128"
definition S3_BACKGROUND_TOLERANCE :: int where "S3_BACKGROUND_TOLERANCE = 18"
definition S3_SAMPLE_STEP :: nat where "S3_SAMPLE_STEP = 4"
definition S3_PALE_LUMA_MIN :: pyfloat where "S3_PALE_LUMA_MIN = 175"
definition S3_PALE_SAT_MAX :: pyfloat where "S3_PALE_SAT_MAX = fl (35 / 100)"
definition S3_GRAYISH_SAT_MAX :: pyfloat where "S3_GRAYISH_SAT_MAX = fl (28 / 100)"
definition S3_PALE_FRACTION_MIN :: pyfloat where "S3_PALE_FRACTION_MIN = fl (10 / 100)"
definition S3_GRAYISH_FRACTION_MIN :: pyfloat where "S3_GRAYISH_FRACTION_MIN = fl (60 / 100)"

record fg_counts =
  fg_foreground :: int
  fg_pale :: int
  fg_grayish :: int
  fg_luma_sum :: pyfloat

definition fg_zero :: fg_counts where
  "fg_zero = \<lparr>fg_foreground = 0, fg_pale = 0, fg_grayish = 0, fg_luma_sum = 0\<rparr>"

definition saturation :: "int \<Rightarrow> int \<Rightarrow> int \<Rightarrow> pyfloat" where
  "saturation r g b =
     (let max_c = max r (max g b); min_c = min r (min g b)
      in if max_c \<noteq> 0 then int_div (max_c - min_c) max_c else 0)"

definition luma :: "int \<Rightarrow> int \<Rightarrow> int \<Rightarrow> pyfloat" where
  "luma r g b =
     fadd (fadd (fmul (fl (2126 / 10000)) (of_int r)) (fmul (fl (7152 / 10000)) (of_int g)))
          (fmul (fl (722 / 10000)) (of_int b))"

definition is_background :: "int \<Rightarrow> int \<Rightarrow> int \<Rightarrow> bool" where
  "is_background r g b =
     (max \<bar>r - S3_BACKGROUND\<bar> (max \<bar>g - S3_BACKGROUND\<bar> \<bar>b - S3_BACKGROUND\<bar>) \<le> S3_BACKGROUND_TOLERANCE)"

definition count_pixel :: "int \<times> int \<times> int \<Rightarrow> fg_counts \<Rightarrow> fg_counts" where
  "count_pixel px c =
     (case px of (r, g, b) \<Rightarrow>
        if is_background r g b then c
        else \<lparr>fg_foreground = fg_foreground c + 1,
              fg_pale = fg_pale c +
                (if S3_PALE_LUMA_MIN < luma r g b \<and> saturation r g b < S3_PALE_SAT_MAX then 1 else 0),
              fg_grayish = fg_grayish c + (if saturation r g b < S3_GRAYISH_SAT_MAX then 1 else 0),
              fg_luma_sum = fadd (fg_luma_sum c) (luma r g b)\<rparr>)"

text \<open>\<^verbatim>\<open>range(0, n, 4)\<close> and the pixels it samples.\<close>

definition sample_points :: "nat \<Rightarrow> nat list" where
  "sample_points n = filter (\<lambda>i. i mod S3_SAMPLE_STEP = 0) [0..<n]"

definition sampled_pixels :: "png_image \<Rightarrow> (int \<times> int \<times> int) list" where
  "sampled_pixels im =
     concat (map (\<lambda>y. map (\<lambda>x. (let row = im_rows im ! y; i = x * im_bpp im
                                in (row ! i, row ! (i + 1), row ! (i + 2))))
                          (sample_points (im_width im)))
                 (sample_points (im_height im)))"

fun count_pngs :: "(bytes \<Rightarrow> bytes result) \<Rightarrow> bytes list \<Rightarrow> fg_counts \<Rightarrow> fg_counts result" where
  "count_pngs inflate [] c = Inr c"
| "count_pngs inflate (data # rest) c =
     (case read_png_rgb inflate data of
        Inl e \<Rightarrow> Inl e
      | Inr im \<Rightarrow> count_pngs inflate rest (fold count_pixel (sampled_pixels im) c))"

record fg_stats =
  foreground_samples :: int
  pale_fraction :: pyfloat
  grayish_fraction :: pyfloat
  mean_luma :: pyfloat

definition foreground_stats :: "(bytes \<Rightarrow> bytes result) \<Rightarrow> bytes list \<Rightarrow> fg_stats result" where
  "foreground_stats inflate pngs =
     (case count_pngs inflate pngs fg_zero of
        Inl e \<Rightarrow> Inl e
      | Inr c \<Rightarrow>
          if fg_foreground c = 0
          then Inr \<lparr>foreground_samples = 0, pale_fraction = 0, grayish_fraction = 0, mean_luma = 0\<rparr>
          else Inr \<lparr>foreground_samples = fg_foreground c,
                    pale_fraction = int_div (fg_pale c) (fg_foreground c),
                    grayish_fraction = int_div (fg_grayish c) (fg_foreground c),
                    mean_luma = fdiv (fg_luma_sum c) (of_int (fg_foreground c))\<rparr>)"

definition white_unsafe :: "fg_stats \<Rightarrow> bool" where
  "white_unsafe s =
     (S3_PALE_FRACTION_MIN \<le> pale_fraction s \<and> S3_GRAYISH_FRACTION_MIN \<le> grayish_fraction s)"

text \<open>The three counters add up over the pixels, whatever their order.\<close>

definition px_count :: "(int \<times> int \<times> int) list \<Rightarrow> int \<times> int \<times> int" where
  "px_count pxs =
     (let fg = filter (\<lambda>(r, g, b). \<not> is_background r g b) pxs
      in (int (length fg),
          int (length (filter (\<lambda>(r, g, b). S3_PALE_LUMA_MIN < luma r g b \<and> saturation r g b < S3_PALE_SAT_MAX) fg)),
          int (length (filter (\<lambda>(r, g, b). saturation r g b < S3_GRAYISH_SAT_MAX) fg))))"

lemma fold_count_pixel:
  "fg_foreground (fold count_pixel pxs c) = fg_foreground c + fst (px_count pxs)"
  "fg_pale (fold count_pixel pxs c) = fg_pale c + fst (snd (px_count pxs))"
  "fg_grayish (fold count_pixel pxs c) = fg_grayish c + snd (snd (px_count pxs))"
  by (induction pxs arbitrary: c) (auto simp: count_pixel_def px_count_def Let_def split: prod.splits)

lemma count_pngs_two:
  "rmap (\<lambda>c. (fg_foreground c, fg_pale c, fg_grayish c)) (count_pngs inflate [x, y] fg_zero) =
     (case read_png_rgb inflate x of Inl e \<Rightarrow> Inl e | Inr i \<Rightarrow>
       (case read_png_rgb inflate y of Inl e \<Rightarrow> Inl e | Inr j \<Rightarrow>
          Inr (fst (px_count (sampled_pixels i)) + fst (px_count (sampled_pixels j)),
               fst (snd (px_count (sampled_pixels i))) + fst (snd (px_count (sampled_pixels j))),
               snd (snd (px_count (sampled_pixels i))) + snd (snd (px_count (sampled_pixels j))))))"
  by (simp add: fold_count_pixel fg_zero_def split: sum.splits)

text \<open>The gate of the rescue as a value: failed, or whether it fires.\<close>

definition gray_gate :: "(bytes \<Rightarrow> bytes result) \<Rightarrow> bytes list \<Rightarrow> bool option" where
  "gray_gate inflate pngs =
     (case foreground_stats inflate pngs of Inl _ \<Rightarrow> None | Inr s \<Rightarrow> Some (white_unsafe s))"

lemma gray_gate_counts:
  "gray_gate inflate pngs =
     (case rmap (\<lambda>c. (fg_foreground c, fg_pale c, fg_grayish c)) (count_pngs inflate pngs fg_zero) of
        Inl _ \<Rightarrow> None
      | Inr (f, p, g) \<Rightarrow> Some (f \<noteq> 0 \<and> S3_PALE_FRACTION_MIN \<le> int_div p f \<and>
                               S3_GRAYISH_FRACTION_MIN \<le> int_div g f))"
proof -
  have "\<not> S3_PALE_FRACTION_MIN \<le> 0"
    unfolding S3_PALE_FRACTION_MIN_def by code_simp
  then show ?thesis
    by (auto simp: gray_gate_def foreground_stats_def white_unsafe_def rmap_def split: sum.splits)
qed

lemma gray_gate_swap: "gray_gate inflate [x, y] = gray_gate inflate [y, x]"
  unfolding gray_gate_counts count_pngs_two
  by (auto simp: algebra_simps split: sum.splits)

section \<open>Reading a whole file\<close>

text \<open>The writer of the format: lengths in big-endian order, then type, data and checksum.\<close>

definition pack_u32 :: "nat \<Rightarrow> bytes" where
  "pack_u32 n = map int [n div 16777216, n div 65536 mod 256, n div 256 mod 256, n mod 256]"

definition png_chunk :: "string \<Rightarrow> bytes \<Rightarrow> bytes \<Rightarrow> bytes" where
  "png_chunk typ data crc = pack_u32 (length data) @ bytes_of typ @ data @ crc"

definition png_file :: "nat \<Rightarrow> nat \<Rightarrow> nat \<Rightarrow> bytes \<Rightarrow> bytes \<Rightarrow> bytes" where
  "png_file w h bpp compressed crc =
     png_magic @
     png_chunk ''IHDR'' (pack_u32 w @ pack_u32 h @ [8, if bpp = 3 then 2 else 6, 0, 0, 0]) crc @
     png_chunk ''IDAT'' compressed crc @ png_chunk ''IEND'' [] crc"

lemma length_pack_u32 [simp]: "length (pack_u32 n) = 4"
  by (simp add: pack_u32_def)

lemma unpack_pack_u32 [simp]: "n < 2 ^ 32 \<Longrightarrow> unpack_u32 (pack_u32 n) = Inr (int n)"
proof -
  have d: "n div 65536 = n div 256 div 256" "n div 16777216 = n div 256 div 256 div 256"
    by (simp_all add: div_mult2_eq [symmetric])
  have "((n div 16777216 * 256 + n div 65536 mod 256) * 256 + n div 256 mod 256) * 256 + n mod 256 = n"
    unfolding d by (simp only: div_mult_mod_eq)
  then have "int (((n div 16777216 * 256 + n div 65536 mod 256) * 256 + n div 256 mod 256) * 256 + n mod 256) = int n"
    by (rule arg_cong)
  then show ?thesis by (simp add: pack_u32_def)
qed

lemma unpack_header_packed:
  "w < 2 ^ 32 \<Longrightarrow> h < 2 ^ 32 \<Longrightarrow>
     unpack_header (pack_u32 w @ pack_u32 h @ [8, c, 0, 0, 0]) =
       Inr \<lparr>png_width = int w, png_height = int h, png_bit_depth = 8, png_color_type = c\<rparr>"
  by (simp add: unpack_header_def nth_append)

lemma png_chunks_step:
  assumes "length data < 2 ^ 32" "length crc = 4" "length typ = 4"
  shows "png_chunks (png_chunk typ data crc @ rest) hdr compressed =
    (if typ = ''IHDR'' then (case unpack_header data of Inl e \<Rightarrow> Inl e | Inr h \<Rightarrow> png_chunks rest (Some h) compressed)
     else if typ = ''IDAT'' then png_chunks rest hdr (compressed @ data)
     else if typ = ''IEND'' then Inr (hdr, compressed)
     else png_chunks rest hdr compressed)"
proof -
  let ?f = "png_chunk typ data crc @ rest"
  have l: "length (bytes_of typ) = 4" using assms(3) by (simp add: bytes_of_def)
  have f: "?f = pack_u32 (length data) @ bytes_of typ @ data @ crc @ rest" by (simp add: png_chunk_def)
  obtain g where g: "g = ?f" by blast
  have g_parts: "take 4 g = pack_u32 (length data)" "take 4 (drop 4 g) = bytes_of typ"
    "take (length data) (drop 8 g) = data" "drop (8 + length data + 4) g = rest" "g \<noteq> []"
    using l assms(2) by (simp_all add: g f) (simp add: pack_u32_def)
  have b: "bytes_of typ = bytes_of s \<longleftrightarrow> typ = s" for s
    by (auto simp: bytes_of_def inj_map_eq_map [OF inj_of_char])
  show ?thesis
    unfolding g [symmetric]
    by (subst png_chunks.simps) (simp only: g_parts unpack_pack_u32 [OF assms(1)] sum.case Let_def
        nat_int b if_False simp_thms)
qed

lemma png_chunks_file:
  assumes "w < 2 ^ 32" "h < 2 ^ 32" "length z < 2 ^ 32" "length crc = 4"
  shows "png_chunks (drop 8 (png_file w h bpp z crc)) None [] =
    Inr (Some \<lparr>png_width = int w, png_height = int h, png_bit_depth = 8,
               png_color_type = (if bpp = 3 then 2 else 6)\<rparr>, z)"
proof -
  have "drop 8 (png_file w h bpp z crc) =
      png_chunk ''IHDR'' (pack_u32 w @ pack_u32 h @ [8, if bpp = 3 then 2 else 6, 0, 0, 0]) crc @
      png_chunk ''IDAT'' z crc @ png_chunk ''IEND'' [] crc @ []"
    by (simp add: png_file_def png_magic_def)
  then show ?thesis
    using assms by (simp only: png_chunks_step) (simp add: png_chunks_step unpack_header_packed
        del: append_Nil2)
qed

lemma read_png_file:
  assumes "inflate compressed = Inr (png_raw bpp (replicate (w * bpp) 0) rows)"
    and "bpp = 3 \<or> bpp = 4" "w < 2 ^ 32" "length rows < 2 ^ 32"
    and "length compressed < 2 ^ 32" "length crc = 4"
    and "\<forall>(ft, row)\<in>set rows. 0 \<le> ft \<and> ft \<le> 4 \<and> length row = w * bpp \<and> is_bytes row"
  shows "read_png_rgb inflate (png_file w (length rows) bpp compressed crc) =
    Inr \<lparr>im_width = w, im_height = length rows, im_bpp = bpp, im_rows = map snd rows\<rparr>"
proof -
  have m: "take 8 (png_file w (length rows) bpp compressed crc) = png_magic"
    by (simp add: png_file_def png_magic_def)
  have r: "png_rows (length rows) bpp (w * bpp) (replicate (w * bpp) 0)
      (png_raw bpp (replicate (w * bpp) 0) rows) = Inr (map snd rows)"
    using png_rows_raw [OF assms(7), of bpp _ "[]"] by simp
  show ?thesis
    using assms(2) m r png_chunks_file [OF assms(3,4,5,6), of bpp] assms(1)
    by (auto simp: read_png_rgb_def Let_def)
qed

text \<open>
  C6: The inline PNG reader returns exactly the picture a PNG writer put into the file: for any
  8-bit RGB or RGBA image, any choice of the five scanline filters per row and any checksums, the
  rows read are the rows written, provided zlib decompresses the IDAT data to the filtered rows.
\<close>

theorem read_png_roundtrip:
  assumes "inflate compressed = Inr (png_raw bpp (replicate (w * bpp) 0) rows)"
    and "bpp = 3 \<or> bpp = 4" "w < 2 ^ 32" "length rows < 2 ^ 32"
    and "length compressed < 2 ^ 32" "length crc = 4"
    and "\<forall>(ft, row)\<in>set rows. 0 \<le> ft \<and> ft \<le> 4 \<and> length row = w * bpp \<and> is_bytes row"
  shows "read_png_rgb inflate (png_file w (length rows) bpp compressed crc) =
    Inr \<lparr>im_width = w, im_height = length rows, im_bpp = bpp, im_rows = map snd rows\<rparr>"
  using assms by (rule read_png_file)

definition example_rows :: "(int \<times> bytes) list" where
  "example_rows = [(1, [10, 20, 30, 11, 21, 31]), (4, [9, 19, 29, 250, 3, 128])]"

lemma example_rows_facts:
  "\<forall>(ft, row)\<in>set example_rows. 0 \<le> ft \<and> ft \<le> 4 \<and> length row = 2 * 3 \<and> is_bytes row"
  "length example_rows = 2"
  "map snd example_rows = [[10, 20, 30, 11, 21, 31], [9, 19, 29, 250, 3, 128]]"
  by (simp_all add: example_rows_def is_bytes_def)

theorem read_png_roundtrip_witness:
  "read_png_rgb (\<lambda>z. Inr (png_raw 3 (replicate 6 0) example_rows))
     (png_file 2 2 3 [120, 156] [1, 2, 3, 4]) =
   Inr \<lparr>im_width = 2, im_height = 2, im_bpp = 3,
        im_rows = [[10, 20, 30, 11, 21, 31], [9, 19, 29, 250, 3, 128]]\<rparr>"
  using read_png_roundtrip [of "\<lambda>z. Inr (png_raw 3 (replicate 6 0) example_rows)" "[120, 156]" 3 2
      example_rows "[1, 2, 3, 4]", OF _ _ _ _ _ _ example_rows_facts(1)]
  by (simp add: example_rows_facts)

text \<open>
  Whatever the file, the reader never hands the statistics a sample outside the picture: on
  success every row holds width times bytes-per-pixel bytes, and all sampled colour components are
  bytes of the rows.
\<close>

theorem read_png_samples_are_bytes:
  assumes "read_png_rgb inflate data = Inr im" "(r, g, b) \<in> set (sampled_pixels im)"
  shows "0 \<le> r \<and> r < 256 \<and> 0 \<le> g \<and> g < 256 \<and> 0 \<le> b \<and> b < 256"
proof -
  note s = read_png_shape [OF assms(1)]
  from assms(2) obtain y x where y: "y \<in> set (sample_points (im_height im))"
    and x: "x \<in> set (sample_points (im_width im))"
    and px: "(r, g, b) = (im_rows im ! y ! (x * im_bpp im), im_rows im ! y ! (x * im_bpp im + 1),
                im_rows im ! y ! (x * im_bpp im + 2))"
    by (auto simp: sampled_pixels_def Let_def)
  have y': "y < im_height im" and x': "x < im_width im"
    using y x by (simp_all add: sample_points_def)
  have row: "im_rows im ! y \<in> set (im_rows im)" using s(1) y' by simp
  have "x * im_bpp im + 2 < length (im_rows im ! y)"
    by (rule read_png_sample_in_range [OF assms(1) y' x'])
  then have "im_rows im ! y ! (x * im_bpp im + k) \<in> set (im_rows im ! y)" if "k \<le> 2" for k
    using that by (intro nth_mem) simp
  note m = this [of 0] this [of 1] this [of 2]
  show ?thesis using px m s(3) [OF row] by (auto simp: is_bytes_def)
qed

theorem read_png_samples_are_bytes_witness:
  "sampled_pixels \<lparr>im_width = 2, im_height = 2, im_bpp = 3,
        im_rows = [[10, 20, 30, 11, 21, 31], [9, 19, 29, 250, 3, 128]]\<rparr> = [(10, 20, 30)] \<and>
   0 \<le> (10 :: int) \<and> (10 :: int) < 256 \<and> 0 \<le> (20 :: int) \<and> (20 :: int) < 256 \<and> 0 \<le> (30 :: int) \<and> (30 :: int) < 256"
proof -
  let ?im = "\<lparr>im_width = 2, im_height = 2, im_bpp = 3,
        im_rows = [[10, 20, 30, 11, 21, 31], [9, 19, 29, 250, 3, 128]]\<rparr>"
  have px: "sampled_pixels ?im = [(10, 20, 30)]" by code_simp
  have "read_png_rgb (\<lambda>z. Inr (png_raw 3 (replicate 6 0) example_rows))
     (png_file 2 2 3 [120, 156] [1, 2, 3, 4]) = Inr ?im"
    using read_png_file [of "\<lambda>z. Inr (png_raw 3 (replicate 6 0) example_rows)" "[120, 156]" 3 2
      example_rows "[1, 2, 3, 4]", OF _ _ _ _ _ _ example_rows_facts(1)]
    by (simp add: example_rows_facts)
  from read_png_samples_are_bytes [OF this, of 10 20 30] px show ?thesis by simp
qed

end
