(* ===== verification/VlmChat.thy ===== *)
theory VlmChat
  imports PyFloat
begin

text \<open>
  Talking to the vision-language model, from \<^verbatim>\<open>judge_service/judges/multi_stage.py\<close>: recovering
  a JSON document from a chatty reply, coercing integer fields, and retrying a bounded number
  of times. The JSON parser, the schema validation and the model itself are parameters.
\<close>

section \<open>Candidate JSON texts\<close>

text \<open>The text before and after the first occurrence of a nonempty pattern.\<close>

fun cut_first :: "string \<Rightarrow> string \<Rightarrow> (string \<times> string) option" where
  "cut_first pat [] = None"
| "cut_first pat (c # cs) =
     (if take (length pat) (c # cs) = pat then Some ([], drop (length pat) (c # cs))
      else map_option (\<lambda>(a, b). (c # a, b)) (cut_first pat cs))"

definition fence :: string where
  "fence = [CHR 0x60, CHR 0x60, CHR 0x60]"

text \<open>
  The fenced block of \<^verbatim>\<open>_FENCE_RE\<close>: from the first fence (and an optional \<^verbatim>\<open>json\<close> tag) to the next
  one; a later opening fence cannot match when the first has no closing one. The outermost
  braces of \<^verbatim>\<open>_OUTER_BRACE_RE\<close>: from the first opening to the last closing one.
\<close>

definition fenced_text :: "string \<Rightarrow> string option" where
  "fenced_text text =
     (case cut_first fence text of
        None \<Rightarrow> None
      | Some (_, rest) \<Rightarrow>
          (let body = (if take 4 rest = ''json'' then drop 4 rest else rest)
           in map_option fst (cut_first fence body)))"

definition braced_text :: "string \<Rightarrow> string option" where
  "braced_text text =
     (let t = dropWhile (\<lambda>c. c \<noteq> CHR ''}'') (rev (dropWhile (\<lambda>c. c \<noteq> CHR ''{'') text))
      in if t = [] then None else Some (rev t))"

fun unique_nonempty :: "string list \<Rightarrow> string list \<Rightarrow> string list" where
  "unique_nonempty seen [] = []"
| "unique_nonempty seen (c # cs) =
     (if c \<noteq> [] \<and> c \<notin> set seen then c # unique_nonempty (c # seen) cs
      else unique_nonempty seen cs)"

definition candidate_json_strings :: "string \<Rightarrow> string list" where
  "candidate_json_strings text =
     (if text = [] then []
      else unique_nonempty []
        ([strip text]
         @ (case fenced_text text of None \<Rightarrow> [] | Some t \<Rightarrow> [strip t])
         @ (case braced_text text of None \<Rightarrow> [] | Some t \<Rightarrow> [strip t])))"

text \<open>\<^verbatim>\<open>_TRAILING_COMMA_RE.sub\<close>: drop a comma before blanks and a closing bracket.\<close>

fun drop_trailing_commas :: "string \<Rightarrow> string" where
  "drop_trailing_commas [] = []"
| "drop_trailing_commas (c # cs) =
     (if c = CHR '','' \<and> (case dropWhile is_blank cs of [] \<Rightarrow> False
                           | d # _ \<Rightarrow> d = CHR ''}'' \<or> d = CHR '']'')
      then drop_trailing_commas cs
      else c # drop_trailing_commas cs)"

section \<open>JSON values and coercion\<close>

datatype json =
    JNull
  | JBool bool
  | JInt int
  | JFloat rat
  | JStr string
  | JList "json list"
  | JObj "(string \<times> json) list"

text \<open>
  \<^verbatim>\<open>int(round(float(v)))\<close> for the fields the schema declares as integers; a value that is an
  \<^verbatim>\<open>int\<close> (or a \<^verbatim>\<open>bool\<close>) already, or that \<^verbatim>\<open>float\<close> refuses, is left alone. \<open>read_float\<close> is Python's
  \<^verbatim>\<open>float\<close> on strings.
\<close>

definition coerce_int :: "(string \<Rightarrow> rat option) \<Rightarrow> json \<Rightarrow> json" where
  "coerce_int read_float v =
     (case v of
        JFloat q \<Rightarrow> JInt (round_half_even q)
      | JStr s \<Rightarrow> (case read_float s of None \<Rightarrow> v | Some q \<Rightarrow> JInt (round_half_even q))
      | _ \<Rightarrow> v)"

definition coerce_ints :: "(string \<Rightarrow> rat option) \<Rightarrow> string list \<Rightarrow> json \<Rightarrow> json" where
  "coerce_ints read_float int_fields obj =
     (case obj of
        JObj kvs \<Rightarrow> JObj (map (\<lambda>(k, v). (k, if k \<in> set int_fields then coerce_int read_float v else v)) kvs)
      | _ \<Rightarrow> obj)"

text \<open>A response schema: its validators and the names of its integer fields.\<close>

record 'm schema =
  validate_json :: "string \<Rightarrow> 'm option"
  validate_obj :: "json \<Rightarrow> 'm option"
  int_fields :: "string list"

record json_lib =
  json_loads :: "string \<Rightarrow> json option"
  read_float :: "string \<Rightarrow> rat option"

definition load_and_validate :: "json_lib \<Rightarrow> 'm schema \<Rightarrow> string \<Rightarrow> 'm option" where
  "load_and_validate lib sc text =
     (case json_loads lib text of None \<Rightarrow> None
      | Some obj \<Rightarrow> validate_obj sc (coerce_ints (read_float lib) (int_fields sc) obj))"

fun try_candidates :: "json_lib \<Rightarrow> 'm schema \<Rightarrow> string list \<Rightarrow> 'm option" where
  "try_candidates lib sc [] = None"
| "try_candidates lib sc (c # cs) =
     (case validate_json sc c of
        Some m \<Rightarrow> Some m
      | None \<Rightarrow>
        (case load_and_validate lib sc c of
           Some m \<Rightarrow> Some m
         | None \<Rightarrow>
           (case load_and_validate lib sc (drop_trailing_commas c) of
              Some m \<Rightarrow> Some m
            | None \<Rightarrow> try_candidates lib sc cs)))"

definition parse_or_repair :: "json_lib \<Rightarrow> 'm schema \<Rightarrow> string \<Rightarrow> 'm option" where
  "parse_or_repair lib sc text =
     (if text = [] then None
      else case validate_json sc text of
             Some m \<Rightarrow> Some m
           | None \<Rightarrow> try_candidates lib sc (candidate_json_strings text))"

section \<open>Retries\<close>

text \<open>
  \<open>create\<close> is one chat completion at a temperature and seed: the reply's text or an exception.
  Attempt \<open>k\<close> uses the seed \<open>seed + k + 100\<close> and, after the first, a rising temperature.
\<close>

definition attempt_temperature :: "pyfloat \<Rightarrow> nat \<Rightarrow> pyfloat" where
  "attempt_temperature temperature k =
     (if k = 0 then temperature else fadd (fl (1 / 10)) (fmul (fl (5 / 100)) (of_nat k)))"

definition chat_attempt ::
  "(pyfloat \<Rightarrow> int \<Rightarrow> string result) \<Rightarrow> (string \<Rightarrow> 'm option) \<Rightarrow> int \<Rightarrow> pyfloat \<Rightarrow> nat \<Rightarrow> 'm result" where
  "chat_attempt create parse seed temperature k =
     (case create (attempt_temperature temperature k) (seed + int k + 100) of
        Inl e \<Rightarrow> Inl e
      | Inr text \<Rightarrow> (case parse text of
          Some m \<Rightarrow> Inr m | None \<Rightarrow> Inl (ValueError ''Unparseable VLM response'')))"

fun chat_loop ::
  "(pyfloat \<Rightarrow> int \<Rightarrow> string result) \<Rightarrow> (string \<Rightarrow> 'm option) \<Rightarrow> int \<Rightarrow> pyfloat \<Rightarrow> nat \<Rightarrow> nat \<Rightarrow>
   exn option \<Rightarrow> 'm result" where
  "chat_loop create parse seed temperature attempt 0 last_err =
     Inl (case last_err of Some e \<Rightarrow> e | None \<Rightarrow> RuntimeError ''all retries failed'')"
| "chat_loop create parse seed temperature attempt (Suc n) last_err =
     (case chat_attempt create parse seed temperature attempt of
        Inr m \<Rightarrow> Inr m
      | Inl e \<Rightarrow> chat_loop create parse seed temperature (Suc attempt) n (Some e))"

definition safe_chat_json ::
  "(pyfloat \<Rightarrow> int \<Rightarrow> string result) \<Rightarrow> (string \<Rightarrow> 'm option) \<Rightarrow> int \<Rightarrow> pyfloat \<Rightarrow> nat \<Rightarrow> 'm option \<Rightarrow>
   'm result" where
  "safe_chat_json create parse seed temperature max_retries on_failure =
     (case chat_loop create parse seed temperature 0 max_retries None of
        Inr m \<Rightarrow> Inr m
      | Inl e \<Rightarrow> (case on_failure of Some m \<Rightarrow> Inr m | None \<Rightarrow> Inl e))"

section \<open>Facts\<close>

lemma unique_nonempty_spec:
  "distinct (unique_nonempty seen cs) \<and>
   set (unique_nonempty seen cs) = {c \<in> set cs. c \<noteq> [] \<and> c \<notin> set seen}"
  by (induction seen cs rule: unique_nonempty.induct) auto

lemma candidates_distinct: "distinct (candidate_json_strings text)"
  by (simp add: candidate_json_strings_def unique_nonempty_spec)

lemma candidates_nonempty: "c \<in> set (candidate_json_strings text) \<Longrightarrow> c \<noteq> []"
  by (auto simp: candidate_json_strings_def unique_nonempty_spec split: if_splits)

lemma try_candidates_sound:
  "try_candidates lib sc cs = Some m \<Longrightarrow>
     (\<exists>t. validate_json sc t = Some m) \<or> (\<exists>j. validate_obj sc j = Some m)"
  by (induction cs) (auto simp: load_and_validate_def split: option.splits)

lemma parse_or_repair_sound:
  "parse_or_repair lib sc text = Some m \<Longrightarrow>
     (\<exists>t. validate_json sc t = Some m) \<or> (\<exists>j. validate_obj sc j = Some m)"
  by (auto simp: parse_or_repair_def dest: try_candidates_sound split: if_splits option.splits)

lemma try_candidates_hit:
  "c \<in> set cs \<Longrightarrow> validate_json sc c = Some m \<Longrightarrow> \<exists>m'. try_candidates lib sc cs = Some m'"
  by (induction cs) (auto split: option.splits)

lemma chat_loop_first_success:
  "(\<And>j. j < k \<Longrightarrow> \<not> is_ok (chat_attempt create parse seed temp (a + j))) \<Longrightarrow>
   chat_attempt create parse seed temp (a + k) = Inr m \<Longrightarrow> k < n \<Longrightarrow>
     chat_loop create parse seed temp a n le = Inr m"
proof (induction k arbitrary: a n le)
  case 0
  then show ?case by (cases n) auto
next
  case (Suc k)
  then obtain n' where n: "n = Suc n'" by (cases n) auto
  from Suc.prems(1) [of 0] obtain e where e: "chat_attempt create parse seed temp a = Inl e"
    by (cases "chat_attempt create parse seed temp a") auto
  have "chat_loop create parse seed temp (Suc a) n' (Some e) = Inr m"
    using Suc.prems(1) [of "Suc _"] Suc.prems(2,3) n by (intro Suc.IH) auto
  then show ?case by (simp add: n e)
qed

lemma chat_loop_all_fail:
  "(\<And>j. j < n \<Longrightarrow> \<not> is_ok (chat_attempt create parse seed temp (a + j))) \<Longrightarrow>
     \<not> is_ok (chat_loop create parse seed temp a n le)"
proof (induction n arbitrary: a le)
  case (Suc n)
  from Suc.prems [of 0] obtain e where e: "chat_attempt create parse seed temp a = Inl e"
    by (cases "chat_attempt create parse seed temp a") auto
  have "\<not> is_ok (chat_loop create parse seed temp (Suc a) n (Some e))"
    using Suc.prems [of "Suc _"] by (intro Suc.IH) auto
  then show ?case by (simp add: e)
qed simp

lemma safe_chat_outage:
  assumes "\<And>t s. \<exists>e. create t s = Inl e"
  shows "safe_chat_json create parse seed temp n (Some d) = Inr d"
    "\<not> is_ok (safe_chat_json create parse seed temp n None)"
proof -
  have "\<not> is_ok (chat_attempt create parse seed temp k)" for k
    using assms by (auto simp: chat_attempt_def split: sum.splits option.splits) (metis Inl_Inr_False)
  then have "\<not> is_ok (chat_loop create parse seed temp 0 n None)"
    by (intro chat_loop_all_fail) auto
  then show "safe_chat_json create parse seed temp n (Some d) = Inr d"
    "\<not> is_ok (safe_chat_json create parse seed temp n None)"
    by (auto simp: safe_chat_json_def split: sum.splits)
qed

lemma safe_chat_default_total: "\<exists>m. safe_chat_json create parse seed temp n (Some d) = Inr m"
  by (auto simp: safe_chat_json_def split: sum.splits)

section \<open>The retry loop and the parser, as specifications\<close>

lemma chat_loop_spec:
  "chat_loop create parse seed temp a n le =
     (case find_first is_ok (map (chat_attempt create parse seed temp) [a..<a + n]) of
        Some r \<Rightarrow> r
      | None \<Rightarrow> if n = 0 then Inl (case le of Some e \<Rightarrow> e | None \<Rightarrow> RuntimeError ''all retries failed'')
                else chat_attempt create parse seed temp (a + n - 1))"
proof (induction n arbitrary: a le)
  case (Suc n)
  have up: "[a..<a + Suc n] = a # [Suc a..<Suc a + n]" by (simp add: upt_conv_Cons)
  show ?case
  proof (cases "chat_attempt create parse seed temp a")
    case (Inl e)
    then show ?thesis
      unfolding up using Suc.IH [of "Suc a" "Some e"] by (cases n) (auto split: option.split)
  next
    case (Inr m)
    then show ?thesis unfolding up by simp
  qed
qed simp

text \<open>
  A chat with the model is its first attempt that answers with a parsable reply: attempt k is
  made with seed + k + 100 and at the rising temperature, no attempt is made after a success, and
  only when all of the attempts fail is the default returned, or without one the last error.
\<close>

theorem safe_chat_first_success:
  "safe_chat_json create parse seed temperature n on_failure =
     (case find_first is_ok (map (\<lambda>k. chat_attempt create parse seed temperature k) [0..<n]) of
        Some r \<Rightarrow> r
      | None \<Rightarrow>
          (case on_failure of
             Some m \<Rightarrow> Inr m
           | None \<Rightarrow> if n = 0 then Inl (RuntimeError ''all retries failed'')
                     else chat_attempt create parse seed temperature (n - 1)))"
proof -
  let ?f = "chat_attempt create parse seed temperature"
  have ok: "\<exists>m. r = Inr m" if "find_first is_ok (map ?f [0..<n]) = Some r" for r
    using find_first_mem [OF that] by (auto simp: is_ok_iff)
  have bad: "\<exists>e. ?f (n - 1) = Inl e" if "find_first is_ok (map ?f [0..<n]) = None" "n \<noteq> 0"
  proof -
    have "n - 1 \<in> {0..<n}" using that(2) by simp
    with that(1) have "\<not> is_ok (?f (n - 1))" unfolding find_first_None by (simp del: atLeastLessThan_iff)
    then show ?thesis by (cases "?f (n - 1)") auto
  qed
  show ?thesis
  proof (cases "find_first is_ok (map ?f [0..<n])")
    case None
    then show ?thesis
      using bad by (cases "n = 0") (auto simp: safe_chat_json_def chat_loop_spec split: option.split)
  next
    case (Some r)
    with ok show ?thesis by (auto simp: safe_chat_json_def chat_loop_spec)
  qed
qed

lemma cut_first_hit:
  assumes "p \<notin> set pre"
  shows "cut_first (p # pat) (pre @ (p # pat) @ post) = Some (pre, post)"
  using assms by (induction pre) auto

lemma fenced_text_hit:
  assumes "CHR 0x60 \<notin> set pre" "CHR 0x60 \<notin> set body"
  shows "fenced_text (pre @ fence @ ''json'' @ body @ fence @ post) = Some body"
  using cut_first_hit [OF assms(1), of "[CHR 0x60, CHR 0x60]"]
    cut_first_hit [OF assms(2), of "[CHR 0x60, CHR 0x60]"]
  by (simp add: fenced_text_def fence_def Let_def)

text \<open>
  A valid JSON document inside a fenced block is never lost: when the reply wraps in a json
  fence, with any text before and after, a body that validates after stripping, the parser returns
  a value of the schema, and every value the parser ever returns was accepted by the schema.
\<close>

theorem fenced_reply_parsed:
  assumes "CHR 0x60 \<notin> set pre" "CHR 0x60 \<notin> set body" "strip body \<noteq> []"
    and "validate_json sc (strip body) = Some m"
  shows "\<exists>m'. parse_or_repair lib sc (pre @ fence @ ''json'' @ body @ fence @ post) = Some m' \<and>
    ((\<exists>t. validate_json sc t = Some m') \<or> (\<exists>j. validate_obj sc j = Some m'))"
proof -
  let ?t = "pre @ fence @ ''json'' @ body @ fence @ post"
  have ne: "?t \<noteq> []" by (simp add: fence_def)
  have "strip body \<in> set (candidate_json_strings ?t)"
    using ne assms(3) unfolding candidate_json_strings_def fenced_text_hit [OF assms(1,2)]
    by (simp del: append.simps add: unique_nonempty_spec)
  from try_candidates_hit [of _ _ sc, OF this assms(4)]
  obtain m' where "try_candidates lib sc (candidate_json_strings ?t) = Some m'" by blast
  then have "parse_or_repair lib sc ?t \<noteq> None"
    using ne unfolding parse_or_repair_def by (simp del: append.simps split: option.split)
  then obtain m'' where "parse_or_repair lib sc ?t = Some m''" by blast
  with parse_or_repair_sound [OF this] show ?thesis by auto
qed

theorem fenced_reply_parsed_witness:
  "\<exists>m'. parse_or_repair \<lparr>json_loads = (\<lambda>t. None), read_float = (\<lambda>t. None)\<rparr>
      \<lparr>validate_json = (\<lambda>t. if t = ''{}'' then Some (1 :: nat) else None), validate_obj = (\<lambda>j. None), int_fields = []\<rparr>
      (''Sure: '' @ fence @ ''json'' @ '' {} '' @ fence @ ''ok'') = Some m' \<and>
    ((\<exists>t. (if t = ''{}'' then Some (1 :: nat) else None) = Some m') \<or> (\<exists>j :: json. None = Some m'))"
proof -
  have "strip '' {} '' = ''{}''" by code_simp
  then show ?thesis
    using fenced_reply_parsed [of "''Sure: ''" "'' {} ''"
        "\<lparr>validate_json = (\<lambda>t. if t = ''{}'' then Some (1 :: nat) else None), validate_obj = (\<lambda>j. None), int_fields = []\<rparr>"
        1 "\<lparr>json_loads = (\<lambda>t. None), read_float = (\<lambda>t. None)\<rparr>" "''ok''"]
    by simp
qed

end
