(* ===== verification/Judge.thy ===== *)
theory Judge
  imports Competition Png VlmChat
begin

text \<open>
  The multi-stage duel judge, from \<^verbatim>\<open>judge_service/judges/multi_stage.py\<close>. The queries to the
  vision-language model are values that carry what the message builders put into them; the
  model, the schema validators, the HTTP fetch, zlib, numpy's loader and dot product are the
  fields of \<open>judge_io\<close>. Every other step of the code is a definition here.
\<close>

section \<open>Thresholds and angles\<close>

definition S1_DRAW_THRESHOLD :: pyfloat where "S1_DRAW_THRESHOLD = fl (7 / 10)"
definition S1_BOTH_BAD_AVG :: pyfloat where "S1_BOTH_BAD_AVG = 8"
definition S1_BOTH_BAD_MAX_DIFF :: pyfloat where "S1_BOTH_BAD_MAX_DIFF = max (3 / 2) S1_DRAW_THRESHOLD"
definition S1_SPLIT_CONSISTENCY_THRESH :: pyfloat where "S1_SPLIT_CONSISTENCY_THRESH = fl (65 / 100)"
definition S1_SPLIT_MIN_SIGNED :: nat where "S1_SPLIT_MIN_SIGNED = 3"

definition S1_ANGLES :: "(int \<times> int \<times> pyfloat \<times> string) list" where
  "S1_ANGLES = [(30, 0, 1, ''front_left''), (330, 0, 1, ''front_right''),
                (0, 15, 1, ''front_below''), (0, - 30, 1, ''front_above'')]"

fun S1_ANGLE_DESC :: "string \<Rightarrow> string" where
  "S1_ANGLE_DESC label =
     (if label = ''front_left'' then ''slightly left of the front''
      else if label = ''front_right'' then ''slightly right of the front''
      else if label = ''front_below'' then ''the front, from slightly below''
      else ''the front, from slightly above'')"

definition S2_BV_MIN_GAP :: pyfloat where "S2_BV_MIN_GAP = 1"
definition S2_AC_MIN_GAP :: pyfloat where "S2_AC_MIN_GAP = 1"
definition S2_CL_MIN_GAP :: int where "S2_CL_MIN_GAP = 2"
definition S2_MIN_CONSENSUS :: nat where "S2_MIN_CONSENSUS = 2"
definition S2_STRONG_BV_GAP :: pyfloat where "S2_STRONG_BV_GAP = 2"
definition S2_STRONG_CL_GAP :: int where "S2_STRONG_CL_GAP = 6"
definition S2_CHECKLIST_GAP_THRESHOLD :: int where "S2_CHECKLIST_GAP_THRESHOLD = 2"
definition S2_CHECKLIST_MAIN_BONUS :: int where "S2_CHECKLIST_MAIN_BONUS = 3"
definition S3_GRAY_DIFF_THRESHOLD :: pyfloat where "S3_GRAY_DIFF_THRESHOLD = 2"
definition S3_VLM_MAX_RETRIES :: nat where "S3_VLM_MAX_RETRIES = 5"
definition S4_K_THRESHOLD :: nat where "S4_K_THRESHOLD = 3"
definition S4_VLM_MAX_RETRIES :: nat where "S4_VLM_MAX_RETRIES = 4"

definition S4_SIDE_ANGLES :: "(string \<times> string) list" where
  "S4_SIDE_ANGLES = [(''right'', ''the right side''), (''back'', ''the back''),
                     (''left'', ''the left side''), (''top_down'', ''directly above (top-down)'')]"

section \<open>Queries and responses\<close>

datatype choice = CHOICE_A | CHOICE_B | CHOICE_DRAW

record penalty =
  penalty_1 :: int
  penalty_2 :: int
  issues :: string

definition JSON_FAILED_MARKER :: string where
  "JSON_FAILED_MARKER = ''JSON_PARSE_FAILED''"

definition neutral_penalty :: penalty where
  "neutral_penalty = \<lparr>penalty_1 = 5, penalty_2 = 5, issues = JSON_FAILED_MARKER\<rparr>"

datatype match_level = MATCH_YES | MATCH_PARTIAL | MATCH_NO

record prompt_checklist =
  main_object :: string
  features :: "(string \<times> string) list"

record verification =
  checks :: "(string \<times> match_level) list"
  main_object_correct :: bool

datatype side_verdict = SIDE_OK | SIDE_GARBAGE

text \<open>
  What the message builders build: prompt image, rendered images in order, and the variable
  part of the text. \<open>PromptMatch\<close> is \<^verbatim>\<open>_s1_messages\<close> and the identical builder of stage 3.
\<close>

datatype messages =
    PromptMatch string string string string
  | BestView string string string
  | Artifact string string string
  | Decompose string
  | Verify string string prompt_checklist
  | SideGuard string string string
  | Explain string string string

record judge_io =
  io_create :: "string \<Rightarrow> messages \<Rightarrow> pyfloat \<Rightarrow> int \<Rightarrow> string result"
  io_penalty :: "string \<Rightarrow> penalty option"
  io_checklist :: "string \<Rightarrow> prompt_checklist option"
  io_verification :: "string \<Rightarrow> verification option"
  io_side :: "string \<Rightarrow> side_verdict option"
  io_issues :: "string \<Rightarrow> string option"
  io_fetch :: "string \<Rightarrow> bytes option"
  io_inflate :: "bytes \<Rightarrow> bytes result"
  io_npz :: "bytes \<Rightarrow> (string, rat list) dict option"
  io_dot :: "rat list \<Rightarrow> rat list \<Rightarrow> pyfloat"

definition chat_default :: "judge_io \<Rightarrow> (string \<Rightarrow> 'm option) \<Rightarrow> string \<Rightarrow> messages \<Rightarrow> int \<Rightarrow> nat \<Rightarrow> 'm \<Rightarrow> 'm" where
  "chat_default io parse label msgs seed retries d =
     (case safe_chat_json (io_create io label msgs) parse seed 0 retries (Some d) of
        Inr m \<Rightarrow> m | Inl _ \<Rightarrow> d)"

definition ask_penalty :: "judge_io \<Rightarrow> string \<Rightarrow> messages \<Rightarrow> int \<Rightarrow> nat \<Rightarrow> penalty" where
  "ask_penalty io label msgs seed retries =
     chat_default io (io_penalty io) label msgs seed retries neutral_penalty"

definition white_url :: "string \<Rightarrow> string \<Rightarrow> string" where
  "white_url views name = views @ ''/white/'' @ name @ ''.png''"

definition gray_url :: "string \<Rightarrow> string \<Rightarrow> string" where
  "gray_url views name = views @ ''/gray/'' @ name @ ''.png''"

definition grid_url :: "string \<Rightarrow> string" where
  "grid_url views = views @ ''/grid.png''"

definition embeddings_url :: "string \<Rightarrow> string" where
  "embeddings_url views = views @ ''/embeddings.npz''"

section \<open>Stage 1: prompt match\<close>

record s1_angle =
  an_theta :: int
  an_phi :: int
  an_weight :: pyfloat
  an_label :: string
  pen_a :: pyfloat
  pen_b :: pyfloat
  diff_ab :: int
  diff_ba :: int
  contradictory :: bool
  json_failed :: bool

definition opposite_signs :: "int \<Rightarrow> int \<Rightarrow> bool" where
  "opposite_signs x y = ((0 < x \<and> y < 0) \<or> (x < 0 \<and> 0 < y))"

definition s1_angle_of :: "int \<times> int \<times> pyfloat \<times> string \<Rightarrow> penalty \<Rightarrow> penalty \<Rightarrow> s1_angle" where
  "s1_angle_of angle ab ba =
     (case angle of (theta, phi, weight, label) \<Rightarrow>
        (let d_ab = penalty_1 ab - penalty_2 ab; d_ba = penalty_2 ba - penalty_1 ba;
             failed = (issues ab = JSON_FAILED_MARKER \<or> issues ba = JSON_FAILED_MARKER)
         in \<lparr>an_theta = theta, an_phi = phi, an_weight = weight, an_label = label,
             pen_a = int_div (penalty_1 ab + penalty_2 ba) 2,
             pen_b = int_div (penalty_2 ab + penalty_1 ba) 2,
             diff_ab = d_ab, diff_ba = d_ba,
             contradictory = failed \<or> opposite_signs d_ab d_ba, json_failed = failed\<rparr>))"

definition s1_ask :: "judge_io \<Rightarrow> string \<Rightarrow> int \<Rightarrow> string \<Rightarrow> string \<Rightarrow> string \<Rightarrow> penalty" where
  "s1_ask io prompt seed left right desc =
     ask_penalty io ''s1_prompt_match'' (PromptMatch prompt left right desc) seed 5"

definition s1_run :: "judge_io \<Rightarrow> string \<Rightarrow> string \<Rightarrow> string \<Rightarrow> int \<Rightarrow> s1_angle list" where
  "s1_run io prompt left_views right_views seed =
     map (\<lambda>angle. case angle of (theta, phi, weight, label) \<Rightarrow>
            (let a = white_url left_views label; b = white_url right_views label;
                 desc = S1_ANGLE_DESC label
             in s1_angle_of angle (s1_ask io prompt seed a b desc) (s1_ask io prompt seed b a desc)))
         S1_ANGLES"

definition n_consistent :: "s1_angle list \<Rightarrow> nat" where
  "n_consistent angles = length (filter (\<lambda>a. \<not> contradictory a) angles)"

text \<open>The running weights of the two directions and the number of signed angles.\<close>

fun direction_weights :: "s1_angle list \<Rightarrow> pyfloat \<times> pyfloat \<times> nat \<Rightarrow> pyfloat \<times> pyfloat \<times> nat" where
  "direction_weights [] acc = acc"
| "direction_weights (a # as) (w_a, w_b, n) =
     (if pen_a a = pen_b a then direction_weights as (w_a, w_b, n)
      else if pen_b a < pen_a a then direction_weights as (w_a, fadd w_b (an_weight a), Suc n)
      else direction_weights as (fadd w_a (an_weight a), w_b, Suc n))"

definition s1_direction_consistency :: "s1_angle list \<Rightarrow> pyfloat \<times> pyfloat \<times> pyfloat \<times> nat" where
  "s1_direction_consistency angles =
     (case direction_weights angles (0, 0, 0) of (w_a, w_b, n) \<Rightarrow>
        (let total = fadd w_a w_b
         in if total = 0 then (1, 0, 0, 0)
            else (fdiv \<bar>fsub w_a w_b\<bar> total, w_a, w_b, n)))"

definition s1_aggregate :: "s1_angle list \<Rightarrow> choice" where
  "s1_aggregate angles =
     (let consistent = filter (\<lambda>a. \<not> contradictory a) angles
      in if consistent = [] then CHOICE_DRAW
         else
           (let total_w = fsum (map an_weight consistent);
                wpa = fdiv (fsum (map (\<lambda>a. fmul (an_weight a) (pen_a a)) consistent)) total_w;
                wpb = fdiv (fsum (map (\<lambda>a. fmul (an_weight a) (pen_b a)) consistent)) total_w;
                diff = fsub wpa wpb;
                avg = fdiv (fadd wpa wpb) 2
            in if S1_BOTH_BAD_AVG \<le> avg \<and> \<bar>diff\<bar> \<le> S1_BOTH_BAD_MAX_DIFF then CHOICE_DRAW
               else if \<bar>diff\<bar> \<le> S1_DRAW_THRESHOLD then CHOICE_DRAW
               else
                 (case s1_direction_consistency consistent of (consistency, w_a, w_b, n_signed) \<Rightarrow>
                    if S1_SPLIT_MIN_SIGNED \<le> n_signed \<and> consistency < S1_SPLIT_CONSISTENCY_THRESH
                    then CHOICE_DRAW
                    else if diff < 0 then CHOICE_A else CHOICE_B)))"

section \<open>Stage 2: three sub-judges\<close>

record penalty_pair =
  penalty_a :: pyfloat
  penalty_b :: pyfloat

definition penalty_pair_of :: "penalty \<Rightarrow> penalty \<Rightarrow> penalty_pair" where
  "penalty_pair_of ab ba =
     \<lparr>penalty_a = int_div (penalty_1 ab + penalty_2 ba) 2,
      penalty_b = int_div (penalty_2 ab + penalty_1 ba) 2\<rparr>"

text \<open>\<^verbatim>\<open>max(candidates, key=\<dots>)\<close>: the first key with the greatest value.\<close>

fun arg_max_from :: "('a \<Rightarrow> pyfloat) \<Rightarrow> 'a \<Rightarrow> 'a list \<Rightarrow> 'a" where
  "arg_max_from f best [] = best"
| "arg_max_from f best (x # xs) = arg_max_from f (if f best < f x then x else best) xs"

definition pick_best_view :: "(rat list \<Rightarrow> rat list \<Rightarrow> pyfloat) \<Rightarrow> (string, rat list) dict \<Rightarrow>
    (string \<times> pyfloat) option" where
  "pick_best_view dot embeds =
     (case dget embeds ''prompt'' of
        None \<Rightarrow> None
      | Some prompt_vec \<Rightarrow>
          (case filter (\<lambda>(k, v). take 5 k = ''view_'') embeds of
             [] \<Rightarrow> None
           | c # cs \<Rightarrow>
               (let (k, v) = arg_max_from (\<lambda>(k, v). dot v prompt_vec) c cs
                in Some (drop 5 k, dot v prompt_vec))))"

definition load_embeddings :: "judge_io \<Rightarrow> string \<Rightarrow> (string, rat list) dict option" where
  "load_embeddings io views =
     (case io_fetch io (embeddings_url views) of None \<Rightarrow> None | Some data \<Rightarrow> io_npz io data)"

definition s2bv_run :: "judge_io \<Rightarrow> string \<Rightarrow> string \<Rightarrow> string \<Rightarrow> int \<Rightarrow> penalty_pair option" where
  "s2bv_run io prompt left_views right_views seed =
     (case (load_embeddings io left_views, load_embeddings io right_views) of
        (Some le, Some re) \<Rightarrow>
          (case (pick_best_view (io_dot io) le, pick_best_view (io_dot io) re) of
             (Some (name_a, sim_a), Some (name_b, sim_b)) \<Rightarrow>
               (let a = white_url left_views name_a; b = white_url right_views name_b
                in Some (penalty_pair_of
                     (ask_penalty io ''s2bv_ab'' (BestView prompt a b) seed 5)
                     (ask_penalty io ''s2bv_ba'' (BestView prompt b a) seed 5)))
           | _ \<Rightarrow> None)
      | _ \<Rightarrow> None)"

definition s2ac_run :: "judge_io \<Rightarrow> string \<Rightarrow> string \<Rightarrow> string \<Rightarrow> int \<Rightarrow> penalty_pair" where
  "s2ac_run io prompt left_views right_views seed =
     (let a = grid_url left_views; b = grid_url right_views
      in penalty_pair_of
           (ask_penalty io ''s2ac_ab'' (Artifact prompt a b) seed 5)
           (ask_penalty io ''s2ac_ba'' (Artifact prompt b a) seed 5))"

fun match_score :: "match_level \<Rightarrow> int" where
  "match_score MATCH_YES = 2"
| "match_score MATCH_PARTIAL = 1"
| "match_score MATCH_NO = 0"

definition s2cl_score :: "verification \<Rightarrow> int" where
  "s2cl_score r =
     sum_list (map (\<lambda>(_, m). match_score m) (checks r)) +
     (if main_object_correct r then S2_CHECKLIST_MAIN_BONUS else 0)"

text \<open>The three shapes of the checklist detail.\<close>

datatype checklist_detail =
    DecomposeFailed
  | VerifyFailed prompt_checklist
  | Verified prompt_checklist verification verification int int int choice

definition s2cl_choice :: "int \<Rightarrow> choice" where
  "s2cl_choice gap =
     (if S2_CHECKLIST_GAP_THRESHOLD \<le> \<bar>gap\<bar> then (if 0 < gap then CHOICE_A else CHOICE_B)
      else CHOICE_DRAW)"

definition s2cl_decompose :: "judge_io \<Rightarrow> string \<Rightarrow> int \<Rightarrow> prompt_checklist result" where
  "s2cl_decompose io prompt seed =
     safe_chat_json (io_create io ''s2cl_decompose'' (Decompose prompt)) (io_checklist io) seed 0 5 None"

definition s2cl_verify :: "judge_io \<Rightarrow> string \<Rightarrow> string \<Rightarrow> prompt_checklist \<Rightarrow> int \<Rightarrow> verification result" where
  "s2cl_verify io prompt grid checklist seed =
     safe_chat_json (io_create io ''s2cl_verify'' (Verify prompt grid checklist)) (io_verification io)
       seed 0 5 None"

definition s2cl_run :: "judge_io \<Rightarrow> string \<Rightarrow> string \<Rightarrow> string \<Rightarrow> int \<Rightarrow> checklist_detail" where
  "s2cl_run io prompt left_views right_views seed =
     (case s2cl_decompose io prompt seed of
        Inl _ \<Rightarrow> DecomposeFailed
      | Inr checklist \<Rightarrow>
          (case (s2cl_verify io prompt (grid_url left_views) checklist (seed + 100),
                 s2cl_verify io prompt (grid_url right_views) checklist (seed + 200)) of
             (Inr va, Inr vb) \<Rightarrow>
               (let score_a = s2cl_score va; score_b = s2cl_score vb; gap = score_a - score_b
                in Verified checklist va vb score_a score_b gap (s2cl_choice gap))
           | _ \<Rightarrow> VerifyFailed checklist))"

fun checklist_gap :: "checklist_detail \<Rightarrow> int" where
  "checklist_gap (Verified _ _ _ _ _ gap _) = gap"
| "checklist_gap _ = 0"

definition s2_penalty_vote :: "penalty_pair option \<Rightarrow> pyfloat \<Rightarrow> choice option \<times> pyfloat option" where
  "s2_penalty_vote raw min_gap =
     (case raw of
        None \<Rightarrow> (None, None)
      | Some p \<Rightarrow>
          (let diff = fsub (penalty_a p) (penalty_b p)
           in if \<bar>diff\<bar> < min_gap then (None, Some diff)
              else (Some (if diff < 0 then CHOICE_A else CHOICE_B), Some diff)))"

definition s2_checklist_vote :: "checklist_detail \<Rightarrow> int \<Rightarrow> choice option \<times> int" where
  "s2_checklist_vote detail min_gap =
     (let gap = checklist_gap detail
      in if \<bar>gap\<bar> < min_gap then (None, gap)
         else (Some (if 0 < gap then CHOICE_A else CHOICE_B), gap))"

definition strong_candidates :: "pyfloat option \<Rightarrow> int \<Rightarrow> (choice \<times> string) list" where
  "strong_candidates bv_diff cl_gap =
     (case bv_diff of
        Some d \<Rightarrow> if S2_STRONG_BV_GAP \<le> \<bar>d\<bar>
          then [(if d < 0 then CHOICE_A else CHOICE_B, ''bv|'' @ show_signed 1 d @ ''|'')] else []
      | None \<Rightarrow> [])
     @ (if S2_STRONG_CL_GAP \<le> \<bar>cl_gap\<bar>
        then [(if 0 < cl_gap then CHOICE_A else CHOICE_B,
               ''cl|'' @ (if cl_gap < 0 then show_int cl_gap else ''+'' @ show_int cl_gap) @ ''|'')]
        else [])"

definition s2_strong_voter_choice :: "pyfloat option \<Rightarrow> int \<Rightarrow> (choice \<times> string) option" where
  "s2_strong_voter_choice bv_diff cl_gap =
     (let candidates = strong_candidates bv_diff cl_gap
      in if candidates = [] then None
         else if card (set (map fst candidates)) > 1 then None
         else Some (fst (hd candidates), join_with ''+'' (map snd candidates)))"

text \<open>
  \<^verbatim>\<open>Counter\<close> counts in the order of first occurrence; \<^verbatim>\<open>most_common(1)\<close> is the first key with the
  greatest count.
\<close>

fun count_votes :: "choice list \<Rightarrow> (choice, nat) dict \<Rightarrow> (choice, nat) dict" where
  "count_votes [] c = c"
| "count_votes (v # vs) c = count_votes vs (dset v (Suc (dget_default c v 0)) c)"

fun most_common :: "(choice \<times> nat) \<Rightarrow> (choice, nat) dict \<Rightarrow> choice \<times> nat" where
  "most_common best [] = best"
| "most_common best (x # xs) = most_common (if snd best < snd x then x else best) xs"

definition s2_consensus :: "choice option list \<Rightarrow> nat \<Rightarrow> choice" where
  "s2_consensus votes min_agree =
     (case count_votes (List.map_filter id votes) [] of
        [] \<Rightarrow> CHOICE_DRAW
      | c # cs \<Rightarrow>
          (let (top, count) = most_common c cs
           in if count < min_agree then CHOICE_DRAW
              else if sum_list (map snd (filter (\<lambda>(k, n). k \<noteq> top) (c # cs))) < count then top
              else CHOICE_DRAW))"

section \<open>Stage 3: gray-background rescue\<close>

record s3_detail =
  s3_fired :: bool
  s3_choice :: "choice option"

definition gray_choice :: "penalty \<Rightarrow> penalty \<Rightarrow> choice option" where
  "gray_choice ab ba =
     (let p = penalty_pair_of ab ba; diff = fsub (penalty_a p) (penalty_b p);
          d_ab = penalty_1 ab - penalty_2 ab; d_ba = penalty_2 ba - penalty_1 ba
      in if opposite_signs d_ab d_ba then None
         else if \<bar>diff\<bar> < S3_GRAY_DIFF_THRESHOLD then None
         else Some (if diff < 0 then CHOICE_A else CHOICE_B))"

definition s3_run :: "judge_io \<Rightarrow> string \<Rightarrow> string \<Rightarrow> string \<Rightarrow> int \<Rightarrow> s3_detail" where
  "s3_run io prompt left_views right_views seed =
     (let a = gray_url left_views ''front_left''; b = gray_url right_views ''front_left''
      in case (io_fetch io a, io_fetch io b) of
           (Some a_png, Some b_png) \<Rightarrow>
             (case gray_gate (io_inflate io) [a_png, b_png] of
                None \<Rightarrow> \<lparr>s3_fired = False, s3_choice = None\<rparr>
              | Some False \<Rightarrow> \<lparr>s3_fired = False, s3_choice = None\<rparr>
              | Some True \<Rightarrow>
                  (let ab = ask_penalty io ''s3_gray_ab''
                              (PromptMatch prompt a b ''slightly left of the front'') seed S3_VLM_MAX_RETRIES;
                       ba = ask_penalty io ''s3_gray_ba''
                              (PromptMatch prompt b a ''slightly left of the front'') (seed + 7) S3_VLM_MAX_RETRIES
                   in \<lparr>s3_fired = True, s3_choice = gray_choice ab ba\<rparr>))
         | _ \<Rightarrow> \<lparr>s3_fired = False, s3_choice = None\<rparr>)"

section \<open>Stage 4: side guard\<close>

definition s4_ask_per_angle :: "judge_io \<Rightarrow> string \<Rightarrow> string \<Rightarrow> string \<Rightarrow> int \<Rightarrow> side_verdict" where
  "s4_ask_per_angle io front angle desc seed =
     chat_default io (io_side io) ''s4_per_angle'' (SideGuard front angle desc) seed S4_VLM_MAX_RETRIES SIDE_OK"

definition s4_aggregate_side :: "side_verdict list \<Rightarrow> nat \<Rightarrow> side_verdict" where
  "s4_aggregate_side verdicts k =
     (if k \<le> length (filter (\<lambda>v. v = SIDE_GARBAGE) verdicts) then SIDE_GARBAGE else SIDE_OK)"

definition s4_step_down :: "choice \<Rightarrow> side_verdict \<Rightarrow> side_verdict \<Rightarrow> choice \<times> string" where
  "s4_step_down primary side_a side_b =
     (let a_bad = (side_a = SIDE_GARBAGE); b_bad = (side_b = SIDE_GARBAGE)
      in if a_bad = b_bad then (primary, ''primary'')
         else if a_bad then
           (if primary = CHOICE_A then (CHOICE_DRAW, ''step_down'')
            else if primary = CHOICE_DRAW then (CHOICE_B, ''step_down'')
            else (primary, ''primary''))
         else if primary = CHOICE_B then (CHOICE_DRAW, ''step_down'')
         else if primary = CHOICE_DRAW then (CHOICE_A, ''step_down'')
         else (primary, ''primary''))"

definition s4_angle_verdicts :: "judge_io \<Rightarrow> string \<Rightarrow> int \<Rightarrow> (string \<times> side_verdict) list" where
  "s4_angle_verdicts io views seed =
     map (\<lambda>(i, label, desc). (label,
            s4_ask_per_angle io (white_url views ''front_left'') (white_url views label) desc
              (seed + int i * 100)))
         (zip [0..<length S4_SIDE_ANGLES] S4_SIDE_ANGLES)"

record s4_detail =
  s4_primary :: choice
  s4_side_a :: side_verdict
  s4_side_b :: side_verdict
  s4_angles_a :: "(string \<times> side_verdict) list"
  s4_angles_b :: "(string \<times> side_verdict) list"
  s4_source :: string
  s4_applied :: bool
  s4_choice :: choice

definition s4_run :: "judge_io \<Rightarrow> string \<Rightarrow> string \<Rightarrow> choice \<Rightarrow> int \<Rightarrow> s4_detail" where
  "s4_run io left_views right_views primary seed =
     (let angles_a = s4_angle_verdicts io left_views (seed + 5000);
          angles_b = s4_angle_verdicts io right_views (seed + 6000);
          side_a = s4_aggregate_side (map snd angles_a) S4_K_THRESHOLD;
          side_b = s4_aggregate_side (map snd angles_b) S4_K_THRESHOLD;
          (c, source) = s4_step_down primary side_a side_b
      in \<lparr>s4_primary = primary, s4_side_a = side_a, s4_side_b = side_b, s4_angles_a = angles_a,
          s4_angles_b = angles_b, s4_source = source, s4_applied = (c \<noteq> primary), s4_choice = c\<rparr>)"

section \<open>The trace kept with a duel\<close>

record slim_s1_detail =
  sl1_choice :: choice
  sl1_n_total :: nat
  sl1_n_consistent :: nat
  sl1_angles :: "(string \<times> pyfloat \<times> pyfloat) list"

definition slim_s1 :: "s1_angle list \<Rightarrow> choice \<Rightarrow> slim_s1_detail" where
  "slim_s1 angles c =
     \<lparr>sl1_choice = c, sl1_n_total = length angles, sl1_n_consistent = n_consistent angles,
      sl1_angles = map (\<lambda>a. (an_label a, pen_a a, pen_b a)) angles\<rparr>"

datatype slim_checklist_detail =
    SlimFailed
  | SlimChecklist string "bool option" "bool option"
      "(string \<times> match_level option \<times> match_level option) list" int int

definition check_of :: "verification \<Rightarrow> string \<Rightarrow> match_level option" where
  "check_of v feature = map_of (rev (checks v)) feature"

fun slim_checklist :: "checklist_detail \<Rightarrow> slim_checklist_detail" where
  "slim_checklist DecomposeFailed = SlimFailed"
| "slim_checklist (VerifyFailed c) =
     SlimChecklist (main_object c) None None (map (\<lambda>(_, d). (d, None, None)) (features c)) 0 0"
| "slim_checklist (Verified c va vb score_a score_b gap ch) =
     SlimChecklist (main_object c) (Some (main_object_correct va)) (Some (main_object_correct vb))
       (map (\<lambda>(_, d). (d, check_of va d, check_of vb d)) (features c)) score_a score_b"

record slim_s2_detail =
  sl2_choice :: choice
  sl2_source :: string
  sl2_best_view :: "penalty_pair option"
  sl2_artifact :: penalty_pair
  sl2_checklist :: slim_checklist_detail

definition slim_s2 :: "penalty_pair option \<Rightarrow> penalty_pair \<Rightarrow> checklist_detail \<Rightarrow> choice \<Rightarrow> string \<Rightarrow>
    slim_s2_detail" where
  "slim_s2 bv ac cl c source =
     \<lparr>sl2_choice = c, sl2_source = source, sl2_best_view = bv, sl2_artifact = ac,
      sl2_checklist = slim_checklist cl\<rparr>"

record slim_s4_detail =
  sl4_choice :: choice
  sl4_sides :: "side_verdict \<times> side_verdict"
  sl4_per_angle :: "(string \<times> side_verdict) list \<times> (string \<times> side_verdict) list"

definition slim_s4 :: "s4_detail \<Rightarrow> slim_s4_detail" where
  "slim_s4 s = \<lparr>sl4_choice = s4_choice s, sl4_sides = (s4_side_a s, s4_side_b s),
                sl4_per_angle = (s4_angles_a s, s4_angles_b s)\<rparr>"

record duel_detail =
  dd_reason :: "string option"
  dd_s1 :: "slim_s1_detail option"
  dd_s2 :: "slim_s2_detail option"
  dd_s3 :: "s3_detail option"
  dd_s4 :: "slim_s4_detail option"
  dd_decided_by :: string
  dd_issues :: string

definition reason_detail :: "string \<Rightarrow> duel_detail" where
  "reason_detail reason =
     \<lparr>dd_reason = Some reason, dd_s1 = None, dd_s2 = None, dd_s3 = None, dd_s4 = None,
      dd_decided_by = [], dd_issues = []\<rparr>"

fun choice_to_winner :: "choice \<Rightarrow> duel_winner" where
  "choice_to_winner CHOICE_A = WIN_LEFT"
| "choice_to_winner CHOICE_B = WIN_RIGHT"
| "choice_to_winner CHOICE_DRAW = WIN_DRAW"

fun show_choice :: "choice \<Rightarrow> string" where
  "show_choice CHOICE_A = ''A''"
| "show_choice CHOICE_B = ''B''"
| "show_choice CHOICE_DRAW = ''draw''"

section \<open>The pipeline\<close>

definition explain_run :: "judge_io \<Rightarrow> string \<Rightarrow> string \<Rightarrow> string \<Rightarrow> int \<Rightarrow> string" where
  "explain_run io prompt left_grid right_grid seed =
     chat_default io (io_issues io) ''explain'' (Explain prompt left_grid right_grid) seed 3 []"

text \<open>
  Stages 2 and 3: the primary choice, how it was decided, and the stage details. Stage 3 runs
  only when no strong voter decided and the consensus is a draw.
\<close>

definition primary_choice :: "judge_io \<Rightarrow> string \<Rightarrow> string \<Rightarrow> string \<Rightarrow> int \<Rightarrow>
    choice \<times> string \<times> slim_s2_detail \<times> s3_detail option" where
  "primary_choice io prompt left_views right_views seed =
     (let bv = s2bv_run io prompt left_views right_views seed;
          ac = s2ac_run io prompt left_views right_views seed;
          cl = s2cl_run io prompt left_views right_views seed;
          (bv_vote, bv_diff) = s2_penalty_vote bv S2_BV_MIN_GAP;
          (ac_vote, ac_diff) = s2_penalty_vote (Some ac) S2_AC_MIN_GAP;
          (cl_vote, cl_gap) = s2_checklist_vote cl S2_CL_MIN_GAP
      in case s2_strong_voter_choice bv_diff cl_gap of
           Some (strong, tag) \<Rightarrow>
             (strong, ''S2 strong_voter ['' @ tag @ '']'', slim_s2 bv ac cl strong ''strong_voter'', None)
         | None \<Rightarrow>
             (let consensus = s2_consensus [bv_vote, ac_vote, cl_vote] S2_MIN_CONSENSUS;
                  s2 = slim_s2 bv ac cl consensus ''consensus_3''
              in if consensus \<noteq> CHOICE_DRAW then (consensus, ''S2 consensus'', s2, None)
                 else
                   (let s3 = s3_run io prompt left_views right_views seed
                    in (case s3_choice s3 of None \<Rightarrow> CHOICE_DRAW | Some c \<Rightarrow> c,
                        (if s3_choice s3 \<noteq> None then ''S3 gray-rescue'' else ''S3 (gate did not fire) -> draw''),
                        s2, Some s3))))"

definition evaluate_duel :: "judge_io \<Rightarrow> string \<Rightarrow> generation_result \<Rightarrow> generation_result \<Rightarrow> int \<Rightarrow>
    duel_winner \<times> duel_detail" where
  "evaluate_duel io prompt left_gen right_gen seed =
     (let lv = (case gen_views left_gen of None \<Rightarrow> [] | Some v \<Rightarrow> v);
          rv = (case gen_views right_gen of None \<Rightarrow> [] | Some v \<Rightarrow> v)
      in if lv = [] \<and> rv = [] then (WIN_DRAW, reason_detail ''no previews on either side'')
         else if lv = [] then (WIN_RIGHT, reason_detail ''no preview from left'')
         else if rv = [] then (WIN_LEFT, reason_detail ''no preview from right'')
         else
           (let explanation = explain_run io prompt (grid_url lv) (grid_url rv) seed;
                s1 = s1_run io prompt lv rv seed;
                s1_choice = s1_aggregate s1
            in if s1_choice \<noteq> CHOICE_DRAW then
                 (choice_to_winner s1_choice,
                  \<lparr>dd_reason = None, dd_s1 = Some (slim_s1 s1 s1_choice), dd_s2 = None, dd_s3 = None,
                   dd_s4 = None, dd_decided_by = ''S1'', dd_issues = explanation\<rparr>)
               else
                 (case primary_choice io prompt lv rv seed of (primary, decided_by, s2, s3) \<Rightarrow>
                    (let s4 = s4_run io lv rv primary seed
                     in (choice_to_winner (s4_choice s4),
                         \<lparr>dd_reason = None, dd_s1 = Some (slim_s1 s1 s1_choice), dd_s2 = Some s2,
                          dd_s3 = s3, dd_s4 = Some (slim_s4 s4),
                          dd_decided_by = (if s4_applied s4
                            then ''S4 step-down (was '' @ show_choice primary @ '')'' else decided_by),
                          dd_issues = explanation\<rparr>)))))"

end
