(* ===== verification/MatchExecution.thy ===== *)
theory MatchExecution
  imports Competition "HOL-Library.List_Lexorder" "HOL-Library.Char_ord" "HOL-Library.Multiset"
begin

text \<open>
  One match of the judge, from \<^verbatim>\<open>judge_service/match_execution.py\<close>: a duel per prompt, strictly one
  after the other, skipped once a shutdown is requested or when the judge raises; the score and
  the margin of the match. The judge is a parameter here; the multi-stage judge is the one of
  the service.
\<close>

section \<open>Prompts\<close>

text \<open>
  \<^verbatim>\<open>Path(prompt).stem\<close>: the last component (empty and dot components do not count) without its
  last suffix; a leading or a trailing dot starts no suffix.
\<close>

definition path_name :: "string \<Rightarrow> string" where
  "path_name p = (case filter (\<lambda>c. c \<noteq> [] \<and> c \<noteq> ''.'') (split_on (CHR ''/'') p) of
     [] \<Rightarrow> [] | c # cs \<Rightarrow> last (c # cs))"

definition path_stem :: "string \<Rightarrow> string" where
  "path_stem p =
     (let name = path_name p;
          suffix = takeWhile (\<lambda>c. c \<noteq> CHR ''.'') (rev name);
          i = length name - length suffix - 1
      in if CHR ''.'' \<in> set name \<and> 0 < i \<and> i < length name - 1 then take i name else name)"

section \<open>One duel\<close>

fun winner_score :: "duel_winner \<Rightarrow> int" where
  "winner_score WIN_RIGHT = 1"
| "winner_score WIN_LEFT = - 1"
| "winner_score WIN_DRAW = 0"
| "winner_score WIN_SKIPPED = 0"

definition preview_url :: "generation_result \<Rightarrow> string option" where
  "preview_url g =
     (case gen_views g of None \<Rightarrow> None
      | Some v \<Rightarrow> if v = [] then None else Some (v @ ''/grid.png''))"

type_synonym judge = "string \<Rightarrow> generation_result \<Rightarrow> generation_result \<Rightarrow> int \<Rightarrow> duel_winner result"

text \<open>\<open>stopped\<close> is what \<^verbatim>\<open>shutdown.should_stop\<close> says when the duel is about to start.\<close>

definition evaluate_prompt :: "judge \<Rightarrow> string \<Rightarrow> generation_result \<Rightarrow> generation_result \<Rightarrow> int \<Rightarrow> bool \<Rightarrow>
    duel_report" where
  "evaluate_prompt judge prompt left_gen right_gen seed stopped =
     (let duel = \<lparr>dr_name = path_stem prompt, dr_prompt = prompt,
                  dr_left_js = gen_js left_gen, dr_left_png = preview_url left_gen,
                  dr_right_js = gen_js right_gen, dr_right_png = preview_url right_gen,
                  dr_winner = WIN_SKIPPED\<rparr>
      in if stopped then duel
         else case judge prompt left_gen right_gen seed of
                Inl _ \<Rightarrow> duel
              | Inr w \<Rightarrow> duel\<lparr>dr_winner := w\<rparr>)"

section \<open>One match\<close>

text \<open>
  The environment answers \<^verbatim>\<open>shutdown.should_stop\<close> at the given point of a clock; every prompt asks
  once, so the k-th prompt asks at \<open>clock + k\<close>.
\<close>

definition gen_of :: "generations_map \<Rightarrow> string \<Rightarrow> generation_result" where
  "gen_of gens prompt = dget_default gens (path_stem prompt) empty_generation"

fun run_duels :: "judge \<Rightarrow> (nat \<Rightarrow> bool) \<Rightarrow> nat \<Rightarrow> string list \<Rightarrow> int \<Rightarrow> generations_map \<Rightarrow> generations_map \<Rightarrow>
    duel_report list" where
  "run_duels judge stop clock [] seed lg rg = []"
| "run_duels judge stop clock (p # ps) seed lg rg =
     evaluate_prompt judge p (gen_of lg p) (gen_of rg p) seed (stop clock)
     # run_duels judge stop (Suc clock) ps seed lg rg"

definition match_score :: "duel_report list \<Rightarrow> int" where
  "match_score duels = sum_list (map (\<lambda>d. winner_score (dr_winner d)) duels)"

definition match_margin :: "duel_report list \<Rightarrow> pyfloat" where
  "match_margin duels =
     (if duels \<noteq> [] then int_div (match_score duels) (int (length duels)) else 0)"

definition run_match :: "judge \<Rightarrow> (nat \<Rightarrow> bool) \<Rightarrow> nat \<Rightarrow> string list \<Rightarrow> int \<Rightarrow> generations_map \<Rightarrow>
    generations_map \<Rightarrow> string \<Rightarrow> string \<Rightarrow> match_report" where
  "run_match judge stop clock prompts seed left_gens right_gens left right =
     (let duels = sort_key dr_name (run_duels judge stop clock prompts seed left_gens right_gens)
      in \<lparr>mr_left = left, mr_right = right, mr_score = match_score duels,
          mr_margin = match_margin duels, mr_duels = duels\<rparr>)"

section \<open>Facts\<close>

lemma length_run_duels [simp]: "length (run_duels judge stop clock ps seed lg rg) = length ps"
  by (induction ps arbitrary: clock) auto

lemma match_score_sort [simp]: "match_score (sort_key f ds) = match_score ds"
proof -
  have "sum_list (map g (sort_key f ds)) = sum_list (map g ds)" for g :: "duel_report \<Rightarrow> int"
    by (metis mset_map mset_sort sum_mset_sum_list)
  then show ?thesis by (simp add: match_score_def)
qed

lemma sort_key_Nil_iff [simp]: "sort_key f ds = [] \<longleftrightarrow> ds = []"
  by (metis length_0_conv length_sort)

lemma match_score_bounds: "\<bar>match_score ds\<bar> \<le> int (length ds)"
proof (induction ds)
  case (Cons d ds)
  have "\<bar>winner_score (dr_winner d)\<bar> \<le> 1" by (cases "dr_winner d") auto
  with Cons show ?case by (simp add: match_score_def)
qed (simp add: match_score_def)

lemma match_margin_bounds: "- 1 \<le> match_margin ds \<and> match_margin ds \<le> 1"
proof (cases "ds = []")
  case False
  let ?n = "int (length ds)" and ?s = "match_score ds"
  have n: "0 < ?n" using False by simp
  have "- ?n \<le> ?s" "?s \<le> ?n" using match_score_bounds [of ds] by linarith+
  then have "int_div (- ?n) ?n \<le> int_div ?s ?n" "int_div ?s ?n \<le> int_div ?n ?n"
    using int_div_mono [OF n] by simp_all
  moreover have "int_div ?n ?n = 1" using False by (simp add: int_div_def)
  ultimately show ?thesis using False by (simp add: match_margin_def int_div_minus)
qed (simp add: match_margin_def)

lemma match_margin_sign:
  "match_score ds = 0 \<Longrightarrow> match_margin ds = 0"
  "0 \<le> match_score ds \<Longrightarrow> 0 \<le> match_margin ds"
  "match_score ds \<le> 0 \<Longrightarrow> match_margin ds \<le> 0"
proof -
  show "match_score ds = 0 \<Longrightarrow> match_margin ds = 0" by (simp add: match_margin_def int_div_def)
  show "0 \<le> match_score ds \<Longrightarrow> 0 \<le> match_margin ds"
    by (simp add: match_margin_def int_div_def fl_nonneg)
  show "match_margin ds \<le> 0" if "match_score ds \<le> 0"
  proof -
    have "0 \<le> int_div (- match_score ds) (int (length ds))"
      using that unfolding int_div_def by (intro fl_nonneg divide_nonneg_nonneg) simp_all
    then show ?thesis by (simp add: match_margin_def int_div_minus)
  qed
qed

section \<open>A judge without a preferred side\<close>

text \<open>
  What a match needs of its judge to be fair: the judge gives the mirrored winner for the
  mirrored duel. The service's judge provides it, see \<open>JudgeLaws\<close>.
\<close>

locale fair_judge =
  fixes judge :: judge
  assumes swap: "judge prompt r l seed = rmap flip_winner (judge prompt l r seed)"
begin

lemma evaluate_prompt_swap:
  "winner_score (dr_winner (evaluate_prompt judge p r l seed b)) =
     - winner_score (dr_winner (evaluate_prompt judge p l r seed b))"
proof -
  have f: "winner_score (flip_winner w) = - winner_score w" for w by (cases w) simp_all
  show ?thesis
    using swap [of p r l seed]
    by (cases "judge p l r seed") (simp_all add: evaluate_prompt_def Let_def f)
qed

lemma score_swap:
  "match_score (run_duels judge stop clock ps seed rg lg) =
     - match_score (run_duels judge stop clock ps seed lg rg)"
proof (induction ps arbitrary: clock)
  case (Cons p ps)
  then show ?case
    by (simp add: match_score_def evaluate_prompt_swap [of p "gen_of rg p" "gen_of lg p"])
qed (simp add: match_score_def)

lemma margin_swap:
  "mr_margin (run_match judge stop clock ps seed rg lg right left) =
     - mr_margin (run_match judge stop clock ps seed lg rg left right)"
proof (cases "ps = []")
  case True
  then show ?thesis by (simp add: run_match_def Let_def match_margin_def)
next
  case False
  have "run_duels judge stop clock ps seed a b \<noteq> []" for a b
    using False by (metis length_0_conv length_run_duels)
  then show ?thesis
    by (simp add: run_match_def Let_def match_margin_def score_swap [of stop clock ps seed rg lg] int_div_minus)
qed

end

section \<open>Properties of a match\<close>

definition sided_judge :: judge where
  "sided_judge prompt l r seed =
     (if gen_js l = gen_js r then Inr WIN_DRAW
      else if gen_js l = Some ''good'' then Inr WIN_LEFT
      else if gen_js r = Some ''good'' then Inr WIN_RIGHT else Inl (PyException ''bad''))"

text \<open>
  The margin of a match is the mean of the duel outcomes: it lies between -1 and 1, is zero
  for a balanced score and has the sign of the score, there is one report per prompt in order of
  the prompts' names, and a duel that was not judged (a shutdown or an error) counts for nobody.
\<close>

theorem run_match_margin:
  "let r = run_match judge stop clock prompts seed lg rg left right
   in - 1 \<le> mr_margin r \<and> mr_margin r \<le> 1 \<and>
      (mr_score r = 0 \<longrightarrow> mr_margin r = 0) \<and> (0 \<le> mr_score r \<longrightarrow> 0 \<le> mr_margin r) \<and>
      (mr_score r \<le> 0 \<longrightarrow> mr_margin r \<le> 0) \<and>
      mset (map dr_prompt (mr_duels r)) = mset prompts \<and> sorted (map dr_name (mr_duels r)) \<and>
      ((\<forall>k<length prompts. stop (clock + k)) \<longrightarrow> mr_score r = 0 \<and> mr_margin r = 0)"
proof -
  let ?d = "run_duels judge stop clock prompts seed lg rg"
  have p: "map dr_prompt ?d = prompts"
  proof (induction prompts arbitrary: clock)
    case (Cons q qs)
    then show ?case by (auto simp: evaluate_prompt_def Let_def split: sum.split)
  qed simp
  have m: "mset (map dr_prompt (sort_key dr_name ?d)) = mset prompts"
    by (subst (2) p [symmetric]) (simp only: mset_map mset_sort)
  have z: "match_score ?d = 0" if "\<forall>k<length prompts. stop (clock + k)"
    using that
  proof (induction prompts arbitrary: clock)
    case (Cons q qs)
    have "\<forall>k<length qs. stop (Suc clock + k)"
    proof (intro allI impI)
      fix k assume "k < length qs"
      with Cons.prems [rule_format, of "Suc k"] show "stop (Suc clock + k)" by simp
    qed
    moreover have "stop clock" using Cons.prems [rule_format, of 0] by simp
    ultimately show ?case using Cons.IH by (simp add: match_score_def evaluate_prompt_def)
  qed (simp add: match_score_def)
  have z': "match_margin (sort_key dr_name ?d) = 0" if "\<forall>k<length prompts. stop (clock + k)"
    using z [OF that] by (simp add: match_margin_sign)
  show ?thesis
    unfolding run_match_def Let_def match_report.simps
    using m z z' match_margin_bounds [of "sort_key dr_name ?d"] match_margin_sign [of "sort_key dr_name ?d"]
    by (simp add: sorted_sort_key)
qed

theorem run_match_margin_witness:
  "mr_score (run_match sided_judge (\<lambda>k. True) 3 [''b.png'', ''a.png''] 1 [] [] ''x'' ''y'') = 0"
proof -
  have "\<forall>k<length [''b.png'', ''a.png'']. (\<lambda>k. True) ((3::nat) + k)" by simp
  then show ?thesis
    using run_match_margin [where judge = sided_judge and stop = "\<lambda>k. True" and clock = 3
        and prompts = "[''b.png'', ''a.png'']" and seed = 1 and lg = "[]" and rg = "[]"
        and left = "''x''" and right = "''y''"]
    unfolding Let_def by blast
qed

end
