(* ===== verification/JudgeLaws.thy ===== *)
theory JudgeLaws
  imports Judge MatchExecution
begin

text \<open>
  What the multi-stage judge guarantees: its consensus is a strict majority, every stage is
  symmetric in the two sides, an unreachable model gives a draw, and the side guard moves a
  verdict at most one step and only away from a flagged side.
\<close>

section \<open>The consensus is the majority\<close>

lemma count_votes_spec:
  "dict_ok d \<Longrightarrow> dict_ok (count_votes vs d) \<and>
     (\<forall>c. dget_default (count_votes vs d) c 0 = dget_default d c 0 + count_list vs c) \<and>
     sum_list (map snd (count_votes vs d)) = sum_list (map snd d) + length vs"
proof (induction vs d rule: count_votes.induct)
  case (2 v vs c)
  have s: "sum_list (map snd (dset v (Suc (dget_default d v 0)) d)) = Suc (sum_list (map snd d))" for d :: "(choice, nat) dict"
    by (induction d) (auto simp: dget_default_def)
  from 2 show ?case by (auto simp: s) (auto simp: dget_default_def)
qed simp

lemma most_common_max:
  "most_common b xs \<in> set (b # xs) \<and> (\<forall>x\<in>set (b # xs). snd x \<le> snd (most_common b xs))"
  by (induction b xs rule: most_common.induct) fastforce+

lemma sum_other_counts:
  fixes d :: "('a, nat) dict"
  shows "dict_ok d \<Longrightarrow> (k, n) \<in> set d \<Longrightarrow>
     sum_list (map snd (filter (\<lambda>(k', m). k' \<noteq> k) d)) + n = sum_list (map snd d)"
proof (induction d)
  case (Cons p d)
  obtain k' m where p: "p = (k', m)" by force
  show ?case
  proof (cases "k' = k")
    case True
    with Cons.prems p have "k \<notin> fst ` set d" by auto
    then have "filter (\<lambda>(k', m). k' \<noteq> k) d = d" by (intro filter_True) force
    moreover have "m = n" using Cons.prems p True \<open>k \<notin> fst ` set d\<close> by force
    ultimately show ?thesis by (simp add: p True)
  next
    case False
    with Cons p show ?thesis by auto
  qed
qed simp

lemma count_list_two: "c \<noteq> t \<Longrightarrow> count_list vs c + count_list vs t \<le> length vs"
  by (induction vs) auto

lemma s2_consensus_majority:
  assumes "c \<noteq> CHOICE_DRAW"
  shows "s2_consensus votes k = c \<longleftrightarrow>
     k \<le> count_list (List.map_filter id votes) c \<and>
     length (List.map_filter id votes) < 2 * count_list (List.map_filter id votes) c"
proof -
  let ?vs = "List.map_filter id votes"
  let ?d = "count_votes ?vs []"
  have ok: "dict_ok ?d" and cnt: "\<And>x. dget_default ?d x 0 = count_list ?vs x"
    and tot: "sum_list (map snd ?d) = length ?vs"
    using count_votes_spec [of "[]" ?vs] by (simp_all add: dget_default_def)
  have entry: "n = count_list ?vs x" if "(x, n) \<in> set ?d" for x n
    using cnt [of x] dget_of_mem [OF ok that] by (simp add: dget_default_def)
  show ?thesis
  proof (cases ?d)
    case Nil
    then show ?thesis using assms tot by (simp add: s2_consensus_def)
  next
    case (Cons e es)
    obtain t n where m: "most_common e es = (t, n)" by force
    have mem: "(t, n) \<in> set ?d" and mx: "\<And>x m. (x, m) \<in> set ?d \<Longrightarrow> m \<le> n"
      using most_common_max [of e es] m Cons by force+
    have n: "n = count_list ?vs t" using entry [OF mem] .
    have others: "sum_list (map snd (filter (\<lambda>(k, n). k \<noteq> t) ?d)) + n = length ?vs"
      using sum_other_counts [OF ok mem] tot by simp
    have cle: "count_list ?vs c \<le> n"
    proof (cases "dget ?d c")
      case None
      then show ?thesis using cnt [of c] by (simp add: dget_default_def)
    next
      case (Some m)
      then show ?thesis using cnt [of c] mx dget_mem by (fastforce simp: dget_default_def)
    qed
    have two: "count_list ?vs c + count_list ?vs t \<le> length ?vs" if "c \<noteq> t"
      using that by (rule count_list_two)
    have res: "s2_consensus votes k = (if n < k then CHOICE_DRAW
        else if length ?vs - n < n then t else CHOICE_DRAW)"
    proof -
      have "sum_list (map snd (filter (\<lambda>(k, n). k \<noteq> t) (e # es))) = length ?vs - n"
        using others Cons by simp
      then show ?thesis by (simp only: s2_consensus_def Cons list.case m prod.case Let_def) 
    qed
    show ?thesis
    proof (cases "c = t")
      case True
      then show ?thesis using res others n assms by auto
    next
      case False
      with two have "count_list ?vs c + n \<le> length ?vs" by (simp add: n)
      then have "\<not> length ?vs < 2 * count_list ?vs c" using cle by linarith
      moreover have "s2_consensus votes k \<noteq> c" using res False assms by simp
      ultimately show ?thesis by blast
    qed
  qed
qed

section \<open>Swapping the sides\<close>

fun flip_choice :: "choice \<Rightarrow> choice" where
  "flip_choice CHOICE_A = CHOICE_B"
| "flip_choice CHOICE_B = CHOICE_A"
| "flip_choice CHOICE_DRAW = CHOICE_DRAW"

definition flip_angle :: "s1_angle \<Rightarrow> s1_angle" where
  "flip_angle a = a\<lparr>pen_a := pen_b a, pen_b := pen_a a, diff_ab := - diff_ba a, diff_ba := - diff_ab a\<rparr>"

definition flip_pair :: "penalty_pair \<Rightarrow> penalty_pair" where
  "flip_pair p = \<lparr>penalty_a = penalty_b p, penalty_b = penalty_a p\<rparr>"

lemma flip_choice_simps [simp]:
  "flip_choice (flip_choice c) = c"
  "flip_choice c = CHOICE_DRAW \<longleftrightarrow> c = CHOICE_DRAW"
  "flip_choice c = CHOICE_A \<longleftrightarrow> c = CHOICE_B"
  "flip_choice c = CHOICE_B \<longleftrightarrow> c = CHOICE_A"
  "choice_to_winner (flip_choice c) = flip_winner (choice_to_winner c)"
  by (cases c; simp)+

lemma opposite_signs_flip: "opposite_signs (- y) (- x) = opposite_signs x y"
  by (auto simp: opposite_signs_def)

lemma opposite_signs_diffs: "opposite_signs (a - b) (c - d) = opposite_signs (d - c) (b - a)"
  by (auto simp: opposite_signs_def)

lemma s1_angle_of_swap: "s1_angle_of angle ba ab = flip_angle (s1_angle_of angle ab ba)"
  by (cases angle) (auto simp: s1_angle_of_def flip_angle_def Let_def add.commute opposite_signs_def)

lemma penalty_pair_of_swap: "penalty_pair_of ba ab = flip_pair (penalty_pair_of ab ba)"
  by (simp add: penalty_pair_of_def flip_pair_def add.commute)

lemma direction_weights_flip:
  "direction_weights (map flip_angle as) (w_b, w_a, n) =
     (case direction_weights as (w_a, w_b, n) of (a, b, n') \<Rightarrow> (b, a, n'))"
  by (induction as "(w_a, w_b, n)" arbitrary: w_a w_b n rule: direction_weights.induct)
    (auto simp: flip_angle_def)

lemma s1_consistency_flip:
  "s1_direction_consistency (map flip_angle as) =
     (case s1_direction_consistency as of (c, a, b, n) \<Rightarrow> (c, b, a, n))"
proof -
  obtain a b n where w: "direction_weights as (0, 0, 0) = (a, b, n)" by (metis prod_cases3)
  then have w': "direction_weights (map flip_angle as) (0, 0, 0) = (b, a, n)"
    by (simp add: direction_weights_flip)
  have "fadd b a = fadd a b" "\<bar>fsub b a\<bar> = \<bar>fsub a b\<bar>"
    by (simp add: fadd_commute) (subst fsub_swap, simp)
  then show ?thesis by (simp add: s1_direction_consistency_def w w' Let_def)
qed

lemma s1_aggregate_flip: "s1_aggregate (map flip_angle as) = flip_choice (s1_aggregate as)"
proof -
  have f [simp]: "contradictory (flip_angle a) = contradictory a" "an_weight (flip_angle a) = an_weight a"
    "pen_a (flip_angle a) = pen_b a" "pen_b (flip_angle a) = pen_a a" for a
    by (simp_all add: flip_angle_def)
  let ?c = "filter (\<lambda>a. \<not> contradictory a) as"
  have fc: "filter (\<lambda>a. \<not> contradictory a) (map flip_angle as) = map flip_angle ?c"
    by (simp add: filter_map o_def)
  obtain c a b n where s: "s1_direction_consistency ?c = (c, a, b, n)" by (metis prod_cases4)
  let ?w = "fsum (map an_weight ?c)"
  let ?a = "fdiv (fsum (map (\<lambda>a. fmul (an_weight a) (pen_a a)) ?c)) ?w"
  let ?b = "fdiv (fsum (map (\<lambda>a. fmul (an_weight a) (pen_b a)) ?c)) ?w"
  have d: "fsub ?b ?a = - fsub ?a ?b" by (rule fsub_swap)
  have t: "\<not> S1_DRAW_THRESHOLD < 0" by code_simp
  obtain D G where D: "fsub ?a ?b = D" and G: "fdiv (fadd ?a ?b) 2 = G" by blast
  have G': "fdiv (fadd ?b ?a) 2 = G" using G by (simp add: fadd_commute)
  have l: "s1_aggregate as = (if ?c = [] then CHOICE_DRAW
     else if S1_BOTH_BAD_AVG \<le> G \<and> \<bar>D\<bar> \<le> S1_BOTH_BAD_MAX_DIFF then CHOICE_DRAW
     else if \<bar>D\<bar> \<le> S1_DRAW_THRESHOLD then CHOICE_DRAW
     else if S1_SPLIT_MIN_SIGNED \<le> n \<and> c < S1_SPLIT_CONSISTENCY_THRESH then CHOICE_DRAW
     else if D < 0 then CHOICE_A else CHOICE_B)"
    by (simp only: s1_aggregate_def Let_def D G s prod.case)
  have r: "s1_aggregate (map flip_angle as) = (if ?c = [] then CHOICE_DRAW
     else if S1_BOTH_BAD_AVG \<le> G \<and> \<bar>- D\<bar> \<le> S1_BOTH_BAD_MAX_DIFF then CHOICE_DRAW
     else if \<bar>- D\<bar> \<le> S1_DRAW_THRESHOLD then CHOICE_DRAW
     else if S1_SPLIT_MIN_SIGNED \<le> n \<and> c < S1_SPLIT_CONSISTENCY_THRESH then CHOICE_DRAW
     else if - D < 0 then CHOICE_A else CHOICE_B)"
    by (simp only: s1_aggregate_def Let_def fc map_map o_def f d D G' s s1_consistency_flip
        prod.case map_is_Nil_conv)
  have k: "(0 < D) = (\<not> D < 0)" if "\<not> \<bar>D\<bar> \<le> S1_DRAW_THRESHOLD"
    using that t by auto
  show ?thesis
    unfolding l r abs_minus_cancel if_distrib [of flip_choice] flip_choice.simps
    by (simp add: k cong: if_cong)
qed


section \<open>The same answers for the sides exchanged\<close>

text \<open>
  The two sides are asked about under different labels and seeds: the orders of a pair in the stages 2 and 3, the
  grids of the checklist, the angles of the guard. \<open>other_call\<close> is the label and seed of the same question about the
  sides exchanged, in a duel played with \<open>seed\<close>; \<open>reseat\<close> is the model that answers the duel with the sides
  exchanged as the given model answers the duel.
\<close>

definition other_call :: "int \<Rightarrow> string \<Rightarrow> int \<Rightarrow> string \<times> int" where
  "other_call seed l s =
     (if l = ''s2bv_ab'' then (''s2bv_ba'', s) else if l = ''s2bv_ba'' then (''s2bv_ab'', s)
      else if l = ''s2ac_ab'' then (''s2ac_ba'', s) else if l = ''s2ac_ba'' then (''s2ac_ab'', s)
      else if l = ''s3_gray_ab'' then (''s3_gray_ba'', s + 7) else if l = ''s3_gray_ba'' then (''s3_gray_ab'', s - 7)
      else if l = ''s2cl_verify'' then (l, if s < seed + 300 then s + 100 else s - 100)
      else if l = ''s4_per_angle'' then (l, if s < seed + 6000 then s + 1000 else s - 1000)
      else (l, s))"

definition reseat :: "int \<Rightarrow> judge_io \<Rightarrow> judge_io" where
  "reseat seed io = io\<lparr>io_create := \<lambda>l m t s. case other_call seed l s of (l', s') \<Rightarrow> io_create io l' m t s'\<rparr>"

lemma reseat_fields [simp]:
  "io_penalty (reseat seed io) = io_penalty io" "io_checklist (reseat seed io) = io_checklist io"
  "io_verification (reseat seed io) = io_verification io" "io_side (reseat seed io) = io_side io"
  "io_fetch (reseat seed io) = io_fetch io" "io_inflate (reseat seed io) = io_inflate io"
  "io_npz (reseat seed io) = io_npz io" "io_dot (reseat seed io) = io_dot io"
  by (simp_all add: reseat_def)

lemma reseat_create:
  "other_call seed l s = (l', s') \<Longrightarrow> io_create (reseat seed io) l m t s = io_create io l' m t s'"
  by (simp add: reseat_def)

lemma chat_loop_cong:
  "(\<And>k. k < a + n \<Longrightarrow> chat_attempt create' parse s' T k = chat_attempt create parse s T k) \<Longrightarrow>
     chat_loop create' parse s' T a n le = chat_loop create parse s T a n le"
  by (induction n arbitrary: a le) (auto split: sum.split)

lemma safe_chat_cong:
  assumes "\<And>k t. k < n \<Longrightarrow> create' t (s' + int k + 100) = create t (s + int k + 100)"
  shows "safe_chat_json create' parse s' T n d = safe_chat_json create parse s T n d"
proof -
  have "chat_loop create' parse s' T 0 n None = chat_loop create parse s T 0 n None"
    by (rule chat_loop_cong) (simp add: chat_attempt_def assms)
  then show ?thesis by (simp add: safe_chat_json_def)
qed

text \<open>One question under another label and seed.\<close>

definition same_question :: "int \<Rightarrow> string \<Rightarrow> int \<Rightarrow> string \<Rightarrow> int \<Rightarrow> nat \<Rightarrow> bool" where
  "same_question seed l s l' s' n = (\<forall>k<n. other_call seed l (s + int k + 100) = (l', s' + int k + 100))"

lemma safe_chat_reseat:
  "same_question seed l s l' s' n \<Longrightarrow>
     safe_chat_json (io_create (reseat seed io) l m) parse s T n d = safe_chat_json (io_create io l' m) parse s' T n d"
  by (rule safe_chat_cong) (simp add: same_question_def reseat_create)

lemma chat_default_reseat:
  "same_question seed l s l' s' n \<Longrightarrow> chat_default (reseat seed io) parse l m s n d = chat_default io parse l' m s' n d"
  by (simp add: chat_default_def safe_chat_reseat)

lemma ask_penalty_reseat:
  "same_question seed l s l' s' n \<Longrightarrow> ask_penalty (reseat seed io) l m s n = ask_penalty io l' m s' n"
  by (simp add: ask_penalty_def chat_default_reseat)

lemma same_questions:
  "same_question seed ''s1_prompt_match'' s ''s1_prompt_match'' s n"
  "same_question seed ''s2bv_ab'' s ''s2bv_ba'' s n" "same_question seed ''s2bv_ba'' s ''s2bv_ab'' s n"
  "same_question seed ''s2ac_ab'' s ''s2ac_ba'' s n" "same_question seed ''s2ac_ba'' s ''s2ac_ab'' s n"
  "same_question seed ''s2cl_decompose'' s ''s2cl_decompose'' s n"
  "same_question seed ''s2cl_verify'' (seed + 100) ''s2cl_verify'' (seed + 200) 5"
  "same_question seed ''s2cl_verify'' (seed + 200) ''s2cl_verify'' (seed + 100) 5"
  "same_question seed ''s3_gray_ab'' seed ''s3_gray_ba'' (seed + 7) n"
  "same_question seed ''s3_gray_ba'' (seed + 7) ''s3_gray_ab'' seed n"
  by (auto simp: same_question_def other_call_def)

lemma same_angles:
  assumes "i < 4"
  shows "same_question seed ''s4_per_angle'' (seed + 5000 + int i * 100) ''s4_per_angle'' (seed + 6000 + int i * 100) S4_VLM_MAX_RETRIES"
    "same_question seed ''s4_per_angle'' (seed + 6000 + int i * 100) ''s4_per_angle'' (seed + 5000 + int i * 100) S4_VLM_MAX_RETRIES"
  using assms by (auto simp: same_question_def other_call_def S4_VLM_MAX_RETRIES_def)

lemma s1_run_swap: "s1_run io prompt R L seed = map flip_angle (s1_run io prompt L R seed)"
  by (simp add: s1_run_def Let_def s1_angle_of_swap [of _ "s1_ask io prompt seed (white_url R _) _ _"]
      split: prod.split)

lemma s1_run_reseat: "s1_run (reseat seed io) prompt L R s = s1_run io prompt L R s"
  by (simp add: s1_run_def s1_ask_def ask_penalty_reseat [OF same_questions(1)])

lemma embeddings_reseat [simp]: "load_embeddings (reseat seed io) v = load_embeddings io v"
  by (simp add: load_embeddings_def split: option.split)

lemma s2bv_swap: "s2bv_run (reseat seed io) prompt R L seed = map_option flip_pair (s2bv_run io prompt L R seed)"
proof (cases "load_embeddings io L = None \<or> load_embeddings io R = None")
  case True
  then show ?thesis by (auto simp: s2bv_run_def split: option.split)
next
  case False
  then obtain l r where l: "load_embeddings io L = Some l" and r: "load_embeddings io R = Some r" by auto
  show ?thesis
  proof (cases "pick_best_view (io_dot io) l = None \<or> pick_best_view (io_dot io) r = None")
    case True
    then show ?thesis by (auto simp: s2bv_run_def l r split: option.split)
  next
    case False
    then obtain na sa nb sb where "pick_best_view (io_dot io) l = Some (na, sa)"
      "pick_best_view (io_dot io) r = Some (nb, sb)" by auto
    then show ?thesis
      by (simp add: s2bv_run_def l r Let_def ask_penalty_reseat [OF same_questions(2)] ask_penalty_reseat [OF same_questions(3)]
          penalty_pair_of_swap [of "ask_penalty io ''s2bv_ba'' _ _ _"])
  qed
qed

lemma s2ac_swap: "s2ac_run (reseat seed io) prompt R L seed = flip_pair (s2ac_run io prompt L R seed)"
  by (simp add: s2ac_run_def Let_def ask_penalty_reseat [OF same_questions(4)] ask_penalty_reseat [OF same_questions(5)]
      penalty_pair_of_swap [of "ask_penalty io ''s2ac_ba'' _ _ _"])

lemma s2cl_gap_swap:
  "checklist_gap (s2cl_run (reseat seed io) prompt R L seed) = - checklist_gap (s2cl_run io prompt L R seed)"
proof -
  have d: "s2cl_decompose (reseat seed io) prompt seed = s2cl_decompose io prompt seed"
    by (simp add: s2cl_decompose_def safe_chat_reseat [OF same_questions(6)])
  have v: "s2cl_verify (reseat seed io) prompt g c (seed + 100) = s2cl_verify io prompt g c (seed + 200)"
    "s2cl_verify (reseat seed io) prompt g c (seed + 200) = s2cl_verify io prompt g c (seed + 100)" for g c
    by (simp_all add: s2cl_verify_def safe_chat_reseat [OF same_questions(7)] safe_chat_reseat [OF same_questions(8)])
  show ?thesis by (simp add: s2cl_run_def d v Let_def split: sum.split)
qed

lemma penalty_diff_flip: "fsub (penalty_a (flip_pair p)) (penalty_b (flip_pair p)) = - fsub (penalty_a p) (penalty_b p)"
  by (simp add: flip_pair_def fsub_swap [of "penalty_b p"])

definition flip_vote :: "choice option \<times> pyfloat option \<Rightarrow> choice option \<times> pyfloat option" where
  "flip_vote v = (map_option flip_choice (fst v), map_option uminus (snd v))"

lemma s2_penalty_vote_flip:
  "0 < g \<Longrightarrow> s2_penalty_vote (map_option flip_pair raw) g = flip_vote (s2_penalty_vote raw g)"
  by (auto simp: s2_penalty_vote_def flip_vote_def penalty_diff_flip Let_def split: option.split)

lemma s2_checklist_vote_flip:
  "0 < g \<Longrightarrow> checklist_gap d' = - checklist_gap d \<Longrightarrow>
     s2_checklist_vote d' g = (map_option flip_choice (fst (s2_checklist_vote d g)), - snd (s2_checklist_vote d g))"
  by (auto simp: s2_checklist_vote_def Let_def)

lemma strong_candidates_flip:
  "map fst (strong_candidates (map_option uminus d) (- g)) = map (flip_choice \<circ> fst) (strong_candidates d g)"
proof -
  have "\<not> S2_STRONG_BV_GAP \<le> 0" "\<not> S2_STRONG_CL_GAP \<le> 0" by code_simp+
  then show ?thesis by (auto simp: strong_candidates_def split: option.split)
qed

lemma strong_voter_flip:
  "map_option fst (s2_strong_voter_choice (map_option uminus d) (- g)) =
     map_option (flip_choice \<circ> fst) (s2_strong_voter_choice d g)"
proof -
  let ?c = "strong_candidates d g" and ?c' = "strong_candidates (map_option uminus d) (- g)"
  have f: "map fst ?c' = map flip_choice (map fst ?c)" using strong_candidates_flip by simp
  then have n: "?c' = [] \<longleftrightarrow> ?c = []" by (metis map_is_Nil_conv)
  have "set (map fst ?c') = flip_choice ` set (map fst ?c)" by (simp only: f set_map)
  moreover have "inj flip_choice" by (metis flip_choice_simps(1) injI)
  ultimately have c: "card (set (map fst ?c')) = card (set (map fst ?c))"
    by (metis card_image inj_on_subset subset_UNIV)
  have "?c \<noteq> [] \<Longrightarrow> fst (hd ?c') = flip_choice (fst (hd ?c))"
    using f n by (metis hd_map map_is_Nil_conv)
  then show ?thesis
    unfolding s2_strong_voter_choice_def Let_def using n c by simp
qed

lemma s2_consensus_flip:
  "s2_consensus (map (map_option flip_choice) votes) k = flip_choice (s2_consensus votes k)"
proof -
  have mf: "List.map_filter id (map (map_option flip_choice) votes) = map flip_choice (List.map_filter id votes)"
    by (induction votes) (auto simp: List.map_filter_simps split: option.split)
  have cl: "count_list (map flip_choice vs) c = count_list vs (flip_choice c)" for vs c
    by (induction vs) auto
  have eq: "s2_consensus (map (map_option flip_choice) votes) k = c \<longleftrightarrow>
      flip_choice (s2_consensus votes k) = c" if "c \<noteq> CHOICE_DRAW" for c
  proof -
    have "flip_choice c \<noteq> CHOICE_DRAW" using that by simp
    from s2_consensus_majority [OF this, of votes k] s2_consensus_majority [OF that, of "map (map_option flip_choice) votes" k]
    show ?thesis by (simp add: mf cl) (metis flip_choice_simps(1))
  qed
  show ?thesis using eq [of CHOICE_A] eq [of CHOICE_B]
    by (cases "s2_consensus (map (map_option flip_choice) votes) k"; cases "s2_consensus votes k") auto
qed

lemma gray_choice_swap: "gray_choice ba ab = map_option flip_choice (gray_choice ab ba)"
proof -
  let ?p = "penalty_pair_of ab ba"
  have d: "fsub (penalty_a (penalty_pair_of ba ab)) (penalty_b (penalty_pair_of ba ab)) =
      - fsub (penalty_a ?p) (penalty_b ?p)"
    by (simp only: penalty_pair_of_swap [of ba] penalty_diff_flip)
  have o: "opposite_signs (penalty_1 ba - penalty_2 ba) (penalty_2 ab - penalty_1 ab) =
      opposite_signs (penalty_1 ab - penalty_2 ab) (penalty_2 ba - penalty_1 ba)"
    by (auto simp: opposite_signs_def)
  have "\<not> S3_GRAY_DIFF_THRESHOLD \<le> 0" by code_simp
  then show ?thesis unfolding gray_choice_def Let_def d o by auto
qed

lemma s3_swap: "s3_choice (s3_run (reseat seed io) prompt R L seed) = map_option flip_choice (s3_choice (s3_run io prompt L R seed))"
  unfolding s3_run_def Let_def reseat_fields ask_penalty_reseat [OF same_questions(9)] ask_penalty_reseat [OF same_questions(10)]
  by (auto simp: gray_gate_swap [of "io_inflate io"] split: option.split bool.split intro!: gray_choice_swap)

lemma s4_step_down_swap:
  "fst (s4_step_down (flip_choice c) b a) = flip_choice (fst (s4_step_down c a b))"
  by (cases c; cases a; cases b) (simp_all add: s4_step_down_def)

lemma s4_swap: "s4_choice (s4_run (reseat seed io) R L (flip_choice c) seed) = flip_choice (s4_choice (s4_run io L R c seed))"
proof -
  have i: "i < 4" if "(i, x) \<in> set (zip [0..<length S4_SIDE_ANGLES] S4_SIDE_ANGLES)" for i x
    using set_zip_leftD [OF that] by (auto simp: S4_SIDE_ANGLES_def)
  have v: "s4_angle_verdicts (reseat seed io) v (seed + 5000) = s4_angle_verdicts io v (seed + 6000)"
    "s4_angle_verdicts (reseat seed io) v (seed + 6000) = s4_angle_verdicts io v (seed + 5000)" for v
    unfolding s4_angle_verdicts_def
    by (rule map_cong, rule refl, clarsimp simp: s4_ask_per_angle_def dest!: i, rule chat_default_reseat, erule same_angles)+
  show ?thesis
    by (simp only: s4_run_def v Let_def case_prod_unfold s4_detail.simps s4_step_down_swap)
qed

lemma primary_swap:
  "fst (primary_choice (reseat seed io) prompt R L seed) = flip_choice (fst (primary_choice io prompt L R seed))"
proof -
  let ?bv = "s2_penalty_vote (s2bv_run io prompt L R seed) S2_BV_MIN_GAP"
  let ?ac = "s2_penalty_vote (Some (s2ac_run io prompt L R seed)) S2_AC_MIN_GAP"
  let ?cl = "s2_checklist_vote (s2cl_run io prompt L R seed) S2_CL_MIN_GAP"
  have pos: "0 < S2_BV_MIN_GAP" "0 < S2_AC_MIN_GAP" "0 < S2_CL_MIN_GAP"
    by (simp_all add: S2_BV_MIN_GAP_def S2_AC_MIN_GAP_def S2_CL_MIN_GAP_def)
  have bv: "s2_penalty_vote (s2bv_run (reseat seed io) prompt R L seed) S2_BV_MIN_GAP = flip_vote ?bv"
    using s2_penalty_vote_flip [OF pos(1)] by (simp add: s2bv_swap)
  have ac: "s2_penalty_vote (Some (s2ac_run (reseat seed io) prompt R L seed)) S2_AC_MIN_GAP = flip_vote ?ac"
    using s2_penalty_vote_flip [OF pos(2), of "Some _"] by (simp add: s2ac_swap)
  have cl: "s2_checklist_vote (s2cl_run (reseat seed io) prompt R L seed) S2_CL_MIN_GAP =
      (map_option flip_choice (fst ?cl), - snd ?cl)"
    by (rule s2_checklist_vote_flip [OF pos(3) s2cl_gap_swap])
  have st: "map_option fst (s2_strong_voter_choice (map_option uminus (snd ?bv)) (- snd ?cl)) =
     map_option (flip_choice \<circ> fst) (s2_strong_voter_choice (snd ?bv) (snd ?cl))"
    by (rule strong_voter_flip)
  have co: "s2_consensus [map_option flip_choice (fst ?bv), map_option flip_choice (fst ?ac),
      map_option flip_choice (fst ?cl)] S2_MIN_CONSENSUS =
      flip_choice (s2_consensus [fst ?bv, fst ?ac, fst ?cl] S2_MIN_CONSENSUS)"
    using s2_consensus_flip [of "[fst ?bv, fst ?ac, fst ?cl]"] by simp
  show ?thesis
    unfolding primary_choice_def Let_def bv ac cl
    using st co s3_swap [of seed io prompt R L]
    by (auto simp: flip_vote_def split: option.splits prod.splits if_splits)
qed

definition views_of :: "generation_result \<Rightarrow> string" where
  "views_of g = (case gen_views g of None \<Rightarrow> [] | Some v \<Rightarrow> v)"

definition duel_choice :: "judge_io \<Rightarrow> string \<Rightarrow> string \<Rightarrow> string \<Rightarrow> int \<Rightarrow> choice" where
  "duel_choice io prompt lv rv seed =
     (let c = s1_aggregate (s1_run io prompt lv rv seed)
      in if c \<noteq> CHOICE_DRAW then c
         else s4_choice (s4_run io lv rv (fst (primary_choice io prompt lv rv seed)) seed))"

lemma evaluate_duel_winner:
  "fst (evaluate_duel io prompt g1 g2 seed) =
     (if views_of g1 = [] \<and> views_of g2 = [] then WIN_DRAW
      else if views_of g1 = [] then WIN_RIGHT
      else if views_of g2 = [] then WIN_LEFT
      else choice_to_winner (duel_choice io prompt (views_of g1) (views_of g2) seed))"
proof -
  obtain lv rv where v: "views_of g1 = lv" "views_of g2 = rv" by blast
  show ?thesis
    unfolding evaluate_duel_def v [unfolded views_of_def] v duel_choice_def Let_def case_prod_unfold
    by simp
qed

lemma evaluate_duel_swap_lemma:
  "fst (evaluate_duel (reseat seed io) prompt g2 g1 seed) = flip_winner (fst (evaluate_duel io prompt g1 g2 seed))"
proof -
  have p: "choice_to_winner (s4_choice (s4_run (reseat seed io) R L (fst (primary_choice (reseat seed io) prompt R L seed)) seed)) =
     flip_winner (choice_to_winner (s4_choice (s4_run io L R (fst (primary_choice io prompt L R seed)) seed)))" for R L
    by (simp add: primary_swap s4_swap)
  have d: "choice_to_winner (duel_choice (reseat seed io) prompt R L seed) =
      flip_winner (choice_to_winner (duel_choice io prompt L R seed))" for R L
    unfolding duel_choice_def Let_def s1_run_reseat s1_run_swap [of io prompt R L] s1_aggregate_flip
    using p [of R L] by simp
  show ?thesis by (simp add: evaluate_duel_winner d [of "views_of g2" "views_of g1"])
qed

text \<open>A model whose answers depend neither on the label nor on the seed is its own mirror.\<close>

definition seed_free :: "judge_io \<Rightarrow> bool" where
  "seed_free io = (\<forall>l l' m t s s'. io_create io l m t s = io_create io l' m t s')"

lemma reseat_seed_free:
  assumes "seed_free io"
  shows "reseat seed io = io"
proof -
  have "(\<lambda>l m t s. case other_call seed l s of (l', s') \<Rightarrow> io_create io l' m t s') = io_create io"
    using assms by (intro ext) (auto simp: seed_free_def split: prod.split)
  then show ?thesis by (simp add: reseat_def)
qed

lemma evaluate_duel_seed_free:
  "seed_free io \<Longrightarrow> fst (evaluate_duel io prompt g2 g1 seed) = flip_winner (fst (evaluate_duel io prompt g1 g2 seed))"
  using evaluate_duel_swap_lemma [of seed io prompt g2 g1] by (simp add: reseat_seed_free)

section \<open>An unreachable model\<close>

definition vlm_down :: "judge_io \<Rightarrow> bool" where
  "vlm_down io = (\<forall>l m t s. \<not> is_ok (io_create io l m t s))"

lemma vlm_down_out:
  assumes "vlm_down io"
  shows "\<exists>e. io_create io l m t s = Inl e"
proof -
  have "\<not> is_ok (io_create io l m t s)" using assms by (simp add: vlm_down_def)
  then show ?thesis by (cases "io_create io l m t s") auto
qed

lemma chat_default_down: "vlm_down io \<Longrightarrow> chat_default io parse l m s n d = d"
  using safe_chat_outage(1) [of "io_create io l m" parse s 0 n d, OF vlm_down_out]
  by (simp add: chat_default_def)

lemma ask_penalty_down: "vlm_down io \<Longrightarrow> ask_penalty io l m s n = neutral_penalty"
  by (simp add: ask_penalty_def chat_default_down)

lemma s1_down: "vlm_down io \<Longrightarrow> s1_aggregate (s1_run io prompt L R seed) = CHOICE_DRAW"
  by (simp add: s1_run_def S1_ANGLES_def s1_ask_def ask_penalty_down s1_angle_of_def neutral_penalty_def
      s1_aggregate_def Let_def)

lemma decompose_down:
  assumes "vlm_down io"
  shows "s2cl_run io prompt L R seed = DecomposeFailed"
proof -
  have "\<not> is_ok (s2cl_decompose io prompt seed)"
    unfolding s2cl_decompose_def by (rule safe_chat_outage(2) [OF vlm_down_out [OF assms]])
  then show ?thesis by (cases "s2cl_decompose io prompt seed") (auto simp: s2cl_run_def)
qed

lemma neutral_pair: "fsub (penalty_a (penalty_pair_of neutral_penalty neutral_penalty))
    (penalty_b (penalty_pair_of neutral_penalty neutral_penalty)) = 0"
  by (simp add: penalty_pair_of_def neutral_penalty_def)

lemma penalty_vote_neutral:
  "0 < g \<Longrightarrow> raw = None \<or> raw = Some (penalty_pair_of neutral_penalty neutral_penalty) \<Longrightarrow>
     fst (s2_penalty_vote raw g) = None \<and> (snd (s2_penalty_vote raw g) = None \<or> snd (s2_penalty_vote raw g) = Some 0)"
  by (auto simp: s2_penalty_vote_def neutral_pair)

lemma s2bv_down:
  "vlm_down io \<Longrightarrow> s2bv_run io prompt L R seed = None \<or>
     s2bv_run io prompt L R seed = Some (penalty_pair_of neutral_penalty neutral_penalty)"
  by (auto simp: s2bv_run_def ask_penalty_down Let_def split: option.splits)

lemma s2ac_down: "vlm_down io \<Longrightarrow> s2ac_run io prompt L R seed = penalty_pair_of neutral_penalty neutral_penalty"
  by (simp add: s2ac_run_def ask_penalty_down)

lemma s3_down: "vlm_down io \<Longrightarrow> s3_choice (s3_run io prompt L R seed) = None"
  by (auto simp: s3_run_def ask_penalty_down gray_choice_def neutral_pair Let_def S3_GRAY_DIFF_THRESHOLD_def
      split: option.split bool.split)

lemma s4_down: "vlm_down io \<Longrightarrow> s4_choice (s4_run io L R c seed) = c"
  by (simp add: s4_run_def s4_angle_verdicts_def s4_ask_per_angle_def chat_default_down Let_def
      s4_aggregate_side_def S4_SIDE_ANGLES_def S4_K_THRESHOLD_def s4_step_down_def)

lemma primary_down:
  assumes "vlm_down io"
  shows "fst (primary_choice io prompt L R seed) = CHOICE_DRAW"
proof -
  let ?bv = "s2_penalty_vote (s2bv_run io prompt L R seed) S2_BV_MIN_GAP"
  let ?ac = "s2_penalty_vote (Some (s2ac_run io prompt L R seed)) S2_AC_MIN_GAP"
  have bv: "fst ?bv = None" "snd ?bv = None \<or> snd ?bv = Some 0"
    using penalty_vote_neutral [OF _ s2bv_down [OF assms]] by (simp_all add: S2_BV_MIN_GAP_def)
  have ac: "fst ?ac = None"
    using penalty_vote_neutral [of S2_AC_MIN_GAP] by (simp add: s2ac_down [OF assms] S2_AC_MIN_GAP_def)
  have cl: "s2_checklist_vote (s2cl_run io prompt L R seed) S2_CL_MIN_GAP = (None, 0)"
    by (simp add: decompose_down [OF assms] s2_checklist_vote_def S2_CL_MIN_GAP_def)
  have st: "s2_strong_voter_choice (snd ?bv) 0 = None"
    using bv(2) by (auto simp: s2_strong_voter_choice_def strong_candidates_def S2_STRONG_BV_GAP_def
        S2_STRONG_CL_GAP_def)
  have co: "s2_consensus [None, None, None] S2_MIN_CONSENSUS = CHOICE_DRAW" by code_simp
  show ?thesis
    unfolding primary_choice_def Let_def cl case_prod_unfold
    by (simp add: st bv(1) ac co s3_down [OF assms])
qed

section \<open>What stage 2 needs for a verdict\<close>

lemma strong_voter_sound:
  assumes "s2_strong_voter_choice d g = Some (c, tag)"
  shows "c \<noteq> CHOICE_DRAW"
    "(\<exists>x. d = Some x \<and> S2_STRONG_BV_GAP \<le> \<bar>x\<bar> \<and> c = (if x < 0 then CHOICE_A else CHOICE_B)) \<or>
     (S2_STRONG_CL_GAP \<le> \<bar>g\<bar> \<and> c = (if 0 < g then CHOICE_A else CHOICE_B))"
proof -
  from assms have ne: "strong_candidates d g \<noteq> []" and c: "c = fst (hd (strong_candidates d g))"
    by (auto simp: s2_strong_voter_choice_def Let_def split: if_splits)
  from ne have "hd (strong_candidates d g) \<in> set (strong_candidates d g)" by simp
  then show "c \<noteq> CHOICE_DRAW"
    "(\<exists>x. d = Some x \<and> S2_STRONG_BV_GAP \<le> \<bar>x\<bar> \<and> c = (if x < 0 then CHOICE_A else CHOICE_B)) \<or>
     (S2_STRONG_CL_GAP \<le> \<bar>g\<bar> \<and> c = (if 0 < g then CHOICE_A else CHOICE_B))"
    unfolding c by (auto simp: strong_candidates_def split: option.splits if_splits)
qed

lemma primary_choice_cases:
  assumes "primary_choice io prompt L R seed = (c, tag, s2, None)" "c \<noteq> CHOICE_DRAW"
  defines "bv \<equiv> s2_penalty_vote (s2bv_run io prompt L R seed) S2_BV_MIN_GAP"
    and "ac \<equiv> s2_penalty_vote (Some (s2ac_run io prompt L R seed)) S2_AC_MIN_GAP"
    and "cl \<equiv> s2_checklist_vote (s2cl_run io prompt L R seed) S2_CL_MIN_GAP"
  shows "(\<exists>t. s2_strong_voter_choice (snd bv) (snd cl) = Some (c, t)) \<or>
     s2_consensus [fst bv, fst ac, fst cl] S2_MIN_CONSENSUS = c"
  using assms(1,2) unfolding primary_choice_def Let_def case_prod_unfold
    bv_def [symmetric] ac_def [symmetric] cl_def [symmetric]
  by (auto split: option.splits if_splits)

section \<open>Properties of the judge\<close>

text \<open>
  A model used in the examples: it gives the lower penalty to the side whose views start with
  the letter L, and answers nothing but penalties.
\<close>

definition example_io :: judge_io where
  "example_io = \<lparr>
     io_create = (\<lambda>l m t s. case m of
        PromptMatch p a b d \<Rightarrow> Inr (if take 1 a = ''L'' then ''first'' else ''second'')
      | _ \<Rightarrow> Inl RequestError),
     io_penalty = (\<lambda>t. Some (if t = ''first'' then \<lparr>penalty_1 = 1, penalty_2 = 6, issues = []\<rparr>
                             else \<lparr>penalty_1 = 6, penalty_2 = 1, issues = []\<rparr>)),
     io_checklist = (\<lambda>t. None), io_verification = (\<lambda>t. None), io_side = (\<lambda>t. None),
     io_issues = (\<lambda>t. None), io_fetch = (\<lambda>t. None), io_inflate = Inr, io_npz = (\<lambda>t. None),
     io_dot = (\<lambda>a b. 0)\<rparr>"

definition example_down :: judge_io where
  "example_down = example_io\<lparr>io_create := \<lambda>l m t s. Inl RequestError\<rparr>"

definition example_gen :: "string \<Rightarrow> generation_result" where
  "example_gen views = empty_generation\<lparr>gen_views := Some views\<rparr>"

text \<open>
  Stage 1 has no preference for a position: it asks about every angle in both orders, so
  exchanging the two sides exchanges its verdict, whatever the model answers.
\<close>

theorem s1_side_symmetric:
  "s1_aggregate (s1_run io prompt right_views left_views seed) =
     flip_choice (s1_aggregate (s1_run io prompt left_views right_views seed))"
  unfolding s1_run_swap [of io prompt right_views] by (rule s1_aggregate_flip)

text \<open>
  C3: The judge treats the two sides alike, whatever the model answers: the duel of the two generations in the other order,
  when every question is answered as the first duel's question about the same pictures was (under the label and seed it had there), has
  the mirrored winner, through all four stages, missing previews included. The two orders differ in nothing but labels and seeds.
\<close>

theorem evaluate_duel_swap:
  "fst (evaluate_duel (reseat seed io) prompt right_gen left_gen seed) =
    flip_winner (fst (evaluate_duel io prompt left_gen right_gen seed))"
  by (rule evaluate_duel_swap_lemma)

theorem evaluate_duel_swap_witness:
  "fst (evaluate_duel example_io ''cup'' (example_gen ''R'') (example_gen ''L'') 7) = WIN_RIGHT \<and>
   fst (evaluate_duel example_io ''cup'' (example_gen ''L'') (example_gen ''R'') 7) = WIN_LEFT"
proof -
  let ?angle = "\<lambda>theta phi label. \<lparr>an_theta = theta, an_phi = phi, an_weight = 1, an_label = label,
    pen_a = 1, pen_b = 6, diff_ab = - 5, diff_ba = - 5, contradictory = False, json_failed = False\<rparr>"
  have "s1_run example_io ''cup'' ''L'' ''R'' 7 =
     [?angle 30 0 ''front_left'', ?angle 330 0 ''front_right'', ?angle 0 15 ''front_below'',
      ?angle 0 (- 30) ''front_above'']"
    by code_simp
  moreover have "s1_aggregate
     [?angle 30 0 ''front_left'', ?angle 330 0 ''front_right'', ?angle 0 15 ''front_below'',
      ?angle 0 (- 30) ''front_above''] = CHOICE_A"
  proof -
    have "fmul 1 1 = 1" "fmul 1 6 = 6" "fsum [1, 1, 1, 1] = 4" "fsum [6, 6, 6, 6] = 24"
      "fdiv 4 4 = 1" "fdiv 24 4 = 6" "fsub 1 6 = - 5" "fadd 1 6 = 7" "fdiv 7 2 = 7 / 2"
      "fadd 0 1 = 1" "fadd 1 1 = 2" "fadd 2 1 = 3" "fadd 3 1 = 4" "fadd 4 0 = 4" "fsub 4 0 = 4"
      "S1_DRAW_THRESHOLD < 5" "S1_SPLIT_CONSISTENCY_THRESH < 1" by code_simp+
    then show ?thesis
      by (simp add: s1_aggregate_def s1_direction_consistency_def S1_BOTH_BAD_AVG_def Let_def)
  qed
  ultimately have "fst (evaluate_duel example_io ''cup'' (example_gen ''L'') (example_gen ''R'') 7) = WIN_LEFT"
    by (simp add: evaluate_duel_winner duel_choice_def views_of_def example_gen_def)
  moreover have "seed_free example_io" by (simp add: seed_free_def example_io_def)
  ultimately show ?thesis
    using evaluate_duel_swap [of 7 example_io "''cup''" "example_gen ''R''" "example_gen ''L''"] by (simp add: reseat_seed_free)
qed

text \<open>
  When the model is unreachable (every call fails on every attempt) a duel of two generations
  that both have previews is a draw: no stage turns missing answers into a verdict.
\<close>

theorem evaluate_duel_outage:
  assumes "vlm_down io" "views_of left_gen \<noteq> []" "views_of right_gen \<noteq> []"
  shows "fst (evaluate_duel io prompt left_gen right_gen seed) = WIN_DRAW"
  using assms by (simp add: evaluate_duel_winner duel_choice_def s1_down primary_down s4_down)

theorem evaluate_duel_outage_witness:
  "fst (evaluate_duel example_down ''cup'' (example_gen ''L'') (example_gen ''R'') 7) = WIN_DRAW"
  by (rule evaluate_duel_outage)
    (simp_all add: vlm_down_def example_down_def views_of_def example_gen_def)

text \<open>
  The side guard corrects a verdict by at most one step and only against a side with at
  least three garbage angles out of four: it never moves towards a flagged side, never jumps from
  one side to the other, and leaves the primary choice when both sides or none are flagged.
\<close>

theorem s4_guard_spec:
  "let d = s4_run io left_views right_views primary seed;
       bad = (\<lambda>vs. 3 \<le> length (filter (\<lambda>v. snd v = SIDE_GARBAGE) vs));
       a_bad = bad (s4_angles_a d); b_bad = bad (s4_angles_b d)
   in length (s4_angles_a d) = 4 \<and> length (s4_angles_b d) = 4 \<and>
      s4_choice d =
        (if a_bad = b_bad then primary
         else if a_bad then (if primary = CHOICE_A then CHOICE_DRAW else CHOICE_B)
         else (if primary = CHOICE_B then CHOICE_DRAW else CHOICE_A)) \<and>
      (s4_applied d \<longleftrightarrow> s4_choice d \<noteq> primary)"
proof -
  have l: "length (filter (\<lambda>v. v = SIDE_GARBAGE) (map snd vs)) = length (filter (\<lambda>v. snd v = SIDE_GARBAGE) vs)" for vs :: "(string \<times> side_verdict) list"
    by (induction vs) auto
  have n: "length (s4_angle_verdicts io v s) = 4" for v s
    by (simp add: s4_angle_verdicts_def S4_SIDE_ANGLES_def)
  show ?thesis
    unfolding s4_run_def Let_def case_prod_unfold s4_detail.simps s4_aggregate_side_def l S4_K_THRESHOLD_def n
    by (cases primary) (simp_all add: s4_step_down_def)
qed

text \<open>
  A verdict of stage 2 rests on evidence: it was either made by a strong voter (a best-view
  penalty gap of at least 2 or a checklist gap of at least 6, in favour of the chosen side), or at
  least two of the three sub-judges voted for the chosen side and they outnumber the others.
\<close>

theorem stage2_verdict_supported:
  assumes "primary_choice io prompt left_views right_views seed = (c, tag, s2, None)" "c \<noteq> CHOICE_DRAW"
  shows "let bv = s2_penalty_vote (s2bv_run io prompt left_views right_views seed) S2_BV_MIN_GAP;
      ac = s2_penalty_vote (Some (s2ac_run io prompt left_views right_views seed)) S2_AC_MIN_GAP;
      cl = s2_checklist_vote (s2cl_run io prompt left_views right_views seed) S2_CL_MIN_GAP;
      votes = List.map_filter id [fst bv, fst ac, fst cl]
    in (\<exists>x. snd bv = Some x \<and> 2 \<le> \<bar>x\<bar> \<and> c = (if x < 0 then CHOICE_A else CHOICE_B)) \<or>
       (6 \<le> \<bar>snd cl\<bar> \<and> c = (if 0 < snd cl then CHOICE_A else CHOICE_B)) \<or>
       (2 \<le> count_list votes c \<and> length votes < 2 * count_list votes c)"
proof -
  let ?bv = "s2_penalty_vote (s2bv_run io prompt left_views right_views seed) S2_BV_MIN_GAP"
  let ?ac = "s2_penalty_vote (Some (s2ac_run io prompt left_views right_views seed)) S2_AC_MIN_GAP"
  let ?cl = "s2_checklist_vote (s2cl_run io prompt left_views right_views seed) S2_CL_MIN_GAP"
  consider t where "s2_strong_voter_choice (snd ?bv) (snd ?cl) = Some (c, t)"
    | "s2_consensus [fst ?bv, fst ?ac, fst ?cl] S2_MIN_CONSENSUS = c"
    using primary_choice_cases [OF assms] by blast
  then show ?thesis
  proof cases
    case 1
    from strong_voter_sound(2) [OF this] show ?thesis
      unfolding S2_STRONG_BV_GAP_def S2_STRONG_CL_GAP_def Let_def by blast
  next
    case 2
    then show ?thesis
      unfolding s2_consensus_majority [OF assms(2)] S2_MIN_CONSENSUS_def Let_def by blast
  qed
qed

definition example_stage2 :: judge_io where
  "example_stage2 = example_io\<lparr>
     io_create := \<lambda>l m t s. case m of
        Artifact p a b \<Rightarrow> Inr (if take 1 a = ''L'' then ''first'' else ''second'')
      | Decompose p \<Rightarrow> Inr ''list''
      | Verify p grid c \<Rightarrow> Inr (take 1 grid)
      | _ \<Rightarrow> Inl RequestError,
     io_checklist := \<lambda>t. Some \<lparr>main_object = ''cup'', features = [(''presence'', ''handle'')]\<rparr>,
     io_verification := \<lambda>t. Some \<lparr>checks = [(''handle'', if t = ''L'' then MATCH_YES else MATCH_NO)],
                               main_object_correct = (t = ''L'')\<rparr>\<rparr>"

theorem stage2_verdict_supported_witness:
  "let bv = s2_penalty_vote (s2bv_run example_stage2 ''cup'' ''L'' ''R'' 7) S2_BV_MIN_GAP;
      ac = s2_penalty_vote (Some (s2ac_run example_stage2 ''cup'' ''L'' ''R'' 7)) S2_AC_MIN_GAP;
      cl = s2_checklist_vote (s2cl_run example_stage2 ''cup'' ''L'' ''R'' 7) S2_CL_MIN_GAP;
      votes = List.map_filter id [fst bv, fst ac, fst cl]
    in (\<exists>x. snd bv = Some x \<and> 2 \<le> \<bar>x\<bar> \<and> CHOICE_A = (if x < 0 then CHOICE_A else CHOICE_B)) \<or>
       (6 \<le> \<bar>snd cl\<bar> \<and> CHOICE_A = (if 0 < snd cl then CHOICE_A else CHOICE_B)) \<or>
       (2 \<le> count_list votes CHOICE_A \<and> length votes < 2 * count_list votes CHOICE_A)"
proof -
  let ?p = "primary_choice example_stage2 ''cup'' ''L'' ''R'' 7"
  have "fst ?p = CHOICE_A" "snd (snd (snd ?p)) = None" by code_simp+
  then have "?p = (CHOICE_A, fst (snd ?p), fst (snd (snd ?p)), None)" by (simp add: prod_eq_iff)
  from stage2_verdict_supported [OF this] show ?thesis by (simp only: choice.distinct not_False_eq_True simp_thms)
qed

section \<open>The service's judge is fair\<close>

text \<open>The judge as a match uses it, and a model of which only the messages matter.\<close>

definition duel_judge :: "judge_io \<Rightarrow> judge" where
  "duel_judge io prompt left_gen right_gen seed = Inr (fst (evaluate_duel io prompt left_gen right_gen seed))"

definition unseeded :: "judge_io \<Rightarrow> judge_io" where
  "unseeded io = io\<lparr>io_create := \<lambda>l m t s. io_create io [] m t 0\<rparr>"

lemma seed_free_unseeded: "seed_free (unseeded io)"
  by (simp add: seed_free_def unseeded_def)

lemma unseeded_id:
  assumes "seed_free io"
  shows "unseeded io = io"
proof -
  have "io_create io [] m t 0 = io_create io l m t s" for l m t s
    using assms by (simp add: seed_free_def)
  then have "(\<lambda>l m t s. io_create io [] m t 0) = io_create io" by (intro ext) simp
  then show ?thesis by (simp add: unseeded_def)
qed

interpretation multi_stage: fair_judge "duel_judge (unseeded io)" for io
proof
  fix prompt r l seed
  show "duel_judge (unseeded io) prompt r l seed = rmap flip_winner (duel_judge (unseeded io) prompt l r seed)"
    by (simp add: duel_judge_def evaluate_duel_seed_free [OF seed_free_unseeded, of io prompt r l])
qed

text \<open>
  Matches inherit the fairness of the judge: with the multi-stage judge over a model whose
  answers depend on the messages alone, playing a match with the sides exchanged negates its margin
  exactly, in floating point, and whatever duels the shutdown cuts off.
\<close>

theorem match_margin_antisymmetric:
  assumes "seed_free io"
  shows "mr_margin (run_match (duel_judge io) stop clock prompts seed right_gens left_gens right left) =
    - mr_margin (run_match (duel_judge io) stop clock prompts seed left_gens right_gens left right)"
  by (rule multi_stage.margin_swap [of io, unfolded unseeded_id [OF assms]])

theorem match_margin_antisymmetric_witness:
  "mr_margin (run_match (duel_judge example_io) (\<lambda>k. k = 1) 0 [''a.png'', ''b.png''] 7
      [(''a'', example_gen ''R'')] [(''a'', example_gen ''L'')] ''r'' ''l'') =
   - mr_margin (run_match (duel_judge example_io) (\<lambda>k. k = 1) 0 [''a.png'', ''b.png''] 7
      [(''a'', example_gen ''L'')] [(''a'', example_gen ''R'')] ''l'' ''r'')"
  by (rule match_margin_antisymmetric) (simp add: seed_free_def example_io_def)

end
