(* ===== verification/RoundRunner.thy ===== *)
theory RoundRunner
  imports Timeline MatchExecution
begin

text \<open>
  The judge's round runner, from \<^verbatim>\<open>judge_service/round_runner.py\<close>: qualification against the
  incumbent, timeline and exploratory matches, validation requests and finalization. The
  repository, the model behind the judge and the shutdown signal are the fields of \<open>world\<close>; they
  answer by a clock that every read advances, so they may change between any two reads. What the
  runner writes, announces and waits for is the log of its state.
\<close>

section \<open>State, environment and effects\<close>

datatype runner_event =
    EvMatrix match_matrix
  | EvReport match_report
  | EvRequests "string list"
  | EvResult round_result
  | EvState competition_state
  | EvFlush
  | EvRefresh
  | EvTimeline string
  | EvRequested string string pyfloat
  | EvFinalized string
  | EvWait

record runner =
  rn_clock :: nat
  rn_matrix :: match_matrix
  rn_requests :: validation_requests
  rn_validations :: validation_map
  rn_audits :: audit_map
  rn_last :: "timeline option"
  rn_log :: "runner_event list"

record runner_conf =
  rc_state :: competition_state
  rc_submissions :: "(string, miner_submission) dict"
  rc_seed :: int
  rc_prompts :: "string list"
  rc_win_margin :: pyfloat
  rc_pause :: bool

record world =
  wd_stop :: "nat \<Rightarrow> bool"
  wd_flush :: "nat \<Rightarrow> unit result"
  wd_refresh :: "nat \<Rightarrow> unit result"
  wd_validations :: "nat \<Rightarrow> validation_map result"
  wd_audits :: "nat \<Rightarrow> audit_result list result"
  wd_generations :: "nat \<Rightarrow> string \<Rightarrow> generations_map result"
  wd_leaders :: "nat \<Rightarrow> leader_state result"
  wd_judge :: judge

record match_outcome =
  mo_left :: string
  mo_right :: string
  mo_margin :: pyfloat
  mo_from_cache :: bool

abbreviation rc_hotkeys :: "runner_conf \<Rightarrow> string list" where
  "rc_hotkeys c \<equiv> dkeys (rc_submissions c)"

definition tick_clock :: "(runner, nat) action" where
  "tick_clock s = (Inr (rn_clock s), s\<lparr>rn_clock := Suc (rn_clock s)\<rparr>)"

definition emit :: "runner_event \<Rightarrow> (runner, unit) action" where
  "emit e s = (Inr (), s\<lparr>rn_log := rn_log s @ [e]\<rparr>)"

definition read_world :: "(nat \<Rightarrow> 'a result) \<Rightarrow> (runner, 'a) action" where
  "read_world f = act_bind tick_clock (\<lambda>t. act_lift (f t))"

definition should_stop :: "world \<Rightarrow> (runner, bool) action" where
  "should_stop w = act_bind tick_clock (\<lambda>t. act_return (wd_stop w t))"

definition flush :: "world \<Rightarrow> (runner, unit) action" where
  "flush w = act_bind (read_world (wd_flush w)) (\<lambda>_. emit EvFlush)"

section \<open>Loading and requests\<close>

definition audits_by_hotkey :: "audit_result list \<Rightarrow> audit_map" where
  "audits_by_hotkey audits = dset_all (map (\<lambda>a. (ar_hotkey a, a)) audits) []"

definition reload_external_state :: "world \<Rightarrow> (runner, unit) action" where
  "reload_external_state w =
     act_bind (flush w) (\<lambda>_.
     act_bind (read_world (wd_refresh w)) (\<lambda>_.
     act_bind (emit EvRefresh) (\<lambda>_.
     act_bind (read_world (wd_validations w)) (\<lambda>V.
     act_bind (act_modify (\<lambda>s. s\<lparr>rn_validations := V\<rparr>)) (\<lambda>_.
     act_bind (read_world (wd_audits w)) (\<lambda>audits.
       act_modify (\<lambda>s. s\<lparr>rn_audits := audits_by_hotkey audits\<rparr>)))))))"

definition derive_state :: "runner_conf \<Rightarrow> runner \<Rightarrow> timeline" where
  "derive_state c s = derive (rc_hotkeys c) (rn_matrix s) (rc_win_margin c) (rn_validations s) (rn_audits s)"

definition announce_if_changed :: "timeline \<Rightarrow> (runner, unit) action" where
  "announce_if_changed st s =
     (if rn_last s = Some st then (Inr (), s)
      else act_bind (emit (EvTimeline (render_timeline st)))
             (\<lambda>_. act_modify (\<lambda>s. s\<lparr>rn_last := Some st\<rparr>)) s)"

fun request_validations :: "timeline \<Rightarrow> (runner, unit) action" where
  "request_validations [] s = (Inr (), s)"
| "request_validations (e # es) s =
     (case te_margin e of
        None \<Rightarrow> request_validations es s
      | Some margin \<Rightarrow>
          if te_status e \<noteq> WON then request_validations es s
          else
            (case request_add (rn_requests s) (te_hotkey e) of
               (added, requests) \<Rightarrow>
                 if \<not> added then request_validations es (s\<lparr>rn_requests := requests\<rparr>)
                 else request_validations es
                        (s\<lparr>rn_requests := requests,
                           rn_log := rn_log s @ [EvRequests (requests_to_list requests),
                             EvRequested (te_hotkey e) (te_defender e) margin]\<rparr>)))"

section \<open>Matches\<close>

definition delivered :: "generations_map \<Rightarrow> bool" where
  "delivered gens = (\<exists>g\<in>set (dvalues gens). gen_js g \<noteq> None)"

definition outcome :: "string \<Rightarrow> string \<Rightarrow> pyfloat \<Rightarrow> match_outcome" where
  "outcome left right margin = \<lparr>mo_left = left, mo_right = right, mo_margin = margin, mo_from_cache = False\<rparr>"

definition play :: "world \<Rightarrow> runner_conf \<Rightarrow> generations_map \<Rightarrow> generations_map \<Rightarrow> string \<Rightarrow> string \<Rightarrow>
    (runner, match_report) action" where
  "play w c lg rg left right s =
     (Inr (run_match (wd_judge w) (wd_stop w) (rn_clock s) (rc_prompts c) (rc_seed c) lg rg left right),
      s\<lparr>rn_clock := rn_clock s + length (rc_prompts c)\<rparr>)"

definition run_match_between :: "world \<Rightarrow> runner_conf \<Rightarrow> string \<Rightarrow> string \<Rightarrow> (runner, match_outcome) action" where
  "run_match_between w c left right =
     act_bind (read_world (\<lambda>t. wd_generations w t left)) (\<lambda>lg.
     act_bind (read_world (\<lambda>t. wd_generations w t right)) (\<lambda>rg.
       if \<not> delivered lg \<and> \<not> delivered rg then act_return (outcome left right 0)
       else if \<not> delivered lg then act_return (outcome left right 1)
       else if \<not> delivered rg then act_return (outcome left right (- 1))
       else
         act_bind (play w c lg rg left right) (\<lambda>report.
         act_bind (should_stop w) (\<lambda>stop.
           if stop then act_return (outcome left right 0)
           else act_bind (emit (EvReport report)) (\<lambda>_.
                  act_return (outcome left right (mr_margin report)))))))"

definition ensure_match :: "world \<Rightarrow> runner_conf \<Rightarrow> string \<Rightarrow> string \<Rightarrow> (runner, match_outcome) action" where
  "ensure_match w c left right s =
     (case matrix_get (rn_matrix s) left right of
        Some margin \<Rightarrow>
          (Inr \<lparr>mo_left = left, mo_right = right, mo_margin = margin, mo_from_cache = True\<rparr>, s)
      | None \<Rightarrow>
          act_bind (run_match_between w c left right) (\<lambda>match.
          act_bind (should_stop w) (\<lambda>stop.
            if stop then act_return match
            else
              act_bind (act_modify (\<lambda>s. s\<lparr>rn_matrix := matrix_add (rn_matrix s) left right (mo_margin match)\<rparr>)) (\<lambda>_.
              act_bind (act_get rn_matrix) (\<lambda>m.
              act_bind (emit (EvMatrix m)) (\<lambda>_. act_return match))))) s)"

definition is_rejected_now :: "runner \<Rightarrow> string \<Rightarrow> bool" where
  "is_rejected_now s h = (candidate_rejection_reason (dget (rn_validations s) h) (dget (rn_audits s) h) \<noteq> None)"

fun run_qualification :: "world \<Rightarrow> runner_conf \<Rightarrow> string list \<Rightarrow> (runner, unit) action" where
  "run_qualification w c [] = act_return ()"
| "run_qualification w c (h # hs) =
     act_bind (should_stop w) (\<lambda>stop.
       if stop then act_return ()
       else act_bind (act_get (\<lambda>s. is_rejected_now s h)) (\<lambda>rejected.
         if rejected then run_qualification w c hs
         else act_bind (ensure_match w c ''leader'' h) (\<lambda>match.
           if mo_from_cache match then run_qualification w c hs
           else act_bind (reload_external_state w) (\<lambda>_. run_qualification w c hs))))"

section \<open>Finalization\<close>

definition resolve_winner :: "world \<Rightarrow> runner_conf \<Rightarrow> string \<Rightarrow> (runner, round_result) action" where
  "resolve_winner w c won =
     (if won \<noteq> ''leader'' then
        (case dget (rc_submissions c) won of
           None \<Rightarrow> act_raise KeyError
         | Some sub \<Rightarrow> act_return \<lparr>winner_hotkey = won, rr_repo = ms_repo sub, rr_commit = ms_commit sub\<rparr>)
      else
        act_bind (read_world (wd_leaders w)) (\<lambda>leaders.
          case get_latest leaders of
            None \<Rightarrow> act_raise (RuntimeError ''Leader state not found'')
          | Some l \<Rightarrow> act_return \<lparr>winner_hotkey = ''leader'', rr_repo = le_repo l, rr_commit = le_commit l\<rparr>))"

definition next_state :: "runner_conf \<Rightarrow> competition_state" where
  "next_state c = (rc_state c)\<lparr>stage := if rc_pause c then PAUSED else FINALIZING\<rparr>"

definition transition_to_next_stage :: "world \<Rightarrow> runner_conf \<Rightarrow> (runner, unit) action" where
  "transition_to_next_stage w c = act_bind (emit (EvState (next_state c))) (\<lambda>_. flush w)"

definition finalize :: "world \<Rightarrow> runner_conf \<Rightarrow> string \<Rightarrow> (runner, unit) action" where
  "finalize w c won =
     act_bind (resolve_winner w c won) (\<lambda>result.
     act_bind (emit (EvResult result)) (\<lambda>_.
     act_bind (transition_to_next_stage w c) (\<lambda>_.
       emit (EvFinalized (winner_hotkey result)))))"

section \<open>The main loop\<close>

datatype run_end = NoBaseline | Finalized | Stopped | OutOfFuel

datatype tick_end = TickFinalized | TickAgain bool

text \<open>
  One tick of the loop after the shutdown check and the reload: the next unit of work for a
  derived timeline, and the whole tick.
\<close>

definition tick_work :: "world \<Rightarrow> runner_conf \<Rightarrow> timeline \<Rightarrow> (runner, tick_end) action" where
  "tick_work w c st =
     (if is_finalized st then act_bind (finalize w c (winner st)) (\<lambda>_. act_return TickFinalized)
      else
        (case next_match st of
           Some (defender, challenger) \<Rightarrow>
             act_bind (ensure_match w c defender challenger) (\<lambda>match.
               act_return (TickAgain (\<not> mo_from_cache match)))
         | None \<Rightarrow>
             act_bind (act_get (\<lambda>s. find_exploratory_duel st (rn_matrix s))) (\<lambda>pair.
               case pair of
                 Some (left, right) \<Rightarrow>
                   act_bind (ensure_match w c left right) (\<lambda>match.
                     act_return (TickAgain (\<not> mo_from_cache match)))
               | None \<Rightarrow>
                   act_bind (flush w) (\<lambda>_.
                   act_bind (emit EvWait) (\<lambda>_. act_return (TickAgain True))))))"

definition tick :: "world \<Rightarrow> runner_conf \<Rightarrow> (runner, tick_end) action" where
  "tick w c =
     act_bind (act_get (derive_state c)) (\<lambda>st.
     act_bind (announce_if_changed st) (\<lambda>_.
     act_bind (request_validations st) (\<lambda>_. tick_work w c st)))"

fun run_loop :: "world \<Rightarrow> runner_conf \<Rightarrow> nat \<Rightarrow> bool \<Rightarrow> (runner, run_end) action" where
  "run_loop w c 0 reload = act_return OutOfFuel"
| "run_loop w c (Suc n) reload =
     act_bind (should_stop w) (\<lambda>stop.
       if stop then act_bind (flush w) (\<lambda>_. act_return Stopped)
       else
         act_bind (if reload then reload_external_state w else act_return ()) (\<lambda>_.
         act_bind (tick w c) (\<lambda>e.
           case e of
             TickFinalized \<Rightarrow> act_return Finalized
           | TickAgain reload' \<Rightarrow> run_loop w c n reload')))"

definition baseline_complete :: "string list \<Rightarrow> generations_map \<Rightarrow> bool" where
  "baseline_complete prompts baseline =
     (prompts \<noteq> [] \<and> set (dkeys baseline) = set (map path_stem prompts) \<and>
      (\<forall>g\<in>set (dvalues baseline).
         (gen_failure_reason g \<noteq> None \<and> gen_failure_reason g \<noteq> Some []) \<or>
         (gen_js g \<noteq> None \<and> gen_views g \<noteq> None)))"

definition run :: "world \<Rightarrow> runner_conf \<Rightarrow> nat \<Rightarrow> (runner, run_end) action" where
  "run w c fuel =
     (if rc_hotkeys c = [] then act_bind (finalize w c ''leader'') (\<lambda>_. act_return Finalized)
      else
        act_bind (read_world (\<lambda>t. wd_generations w t ''leader'')) (\<lambda>baseline.
          if \<not> baseline_complete (rc_prompts c) baseline then act_return NoBaseline
          else
            act_bind (reload_external_state w) (\<lambda>_.
            act_bind (run_qualification w c (rc_hotkeys c)) (\<lambda>_.
              run_loop w c fuel False))))"

section \<open>What every action preserves\<close>

lemmas runner_actions = read_world_def should_stop_def flush_def reload_external_state_def
  play_def run_match_between_def ensure_match_def resolve_winner_def transition_to_next_stage_def
  finalize_def

lemma keeps_tick_clock [keeps_intros]:
  "(\<And>s t. P s \<Longrightarrow> P (s\<lparr>rn_clock := t\<rparr>)) \<Longrightarrow> keeps P tick_clock"
  by (simp add: keeps_def tick_clock_def)

lemma keeps_emit [keeps_intros]:
  "(\<And>s. P s \<Longrightarrow> P (s\<lparr>rn_log := rn_log s @ [e]\<rparr>)) \<Longrightarrow> keeps P (emit e)"
  by (simp add: keeps_def emit_def)

text \<open>
  Most of the runner reads the world, advances the clock and writes its log: what neither of
  them can break is preserved by all of it.
\<close>

definition quiet :: "(runner \<Rightarrow> bool) \<Rightarrow> bool" where
  "quiet P = (\<forall>s t. P s \<longrightarrow> P (s\<lparr>rn_clock := t\<rparr>))"

lemma quiet_clock: "quiet P \<Longrightarrow> P s \<Longrightarrow> P (s\<lparr>rn_clock := t\<rparr>)"
  by (simp add: quiet_def)

lemma keeps_read_world [keeps_intros]: "quiet P \<Longrightarrow> keeps P (read_world f)"
  unfolding read_world_def by (intro keeps_intros) (simp add: quiet_clock)

lemma keeps_should_stop [keeps_intros]: "quiet P \<Longrightarrow> keeps P (should_stop w)"
  unfolding should_stop_def by (intro keeps_intros) (simp add: quiet_clock)

lemma keeps_play [keeps_intros]: "quiet P \<Longrightarrow> keeps P (play w c lg rg l r)"
  by (simp add: keeps_def play_def quiet_clock)

text \<open>
  The matrix only grows: whatever the environment does, errors and shutdowns included, a margin
  that was recorded is never changed or lost.
\<close>

definition extends :: "match_matrix \<Rightarrow> runner \<Rightarrow> bool" where
  "extends m s = (\<forall>l r x. matrix_get m l r = Some x \<longrightarrow> matrix_get (rn_matrix s) l r = Some x)"

lemma extends_simps [simp]:
  "extends m (s\<lparr>rn_clock := t\<rparr>) = extends m s"
  "extends m (s\<lparr>rn_log := lg\<rparr>) = extends m s"
  "extends m (s\<lparr>rn_validations := V\<rparr>) = extends m s"
  "extends m (s\<lparr>rn_audits := A\<rparr>) = extends m s"
  "extends m (s\<lparr>rn_last := la\<rparr>) = extends m s"
  "extends m (s\<lparr>rn_requests := rq\<rparr>) = extends m s"
  "extends (rn_matrix s) s"
  by (simp_all add: extends_def)

lemma quiet_extends [simp]: "quiet (extends m)"
  by (simp add: quiet_def)

text \<open>A match touches the clock, the log and, when it is recorded, one new entry of the matrix.\<close>

definition same_but_matrix :: "runner \<Rightarrow> runner \<Rightarrow> bool" where
  "same_but_matrix s s' = (rn_requests s' = rn_requests s \<and> rn_validations s' = rn_validations s \<and>
     rn_audits s' = rn_audits s \<and> rn_last s' = rn_last s)"

lemma run_match_between_state:
  "run_match_between w c l r s = (x, s') \<Longrightarrow> rn_matrix s' = rn_matrix s \<and> same_but_matrix s s'"
proof -
  assume r: "run_match_between w c l r s = (x, s')"
  let ?P = "\<lambda>t. rn_matrix t = rn_matrix s \<and> same_but_matrix s t"
  have q: "quiet ?P" by (simp add: quiet_def same_but_matrix_def)
  have "keeps ?P (run_match_between w c l r)"
    unfolding run_match_between_def by (intro keeps_intros q) (simp_all add: same_but_matrix_def)
  from keepsD [OF this _ r] show ?thesis by (simp add: same_but_matrix_def)
qed

lemma ensure_match_state:
  assumes "ensure_match w c l r s = (x, s')"
  shows "same_but_matrix s s'"
    "rn_matrix s' = rn_matrix s \<or>
     (\<exists>y. matrix_get (rn_matrix s) l r = None \<and> rn_matrix s' = matrix_add (rn_matrix s) l r y)"
proof -
  have "same_but_matrix s s' \<and> (rn_matrix s' = rn_matrix s \<or>
     (\<exists>y. matrix_get (rn_matrix s) l r = None \<and> rn_matrix s' = matrix_add (rn_matrix s) l r y))"
  proof (cases "matrix_get (rn_matrix s) l r")
    case (Some y)
    with assms show ?thesis by (auto simp: ensure_match_def same_but_matrix_def)
  next
    case None
    obtain x1 s1 where m: "run_match_between w c l r s = (x1, s1)" by force
    note st = run_match_between_state [OF m]
    show ?thesis
    proof (cases x1)
      case (Inl e)
      with assms m None st show ?thesis by (simp add: ensure_match_def act_bind_def)
    next
      case (Inr mo)
      with assms m None st show ?thesis
        by (auto simp: ensure_match_def act_bind_def act_simps should_stop_def tick_clock_def emit_def
            same_but_matrix_def split: if_splits)
    qed
  qed
  then show "same_but_matrix s s'" "rn_matrix s' = rn_matrix s \<or>
     (\<exists>y. matrix_get (rn_matrix s) l r = None \<and> rn_matrix s' = matrix_add (rn_matrix s) l r y)"
    by blast+
qed

lemma keeps_extends_ensure [keeps_intros]: "keeps (extends m) (ensure_match w c l r)"
  unfolding keeps_def
proof (intro allI impI)
  fix s
  assume ex: "extends m s"
  obtain x s' where e: "ensure_match w c l r s = (x, s')" by force
  have nw: "matrix_get m l r = None" if "matrix_get (rn_matrix s) l r = None"
    using ex that by (cases "matrix_get m l r") (auto simp: extends_def)
  from ensure_match_state(2) [OF e] show "extends m (snd (ensure_match w c l r s))"
    using ex nw by (auto simp: e extends_def)
qed

lemma keeps_extends_flush [keeps_intros]: "keeps (extends m) (flush w)"
  unfolding flush_def by (intro keeps_intros) simp_all

lemma keeps_extends_reload [keeps_intros]: "keeps (extends m) (reload_external_state w)"
  unfolding reload_external_state_def by (intro keeps_intros) simp_all

lemma keeps_extends_requests [keeps_intros]: "keeps (extends m) (request_validations es)"
  unfolding keeps_def
proof (intro allI impI)
  fix s
  show "extends m s \<Longrightarrow> extends m (snd (request_validations es s))"
    by (induction es s rule: request_validations.induct)
      (auto simp: split: option.split prod.split)
qed

lemma keeps_extends_announce [keeps_intros]: "keeps (extends m) (announce_if_changed st)"
  by (simp add: keeps_def announce_if_changed_def act_bind_def emit_def act_simps)

lemma keeps_extends_finalize [keeps_intros]: "keeps (extends m) (finalize w c won)"
  unfolding finalize_def resolve_winner_def transition_to_next_stage_def
  by (intro keeps_intros) (simp_all split: option.split)

lemma keeps_tick:
  assumes "quiet P" "\<And>st. keeps P (announce_if_changed st)" "\<And>st. keeps P (request_validations st)"
    "\<And>won. keeps P (finalize w c won)" "\<And>l r. keeps P (ensure_match w c l r)"
    "keeps P (flush w)" "keeps P (emit EvWait)"
  shows "keeps P (tick w c)"
  unfolding tick_def tick_work_def
  by (intro keeps_intros assms) (auto intro!: keeps_intros assms split: option.split prod.split)

lemma keeps_run_loop:
  assumes "quiet P" "keeps P (tick w c)" "keeps P (reload_external_state w)" "keeps P (flush w)"
  shows "keeps P (run_loop w c n reload)"
proof (induction n arbitrary: reload)
  case (Suc n)
  show ?case
    unfolding run_loop.simps
    by (intro keeps_intros assms) (auto intro!: keeps_intros assms Suc split: tick_end.split)
qed (simp add: keeps_intros)

lemma keeps_run_qualification:
  assumes "quiet P" "\<And>l r. keeps P (ensure_match w c l r)" "keeps P (reload_external_state w)"
  shows "keeps P (run_qualification w c hs)"
proof (induction hs)
  case (Cons h hs)
  show ?case
    unfolding run_qualification.simps by (intro keeps_intros assms Cons)
qed (simp add: keeps_intros)

lemma keeps_extends_tick: "keeps (extends m) (tick w c)"
  by (rule keeps_tick) (auto intro!: keeps_intros)

lemma keeps_extends_run: "keeps (extends m) (run w c fuel)"
  unfolding run_def
  by (intro keeps_intros keeps_run_loop keeps_run_qualification keeps_extends_tick) simp_all

section \<open>Ticks on a healthy repository\<close>

definition healthy :: "world \<Rightarrow> bool" where
  "healthy w = ((\<forall>t. \<not> wd_stop w t \<and> wd_flush w t = Inr () \<and> wd_refresh w t = Inr ()) \<and>
     (\<forall>t h. is_ok (wd_generations w t h)) \<and>
     (\<forall>t. \<exists>ls. wd_leaders w t = Inr ls \<and> get_latest ls \<noteq> None))"

text \<open>Every read of the verdicts gives the same complete verdicts.\<close>

definition settled :: "world \<Rightarrow> runner_conf \<Rightarrow> validation_map \<Rightarrow> audit_map \<Rightarrow> bool" where
  "settled w c V A = ((\<forall>t. wd_validations w t = Inr V) \<and>
     (\<forall>t. \<exists>as. wd_audits w t = Inr as \<and> audits_by_hotkey as = A) \<and>
     (\<forall>h\<in>set (rc_hotkeys c). is_rejected V A h \<or> passed_both V A h))"

lemma flush_ok: "healthy w \<Longrightarrow> \<exists>s'. flush w s = (Inr (), s') \<and> rn_matrix s' = rn_matrix s \<and> same_but_matrix s s'"
  by (simp add: flush_def read_world_def act_bind_def act_simps tick_clock_def emit_def healthy_def
      same_but_matrix_def)

lemma reload_ok:
  assumes "healthy w" "settled w c V A"
  shows "\<exists>s'. reload_external_state w s = (Inr (), s') \<and> rn_matrix s' = rn_matrix s \<and>
    rn_validations s' = V \<and> rn_audits s' = A"
proof -
  obtain s1 where f: "flush w s = (Inr (), s1)" "rn_matrix s1 = rn_matrix s" using flush_ok [OF assms(1)] by blast
  let ?t = "Suc (Suc (rn_clock s1))"
  obtain as where a: "wd_audits w ?t = Inr as" "audits_by_hotkey as = A"
    using assms(2) by (force simp: settled_def)
  show ?thesis
    using assms a f
    by (simp add: reload_external_state_def act_bind_def act_simps read_world_def tick_clock_def emit_def
        healthy_def settled_def)
qed

lemma healthy_generations: "healthy w \<Longrightarrow> \<exists>g. wd_generations w t h = Inr g"
  by (simp add: healthy_def is_ok_iff)

lemma run_match_between_ok:
  assumes "healthy w"
  shows "\<exists>mo s'. run_match_between w c l r s = (Inr mo, s')"
proof -
  obtain lg where lg: "wd_generations w (rn_clock s) l = Inr lg"
    using healthy_generations [OF assms] by blast
  obtain rg where rg: "wd_generations w (Suc (rn_clock s)) r = Inr rg"
    using healthy_generations [OF assms] by blast
  show ?thesis
    using assms by (simp add: run_match_between_def act_bind_def act_simps read_world_def tick_clock_def
        lg rg play_def should_stop_def emit_def healthy_def)
qed

lemma ensure_match_fresh:
  assumes "healthy w" "\<not> matrix_has (rn_matrix s) l r"
  shows "\<exists>mo s' y. ensure_match w c l r s = (Inr mo, s') \<and> \<not> mo_from_cache mo \<and>
    rn_matrix s' = matrix_add (rn_matrix s) l r y \<and> same_but_matrix s s'"
proof -
  from assms(2) have None: "matrix_get (rn_matrix s) l r = None" by (simp add: matrix_has_get)
  obtain mo s1 where m: "run_match_between w c l r s = (Inr mo, s1)"
    using run_match_between_ok [OF assms(1)] by blast
  have nc: "\<not> mo_from_cache mo"
  proof -
    show ?thesis using m
      by (auto simp: run_match_between_def outcome_def act_bind_def act_simps play_def should_stop_def
          split: prod.splits sum.splits if_splits)
  qed
  note st = run_match_between_state [OF m]
  show ?thesis
    using assms(1) st nc
    by (auto simp: ensure_match_def None act_bind_def m act_simps should_stop_def tick_clock_def emit_def
        healthy_def same_but_matrix_def)
qed

lemma announce_ok:
  "\<exists>s'. announce_if_changed st s = (Inr (), s') \<and> rn_matrix s' = rn_matrix s \<and>
     rn_validations s' = rn_validations s \<and> rn_audits s' = rn_audits s \<and> rn_requests s' = rn_requests s \<and>
     (\<exists>evs. rn_log s' = rn_log s @ evs \<and> (\<forall>e\<in>set evs. \<exists>b. e = EvTimeline b))"
  by (auto simp: announce_if_changed_def act_bind_def emit_def act_simps)

lemma request_validations_ok:
  "\<exists>s'. request_validations es s = (Inr (), s') \<and> rn_matrix s' = rn_matrix s \<and>
     rn_validations s' = rn_validations s \<and> rn_audits s' = rn_audits s \<and> rn_clock s' = rn_clock s"
  by (induction es s rule: request_validations.induct) (auto split: option.split prod.split)

section \<open>Progress and safety of the loop\<close>

lemma derive_state_cong:
  "rn_matrix s' = rn_matrix s \<Longrightarrow> rn_validations s' = rn_validations s \<Longrightarrow> rn_audits s' = rn_audits s \<Longrightarrow>
     derive_state c s' = derive_state c s"
  by (simp add: derive_state_def)

text \<open>The state of a tick after announcing and requesting.\<close>

lemma tick_prefix:
  obtains s1 where "tick w c s = tick_work w c (derive_state c s) s1"
    "rn_matrix s1 = rn_matrix s" "rn_validations s1 = rn_validations s" "rn_audits s1 = rn_audits s"
proof -
  obtain s0 where a: "announce_if_changed (derive_state c s) s = (Inr (), s0)" "rn_matrix s0 = rn_matrix s"
    "rn_validations s0 = rn_validations s" "rn_audits s0 = rn_audits s"
    using announce_ok by blast
  obtain s1 where r: "request_validations (derive_state c s) s0 = (Inr (), s1)" "rn_matrix s1 = rn_matrix s0"
    "rn_validations s1 = rn_validations s0" "rn_audits s1 = rn_audits s0"
    using request_validations_ok by blast
  show ?thesis
    by (rule that [of s1]) (simp_all add: tick_def act_simps a r)
qed

lemma finalize_log:
  assumes "finalize w c won s = (Inr u, s')"
  shows "\<exists>res pre. rn_log s' = pre @ [EvResult res, EvState (next_state c), EvFlush, EvFinalized (winner_hotkey res)] \<and>
    winner_hotkey res = won \<and> rn_matrix s' = rn_matrix s \<and> same_but_matrix s s'"
proof -
  obtain r1 s1 where r: "resolve_winner w c won s = (r1, s1)" by force
  have k: "keeps (\<lambda>t. rn_matrix t = rn_matrix s \<and> same_but_matrix s t) (resolve_winner w c won)"
  proof -
    have q: "quiet (\<lambda>t. rn_matrix t = rn_matrix s \<and> same_but_matrix s t)"
      by (simp add: quiet_def same_but_matrix_def)
    show ?thesis unfolding resolve_winner_def by (intro keeps_intros q)
  qed
  have st: "rn_matrix s1 = rn_matrix s \<and> same_but_matrix s s1"
    using keepsD [OF k _ r] by (simp add: same_but_matrix_def)
  show ?thesis
  proof (cases r1)
    case (Inl e)
    with assms r show ?thesis by (simp add: finalize_def act_bind_def)
  next
    case (Inr res)
    have w: "winner_hotkey res = won"
      using r Inr by (auto simp: resolve_winner_def act_simps act_bind_Inr split: if_splits option.splits)
    have "rn_log s' = rn_log s1 @ [EvResult res, EvState (next_state c), EvFlush, EvFinalized (winner_hotkey res)] \<and>
        rn_matrix s' = rn_matrix s1 \<and> same_but_matrix s1 s'"
      using assms r Inr
      by (auto simp: finalize_def transition_to_next_stage_def flush_def read_world_def tick_clock_def emit_def
          act_bind_def act_simps same_but_matrix_def split: sum.splits)
    with w st show ?thesis by (auto simp: same_but_matrix_def)
  qed
qed

lemma tick_finalized:
  assumes "tick w c s = (Inr TickFinalized, s')"
  shows "is_finalized (derive_state c s') \<and>
    (\<exists>res pre. rn_log s' = pre @ [EvResult res, EvState (next_state c), EvFlush, EvFinalized (winner_hotkey res)] \<and>
       winner_hotkey res = winner (derive_state c s'))"
proof -
  obtain s1 where t: "tick w c s = tick_work w c (derive_state c s) s1"
    and s1: "rn_matrix s1 = rn_matrix s" "rn_validations s1 = rn_validations s" "rn_audits s1 = rn_audits s"
    by (rule tick_prefix)
  show ?thesis
  proof (cases "is_finalized (derive_state c s)")
    case True
    with assms [unfolded t] obtain u where f: "finalize w c (winner (derive_state c s)) s1 = (Inr u, s')"
      by (auto simp: tick_work_def act_bind_Inr act_simps)
    from finalize_log [OF f] s1 have "derive_state c s' = derive_state c s"
      by (auto simp: derive_state_def same_but_matrix_def)
    with True finalize_log [OF f] show ?thesis by auto
  next
    case False
    with assms [unfolded t] show ?thesis
      by (auto simp: tick_work_def act_bind_Inr act_simps split: option.splits prod.splits)
  qed
qed

lemma run_loop_finalized:
  "run_loop w c n reload s = (Inr Finalized, s') \<Longrightarrow> is_finalized (derive_state c s') \<and>
    (\<exists>res pre. rn_log s' = pre @ [EvResult res, EvState (next_state c), EvFlush, EvFinalized (winner_hotkey res)] \<and>
       winner_hotkey res = winner (derive_state c s'))"
proof (induction n arbitrary: reload s)
  case (Suc n)
  then obtain stop s1 where 1: "should_stop w s = (Inr stop, s1)"
    "(if stop then act_bind (flush w) (\<lambda>_. act_return Stopped)
       else
         act_bind (if reload then reload_external_state w else act_return ()) (\<lambda>_.
         act_bind (tick w c) (\<lambda>e.
           case e of
             TickFinalized \<Rightarrow> act_return Finalized
           | TickAgain reload' \<Rightarrow> run_loop w c n reload'))) s1 = (Inr Finalized, s')"
    by (auto simp: act_bind_Inr)
  from 1(2) have "\<not> stop" by (auto simp: act_bind_Inr act_simps)
  with 1(2) obtain s2 e s3 where 2: "tick w c s2 = (Inr e, s3)"
    "(case e of TickFinalized \<Rightarrow> act_return Finalized
      | TickAgain reload' \<Rightarrow> run_loop w c n reload') s3 = (Inr Finalized, s')"
    unfolding act_bind_Inr if_not_P [OF \<open>\<not> stop\<close>] by blast
  show ?case
  proof (cases e)
    case TickFinalized
    with 2 show ?thesis using tick_finalized by (simp add: act_simps)
  next
    case (TickAgain reload')
    with 2(2) show ?thesis using Suc.IH by simp
  qed
qed (simp add: act_simps)

lemma winner_mem: "winner (derive hs m w V A) = ''leader'' \<or> winner (derive hs m w V A) \<in> set hs"
proof (cases "leaders (derive hs m w V A) = []")
  case False
  from winner_prefix_mem [OF False] show ?thesis using derive_hotkey_mem by fastforce
qed (simp add: winner_def)

lemma all_decided_finalized:
  assumes "\<forall>h\<in>set hs. is_rejected V A h \<or> passed_both V A h" "next_match (derive hs m w V A) = None"
  shows "is_finalized (derive hs m w V A)"
  unfolding is_finalized_iff
proof (intro ballI conjI impI)
  fix e
  assume e: "e \<in> set (derive hs m w V A)"
  show "te_status e \<noteq> PENDING"
    using assms(2) e by (auto simp: next_match_def find_first_None)
  assume won: "te_status e = WON"
  obtain us vs where sp: "derive hs m w V A = us @ e # vs" using derive_mem_split [OF e] by blast
  have "passed_both V A (te_hotkey x)" if x: "x \<in> set (leaders (us @ [e]))" for x
  proof -
    have xm: "x \<in> set (derive hs m w V A)" "te_status x = WON"
      using x sp won by (auto simp: leaders_def)
    obtain us' vs' where "derive hs m w V A = us' @ x # vs'" using derive_mem_split [OF xm(1)] by blast
    from derive_split(2) [OF this] xm(2) have "\<not> is_rejected V A (te_hotkey x)" by (simp add: entry_ok_def)
    with assms(1) derive_hotkey_mem [OF xm(1)] show ?thesis by blast
  qed
  with derive_split(3) [OF sp won] show "te_verified e" by blast
qed

lemma finalize_ok:
  assumes "healthy w" "won = ''leader'' \<or> won \<in> set (rc_hotkeys c)"
  shows "\<exists>s'. finalize w c won s = (Inr (), s')"
proof -
  have "\<exists>res s1. resolve_winner w c won s = (Inr res, s1)"
  proof (cases "won = ''leader''")
    case True
    obtain ls where "wd_leaders w (rn_clock s) = Inr ls" "get_latest ls \<noteq> None"
      using assms(1) by (force simp: healthy_def)
    with True show ?thesis
      by (auto simp: resolve_winner_def read_world_def act_bind_def act_simps tick_clock_def)
  next
    case False
    with assms(2) obtain sub where "dget (rc_submissions c) won = Some sub"
      by (metis map_of_eq_None_iff not_None_eq set_map)
    with False show ?thesis by (simp add: resolve_winner_def act_simps)
  qed
  then obtain res s1 where r: "resolve_winner w c won s = (Inr res, s1)" by blast
  obtain s2 where "flush w (s1\<lparr>rn_log := rn_log s1 @ [EvResult res] @ [EvState (next_state c)]\<rparr>) = (Inr (), s2)"
    using flush_ok [OF assms(1)] by blast
  with r show ?thesis
    by (simp add: finalize_def transition_to_next_stage_def act_simps act_bind_def emit_def)
qed

lemma tick_progress:
  assumes "healthy w" "\<forall>h\<in>set (rc_hotkeys c). is_rejected V A h \<or> passed_both V A h"
    "rn_validations s = V" "rn_audits s = A"
  shows "\<exists>e s'. tick w c s = (Inr e, s') \<and>
    (e = TickFinalized \<or>
     (\<exists>r. e = TickAgain r \<and> unplayed (rn_matrix s') (rc_hotkeys c) < unplayed (rn_matrix s) (rc_hotkeys c) \<and>
        rn_validations s' = V \<and> rn_audits s' = A))"
proof -
  let ?st = "derive_state c s"
  have st: "?st = derive (rc_hotkeys c) (rn_matrix s) (rc_win_margin c) V A"
    by (simp add: derive_state_def assms)
  obtain s1 where t: "tick w c s = tick_work w c (derive_state c s) s1"
    and s1: "rn_matrix s1 = rn_matrix s" "rn_validations s1 = rn_validations s" "rn_audits s1 = rn_audits s"
    by (rule tick_prefix)
  show ?thesis
  proof (cases "is_finalized ?st")
    case True
    have "winner ?st = ''leader'' \<or> winner ?st \<in> set (rc_hotkeys c)" unfolding st by (rule winner_mem)
    from finalize_ok [OF assms(1) this] obtain s' where "finalize w c (winner ?st) s1 = (Inr (), s')" by blast
    with True show ?thesis unfolding t by (simp add: tick_work_def act_simps)
  next
    case False
    with all_decided_finalized [OF assms(2)] obtain d h where n: "next_match ?st = Some (d, h)"
      unfolding st by fastforce
    note pair = next_match_pair [OF n [unfolded st]]
    obtain mo s' y where e: "ensure_match w c d h s1 = (Inr mo, s')" "\<not> mo_from_cache mo"
      "rn_matrix s' = matrix_add (rn_matrix s1) d h y" "same_but_matrix s1 s'"
      using ensure_match_fresh [OF assms(1)] pair(2) s1(1) by metis
    have "unplayed (rn_matrix s') (rc_hotkeys c) < unplayed (rn_matrix s) (rc_hotkeys c)"
      unfolding e(3) s1(1) by (rule unplayed_add_less [OF pair(1,2)])
    moreover have "tick w c s = (Inr (TickAgain True), s')"
      unfolding t tick_work_def if_not_P [OF False] n option.case prod.case
      by (simp add: act_bind_def [of "ensure_match w c d h"] e(1,2) act_return_def)
    moreover have "rn_validations s' = V" "rn_audits s' = A"
      using e(4) s1 assms(3,4) by (simp_all add: same_but_matrix_def)
    ultimately show ?thesis by blast
  qed
qed

lemma run_loop_completes:
  assumes "healthy w" "settled w c V A"
  shows "rn_validations s = V \<Longrightarrow> rn_audits s = A \<Longrightarrow> unplayed (rn_matrix s) (rc_hotkeys c) < n \<Longrightarrow>
    \<exists>s'. run_loop w c n reload s = (Inr Finalized, s')"
proof (induction n arbitrary: reload s)
  case (Suc n)
  let ?s = "s\<lparr>rn_clock := Suc (rn_clock s)\<rparr>"
  have stop: "should_stop w s = (Inr False, ?s)"
    using assms(1) by (simp add: should_stop_def act_bind_def tick_clock_def act_simps healthy_def)
  obtain s2 where s2: "(if reload then reload_external_state w else act_return ()) ?s = (Inr (), s2)"
    "rn_matrix s2 = rn_matrix s" "rn_validations s2 = V" "rn_audits s2 = A"
  proof (cases reload)
    case True
    then show ?thesis using reload_ok [OF assms, of ?s] that by force
  next
    case False
    then show ?thesis using that [of ?s] Suc.prems by (simp add: act_simps)
  qed
  have dec: "\<forall>h\<in>set (rc_hotkeys c). is_rejected V A h \<or> passed_both V A h"
    using assms(2) by (simp add: settled_def)
  obtain e s3 where t: "tick w c s2 = (Inr e, s3)" and e: "e = TickFinalized \<or>
     (\<exists>r. e = TickAgain r \<and> unplayed (rn_matrix s3) (rc_hotkeys c) < unplayed (rn_matrix s2) (rc_hotkeys c) \<and>
        rn_validations s3 = V \<and> rn_audits s3 = A)"
    using tick_progress [OF assms(1) dec s2(3,4)] by blast
  have step: "run_loop w c (Suc n) reload s = (case e of TickFinalized \<Rightarrow> act_return Finalized
      | TickAgain reload' \<Rightarrow> run_loop w c n reload') s3"
    unfolding run_loop.simps act_bind_def [of "should_stop w"] stop prod.case sum.case if_False
      act_bind_def [of "if reload then _ else _"] s2(1) act_bind_def [of "tick w c"] t by (rule refl)
  show ?case
  proof (cases e)
    case TickFinalized
    then show ?thesis unfolding step by (simp add: act_simps)
  next
    case (TickAgain r)
    with e have lt: "unplayed (rn_matrix s3) (rc_hotkeys c) < n" "rn_validations s3 = V" "rn_audits s3 = A"
      using Suc.prems(3) s2(2) by auto
    from Suc.IH [OF lt(2,3,1)] show ?thesis unfolding step by (simp add: TickAgain)
  qed
qed simp

lemma run_qualification_ok:
  assumes "healthy w" "settled w c V A"
  shows "rn_validations s = V \<Longrightarrow> rn_audits s = A \<Longrightarrow>
    \<exists>s'. run_qualification w c hs s = (Inr (), s') \<and> rn_validations s' = V \<and> rn_audits s' = A"
proof (induction hs arbitrary: s)
  case (Cons h hs)
  let ?s = "s\<lparr>rn_clock := Suc (rn_clock s)\<rparr>"
  have stop: "should_stop w s = (Inr False, ?s)"
    using assms(1) by (simp add: should_stop_def act_bind_def tick_clock_def act_simps healthy_def)
  note step = run_qualification.simps(2) act_bind_def [of "should_stop w"] stop prod.case sum.case if_False
    act_bind_def [of "act_get _"] act_get_def
  show ?case
  proof (cases "is_rejected_now ?s h")
    case True
    then show ?thesis unfolding step using Cons by simp
  next
    case False
    show ?thesis
    proof (cases "matrix_has (rn_matrix ?s) ''leader'' h")
      case True
      then obtain y where "matrix_get (rn_matrix ?s) ''leader'' h = Some y" by (auto simp: matrix_has_get)
      then have e: "ensure_match w c ''leader'' h ?s =
          (Inr \<lparr>mo_left = ''leader'', mo_right = h, mo_margin = y, mo_from_cache = True\<rparr>, ?s)"
        by (simp add: ensure_match_def)
      show ?thesis
        unfolding step using False e Cons by (simp add: act_bind_def [of "ensure_match w c ''leader'' h"])
    next
      case nh: False
      obtain mo s' y where e: "ensure_match w c ''leader'' h ?s = (Inr mo, s')" "\<not> mo_from_cache mo"
        using ensure_match_fresh [OF assms(1) nh] by blast
      obtain s'' where r: "reload_external_state w s' = (Inr (), s'')" "rn_validations s'' = V" "rn_audits s'' = A"
        using reload_ok [OF assms] by blast
      from Cons.IH [OF r(2,3)] show ?thesis
        unfolding step using False e(2)
        by (simp add: act_bind_def [of "ensure_match w c ''leader'' h"] e(1)
            act_bind_def [of "reload_external_state w"] r(1))
    qed
  qed
qed (simp add: act_simps)

lemma unplayed_bound: "2 * unplayed m hs \<le> length hs * Suc (length hs)"
proof -
  have "2 * unplayed m hs \<le> 2 * length (ordered_pairs (''leader'' # hs))"
    unfolding unplayed_def by (intro mult_le_mono2 length_filter_le)
  also have "\<dots> = length hs * Suc (length hs)" by (subst length_ordered_pairs) simp
  finally show ?thesis .
qed

lemma run_completes_lemma:
  assumes "healthy w" "settled w c V A"
    and "\<And>t b. wd_generations w t ''leader'' = Inr b \<Longrightarrow> baseline_complete (rc_prompts c) b"
    and "length (rc_hotkeys c) * Suc (length (rc_hotkeys c)) < 2 * fuel"
  shows "\<exists>s'. run w c fuel s = (Inr Finalized, s')"
proof (cases "rc_hotkeys c = []")
  case True
  obtain s' where "finalize w c ''leader'' s = (Inr (), s')" using finalize_ok [OF assms(1)] by blast
  with True show ?thesis by (simp add: run_def act_simps)
next
  case False
  obtain b where b: "wd_generations w (rn_clock s) ''leader'' = Inr b"
    using healthy_generations [OF assms(1)] by blast
  let ?s = "s\<lparr>rn_clock := Suc (rn_clock s)\<rparr>"
  have r0: "read_world (\<lambda>t. wd_generations w t ''leader'') s = (Inr b, ?s)"
    by (simp add: read_world_def act_bind_def act_simps tick_clock_def b)
  obtain s1 where r1: "reload_external_state w ?s = (Inr (), s1)" "rn_validations s1 = V" "rn_audits s1 = A"
    using reload_ok [OF assms(1,2)] by blast
  obtain s2 where r2: "run_qualification w c (rc_hotkeys c) s1 = (Inr (), s2)" "rn_validations s2 = V" "rn_audits s2 = A"
    using run_qualification_ok [OF assms(1,2) r1(2,3)] by blast
  have "unplayed (rn_matrix s2) (rc_hotkeys c) < fuel"
    using unplayed_bound [of "rn_matrix s2" "rc_hotkeys c"] assms(4) by linarith
  from run_loop_completes [OF assms(1,2) r2(2,3) this] obtain s' where
    "run_loop w c fuel False s2 = (Inr Finalized, s')" by blast
  then have "run w c fuel s = (Inr Finalized, s')"
    unfolding run_def if_not_P [OF False] act_bind_def [of "read_world _"] r0 prod.case sum.case
    using assms(3) [OF b]
    by (simp only: simp_thms if_False act_bind_def [of "reload_external_state w"] r1(1) prod.case sum.case
        act_bind_def [of "run_qualification w c _"] r2(1))
  then show ?thesis by blast
qed

lemma run_finalized_lemma:
  assumes "run w c fuel s = (Inr Finalized, s')" "rc_hotkeys c \<noteq> []"
  shows "is_finalized (derive_state c s') \<and>
    (\<exists>res pre. rn_log s' = pre @ [EvResult res, EvState (next_state c), EvFlush, EvFinalized (winner_hotkey res)] \<and>
       winner_hotkey res = winner (derive_state c s'))"
proof -
  from assms obtain s2 where "run_loop w c fuel False s2 = (Inr Finalized, s')"
    by (auto simp: run_def act_bind_Inr act_simps split: if_splits)
  then show ?thesis by (rule run_loop_finalized)
qed

section \<open>Properties of the runner\<close>

definition example_conf :: runner_conf where
  "example_conf = \<lparr>rc_state = \<lparr>current_round = 3, stage = DUELS, next_stage_eta = None\<rparr>,
     rc_submissions = [(''a'', \<lparr>ms_repo = ''r'', ms_commit = ''c'', revealed_at_block = 5, tie_breaker = [], ms_round = ''3''\<rparr>)],
     rc_seed = 7, rc_prompts = [''cup.png''], rc_win_margin = 1 / 2, rc_pause = False\<rparr>"

definition example_delivery :: "string \<Rightarrow> generations_map" where
  "example_delivery js = [(''cup'', empty_generation\<lparr>gen_js := Some js, gen_views := Some ''v''\<rparr>)]"

text \<open>The miner a delivers the better model and passes both checks.\<close>

definition example_world :: world where
  "example_world = \<lparr>wd_stop = \<lambda>t. False, wd_flush = \<lambda>t. Inr (), wd_refresh = \<lambda>t. Inr (),
     wd_validations = \<lambda>t. Inr [(''a'', example_validation PASSED)],
     wd_audits = \<lambda>t. Inr [\<lparr>ar_hotkey = ''a'', ar_verdict = PASSED, ar_reason = []\<rparr>],
     wd_generations = \<lambda>t h. Inr (example_delivery (if h = ''a'' then ''good'' else ''poor'')),
     wd_leaders = \<lambda>t. Inr [example_leader ''old'' 1], wd_judge = sided_judge\<rparr>"

definition example_start :: runner where
  "example_start = \<lparr>rn_clock = 0, rn_matrix = [], rn_requests = [], rn_validations = [], rn_audits = [],
     rn_last = None, rn_log = []\<rparr>"

lemma example_world_facts:
  "healthy example_world"
  "settled example_world example_conf [(''a'', example_validation PASSED)]
     [(''a'', \<lparr>ar_hotkey = ''a'', ar_verdict = PASSED, ar_reason = []\<rparr>)]"
  "wd_generations example_world t ''leader'' = Inr b \<Longrightarrow> baseline_complete (rc_prompts example_conf) b"
proof -
  show "healthy example_world" by (simp add: healthy_def example_world_def get_latest_def)
  show "settled example_world example_conf [(''a'', example_validation PASSED)]
     [(''a'', \<lparr>ar_hotkey = ''a'', ar_verdict = PASSED, ar_reason = []\<rparr>)]"
    by (simp add: settled_def example_world_def audits_by_hotkey_def example_conf_def passed_both_def
        example_validation_def)
  have "path_stem ''cup.png'' = ''cup''" by code_simp
  then show "wd_generations example_world t ''leader'' = Inr b \<Longrightarrow> baseline_complete (rc_prompts example_conf) b"
    by (auto simp: example_world_def example_conf_def baseline_complete_def example_delivery_def
        empty_generation_def)
qed

lemma example_run: "\<exists>s'. run example_world example_conf 2 example_start = (Inr Finalized, s')"
  by (rule run_completes_lemma [OF example_world_facts(1,2)])
    (erule example_world_facts(3), simp add: example_conf_def)

text \<open>
  C1: A round with complete verdicts always ends: if the repository answers, no shutdown is
  requested, the leader's baseline is complete and every miner is either rejected or has passed
  both checks, the runner finalizes the round, and the main loop needs at most one tick more than
  there are pairs among the incumbent and the miners.
\<close>

theorem run_completes:
  assumes "healthy w" "settled w c V A"
    and "\<And>t b. wd_generations w t ''leader'' = Inr b \<Longrightarrow> baseline_complete (rc_prompts c) b"
    and "length (rc_hotkeys c) * Suc (length (rc_hotkeys c)) < 2 * fuel"
  shows "\<exists>s'. run w c fuel s = (Inr Finalized, s')"
  using assms by (rule run_completes_lemma)

theorem run_completes_witness:
  "\<exists>s'. run example_world example_conf 2 example_start = (Inr Finalized, s')"
  by (rule run_completes [OF example_world_facts(1,2)])
    (erule example_world_facts(3), simp add: example_conf_def)

text \<open>
  C2: Finalizing is safe: whenever the runner finalizes a round with submissions, the last thing
  it writes is one result and the next stage, and the winner it writes is the incumbent, or a miner
  of the round who qualified and passed both the validation and the source audit in the verdicts
  last loaded; no miner's win stands on an unverified winner.
\<close>

theorem run_finalizes_verified_winner:
  assumes "run w c fuel s = (Inr Finalized, s')" "rc_hotkeys c \<noteq> []"
  shows "\<exists>res pre.
     rn_log s' = pre @ [EvResult res, EvState (next_state c), EvFlush, EvFinalized (winner_hotkey res)] \<and>
     winner_hotkey res = winner (derive_state c s') \<and>
     (\<forall>e\<in>set (leaders (derive_state c s')). passed_both (rn_validations s') (rn_audits s') (te_hotkey e)) \<and>
     (winner_hotkey res = ''leader'' \<or>
      winner_hotkey res \<in> set (rc_hotkeys c) \<and>
      qualifies (rn_matrix s') (rc_win_margin c) (winner_hotkey res) \<and>
      passed_both (rn_validations s') (rn_audits s') (winner_hotkey res))"
proof -
  from run_finalized_lemma [OF assms] obtain res pre where
    fin: "is_finalized (derive_state c s')" and
    l: "rn_log s' = pre @ [EvResult res, EvState (next_state c), EvFlush, EvFinalized (winner_hotkey res)]"
    and won: "winner_hotkey res = winner (derive_state c s')" by blast
  from finalized_winner [OF fin [unfolded derive_state_def]] show ?thesis
    using l won unfolding Let_def derive_state_def [symmetric] by metis
qed

theorem run_finalizes_verified_winner_witness:
  "\<exists>s'. run example_world example_conf 2 example_start = (Inr Finalized, s') \<and>
     (\<exists>res pre. rn_log s' = pre @ [EvResult res, EvState (next_state example_conf), EvFlush,
        EvFinalized (winner_hotkey res)])"
proof -
  obtain s' where r: "run example_world example_conf 2 example_start = (Inr Finalized, s')"
    using example_run by blast
  have "rc_hotkeys example_conf \<noteq> []" by (simp add: example_conf_def)
  from run_finalizes_verified_winner [OF r this] r show ?thesis by blast
qed

text \<open>
  Recorded results are final: whatever the repository, the judge and the shutdown do, and also
  when the run ends in an error, no margin in the match matrix is ever changed or removed.
\<close>

theorem run_keeps_recorded_margins:
  assumes "run w c fuel s = (r, s')" "matrix_get (rn_matrix s) left right = Some x"
  shows "matrix_get (rn_matrix s') left right = Some x"
  using keepsD [OF keeps_extends_run _ assms(1), of "rn_matrix s"] assms(2) by (simp add: extends_def)

theorem run_keeps_recorded_margins_witness:
  "\<exists>s'. run example_world example_conf 2 (example_start\<lparr>rn_matrix := matrix_add [] ''leader'' ''a'' (1 / 4)\<rparr>)
        = s' \<and> matrix_get (rn_matrix (snd s')) ''leader'' ''a'' = Some (1 / 4)"
  using run_keeps_recorded_margins [of example_world example_conf 2
      "example_start\<lparr>rn_matrix := matrix_add [] ''leader'' ''a'' (1 / 4)\<rparr>" _ _ "''leader''" "''a''" "1 / 4"]
  by (simp add: prod_eq_iff)

text \<open>The duels of a match do not depend on the shutdown signal while it is off.\<close>

lemma run_duels_unstopped:
  "\<forall>k<length ps. \<not> stop (clock + k) \<Longrightarrow>
     run_duels judge stop clock ps seed lg rg = run_duels judge (\<lambda>_. False) 0 ps seed lg rg"
proof -
  have shift: "run_duels judge (\<lambda>_. False) k ps seed lg rg = run_duels judge (\<lambda>_. False) 0 ps seed lg rg" for k ps
  proof (induction ps arbitrary: k)
    case (Cons q qs)
    show ?case by (simp add: Cons [of "Suc k"] Cons [of "Suc 0"])
  qed simp
  show "\<forall>k<length ps. \<not> stop (clock + k) \<Longrightarrow> ?thesis"
  proof (induction ps arbitrary: clock)
    case (Cons q qs)
    have "\<forall>k<length qs. \<not> stop (Suc clock + k)"
    proof (intro allI impI)
      fix k assume "k < length qs"
      with Cons.prems [rule_format, of "Suc k"] show "\<not> stop (Suc clock + k)" by simp
    qed
    moreover have "\<not> stop clock" using Cons.prems [rule_format, of 0] by simp
    ultimately show ?case using Cons.IH [of "Suc clock"] shift [of "Suc 0" qs] by simp
  qed simp
qed

text \<open>
  C4: A shutdown never leaves a partial result behind: when a match is recorded, its margin is
  the one of the whole match, every duel judged, as if no shutdown existed, or the fixed margin for
  sides that delivered nothing (0 when neither did, a clean sweep for the side that did); and the
  matrix gained nothing but that margin. The signal is assumed to stay on once it is on.
\<close>

theorem recorded_match_is_complete:
  assumes "ensure_match w c left right s = (r, s')" "rn_matrix s' \<noteq> rn_matrix s"
    and "\<And>t u. t \<le> u \<Longrightarrow> wd_stop w t \<Longrightarrow> wd_stop w u"
  shows "\<exists>lg rg. wd_generations w (rn_clock s) left = Inr lg \<and>
    wd_generations w (Suc (rn_clock s)) right = Inr rg \<and>
    rn_matrix s' = matrix_add (rn_matrix s) left right
      (if \<not> delivered lg \<and> \<not> delivered rg then 0
       else if \<not> delivered lg then 1
       else if \<not> delivered rg then - 1
       else mr_margin (run_match (wd_judge w) (\<lambda>_. False) 0 (rc_prompts c) (rc_seed c) lg rg left right))"
proof -
  have n: "matrix_get (rn_matrix s) left right = None"
    using assms(1,2) by (cases "matrix_get (rn_matrix s) left right") (auto simp: ensure_match_def)
  obtain x1 s1 where m: "run_match_between w c left right s = (x1, s1)" by force
  have m1: "rn_matrix s1 = rn_matrix s" using run_match_between_state [OF m] by blast
  obtain mo where mo: "x1 = Inr mo"
    using assms(1,2) m m1 n by (cases x1) (auto simp: ensure_match_def act_bind_def)
  have go: "\<not> wd_stop w (rn_clock s1)" and s': "rn_matrix s' = matrix_add (rn_matrix s) left right (mo_margin mo)"
    using assms(1,2) m m1 n mo
    by (auto simp: ensure_match_def act_bind_def act_simps should_stop_def tick_clock_def emit_def split: if_splits)
  obtain lg where lg: "wd_generations w (rn_clock s) left = Inr lg"
    using m mo by (cases "wd_generations w (rn_clock s) left")
      (auto simp: run_match_between_def read_world_def act_bind_def act_simps tick_clock_def)
  obtain rg where rg: "wd_generations w (Suc (rn_clock s)) right = Inr rg"
    using m mo lg by (cases "wd_generations w (Suc (rn_clock s)) right")
      (auto simp: run_match_between_def read_world_def act_bind_def act_simps tick_clock_def)
  let ?n = "length (rc_prompts c)" and ?t = "Suc (Suc (rn_clock s))"
  have played: "mo_margin mo = mr_margin (run_match (wd_judge w) (wd_stop w) ?t (rc_prompts c) (rc_seed c) lg rg left right) \<and>
      rn_clock s1 = Suc (?t + ?n)"
    if "delivered lg" "delivered rg"
    using m mo lg rg that go
      assms(3) [of "Suc (Suc (rn_clock s + length (rc_prompts c)))" "Suc (Suc (Suc (rn_clock s + length (rc_prompts c))))"]
    by (auto simp: run_match_between_def read_world_def act_bind_def act_simps tick_clock_def play_def
        should_stop_def emit_def outcome_def split: if_splits)
  have full: "mr_margin (run_match (wd_judge w) (wd_stop w) ?t (rc_prompts c) (rc_seed c) lg rg left right) =
      mr_margin (run_match (wd_judge w) (\<lambda>_. False) 0 (rc_prompts c) (rc_seed c) lg rg left right)"
    if "delivered lg" "delivered rg"
  proof -
    have "\<not> wd_stop w (?t + k)" if k: "k < ?n" for k
      using assms(3) [of "?t + k" "rn_clock s1"] go played [OF \<open>delivered lg\<close> \<open>delivered rg\<close>] k by auto
    then have "run_duels (wd_judge w) (wd_stop w) ?t (rc_prompts c) (rc_seed c) lg rg =
        run_duels (wd_judge w) (\<lambda>_. False) 0 (rc_prompts c) (rc_seed c) lg rg"
      by (intro run_duels_unstopped) blast
    then show ?thesis by (simp add: run_match_def)
  qed
  have fixed: "mo_margin mo = (if \<not> delivered lg \<and> \<not> delivered rg then 0 else if \<not> delivered lg then 1 else - 1)"
    if "\<not> (delivered lg \<and> delivered rg)"
    using m mo lg rg that
    by (auto simp: run_match_between_def read_world_def act_bind_def act_simps tick_clock_def outcome_def
        split: if_splits)
  show ?thesis
    using lg rg s' played full fixed by (cases "delivered lg \<and> delivered rg") auto
qed

theorem recorded_match_is_complete_witness:
  "\<exists>lg rg. wd_generations example_world 0 ''leader'' = Inr lg \<and> wd_generations example_world 1 ''a'' = Inr rg \<and>
     rn_matrix (snd (ensure_match example_world example_conf ''leader'' ''a'' example_start)) =
       matrix_add [] ''leader'' ''a''
        (if \<not> delivered lg \<and> \<not> delivered rg then 0 else if \<not> delivered lg then 1 else if \<not> delivered rg then - 1
         else mr_margin (run_match sided_judge (\<lambda>_. False) 0 [''cup.png''] 7 lg rg ''leader'' ''a''))"
proof -
  obtain mo s' y where e: "ensure_match example_world example_conf ''leader'' ''a'' example_start = (Inr mo, s')"
    "rn_matrix s' = matrix_add (rn_matrix example_start) ''leader'' ''a'' y"
    using ensure_match_fresh [OF example_world_facts(1), of example_start "''leader''" "''a''" example_conf]
    by (auto simp: example_start_def matrix_has_get matrix_get_def)
  have ne: "rn_matrix s' \<noteq> rn_matrix example_start" by (simp add: e(2) example_start_def matrix_add_def)
  have mono: "wd_stop example_world t \<Longrightarrow> wd_stop example_world u" for t u
    by (simp add: example_world_def)
  have f: "rn_clock example_start = 0" "rn_matrix example_start = []" "wd_judge example_world = sided_judge"
    "rc_prompts example_conf = [''cup.png'']" "rc_seed example_conf = 7"
    by (simp_all add: example_start_def example_world_def example_conf_def)
  from recorded_match_is_complete [OF e(1) ne mono] show ?thesis
    unfolding f e(1) snd_conv One_nat_def .
qed

text \<open>
  Validation is requested for exactly the local winners, once each: after a tick's requests the
  requested miners are those requested before and the winners of the timeline, in a list without
  repetitions, and every newly requested miner is announced in exactly one notice.
\<close>

theorem requests_are_the_winners:
  assumes "requests_ok (rn_requests s)" "\<forall>e\<in>set es. te_status e = WON \<longrightarrow> te_margin e \<noteq> None"
  shows "let s' = snd (request_validations es s)
    in requests_ok (rn_requests s') \<and>
       set (requests_to_list (rn_requests s')) =
         set (requests_to_list (rn_requests s)) \<union> te_hotkey ` set (leaders es) \<and>
       length (filter (\<lambda>e. \<exists>h d m. e = EvRequested h d m) (rn_log s')) +
         length (requests_to_list (rn_requests s)) =
       length (filter (\<lambda>e. \<exists>h d m. e = EvRequested h d m) (rn_log s)) +
         length (requests_to_list (rn_requests s'))"
  using assms
proof (induction es arbitrary: s)
  case Nil
  then show ?case by (simp add: leaders_def Let_def)
next
  case (Cons e es)
  show ?case
  proof (cases "te_status e = WON")
    case False
    then have "request_validations (e # es) s = request_validations es s"
      by (auto split: option.split)
    with Cons False show ?thesis by (simp add: leaders_def)
  next
    case True
    with Cons.prems obtain m where m: "te_margin e = Some m" by auto
    obtain added rq where ra: "request_add (rn_requests s) (te_hotkey e) = (added, rq)" by force
    have rq: "rq = snd (request_add (rn_requests s) (te_hotkey e))" using ra by simp
    have ok: "requests_ok rq" unfolding rq by (rule request_add_ok [OF Cons.prems(1)])
    have ls: "requests_to_list rq = (if te_hotkey e \<in> set (requests_to_list (rn_requests s))
        then requests_to_list (rn_requests s) else requests_to_list (rn_requests s) @ [te_hotkey e])"
      unfolding rq by (rule request_add_list [OF Cons.prems(1)])
    have ad: "added \<longleftrightarrow> te_hotkey e \<notin> set (requests_to_list (rn_requests s))"
      using ra Cons.prems(1)
      by (cases "te_hotkey e \<in> set (dkeys (rn_requests s))")
        (simp_all add: request_add_def requests_to_list_keys dhas_iff del: set_map)
    define s1 where "s1 = (if added then s\<lparr>rn_requests := rq, rn_log := rn_log s @ [EvRequests (requests_to_list rq),
          EvRequested (te_hotkey e) (te_defender e) m]\<rparr> else s\<lparr>rn_requests := rq\<rparr>)"
    have step: "request_validations (e # es) s = request_validations es s1"
      by (simp add: m True ra s1_def)
    have "requests_ok (rn_requests s1)" "\<forall>e\<in>set es. te_status e = WON \<longrightarrow> te_margin e \<noteq> None"
      using ok Cons.prems(2) by (simp_all add: s1_def)
    from Cons.IH [OF this] show ?thesis
      unfolding step Let_def using True ls ad by (auto simp: s1_def leaders_def)
  qed
qed

theorem requests_are_the_winners_witness:
  "set (requests_to_list (rn_requests (snd (request_validations
     (derive [''a'', ''b''] example_matrix (1 / 10) example_verdicts example_audits) example_start)))) = {''a''}"
proof -
  let ?es = "derive [''a'', ''b''] example_matrix (1 / 10) example_verdicts example_audits"
  have l: "map te_hotkey (leaders ?es) = [''a'']" by code_simp
  have m: "\<forall>e\<in>set ?es. te_status e = WON \<longrightarrow> te_margin e \<noteq> None" by code_simp
  have ok: "requests_ok (rn_requests example_start)" by (simp add: example_start_def requests_ok_def)
  have "te_hotkey ` set (leaders ?es) = {''a''}" using arg_cong [OF l, of set] by simp
  then show ?thesis
    using requests_are_the_winners [OF ok m] by (simp add: Let_def example_start_def requests_to_list_def)
qed

end
