(* ===== verification/Repo.thy ===== *)
theory Repo
  imports Competition
begin

text \<open>
  The competition repository as the services share it: the files at one commit as typed
  documents, the \<open>require_*\<close> readers of \<^verbatim>\<open>shared/subnet_common/competition\<close>, and the writes a commit
  carries. A commit of several files is one list of writes; see \<open>GitStore\<close> for the client and the
  batcher that make it.
\<close>

record round_dir =
  rd_schedule :: "round_schedule option"
  rd_seed :: "int option"
  rd_prompts :: "string list option"
  rd_submissions :: "(string, miner_submission) dict option"
  rd_generations :: "(string, generations_map) dict"
  rd_winner :: "round_result option"

record repo =
  rp_state :: "competition_state option"
  rp_config :: "competition_config option"
  rp_leaders :: "leader_state option"
  rp_pool :: "string list option"
  rp_rounds :: "(int, round_dir) dict"

definition empty_round :: round_dir where
  "empty_round = \<lparr>rd_schedule = None, rd_seed = None, rd_prompts = None, rd_submissions = None,
                  rd_generations = [], rd_winner = None\<rparr>"

definition round_dir_of :: "repo \<Rightarrow> int \<Rightarrow> round_dir" where
  "round_dir_of r n = dget_default (rp_rounds r) n empty_round"

section \<open>Readers\<close>

definition require_state :: "repo \<Rightarrow> competition_state result" where
  "require_state r = some_or (rp_state r) (FileNotFoundError ''state.json'')"

definition require_config :: "repo \<Rightarrow> competition_config result" where
  "require_config r = some_or (rp_config r) (FileNotFoundError ''config.json'')"

definition require_leader_state :: "repo \<Rightarrow> leader_state result" where
  "require_leader_state r = some_or (rp_leaders r) (FileNotFoundError ''leader.json'')"

definition get_schedule :: "repo \<Rightarrow> int \<Rightarrow> round_schedule option result" where
  "get_schedule r n =
     (case rd_schedule (round_dir_of r n) of None \<Rightarrow> Inr None
      | Some s \<Rightarrow> rmap Some (validate_schedule s))"

definition require_schedule :: "repo \<Rightarrow> int \<Rightarrow> round_schedule result" where
  "require_schedule r n =
     rbind (get_schedule r n) (\<lambda>s. some_or s (FileNotFoundError ''schedule.json''))"

definition require_round_result :: "repo \<Rightarrow> int \<Rightarrow> round_result result" where
  "require_round_result r n = some_or (rd_winner (round_dir_of r n)) (FileNotFoundError ''winner.json'')"

definition require_seed :: "repo \<Rightarrow> int \<Rightarrow> int result" where
  "require_seed r n = some_or (rd_seed (round_dir_of r n)) (FileNotFoundError ''seed.json'')"

definition require_submissions :: "repo \<Rightarrow> int \<Rightarrow> (string, miner_submission) dict result" where
  "require_submissions r n = some_or (rd_submissions (round_dir_of r n)) (FileNotFoundError ''submissions.json'')"

definition require_round_prompts :: "repo \<Rightarrow> int option \<Rightarrow> string list result" where
  "require_round_prompts r n =
     some_or (case n of None \<Rightarrow> rp_pool r | Some k \<Rightarrow> rd_prompts (round_dir_of r k))
       (FileNotFoundError ''prompts.txt'')"

definition get_generations :: "repo \<Rightarrow> int \<Rightarrow> string \<Rightarrow> generations_map" where
  "get_generations r n h = dget_default (rd_generations (round_dir_of r n)) h []"

section \<open>Writes\<close>

datatype doc_write =
    WState competition_state
  | WLeaders leader_state
  | WSchedule int round_schedule
  | WSeed int int
  | WPrompts int "string list"
  | WSubmissions int "(string, miner_submission) dict"
  | WGenerations int string generations_map
  | WWinner int round_result

definition set_round :: "int \<Rightarrow> (round_dir \<Rightarrow> round_dir) \<Rightarrow> repo \<Rightarrow> repo" where
  "set_round n f r = r\<lparr>rp_rounds := dset n (f (round_dir_of r n)) (rp_rounds r)\<rparr>"

fun apply_write :: "doc_write \<Rightarrow> repo \<Rightarrow> repo" where
  "apply_write (WState s) r = r\<lparr>rp_state := Some s\<rparr>"
| "apply_write (WLeaders ls) r = r\<lparr>rp_leaders := Some ls\<rparr>"
| "apply_write (WSchedule n s) r = set_round n (\<lambda>d. d\<lparr>rd_schedule := Some s\<rparr>) r"
| "apply_write (WSeed n s) r = set_round n (\<lambda>d. d\<lparr>rd_seed := Some s\<rparr>) r"
| "apply_write (WPrompts n ps) r = set_round n (\<lambda>d. d\<lparr>rd_prompts := Some ps\<rparr>) r"
| "apply_write (WSubmissions n subs) r = set_round n (\<lambda>d. d\<lparr>rd_submissions := Some subs\<rparr>) r"
| "apply_write (WGenerations n h g) r =
     set_round n (\<lambda>d. d\<lparr>rd_generations := dset h g (rd_generations d)\<rparr>) r"
| "apply_write (WWinner n w) r = set_round n (\<lambda>d. d\<lparr>rd_winner := Some w\<rparr>) r"

definition commit :: "doc_write list \<Rightarrow> repo \<Rightarrow> repo" where
  "commit ws r = fold apply_write ws r"

lemma round_dir_of_set_round [simp]:
  "round_dir_of (set_round n f r) m = (if m = n then f (round_dir_of r n) else round_dir_of r m)"
  by (simp add: round_dir_of_def set_round_def dget_default_def)

lemma round_dir_of_simps [simp]:
  "round_dir_of (r\<lparr>rp_state := s\<rparr>) n = round_dir_of r n"
  "round_dir_of (r\<lparr>rp_leaders := l\<rparr>) n = round_dir_of r n"
  by (simp_all add: round_dir_of_def)

lemma set_round_simps [simp]:
  "rp_state (set_round n f r) = rp_state r"
  "rp_config (set_round n f r) = rp_config r"
  "rp_leaders (set_round n f r) = rp_leaders r"
  "rp_pool (set_round n f r) = rp_pool r"
  by (simp_all add: set_round_def)

lemma commit_simps [simp]:
  "commit [] r = r"
  "commit (w # ws) r = commit ws (apply_write w r)"
  by (simp_all add: commit_def)

lemma commit_append: "commit (us @ vs) r = commit vs (commit us r)"
  by (simp add: commit_def)

end
