(* ===== verification/RoundManager.thy ===== *)
theory RoundManager
  imports Repo
begin

text \<open>
  The round manager, from \<^verbatim>\<open>round_manager/finalize_round.py\<close>: when the competition is in the
  finalizing stage it settles the leader, computes when the next round starts, writes its schedule
  and opens it, or ends the competition. The chain's block number and the clock are arguments.
\<close>

definition BLOCK_TIME_SECONDS :: int where "BLOCK_TIME_SECONDS = 12"

section \<open>When the next round starts\<close>

definition estimate_round_start :: "int \<Rightarrow> int \<Rightarrow> datetime \<Rightarrow> int \<Rightarrow> datetime" where
  "estimate_round_start reveal_block current_block current_time start_time =
     (let blocks_ago = current_block - reveal_block;
          approximate_time = current_time - blocks_ago * BLOCK_TIME_SECONDS * us_per_second
      in dt_combine (dt_date approximate_time) start_time)"

text \<open>The loop that skips days until the finalization buffer fits.\<close>

function buffer_loop :: "datetime \<Rightarrow> datetime \<Rightarrow> timedelta \<Rightarrow> datetime" where
  "buffer_loop candidate current_time min_buffer =
     (if candidate - current_time < min_buffer
      then buffer_loop (candidate + us_per_day) current_time min_buffer
      else candidate)"
  by pat_completeness auto
termination
  by (relation "measure (\<lambda>(c, t, b). nat (b - (c - t)))") (auto simp: us_per_day_def)

declare buffer_loop.simps [simp del]

definition ensure_finalization_buffer :: "datetime \<Rightarrow> datetime \<Rightarrow> pyfloat \<Rightarrow> datetime" where
  "ensure_finalization_buffer candidate current_time buffer_hours =
     buffer_loop candidate current_time (td_hours buffer_hours)"

definition clamp_to_competition_start :: "datetime \<Rightarrow> competition_config \<Rightarrow> datetime" where
  "clamp_to_competition_start candidate config =
     (let first_round = dt_combine (first_evaluation_date config) (round_start_time config)
      in if candidate < first_round then first_round else candidate)"

definition compute_next_round_start :: "datetime \<Rightarrow> int \<Rightarrow> competition_config \<Rightarrow> datetime option \<Rightarrow>
    datetime \<times> int" where
  "compute_next_round_start current_time current_block config previous_round_start =
     (let earliest_date =
            (case previous_round_start of
               Some p \<Rightarrow> dt_date (p + round_duration_days config * us_per_day)
             | None \<Rightarrow> dt_date current_time);
          candidate0 = dt_combine earliest_date (round_start_time config);
          candidate1 = ensure_finalization_buffer candidate0 current_time (finalization_buffer_hours config);
          candidate = clamp_to_competition_start candidate1 config;
          seconds_until = total_seconds (candidate - current_time);
          blocks_until = py_trunc (fdiv seconds_until (of_int BLOCK_TIME_SECONDS))
      in (candidate, current_block + blocks_until))"

definition build_next_schedule :: "datetime \<Rightarrow> int \<Rightarrow> competition_config \<Rightarrow> int option \<Rightarrow>
    round_schedule option result" where
  "build_next_schedule next_start next_block config previous_latest =
     (if last_competition_date config < dt_date next_start then Inr None
      else
        (let generation_blocks = py_trunc (int_div (generation_stage_minutes config * 60) BLOCK_TIME_SECONDS);
             deadline = next_block + generation_blocks
         in rmap Some (validate_schedule
              \<lparr>earliest_reveal_block = (case previous_latest of Some b \<Rightarrow> b + 1 | None \<Rightarrow> 0),
               latest_reveal_block = next_block,
               generation_deadline_block = Some deadline,
               witness_storage_prefix = [], witness_save_submissions = True\<rparr>)))"

section \<open>Stage and leader\<close>

definition determine_next_stage :: "round_schedule option \<Rightarrow> bool \<Rightarrow> round_stage" where
  "determine_next_stage schedule pause =
     (case schedule of None \<Rightarrow> FINISHED | Some _ \<Rightarrow> if pause then PAUSED else OPEN)"

definition find_new_leader :: "round_result \<Rightarrow> leader_entry \<Rightarrow> int \<Rightarrow> leader_entry option" where
  "find_new_leader res current block =
     (if winner_hotkey res = ''leader'' then None
      else if rr_repo res = le_repo current \<and> rr_commit res = le_commit current then None
      else Some \<lparr>le_hotkey = winner_hotkey res, le_repo = rr_repo res, le_commit = rr_commit res,
                 le_docker = [], le_weight = 1, effective_block = block\<rparr>)"

definition round_updates :: "int \<Rightarrow> round_stage \<Rightarrow> leader_state \<Rightarrow> bool \<Rightarrow> round_schedule option \<Rightarrow>
    datetime option \<Rightarrow> doc_write list" where
  "round_updates next_round next_stage leaders leader_changed schedule eta =
     [WState \<lparr>current_round = next_round, stage = next_stage, next_stage_eta = eta\<rparr>]
     @ (case schedule of None \<Rightarrow> [] | Some s \<Rightarrow> [WSchedule next_round s])
     @ (if leader_changed then [WLeaders leaders] else [])"

section \<open>One cycle\<close>

text \<open>
  The commit of a cycle, or nothing when the stage is not the manager's. \<open>block\<close> is what the chain
  answers (or the error it raises).
\<close>

definition finalize_round :: "repo \<Rightarrow> int result \<Rightarrow> datetime \<Rightarrow> bool \<Rightarrow> doc_write list option result" where
  "finalize_round r block current_time pause =
     rbind (require_state r) (\<lambda>state.
       if stage state \<noteq> FINALIZING then Inr None
       else
         rbind (require_config r) (\<lambda>config.
         rbind (get_schedule r (current_round state)) (\<lambda>previous.
         rbind block (\<lambda>current_block.
           (let previous_start = map_option (\<lambda>p. estimate_round_start (latest_reveal_block p) current_block
                                    current_time (round_start_time config)) previous;
                (next_start, next_block) =
                  compute_next_round_start current_time current_block config previous_start
            in rbind (build_next_schedule next_start next_block config
                        (map_option latest_reveal_block previous)) (\<lambda>schedule.
               rbind (require_leader_state r) (\<lambda>leaders.
               rbind (require_round_result r (current_round state)) (\<lambda>res.
               rbind (some_or (get_latest leaders)
                        (RuntimeError ''Leader state is unexpectedly empty'')) (\<lambda>current.
                 (let new_leader = find_new_leader res current next_block;
                      leaders' = (case new_leader of None \<Rightarrow> leaders | Some l \<Rightarrow> leaders @ [l]);
                      next_round = (case schedule of None \<Rightarrow> current_round state
                                    | Some _ \<Rightarrow> current_round state + 1)
                  in Inr (Some (round_updates next_round (determine_next_stage schedule pause) leaders'
                        (new_leader \<noteq> None) schedule
                        (case schedule of None \<Rightarrow> None | Some _ \<Rightarrow> Some next_start)))))))))))))"

section \<open>The buffer loop\<close>

lemma buffer_loop_days:
  "\<exists>k. 0 \<le> k \<and> buffer_loop c t b = c + k * us_per_day \<and> b \<le> buffer_loop c t b - t \<and>
     (k = 0 \<or> buffer_loop c t b - us_per_day - t < b)"
proof (induction c t b rule: buffer_loop.induct)
  case (1 c t b)
  show ?case
  proof (cases "c - t < b")
    case False
    then show ?thesis by (subst buffer_loop.simps, intro exI [of _ 0]) (simp add: buffer_loop.simps)
  next
    case True
    from "1.IH" [OF True] obtain k where k: "0 \<le> k"
      "buffer_loop (c + us_per_day) t b = c + us_per_day + k * us_per_day"
      "b \<le> buffer_loop (c + us_per_day) t b - t"
      "k = 0 \<or> buffer_loop (c + us_per_day) t b - us_per_day - t < b" by blast
    have eq: "buffer_loop c t b = buffer_loop (c + us_per_day) t b"
      using True by (subst buffer_loop.simps) simp
    show ?thesis
      by (rule exI [of _ "k + 1"]) (use k True in \<open>auto simp: eq algebra_simps\<close>)
  qed
qed

lemma buffer_loop_id: "b \<le> c - t \<Longrightarrow> buffer_loop c t b = c"
  by (subst buffer_loop.simps) simp

lemma build_next_schedule_some:
  assumes "build_next_schedule start block config prev = Inr (Some s)"
  shows "earliest_reveal_block s = (case prev of Some b \<Rightarrow> b + 1 | None \<Rightarrow> 0)"
    "latest_reveal_block s = block" "dt_date start \<le> last_competition_date config"
    "generation_deadline_block s =
       Some (block + py_trunc (int_div (generation_stage_minutes config * 60) BLOCK_TIME_SECONDS))"
  using assms
  by (auto simp: build_next_schedule_def validate_schedule_def storage_prefix_def Let_def split: if_splits)

lemma build_next_schedule_none:
  "build_next_schedule start block config prev = Inr None \<longleftrightarrow> last_competition_date config < dt_date start"
  by (auto simp: build_next_schedule_def validate_schedule_def storage_prefix_def Let_def)

section \<open>The next start is the earliest admissible one\<close>

text \<open>
  An instant is admissible when it is a daily start time, on or after the earliest date, not before
  the competition's first round, and leaves the finalization buffer.
\<close>

definition earliest_start_date :: "datetime \<Rightarrow> competition_config \<Rightarrow> datetime option \<Rightarrow> int" where
  "earliest_start_date now config prev =
     (case prev of Some p \<Rightarrow> dt_date (p + round_duration_days config * us_per_day) | None \<Rightarrow> dt_date now)"

definition admissible :: "datetime \<Rightarrow> competition_config \<Rightarrow> datetime option \<Rightarrow> datetime \<Rightarrow> bool" where
  "admissible now config prev t =
     (t = dt_combine (dt_date t) (round_start_time config) \<and>
      earliest_start_date now config prev \<le> dt_date t \<and>
      first_evaluation_date config \<le> dt_date t \<and>
      td_hours (finalization_buffer_hours config) \<le> t - now)"

lemma dt_combine_le_iff [simp]: "dt_combine d tod \<le> dt_combine e tod \<longleftrightarrow> d \<le> e"
  by (simp add: dt_combine_def us_per_day_def)

lemma dt_combine_less_iff [simp]: "dt_combine d tod < dt_combine e tod \<longleftrightarrow> d < e"
  by (simp add: dt_combine_def us_per_day_def)

lemma dt_combine_add_days: "dt_combine d tod + k * us_per_day = dt_combine (d + k) tod"
  by (simp add: dt_combine_def algebra_simps)

lemma ensure_buffer_date:
  obtains k where "0 \<le> k"
    "ensure_finalization_buffer (dt_combine d tod) now h = dt_combine (d + k) tod"
    "td_hours h \<le> dt_combine (d + k) tod - now"
    "k = 0 \<or> dt_combine (d + k - 1) tod - now < td_hours h"
proof -
  obtain k where k: "0 \<le> k"
    "buffer_loop (dt_combine d tod) now (td_hours h) = dt_combine d tod + k * us_per_day"
    "td_hours h \<le> buffer_loop (dt_combine d tod) now (td_hours h) - now"
    "k = 0 \<or> buffer_loop (dt_combine d tod) now (td_hours h) - us_per_day - now < td_hours h"
    using buffer_loop_days by blast
  have "dt_combine (d + k) tod - us_per_day = dt_combine (d + k - 1) tod"
    by (simp add: dt_combine_def algebra_simps)
  with k show ?thesis
    by (intro that [of k]) (simp_all add: ensure_finalization_buffer_def dt_combine_add_days)
qed

lemma next_round_start_least:
  assumes "0 \<le> round_start_time config" "round_start_time config < us_per_day"
  shows "admissible now config prev (fst (compute_next_round_start now block config prev)) \<and>
    (\<forall>t. admissible now config prev t \<longrightarrow> fst (compute_next_round_start now block config prev) \<le> t)"
proof -
  let ?tod = "round_start_time config" and ?d = "earliest_start_date now config prev"
    and ?h = "finalization_buffer_hours config" and ?f = "first_evaluation_date config"
  obtain k where k: "0 \<le> k"
    "ensure_finalization_buffer (dt_combine ?d ?tod) now ?h = dt_combine (?d + k) ?tod"
    "td_hours ?h \<le> dt_combine (?d + k) ?tod - now"
    "k = 0 \<or> dt_combine (?d + k - 1) ?tod - now < td_hours ?h"
    by (rule ensure_buffer_date)
  define e where "e = max (?d + k) ?f"
  have start: "fst (compute_next_round_start now block config prev) = dt_combine e ?tod"
    unfolding compute_next_round_start_def Let_def earliest_start_date_def [symmetric] k(2) e_def
      clamp_to_competition_start_def
    by (auto simp: max_def)
  have buf: "td_hours ?h \<le> dt_combine e ?tod - now"
  proof -
    have "dt_combine (?d + k) ?tod \<le> dt_combine e ?tod" by (simp add: e_def)
    with k(3) show ?thesis by linarith
  qed
  have least: "dt_combine e ?tod \<le> t" if t: "admissible now config prev t" for t
  proof -
    let ?e = "dt_date t"
    from t have eq: "t = dt_combine ?e ?tod" and lo: "?d \<le> ?e" "?f \<le> ?e"
      and b: "td_hours ?h \<le> dt_combine ?e ?tod - now"
      unfolding admissible_def by metis+
    have "?d + k \<le> ?e"
    proof (rule ccontr)
      assume "\<not> ?d + k \<le> ?e"
      then have "?e \<le> ?d + k - 1" "k \<noteq> 0" using lo by linarith+
      then have "dt_combine ?e ?tod \<le> dt_combine (?d + k - 1) ?tod" by simp
      with b k(4) \<open>k \<noteq> 0\<close> show False by linarith
    qed
    with lo have "e \<le> ?e" by (simp add: e_def)
    then have "dt_combine e ?tod \<le> dt_combine ?e ?tod" by simp
    with eq show ?thesis by simp
  qed
  have "dt_date (dt_combine e ?tod) = e" using assms by simp
  then show ?thesis
    unfolding start using buf least k(1) by (auto simp: admissible_def e_def)
qed

section \<open>What a cycle commits\<close>

text \<open>The start and the last reveal block a cycle computes from the previous schedule.\<close>

definition cycle_start :: "datetime \<Rightarrow> int \<Rightarrow> competition_config \<Rightarrow> round_schedule option \<Rightarrow> datetime \<times> int" where
  "cycle_start now b config prev =
     compute_next_round_start now b config
       (map_option (\<lambda>p. estimate_round_start (latest_reveal_block p) b now (round_start_time config)) prev)"

lemma finalize_round_Some:
  assumes "finalize_round r block now pause = Inr (Some ws)"
  shows "\<exists>state config prev b schedule leaders res current eta.
    require_state r = Inr state \<and> stage state = FINALIZING \<and> require_config r = Inr config \<and>
    get_schedule r (current_round state) = Inr prev \<and> block = Inr b \<and>
    require_leader_state r = Inr leaders \<and> require_round_result r (current_round state) = Inr res \<and>
    get_latest leaders = Some current \<and>
    build_next_schedule (fst (cycle_start now b config prev)) (snd (cycle_start now b config prev)) config
      (map_option latest_reveal_block prev) = Inr schedule \<and>
    ws = round_updates (case schedule of None \<Rightarrow> current_round state | Some _ \<Rightarrow> current_round state + 1)
       (determine_next_stage schedule pause)
       (case find_new_leader res current (snd (cycle_start now b config prev)) of
          None \<Rightarrow> leaders | Some l \<Rightarrow> leaders @ [l])
       (find_new_leader res current (snd (cycle_start now b config prev)) \<noteq> None) schedule eta"
  using assms
  unfolding finalize_round_def Let_def case_prod_unfold rbind_eq_Inr cycle_start_def [symmetric]
  by (fastforce simp: rbind_eq_Inr split: if_splits)

lemma finalize_round_eq:
  assumes "require_state r = Inr state" "stage state = FINALIZING" "require_config r = Inr config"
    "get_schedule r (current_round state) = Inr prev" "require_leader_state r = Inr leaders"
    "require_round_result r (current_round state) = Inr res" "get_latest leaders = Some current"
    "cycle_start now b config prev = (start, blk)"
    "build_next_schedule start blk config (map_option latest_reveal_block prev) = Inr schedule"
  shows "finalize_round r (Inr b) now pause = Inr (Some (round_updates
       (case schedule of None \<Rightarrow> current_round state | Some _ \<Rightarrow> current_round state + 1)
       (determine_next_stage schedule pause)
       (case find_new_leader res current blk of None \<Rightarrow> leaders | Some l \<Rightarrow> leaders @ [l])
       (find_new_leader res current blk \<noteq> None) schedule
       (case schedule of None \<Rightarrow> None | Some _ \<Rightarrow> Some start)))"
  using assms by (simp add: finalize_round_def cycle_start_def Let_def)

lemma next_block_ge:
  assumes "0 \<le> finalization_buffer_hours config" "0 \<le> round_start_time config" "round_start_time config < us_per_day"
  shows "b \<le> snd (compute_next_round_start now b config prev)"
proof -
  let ?start = "fst (compute_next_round_start now b config prev)"
  have "admissible now config prev ?start" using next_round_start_least [OF assms(2,3)] by blast
  moreover have "0 \<le> td_hours (finalization_buffer_hours config)"
  proof -
    let ?h = "finalization_buffer_hours config"
    have "0 \<le> fl ((?h - of_int (py_trunc ?h)) * of_int us_per_hour)"
      using py_trunc_le [OF assms(1)] by (intro fl_nonneg mult_nonneg_nonneg) (simp_all add: us_per_hour_def)
    then have "0 \<le> round_half_even (fl ((?h - of_int (py_trunc ?h)) * of_int us_per_hour))"
      using round_half_even_ge_int [of 0] by simp
    with py_trunc_nonneg [OF assms(1)] show ?thesis by (simp add: td_hours_def us_per_hour_def)
  qed
  ultimately have "0 \<le> ?start - now" by (simp add: admissible_def)
  then have "0 \<le> total_seconds (?start - now)"
    unfolding total_seconds_def int_div_def by (intro fl_nonneg divide_nonneg_nonneg) (simp_all add: us_per_second_def)
  then have "0 \<le> fdiv (total_seconds (?start - now)) (of_int BLOCK_TIME_SECONDS)"
    unfolding fdiv_def by (intro fl_nonneg divide_nonneg_nonneg) (simp_all add: BLOCK_TIME_SECONDS_def)
  then have "0 \<le> py_trunc (fdiv (total_seconds (?start - now)) (of_int BLOCK_TIME_SECONDS))"
    by (rule py_trunc_nonneg)
  moreover have "snd (compute_next_round_start now b config prev) =
      b + py_trunc (fdiv (total_seconds (?start - now)) (of_int BLOCK_TIME_SECONDS))"
    by (simp add: compute_next_round_start_def Let_def)
  ultimately show ?thesis by simp
qed

section \<open>Properties of the round manager\<close>

definition example_config :: competition_config where
  "example_config = \<lparr>cfg_name = ''c'', first_evaluation_date = 0, last_competition_date = 100,
     round_start_time = 8 * us_per_hour, generation_stage_minutes = 180, finalization_buffer_hours = 1,
     win_margin = 1 / 20, prompts_per_round = 2, carryover_prompts = 1, round_duration_days = 1\<rparr>"

definition example_schedule :: "int \<Rightarrow> int \<Rightarrow> round_schedule" where
  "example_schedule a b = \<lparr>earliest_reveal_block = a, latest_reveal_block = b,
     generation_deadline_block = Some (b + 900), witness_storage_prefix = [], witness_save_submissions = True\<rparr>"

text \<open>A round won by the miner m at noon of day 5; its schedule ended at block 1000 at 8 o'clock.\<close>

definition example_repo :: repo where
  "example_repo = \<lparr>rp_state = Some \<lparr>current_round = 4, stage = FINALIZING, next_stage_eta = None\<rparr>,
     rp_config = Some example_config, rp_leaders = Some [example_leader ''old'' 10], rp_pool = Some [],
     rp_rounds = [(4, empty_round\<lparr>rd_schedule := Some (example_schedule 500 1000),
        rd_winner := Some \<lparr>winner_hotkey = ''m'', rr_repo = ''r'', rr_commit = ''c''\<rparr>\<rparr>)]\<rparr>"

definition example_noon :: datetime where
  "example_noon = dt_combine 5 (12 * us_per_hour)"

lemma example_repo_reads:
  "require_state example_repo = Inr \<lparr>current_round = 4, stage = FINALIZING, next_stage_eta = None\<rparr>"
  "require_config example_repo = Inr example_config"
  "require_leader_state example_repo = Inr [example_leader ''old'' 10]"
  "require_round_result example_repo 4 = Inr \<lparr>winner_hotkey = ''m'', rr_repo = ''r'', rr_commit = ''c''\<rparr>"
  "get_schedule example_repo 4 = Inr (Some (example_schedule 500 1000))"
  by (simp_all add: require_state_def require_config_def require_leader_state_def require_round_result_def
      example_repo_def round_dir_of_def dget_default_def get_schedule_def validate_schedule_def
      example_schedule_def storage_prefix_def)

lemma example_cycle:
  "finalize_round example_repo (Inr 2000) example_noon False =
     Inr (Some [WState \<lparr>current_round = 5, stage = OPEN, next_stage_eta = Some (dt_combine 6 (8 * us_per_hour))\<rparr>,
       WSchedule 5 \<lparr>earliest_reveal_block = 1001, latest_reveal_block = 8000,
         generation_deadline_block = Some 8900, witness_storage_prefix = [], witness_save_submissions = True\<rparr>,
       WLeaders [example_leader ''old'' 10, \<lparr>le_hotkey = ''m'', le_repo = ''r'', le_commit = ''c'',
         le_docker = [], le_weight = 1, effective_block = 8000\<rparr>]])"
proof -
  have c: "cycle_start example_noon 2000 example_config (Some (example_schedule 500 1000)) =
      (dt_combine 6 (8 * us_per_hour), 8000)" by code_simp
  have b: "build_next_schedule (dt_combine 6 (8 * us_per_hour)) 8000 example_config (Some 1000) =
     Inr (Some \<lparr>earliest_reveal_block = 1001, latest_reveal_block = 8000,
         generation_deadline_block = Some 8900, witness_storage_prefix = [], witness_save_submissions = True\<rparr>)"
    by code_simp
  have st: "stage \<lparr>current_round = 4, stage = FINALIZING, next_stage_eta = None\<rparr> = FINALIZING" by simp
  have l: "get_latest [example_leader ''old'' 10] = Some (example_leader ''old'' 10)" by (simp add: get_latest_def)
  have n: "find_new_leader \<lparr>winner_hotkey = ''m'', rr_repo = ''r'', rr_commit = ''c''\<rparr> (example_leader ''old'' 10) 8000 =
     Some \<lparr>le_hotkey = ''m'', le_repo = ''r'', le_commit = ''c'', le_docker = [], le_weight = 1, effective_block = 8000\<rparr>"
    by (simp add: find_new_leader_def example_leader_def)
  have p: "map_option latest_reveal_block (Some (example_schedule 500 1000)) = Some 1000"
    by (simp add: example_schedule_def)
  have rd: "get_schedule example_repo (current_round \<lparr>current_round = 4, stage = FINALIZING, next_stage_eta = None\<rparr>) =
      Inr (Some (example_schedule 500 1000))"
    "require_round_result example_repo (current_round \<lparr>current_round = 4, stage = FINALIZING, next_stage_eta = None\<rparr>) =
      Inr \<lparr>winner_hotkey = ''m'', rr_repo = ''r'', rr_commit = ''c''\<rparr>"
    by (simp_all add: example_repo_reads)
  show ?thesis
    unfolding finalize_round_eq [OF example_repo_reads(1) st example_repo_reads(2) rd(1) example_repo_reads(3)
        rd(2) l c b [folded p]] n
    by (simp add: round_updates_def determine_next_stage_def)
qed

text \<open>
  C10: The next round starts at the earliest admissible instant: at the daily start time, the round
  duration after the previous round, not before the competition's first day and with the configured
  buffer still ahead; no earlier instant satisfies all of that.
\<close>

theorem next_round_start_earliest:
  assumes "0 \<le> round_start_time config" "round_start_time config < us_per_day"
  shows "admissible now config prev (fst (compute_next_round_start now block config prev)) \<and>
    (\<forall>t. admissible now config prev t \<longrightarrow> fst (compute_next_round_start now block config prev) \<le> t)"
  using assms by (rule next_round_start_least)

theorem next_round_start_earliest_witness:
  "admissible example_noon example_config (Some (dt_combine 5 (8 * us_per_hour)))
     (fst (compute_next_round_start example_noon 2000 example_config (Some (dt_combine 5 (8 * us_per_hour)))))"
  using next_round_start_earliest [of example_config]
  by (simp add: example_config_def us_per_hour_def us_per_day_def)

text \<open>
  The reveal windows of consecutive rounds tile the chain: the window of the round a cycle opens
  begins right after the last block of the previous one, ends no earlier than the current block,
  is not empty once the previous window is over, and is followed by a generation deadline that is
  not before its end.
\<close>

theorem reveal_windows_tile:
  assumes "finalize_round r (Inr b) now pause = Inr (Some ws)" "WSchedule n s \<in> set ws"
    and "require_state r = Inr state" "require_config r = Inr config"
    and "0 \<le> round_start_time config" "round_start_time config < us_per_day"
    and "0 \<le> finalization_buffer_hours config" "0 \<le> generation_stage_minutes config"
  shows "n = current_round state + 1 \<and> b \<le> latest_reveal_block s \<and>
    (\<exists>d. generation_deadline_block s = Some d \<and> latest_reveal_block s \<le> d) \<and>
    (case get_schedule r (current_round state) of
       Inr (Some p) \<Rightarrow> earliest_reveal_block s = latest_reveal_block p + 1 \<and>
         (latest_reveal_block p < b \<longrightarrow> earliest_reveal_block s \<le> latest_reveal_block s)
     | _ \<Rightarrow> earliest_reveal_block s = 0)"
proof -
  from finalize_round_Some [OF assms(1)] assms(3,4) obtain prev schedule st ls ch eta where
    prev: "get_schedule r (current_round state) = Inr prev"
    and sch: "build_next_schedule (fst (cycle_start now b config prev)) (snd (cycle_start now b config prev)) config
      (map_option latest_reveal_block prev) = Inr schedule"
    and ws: "ws = round_updates
       (case schedule of None \<Rightarrow> current_round state | Some _ \<Rightarrow> current_round state + 1) st ls ch schedule eta"
    by fastforce
  from ws assms(2) have s: "schedule = Some s" and n: "n = current_round state + 1"
    by (auto simp: round_updates_def split: option.splits if_splits)
  note parts = build_next_schedule_some [OF sch [unfolded s]]
  have b: "b \<le> latest_reveal_block s"
    unfolding parts(2) cycle_start_def by (rule next_block_ge [OF assms(7,5,6)])
  have "0 \<le> py_trunc (int_div (generation_stage_minutes config * 60) BLOCK_TIME_SECONDS)"
    using assms(8) unfolding int_div_def
    by (intro py_trunc_nonneg fl_nonneg divide_nonneg_nonneg) (simp_all add: BLOCK_TIME_SECONDS_def)
  with parts(4) parts(2) have d: "\<exists>d. generation_deadline_block s = Some d \<and> latest_reveal_block s \<le> d" by simp
  show ?thesis
    using n b d parts(1) prev by (cases prev) auto
qed

theorem reveal_windows_tile_witness:
  "earliest_reveal_block (example_schedule 1001 8000) = latest_reveal_block (example_schedule 500 1000) + 1 \<and>
   (2000 :: int) \<le> 8000"
  using reveal_windows_tile [OF example_cycle, of 5 _ _ example_config]
  by (simp add: example_repo_reads) (simp add: example_config_def us_per_hour_def us_per_day_def example_schedule_def)

text \<open>
  A cycle changes the leader exactly when a miner won with code that differs from the incumbent's:
  then the history gets one entry, with the full weight and effective from the next window's last
  block, and it stays in order of effective blocks if that block is after the incumbent's; otherwise
  the history is not written at all, so a leader that defends keeps its entry and weight.
\<close>

theorem leader_change_spec:
  assumes "finalize_round r (Inr b) now pause = Inr (Some ws)"
    and "require_state r = Inr state" "require_leader_state r = Inr leaders"
    and "require_round_result r (current_round state) = Inr res" "get_latest leaders = Some current"
  shows "let changed = (winner_hotkey res \<noteq> ''leader'' \<and>
               (rr_repo res \<noteq> le_repo current \<or> rr_commit res \<noteq> le_commit current))
    in (\<not> changed \<longrightarrow> (\<forall>ls. WLeaders ls \<notin> set ws)) \<and>
       (changed \<longrightarrow> (\<exists>e. WLeaders (leaders @ [e]) \<in> set ws \<and> le_hotkey e = winner_hotkey res \<and>
          le_repo e = rr_repo res \<and> le_commit e = rr_commit res \<and> le_weight e = 1 \<and>
          (\<forall>n s. WSchedule n s \<in> set ws \<longrightarrow> effective_block e = latest_reveal_block s) \<and>
          (leaders_sorted leaders \<and> effective_block current < effective_block e \<longrightarrow>
             leaders_sorted (leaders @ [e]))))"
proof -
  from finalize_round_Some [OF assms(1)] assms(2-5) obtain config prev schedule nr st eta where
    sch: "build_next_schedule (fst (cycle_start now b config prev)) (snd (cycle_start now b config prev)) config
      (map_option latest_reveal_block prev) = Inr schedule"
    and ws: "ws = round_updates nr st
       (case find_new_leader res current (snd (cycle_start now b config prev)) of None \<Rightarrow> leaders | Some l \<Rightarrow> leaders @ [l])
       (find_new_leader res current (snd (cycle_start now b config prev)) \<noteq> None) schedule eta"
    by fastforce
  let ?block = "snd (cycle_start now b config prev)"
  have blk: "latest_reveal_block s = ?block" if "schedule = Some s" for s
    using build_next_schedule_some(2) [OF sch [unfolded that]] .
  have last: "leaders = butlast leaders @ [current]"
    using assms(5) by (auto simp: get_latest_def split: if_splits)
  have sorted: "leaders_sorted (leaders @ [e])" if "leaders_sorted leaders" "effective_block current < effective_block e" for e
    using leader_append_sorted [OF that(1), of e "leaders @ [e]"] that(2) assms(5)
    by (auto simp: leader_append_def get_latest_def split: if_splits)
  show ?thesis
    unfolding Let_def
    using ws blk sorted
    by (auto simp: round_updates_def find_new_leader_def split: option.splits if_splits)
qed

theorem leader_change_spec_witness:
  "\<exists>e. WLeaders [example_leader ''old'' 10, e] \<in> set
      [WState \<lparr>current_round = 5, stage = OPEN, next_stage_eta = Some (dt_combine 6 (8 * us_per_hour))\<rparr>,
       WSchedule 5 \<lparr>earliest_reveal_block = 1001, latest_reveal_block = 8000,
         generation_deadline_block = Some 8900, witness_storage_prefix = [], witness_save_submissions = True\<rparr>,
       WLeaders [example_leader ''old'' 10, \<lparr>le_hotkey = ''m'', le_repo = ''r'', le_commit = ''c'',
         le_docker = [], le_weight = 1, effective_block = 8000\<rparr>]] \<and> le_hotkey e = ''m''"
proof -
  have "get_latest [example_leader ''old'' 10] = Some (example_leader ''old'' 10)" by (simp add: get_latest_def)
  from leader_change_spec [OF example_cycle example_repo_reads(1,3) _ this]
  show ?thesis by (simp only: competition_state.simps example_repo_reads Let_def) (force simp: example_leader_def)
qed

end
