(* ===== verification/Submissions.thy ===== *)
theory Submissions
  imports Repo VlmChat "HOL-Library.List_Lexorder" "HOL-Library.Char_ord"
    "HOL-Library.Product_Lexorder" "HOL-Library.Multiset"
begin

text \<open>
  Reading the miners' submissions from the chain, from \<^verbatim>\<open>submission_collector/submission.py\<close> and the
  filters of \<^verbatim>\<open>submission_collector/collection_iteration.py\<close>: parsing a revealed commitment, the
  conviction lock, and the order in which submissions are stored. \<^verbatim>\<open>json.loads\<close> is the parameter
  \<open>loads\<close>; the comparison, membership and truth tests of the parsed values are written out.
\<close>

section \<open>Python values in commitments\<close>

text \<open>\<^verbatim>\<open>x < y\<close> on parsed values: \<open>None\<close> where Python raises \<^verbatim>\<open>TypeError\<close>.\<close>

fun num_of :: "json \<Rightarrow> rat option" where
  "num_of (JBool b) = Some (if b then 1 else 0)"
| "num_of (JInt i) = Some (of_int i)"
| "num_of (JFloat q) = Some q"
| "num_of _ = None"

fun json_eq :: "json \<Rightarrow> json \<Rightarrow> bool" and json_eqs :: "json list \<Rightarrow> json list \<Rightarrow> bool"
  and json_eqo :: "(string \<times> json) list \<Rightarrow> (string \<times> json) list \<Rightarrow> bool" where
  "json_eq (JStr s) v = (case v of JStr t \<Rightarrow> s = t | _ \<Rightarrow> False)"
| "json_eq (JList xs) v = (case v of JList ys \<Rightarrow> json_eqs xs ys | _ \<Rightarrow> False)"
| "json_eq JNull v = (v = JNull)"
| "json_eq (JObj kvs) v = (case v of JObj ys \<Rightarrow> length kvs = length ys \<and> json_eqo kvs ys | _ \<Rightarrow> False)"
| "json_eq (JBool b) v = (num_of v = Some (if b then 1 else 0))"
| "json_eq (JInt i) v = (num_of v = Some (of_int i))"
| "json_eq (JFloat q) v = (num_of v = Some q)"
| "json_eqs [] ys = (ys = [])"
| "json_eqs (x # xs) ys = (case ys of [] \<Rightarrow> False | y # ys' \<Rightarrow> json_eq x y \<and> json_eqs xs ys')"
| "json_eqo [] ys = True"
| "json_eqo ((k, v) # kvs) ys = (case dget ys k of None \<Rightarrow> False | Some w \<Rightarrow> json_eq v w \<and> json_eqo kvs ys)"

fun json_less :: "json \<Rightarrow> json \<Rightarrow> bool option" and json_lesss :: "json list \<Rightarrow> json list \<Rightarrow> bool option" where
  "json_less (JStr s) v = (case v of JStr t \<Rightarrow> Some (s < t) | _ \<Rightarrow> None)"
| "json_less (JList xs) v = (case v of JList ys \<Rightarrow> json_lesss xs ys | _ \<Rightarrow> None)"
| "json_less JNull v = None"
| "json_less (JObj kvs) v = None"
| "json_less (JBool b) v = map_option (\<lambda>q. (if b then 1 else 0) < q) (num_of v)"
| "json_less (JInt i) v = map_option (\<lambda>q. of_int i < q) (num_of v)"
| "json_less (JFloat p) v = map_option (\<lambda>q. p < q) (num_of v)"
| "json_lesss [] ys = Some (ys \<noteq> [])"
| "json_lesss (x # xs) ys =
     (case ys of [] \<Rightarrow> Some False
      | y # ys' \<Rightarrow> if json_eq x y then json_lesss xs ys' else json_less x y)"

definition truthy :: "json \<Rightarrow> bool" where
  "truthy v = (case v of JNull \<Rightarrow> False | JBool b \<Rightarrow> b | JInt i \<Rightarrow> i \<noteq> 0 | JFloat q \<Rightarrow> q \<noteq> 0
     | JStr s \<Rightarrow> s \<noteq> [] | JList xs \<Rightarrow> xs \<noteq> [] | JObj kvs \<Rightarrow> kvs \<noteq> [])"

text \<open>
  \<^verbatim>\<open>if key in data and data[key]\<close>: membership of a string is a substring test and of a list an
  element test, and then the subscript raises; on a number or \<^verbatim>\<open>None\<close> the membership raises.
\<close>

definition is_substring :: "string \<Rightarrow> string \<Rightarrow> bool" where
  "is_substring p s = (\<exists>k\<le>length s. take (length p) (drop k s) = p)"

definition TypeError :: exn where "TypeError = PyException ''TypeError''"

definition field_of :: "string \<Rightarrow> json \<Rightarrow> json option result" where
  "field_of key data =
     (case data of
        JObj kvs \<Rightarrow>
          (case dget kvs key of None \<Rightarrow> Inr None | Some v \<Rightarrow> Inr (if truthy v then Some v else None))
      | JStr s \<Rightarrow> if is_substring key s then Inl TypeError else Inr None
      | JList xs \<Rightarrow> if JStr key \<in> set xs then Inl TypeError else Inr None
      | _ \<Rightarrow> Inl TypeError)"

section \<open>Parsing one miner's commitments\<close>

record submission =
  sb_hotkey :: string
  sb_block :: int
  sb_repo :: string
  sb_commit :: string

type_synonym commitment = "(int \<times> string) list"

definition word_char :: "char \<Rightarrow> bool" where
  "word_char c = (c \<in> set ''ABCDEFGHIJKLMNOPQRSTUVWXYZabcdefghijklmnopqrstuvwxyz0123456789_-'')"

text \<open>The patterns of \<^verbatim>\<open>Submission\<close>, for ASCII text: owner and name around one slash; 40 hex digits.\<close>

definition repo_ok :: "string \<Rightarrow> bool" where
  "repo_ok s = (case split_on (CHR ''/'') s of
     [a, b] \<Rightarrow> a \<noteq> [] \<and> b \<noteq> [] \<and> list_all word_char a \<and> list_all word_char b | _ \<Rightarrow> False)"

definition commit_ok :: "string \<Rightarrow> bool" where
  "commit_ok s = (length s = 40 \<and> list_all (\<lambda>c. c \<in> set ''abcdef0123456789'') s)"

definition make_submission :: "string \<Rightarrow> int \<Rightarrow> json \<Rightarrow> json \<Rightarrow> submission option" where
  "make_submission hotkey block r c =
     (case (r, c) of
        (JStr rs, JStr cs) \<Rightarrow>
          if 10 \<le> length hotkey \<and> 0 \<le> block \<and> repo_ok rs \<and> commit_ok cs
          then Some \<lparr>sb_hotkey = hotkey, sb_block = block, sb_repo = rs, sb_commit = cs\<rparr> else None
      | _ \<Rightarrow> None)"

definition requote :: "string \<Rightarrow> string" where
  "requote s = map (\<lambda>c. if c = CHR 0x27 then CHR 0x22 else c) s"

text \<open>
  The loop over the commitments of the window: texts that are no JSON are skipped; the fields found
  are collected with their blocks.
\<close>

fun collect_fields :: "(string \<Rightarrow> json option) \<Rightarrow> commitment \<Rightarrow>
    (int \<times> json) list \<Rightarrow> (int \<times> json) list \<Rightarrow> ((int \<times> json) list \<times> (int \<times> json) list) result" where
  "collect_fields loads [] rs cs = Inr (rs, cs)"
| "collect_fields loads ((block, text) # rest) rs cs =
     (case loads (requote text) of
        None \<Rightarrow> collect_fields loads rest rs cs
      | Some data \<Rightarrow>
          (case field_of ''repo'' data of
             Inl e \<Rightarrow> Inl e
           | Inr r \<Rightarrow>
               (let rs' = rs @ (case r of None \<Rightarrow> [] | Some v \<Rightarrow> [(block, v)])
                in case field_of ''commit'' data of
                     Inl e \<Rightarrow> Inl e
                   | Inr c \<Rightarrow>
                       collect_fields loads rest rs'
                         (cs @ (case c of None \<Rightarrow> [] | Some v \<Rightarrow> [(block, v)])))))"

text \<open>\<^verbatim>\<open>max\<close> of pairs: by block, then by value; the first of equals stays.\<close>

definition pair_less :: "int \<times> json \<Rightarrow> int \<times> json \<Rightarrow> bool option" where
  "pair_less p q = (if fst p \<noteq> fst q then Some (fst p < fst q)
     else if json_eq (snd p) (snd q) then Some False else json_less (snd p) (snd q))"

fun max_pair :: "int \<times> json \<Rightarrow> (int \<times> json) list \<Rightarrow> (int \<times> json) result" where
  "max_pair best [] = Inr best"
| "max_pair best (p # ps) =
     (case pair_less best p of None \<Rightarrow> Inl TypeError
      | Some True \<Rightarrow> max_pair p ps | Some False \<Rightarrow> max_pair best ps)"

definition parse_commitment :: "(string \<Rightarrow> json option) \<Rightarrow> string \<Rightarrow> commitment \<Rightarrow> int \<Rightarrow> int \<Rightarrow>
    submission option result" where
  "parse_commitment loads hotkey commitment earliest latest =
     (let valid = filter (\<lambda>(block, _). earliest \<le> block \<and> block \<le> latest) commitment
      in if valid = [] then Inr None
         else
           (case collect_fields loads valid [] [] of
              Inl e \<Rightarrow> Inl e
            | Inr (r # rs, c # cs) \<Rightarrow>
                rbind (max_pair r rs) (\<lambda>(_, repo).
                rbind (max_pair c cs) (\<lambda>(block, commit).
                  Inr (make_submission hotkey block repo commit)))
            | Inr _ \<Rightarrow> Inr None))"

definition read_submissions :: "(string \<Rightarrow> json option) \<Rightarrow> (string, commitment) dict \<Rightarrow> round_schedule \<Rightarrow>
    submission list result" where
  "read_submissions loads commitments schedule =
     rmap (\<lambda>subs. sort_key sb_block (List.map_filter id subs))
       (rmapM (\<lambda>(hotkey, commitment). parse_commitment loads hotkey commitment
                 (earliest_reveal_block schedule) (latest_reveal_block schedule)) commitments)"

section \<open>The conviction lock\<close>

fun group_by_coldkey :: "(string \<Rightarrow> string option) \<Rightarrow> submission list \<Rightarrow> (string, submission list) dict \<Rightarrow>
    (string, submission list) dict" where
  "group_by_coldkey owner [] groups = groups"
| "group_by_coldkey owner (s # ss) groups =
     (case owner (sb_hotkey s) of
        None \<Rightarrow> group_by_coldkey owner ss groups
      | Some coldkey \<Rightarrow>
          group_by_coldkey owner ss (dset coldkey (dget_default groups coldkey [] @ [s]) groups))"

fun keep_locked :: "(string \<Rightarrow> pyfloat result) \<Rightarrow> pyfloat \<Rightarrow> (string, submission list) dict \<Rightarrow>
    submission list result" where
  "keep_locked locked required [] = Inr []"
| "keep_locked locked required ((coldkey, subs) # rest) =
     rbind (locked coldkey) (\<lambda>amount.
     rbind (keep_locked locked required rest) (\<lambda>kept.
       Inr (if amount < fmul required (of_nat (length subs)) then kept else subs @ kept)))"

definition filter_by_conviction_lock :: "submission list \<Rightarrow> (string, string) dict result \<Rightarrow>
    (string \<Rightarrow> pyfloat result) \<Rightarrow> pyfloat \<Rightarrow> submission list result" where
  "filter_by_conviction_lock subs owners locked required =
     rbind owners (\<lambda>ow.
     rmap (sort_key sb_block) (keep_locked locked required (group_by_coldkey (dget ow) subs [])))"

section \<open>The stored order\<close>

definition stored_submission :: "(string \<Rightarrow> string) \<Rightarrow> string \<Rightarrow> int \<Rightarrow> int \<Rightarrow> submission \<Rightarrow> miner_submission" where
  "stored_submission hash name round_num seed s =
     \<lparr>ms_repo = sb_repo s, ms_commit = sb_commit s, revealed_at_block = sb_block s,
      tie_breaker = hash (show_int seed @ '':'' @ sb_hotkey s),
      ms_round = name @ ''-'' @ show_int round_num\<rparr>"

definition serialize_submissions :: "(string \<Rightarrow> string) \<Rightarrow> submission list \<Rightarrow> string \<Rightarrow> int \<Rightarrow> int \<Rightarrow>
    (string, miner_submission) dict" where
  "serialize_submissions hash subs name round_num seed =
     (let data = dset_all (map (\<lambda>s. (sb_hotkey s, stored_submission hash name round_num seed s)) subs) []
      in sort_key (\<lambda>(_, m). (revealed_at_block m, tie_breaker m)) data)"

section \<open>Lemmas on grouping\<close>

text \<open>The submissions of one coldkey, in order.\<close>

definition of_coldkey :: "(string \<Rightarrow> string option) \<Rightarrow> string \<Rightarrow> submission list \<Rightarrow> submission list" where
  "of_coldkey owner k subs = filter (\<lambda>s. owner (sb_hotkey s) = Some k) subs"

lemma group_by_coldkey_get:
  "dget_default (group_by_coldkey owner subs groups) k [] = dget_default groups k [] @ of_coldkey owner k subs"
proof (induction owner subs groups rule: group_by_coldkey.induct)
  case (2 owner s ss groups)
  show ?case
  proof (cases "owner (sb_hotkey s)")
    case None
    with 2 show ?thesis by (simp add: of_coldkey_def)
  next
    case (Some c)
    with 2 show ?thesis by (auto simp: of_coldkey_def dget_default_def)
  qed
qed (simp add: of_coldkey_def)

lemma group_by_coldkey_ok: "dict_ok groups \<Longrightarrow> dict_ok (group_by_coldkey owner subs groups)"
  by (induction owner subs groups rule: group_by_coldkey.induct) (auto split: option.split)

lemma group_by_coldkey_entry:
  "(k, g) \<in> set (group_by_coldkey owner subs []) \<Longrightarrow> g = of_coldkey owner k subs"
  using group_by_coldkey_get [of owner subs "[]" k] dget_of_mem [OF group_by_coldkey_ok [of "[]" owner subs], of k g]
  by (simp add: dget_default_def)

lemma group_by_coldkey_key:
  assumes "s \<in> set subs" "owner (sb_hotkey s) = Some k"
  shows "k \<in> set (dkeys (group_by_coldkey owner subs []))"
proof (rule ccontr)
  assume "k \<notin> set (dkeys (group_by_coldkey owner subs []))"
  then have "dget (group_by_coldkey owner subs []) k = None" by (simp add: map_of_eq_None_iff)
  then have "of_coldkey owner k subs = []"
    using group_by_coldkey_get [of owner subs "[]" k] by (simp add: dget_default_def)
  with assms show False by (auto simp: of_coldkey_def filter_empty_conv)
qed

definition lock_ok :: "(string \<Rightarrow> pyfloat result) \<Rightarrow> pyfloat \<Rightarrow> string \<Rightarrow> submission list \<Rightarrow> bool" where
  "lock_ok locked required k g =
     (case locked k of Inl _ \<Rightarrow> False | Inr a \<Rightarrow> \<not> a < fmul required (of_nat (length g)))"

lemma keep_locked_spec:
  "keep_locked locked required gs = Inr kept \<Longrightarrow>
     kept = concat (map snd (filter (\<lambda>(k, g). lock_ok locked required k g) gs))"
  by (induction locked required gs arbitrary: kept rule: keep_locked.induct)
    (auto simp: rbind_eq_Inr lock_ok_def)

lemma count_of_coldkey:
  "count (mset (of_coldkey owner k subs)) s = (if owner (sb_hotkey s) = Some k then count (mset subs) s else 0)"
  by (simp add: of_coldkey_def)

lemma count_kept:
  assumes "dict_ok gs" "\<forall>(k, g)\<in>set gs. g = of_coldkey owner k subs"
  shows "count (mset (concat (map snd (filter (\<lambda>(k, g). ok k g) gs)))) s =
    (case owner (sb_hotkey s) of None \<Rightarrow> 0
     | Some k \<Rightarrow> if k \<in> set (dkeys gs) \<and> ok k (of_coldkey owner k subs) then count (mset subs) s else 0)"
  using assms
proof (induction gs)
  case (Cons p gs)
  obtain k g where p: "p = (k, g)" by force
  with Cons.prems have g: "g = of_coldkey owner k subs" and k: "k \<notin> set (dkeys gs)"
    and gs: "dict_ok gs" "\<forall>(k, g)\<in>set gs. g = of_coldkey owner k subs" by auto
  show ?case
    using Cons.IH [OF gs] k unfolding p
    by (auto simp: g count_of_coldkey split: option.splits)
qed (simp split: option.split)

lemma conviction_lock_mset:
  assumes "filter_by_conviction_lock subs (Inr owners) locked required = Inr kept"
  shows "mset kept = mset (filter (\<lambda>s. case dget owners (sb_hotkey s) of None \<Rightarrow> False
    | Some k \<Rightarrow> lock_ok locked required k (of_coldkey (dget owners) k subs)) subs)"
proof -
  let ?gs = "group_by_coldkey (dget owners) subs []"
  from assms obtain raw where raw: "keep_locked locked required ?gs = Inr raw" and kept: "kept = sort_key sb_block raw"
    by (auto simp: filter_by_conviction_lock_def rmap_eq_Inr)
  have ok: "dict_ok ?gs" by (rule group_by_coldkey_ok) simp
  have ent: "\<forall>(k, g)\<in>set ?gs. g = of_coldkey (dget owners) k subs"
    using group_by_coldkey_entry by blast
  show ?thesis
  proof (rule multiset_eqI)
    fix s
    have c: "count (mset kept) s = (case dget owners (sb_hotkey s) of None \<Rightarrow> 0
     | Some k \<Rightarrow> if k \<in> set (dkeys ?gs) \<and> lock_ok locked required k (of_coldkey (dget owners) k subs)
              then count (mset subs) s else 0)"
      unfolding kept mset_sort keep_locked_spec [OF raw] by (rule count_kept [OF ok ent])
    show "count (mset kept) s = count (mset (filter (\<lambda>s. case dget owners (sb_hotkey s) of None \<Rightarrow> False
    | Some k \<Rightarrow> lock_ok locked required k (of_coldkey (dget owners) k subs)) subs)) s"
    proof (cases "s \<in> set subs")
      case True
      then show ?thesis unfolding c using group_by_coldkey_key [OF True]
        by (auto simp del: set_map split: option.split)
    next
      case False
      then have "count (mset subs) s = 0" by (simp add: count_eq_zero_iff)
      then show ?thesis unfolding c by (auto split: option.split)
    qed
  qed
qed

section \<open>Lemmas on parsing\<close>

lemma max_pair_mem: "max_pair b ps = Inr x \<Longrightarrow> x \<in> set (b # ps)"
  by (induction b ps rule: max_pair.induct) (auto split: option.splits bool.splits)

lemma max_pair_block: "max_pair b ps = Inr x \<Longrightarrow> p \<in> set (b # ps) \<Longrightarrow> fst p \<le> fst x"
proof (induction b ps arbitrary: p rule: max_pair.induct)
  case (2 b q ps)
  consider "pair_less b q = Some True" | "pair_less b q = Some False" | "pair_less b q = None"
    by (cases "pair_less b q") auto
  then show ?case
  proof cases
    case 1
    then have bq: "fst b \<le> fst q" by (auto simp: pair_less_def split: if_splits)
    from 1 "2.prems" have m: "max_pair q ps = Inr x" by simp
    from "2.IH"(1) [OF 1 refl m] have "fst q \<le> fst x" "\<And>p. p \<in> set ps \<Longrightarrow> fst p \<le> fst x" by auto
    with bq "2.prems"(2) show ?thesis by (cases p) auto
  next
    case 2
    then have bq: "fst q \<le> fst b" by (auto simp: pair_less_def split: if_splits)
    from 2 "2.prems" have m: "max_pair b ps = Inr x" by simp
    from "2.IH"(2) [OF 2 _ m] have "fst b \<le> fst x" "\<And>p. p \<in> set ps \<Longrightarrow> fst p \<le> fst x" by auto
    with bq "2.prems"(2) show ?thesis by (cases p) auto
  next
    case 3
    with "2.prems" show ?thesis by simp
  qed
qed simp

lemma collect_fields_mem:
  "collect_fields loads vs rs cs = Inr (rs', cs') \<Longrightarrow>
     (\<forall>p\<in>set rs'. p \<in> set rs \<or> (\<exists>t data. (fst p, t) \<in> set vs \<and> loads (requote t) = Some data \<and>
        field_of ''repo'' data = Inr (Some (snd p)))) \<and>
     (\<forall>p\<in>set cs'. p \<in> set cs \<or> (\<exists>t data. (fst p, t) \<in> set vs \<and> loads (requote t) = Some data \<and>
        field_of ''commit'' data = Inr (Some (snd p))))"
proof (induction loads vs rs cs arbitrary: rs' cs' rule: collect_fields.induct)
  case (2 loads block body rest rs cs)
  show ?case
  proof (cases "loads (requote body)")
    case None
    with "2.prems" have "collect_fields loads rest rs cs = Inr (rs', cs')" by simp
    from "2.IH"(1) [OF None this] show ?thesis by force
  next
    case (Some data)
    from "2.prems" Some obtain r c where r: "field_of ''repo'' data = Inr r"
      and c: "field_of ''commit'' data = Inr c"
      and rec: "collect_fields loads rest (rs @ (case r of None \<Rightarrow> [] | Some v \<Rightarrow> [(block, v)]))
         (cs @ (case c of None \<Rightarrow> [] | Some v \<Rightarrow> [(block, v)])) = Inr (rs', cs')"
      by (auto simp: Let_def split: sum.splits)
    from "2.IH"(2) [OF Some r refl c rec] show ?thesis
      using Some r c by (cases r; cases c) fastforce+
  qed
qed simp

lemma collect_fields_keeps:
  "collect_fields loads vs rs cs = Inr (rs', cs') \<Longrightarrow> set rs \<subseteq> set rs' \<and> set cs \<subseteq> set cs'"
proof (induction loads vs rs cs arbitrary: rs' cs' rule: collect_fields.induct)
  case (2 loads block body rest rs cs)
  show ?case
  proof (cases "loads (requote body)")
    case None
    with "2.prems" have "collect_fields loads rest rs cs = Inr (rs', cs')" by simp
    from "2.IH"(1) [OF None this] show ?thesis .
  next
    case (Some data)
    from "2.prems" Some obtain r c where r: "field_of ''repo'' data = Inr r"
      and c: "field_of ''commit'' data = Inr c"
      and rec: "collect_fields loads rest (rs @ (case r of None \<Rightarrow> [] | Some v \<Rightarrow> [(block, v)]))
         (cs @ (case c of None \<Rightarrow> [] | Some v \<Rightarrow> [(block, v)])) = Inr (rs', cs')"
      by (auto simp: Let_def split: sum.splits)
    from "2.IH"(2) [OF Some r refl c rec] show ?thesis by auto
  qed
qed simp

lemma collect_fields_all:
  "collect_fields loads vs rs cs = Inr (rs', cs') \<Longrightarrow> (b, t) \<in> set vs \<Longrightarrow> loads (requote t) = Some data \<Longrightarrow>
     (\<forall>v. field_of ''repo'' data = Inr (Some v) \<longrightarrow> (b, v) \<in> set rs') \<and>
     (\<forall>v. field_of ''commit'' data = Inr (Some v) \<longrightarrow> (b, v) \<in> set cs')"
proof (induction loads vs rs cs arbitrary: rs' cs' rule: collect_fields.induct)
  case (2 loads block body rest rs cs)
  show ?case
  proof (cases "loads (requote body)")
    case None
    with 2 show ?thesis by auto
  next
    case (Some d)
    from "2.prems"(1) Some obtain r c where r: "field_of ''repo'' d = Inr r"
      and c: "field_of ''commit'' d = Inr c"
      and rec: "collect_fields loads rest (rs @ (case r of None \<Rightarrow> [] | Some v \<Rightarrow> [(block, v)]))
         (cs @ (case c of None \<Rightarrow> [] | Some v \<Rightarrow> [(block, v)])) = Inr (rs', cs')"
      by (auto simp: Let_def split: sum.splits)
    show ?thesis
    proof (cases "(b, t) \<in> set rest")
      case True
      from "2.IH"(2) [OF Some r refl c rec True "2.prems"(3)] show ?thesis .
    next
      case False
      with "2.prems"(2) have "b = block" "t = body" by auto
      with "2.prems"(3) Some r c collect_fields_keeps [OF rec] show ?thesis by auto
    qed
  qed
qed simp

lemma collect_fields_number:
  "(b, t) \<in> set vs \<Longrightarrow> loads (requote t) = Some (JInt i) \<Longrightarrow> \<exists>e. collect_fields loads vs rs cs = Inl e"
proof (induction loads vs rs cs rule: collect_fields.induct)
  case (2 loads block body rest rs cs)
  show ?case
  proof (cases "(b, t) = (block, body)")
    case True
    with "2.prems" show ?thesis by (simp add: field_of_def)
  next
    case False
    then have m: "(b, t) \<in> set rest" using "2.prems"(1) by auto
    show ?thesis
    proof (cases "loads (requote body)")
      case None
      from "2.IH"(1) [OF None m "2.prems"(2)] None show ?thesis by simp
    next
      case (Some d)
      show ?thesis
      proof (cases "field_of ''repo'' d")
        case (Inl e)
        with Some show ?thesis by simp
      next
        case r: (Inr r)
        show ?thesis
        proof (cases "field_of ''commit'' d")
          case (Inl e)
          with Some r show ?thesis by simp
        next
          case c: (Inr c)
          from "2.IH"(2) [OF Some r refl c m "2.prems"(2)] Some r c show ?thesis by (simp add: Let_def)
        qed
      qed
    qed
  qed
qed simp

lemma rmapM_error: "x \<in> set xs \<Longrightarrow> \<exists>e. f x = Inl e \<Longrightarrow> \<exists>e. rmapM f xs = Inl e"
  by (induction xs) (auto split: sum.split)

section \<open>Properties of the submissions\<close>

text \<open>A reader of the examples' commitments: one text per shape.\<close>

definition example_loads :: "string \<Rightarrow> json option" where
  "example_loads t =
     (if t = ''five'' then Some (JInt 5)
      else if t = ''both'' then Some (JObj [(''repo'', JStr ''o/r''),
         (''commit'', JStr (replicate 40 (CHR ''a'')))])
      else None)"

text \<open>
  A parsed submission is what the miner revealed inside the window: its block is in the window,
  its commit is the one revealed at that block and no later commit was revealed in the window, its
  repository was revealed in the window, and both have the required form.
\<close>

theorem parse_commitment_sound:
  assumes "parse_commitment loads hotkey commitment earliest latest = Inr (Some s)"
  shows "sb_hotkey s = hotkey \<and> earliest \<le> sb_block s \<and> sb_block s \<le> latest \<and>
    repo_ok (sb_repo s) \<and> commit_ok (sb_commit s) \<and>
    (\<exists>t data. (sb_block s, t) \<in> set commitment \<and> loads (requote t) = Some data \<and>
       field_of ''commit'' data = Inr (Some (JStr (sb_commit s)))) \<and>
    (\<exists>b t data. (b, t) \<in> set commitment \<and> earliest \<le> b \<and> b \<le> latest \<and> loads (requote t) = Some data \<and>
       field_of ''repo'' data = Inr (Some (JStr (sb_repo s)))) \<and>
    (\<forall>b t data v. (b, t) \<in> set commitment \<longrightarrow> earliest \<le> b \<longrightarrow> b \<le> latest \<longrightarrow>
       loads (requote t) = Some data \<longrightarrow> field_of ''commit'' data = Inr (Some v) \<longrightarrow> b \<le> sb_block s)"
proof -
  let ?vs = "filter (\<lambda>(block, _). earliest \<le> block \<and> block \<le> latest) commitment"
  from assms obtain r rs c cs rb repo cb commit where
    f: "collect_fields loads ?vs [] [] = Inr (r # rs, c # cs)"
    and mr: "max_pair r rs = Inr (rb, repo)" and mc: "max_pair c cs = Inr (cb, commit)"
    and mk: "make_submission hotkey cb repo commit = Some s"
    by (auto simp: parse_commitment_def Let_def rbind_eq_Inr split: if_splits sum.splits list.splits)
  from mk have s: "sb_hotkey s = hotkey" "sb_block s = cb" "repo = JStr (sb_repo s)" "commit = JStr (sb_commit s)"
    "repo_ok (sb_repo s)" "commit_ok (sb_commit s)"
    by (auto simp: make_submission_def split: json.splits if_splits)
  note mem = collect_fields_mem [OF f]
  from mem max_pair_mem [OF mc] obtain t data where c: "(cb, t) \<in> set ?vs" "loads (requote t) = Some data"
    "field_of ''commit'' data = Inr (Some commit)" by fastforce
  from mem max_pair_mem [OF mr] obtain t' data' where r: "(rb, t') \<in> set ?vs" "loads (requote t') = Some data'"
    "field_of ''repo'' data' = Inr (Some repo)" by fastforce
  have latest: "b \<le> cb" if "(b, t) \<in> set commitment" "earliest \<le> b" "b \<le> latest" "loads (requote t) = Some data"
    "field_of ''commit'' data = Inr (Some v)" for b t data v
  proof -
    have "(b, t) \<in> set ?vs" using that by simp
    from collect_fields_all [OF f this that(4)] that(5) have "(b, v) \<in> set (c # cs)" by blast
    from max_pair_block [OF mc this] show ?thesis by simp
  qed
  show ?thesis using c r latest s by (auto simp del: filter_set)
qed

theorem parse_commitment_sound_witness:
  "\<exists>s. parse_commitment example_loads ''5Hotkey-example'' [(7, ''both''), (9, ''junk'')] 5 10 = Inr (Some s) \<and>
     sb_block s = 7"
proof -
  have "parse_commitment example_loads ''5Hotkey-example'' [(7, ''both''), (9, ''junk'')] 5 10 =
    Inr (Some \<lparr>sb_hotkey = ''5Hotkey-example'', sb_block = 7, sb_repo = ''o/r'', sb_commit = replicate 40 (CHR ''a'')\<rparr>)"
    by code_simp
  with parse_commitment_sound [OF this] show ?thesis by auto
qed

text \<open>
  The conviction lock keeps exactly the submissions whose owner locked enough for all of its
  submitting hotkeys: nothing is added, duplicated or reordered beyond the order of reveal blocks, a
  hotkey without an owner is dropped, and either all or none of a coldkey's submissions stay.
\<close>

theorem conviction_lock_spec:
  assumes "filter_by_conviction_lock subs (Inr owners) locked required = Inr kept"
  shows "sorted (map sb_block kept) \<and>
    mset kept = mset (filter (\<lambda>s. case dget owners (sb_hotkey s) of None \<Rightarrow> False
      | Some k \<Rightarrow> (case locked k of Inl _ \<Rightarrow> False
          | Inr a \<Rightarrow> fmul required (of_nat (length (filter (\<lambda>t. dget owners (sb_hotkey t) = Some k) subs))) \<le> a)) subs)"
  using conviction_lock_mset [OF assms] assms
  by (auto simp: lock_ok_def of_coldkey_def not_less filter_by_conviction_lock_def rmap_eq_Inr
      cong: filter_cong option.case_cong sum.case_cong)

definition example_sub :: "string \<Rightarrow> int \<Rightarrow> submission" where
  "example_sub h b = \<lparr>sb_hotkey = h, sb_block = b, sb_repo = ''o/r'', sb_commit = []\<rparr>"

text \<open>Coldkey x owns a and b, y owns c, nobody owns d; x locked 150 and y 120; 100 are required.\<close>

theorem conviction_lock_spec_witness:
  "mset [example_sub ''c'' 3] = mset (filter (\<lambda>s. sb_hotkey s = ''c'')
     [example_sub ''a'' 5, example_sub ''b'' 4, example_sub ''c'' 3, example_sub ''d'' 2])"
proof -
  let ?subs = "[example_sub ''a'' 5, example_sub ''b'' 4, example_sub ''c'' 3, example_sub ''d'' 2]"
  let ?owners = "[(''a'', ''x''), (''b'', ''x''), (''c'', ''y'')]"
  let ?locked = "\<lambda>k. Inr (if k = ''x'' then 150 else 120) :: pyfloat result"
  have k: "filter_by_conviction_lock ?subs (Inr ?owners) ?locked 100 = Inr [example_sub ''c'' 3]" by code_simp
  have f: "fmul 100 (of_nat 2) = 200" "fmul 100 (of_nat 1) = 100" by code_simp+
  from conviction_lock_spec [OF k] f show ?thesis by (simp add: example_sub_def numeral_2_eq_2)
qed

text \<open>
  One miner can stop the collection for everybody: a single revealed commitment of the window
  whose text parses to a JSON number makes the reading of all submissions raise, since the membership
  test on it raises a TypeError, which the handler around the parsing does not catch.
\<close>

theorem numeric_commitment_stops_collection:
  assumes "(hotkey, commitment) \<in> set commitments" "(b, t) \<in> set commitment"
    and "earliest_reveal_block schedule \<le> b" "b \<le> latest_reveal_block schedule"
    and "loads (requote t) = Some (JInt i)"
  shows "\<not> is_ok (read_submissions loads commitments schedule)"
proof -
  let ?e = "earliest_reveal_block schedule" and ?l = "latest_reveal_block schedule"
  have m: "(b, t) \<in> set (filter (\<lambda>(block, _). ?e \<le> block \<and> block \<le> ?l) commitment)"
    using assms(2-4) by simp
  then have "filter (\<lambda>(block, _). ?e \<le> block \<and> block \<le> ?l) commitment \<noteq> []"
    by (metis empty_iff empty_set)
  with collect_fields_number [where loads = loads and rs = "[]" and cs = "[]", OF m assms(5)]
  have "\<exists>e. parse_commitment loads hotkey commitment ?e ?l = Inl e"
    by (auto simp: parse_commitment_def Let_def)
  then have "\<exists>e. (\<lambda>(hotkey, commitment). parse_commitment loads hotkey commitment ?e ?l) (hotkey, commitment) = Inl e"
    by simp
  from rmapM_error [where f = "\<lambda>(hotkey, commitment). parse_commitment loads hotkey commitment ?e ?l",
      OF assms(1) this]
  show ?thesis by (auto simp: read_submissions_def)
qed

theorem numeric_commitment_stops_collection_witness:
  "\<not> is_ok (read_submissions example_loads [(''5Hotkey-example'', [(7, ''both'')]), (''5Hotkey-hostile'', [(8, ''five'')])]
      \<lparr>earliest_reveal_block = 5, latest_reveal_block = 10, generation_deadline_block = None,
       witness_storage_prefix = [], witness_save_submissions = True\<rparr>)"
  by (rule numeric_commitment_stops_collection [of "''5Hotkey-hostile''" "[(8, ''five'')]" _ 8 "''five''" _ _ 5])
    (simp_all add: example_loads_def requote_def)

lemma sorted_pair_key:
  "sorted (map (\<lambda>(_, m). (revealed_at_block m, tie_breaker m)) (sort_key (\<lambda>(_, m). (revealed_at_block m, tie_breaker m)) d))"
  by (rule sorted_sort_key)

text \<open>
  The stored submissions determine the playing order from the chain and the seed alone: they are
  in order of the reveal block and, within a block, of the seed-based tie breaker, and hold every
  kept hotkey once with its own repository, commit and block.
\<close>

theorem serialize_submissions_spec:
  assumes "distinct (map sb_hotkey subs)"
  shows "let d = serialize_submissions hash subs name n seed
    in sorted (map (\<lambda>(_, m). (revealed_at_block m, tie_breaker m)) d) \<and>
       mset d = mset (map (\<lambda>s. (sb_hotkey s, stored_submission hash name n seed s)) subs)"
proof -
  have app: "distinct (map fst d @ map sb_hotkey subs) \<Longrightarrow>
      dset_all (map (\<lambda>s. (sb_hotkey s, stored_submission hash name n seed s)) subs) d =
        d @ map (\<lambda>s. (sb_hotkey s, stored_submission hash name n seed s)) subs" for d
  proof (induction subs arbitrary: d)
    case (Cons s subs)
    have "AList.update (sb_hotkey s) x d = d @ [(sb_hotkey s, x)]" for x :: miner_submission
      using Cons.prems by (induction d) auto
    with Cons show ?case by simp
  qed simp
  from app [of "[]"] assms have "dset_all (map (\<lambda>s. (sb_hotkey s, stored_submission hash name n seed s)) subs) [] =
      map (\<lambda>s. (sb_hotkey s, stored_submission hash name n seed s)) subs" by simp
  then show ?thesis
    unfolding serialize_submissions_def Let_def by (simp only: mset_sort sorted_pair_key)
qed

theorem serialize_submissions_spec_witness:
  "sorted (map (\<lambda>(_, m). (revealed_at_block m, tie_breaker m))
     (serialize_submissions rev [example_sub ''a'' 5, example_sub ''c'' 3, example_sub ''b'' 5] ''cup'' 2 9))"
  using serialize_submissions_spec [of "[example_sub ''a'' 5, example_sub ''c'' 3, example_sub ''b'' 5]" rev "''cup''" 2 9]
  by (simp add: Let_def example_sub_def)

end
