(* ===== verification/Collector.thy ===== *)
theory Collector
  imports Submissions MatchExecution
begin

text \<open>
  The submission collector, from \<^verbatim>\<open>submission_collector\<close>: selecting a round's prompts, collecting
  the result index of every miner, and the iteration that moves the competition from its open
  stage to the duels. The chain, the clock, the random numbers, the CDN and the commit to GitHub are
  the fields of \<open>collector_env\<close>; the repository it reads and commits to is the state.
\<close>

definition SECONDS_PER_BLOCK :: int where "SECONDS_PER_BLOCK = 12"

section \<open>Prompts\<close>

text \<open>
  \<^verbatim>\<open>_sample_up_to\<close>; \<open>sample\<close> is \<^verbatim>\<open>random.Random(seed).sample\<close> for the first or the second call, which
  raises for a negative size.
\<close>

definition sample_up_to :: "(string list \<Rightarrow> nat \<Rightarrow> string list) \<Rightarrow> string list \<Rightarrow> int \<Rightarrow> string list result" where
  "sample_up_to sample items k =
     (if int (length items) \<le> k then Inr items
      else if k < 0 then Inl (ValueError ''Sample larger than population or is negative'')
      else Inr (sample items (nat k)))"

definition select_prompts :: "(int \<Rightarrow> nat \<Rightarrow> string list \<Rightarrow> nat \<Rightarrow> string list) \<Rightarrow> repo \<Rightarrow> int \<Rightarrow>
    competition_config \<Rightarrow> int \<Rightarrow> string list result" where
  "select_prompts sample r round_num config seed =
     rbind (require_round_prompts r None) (\<lambda>all_prompts.
     rbind (if 0 < round_num \<and> 0 < carryover_prompts config
            then require_round_prompts r (Some (round_num - 1)) else Inr []) (\<lambda>previous.
     rbind (if 0 < carryover_prompts config
            then sample_up_to (sample seed 0) previous (carryover_prompts config) else Inr []) (\<lambda>carryover.
       (let pool = filter (\<lambda>p. p \<notin> set carryover) all_prompts;
            new_count = prompts_per_round config - int (length carryover);
            call = (if 0 < carryover_prompts config \<and> carryover_prompts config < int (length previous) then 1 else 0)
        in rmap (\<lambda>new. carryover @ new) (sample_up_to (sample seed call) pool new_count)))))"

section \<open>Result indexes\<close>

text \<open>
  One HTTP answer for an index: a response with a status and (parsed) body, or a transport error.
  The body's validation may fail.
\<close>

datatype index_answer = Response int "generations_map option" | TransportError

text \<open>
  \<^verbatim>\<open>_fetch_index\<close> with tenacity's five attempts: HTTP and transport errors are retried, a validation
  error is not, and after the last attempt the retry error is raised.
\<close>

fun fetch_index :: "(nat \<Rightarrow> index_answer) \<Rightarrow> nat \<Rightarrow> nat \<Rightarrow> generations_map result" where
  "fetch_index answer attempt 0 = Inl (PyException ''RetryError'')"
| "fetch_index answer attempt (Suc n) =
     (case answer attempt of
        TransportError \<Rightarrow> fetch_index answer (Suc attempt) n
      | Response status body \<Rightarrow>
          if status = 404 then Inr []
          else if 400 \<le> status \<or> status < 200 \<or> 300 \<le> status then fetch_index answer (Suc attempt) n
          else (case body of None \<Rightarrow> Inl (ValidationError ''generations'') | Some g \<Rightarrow> Inr g))"

definition with_cdn :: "string \<Rightarrow> generation_result \<Rightarrow> generation_result" where
  "with_cdn cdn g = g\<lparr>gen_js := map_option (\<lambda>j. cdn @ ''/'' @ j) (gen_js g),
                      gen_views := map_option (\<lambda>v. cdn @ ''/'' @ v) (gen_views g)\<rparr>"

definition not_submitted :: generation_result where
  "not_submitted = empty_generation\<lparr>gen_failure_reason := Some ''not_submitted''\<rparr>"

text \<open>
  The loop over the prompts. A result of the index is one object shared by the index and the
  collected map, so a prompt listed twice prefixes its URLs twice, in both places.
\<close>

fun collect_prompts :: "string \<Rightarrow> string list \<Rightarrow> generations_map \<Rightarrow> generations_map \<Rightarrow> generations_map" where
  "collect_prompts cdn [] saved gens = gens"
| "collect_prompts cdn (p # ps) saved gens =
     (case dget saved p of
        None \<Rightarrow> collect_prompts cdn ps saved (dset p not_submitted gens)
      | Some g \<Rightarrow> collect_prompts cdn ps (dset p (with_cdn cdn g) saved) (dset p (with_cdn cdn g) gens))"

definition index_key :: "string \<Rightarrow> miner_submission \<Rightarrow> string \<Rightarrow> string" where
  "index_key sprefix sub hotkey =
     sprefix @ ''rounds/'' @ ms_round sub @ ''/'' @ hotkey @ ''/submitted.json''"

definition collect_miner :: "(string \<Rightarrow> nat \<Rightarrow> index_answer) \<Rightarrow> string \<Rightarrow> string \<Rightarrow> string list \<Rightarrow> string \<Rightarrow>
    miner_submission \<Rightarrow> generations_map result" where
  "collect_miner cdn_get cdn sprefix prompts hotkey sub =
     rmap (\<lambda>saved. collect_prompts cdn prompts saved [])
       (fetch_index (cdn_get (index_key sprefix sub hotkey)) 0 5)"

section \<open>The iteration\<close>

record collector_env =
  ce_block :: "nat \<Rightarrow> int result"
  ce_commitments :: "nat \<Rightarrow> (string, commitment) dict result"
  ce_owners :: "nat \<Rightarrow> (string, string) dict result"
  ce_locked :: "string \<Rightarrow> pyfloat result"
  ce_now :: "nat \<Rightarrow> datetime"
  ce_seed :: int
  ce_sample :: "int \<Rightarrow> nat \<Rightarrow> string list \<Rightarrow> nat \<Rightarrow> string list"
  ce_hash :: "string \<Rightarrow> string"
  ce_loads :: "string \<Rightarrow> json option"
  ce_cdn :: "string \<Rightarrow> nat \<Rightarrow> index_answer"
  ce_url_path :: "string \<Rightarrow> string"
  ce_commit :: "nat \<Rightarrow> unit result"
  ce_due :: "nat \<Rightarrow> bool"
  ce_order :: "(string, miner_submission) dict \<Rightarrow> (string, miner_submission) dict"
  ce_cdn_url :: string
  ce_required_lock :: pyfloat

text \<open>
  \<open>cl_clock\<close> counts what the iteration asks of the world, so a question or a commit is dated by its
  number; \<open>cl_commits\<close> are the commits made, each with its date and its documents.
\<close>

record collector =
  cl_repo :: repo
  cl_clock :: nat
  cl_commits :: "(nat \<times> doc_write list) list"

definition c_tick :: "(collector, nat) action" where
  "c_tick s = (Inr (cl_clock s), s\<lparr>cl_clock := Suc (cl_clock s)\<rparr>)"

definition c_read :: "(nat \<Rightarrow> 'a result) \<Rightarrow> (collector, 'a) action" where
  "c_read f = act_bind c_tick (\<lambda>t. act_lift (f t))"

text \<open>\<^verbatim>\<open>git.commit_files\<close>: all files in one commit, or an error and nothing.\<close>

definition record_commit :: "nat \<Rightarrow> doc_write list \<Rightarrow> collector \<Rightarrow> collector" where
  "record_commit t ws s = s\<lparr>cl_repo := commit ws (cl_repo s), cl_commits := cl_commits s @ [(t, ws)]\<rparr>"

definition commit_files :: "collector_env \<Rightarrow> doc_write list \<Rightarrow> (collector, unit) action" where
  "commit_files env ws =
     act_bind c_tick (\<lambda>t. act_bind (act_lift (ce_commit env t)) (\<lambda>_. act_modify (record_commit t ws)))"

definition block_eta :: "collector_env \<Rightarrow> int \<Rightarrow> int \<Rightarrow> (collector, datetime) action" where
  "block_eta env current_block target_block =
     act_bind c_tick (\<lambda>t. act_return (ce_now env t +
       (target_block - current_block) * SECONDS_PER_BLOCK * us_per_second))"

definition transition_stage :: "collector_env \<Rightarrow> competition_state \<Rightarrow> round_stage \<Rightarrow> (collector, unit) action" where
  "transition_stage env st next = commit_files env [WState (st\<lparr>stage := next, next_stage_eta := None\<rparr>)]"

definition collect_submissions :: "collector_env \<Rightarrow> competition_state \<Rightarrow> (collector, datetime option) action" where
  "collect_submissions env st =
     act_bind (act_get cl_repo) (\<lambda>r.
     act_bind (act_lift (require_schedule r (current_round st))) (\<lambda>schedule.
     act_bind (act_lift (require_config r)) (\<lambda>config.
     act_bind (c_read (ce_block env)) (\<lambda>block.
       if block < latest_reveal_block schedule
       then act_bind (block_eta env block (latest_reveal_block schedule)) (\<lambda>eta. act_return (Some eta))
       else
         act_bind (c_read (ce_commitments env)) (\<lambda>commitments.
         act_bind (act_lift (read_submissions (ce_loads env) commitments schedule)) (\<lambda>subs.
         act_bind (c_read (ce_owners env)) (\<lambda>owners.
         act_bind (act_lift (filter_by_conviction_lock subs (Inr owners) (ce_locked env)
                     (ce_required_lock env))) (\<lambda>kept.
         act_bind (c_read (ce_block env)) (\<lambda>block.
           if kept = [] then act_bind (transition_stage env st FINALIZING) (\<lambda>_. act_return None)
           else
             act_bind (act_lift (select_prompts (ce_sample env) r (current_round st) config (ce_seed env))) (\<lambda>prompts.
             act_bind (case generation_deadline_block schedule of
                         None \<Rightarrow> act_return None
                       | Some d \<Rightarrow> act_bind (block_eta env block d) (\<lambda>eta. act_return (Some eta))) (\<lambda>eta.
             act_bind (commit_files env
               [WState (st\<lparr>stage := MINER_GENERATION, next_stage_eta := eta\<rparr>),
                WSeed (current_round st) (ce_seed env), WPrompts (current_round st) prompts,
                WSubmissions (current_round st) (serialize_submissions (ce_hash env) kept
                  (cfg_name config) (current_round st) (ce_seed env))]) (\<lambda>_.
               act_return eta))))))))))))"

text \<open>
  Collecting writes through the batcher: a write commits what is pending when the interval has
  passed, a failed commit keeps it pending, and the last flush drops what it cannot commit. The
  miners' tasks run concurrently; \<open>ce_order\<close> is the order in which they finish.
\<close>

definition try_commit :: "collector_env \<Rightarrow> doc_write list \<Rightarrow> (collector, doc_write list) action" where
  "try_commit env pending =
     act_bind c_tick (\<lambda>t.
       case ce_commit env t of
         Inl _ \<Rightarrow> act_return pending
       | Inr _ \<Rightarrow> act_bind (act_modify (record_commit t pending)) (\<lambda>_. act_return []))"

definition batch_write :: "collector_env \<Rightarrow> doc_write \<Rightarrow> doc_write list \<Rightarrow> (collector, doc_write list) action" where
  "batch_write env w pending =
     act_bind c_tick (\<lambda>t.
       if ce_due env t then try_commit env (pending @ [w]) else act_return (pending @ [w]))"

text \<open>
  \<^verbatim>\<open>Path(unquote(urlsplit(url).path)).stem\<close>: \<open>ce_url_path\<close> is the standard library's path of a URL with
  its escapes decoded.
\<close>

fun collect_miners :: "collector_env \<Rightarrow> int \<Rightarrow> string \<Rightarrow> string list \<Rightarrow> (string, miner_submission) dict \<Rightarrow>
    doc_write list \<Rightarrow> (collector, doc_write list) action" where
  "collect_miners env n sprefix prompts [] pending = act_return pending"
| "collect_miners env n sprefix prompts ((hotkey, sub) # rest) pending =
     act_bind (act_lift (collect_miner (ce_cdn env) (ce_cdn_url env) sprefix prompts hotkey sub)) (\<lambda>gens.
     act_bind (batch_write env (WGenerations n hotkey gens) pending) (\<lambda>pending'.
       collect_miners env n sprefix prompts rest pending'))"

definition collect :: "collector_env \<Rightarrow> int \<Rightarrow> (collector, doc_write list) action" where
  "collect env n =
     act_bind (act_get cl_repo) (\<lambda>r.
     act_bind (act_lift (require_submissions r n)) (\<lambda>subs.
     act_bind (act_lift (require_round_prompts r (Some n))) (\<lambda>urls.
     act_bind (act_lift (get_schedule r n)) (\<lambda>schedule.
       collect_miners env n (case schedule of None \<Rightarrow> [] | Some s \<Rightarrow> witness_storage_prefix s)
         (map (\<lambda>u. path_stem (ce_url_path env u)) urls) (ce_order env subs) []))))"

definition handle_collecting :: "collector_env \<Rightarrow> competition_state \<Rightarrow> (collector, unit) action" where
  "handle_collecting env st =
     act_bind (collect env (current_round st)) (\<lambda>pending.
     act_bind (batch_write env (WState (st\<lparr>stage := DUELS, next_stage_eta := None\<rparr>)) pending) (\<lambda>pending'.
     act_bind (if pending' = [] then act_return [] else try_commit env pending') (\<lambda>_. act_return ())))"

text \<open>The generation deadline: an estimate while it is ahead, nothing once it has passed.\<close>

definition generation_deadline_eta :: "collector_env \<Rightarrow> int \<Rightarrow> (collector, datetime option) action" where
  "generation_deadline_eta env deadline =
     act_bind (c_read (ce_block env)) (\<lambda>block.
       if block < deadline then act_bind (block_eta env block deadline) (\<lambda>eta. act_return (Some eta))
       else act_return None)"

definition collection_iteration :: "collector_env \<Rightarrow> (collector, datetime option) action" where
  "collection_iteration env =
     act_bind (act_get cl_repo) (\<lambda>r.
     act_bind (act_lift (require_state r)) (\<lambda>st.
       if stage st = OPEN then collect_submissions env st
       else if stage st = MINER_GENERATION then
         act_bind (act_lift (require_schedule r (current_round st))) (\<lambda>schedule.
           case generation_deadline_block schedule of
             None \<Rightarrow> act_return None
           | Some d \<Rightarrow>
               act_bind (generation_deadline_eta env d) (\<lambda>eta.
                 case eta of
                   Some t \<Rightarrow> act_return (Some t)
                 | None \<Rightarrow>
                     act_bind (transition_stage env st COLLECTING) (\<lambda>_.
                     act_bind (handle_collecting env (st\<lparr>stage := COLLECTING, next_stage_eta := None\<rparr>)) (\<lambda>_.
                       act_return None))))
       else if stage st = COLLECTING then act_bind (handle_collecting env st) (\<lambda>_. act_return None)
       else act_return (next_stage_eta st)))"

lemma record_commit_simps [simp]:
  "cl_repo (record_commit t ws s) = commit ws (cl_repo s)" "cl_clock (record_commit t ws s) = cl_clock s"
  "cl_commits (record_commit t ws s) = cl_commits s @ [(t, ws)]"
  by (simp_all add: record_commit_def)

section \<open>Writing through the batcher loses nothing it reports\<close>

definition is_state_write :: "doc_write \<Rightarrow> bool" where
  "is_state_write w = (case w of WState _ \<Rightarrow> True | _ \<Rightarrow> False)"

lemma rp_state_commit_other: "\<forall>w\<in>set ws. \<not> is_state_write w \<Longrightarrow> rp_state (commit ws r) = rp_state r"
proof (induction ws arbitrary: r)
  case (Cons w ws)
  then show ?case by (cases w) (simp_all add: is_state_write_def)
qed simp

lemma try_commit_cases:
  "try_commit env p s = (r, s') \<Longrightarrow>
     (r = Inr p \<and> cl_repo s' = cl_repo s) \<or> (r = Inr [] \<and> cl_repo s' = commit p (cl_repo s))"
  by (auto simp: try_commit_def act_bind_def act_simps c_tick_def split: sum.splits)

lemma batch_write_cases:
  "batch_write env w p s = (r, s') \<Longrightarrow>
     (r = Inr (p @ [w]) \<and> cl_repo s' = cl_repo s) \<or> (r = Inr [] \<and> cl_repo s' = commit (p @ [w]) (cl_repo s))"
  by (auto simp: batch_write_def act_bind_def act_simps c_tick_def split: if_splits dest!: try_commit_cases)

text \<open>What one miner's index contributes.\<close>

definition miner_write :: "collector_env \<Rightarrow> int \<Rightarrow> string \<Rightarrow> string list \<Rightarrow> string \<times> miner_submission \<Rightarrow> doc_write \<Rightarrow> bool" where
  "miner_write env n sprefix prompts m w =
     (\<exists>gens. collect_miner (ce_cdn env) (ce_cdn_url env) sprefix prompts (fst m) (snd m) = Inr gens \<and>
        w = WGenerations n (fst m) gens)"

lemma collect_miners_total:
  "collect_miners env n sprefix prompts ms p s = (Inr p', s') \<Longrightarrow> \<forall>w\<in>set p. \<not> is_state_write w \<Longrightarrow>
     (\<exists>ws. list_all2 (miner_write env n sprefix prompts) ms ws \<and>
        commit p' (cl_repo s') = commit (p @ ws) (cl_repo s)) \<and> (\<forall>w\<in>set p'. \<not> is_state_write w)"
proof (induction ms arbitrary: p s)
  case Nil
  then show ?case by (simp add: act_simps)
next
  case (Cons m ms)
  obtain h sub where m: "m = (h, sub)" by force
  from Cons.prems(1) m obtain gens s1 p1 where
    g: "collect_miner (ce_cdn env) (ce_cdn_url env) sprefix prompts h sub = Inr gens"
    and w: "batch_write env (WGenerations n h gens) p s = (Inr p1, s1)"
    and rec: "collect_miners env n sprefix prompts ms p1 s1 = (Inr p', s')"
    by (auto simp: act_bind_Inr act_simps)
  have mw: "miner_write env n sprefix prompts m (WGenerations n h gens)"
    using g by (simp add: miner_write_def m)
  from batch_write_cases [OF w] consider
    "p1 = p @ [WGenerations n h gens]" "cl_repo s1 = cl_repo s"
    | "p1 = []" "cl_repo s1 = commit (p @ [WGenerations n h gens]) (cl_repo s)" by auto
  then show ?case
  proof cases
    case 1
    have "\<forall>w\<in>set p1. \<not> is_state_write w" using 1(1) Cons.prems(2) by (auto simp: is_state_write_def)
    from Cons.IH [OF rec this] obtain ws where "list_all2 (miner_write env n sprefix prompts) ms ws"
      "commit p' (cl_repo s') = commit (p1 @ ws) (cl_repo s1)" "\<forall>w\<in>set p'. \<not> is_state_write w" by blast
    with mw 1 show ?thesis by (intro conjI exI [of _ "WGenerations n h gens # ws"]) simp_all
  next
    case 2
    have "\<forall>w\<in>set p1. \<not> is_state_write w" using 2(1) by simp
    from Cons.IH [OF rec this] obtain ws where "list_all2 (miner_write env n sprefix prompts) ms ws"
      "commit p' (cl_repo s') = commit (p1 @ ws) (cl_repo s1)" "\<forall>w\<in>set p'. \<not> is_state_write w" by blast
    with mw 2 show ?thesis
      by (intro conjI exI [of _ "WGenerations n h gens # ws"]) (simp_all add: commit_append)
  qed
qed

lemma batch_write_state:
  "batch_write env w p s = (r, s') \<Longrightarrow> \<forall>w\<in>set (p @ [w]). \<not> is_state_write w \<Longrightarrow>
     rp_state (cl_repo s') = rp_state (cl_repo s)"
  using rp_state_commit_other [of "p @ [w]"] by (auto dest!: batch_write_cases)

lemma collect_miners_state:
  "collect_miners env n sprefix prompts ms p s = (r, s') \<Longrightarrow> \<forall>w\<in>set p. \<not> is_state_write w \<Longrightarrow>
     rp_state (cl_repo s') = rp_state (cl_repo s)"
proof (induction ms arbitrary: p s)
  case Nil
  then show ?case by (simp add: act_simps)
next
  case (Cons m ms)
  obtain h sub where m: "m = (h, sub)" by force
  show ?case
  proof (cases "collect_miner (ce_cdn env) (ce_cdn_url env) sprefix prompts h sub")
    case (Inl e)
    with Cons.prems(1) m show ?thesis by (simp add: act_bind_def act_simps)
  next
    case (Inr gens)
    obtain r1 s1 where w: "batch_write env (WGenerations n h gens) p s = (r1, s1)" by force
    have nw: "\<forall>w\<in>set (p @ [WGenerations n h gens]). \<not> is_state_write w"
      using Cons.prems(2) by (auto simp: is_state_write_def)
    from batch_write_cases [OF w] obtain p1 where r1: "r1 = Inr p1" and p1: "p1 = p @ [WGenerations n h gens] \<or> p1 = []"
      by auto
    have rec: "collect_miners env n sprefix prompts ms p1 s1 = (r, s')"
      using Cons.prems(1) m Inr w r1 by (simp add: act_bind_def act_simps)
    have "\<forall>w\<in>set p1. \<not> is_state_write w" using p1 nw by auto
    from Cons.IH [OF rec this] batch_write_state [OF w nw] show ?thesis by simp
  qed
qed

lemma collect_state:
  assumes "collect env n s = (r, s')"
  shows "rp_state (cl_repo s') = rp_state (cl_repo s)"
proof -
  have "rp_state (cl_repo s') = rp_state (cl_repo s) \<and> True"
    using assms unfolding collect_def
    by (auto simp: act_bind_def act_simps split: sum.splits prod.splits dest: collect_miners_state)
  then show ?thesis by blast
qed

lemma collect_total:
  assumes "collect env n s = (Inr p, s')"
  obtains subs urls schedule ws where "require_submissions (cl_repo s) n = Inr subs"
    "require_round_prompts (cl_repo s) (Some n) = Inr urls" "get_schedule (cl_repo s) n = Inr schedule"
    "list_all2 (miner_write env n (case schedule of None \<Rightarrow> [] | Some s \<Rightarrow> witness_storage_prefix s)
       (map (\<lambda>u. path_stem (ce_url_path env u)) urls)) (ce_order env subs) ws"
    "commit p (cl_repo s') = commit ws (cl_repo s)" "\<forall>w\<in>set p. \<not> is_state_write w"
proof -
  from assms obtain subs urls schedule where r: "require_submissions (cl_repo s) n = Inr subs"
    "require_round_prompts (cl_repo s) (Some n) = Inr urls" "get_schedule (cl_repo s) n = Inr schedule"
    and c: "collect_miners env n (case schedule of None \<Rightarrow> [] | Some s \<Rightarrow> witness_storage_prefix s)
         (map (\<lambda>u. path_stem (ce_url_path env u)) urls) (ce_order env subs) [] s = (Inr p, s')"
    unfolding collect_def by (auto simp: act_bind_Inr act_simps)
  from collect_miners_total [OF c] obtain ws where
    "list_all2 (miner_write env n (case schedule of None \<Rightarrow> [] | Some s \<Rightarrow> witness_storage_prefix s)
       (map (\<lambda>u. path_stem (ce_url_path env u)) urls)) (ce_order env subs) ws"
    "commit p (cl_repo s') = commit ws (cl_repo s)" "\<forall>w\<in>set p. \<not> is_state_write w" by auto
  with r show ?thesis by (rule that)
qed

text \<open>
  \<open>collected env n r ws\<close>: \<open>ws\<close> are the generations of all submissions of round \<open>n\<close>, as their miners'
  result indexes give them. Either the stage did not move, or everything collected and the new stage
  are in the repository.
\<close>

definition collected :: "collector_env \<Rightarrow> int \<Rightarrow> repo \<Rightarrow> doc_write list \<Rightarrow> bool" where
  "collected env n r ws =
     (\<exists>subs urls schedule. require_submissions r n = Inr subs \<and>
        require_round_prompts r (Some n) = Inr urls \<and> get_schedule r n = Inr schedule \<and>
        list_all2 (miner_write env n (case schedule of None \<Rightarrow> [] | Some s \<Rightarrow> witness_storage_prefix s)
          (map (\<lambda>u. path_stem (ce_url_path env u)) urls)) (ce_order env subs) ws)"

lemma handle_collecting_cases:
  assumes "handle_collecting env st s = (r, s')"
  shows "rp_state (cl_repo s') = rp_state (cl_repo s) \<or>
    (\<exists>ws. collected env (current_round st) (cl_repo s) ws \<and>
       cl_repo s' = commit (ws @ [WState (st\<lparr>stage := DUELS, next_stage_eta := None\<rparr>)]) (cl_repo s))"
proof -
  let ?w = "WState (st\<lparr>stage := DUELS, next_stage_eta := None\<rparr>)"
  obtain r1 s1 where c: "collect env (current_round st) s = (r1, s1)" by force
  show ?thesis
  proof (cases r1)
    case (Inl e)
    with assms c collect_state [OF c] show ?thesis by (simp add: handle_collecting_def act_bind_def)
  next
    case (Inr p)
    obtain r2 s2 where b: "batch_write env ?w p s1 = (r2, s2)" by force
    have total: ?thesis if "cl_repo s' = commit (p @ [?w]) (cl_repo s1)"
    proof -
      from c Inr have "collect env (current_round st) s = (Inr p, s1)" by simp
      from this show ?thesis
      proof (rule collect_total)
        fix subs urls schedule ws
        assume a: "require_submissions (cl_repo s) (current_round st) = Inr subs"
          "require_round_prompts (cl_repo s) (Some (current_round st)) = Inr urls"
          "get_schedule (cl_repo s) (current_round st) = Inr schedule"
          "list_all2 (miner_write env (current_round st) (case schedule of None \<Rightarrow> [] | Some s \<Rightarrow> witness_storage_prefix s)
             (map (\<lambda>u. path_stem (ce_url_path env u)) urls)) (ce_order env subs) ws"
          "commit p (cl_repo s1) = commit ws (cl_repo s)" "\<forall>w\<in>set p. \<not> is_state_write w"
        then have "cl_repo s' = commit (ws @ [?w]) (cl_repo s)" using that by (simp add: commit_append)
        with a show ?thesis unfolding collected_def by blast
      qed
    qed
    from batch_write_cases [OF b] show ?thesis
    proof
      assume "r2 = Inr [] \<and> cl_repo s2 = commit (p @ [?w]) (cl_repo s1)"
      then show ?thesis using assms c Inr b total by (simp add: handle_collecting_def act_bind_def act_simps)
    next
      assume k: "r2 = Inr (p @ [?w]) \<and> cl_repo s2 = cl_repo s1"
      obtain r3 s3 where t: "try_commit env (p @ [?w]) s2 = (r3, s3)" by force
      from try_commit_cases [OF t] have "s' = s3"
        using assms c Inr b k t by (auto simp: handle_collecting_def act_bind_def act_simps)
      from try_commit_cases [OF t] show ?thesis
      proof
        assume "r3 = Inr (p @ [?w]) \<and> cl_repo s3 = cl_repo s2"
        then show ?thesis using collect_state [OF c] k \<open>s' = s3\<close> by simp
      next
        assume "r3 = Inr [] \<and> cl_repo s3 = commit (p @ [?w]) (cl_repo s2)"
        then show ?thesis using total k \<open>s' = s3\<close> by simp
      qed
    qed
  qed
qed

section \<open>Stages of an iteration\<close>

text \<open>
  Rules for the first step of an action. The dates are abstracted: after a question asked at \<open>t\<close> the
  state is any later one with the same repository and commits, and a commit is dated no earlier than
  the state it starts from.
\<close>

named_theorems col_steps "first steps of the collector's actions"

definition after :: "collector \<Rightarrow> nat \<Rightarrow> collector \<Rightarrow> bool" where
  "after s t s' = (cl_repo s' = cl_repo s \<and> cl_commits s' = cl_commits s \<and> cl_clock s \<le> t \<and> t < cl_clock s')"

definition committed_at :: "doc_write list \<Rightarrow> collector \<Rightarrow> nat \<Rightarrow> collector \<Rightarrow> bool" where
  "committed_at ws s t s' = (cl_repo s' = commit ws (cl_repo s) \<and> cl_commits s' = cl_commits s @ [(t, ws)] \<and> cl_clock s \<le> t)"

lemma col_get [col_steps]: "wp (g (cl_repo s)) Q s \<Longrightarrow> wp (act_bind (act_get cl_repo) g) Q s"
  by (simp add: wp_simps)

lemma col_lift [col_steps]:
  "(\<And>e. x = Inl e \<Longrightarrow> Q (Inl e) s) \<Longrightarrow> (\<And>y. x = Inr y \<Longrightarrow> wp (g y) Q s) \<Longrightarrow> wp (act_bind (act_lift x) g) Q s"
  by (cases x) (simp_all add: wp_simps)

lemma after_tick: "after s (cl_clock s) (s\<lparr>cl_clock := Suc (cl_clock s)\<rparr>)"
  by (simp add: after_def)

lemma col_read [col_steps]:
  assumes "\<And>t e s'. after s t s' \<Longrightarrow> Q (Inl e) s'"
    "\<And>t y s'. after s t s' \<Longrightarrow> f t = Inr y \<Longrightarrow> wp (g y) Q s'"
  shows "wp (act_bind (c_read f) g) Q s"
proof (cases "f (cl_clock s)")
  case (Inl e)
  with assms(1) [OF after_tick] show ?thesis by (simp add: wp_def c_read_def act_bind_def c_tick_def act_simps)
next
  case (Inr y)
  with assms(2) [OF after_tick Inr] show ?thesis
    by (simp add: wp_def c_read_def act_bind_def c_tick_def act_simps)
qed

lemma col_block_eta [col_steps]:
  assumes "\<And>t y s'. after s t s' \<Longrightarrow> wp (g y) Q s'"
  shows "wp (act_bind (block_eta env b t) g) Q s"
  using assms [OF after_tick] by (simp add: wp_def block_eta_def act_bind_def c_tick_def act_simps)

lemma col_commit [col_steps]:
  assumes "\<And>t e s'. after s t s' \<Longrightarrow> Q (Inl e) s'" "\<And>t s'. committed_at ws s t s' \<Longrightarrow> wp (g ()) Q s'"
  shows "wp (act_bind (commit_files env ws) g) Q s"
proof (cases "ce_commit env (cl_clock s)")
  case (Inl e)
  with assms(1) [OF after_tick] show ?thesis
    by (simp add: wp_def commit_files_def act_bind_def c_tick_def act_simps)
next
  case (Inr y)
  with assms(2) [of "cl_clock s" "record_commit (cl_clock s) ws (s\<lparr>cl_clock := Suc (cl_clock s)\<rparr>)"] show ?thesis
    by (simp add: wp_def commit_files_def act_bind_def c_tick_def act_simps committed_at_def)
qed

lemma col_if [col_steps]:
  "(b \<Longrightarrow> wp m Q s) \<Longrightarrow> (\<not> b \<Longrightarrow> wp m' Q s) \<Longrightarrow> wp (if b then m else m') Q s"
  by simp

lemma col_bind_if [col_steps]:
  "(b \<Longrightarrow> wp (act_bind m g) Q s) \<Longrightarrow> (\<not> b \<Longrightarrow> wp (act_bind m' g) Q s) \<Longrightarrow>
     wp (act_bind (if b then m else m') g) Q s"
  by simp

lemma col_bind_option [col_steps]:
  "(x = None \<Longrightarrow> wp (act_bind m g) Q s) \<Longrightarrow> (\<And>y. x = Some y \<Longrightarrow> wp (act_bind (f y) g) Q s) \<Longrightarrow>
     wp (act_bind (case x of None \<Rightarrow> m | Some y \<Rightarrow> f y) g) Q s"
  by (simp split: option.split)

lemma col_option [col_steps]:
  "(x = None \<Longrightarrow> wp m Q s) \<Longrightarrow> (\<And>y. x = Some y \<Longrightarrow> wp (f y) Q s) \<Longrightarrow>
     wp (case x of None \<Rightarrow> m | Some y \<Rightarrow> f y) Q s"
  by (simp split: option.split)

lemma col_bind_return [col_steps]: "wp (g x) Q s \<Longrightarrow> wp (act_bind (act_return x) g) Q s"
  by (simp add: wp_simps)

lemma col_assoc [col_steps]:
  "wp (act_bind m (\<lambda>x. act_bind (f x) g)) Q s \<Longrightarrow> wp (act_bind (act_bind m f) g) Q s"
  by (simp add: wp_def act_bind_def split: prod.splits sum.splits)

lemma col_return [col_steps]: "Q (Inr x) s \<Longrightarrow> wp (act_return x) Q s"
  by (simp add: wp_simps)

text \<open>What the open stage can do to the repository: nothing, end the round, or publish its inputs.\<close>

definition admitted :: "collector_env \<Rightarrow> round_schedule \<Rightarrow> submission list \<Rightarrow> bool" where
  "admitted env schedule kept =
     (\<exists>t t1 t2 b commitments subs owners. ce_block env t = Inr b \<and> latest_reveal_block schedule \<le> b \<and>
        ce_commitments env t1 = Inr commitments \<and>
        read_submissions (ce_loads env) commitments schedule = Inr subs \<and> ce_owners env t2 = Inr owners \<and>
        filter_by_conviction_lock subs (Inr owners) (ce_locked env) (ce_required_lock env) = Inr kept)"

definition publication :: "collector_env \<Rightarrow> competition_state \<Rightarrow> competition_config \<Rightarrow>
    submission list \<Rightarrow> string list \<Rightarrow> datetime option \<Rightarrow> doc_write list" where
  "publication env st config kept prompts eta =
     [WState (st\<lparr>stage := MINER_GENERATION, next_stage_eta := eta\<rparr>),
      WSeed (current_round st) (ce_seed env), WPrompts (current_round st) prompts,
      WSubmissions (current_round st) (serialize_submissions (ce_hash env) kept
        (cfg_name config) (current_round st) (ce_seed env))]"

definition open_outcome :: "collector_env \<Rightarrow> competition_state \<Rightarrow> repo \<Rightarrow> repo \<Rightarrow> bool" where
  "open_outcome env st r r' =
     (r' = r \<or>
      (\<exists>schedule. require_schedule r (current_round st) = Inr schedule \<and> admitted env schedule [] \<and>
         r' = commit [WState (st\<lparr>stage := FINALIZING, next_stage_eta := None\<rparr>)] r) \<or>
      (\<exists>schedule config kept prompts eta. require_schedule r (current_round st) = Inr schedule \<and>
         require_config r = Inr config \<and> admitted env schedule kept \<and> kept \<noteq> [] \<and>
         select_prompts (ce_sample env) r (current_round st) config (ce_seed env) = Inr prompts \<and>
         r' = commit (publication env st config kept prompts eta) r))"

text \<open>
  The same with the order of events: the chain is asked for its block, found past the reveal window,
  then for the commitments and the owners, and one commit follows.
\<close>

definition admitted_between :: "collector_env \<Rightarrow> round_schedule \<Rightarrow> submission list \<Rightarrow> nat \<Rightarrow> nat \<Rightarrow> bool" where
  "admitted_between env schedule kept t0 t3 =
     (\<exists>t t1 t2 b commitments subs owners. t0 \<le> t \<and> ce_block env t = Inr b \<and> latest_reveal_block schedule \<le> b \<and>
        t < t1 \<and> ce_commitments env t1 = Inr commitments \<and>
        read_submissions (ce_loads env) commitments schedule = Inr subs \<and>
        t1 < t2 \<and> ce_owners env t2 = Inr owners \<and>
        filter_by_conviction_lock subs (Inr owners) (ce_locked env) (ce_required_lock env) = Inr kept \<and> t2 < t3)"

definition open_step :: "collector_env \<Rightarrow> competition_state \<Rightarrow> collector \<Rightarrow> collector \<Rightarrow> bool" where
  "open_step env st s s' =
     (cl_repo s' = cl_repo s \<and> cl_commits s' = cl_commits s \<or>
      (\<exists>t schedule kept ws. require_schedule (cl_repo s) (current_round st) = Inr schedule \<and>
         admitted_between env schedule kept (cl_clock s) t \<and>
         cl_repo s' = commit ws (cl_repo s) \<and> cl_commits s' = cl_commits s @ [(t, ws)] \<and>
         (kept = [] \<and> ws = [WState (st\<lparr>stage := FINALIZING, next_stage_eta := None\<rparr>)] \<or>
          kept \<noteq> [] \<and> (\<exists>config prompts eta. require_config (cl_repo s) = Inr config \<and>
            select_prompts (ce_sample env) (cl_repo s) (current_round st) config (ce_seed env) = Inr prompts \<and>
            ws = publication env st config kept prompts eta))))"

lemma open_step_outcome:
  assumes "open_step env st s s'"
  shows "open_outcome env st (cl_repo s) (cl_repo s')"
proof -
  have a: "admitted env schedule kept" if "admitted_between env schedule kept t0 t3" for schedule kept t0 t3
    using that unfolding admitted_between_def admitted_def by blast
  from assms show ?thesis
    unfolding open_step_def open_outcome_def by (elim disjE exE conjE) (simp, blast dest: a, blast dest: a)
qed

lemma admitted_betweenI:
  assumes "after s t s1" "ce_block env t = Inr b" "\<not> b < latest_reveal_block schedule"
    "after s1 t1 s2" "ce_commitments env t1 = Inr commitments"
    "read_submissions (ce_loads env) commitments schedule = Inr subs"
    "after s2 t2 s3" "ce_owners env t2 = Inr owners"
    "filter_by_conviction_lock subs (Inr owners) (ce_locked env) (ce_required_lock env) = Inr kept"
    "cl_clock s3 \<le> t3"
  shows "admitted_between env schedule kept (cl_clock s) t3"
proof -
  have "cl_clock s \<le> t" "t < t1" "t1 < t2" "t2 < t3" "latest_reveal_block schedule \<le> b"
    using assms(1,3,4,7,10) by (simp_all add: after_def)
  with assms(2,5,6,8,9) show ?thesis unfolding admitted_between_def by blast
qed

lemma open_idle:
  "open_step env st s s"
  "after s t1 s1 \<Longrightarrow> open_step env st s s1"
  "after s t1 s1 \<Longrightarrow> after s1 t2 s2 \<Longrightarrow> open_step env st s s2"
  "after s t1 s1 \<Longrightarrow> after s1 t2 s2 \<Longrightarrow> after s2 t3 s3 \<Longrightarrow> open_step env st s s3"
  "after s t1 s1 \<Longrightarrow> after s1 t2 s2 \<Longrightarrow> after s2 t3 s3 \<Longrightarrow> after s3 t4 s4 \<Longrightarrow> open_step env st s s4"
  "after s t1 s1 \<Longrightarrow> after s1 t2 s2 \<Longrightarrow> after s2 t3 s3 \<Longrightarrow> after s3 t4 s4 \<Longrightarrow> after s4 t5 s5 \<Longrightarrow> open_step env st s s5"
  "after s t1 s1 \<Longrightarrow> after s1 t2 s2 \<Longrightarrow> after s2 t3 s3 \<Longrightarrow> after s3 t4 s4 \<Longrightarrow> after s4 t5 s5 \<Longrightarrow>
     after s5 t6 s6 \<Longrightarrow> open_step env st s s6"
  by (simp_all add: open_step_def after_def)

lemma open_committed:
  assumes a: "after s t s1" "ce_block env t = Inr b" "\<not> b < latest_reveal_block schedule"
    "after s1 t1 s2" "ce_commitments env t1 = Inr commitments"
    "read_submissions (ce_loads env) commitments schedule = Inr subs"
    "after s2 t2 s3" "ce_owners env t2 = Inr owners"
    "filter_by_conviction_lock subs (Inr owners) (ce_locked env) (ce_required_lock env) = Inr kept"
    and sched: "require_schedule (cl_repo s) (current_round st) = Inr schedule"
    and idle: "cl_repo s4 = cl_repo s3" "cl_commits s4 = cl_commits s3" "cl_clock s3 \<le> cl_clock s4"
    and c: "committed_at ws s4 t4 s'"
    and ws: "kept = [] \<and> ws = [WState (st\<lparr>stage := FINALIZING, next_stage_eta := None\<rparr>)] \<or>
          kept \<noteq> [] \<and> (\<exists>config prompts eta. require_config (cl_repo s) = Inr config \<and>
            select_prompts (ce_sample env) (cl_repo s) (current_round st) config (ce_seed env) = Inr prompts \<and>
            ws = publication env st config kept prompts eta)"
  shows "open_step env st s s'"
proof -
  have "cl_clock s3 \<le> t4" using c idle(3) by (simp add: committed_at_def)
  from admitted_betweenI [OF a this] have b: "admitted_between env schedule kept (cl_clock s) t4" .
  have same: "cl_repo s4 = cl_repo s" "cl_commits s4 = cl_commits s" using a(1,4,7) idle by (simp_all add: after_def)
  then have "cl_repo s' = commit ws (cl_repo s)" "cl_commits s' = cl_commits s @ [(t4, ws)]"
    using c by (simp_all add: committed_at_def)
  with b sched ws show ?thesis unfolding open_step_def by blast
qed

text \<open>The two commits of the open stage, with and without an estimate of the deadline before the last one.\<close>

lemma open_finalized:
  assumes "after s t s1" "ce_block env t = Inr b" "\<not> b < latest_reveal_block schedule"
    "after s1 t1 s2" "ce_commitments env t1 = Inr commitments"
    "read_submissions (ce_loads env) commitments schedule = Inr subs"
    "after s2 t2 s3" "ce_owners env t2 = Inr owners"
    "filter_by_conviction_lock subs (Inr owners) (ce_locked env) (ce_required_lock env) = Inr kept"
    "require_schedule (cl_repo s) (current_round st) = Inr schedule" "after s3 t3 s4" "kept = []"
    "committed_at [WState (st\<lparr>stage := FINALIZING, next_stage_eta := None\<rparr>)] s4 t4 s'"
  shows "open_step env st s s'"
  by (rule open_committed [OF assms(1-10) _ _ _ assms(13)]) (use assms(11,12) in \<open>simp_all add: after_def\<close>)

lemma open_published:
  assumes a: "after s t s1" "ce_block env t = Inr b" "\<not> b < latest_reveal_block schedule"
    "after s1 t1 s2" "ce_commitments env t1 = Inr commitments"
    "read_submissions (ce_loads env) commitments schedule = Inr subs"
    "after s2 t2 s3" "ce_owners env t2 = Inr owners"
    "filter_by_conviction_lock subs (Inr owners) (ce_locked env) (ce_required_lock env) = Inr kept"
    "require_schedule (cl_repo s) (current_round st) = Inr schedule" and l: "after s3 t3 s4" and ne: "kept \<noteq> []"
    and cfg: "require_config (cl_repo s) = Inr config"
    and p: "select_prompts (ce_sample env) (cl_repo s) (current_round st) config (ce_seed env) = Inr prompts"
  shows "committed_at (publication env st config kept prompts eta) s4 t4 s' \<Longrightarrow> open_step env st s s'"
    "after s4 t5 s5 \<Longrightarrow> committed_at (publication env st config kept prompts eta) s5 t4 s' \<Longrightarrow> open_step env st s s'"
proof -
  have ws: "kept = [] \<and> publication env st config kept prompts eta = [WState (st\<lparr>stage := FINALIZING, next_stage_eta := None\<rparr>)] \<or>
          kept \<noteq> [] \<and> (\<exists>config' prompts' eta'. require_config (cl_repo s) = Inr config' \<and>
            select_prompts (ce_sample env) (cl_repo s) (current_round st) config' (ce_seed env) = Inr prompts' \<and>
            publication env st config kept prompts eta = publication env st config' kept prompts' eta')"
    using ne cfg p by blast
  show "committed_at (publication env st config kept prompts eta) s4 t4 s' \<Longrightarrow> open_step env st s s'"
    by (rule open_committed [OF a _ _ _ _ ws]) (use l in \<open>simp_all add: after_def\<close>)
  show "after s4 t5 s5 \<Longrightarrow> committed_at (publication env st config kept prompts eta) s5 t4 s' \<Longrightarrow> open_step env st s s'"
    by (rule open_committed [OF a _ _ _ _ ws]) (use l in \<open>simp_all add: after_def\<close>)
qed

lemma wp_collect_submissions: "wp (collect_submissions env st) (\<lambda>_ s'. open_step env st s s') s"
  unfolding collect_submissions_def transition_stage_def publication_def [symmetric]
  by (intro col_steps; ((rule open_idle; assumption) | (rule open_finalized; assumption) | (rule open_published; assumption)))

text \<open>What one iteration does to the repository, by the stage it finds.\<close>

lemma transition_stage_cases:
  "transition_stage env st next s = (r, s') \<Longrightarrow>
     (cl_repo s' = cl_repo s \<and> \<not> is_ok r) \<or>
     (r = Inr () \<and> cl_repo s' = commit [WState (st\<lparr>stage := next, next_stage_eta := None\<rparr>)] (cl_repo s))"
  by (cases "ce_commit env (cl_clock s)")
    (auto simp: transition_stage_def commit_files_def c_read_def c_tick_def act_bind_def act_simps
       is_ok_def dest: sym split: sum.splits)

lemma generation_deadline_eta_cases:
  "generation_deadline_eta env d s = (r, s') \<Longrightarrow> cl_repo s' = cl_repo s \<and>
     (r = Inr None \<longrightarrow> (\<exists>t b. ce_block env t = Inr b \<and> d \<le> b))"
  by (cases "ce_block env (cl_clock s)")
    (auto simp: generation_deadline_eta_def block_eta_def c_read_def c_tick_def act_bind_def act_simps
       linorder_not_less split: if_splits)

definition deadline_passed :: "collector_env \<Rightarrow> competition_state \<Rightarrow> repo \<Rightarrow> bool" where
  "deadline_passed env st r =
     (\<exists>schedule d t b. require_schedule r (current_round st) = Inr schedule \<and>
        generation_deadline_block schedule = Some d \<and> ce_block env t = Inr b \<and> d \<le> b)"

lemma collection_iteration_generation:
  assumes "stage st = MINER_GENERATION" "rp_state (cl_repo s) = Some st"
    "collection_iteration env s = (r, s')"
  shows "cl_repo s' = cl_repo s \<or> deadline_passed env st (cl_repo s) \<and>
    (\<exists>r1 st1. r1 = commit [WState (st\<lparr>stage := COLLECTING, next_stage_eta := None\<rparr>)] (cl_repo s) \<and>
      (rp_state (cl_repo s') = rp_state r1 \<or>
       (\<exists>ws. collected env (current_round st) r1 ws \<and>
         cl_repo s' = commit (ws @ [WState (st\<lparr>stage := DUELS, next_stage_eta := None\<rparr>)]) r1)))"
proof -
  let ?st1 = "st\<lparr>stage := COLLECTING, next_stage_eta := None\<rparr>"
  show ?thesis
  proof (cases "require_schedule (cl_repo s) (current_round st)")
    case (Inl e)
    then show ?thesis using assms
      by (simp add: collection_iteration_def require_state_def act_bind_def act_simps)
  next
    case (Inr schedule)
    show ?thesis
    proof (cases "generation_deadline_block schedule")
      case None
      then show ?thesis using assms Inr
        by (simp add: collection_iteration_def require_state_def act_bind_def act_simps)
    next
      case (Some d)
      obtain r1 s1 where e: "generation_deadline_eta env d s = (r1, s1)" by force
      note e1 = generation_deadline_eta_cases [OF e]
      obtain r2 s2 where t: "transition_stage env st COLLECTING s1 = (r2, s2)" by force
      note t1 = transition_stage_cases [OF t]
      obtain r3 s3 where h: "handle_collecting env ?st1 s2 = (r3, s3)" by force
      note h1 = handle_collecting_cases [OF h]
      show ?thesis
      proof (cases "r1 = Inr None \<and> is_ok r2")
        case True
        then have dp: "deadline_passed env st (cl_repo s)"
          using e1 Inr Some unfolding deadline_passed_def by blast
        have "s' = s3" using assms Inr Some e t h True
          by (auto simp: collection_iteration_def require_state_def act_bind_def act_simps is_ok_def
              split: sum.splits)
        with dp True t1 e1 h1 show ?thesis by auto
      next
        case False
        have "s' = s1 \<or> s' = s2 \<and> \<not> is_ok r2" using assms Inr Some e t False
          by (auto simp: collection_iteration_def require_state_def act_bind_def act_simps is_ok_def
              split: sum.splits option.splits)
        with e1 t1 show ?thesis by auto
      qed
    qed
  qed
qed

lemma collection_iteration_collecting:
  assumes "stage st = COLLECTING" "rp_state (cl_repo s) = Some st" "collection_iteration env s = (r, s')"
  shows "rp_state (cl_repo s') = rp_state (cl_repo s) \<or>
    (\<exists>ws. collected env (current_round st) (cl_repo s) ws \<and>
       cl_repo s' = commit (ws @ [WState (st\<lparr>stage := DUELS, next_stage_eta := None\<rparr>)]) (cl_repo s))"
proof -
  obtain r3 s3 where h: "handle_collecting env st s = (r3, s3)" by force
  have "s' = s3" using assms h
    by (auto simp: collection_iteration_def require_state_def act_bind_def act_simps split: sum.splits)
  with handle_collecting_cases [OF h] show ?thesis by simp
qed

lemma collection_iteration_open_step:
  assumes "stage st = OPEN" "rp_state (cl_repo s) = Some st" "collection_iteration env s = (r, s')"
  shows "open_step env st s s'"
proof -
  have "collect_submissions env st s = (r, s')" using assms
    by (simp add: collection_iteration_def require_state_def act_bind_def act_simps)
  then show ?thesis by (rule wpD [OF wp_collect_submissions])
qed

lemma collection_iteration_open:
  assumes "stage st = OPEN" "rp_state (cl_repo s) = Some st" "collection_iteration env s = (r, s')"
  shows "open_outcome env st (cl_repo s) (cl_repo s')"
  by (rule open_step_outcome [OF collection_iteration_open_step [OF assms]])

lemma collection_iteration_other:
  assumes "stage st \<notin> {OPEN, MINER_GENERATION, COLLECTING}" "rp_state (cl_repo s) = Some st"
  shows "collection_iteration env s = (Inr (next_stage_eta st), s)"
  using assms by (simp add: collection_iteration_def require_state_def act_bind_def act_simps)

text \<open>The collector's part of the life of a round.\<close>

definition collector_edges :: "(round_stage \<times> round_stage) list" where
  "collector_edges = [(OPEN, MINER_GENERATION), (OPEN, FINALIZING), (MINER_GENERATION, COLLECTING),
     (MINER_GENERATION, DUELS), (COLLECTING, DUELS)]"

lemma rp_state_collected [simp]:
  "rp_state (commit (ws @ [WState st]) r) = Some st"
  by (simp add: commit_append)

lemma rp_state_publication [simp]:
  "rp_state (commit (publication env st config kept prompts eta) r) =
     Some (st\<lparr>stage := MINER_GENERATION, next_stage_eta := eta\<rparr>)"
  by (simp add: publication_def)

lemma stage_moves:
  assumes "rp_state (cl_repo s) = Some st" "collection_iteration env s = (r, s')"
  shows "\<exists>st'. rp_state (cl_repo s') = Some st' \<and> current_round st' = current_round st \<and>
    (st' = st \<or> (stage st, stage st') \<in> set collector_edges)"
proof -
  consider "stage st = OPEN" | "stage st = MINER_GENERATION" | "stage st = COLLECTING"
    | "stage st \<notin> {OPEN, MINER_GENERATION, COLLECTING}" by auto
  then show ?thesis
  proof cases
    case 1
    from collection_iteration_open [OF this assms] 1 assms(1) show ?thesis
      unfolding open_outcome_def by (auto simp: collector_edges_def)
  next
    case 2
    from collection_iteration_generation [OF this assms] 2 assms(1) show ?thesis
      by (auto simp: collector_edges_def)
  next
    case 3
    from collection_iteration_collecting [OF this assms] 3 assms(1) show ?thesis
      by (auto simp: collector_edges_def)
  next
    case 4
    from collection_iteration_other [OF this assms(1)] assms show ?thesis by simp
  qed
qed

section \<open>What the collected documents say\<close>

lemma get_generations_commit_other:
  "\<forall>w\<in>set ws. case w of WGenerations m h' g \<Rightarrow> h' \<noteq> h | WState _ \<Rightarrow> True | _ \<Rightarrow> False \<Longrightarrow>
     get_generations (commit ws r) n h = get_generations r n h"
proof (induction ws arbitrary: r)
  case (Cons w ws)
  then show ?case by (cases w) (auto simp: get_generations_def dget_default_def)
qed simp

lemma miner_writes_get:
  "list_all2 (miner_write env n sprefix prompts) ms ws \<Longrightarrow> distinct (map fst ms) \<Longrightarrow> (h, sub) \<in> set ms \<Longrightarrow>
     collect_miner (ce_cdn env) (ce_cdn_url env) sprefix prompts h sub =
       Inr (get_generations (commit ws r) n h)"
proof (induction ms ws arbitrary: r rule: list_all2_induct)
  case (Cons m ms w ws)
  from Cons.hyps(1) obtain gens where g:
    "collect_miner (ce_cdn env) (ce_cdn_url env) sprefix prompts (fst m) (snd m) = Inr gens"
    and w: "w = WGenerations n (fst m) gens" by (auto simp: miner_write_def)
  show ?case
  proof (cases "(h, sub) = m")
    case True
    then have h: "h = fst m" "sub = snd m" by auto
    have "\<forall>w\<in>set ws. \<exists>m'\<in>set ms. miner_write env n sprefix prompts m' w"
      using Cons.hyps(2) by (induction rule: list_all2_induct) auto
    moreover have new: "m' \<in> set ms \<Longrightarrow> fst m' \<noteq> h" for m' using Cons.prems(1) h by (simp, metis image_eqI)
    ultimately have "\<forall>w\<in>set ws. case w of WGenerations m h' g \<Rightarrow> h' \<noteq> h | WState _ \<Rightarrow> True | _ \<Rightarrow> False"
      by (auto simp: miner_write_def dest!: bspec)
    from get_generations_commit_other [OF this, of "apply_write w r" n] g w h show ?thesis
      by (simp add: get_generations_def dget_default_def)
  next
    case False
    with Cons show ?thesis by auto
  qed
qed simp

section \<open>Properties\<close>

definition example_collector_env :: collector_env where
  "example_collector_env = \<lparr>ce_block = (\<lambda>_. Inr 2000), ce_commitments = (\<lambda>_. Inr []), ce_owners = (\<lambda>_. Inr []),
     ce_locked = (\<lambda>_. Inl RequestError), ce_now = (\<lambda>t. int t), ce_seed = 7, ce_sample = (\<lambda>_ _ xs k. take k xs),
     ce_hash = (\<lambda>h. h), ce_loads = (\<lambda>_. None),
     ce_cdn = (\<lambda>_ n. if n = 0 then TransportError else Response 200 (Some [(''p'', empty_generation)])),
     ce_url_path = (\<lambda>u. u), ce_commit = (\<lambda>_. Inr ()), ce_due = (\<lambda>_. False), ce_order = rev,
     ce_cdn_url = ''cdn'', ce_required_lock = 0\<rparr>"

definition example_submission :: miner_submission where
  "example_submission = \<lparr>ms_repo = ''a/b'', ms_commit = ''c'', revealed_at_block = 1500, tie_breaker = ''t'',
     ms_round = ''comp-4-7''\<rparr>"

definition collecting_repo :: repo where
  "collecting_repo = \<lparr>rp_state = Some \<lparr>current_round = 4, stage = COLLECTING, next_stage_eta = None\<rparr>,
     rp_config = None, rp_leaders = None, rp_pool = None,
     rp_rounds = [(4, empty_round\<lparr>rd_prompts := Some [''p.png'', ''q.png''],
        rd_submissions := Some [(''h1'', example_submission), (''h2'', example_submission)]\<rparr>)]\<rparr>"

definition example_collected :: generations_map where
  "example_collected = [(''p'', empty_generation), (''q'', not_submitted)]"

lemma example_collect_miner:
  "collect_miner (ce_cdn example_collector_env) ''cdn'' [] [''p'', ''q''] h example_submission = Inr example_collected"
  by (simp add: collect_miner_def example_collector_env_def eval_nat_numeral example_collected_def
      with_cdn_def empty_generation_def)

lemma example_collecting:
  "collection_iteration example_collector_env \<lparr>cl_repo = collecting_repo, cl_clock = 0, cl_commits = []\<rparr> =
     (Inr None, \<lparr>cl_repo = commit [WGenerations 4 ''h2'' example_collected, WGenerations 4 ''h1'' example_collected,
        WState \<lparr>current_round = 4, stage = DUELS, next_stage_eta = None\<rparr>] collecting_repo, cl_clock = 4,
        cl_commits = [(3, [WGenerations 4 ''h2'' example_collected, WGenerations 4 ''h1'' example_collected,
        WState \<lparr>current_round = 4, stage = DUELS, next_stage_eta = None\<rparr>])]\<rparr>)"
proof -
  note ev = act_bind_def act_simps c_tick_def
  have b: "batch_write example_collector_env w p \<lparr>cl_repo = r, cl_clock = n, cl_commits = []\<rparr> =
      (Inr (p @ [w]), \<lparr>cl_repo = r, cl_clock = Suc n, cl_commits = []\<rparr>)" for w p r n
    by (simp add: batch_write_def ev example_collector_env_def)
  have f: "ce_cdn_url example_collector_env = ''cdn''" "ce_url_path example_collector_env = (\<lambda>u. u)"
    "ce_order example_collector_env = rev" "ce_commit example_collector_env = (\<lambda>_. Inr ())"
    by (simp_all add: example_collector_env_def)
  have stems: "path_stem ''p.png'' = ''p''" "path_stem ''q.png'' = ''q''" by code_simp+
  have m: "collect_miners example_collector_env 4 [] [''p'', ''q'']
      [(''h2'', example_submission), (''h1'', example_submission)] [] \<lparr>cl_repo = collecting_repo, cl_clock = 0, cl_commits = []\<rparr> =
    (Inr [WGenerations 4 ''h2'' example_collected, WGenerations 4 ''h1'' example_collected],
     \<lparr>cl_repo = collecting_repo, cl_clock = 2, cl_commits = []\<rparr>)"
    using example_collect_miner by (simp add: act_bind_def act_simps b f)
  have st: "get_schedule collecting_repo 4 = Inr None"
    "require_submissions collecting_repo 4 = Inr [(''h1'', example_submission), (''h2'', example_submission)]"
    "require_round_prompts collecting_repo (Some 4) = Inr [''p.png'', ''q.png'']"
    by (simp_all add: collecting_repo_def get_schedule_def require_submissions_def require_round_prompts_def
        round_dir_of_def dget_default_def empty_round_def)
  have c: "collect example_collector_env 4 \<lparr>cl_repo = collecting_repo, cl_clock = 0, cl_commits = []\<rparr> =
    (Inr [WGenerations 4 ''h2'' example_collected, WGenerations 4 ''h1'' example_collected],
     \<lparr>cl_repo = collecting_repo, cl_clock = 2, cl_commits = []\<rparr>)"
    using m by (simp add: collect_def act_bind_def act_simps st f stems)
  have rs: "rp_state collecting_repo = Some \<lparr>current_round = 4, stage = COLLECTING, next_stage_eta = None\<rparr>"
    by (simp add: collecting_repo_def)
  show ?thesis
    by (simp add: collection_iteration_def require_state_def rs handle_collecting_def act_bind_def act_simps c b
        try_commit_def c_tick_def f record_commit_def)
qed

text \<open>
  C7: An iteration of the collector keeps the current round and moves its stage, if at all, along an
  edge of the round's life: open to generation or to finalization, generation to collecting or the
  duels, collecting to the duels. In any other stage it changes nothing.
\<close>

theorem collector_stage_moves:
  assumes "rp_state (cl_repo s) = Some st" "collection_iteration env s = (r, s')"
  shows "\<exists>st'. rp_state (cl_repo s') = Some st' \<and> current_round st' = current_round st \<and>
    (st' = st \<or> (stage st, stage st') \<in> set collector_edges)"
  using assms by (rule stage_moves)

theorem collector_stage_moves_witness:
  "\<exists>st'. rp_state (cl_repo (snd (collection_iteration example_collector_env \<lparr>cl_repo = collecting_repo, cl_clock = 0, cl_commits = []\<rparr>))) =
     Some st' \<and> current_round st' = 4 \<and> stage st' = DUELS"
proof -
  have rs: "rp_state (cl_repo \<lparr>cl_repo = collecting_repo, cl_clock = 0, cl_commits = []\<rparr>) =
      Some \<lparr>current_round = 4, stage = COLLECTING, next_stage_eta = None\<rparr>"
    by (simp add: collecting_repo_def)
  from collector_stage_moves [OF rs example_collecting] show ?thesis
    by (simp add: example_collecting)
qed

text \<open>
  C8: The inputs of a round are published together and only after its reveal window. An iteration that
  finds the round open makes at most one commit. Before it, in this order, the chain was asked for its
  block and had passed the latest reveal block, gave the commitments, and gave the owners of the hotkeys.
  The commit is either the move to finalization alone, when no submission was admitted, or it holds the
  state moved to generation, the seed, the prompts drawn with this seed and the admitted submissions,
  all of them; and these are then what the repository holds.
\<close>

theorem round_inputs_published:
  assumes "rp_state (cl_repo s) = Some st" "stage st = OPEN" "collection_iteration env s = (r, s')"
  shows "(cl_commits s' = cl_commits s \<and> cl_repo s' = cl_repo s) \<or>
    (\<exists>schedule block_read chain_read owners_read committed b commitments subs owners kept ws.
       require_schedule (cl_repo s) (current_round st) = Inr schedule \<and>
       cl_clock s \<le> block_read \<and> ce_block env block_read = Inr b \<and> latest_reveal_block schedule \<le> b \<and>
       block_read < chain_read \<and> ce_commitments env chain_read = Inr commitments \<and>
       read_submissions (ce_loads env) commitments schedule = Inr subs \<and>
       chain_read < owners_read \<and> ce_owners env owners_read = Inr owners \<and>
       filter_by_conviction_lock subs (Inr owners) (ce_locked env) (ce_required_lock env) = Inr kept \<and>
       owners_read < committed \<and> cl_commits s' = cl_commits s @ [(committed, ws)] \<and>
       (kept = [] \<and> ws = [WState (st\<lparr>stage := FINALIZING, next_stage_eta := None\<rparr>)] \<or>
        kept \<noteq> [] \<and> (\<exists>config prompts eta. require_config (cl_repo s) = Inr config \<and>
          select_prompts (ce_sample env) (cl_repo s) (current_round st) config (ce_seed env) = Inr prompts \<and>
          ws = [WState (st\<lparr>stage := MINER_GENERATION, next_stage_eta := eta\<rparr>),
            WSeed (current_round st) (ce_seed env), WPrompts (current_round st) prompts,
            WSubmissions (current_round st) (serialize_submissions (ce_hash env) kept (cfg_name config)
              (current_round st) (ce_seed env))] \<and>
          require_seed (cl_repo s') (current_round st) = Inr (ce_seed env) \<and>
          require_round_prompts (cl_repo s') (Some (current_round st)) = Inr prompts \<and>
          require_submissions (cl_repo s') (current_round st) = Inr (serialize_submissions (ce_hash env) kept
            (cfg_name config) (current_round st) (ce_seed env)))))"
proof -
  have published: "require_seed (commit (publication env st config kept prompts eta) rp) (current_round st) = Inr (ce_seed env)"
    "require_round_prompts (commit (publication env st config kept prompts eta) rp) (Some (current_round st)) = Inr prompts"
    "require_submissions (commit (publication env st config kept prompts eta) rp) (current_round st) =
       Inr (serialize_submissions (ce_hash env) kept (cfg_name config) (current_round st) (ce_seed env))"
    for config kept prompts eta rp
    by (simp_all add: publication_def require_seed_def require_round_prompts_def require_submissions_def)
  from collection_iteration_open_step [OF assms(2,1,3)] show ?thesis
    unfolding open_step_def
  proof (elim disjE exE, goal_cases)
    case (2 t schedule kept ws)
    then have a: "admitted_between env schedule kept (cl_clock s) t"
      and k: "kept = [] \<and> ws = [WState (st\<lparr>stage := FINALIZING, next_stage_eta := None\<rparr>)] \<or>
        kept \<noteq> [] \<and> (\<exists>config prompts eta. require_config (cl_repo s) = Inr config \<and>
          select_prompts (ce_sample env) (cl_repo s) (current_round st) config (ce_seed env) = Inr prompts \<and>
          ws = publication env st config kept prompts eta \<and>
          require_seed (cl_repo s') (current_round st) = Inr (ce_seed env) \<and>
          require_round_prompts (cl_repo s') (Some (current_round st)) = Inr prompts \<and>
          require_submissions (cl_repo s') (current_round st) = Inr (serialize_submissions (ce_hash env) kept
            (cfg_name config) (current_round st) (ce_seed env)))"
      using published by auto
    with 2 show ?case unfolding admitted_between_def publication_def [symmetric] by (intro disjI2) blast
  qed blast
qed

definition open_env :: collector_env where
  "open_env = example_collector_env\<lparr>ce_commitments := (\<lambda>_. Inr [(''5Hotkey-example'', [(7, ''both'')])]),
     ce_loads := example_loads, ce_owners := (\<lambda>_. Inr [(''5Hotkey-example'', ''cold'')]),
     ce_locked := (\<lambda>_. Inr 100), ce_required_lock := 100\<rparr>"

definition open_repo :: repo where
  "open_repo = \<lparr>rp_state = Some \<lparr>current_round = 0, stage = OPEN, next_stage_eta = None\<rparr>,
     rp_config = Some \<lparr>cfg_name = ''cup'', first_evaluation_date = 0, last_competition_date = 9, round_start_time = 0,
       generation_stage_minutes = 60, finalization_buffer_hours = 1, win_margin = 0, prompts_per_round = 2,
       carryover_prompts = 0, round_duration_days = 1\<rparr>,
     rp_leaders = None, rp_pool = Some [''p.png'', ''q.png'', ''r.png''],
     rp_rounds = [(0, empty_round\<lparr>rd_schedule := Some \<lparr>earliest_reveal_block = 5, latest_reveal_block = 10,
        generation_deadline_block = None, witness_storage_prefix = [], witness_save_submissions = True\<rparr>\<rparr>)]\<rparr>"

abbreviation open_kept :: submission where
  "open_kept \<equiv> \<lparr>sb_hotkey = ''5Hotkey-example'', sb_block = 7, sb_repo = ''o/r'', sb_commit = replicate 40 (CHR ''a'')\<rparr>"

abbreviation open_publication :: "doc_write list" where
  "open_publication \<equiv> publication open_env \<lparr>current_round = 0, stage = OPEN, next_stage_eta = None\<rparr>
     (the (rp_config open_repo)) [open_kept] [''p.png'', ''q.png''] None"

lemma open_example:
  "\<exists>c t. collection_iteration open_env \<lparr>cl_repo = open_repo, cl_clock = 0, cl_commits = []\<rparr> =
     (Inr None, \<lparr>cl_repo = commit open_publication open_repo, cl_clock = c, cl_commits = [(t, open_publication)]\<rparr>)"
proof -
  have f: "ce_block open_env = (\<lambda>_. Inr 2000)" "ce_loads open_env = example_loads"
    "ce_commitments open_env = (\<lambda>_. Inr [(''5Hotkey-example'', [(7, ''both'')])])"
    "ce_owners open_env = (\<lambda>_. Inr [(''5Hotkey-example'', ''cold'')])" "ce_locked open_env = (\<lambda>_. Inr 100)"
    "ce_required_lock open_env = 100" "ce_sample open_env = (\<lambda>_ _ xs k. take k xs)" "ce_commit open_env = (\<lambda>_. Inr ())"
    by (simp_all add: open_env_def example_collector_env_def)
  let ?s = "\<lparr>earliest_reveal_block = 5, latest_reveal_block = 10,
        generation_deadline_block = None, witness_storage_prefix = [], witness_save_submissions = True\<rparr>"
  have r: "rp_state open_repo = Some \<lparr>current_round = 0, stage = OPEN, next_stage_eta = None\<rparr>"
    "require_schedule open_repo 0 = Inr ?s" "require_config open_repo = Inr (the (rp_config open_repo))"
    by (simp_all add: open_repo_def require_schedule_def get_schedule_def round_dir_of_def dget_default_def
        validate_schedule_def storage_prefix_def require_config_def)
  have a: "read_submissions example_loads [(''5Hotkey-example'', [(7, ''both'')])] ?s = Inr [open_kept]"
    by code_simp
  have l: "filter_by_conviction_lock [open_kept] (Inr [(''5Hotkey-example'', ''cold'')]) (\<lambda>_. Inr 100) 100 =
      Inr [open_kept]" by code_simp
  have p: "select_prompts (\<lambda>_ _ xs k. take k xs) open_repo 0 (the (rp_config open_repo)) (ce_seed open_env) =
      Inr [''p.png'', ''q.png'']"
    by (simp add: select_prompts_def open_repo_def require_round_prompts_def sample_up_to_def numeral_2_eq_2)
  show ?thesis
    by (simp add: collection_iteration_def require_state_def r f collect_submissions_def act_bind_def act_simps
        c_read_def c_tick_def a l p commit_files_def record_commit_def publication_def)
qed

theorem round_inputs_published_witness:
  "\<exists>s' b ws committed. collection_iteration open_env \<lparr>cl_repo = open_repo, cl_clock = 0, cl_commits = []\<rparr> = (Inr None, s') \<and>
     (10::int) \<le> b \<and> cl_commits s' = [(committed, ws)] \<and> length ws = 4"
proof -
  let ?s = "\<lparr>cl_repo = open_repo, cl_clock = 0, cl_commits = []\<rparr>"
  obtain c t where e: "collection_iteration open_env ?s =
     (Inr None, \<lparr>cl_repo = commit open_publication open_repo, cl_clock = c, cl_commits = [(t, open_publication)]\<rparr>)"
    (is "_ = (_, ?s')") using open_example by blast
  have r: "rp_state (cl_repo ?s) = Some \<lparr>current_round = 0, stage = OPEN, next_stage_eta = None\<rparr>"
    by (simp add: open_repo_def)
  have "cl_commits ?s' \<noteq> cl_commits ?s" by simp
  with round_inputs_published [OF r _ e] obtain schedule b where b: "require_schedule open_repo 0 = Inr schedule"
    "latest_reveal_block schedule \<le> (b :: int)" by (simp, blast)
  have "latest_reveal_block schedule = 10" using b(1)
    by (simp add: open_repo_def require_schedule_def get_schedule_def round_dir_of_def dget_default_def
        validate_schedule_def storage_prefix_def) auto
  with b(2) e show ?thesis by (intro exI [of _ ?s'] exI [of _ b]) (simp add: publication_def)
qed

text \<open>
  When the collector hands a round to the duels, the repository holds the generations of every
  submitted miner: what that miner's result index gives for the round's prompts, whatever order the
  collecting tasks finish in.
\<close>

theorem duels_stage_has_all_generations:
  assumes "rp_state (cl_repo s) = Some st" "stage st = COLLECTING" "collection_iteration env s = (r, s')"
    "rp_state (cl_repo s') = Some st'" "stage st' = DUELS"
    "require_submissions (cl_repo s) (current_round st) = Inr subs" "distinct (dkeys subs)"
    "mset (ce_order env subs) = mset subs" "(h, sub) \<in> set subs"
  shows "\<exists>urls schedule. require_round_prompts (cl_repo s) (Some (current_round st)) = Inr urls \<and>
    get_schedule (cl_repo s) (current_round st) = Inr schedule \<and>
    collect_miner (ce_cdn env) (ce_cdn_url env) (case schedule of None \<Rightarrow> [] | Some s \<Rightarrow> witness_storage_prefix s)
      (map (\<lambda>u. path_stem (ce_url_path env u)) urls) h sub =
    Inr (get_generations (cl_repo s') (current_round st) h)"
proof -
  from collection_iteration_collecting [OF assms(2,1,3)] assms(1,2,4,5) obtain ws where
    c: "collected env (current_round st) (cl_repo s) ws"
    and r: "cl_repo s' = commit (ws @ [WState (st\<lparr>stage := DUELS, next_stage_eta := None\<rparr>)]) (cl_repo s)" by auto
  from c assms(6) obtain urls schedule where
    "require_round_prompts (cl_repo s) (Some (current_round st)) = Inr urls"
    "get_schedule (cl_repo s) (current_round st) = Inr schedule"
    and l: "list_all2 (miner_write env (current_round st)
       (case schedule of None \<Rightarrow> [] | Some s \<Rightarrow> witness_storage_prefix s)
       (map (\<lambda>u. path_stem (ce_url_path env u)) urls)) (ce_order env subs) ws"
    by (auto simp: collected_def)
  moreover have d: "distinct (map fst (ce_order env subs))" "(h, sub) \<in> set (ce_order env subs)"
    using assms(7-9) by (metis mset_eq_imp_distinct_iff mset_map) (metis assms(8,9) mset_eq_setD)
  ultimately show ?thesis
    using miner_writes_get [OF l d, of "cl_repo s"] by (auto simp: r commit_append get_generations_def)
qed

theorem duels_stage_has_all_generations_witness:
  "get_generations (cl_repo (snd (collection_iteration example_collector_env
      \<lparr>cl_repo = collecting_repo, cl_clock = 0, cl_commits = []\<rparr>))) 4 ''h1'' = example_collected"
proof -
  let ?s = "\<lparr>cl_repo = collecting_repo, cl_clock = 0, cl_commits = []\<rparr>"
  have rs: "rp_state (cl_repo ?s) = Some \<lparr>current_round = 4, stage = COLLECTING, next_stage_eta = None\<rparr>"
    "require_submissions (cl_repo ?s) 4 = Inr [(''h1'', example_submission), (''h2'', example_submission)]"
    "require_round_prompts (cl_repo ?s) (Some 4) = Inr [''p.png'', ''q.png'']" "get_schedule (cl_repo ?s) 4 = Inr None"
    by (simp_all add: collecting_repo_def get_schedule_def require_submissions_def require_round_prompts_def
        round_dir_of_def dget_default_def empty_round_def)
  have stems: "path_stem ''p.png'' = ''p''" "path_stem ''q.png'' = ''q''" by code_simp+
  have o: "ce_order example_collector_env = rev" "ce_cdn_url example_collector_env = ''cdn''"
    "ce_url_path example_collector_env = (\<lambda>u. u)"
    by (simp_all add: example_collector_env_def)
  show ?thesis
    using duels_stage_has_all_generations [OF rs(1) _ example_collecting, of _
        "[(''h1'', example_submission), (''h2'', example_submission)]" "''h1''" example_submission]
      rs example_collect_miner by (simp add: o stems example_collecting)
qed

definition samples :: "(string list \<Rightarrow> nat \<Rightarrow> string list) \<Rightarrow> bool" where
  "samples f = (\<forall>xs k. k \<le> length xs \<longrightarrow> length (f xs k) = k \<and> set (f xs k) \<subseteq> set xs \<and>
     (distinct xs \<longrightarrow> distinct (f xs k)))"

lemma sample_up_to_spec:
  assumes "samples f" "0 \<le> k" "sample_up_to f xs k = Inr out" "distinct xs"
  shows "int (length out) = min k (int (length xs)) \<and> set out \<subseteq> set xs \<and> distinct out"
proof (cases "int (length xs) \<le> k")
  case False
  then have "nat k \<le> length xs" by simp
  with assms False show ?thesis by (auto simp: sample_up_to_def samples_def min_def)
qed (use assms in \<open>auto simp: sample_up_to_def min_def\<close>)

text \<open>
  The prompts of a round are distinct; they come from the previous round, as many as the config
  carries over or the previous round has, and otherwise from the pool, until the configured number is
  reached or the pool is used up.
\<close>

theorem select_prompts_spec:
  assumes "samples (sample seed 0)" "samples (sample seed 1)"
    and sel: "select_prompts sample r n config seed = Inr prompts"
    and pool: "rp_pool r = Some pool" "distinct pool"
    and prev: "previous = (case rd_prompts (round_dir_of r (n - 1)) of None \<Rightarrow> [] | Some ps \<Rightarrow> ps)" "distinct previous"
    and cfg: "0 \<le> carryover_prompts config" "carryover_prompts config \<le> prompts_per_round config"
  shows "\<exists>carryover new. prompts = carryover @ new \<and> distinct prompts \<and>
    set carryover \<subseteq> set previous \<and> set new \<subseteq> set pool \<and>
    int (length carryover) = (if 0 < n then min (carryover_prompts config) (int (length previous)) else 0) \<and>
    int (length prompts) = min (prompts_per_round config)
      (int (length carryover) + int (length (filter (\<lambda>p. p \<notin> set carryover) pool)))"
proof -
  let ?k = "carryover_prompts config"
  define call where "call = (if 0 < ?k \<and> ?k < int (length (if 0 < n \<and> 0 < ?k then previous else [])) then 1 else 0 :: nat)"
  from sel pool(1) obtain pv carryover new where
    pv: "(if 0 < n \<and> 0 < ?k then require_round_prompts r (Some (n - 1)) else Inr []) = Inr pv"
    and c: "(if 0 < ?k then sample_up_to (sample seed 0) pv ?k else Inr []) = Inr carryover"
    and new: "sample_up_to (sample seed (if 0 < ?k \<and> ?k < int (length pv) then 1 else 0))
        (filter (\<lambda>p. p \<notin> set carryover) pool) (prompts_per_round config - int (length carryover)) = Inr new"
    and p: "prompts = carryover @ new"
    by (auto simp: select_prompts_def require_round_prompts_def rbind_eq_Inr rmap_eq_Inr Let_def)
  have pv': "pv = (if 0 < n \<and> 0 < ?k then previous else [])"
    using pv by (auto simp: require_round_prompts_def prev(1) split: if_splits)
  have d: "distinct pv" using prev(2) pv' by simp
  have c': "int (length carryover) = min ?k (int (length pv)) \<and> set carryover \<subseteq> set pv \<and> distinct carryover"
  proof (cases "0 < ?k")
    case True
    with c have "sample_up_to (sample seed 0) pv ?k = Inr carryover" by simp
    from sample_up_to_spec [OF assms(1) cfg(1) this d] show ?thesis .
  qed (use c cfg(1) in simp)
  have s: "samples (sample seed (if 0 < ?k \<and> ?k < int (length pv) then 1 else 0))" using assms(1,2) by simp
  have le: "0 \<le> prompts_per_round config - int (length carryover)" using c' cfg(2) by linarith
  have "distinct (filter (\<lambda>p. p \<notin> set carryover) pool)" using pool(2) by simp
  from sample_up_to_spec [OF s le new this]
  have n: "int (length new) = min (prompts_per_round config - int (length carryover))
      (int (length (filter (\<lambda>p. p \<notin> set carryover) pool)))"
    "set new \<subseteq> set pool - set carryover" "distinct new" by auto
  have "set carryover \<subseteq> set previous" using c' pv' by (auto split: if_splits)
  moreover have "int (length carryover) = (if 0 < n then min ?k (int (length previous)) else 0)"
    using c' pv' cfg(1) by (auto split: if_splits)
  moreover have "distinct prompts" using p c' n by auto
  moreover have "int (length prompts) = min (prompts_per_round config)
      (int (length carryover) + int (length (filter (\<lambda>p. p \<notin> set carryover) pool)))"
    using p n(1) by simp
  ultimately show ?thesis using p n(2) by blast
qed

definition prompts_repo :: repo where
  "prompts_repo = open_repo\<lparr>rp_rounds := [(0, empty_round\<lparr>rd_prompts := Some [''p.png'', ''q.png'']\<rparr>)]\<rparr>"

theorem select_prompts_spec_witness:
  "\<exists>carryover new. [''p.png'', ''q.png''] = carryover @ new \<and> length carryover = 1 \<and>
     set carryover \<subseteq> {''p.png'', ''q.png''}"
proof -
  define config where "config = (the (rp_config open_repo))\<lparr>carryover_prompts := 1\<rparr>"
  have s: "samples (\<lambda>xs k. take k xs)" by (auto simp: samples_def dest: in_set_takeD)
  have "select_prompts (\<lambda>_ _ xs k. take k xs) prompts_repo 1 config 3 = Inr [''p.png'', ''q.png'']"
    by (simp add: select_prompts_def prompts_repo_def open_repo_def require_round_prompts_def sample_up_to_def
        config_def round_dir_of_def dget_default_def)
  from select_prompts_spec [of "\<lambda>_ _ xs k. take k xs" 3, OF s s this, of "[''p.png'', ''q.png'', ''r.png'']"]
  show ?thesis
    by (simp add: prompts_repo_def open_repo_def round_dir_of_def dget_default_def config_def) blast
qed

end
