(* ===== verification/Lifecycle.thy ===== *)
theory Lifecycle
  imports Collector RoundManager
begin

text \<open>
  The services in sequence: what the collector commits is what the round manager later finds. The
  stages of both are the fields of the one repository, so their composition is the repository one
  leaves and the other reads.
\<close>

lemma finalize_needs_winner:
  assumes "require_state r = Inr st" "stage st = FINALIZING" "rd_winner (round_dir_of r (current_round st)) = None"
  shows "\<not> is_ok (finalize_round r block now pause)"
proof
  assume ok: "is_ok (finalize_round r block now pause)"
  from assms(3) have no: "\<not> is_ok (require_round_result r (current_round st))"
    by (simp add: require_round_result_def)
  from ok obtain ws where "finalize_round r block now pause = Inr ws" by (auto simp: is_ok_iff)
  with assms(1,2) no show False
    by (auto simp: finalize_round_def Let_def case_prod_unfold rbind_eq_Inr is_ok_iff)
qed

text \<open>
  C9: A round for which nobody submitted stops the competition: the collector moves it from the open
  stage straight to finalization and writes no winner, and from then on every attempt of the round
  manager to finalize it fails, at any block and time.
\<close>

theorem empty_round_blocks_competition:
  assumes "rp_state (cl_repo s) = Some st" "stage st = OPEN"
    "rd_winner (round_dir_of (cl_repo s) (current_round st)) = None"
    "collection_iteration env s = (r, s')" "rp_state (cl_repo s') = Some st'" "stage st' = FINALIZING"
  shows "\<not> is_ok (finalize_round (cl_repo s') block now pause)"
proof -
  from collection_iteration_open [OF assms(2,1,4)] assms(1,2,5,6)
  have r: "cl_repo s' = commit [WState (st\<lparr>stage := FINALIZING, next_stage_eta := None\<rparr>)] (cl_repo s)"
    unfolding open_outcome_def by (elim disjE exE conjE) auto
  then have "require_state (cl_repo s') = Inr st'" "current_round st' = current_round st"
    using assms(5) by (auto simp: require_state_def)
  with finalize_needs_winner assms(3,6) r show ?thesis by simp
qed

definition empty_env :: collector_env where
  "empty_env = open_env\<lparr>ce_commitments := (\<lambda>_. Inr [])\<rparr>"

lemma empty_example:
  "\<exists>c l. collection_iteration empty_env \<lparr>cl_repo = open_repo, cl_clock = 0, cl_commits = []\<rparr> =
     (Inr None, \<lparr>cl_repo = commit [WState \<lparr>current_round = 0, stage = FINALIZING, next_stage_eta = None\<rparr>] open_repo,
        cl_clock = c, cl_commits = l\<rparr>)"
proof -
  let ?s = "\<lparr>earliest_reveal_block = 5, latest_reveal_block = 10,
        generation_deadline_block = None, witness_storage_prefix = [], witness_save_submissions = True\<rparr>"
  have f: "ce_block empty_env = (\<lambda>_. Inr 2000)" "ce_commitments empty_env = (\<lambda>_. Inr [])"
    "ce_owners empty_env = (\<lambda>_. Inr [(''5Hotkey-example'', ''cold'')])" "ce_commit empty_env = (\<lambda>_. Inr ())"
    by (simp_all add: empty_env_def open_env_def example_collector_env_def)
  have r: "rp_state open_repo = Some \<lparr>current_round = 0, stage = OPEN, next_stage_eta = None\<rparr>"
    "require_schedule open_repo 0 = Inr ?s" "require_config open_repo = Inr (the (rp_config open_repo))"
    by (simp_all add: open_repo_def require_schedule_def get_schedule_def round_dir_of_def dget_default_def
        validate_schedule_def storage_prefix_def require_config_def)
  show ?thesis
    by (simp add: collection_iteration_def require_state_def r f collect_submissions_def act_bind_def act_simps
        c_read_def c_tick_def read_submissions_def filter_by_conviction_lock_def commit_files_def record_commit_def
        transition_stage_def map_filter_def)
qed

theorem empty_round_blocks_competition_witness:
  "\<exists>s'. snd (collection_iteration empty_env \<lparr>cl_repo = open_repo, cl_clock = 0, cl_commits = []\<rparr>) = s' \<and>
     \<not> is_ok (finalize_round (cl_repo s') (Inr 3000) 5 False)"
proof -
  obtain c l where e: "collection_iteration empty_env \<lparr>cl_repo = open_repo, cl_clock = 0, cl_commits = []\<rparr> =
     (Inr None, \<lparr>cl_repo = commit [WState \<lparr>current_round = 0, stage = FINALIZING, next_stage_eta = None\<rparr>] open_repo,
        cl_clock = c, cl_commits = l\<rparr>)" using empty_example by blast
  have r: "rp_state (cl_repo \<lparr>cl_repo = open_repo, cl_clock = 0, cl_commits = []\<rparr>) =
      Some \<lparr>current_round = 0, stage = OPEN, next_stage_eta = None\<rparr>"
    "rd_winner (round_dir_of (cl_repo \<lparr>cl_repo = open_repo, cl_clock = 0, cl_commits = []\<rparr>) 0) = None"
    by (simp_all add: open_repo_def round_dir_of_def dget_default_def empty_round_def)
  show ?thesis
    using empty_round_blocks_competition [OF r(1) _ _ e] r(2) by (simp add: e)
qed

end
