(* ===== verification/GitStore.thy ===== *)
theory GitStore
  imports PyFloat
begin

text \<open>
  The client of the competition repository, from \<^verbatim>\<open>shared/subnet_common/github.py\<close>, and the batcher of
  writes over it, from \<^verbatim>\<open>git_batcher.py\<close>. GitHub itself is a parameter: the answers of its HTTP
  interface as functions on a world. What the client relies on is the predicate \<open>github_laws\<close>.
  The batcher runs between the awaits of its coroutines: each atomic piece is one operation, and
  \<open>batch_step\<close> is their interleaving.
\<close>

section \<open>The client\<close>

datatype 'a answer = Answer int 'a | NoAnswer

definition raise_for_status :: "'a answer \<Rightarrow> 'a result" where
  "raise_for_status a = (case a of
     NoAnswer \<Rightarrow> Inl RequestError
   | Answer status body \<Rightarrow> if 200 \<le> status \<and> status < 300 then Inr body else Inl (HTTPStatusError status))"

record 'w github =
  gh_ref :: "string \<Rightarrow> 'w \<Rightarrow> string answer \<times> 'w"
  gh_file :: "string \<Rightarrow> string \<Rightarrow> 'w \<Rightarrow> string answer \<times> 'w"
  gh_tree :: "string \<Rightarrow> 'w \<Rightarrow> string answer \<times> 'w"
  gh_blob :: "string \<Rightarrow> 'w \<Rightarrow> string answer \<times> 'w"
  gh_new_tree :: "string \<Rightarrow> (string \<times> string) list \<Rightarrow> 'w \<Rightarrow> string answer \<times> 'w"
  gh_commit :: "string \<Rightarrow> string \<Rightarrow> string \<Rightarrow> 'w \<Rightarrow> string answer \<times> 'w"
  gh_update_ref :: "string \<Rightarrow> string \<Rightarrow> bool \<Rightarrow> 'w \<Rightarrow> unit answer \<times> 'w"

definition checked :: "('w \<Rightarrow> 'a answer \<times> 'w) \<Rightarrow> ('w, 'a) action" where
  "checked request w = (case request w of (a, w') \<Rightarrow> (raise_for_status a, w'))"

definition get_ref_sha :: "'w github \<Rightarrow> string \<Rightarrow> ('w, string) action" where
  "get_ref_sha gh ref = checked (gh_ref gh ref)"

definition get_file :: "'w github \<Rightarrow> string \<Rightarrow> string \<Rightarrow> ('w, string option) action" where
  "get_file gh path ref w =
     (case gh_file gh path ref w of
        (Answer status body, w') \<Rightarrow>
          if status = 404 then (Inr None, w') else (rmap Some (raise_for_status (Answer status body)), w')
      | (NoAnswer, w') \<Rightarrow> (Inl RequestError, w'))"

fun create_blobs :: "'w github \<Rightarrow> (string, string) dict \<Rightarrow> ('w, (string \<times> string) list) action" where
  "create_blobs gh [] = act_return []"
| "create_blobs gh ((path, content) # files) =
     act_bind (checked (gh_blob gh content)) (\<lambda>sha.
     act_bind (create_blobs gh files) (\<lambda>items. act_return ((path, sha) # items)))"

text \<open>The last argument of the request is the field \<^verbatim>\<open>force\<close> of its body.\<close>

definition update_ref :: "'w github \<Rightarrow> string \<Rightarrow> string \<Rightarrow> ('w, unit) action" where
  "update_ref gh ref sha = checked (gh_update_ref gh ref sha False)"

definition commit_files :: "'w github \<Rightarrow> (string, string) dict \<Rightarrow> string \<Rightarrow> string \<Rightarrow> string option \<Rightarrow>
    ('w, string) action" where
  "commit_files gh files message branch base =
     act_bind (case base of None \<Rightarrow> get_ref_sha gh (''heads/'' @ branch) | Some b \<Rightarrow> act_return b) (\<lambda>base_sha.
     act_bind (checked (gh_tree gh base_sha)) (\<lambda>tree_sha.
     act_bind (create_blobs gh files) (\<lambda>items.
     act_bind (checked (gh_new_tree gh tree_sha items)) (\<lambda>new_tree_sha.
     act_bind (checked (gh_commit gh message new_tree_sha base_sha)) (\<lambda>new_commit_sha.
     act_bind (update_ref gh (''heads/'' @ branch) new_commit_sha) (\<lambda>_.
       act_return new_commit_sha))))))"

section \<open>What GitHub promises\<close>

text \<open>
  What can be seen of the world: contents of blobs, trees as path maps, commits with their tree and
  parent, and the branches; \<open>gv_others\<close> is what the other clients of the repository may do to it
  meanwhile. Objects never change. The other clients move a branch only to descendants. A read or a
  creation moves no branch by itself (\<open>quiet\<close>), and a successful creation makes the object asked for.
  The update of a branch either leaves every branch where it is and is answered with an error, or
  sets that branch, in one step, to the commit asked for; then it is answered with success, or its
  answer is lost or replaced by a gateway's 5xx. Without \<^verbatim>\<open>force\<close> it does so only when that
  is a fast-forward of what the branch is at in this step; with \<^verbatim>\<open>force\<close> nothing is checked.
\<close>

record 'w git_view =
  gv_blob :: "'w \<Rightarrow> string \<Rightarrow> string option"
  gv_tree :: "'w \<Rightarrow> string \<Rightarrow> (string \<rightharpoonup> string) option"
  gv_commit :: "'w \<Rightarrow> string \<Rightarrow> (string \<times> string) option"
  gv_head :: "'w \<Rightarrow> string \<Rightarrow> string option"
  gv_others :: "'w \<Rightarrow> 'w \<Rightarrow> bool"

inductive ancestor :: "'w git_view \<Rightarrow> 'w \<Rightarrow> string \<Rightarrow> string \<Rightarrow> bool" for v w where
  itself: "ancestor v w c c"
| parent: "gv_commit v w c = Some (t, p) \<Longrightarrow> ancestor v w a p \<Longrightarrow> ancestor v w a c"

definition objects_kept :: "'w git_view \<Rightarrow> 'w \<Rightarrow> 'w \<Rightarrow> bool" where
  "objects_kept v w w' =
     ((\<forall>s x. gv_blob v w s = Some x \<longrightarrow> gv_blob v w' s = Some x) \<and>
      (\<forall>s x. gv_tree v w s = Some x \<longrightarrow> gv_tree v w' s = Some x) \<and>
      (\<forall>s x. gv_commit v w s = Some x \<longrightarrow> gv_commit v w' s = Some x))"

definition forwards :: "'w git_view \<Rightarrow> 'w \<Rightarrow> 'w \<Rightarrow> bool" where
  "forwards v w w' = (\<forall>b h. gv_head v w b = Some h \<longrightarrow> (\<exists>h'. gv_head v w' b = Some h' \<and> ancestor v w' h h'))"

definition quiet :: "'w git_view \<Rightarrow> 'w \<Rightarrow> 'w \<Rightarrow> bool" where
  "quiet v w w' = (\<exists>w1. gv_others v w w1 \<and> objects_kept v w1 w' \<and> gv_head v w' = gv_head v w1)"

definition sets_branch :: "'w git_view \<Rightarrow> string \<Rightarrow> string \<Rightarrow> 'w \<Rightarrow> 'w \<Rightarrow> bool" where
  "sets_branch v b c w w' = (objects_kept v w w' \<and> gv_head v w' = (gv_head v w)(b \<mapsto> c))"

fun lost_answer :: "exn \<Rightarrow> bool" where
  "lost_answer RequestError = True"
| "lost_answer (HTTPStatusError status) = (500 \<le> status)"
| "lost_answer e = False"

definition overlay :: "'w git_view \<Rightarrow> 'w \<Rightarrow> (string \<times> string) list \<Rightarrow> (string \<rightharpoonup> string) \<Rightarrow> (string \<rightharpoonup> string)" where
  "overlay v w items F = (\<lambda>p. case map_of (rev items) p of None \<Rightarrow> F p | Some s \<Rightarrow> gv_blob v w s)"

definition github_laws :: "'w github \<Rightarrow> 'w git_view \<Rightarrow> bool" where
  "github_laws gh v =
     ((\<forall>w w'. gv_others v w w' \<longrightarrow> objects_kept v w w' \<and> forwards v w w') \<and>
      (\<forall>r w a w'. gh_ref gh r w = (a, w') \<longrightarrow> quiet v w w') \<and>
      (\<forall>c w a w'. gh_tree gh c w = (a, w') \<longrightarrow> quiet v w w' \<and>
         (\<forall>t x. raise_for_status a = Inr t \<longrightarrow> gv_commit v w c = Some x \<longrightarrow> t = fst x)) \<and>
      (\<forall>s w a w'. gh_blob gh s w = (a, w') \<longrightarrow> quiet v w w' \<and>
         (\<forall>b. raise_for_status a = Inr b \<longrightarrow> gv_blob v w' b = Some s)) \<and>
      (\<forall>t items w a w'. gh_new_tree gh t items w = (a, w') \<longrightarrow> quiet v w w' \<and>
         (\<forall>n F. raise_for_status a = Inr n \<longrightarrow> gv_tree v w t = Some F \<longrightarrow>
            gv_tree v w' n = Some (overlay v w items F))) \<and>
      (\<forall>m t p w a w'. gh_commit gh m t p w = (a, w') \<longrightarrow> quiet v w w' \<and>
         (\<forall>c. raise_for_status a = Inr c \<longrightarrow> gv_commit v w' c = Some (t, p))) \<and>
      (\<forall>b c force w a w'. gh_update_ref gh b c force w = (a, w') \<longrightarrow>
         (quiet v w w' \<and> (\<exists>e. raise_for_status a = Inl e)) \<or>
         (\<exists>w1 h. quiet v w w1 \<and> gv_head v w1 b = Some h \<and> (\<not> force \<longrightarrow> ancestor v w1 h c) \<and>
            sets_branch v b c w1 w' \<and> (\<forall>e. raise_for_status a = Inl e \<longrightarrow> lost_answer e))))"

text \<open>The laws, one for each request.\<close>

lemma github_lawsD:
  assumes "github_laws gh v"
  shows "gv_others v w w' \<Longrightarrow> objects_kept v w w' \<and> forwards v w w'"
    "gh_tree gh c w = (a, w') \<Longrightarrow> quiet v w w'"
    "gh_tree gh c w = (a, w') \<Longrightarrow> raise_for_status a = Inr t \<Longrightarrow> gv_commit v w c = Some x \<Longrightarrow> t = fst x"
    "gh_blob gh s w = (a, w') \<Longrightarrow> quiet v w w'"
    "gh_blob gh s w = (a, w') \<Longrightarrow> raise_for_status a = Inr b \<Longrightarrow> gv_blob v w' b = Some s"
    "gh_new_tree gh tr items w = (a, w') \<Longrightarrow> quiet v w w'"
    "gh_new_tree gh tr items w = (a, w') \<Longrightarrow> raise_for_status a = Inr n \<Longrightarrow> gv_tree v w tr = Some F \<Longrightarrow>
       gv_tree v w' n = Some (overlay v w items F)"
    "gh_commit gh m tr p w = (a, w') \<Longrightarrow> quiet v w w'"
    "gh_commit gh m tr p w = (a, w') \<Longrightarrow> raise_for_status a = Inr c' \<Longrightarrow> gv_commit v w' c' = Some (tr, p)"
  using assms unfolding github_laws_def by metis+

lemma update_law:
  assumes "github_laws gh v" "gh_update_ref gh b c force w = (a, w')"
  shows "(quiet v w w' \<and> (\<exists>e. raise_for_status a = Inl e)) \<or>
       (\<exists>w1 h. quiet v w w1 \<and> gv_head v w1 b = Some h \<and> (\<not> force \<longrightarrow> ancestor v w1 h c) \<and>
          sets_branch v b c w1 w' \<and> (\<forall>e. raise_for_status a = Inl e \<longrightarrow> lost_answer e))"
  using assms(1) unfolding github_laws_def by (elim conjE) (drule spec | drule mp [OF _ assms(2)] | assumption)+

lemma objects_keptD:
  assumes "objects_kept v w w'"
  shows "gv_blob v w s = Some x \<Longrightarrow> gv_blob v w' s = Some x"
    "gv_tree v w s = Some F \<Longrightarrow> gv_tree v w' s = Some F"
    "gv_commit v w s = Some c \<Longrightarrow> gv_commit v w' s = Some c"
  using assms unfolding objects_kept_def by blast+

lemma objects_keptI:
  assumes "\<And>s x. gv_blob v w s = Some x \<Longrightarrow> gv_blob v w' s = Some x"
    "\<And>s F. gv_tree v w s = Some F \<Longrightarrow> gv_tree v w' s = Some F"
    "\<And>s c. gv_commit v w s = Some c \<Longrightarrow> gv_commit v w' s = Some c"
  shows "objects_kept v w w'"
  using assms unfolding objects_kept_def by blast

lemma objects_kept_refl [simp]: "objects_kept v w w"
  by (simp add: objects_kept_def)

lemma objects_kept_trans: "objects_kept v w1 w2 \<Longrightarrow> objects_kept v w2 w3 \<Longrightarrow> objects_kept v w1 w3"
  by (simp add: objects_kept_def)

lemma ancestor_kept: "ancestor v w a c \<Longrightarrow> objects_kept v w w' \<Longrightarrow> ancestor v w' a c"
proof (induction rule: ancestor.induct)
  case (parent c t p a)
  then show ?case by (blast intro: ancestor.parent objects_keptD(3))
qed (rule ancestor.itself)

lemma ancestor_trans: "ancestor v w b c \<Longrightarrow> ancestor v w a b \<Longrightarrow> ancestor v w a c"
  by (induction rule: ancestor.induct) (auto intro: ancestor.parent)

lemma forwards_trans:
  assumes "forwards v w1 w2" "forwards v w2 w3" "objects_kept v w2 w3"
  shows "forwards v w1 w3"
  unfolding forwards_def
proof (intro allI impI)
  fix b h
  assume "gv_head v w1 b = Some h"
  with assms(1) obtain h2 where h2: "gv_head v w2 b = Some h2" "ancestor v w2 h h2" unfolding forwards_def by blast
  with assms(2) obtain h3 where "gv_head v w3 b = Some h3" "ancestor v w3 h2 h3" unfolding forwards_def by blast
  with ancestor_kept [OF h2(2) assms(3)] show "\<exists>h'. gv_head v w3 b = Some h' \<and> ancestor v w3 h h'"
    by (blast intro: ancestor_trans)
qed

lemma forwards_same: "gv_head v w' = gv_head v w \<Longrightarrow> forwards v w w'"
  by (auto simp: forwards_def intro: ancestor.itself)

text \<open>While the client only reads and creates, the branches move by the other clients alone.\<close>

abbreviation by_others :: "'w git_view \<Rightarrow> 'w \<Rightarrow> 'w \<Rightarrow> bool" where
  "by_others v \<equiv> (quiet v)\<^sup>*\<^sup>*"

lemma by_others_kept:
  assumes "github_laws gh v" "by_others v w w'"
  shows "objects_kept v w w' \<and> forwards v w w'"
  using assms(2)
proof (induction rule: rtranclp_induct)
  case base
  show ?case by (simp add: forwards_same)
next
  case (step y z)
  from step.hyps(2) obtain u where u: "gv_others v y u" "objects_kept v u z" "gv_head v z = gv_head v u"
    unfolding quiet_def by blast
  from github_lawsD(1) [OF assms(1) u(1)] have "objects_kept v y u" "forwards v y u" by blast+
  with u(2,3) have "objects_kept v y z" "forwards v y z" by (blast intro: objects_kept_trans forwards_trans forwards_same)+
  with step.IH show ?case by (blast intro: objects_kept_trans forwards_trans)
qed

text \<open>
  What an action does from a world: \<open>E\<close> holds of the error and the world when it raises, \<open>Q\<close> of the
  value and the world when it returns.
\<close>

definition leads :: "'w \<Rightarrow> ('w, 'a) action \<Rightarrow> (exn \<Rightarrow> 'w \<Rightarrow> bool) \<Rightarrow> ('a \<Rightarrow> 'w \<Rightarrow> bool) \<Rightarrow> bool" where
  "leads w m E Q = (case m w of (Inl e, w') \<Rightarrow> E e w' | (Inr x, w') \<Rightarrow> Q x w')"

lemma leads_return [simp]: "leads w (act_return x) E Q = Q x w"
  by (simp add: leads_def act_simps)

lemma leads_bind [simp]: "leads w (act_bind m f) E Q = leads w m E (\<lambda>x w'. leads w' (f x) E Q)"
  by (simp add: leads_def act_bind_def split: prod.splits sum.splits)

lemma leads_checked:
  assumes "\<And>a w'. request w = (a, w') \<Longrightarrow> case raise_for_status a of Inl e \<Rightarrow> E e w' | Inr x \<Rightarrow> Q x w'"
  shows "leads w (checked request) E Q"
  using assms by (simp add: leads_def checked_def split: prod.splits sum.splits)

lemma leads_mono:
  assumes "leads w m E Q" "\<And>e w'. E e w' \<Longrightarrow> E' e w'" "\<And>x w'. Q x w' \<Longrightarrow> Q' x w'"
  shows "leads w m E' Q'"
  using assms by (auto simp: leads_def split: prod.splits sum.splits)

text \<open>The requests of a commit: each but the last is quiet, and makes its object when it returns.\<close>

lemma leads_tree:
  assumes "github_laws gh v" "gv_commit v w c = Some (t0, p0)"
  shows "leads w (checked (gh_tree gh c)) (\<lambda>e. quiet v w) (\<lambda>t w'. t = t0 \<and> quiet v w w')"
  by (rule leads_checked) (use github_lawsD(2,3) [OF assms(1)] assms(2) in \<open>fastforce split: sum.splits\<close>)

lemma leads_blob:
  assumes "github_laws gh v"
  shows "leads w (checked (gh_blob gh s)) (\<lambda>e. quiet v w) (\<lambda>b w'. gv_blob v w' b = Some s \<and> quiet v w w')"
  by (rule leads_checked) (use github_lawsD(4,5) [OF assms] in \<open>auto split: sum.splits\<close>)

lemma leads_new_tree:
  assumes "github_laws gh v" "gv_tree v w t = Some F"
  shows "leads w (checked (gh_new_tree gh t items)) (\<lambda>e. quiet v w)
    (\<lambda>n w'. gv_tree v w' n = Some (overlay v w items F) \<and> quiet v w w')"
  by (rule leads_checked) (use github_lawsD(6,7) [OF assms(1)] assms(2) in \<open>auto split: sum.splits\<close>)

lemma leads_commit:
  assumes "github_laws gh v"
  shows "leads w (checked (gh_commit gh m t p)) (\<lambda>e. quiet v w) (\<lambda>c w'. gv_commit v w' c = Some (t, p) \<and> quiet v w w')"
  by (rule leads_checked) (use github_lawsD(8,9) [OF assms] in \<open>auto split: sum.splits\<close>)

text \<open>The one step in which the branch is set to a commit, from an ancestor of it.\<close>

definition fast_forward :: "'w git_view \<Rightarrow> string \<Rightarrow> string \<Rightarrow> 'w \<Rightarrow> 'w \<Rightarrow> bool" where
  "fast_forward v b c w w' =
     (\<exists>w1 h. by_others v w w1 \<and> gv_head v w1 b = Some h \<and> ancestor v w1 h c \<and> sets_branch v b c w1 w')"

lemma leads_update:
  assumes "github_laws gh v"
  shows "leads w (update_ref gh b c)
    (\<lambda>e w'. by_others v w w' \<or> (fast_forward v b c w w' \<and> lost_answer e)) (\<lambda>u. fast_forward v b c w)"
  unfolding update_ref_def
proof (rule leads_checked)
  fix a w'
  assume "gh_update_ref gh b c False w = (a, w')"
  from update_law [OF assms this] show "case raise_for_status a of
      Inl e \<Rightarrow> by_others v w w' \<or> (fast_forward v b c w w' \<and> lost_answer e)
    | Inr u \<Rightarrow> fast_forward v b c w w'"
    unfolding fast_forward_def by (auto split: sum.splits)
qed

text \<open>Blobs made for the files: one item for each, in order, with its content.\<close>

abbreviation blobs_of :: "'w git_view \<Rightarrow> 'w \<Rightarrow> (string, string) dict \<Rightarrow> (string \<times> string) list \<Rightarrow> bool" where
  "blobs_of v w \<equiv> list_all2 (\<lambda>f i. fst i = fst f \<and> gv_blob v w (snd i) = Some (snd f))"

lemma blobs_of_kept: "blobs_of v w files items \<Longrightarrow> objects_kept v w w' \<Longrightarrow> blobs_of v w' files items"
  by (erule list_all2_mono) (auto intro: objects_keptD)

lemma leads_blobs:
  assumes "github_laws gh v"
  shows "leads w (create_blobs gh files) (\<lambda>e. by_others v w) (\<lambda>items w'. blobs_of v w' files items \<and> by_others v w w')"
proof (induction files arbitrary: w)
  case (Cons f files)
  obtain path content where f: "f = (path, content)" by force
  show ?case unfolding f create_blobs.simps leads_bind leads_return
  proof (rule leads_mono [OF leads_blob [OF assms]])
    fix sha w1
    assume s: "gv_blob v w1 sha = Some content \<and> quiet v w w1"
    show "leads w1 (create_blobs gh files) (\<lambda>e. by_others v w)
      (\<lambda>items w'. blobs_of v w' ((path, content) # files) ((path, sha) # items) \<and> by_others v w w')"
      by (rule leads_mono [OF Cons.IH])
        (use s in \<open>auto intro: converse_rtranclp_into_rtranclp dest: by_others_kept [OF assms] objects_keptD(1)\<close>)
  qed blast
qed simp

lemma overlay_items:
  assumes "blobs_of v w files items"
  shows "overlay v w items F = F ++ map_of (rev files)"
proof
  fix p
  from assms have "(case map_of (rev items) p of None \<Rightarrow> map_of (rev files) p = None
      | Some s \<Rightarrow> map_of (rev files) p = gv_blob v w s \<and> gv_blob v w s \<noteq> None)"
  proof (induction rule: list_all2_induct)
    case (Cons f files i items)
    then show ?case
      by (cases f; cases i) (auto simp: map_add_def split: option.splits)
  qed simp
  then show "overlay v w items F p = (F ++ map_of (rev files)) p"
    by (auto simp: overlay_def map_add_def split: option.splits)
qed

text \<open>
  What a commit of files may do: nothing to any branch, or one fast-forward of its own branch to a
  commit on top of the base with exactly the files replaced.
\<close>

definition committed_once :: "'w git_view \<Rightarrow> string \<Rightarrow> string \<Rightarrow> (string \<rightharpoonup> string) \<Rightarrow> string \<Rightarrow> 'w \<Rightarrow> 'w \<Rightarrow> bool" where
  "committed_once v b base F c w w' =
     (\<exists>w1 h t. by_others v w w1 \<and> gv_head v w1 b = Some h \<and> ancestor v w1 h c \<and> sets_branch v b c w1 w' \<and>
        gv_commit v w1 c = Some (t, base) \<and> gv_tree v w1 t = Some F)"

lemma leads_commit_files:
  assumes laws: "github_laws gh v" and d: "distinct (dkeys files)"
    and base: "gv_commit v w base = Some (t0, p0)" "gv_tree v w t0 = Some F"
  shows "leads w (commit_files gh files msg br (Some base))
    (\<lambda>e w'. by_others v w w' \<or>
       (\<exists>c. committed_once v (''heads/'' @ br) base (F ++ map_of files) c w w' \<and> lost_answer e))
    (\<lambda>c. committed_once v (''heads/'' @ br) base (F ++ map_of files) c w)"
    (is "leads w _ ?E ?Q")
proof -
  let ?b = "''heads/'' @ br"
  have files: "map_of (rev files) = map_of files" using d
    by (metis distinct_rev map_of_inject_set rev_map set_rev)
  have last: "leads w4 (update_ref gh ?b c) ?E (\<lambda>u. ?Q c)"
    if w: "by_others v w w4" "gv_commit v w4 c = Some (t2, base)" "gv_tree v w4 t2 = Some (F ++ map_of files)"
    for c t2 w4
  proof (rule leads_mono [OF leads_update [OF laws]])
    have *: "committed_once v ?b base (F ++ map_of files) c w w'" if "fast_forward v ?b c w4 w'" for w'
    proof -
      from that obtain w5 h where s: "by_others v w4 w5" "gv_head v w5 ?b = Some h" "ancestor v w5 h c"
        "sets_branch v ?b c w5 w'" unfolding fast_forward_def by blast
      with by_others_kept [OF laws s(1)] w have "by_others v w w5" "gv_commit v w5 c = Some (t2, base)"
        "gv_tree v w5 t2 = Some (F ++ map_of files)" by (auto dest: objects_keptD)
      with s(2-4) show ?thesis unfolding committed_once_def by blast
    qed
    show "?E e w'" if "by_others v w4 w' \<or> fast_forward v ?b c w4 w' \<and> lost_answer e" for e w'
      using that
    proof
      assume "by_others v w4 w'"
      with w(1) show ?thesis by (meson rtranclp_trans)
    qed (use * in blast)
    show "?Q c w'" if "fast_forward v ?b c w4 w'" for w' using that by (rule *)
  qed
  have commit: "leads w3 (checked (gh_commit gh msg t2 base)) ?E (\<lambda>c w4. leads w4 (update_ref gh ?b c) ?E (\<lambda>u. ?Q c))"
    if w: "by_others v w w3" "gv_tree v w3 t2 = Some (F ++ map_of files)" for t2 w3
  proof (rule leads_mono [OF leads_commit [OF laws]])
    show "?E e w'" if "quiet v w3 w'" for e w' using that w(1) by (meson rtranclp.rtrancl_into_rtrancl)
    fix c w4
    assume "gv_commit v w4 c = Some (t2, base) \<and> quiet v w3 w4"
    with w by_others_kept [OF laws r_into_rtranclp] show "leads w4 (update_ref gh ?b c) ?E (\<lambda>u. ?Q c)"
      by (intro last [of w4 c t2]) (auto dest: objects_keptD)
  qed
  have new_tree: "leads w2 (checked (gh_new_tree gh t0 items)) ?E (\<lambda>t2 w3. leads w3 (checked (gh_commit gh msg t2 base)) ?E
      (\<lambda>c w4. leads w4 (update_ref gh ?b c) ?E (\<lambda>u. ?Q c)))"
    if w: "by_others v w w2" "gv_tree v w2 t0 = Some F" "blobs_of v w2 files items" for items w2
  proof (rule leads_mono [OF leads_new_tree [OF laws w(2)]])
    show "?E e w'" if "quiet v w2 w'" for e w' using that w(1) by (meson rtranclp.rtrancl_into_rtrancl)
    fix t2 w3
    assume "gv_tree v w3 t2 = Some (overlay v w2 items F) \<and> quiet v w2 w3"
    with w(1) show "leads w3 (checked (gh_commit gh msg t2 base)) ?E
      (\<lambda>c w4. leads w4 (update_ref gh ?b c) ?E (\<lambda>u. ?Q c))"
      by (intro commit) (auto simp: overlay_items [OF w(3)] files)
  qed
  have blobs: "leads w1 (create_blobs gh files) ?E (\<lambda>items w2. leads w2 (checked (gh_new_tree gh t0 items)) ?E
      (\<lambda>t2 w3. leads w3 (checked (gh_commit gh msg t2 base)) ?E (\<lambda>c w4. leads w4 (update_ref gh ?b c) ?E (\<lambda>u. ?Q c))))"
    if w: "quiet v w w1" for w1
  proof (rule leads_mono [OF leads_blobs [OF laws]])
    show "?E e w'" if "by_others v w1 w'" for e w' using that w by (auto intro: converse_rtranclp_into_rtranclp)
    fix items w2
    assume b: "blobs_of v w2 files items \<and> by_others v w1 w2"
    with w have "by_others v w w2" by (auto intro: converse_rtranclp_into_rtranclp)
    with b by_others_kept [OF laws this] base(2) show "leads w2 (checked (gh_new_tree gh t0 items)) ?E
      (\<lambda>t2 w3. leads w3 (checked (gh_commit gh msg t2 base)) ?E (\<lambda>c w4. leads w4 (update_ref gh ?b c) ?E (\<lambda>u. ?Q c)))"
      by (intro new_tree) (auto dest: objects_keptD)
  qed
  have "leads w (checked (gh_tree gh base)) ?E (\<lambda>t w1. t = t0 \<and> quiet v w w1)"
    by (rule leads_mono [OF leads_tree [OF laws base(1)]]) auto
  then show ?thesis
    by (simp add: commit_files_def) (erule leads_mono; use blobs in auto)
qed

text \<open>
  C16: A commit of several files is atomic and loses nothing of the branch, whatever the other clients
  do meanwhile. Either it raises and moves no branch: the branches are where the other clients put
  them. Or, in one step, it moves its own branch and no other, from a commit that descends from what
  the branch pointed to before the call and is an ancestor of the new one, so nothing others pushed
  is dropped; the new commit's parent is the given base and its tree is the base tree with exactly
  the given files replaced. When it returns, that step was taken and the value is the new commit;
  when it was taken and the call raises all the same, the error is a lost answer or a status of at
  least 500.
\<close>

theorem commit_files_atomic:
  assumes "github_laws gh v" "distinct (dkeys files)"
    "gv_commit v w base = Some (t0, p0)" "gv_tree v w t0 = Some F"
    "gv_head v w (''heads/'' @ branch) = Some h"
    "commit_files gh files message branch (Some base) w = (r, w')"
  shows "(by_others v w w' \<and> (\<exists>e. r = Inl e)) \<or>
    (\<exists>w1 h1 c t. by_others v w w1 \<and> gv_head v w1 (''heads/'' @ branch) = Some h1 \<and>
       ancestor v w1 h h1 \<and> ancestor v w1 h1 c \<and>
       gv_commit v w1 c = Some (t, base) \<and> gv_tree v w1 t = Some (F ++ map_of files) \<and>
       gv_head v w' = (gv_head v w1)(''heads/'' @ branch \<mapsto> c) \<and> objects_kept v w1 w' \<and>
       (case r of Inr c' \<Rightarrow> c' = c | Inl e \<Rightarrow> lost_answer e))"
proof -
  have once: "\<exists>w1 h1 t. by_others v w w1 \<and> gv_head v w1 (''heads/'' @ branch) = Some h1 \<and>
       ancestor v w1 h h1 \<and> ancestor v w1 h1 c \<and>
       gv_commit v w1 c = Some (t, base) \<and> gv_tree v w1 t = Some (F ++ map_of files) \<and>
       gv_head v w' = (gv_head v w1)(''heads/'' @ branch \<mapsto> c) \<and> objects_kept v w1 w'"
    if "committed_once v (''heads/'' @ branch) base (F ++ map_of files) c w w'" for c
  proof -
    from that obtain w1 h1 t where s: "by_others v w w1" "gv_head v w1 (''heads/'' @ branch) = Some h1"
      "ancestor v w1 h1 c" "sets_branch v (''heads/'' @ branch) c w1 w'"
      "gv_commit v w1 c = Some (t, base)" "gv_tree v w1 t = Some (F ++ map_of files)"
      unfolding committed_once_def by blast
    from by_others_kept [OF assms(1) s(1)] assms(5) s(2) have "ancestor v w1 h h1"
      unfolding forwards_def by fastforce
    with s show ?thesis unfolding sets_branch_def by blast
  qed
  note run = leads_commit_files [OF assms(1-4), of message branch, unfolded leads_def assms(6) prod.case]
  show ?thesis
  proof (cases r)
    case (Inl e)
    with run have "by_others v w w' \<or>
      (\<exists>c. committed_once v (''heads/'' @ branch) base (F ++ map_of files) c w w' \<and> lost_answer e)" by simp
    then show ?thesis
    proof (elim disjE exE conjE)
      fix c
      assume "committed_once v (''heads/'' @ branch) base (F ++ map_of files) c w w'" "lost_answer e"
      from once [OF this(1)] this(2) Inl show ?thesis by (intro disjI2) (simp, blast)
    qed (use Inl in blast)
  next
    case (Inr c)
    with run have "committed_once v (''heads/'' @ branch) base (F ++ map_of files) c w w'" by simp
    from once [OF this] Inr show ?thesis by (intro disjI2) (simp, blast)
  qed
qed

section \<open>An example server\<close>

record git_server =
  sv_blobs :: "string list"
  sv_trees :: "(string \<rightharpoonup> string) list"
  sv_commits :: "(string \<times> string) list"
  sv_refs :: "(string, string) dict"

definition at_sha :: "'a list \<Rightarrow> string \<Rightarrow> 'a option" where
  "at_sha xs s = (let i = nat_of_digits s in if nat_digits i = s \<and> i < length xs then Some (xs ! i) else None)"

definition server_view :: "git_server git_view" where
  "server_view = \<lparr>gv_blob = (\<lambda>w. at_sha (sv_blobs w)), gv_tree = (\<lambda>w. at_sha (sv_trees w)),
     gv_commit = (\<lambda>w. at_sha (sv_commits w)), gv_head = (\<lambda>w. dget (sv_refs w)),
     gv_others = (=)\<rparr>"

definition server_allows :: "git_server \<Rightarrow> string \<Rightarrow> string \<Rightarrow> bool \<Rightarrow> bool" where
  "server_allows w b c force = (dhas (sv_refs w) b \<and> (force \<or>
     (case at_sha (sv_commits w) c of None \<Rightarrow> False | Some (t, p) \<Rightarrow> dget (sv_refs w) b = Some p)))"

definition server :: "git_server github" where
  "server = \<lparr>
     gh_ref = (\<lambda>r w. (case dget (sv_refs w) r of None \<Rightarrow> Answer 404 [] | Some s \<Rightarrow> Answer 200 s, w)),
     gh_file = (\<lambda>p r w. (NoAnswer, w)),
     gh_tree = (\<lambda>c w. (case at_sha (sv_commits w) c of None \<Rightarrow> Answer 404 [] | Some (t, p) \<Rightarrow> Answer 200 t, w)),
     gh_blob = (\<lambda>s w. (Answer 201 (nat_digits (length (sv_blobs w))), w\<lparr>sv_blobs := sv_blobs w @ [s]\<rparr>)),
     gh_new_tree = (\<lambda>t items w. (case at_sha (sv_trees w) t of None \<Rightarrow> (Answer 404 [], w)
        | Some F \<Rightarrow> (Answer 201 (nat_digits (length (sv_trees w))),
            w\<lparr>sv_trees := sv_trees w @ [overlay server_view w items F]\<rparr>))),
     gh_commit = (\<lambda>m t p w. (Answer 201 (nat_digits (length (sv_commits w))),
        w\<lparr>sv_commits := sv_commits w @ [(t, p)]\<rparr>)),
     gh_update_ref = (\<lambda>b c force w. if server_allows w b c force then (Answer 200 (), w\<lparr>sv_refs := dset b c (sv_refs w)\<rparr>) else (Answer 422 (), w))\<rparr>"

lemma at_sha_append: "at_sha xs s = Some x \<Longrightarrow> at_sha (xs @ ys) s = Some x"
  by (auto simp: at_sha_def Let_def nth_append split: if_splits)

lemma at_sha_new: "at_sha (xs @ [x]) (nat_digits (length xs)) = Some x"
  by (simp add: at_sha_def nat_of_digits_digits)

lemma server_sel:
  "gv_blob server_view w = at_sha (sv_blobs w)" "gv_tree server_view w = at_sha (sv_trees w)"
  "gv_commit server_view w = at_sha (sv_commits w)" "gv_head server_view w = dget (sv_refs w)"
  "gv_others server_view = (=)"
  by (simp_all add: server_view_def)

lemma server_kept:
  "objects_kept server_view w (w\<lparr>sv_blobs := sv_blobs w @ [s]\<rparr>)"
  "objects_kept server_view w (w\<lparr>sv_trees := sv_trees w @ [F]\<rparr>)"
  "objects_kept server_view w (w\<lparr>sv_commits := sv_commits w @ [c]\<rparr>)"
  "objects_kept server_view w (w\<lparr>sv_refs := refs\<rparr>)"
  by (rule objects_keptI; simp add: server_sel at_sha_append)+

lemma server_update:
  assumes "server_allows w b c force"
  shows "\<exists>w1 h. quiet server_view w w1 \<and> gv_head server_view w1 b = Some h \<and> (\<not> force \<longrightarrow> ancestor server_view w1 h c) \<and>
    sets_branch server_view b c w1 (w\<lparr>sv_refs := dset b c (sv_refs w)\<rparr>)"
proof (intro exI conjI)
  show "quiet server_view w w" by (simp add: quiet_def server_sel)
  show "sets_branch server_view b c w (w\<lparr>sv_refs := dset b c (sv_refs w)\<rparr>)"
    by (simp add: sets_branch_def server_kept server_sel fun_eq_iff)
  from assms show "gv_head server_view w b = Some (the (dget (sv_refs w) b))"
    by (auto simp: server_sel server_allows_def dhas_def)
  from assms show "\<not> force \<longrightarrow> ancestor server_view w (the (dget (sv_refs w) b)) c"
    by (auto simp: server_sel server_allows_def split: option.splits intro: ancestor.parent [OF _ ancestor.itself])
qed

lemma server_laws: "github_laws server server_view"
  unfolding github_laws_def
proof (intro conjI)
  show "\<forall>w w'. gv_others server_view w w' \<longrightarrow> objects_kept server_view w w' \<and> forwards server_view w w'"
    by (auto simp: server_sel intro: forwards_same)
  show "\<forall>b c force w a w'. gh_update_ref server b c force w = (a, w') \<longrightarrow>
      (quiet server_view w w' \<and> (\<exists>e. raise_for_status a = Inl e)) \<or>
      (\<exists>w1 h. quiet server_view w w1 \<and> gv_head server_view w1 b = Some h \<and> (\<not> force \<longrightarrow> ancestor server_view w1 h c) \<and>
         sets_branch server_view b c w1 w' \<and> (\<forall>e. raise_for_status a = Inl e \<longrightarrow> lost_answer e))"
  proof (intro allI impI)
    fix b c force and w w' :: git_server and a
    assume u: "gh_update_ref server b c force w = (a, w')"
    show "(quiet server_view w w' \<and> (\<exists>e. raise_for_status a = Inl e)) \<or>
      (\<exists>w1 h. quiet server_view w w1 \<and> gv_head server_view w1 b = Some h \<and> (\<not> force \<longrightarrow> ancestor server_view w1 h c) \<and>
         sets_branch server_view b c w1 w' \<and> (\<forall>e. raise_for_status a = Inl e \<longrightarrow> lost_answer e))"
    proof (cases "server_allows w b c force")
      case True
      with u have "w' = w\<lparr>sv_refs := dset b c (sv_refs w)\<rparr>" "a = Answer 200 ()" by (simp_all add: server_def)
      with server_update [OF True] show ?thesis by (auto simp: raise_for_status_def)
    next
      case False
      with u show ?thesis by (auto simp: server_def quiet_def server_sel raise_for_status_def)
    qed
  qed
qed (auto simp: server_def server_sel raise_for_status_def at_sha_new quiet_def server_kept
       split: option.splits if_splits prod.splits)

definition server_start :: git_server where
  "server_start = \<lparr>sv_blobs = [], sv_trees = [Map.empty], sv_commits = [(''0'', ''root'')], sv_refs = [(''heads/main'', ''0'')]\<rparr>"

theorem commit_files_atomic_witness:
  "\<exists>w' t. commit_files server [(''state.json'', ''x''), (''a'', ''y'')] ''m'' ''main'' (Some ''0'') server_start = (Inr ''1'', w') \<and>
     gv_head server_view w' ''heads/main'' = Some ''1'' \<and> gv_commit server_view w' ''1'' = Some (t, ''0'') \<and>
     gv_tree server_view w' t = Some [''state.json'' \<mapsto> ''x'', ''a'' \<mapsto> ''y'']"
proof -
  have n: "nat_digits 0 = ''0''" "nat_digits (Suc 0) = ''1''" "nat_of_digits ''0'' = 0" "nat_of_digits ''1'' = Suc 0"
    by code_simp+
  have a: "at_sha [x] ''0'' = Some x" "at_sha [x, y] ''1'' = Some y" "at_sha [x, y] ''0'' = Some x" for x y :: 'z
    by (simp_all add: at_sha_def n)
  obtain r w' where run: "commit_files server [(''state.json'', ''x''), (''a'', ''y'')] ''m'' ''main'' (Some ''0'') server_start =
      (r, w')" by force
  moreover from run have r: "r = Inr ''1''"
    by (simp add: commit_files_def update_ref_def act_bind_def act_simps checked_def server_def server_start_def
        server_allows_def dhas_def a n raise_for_status_def)
  ultimately obtain w1 t where w1: "gv_commit server_view w1 ''1'' = Some (t, ''0'')" "objects_kept server_view w1 w'"
    "gv_tree server_view w1 t = Some (Map.empty ++ map_of [(''state.json'', ''x''), (''a'', ''y'')])"
    "gv_head server_view w' ''heads/main'' = Some ''1''"
    using commit_files_atomic [OF server_laws _ _ _ _ run, of "''0''" "''root''" Map.empty "''0''"]
    by (auto simp: server_sel server_start_def a)
  have "gv_commit server_view w' ''1'' = Some (t, ''0'')" "gv_tree server_view w' t =
      Some (Map.empty ++ map_of [(''state.json'', ''x''), (''a'', ''y'')])"
    using objects_keptD(2,3) [OF w1(2)] w1(1,3) by blast+
  moreover have "Map.empty ++ map_of [(''state.json'', ''x''), (''a'', ''y'')] = [''state.json'' \<mapsto> ''x'', ''a'' \<mapsto> ''y'']"
    by (simp add: fun_eq_iff)
  ultimately show ?thesis using run [unfolded r] w1(4) by fastforce
qed

section \<open>The batcher\<close>

text \<open>
  \<open>gb_flight\<close> holds the snapshot of the commit in progress, the local variables of the running
  \<^verbatim>\<open>_commit\<close>; it is absent when \<^verbatim>\<open>_commit_in_progress\<close> is false.
\<close>

record batcher =
  gb_base :: string
  gb_interval :: pyfloat
  gb_conflict_interval :: pyfloat
  gb_files :: "(string, string) dict"
  gb_messages :: "string set"
  gb_last :: pyfloat
  gb_current :: pyfloat
  gb_flight :: "((string, string) dict \<times> string set) option"

definition new_batcher :: "string \<Rightarrow> pyfloat \<Rightarrow> pyfloat \<Rightarrow> batcher" where
  "new_batcher base interval conflict = \<lparr>gb_base = base, gb_interval = interval, gb_conflict_interval = conflict,
     gb_files = [], gb_messages = {}, gb_last = 0, gb_current = 600, gb_flight = None\<rparr>"

text \<open>The part of \<^verbatim>\<open>_commit\<close> before its first await: swap, or give up.\<close>

definition begin_commit :: "batcher \<Rightarrow> bool option \<times> batcher" where
  "begin_commit b =
     (if gb_flight b \<noteq> None then (Some False, b)
      else if gb_files b = [] then (Some True, b)
      else (None, b\<lparr>gb_flight := Some (gb_files b, gb_messages b), gb_files := [], gb_messages := {}\<rparr>))"

definition maybe_commit :: "pyfloat \<Rightarrow> batcher \<Rightarrow> batcher" where
  "maybe_commit now b =
     (if gb_files b = [] then b
      else if gb_flight b \<noteq> None then b
      else if gb_current b \<le> fsub now (gb_last b) then snd (begin_commit b)
      else b)"

definition write_file :: "pyfloat \<Rightarrow> string \<Rightarrow> string \<Rightarrow> string \<Rightarrow> batcher \<Rightarrow> batcher" where
  "write_file now path content message b =
     maybe_commit now (b\<lparr>gb_files := dset path content (gb_files b), gb_messages := insert message (gb_messages b)\<rparr>)"

definition write_many :: "pyfloat \<Rightarrow> (string, string) dict \<Rightarrow> string \<Rightarrow> batcher \<Rightarrow> batcher" where
  "write_many now files message b =
     maybe_commit now (b\<lparr>gb_files := dset_all files (gb_files b), gb_messages := insert message (gb_messages b)\<rparr>)"

text \<open>The rest of \<^verbatim>\<open>_commit\<close>: after the commit returned, and after it raised and the base was refreshed.\<close>

definition commit_done :: "pyfloat \<Rightarrow> string \<Rightarrow> batcher \<Rightarrow> batcher" where
  "commit_done now sha b = b\<lparr>gb_base := sha, gb_last := now, gb_current := gb_interval b, gb_flight := None\<rparr>"

fun add_missing :: "(string, string) dict \<Rightarrow> (string, string) dict \<Rightarrow> (string, string) dict" where
  "add_missing [] pending = pending"
| "add_missing ((k, v) # files) pending =
     add_missing files (if dhas pending k then pending else dset k v pending)"

definition restore_pending :: "(string, string) dict \<Rightarrow> string set \<Rightarrow> batcher \<Rightarrow> batcher" where
  "restore_pending files messages b =
     b\<lparr>gb_files := add_missing files (gb_files b), gb_messages := gb_messages b \<union> messages\<rparr>"

definition commit_failed :: "string option \<Rightarrow> batcher \<Rightarrow> batcher" where
  "commit_failed refreshed b =
     (case gb_flight b of None \<Rightarrow> b
      | Some (files, messages) \<Rightarrow>
          (restore_pending files messages (b\<lparr>gb_base := (case refreshed of None \<Rightarrow> gb_base b | Some s \<Rightarrow> s)\<rparr>))
            \<lparr>gb_current := gb_conflict_interval b, gb_flight := None\<rparr>)"

text \<open>\<^verbatim>\<open>flush\<close> returns at once, or starts a commit and returns its outcome when that ends.\<close>

definition begin_flush :: "batcher \<Rightarrow> bool option \<times> batcher" where
  "begin_flush b =
     (if gb_files b = [] then (Some True, b)
      else (case begin_commit b of
              (Some success, b') \<Rightarrow> (Some (success \<and> gb_files b' = []), b') | (None, b') \<Rightarrow> (None, b')))"

definition end_flush :: "bool \<Rightarrow> batcher \<Rightarrow> bool" where
  "end_flush success b = (success \<and> gb_files b = [])"

text \<open>\<^verbatim>\<open>read\<close>: the pending content, or the file at the base commit.\<close>

definition read_file :: "(string \<Rightarrow> string \<Rightarrow> string option) \<Rightarrow> string \<Rightarrow> batcher \<Rightarrow> string option" where
  "read_file file_at path b =
     (case dget (gb_files b) path of Some c \<Rightarrow> Some c | None \<Rightarrow> file_at (gb_base b) path)"

definition refresh_base :: "string \<Rightarrow> batcher \<Rightarrow> batcher" where
  "refresh_base sha b = b\<lparr>gb_base := sha\<rparr>"

section \<open>Interleavings of the batcher\<close>

text \<open>
  What a coroutine may do between two awaits. \<open>bw_log\<close> is what our commits have put on the branch so
  far; a commit that succeeds adds the files in flight.
\<close>

record batch_world =
  bw_batcher :: batcher
  bw_log :: "(string, string) dict"

datatype batch_event =
    Write pyfloat string string string
  | WriteMany pyfloat "(string, string) dict" string
  | Flush
  | Committed pyfloat string
  | Failed "string option"
  | Refreshed string

inductive batch_step :: "batch_world \<Rightarrow> batch_event \<Rightarrow> batch_world \<Rightarrow> bool" where
  wrote: "batch_step w (Write now path content message)
     (w\<lparr>bw_batcher := write_file now path content message (bw_batcher w)\<rparr>)"
| wrote_many: "batch_step w (WriteMany now files message)
     (w\<lparr>bw_batcher := write_many now files message (bw_batcher w)\<rparr>)"
| flush: "batch_step w Flush (w\<lparr>bw_batcher := snd (begin_flush (bw_batcher w))\<rparr>)"
| committed: "gb_flight (bw_batcher w) = Some (files, messages) \<Longrightarrow>
     batch_step w (Committed now sha)
       (w\<lparr>bw_batcher := commit_done now sha (bw_batcher w), bw_log := dset_all files (bw_log w)\<rparr>)"
| failed: "gb_flight (bw_batcher w) \<noteq> None \<Longrightarrow>
     batch_step w (Failed refreshed) (w\<lparr>bw_batcher := commit_failed refreshed (bw_batcher w)\<rparr>)"
| refreshed: "batch_step w (Refreshed sha) (w\<lparr>bw_batcher := refresh_base sha (bw_batcher w)\<rparr>)"

inductive_cases batch_stepE: "batch_step w e w'"
inductive_simps batch_step_simps: "batch_step w (Write now path content message) w'" "batch_step w (Committed now sha) w'"

inductive batch_run :: "batch_world \<Rightarrow> batch_event list \<Rightarrow> batch_world \<Rightarrow> bool" where
  stop: "batch_run w [] w"
| more: "batch_step w e w' \<Longrightarrow> batch_run w' es w'' \<Longrightarrow> batch_run w (e # es) w''"

text \<open>
  The specification is a map written through: every write takes effect at once and nothing else
  changes it. \<open>pending_view\<close> is the map the batcher implements: pending over in flight over committed.
\<close>

fun spec_event :: "batch_event \<Rightarrow> (string \<rightharpoonup> string) \<Rightarrow> (string \<rightharpoonup> string)" where
  "spec_event (Write now path content message) m = m(path \<mapsto> content)"
| "spec_event (WriteMany now files message) m = m ++ map_of (rev files)"
| "spec_event e m = m"

definition flight_files :: "batcher \<Rightarrow> (string, string) dict" where
  "flight_files b = (case gb_flight b of None \<Rightarrow> [] | Some (files, messages) \<Rightarrow> files)"

definition buffer_view :: "batcher \<Rightarrow> (string \<rightharpoonup> string)" where
  "buffer_view b = map_of (flight_files b) ++ map_of (gb_files b)"

definition pending_view :: "batch_world \<Rightarrow> (string \<rightharpoonup> string)" where
  "pending_view w = map_of (bw_log w) ++ buffer_view (bw_batcher w)"

lemma map_of_dset [simp]: "map_of (dset k v d) = (map_of d)(k \<mapsto> v)"
  by (simp add: fun_eq_iff)

lemma map_of_dset_all: "map_of (dset_all files d) = map_of d ++ map_of (rev files)"
  by (simp add: fun_eq_iff dget_dset_all map_add_def)

lemma dict_rev: "dict_ok d \<Longrightarrow> map_of (rev d) = map_of d"
  by (metis distinct_rev map_of_inject_set rev_map set_rev)

lemma add_missing_view: "dict_ok files \<Longrightarrow> map_of (add_missing files d) = map_of files ++ map_of d"
proof (induction files d rule: add_missing.induct)
  case (2 k v files d)
  let ?d = "if dhas d k then d else dset k v d"
  have "map_of (add_missing ((k, v) # files) d) = map_of files ++ map_of ?d" using 2 by simp
  moreover have "map_of files k = None" using 2 by (auto simp: map_of_eq_None_iff)
  ultimately show ?case
    by (auto simp: fun_eq_iff map_add_def dhas_def split: option.splits)
qed simp

lemma dict_ok_add_missing: "dict_ok d \<Longrightarrow> dict_ok (add_missing files d)"
  by (induction files d rule: add_missing.induct) auto

lemma begin_commit_view: "buffer_view (snd (begin_commit b)) = buffer_view b"
  by (cases "gb_flight b") (auto simp: begin_commit_def flight_files_def buffer_view_def)

lemma buffer_cases:
  "maybe_commit now b = b \<or> maybe_commit now b = snd (begin_commit b)"
  "snd (begin_flush b) = b \<or> snd (begin_flush b) = snd (begin_commit b)"
  by (auto simp: maybe_commit_def begin_flush_def split: prod.splits option.splits)

lemma buffer_view_start [simp]:
  "buffer_view (maybe_commit now b) = buffer_view b"
  "buffer_view (snd (begin_flush b)) = buffer_view b"
  using buffer_cases begin_commit_view by metis+

definition buffer_ok :: "batcher \<Rightarrow> bool" where
  "buffer_ok b = (dict_ok (gb_files b) \<and> dict_ok (flight_files b))"

lemma begin_commit_ok: "buffer_ok b \<Longrightarrow> buffer_ok (snd (begin_commit b))"
  by (auto simp: buffer_ok_def begin_commit_def flight_files_def)

lemma buffer_ok_start [simp]:
  "buffer_ok b \<Longrightarrow> buffer_ok (maybe_commit now b)"
  "buffer_ok b \<Longrightarrow> buffer_ok (snd (begin_flush b))"
  using buffer_cases begin_commit_ok by metis+

lemma buffer_queue:
  "buffer_view (b\<lparr>gb_files := dset_all files (gb_files b), gb_messages := ms\<rparr>) = buffer_view b ++ map_of (rev files)"
  "buffer_view (b\<lparr>gb_files := dset path content (gb_files b), gb_messages := ms\<rparr>) = (buffer_view b)(path \<mapsto> content)"
  "buffer_ok b \<Longrightarrow> buffer_ok (b\<lparr>gb_files := dset_all files (gb_files b), gb_messages := ms\<rparr>)"
  "buffer_ok b \<Longrightarrow> buffer_ok (b\<lparr>gb_files := dset path content (gb_files b), gb_messages := ms\<rparr>)"
  by (simp_all add: buffer_view_def buffer_ok_def flight_files_def map_of_dset_all)

text \<open>The batcher refines the map written through.\<close>

lemma batch_step_refines:
  assumes "batch_step w e w'" "buffer_ok (bw_batcher w)"
  shows "pending_view w' = spec_event e (pending_view w) \<and> buffer_ok (bw_batcher w')"
  using assms
proof (cases rule: batch_step.cases)
  case (committed files messages now sha)
  with assms(2) show ?thesis
    by (simp add: pending_view_def buffer_view_def buffer_ok_def commit_done_def flight_files_def map_of_dset_all dict_rev)
next
  case (failed refreshed)
  with assms(2) show ?thesis
    by (auto simp: pending_view_def buffer_view_def buffer_ok_def commit_failed_def restore_pending_def flight_files_def
        add_missing_view dict_ok_add_missing split: option.splits)
next
  case (refreshed sha)
  with assms(2) show ?thesis
    by (simp add: pending_view_def buffer_view_def buffer_ok_def refresh_base_def flight_files_def)
qed (simp_all add: pending_view_def write_file_def write_many_def buffer_queue)

lemma batch_run_refines:
  "batch_run w es w' \<Longrightarrow> buffer_ok (bw_batcher w) \<Longrightarrow>
     pending_view w' = fold spec_event es (pending_view w) \<and> buffer_ok (bw_batcher w')"
proof (induction rule: batch_run.induct)
  case (more w e w' es w'')
  with batch_step_refines [OF more.hyps(1) more.prems] show ?case by simp
qed simp

text \<open>
  C17: The batcher never loses a write: after any interleaving of writes, flushes, successful and
  failed commits, the committed files overlaid with those in flight and those pending are what the
  writes alone, in their order, would give. When nothing is pending or in flight, the commits on the
  branch hold the latest content of every path written.
\<close>

theorem batcher_refines_write_through:
  assumes "batch_run \<lparr>bw_batcher = new_batcher base interval conflict, bw_log = []\<rparr> es w"
  shows "pending_view w = fold spec_event es Map.empty \<and>
    (gb_files (bw_batcher w) = [] \<and> gb_flight (bw_batcher w) = None \<longrightarrow>
       map_of (bw_log w) = fold spec_event es Map.empty)"
proof -
  have "buffer_ok (new_batcher base interval conflict)"
    "pending_view \<lparr>bw_batcher = new_batcher base interval conflict, bw_log = []\<rparr> = Map.empty"
    by (simp_all add: buffer_ok_def new_batcher_def flight_files_def pending_view_def buffer_view_def)
  with batch_run_refines [OF assms] have "pending_view w = fold spec_event es Map.empty" by simp
  then show ?thesis by (auto simp: pending_view_def buffer_view_def flight_files_def)
qed

abbreviation batch_start :: batch_world where
  "batch_start \<equiv> \<lparr>bw_batcher = new_batcher ''c0'' 600 60, bw_log = []\<rparr>"

text \<open>Write a, flush, write a newer a while the commit runs; the commit fails; flush again; it succeeds.\<close>

definition batch_example :: "batch_event list" where
  "batch_example = [Write 1 ''a'' ''old'' ''m'', Write 2 ''b'' ''1'' ''m'', Flush, Write 3 ''a'' ''new'' ''n'',
     Failed (Some ''c1''), Flush, Committed 9 ''c2'']"

definition batch_example_end :: batch_world where
  "batch_example_end = \<lparr>bw_batcher = (new_batcher ''c0'' 600 60)\<lparr>gb_base := ''c2'', gb_last := 9\<rparr>,
     bw_log = [(''a'', ''new''), (''b'', ''1'')]\<rparr>"

theorem batcher_refines_write_through_witness:
  "map_of (bw_log batch_example_end) = [''a'' \<mapsto> ''new'', ''b'' \<mapsto> ''1'']"
proof -
  have due: "\<not> (600::rat) \<le> fsub 1 0" "\<not> (600::rat) \<le> fsub 2 0" "\<not> (600::rat) \<le> fsub 3 0" by code_simp+
  note defs = write_file_def maybe_commit_def begin_flush_def begin_commit_def new_batcher_def due
  have b3: "write_file 3 ''a'' ''new'' ''n'' (snd (begin_flush (write_file 2 ''b'' ''1'' ''m''
      (write_file 1 ''a'' ''old'' ''m'' (new_batcher ''c0'' 600 60))))) =
    (new_batcher ''c0'' 600 60)\<lparr>gb_files := [(''a'', ''new'')], gb_messages := {''n''},
       gb_flight := Some ([(''a'', ''old''), (''b'', ''1'')], {''m''})\<rparr>"
    by (simp add: defs)
  have b5: "snd (begin_flush (commit_failed (Some ''c1'') ((new_batcher ''c0'' 600 60)\<lparr>gb_files := [(''a'', ''new'')],
       gb_messages := {''n''}, gb_flight := Some ([(''a'', ''old''), (''b'', ''1'')], {''m''})\<rparr>))) =
    (new_batcher ''c0'' 600 60)\<lparr>gb_base := ''c1'', gb_current := 60,
       gb_flight := Some ([(''a'', ''new''), (''b'', ''1'')], {''n'', ''m''})\<rparr>"
    by (auto simp: defs commit_failed_def restore_pending_def dhas_def)
  have "batch_run batch_start batch_example batch_example_end"
    unfolding batch_example_def
    by (intro batch_run.intros; (rule batch_step.intros)?)
      (simp_all add: b3 b5, simp_all add: new_batcher_def,
       simp_all add: commit_done_def batch_example_end_def new_batcher_def batch_run.stop)
  from batcher_refines_write_through [OF this] show ?thesis
    by (auto simp: batch_example_end_def batch_example_def new_batcher_def fun_eq_iff)
qed

text \<open>
  A read is not a read of one's own writes while a commit is in progress: the pending files have
  then been swapped out, and a path being committed is read at the base commit, where it has its old
  content or none.
\<close>

theorem read_misses_write_in_flight:
  assumes "dget (gb_files b) path = Some content" "begin_commit b = (None, b')"
  shows "read_file file_at path b' = file_at (gb_base b') path \<and>
    pending_view \<lparr>bw_batcher = b', bw_log = committed\<rparr> path = Some content"
  using assms by (auto simp: begin_commit_def read_file_def pending_view_def buffer_view_def flight_files_def split: if_splits)

theorem read_misses_write_in_flight_witness:
  "read_file (\<lambda>_ _. None) ''a'' (snd (begin_commit ((new_batcher ''c0'' 600 60)\<lparr>gb_files := [(''a'', ''x'')]\<rparr>))) = None"
proof -
  let ?b = "(new_batcher ''c0'' 600 60)\<lparr>gb_files := [(''a'', ''x'')]\<rparr>"
  have "begin_commit ?b = (None, ?b\<lparr>gb_flight := Some ([(''a'', ''x'')], {}), gb_files := [], gb_messages := {}\<rparr>)"
    by (simp add: begin_commit_def new_batcher_def)
  from read_misses_write_in_flight [OF _ this, of "''a''" "''x''"] this show ?thesis by simp
qed

end
