(* ===== verification/StateStore.thy ===== *)
theory StateStore
  imports Prelude
begin

text \<open>
  Durable records with atomic preconditions, from \<^verbatim>\<open>shared/subnet_common/witness/state.py\<close>: the R2
  client, and the contract its users rely on as the locale \<open>cas_store\<close>. The S3 service is a parameter,
  its documented conditional writes are the locale \<open>s3_service\<close>. Contents are typed data, so JSON is
  left to the library; sizes are measured by a parameter.
\<close>

record 'd snapshot =
  sn_etag :: string
  sn_data :: 'd

datatype 'd get_answer = GetOk "string option" 'd | GetClientError string | GetBotoError
datatype put_answer = PutOk "string option" | PutClientError "int option" string | PutBotoError

record ('s, 'd) s3 =
  s3_get :: "string \<Rightarrow> 's \<Rightarrow> 'd get_answer \<times> 's"
  s3_put :: "string \<Rightarrow> 'd \<Rightarrow> string option \<Rightarrow> 's \<Rightarrow> put_answer \<times> 's"
  s3_size :: "'d \<Rightarrow> nat"

definition MAX_JOURNAL_BYTES :: nat where "MAX_JOURNAL_BYTES = 1024 * 1024"

definition etag_of :: "string option \<Rightarrow> string result" where
  "etag_of e = (case e of None \<Rightarrow> Inl (WriteUncertain ''etag'')
     | Some t \<Rightarrow> if t = [] then Inl (WriteUncertain ''etag'') else Inr t)"

definition ClientError :: exn where "ClientError = PyException ''ClientError''"
definition BotoCoreError :: exn where "BotoCoreError = PyException ''BotoCoreError''"

definition r2_load :: "('s, 'd) s3 \<Rightarrow> nat \<Rightarrow> string \<Rightarrow> ('s, 'd snapshot option) action" where
  "r2_load c limit key s =
     (case s3_get c key s of
        (GetClientError code, s') \<Rightarrow>
          (if code \<in> {''NoSuchKey'', ''404''} then Inr None else Inl ClientError, s')
      | (GetBotoError, s') \<Rightarrow> (Inl BotoCoreError, s')
      | (GetOk e data, s') \<Rightarrow>
          (if limit < s3_size c data then Inl (ValueError ''size'')
           else rmap (\<lambda>t. Some \<lparr>sn_etag = t, sn_data = data\<rparr>) (etag_of e), s'))"

text \<open>\<^verbatim>\<open>read\<close> with its own limit.\<close>

definition r2_read :: "('s, 'd) s3 \<Rightarrow> nat \<Rightarrow> string \<Rightarrow> ('s, 'd option) action" where
  "r2_read c limit key = act_bind (r2_load c limit key) (\<lambda>sn. act_return (map_option sn_data sn))"

text \<open>
  The attempts of \<^verbatim>\<open>save\<close>: a snapshot or an error, or nothing when the loop is left and the write has
  to be confirmed by reading it back. The argument counts the attempts left.
\<close>

fun put_attempts :: "('s, 'd) s3 \<Rightarrow> string \<Rightarrow> 'd \<Rightarrow> string option \<Rightarrow> nat \<Rightarrow> 's \<Rightarrow>
    'd snapshot result option \<times> 's" where
  "put_attempts c key data expected 0 s = (None, s)"
| "put_attempts c key data expected (Suc n) s =
     (case s3_put c key data expected s of
        (PutOk e, s') \<Rightarrow> (Some (rmap (\<lambda>t. \<lparr>sn_etag = t, sn_data = data\<rparr>) (etag_of e)), s')
      | (PutBotoError, s') \<Rightarrow> (None, s')
      | (PutClientError status code, s') \<Rightarrow>
          if status = Some 429 \<and> 0 < n then put_attempts c key data expected n s'
          else if status = Some 409 \<or> status = Some 412 then (Some (Inl (StateConflict ''changed'')), s')
          else (case status of
                  None \<Rightarrow> (None, s')
                | Some st \<Rightarrow>
                    if 500 \<le> st then (None, s')
                    else if 400 \<le> st \<and> st \<noteq> 408 \<and> code \<notin> {''RequestTimeout'', ''RequestTimeoutException''}
                    then (Some (Inl (WriteRejected ''rejected'')), s')
                    else (Some (Inl ClientError), s')))"

text \<open>The readback catches the errors of the service and of the size, not a missing ETag.\<close>

definition r2_save :: "('s, 'd) s3 \<Rightarrow> nat \<Rightarrow> string \<Rightarrow> 'd \<Rightarrow> string option \<Rightarrow> ('s, 'd snapshot) action" where
  "r2_save c max_bytes key data expected s =
     (if max_bytes < s3_size c data then (Inl (ValueError ''size''), s)
      else (case put_attempts c key data expected 5 s of
              (Some r, s') \<Rightarrow> (r, s')
            | (None, s') \<Rightarrow>
                (case r2_load c max_bytes key s' of
                   (Inr (Some sn), s'') \<Rightarrow>
                     (if sn_data sn = data then Inr sn else Inl (WriteUncertain ''unconfirmed''), s'')
                 | (Inr None, s'') \<Rightarrow> (Inl (WriteUncertain ''unconfirmed''), s'')
                 | (Inl e, s'') \<Rightarrow>
                     (if e \<in> {ClientError, BotoCoreError, ValueError ''size''}
                      then Inl (WriteUncertain ''unconfirmed'') else Inl e, s''))))"

section \<open>The contract\<close>

text \<open>
  \<open>obj s k\<close> is the object under a key with its tag. A conditional write happened when the tag of the
  object before was the expected one and the object is now the data, the others being untouched.
\<close>

definition put_applied :: "(string \<Rightarrow> (string \<times> 'd) option) \<Rightarrow> (string \<Rightarrow> (string \<times> 'd) option) \<Rightarrow> string \<Rightarrow>
    'd \<Rightarrow> string option \<Rightarrow> bool" where
  "put_applied o1 o2 key data expected \<longleftrightarrow>
     map_option fst (o1 key) = expected \<and> (\<exists>e. o2 = o1(key \<mapsto> (e, data)))"

definition refused :: "exn \<Rightarrow> bool" where
  "refused e = (case e of StateConflict _ \<Rightarrow> True | WriteRejected _ \<Rightarrow> True | ValueError _ \<Rightarrow> True | _ \<Rightarrow> False)"

locale cas_store =
  fixes obj :: "'s \<Rightarrow> string \<Rightarrow> (string \<times> 'd) option"
    and load :: "string \<Rightarrow> ('s, 'd snapshot option) action"
    and save :: "string \<Rightarrow> 'd \<Rightarrow> string option \<Rightarrow> ('s, 'd snapshot) action"
  assumes load_frame: "load k s = (lr, s') \<Longrightarrow> obj s' = obj s"
    and load_found: "load k s = (Inr found, s') \<Longrightarrow> obj s k = map_option (\<lambda>x. (sn_etag x, sn_data x)) found"
    and save_frame: "save k d e s = (r, s') \<Longrightarrow> obj s' = obj s \<or> put_applied (obj s) (obj s') k d e"
    and save_done: "save k d e s = (Inr sn, s') \<Longrightarrow> obj s' k = Some (sn_etag sn, d)"
    and save_refused: "save k d e s = (Inl x, s') \<Longrightarrow> refused x \<Longrightarrow> obj s' = obj s"

locale s3_service =
  fixes obj :: "'s \<Rightarrow> string \<Rightarrow> (string \<times> 'd) option"
    and c :: "('s, 'd) s3"
  assumes get_frame: "s3_get c k s = (a, s') \<Longrightarrow> obj s' = obj s"
    and get_ok: "s3_get c k s = (GetOk (Some t) d, s') \<Longrightarrow> obj s k = Some (t, d)"
    and get_missing: "s3_get c k s = (GetClientError code, s') \<Longrightarrow> code \<in> {''NoSuchKey'', ''404''} \<Longrightarrow> obj s k = None"
    and put_frame: "s3_put c k d e s = (p, s') \<Longrightarrow> obj s' = obj s \<or> put_applied (obj s) (obj s') k d e"
    and put_ok: "s3_put c k d e s = (PutOk (Some t), s') \<Longrightarrow> obj s' = (obj s)(k \<mapsto> (t, d))"
    and put_refused: "s3_put c k d e s = (PutClientError (Some st) code, s') \<Longrightarrow> 400 \<le> st \<Longrightarrow> st < 500 \<Longrightarrow> st \<noteq> 408 \<Longrightarrow>
      code \<notin> {''RequestTimeout'', ''RequestTimeoutException''} \<Longrightarrow> obj s' = obj s"
    and put_conflict: "s3_put c k d e s = (PutClientError (Some st) code, s') \<Longrightarrow> st \<in> {409, 412, 429} \<Longrightarrow> obj s' = obj s"
begin

lemma r2_load_frame: "r2_load c limit k s = (r, s') \<Longrightarrow> obj s' = obj s"
  using get_frame by (auto simp: r2_load_def split: prod.splits get_answer.splits)

lemma etag_of_Inr: "etag_of e = Inr t \<Longrightarrow> e = Some t"
  by (auto simp: etag_of_def split: option.splits if_splits)

lemma r2_load_found:
  "r2_load c limit k s = (Inr sn, s') \<Longrightarrow> obj s k = map_option (\<lambda>x. (sn_etag x, sn_data x)) sn"
  using get_ok get_missing
  by (auto simp: r2_load_def rmap_eq_Inr split: prod.splits get_answer.splits if_splits dest!: etag_of_Inr)

lemma put_at: "s3_put c k d e s = (PutOk (Some t), s') \<Longrightarrow> obj s' k = Some (t, d)"
  by (simp add: put_ok)

lemma put_attempts_spec:
  "put_attempts c k d e n s = (r, s') \<Longrightarrow>
     (obj s' = obj s \<or> put_applied (obj s) (obj s') k d e) \<and>
     (case r of None \<Rightarrow> True | Some (Inr sn) \<Rightarrow> obj s' k = Some (sn_etag sn, d)
      | Some (Inl x) \<Rightarrow> refused x \<longrightarrow> obj s' = obj s)"
proof (induction n arbitrary: s)
  case (Suc n)
  obtain a s1 where a: "s3_put c k d e s = (a, s1)" by force
  show ?case
  proof (cases a)
    case (PutOk t)
    with a Suc.prems put_frame [OF a] put_at [of k d e s] show ?thesis
      by (cases "etag_of t") (auto simp: refused_def etag_of_def split: option.splits if_splits)
  next
    case PutBotoError
    with a Suc.prems put_frame [OF a] show ?thesis by auto
  next
    case (PutClientError status code)
    show ?thesis
    proof (cases "status = Some 429 \<and> 0 < n")
      case True
      with a PutClientError put_conflict [of k d e s 429 code s1] have "obj s1 = obj s" by simp
      moreover have "put_attempts c k d e n s1 = (r, s')" using True a PutClientError Suc.prems by simp
      ultimately show ?thesis using Suc.IH [of s1] by (auto split: option.splits sum.splits)
    next
      case False
      with a PutClientError Suc.prems put_frame [OF a] put_conflict [of k d e s _ code s1]
        put_refused [of k d e s _ code s1]
      show ?thesis by (auto simp: refused_def ClientError_def split: option.splits if_splits)
    qed
  qed
qed simp

lemma put_attempts_data: "put_attempts c k d e n s = (Some (Inr sn), s') \<Longrightarrow> sn_data sn = d"
  by (induction n arbitrary: s)
    (auto simp: rmap_eq_Inr split: prod.splits put_answer.splits if_splits option.splits)

lemma r2_load_refused: "r2_load c limit k s = (Inl x, s') \<Longrightarrow> refused x \<Longrightarrow> x = ValueError ''size''"
  by (auto simp: r2_load_def refused_def rmap_def etag_of_def ClientError_def BotoCoreError_def
      split: prod.splits get_answer.splits if_splits option.splits sum.splits)

lemma r2_save_spec:
  assumes "r2_save c max_bytes k d e s = (r, s')"
  shows "obj s' = obj s \<or> put_applied (obj s) (obj s') k d e"
    "r = Inr sn \<Longrightarrow> obj s' k = Some (sn_etag sn, d) \<and> sn_data sn = d"
    "r = Inl x \<Longrightarrow> refused x \<Longrightarrow> obj s' = obj s"
proof -
  have "(obj s' = obj s \<or> put_applied (obj s) (obj s') k d e) \<and>
     (case r of Inr sn \<Rightarrow> obj s' k = Some (sn_etag sn, d) \<and> sn_data sn = d | Inl x \<Rightarrow> refused x \<longrightarrow> obj s' = obj s)"
  proof (cases "max_bytes < s3_size c d")
    case True
    with assms show ?thesis by (auto simp: r2_save_def)
  next
    case False
    obtain p s1 where p: "put_attempts c k d e 5 s = (p, s1)" by force
    note ps = put_attempts_spec [OF p]
    show ?thesis
    proof (cases p)
      case (Some q)
      with assms p False have "r = q" "s' = s1" by (auto simp: r2_save_def)
      with ps Some p show ?thesis by (auto split: sum.splits dest: put_attempts_data)
    next
      case None
      obtain l s2 where l: "r2_load c max_bytes k s1 = (l, s2)" by force
      have s2: "s' = s2" "obj s2 = obj s1" using assms p False None l r2_load_frame [OF l]
        by (auto simp: r2_save_def split: sum.splits option.splits)
      show ?thesis
      proof (cases "\<exists>sn. l = Inr (Some sn) \<and> sn_data sn = d")
        case True
        then obtain sn where sn: "l = Inr (Some sn)" "sn_data sn = d" by blast
        with assms p False None l have "r = Inr sn" by (auto simp: r2_save_def)
        with sn s2 ps r2_load_found [OF l [unfolded sn(1)]] show ?thesis by simp
      next
        case no: False
        have "\<exists>x. r = Inl x \<and> \<not> refused x"
        proof (cases l)
          case (Inl x)
          with l have "refused x \<Longrightarrow> x = ValueError ''size''" by (auto dest: r2_load_refused)
          with Inl show ?thesis using assms p False None l
            by (auto simp: r2_save_def) (simp_all add: refused_def)
        next
          case (Inr found)
          with assms p False None l no show ?thesis
            by (auto simp: r2_save_def refused_def split: option.splits)
        qed
        with s2 ps show ?thesis by auto
      qed
    qed
  qed
  then show "obj s' = obj s \<or> put_applied (obj s) (obj s') k d e"
    "r = Inr sn \<Longrightarrow> obj s' k = Some (sn_etag sn, d) \<and> sn_data sn = d"
    "r = Inl x \<Longrightarrow> refused x \<Longrightarrow> obj s' = obj s" by auto
qed

end

sublocale s3_service < r2: cas_store obj "r2_load c max_bytes" "r2_save c max_bytes" for max_bytes
  by unfold_locales (blast dest: r2_load_frame r2_load_found r2_save_spec)+

text \<open>\<^verbatim>\<open>PrefixedState\<close>: the same contract under a prefix of the keys.\<close>

definition prefixed_load :: "(string \<Rightarrow> ('s, 'd snapshot option) action) \<Rightarrow> string \<Rightarrow> string \<Rightarrow>
    ('s, 'd snapshot option) action" where
  "prefixed_load load pre key = load (pre @ key)"

definition prefixed_save :: "(string \<Rightarrow> 'd \<Rightarrow> string option \<Rightarrow> ('s, 'd snapshot) action) \<Rightarrow> string \<Rightarrow> string \<Rightarrow>
    'd \<Rightarrow> string option \<Rightarrow> ('s, 'd snapshot) action" where
  "prefixed_save save pre key data expected = save (pre @ key) data expected"

context cas_store
begin

lemma prefixed: "cas_store (\<lambda>s k. obj s (p @ k)) (prefixed_load load p) (prefixed_save save p)"
proof (unfold_locales, goal_cases)
  case (1 k s lr s')
  then show ?case by (simp add: prefixed_load_def load_frame)
next
  case (2 k s found s')
  then show ?case by (simp add: prefixed_load_def load_found)
next
  case (3 k d e s r s')
  let ?o = "\<lambda>s k. obj s (p @ k)"
  from 3 save_frame [of "p @ k" d e s r s'] consider "obj s' = obj s"
    | x where "map_option fst (?o s k) = e" "obj s' = (obj s)(p @ k \<mapsto> (x, d))"
    by (auto simp: prefixed_save_def put_applied_def)
  then show ?case
  proof cases
    case (2 x)
    then have "?o s' = (?o s)(k \<mapsto> (x, d))" by (simp add: fun_eq_iff)
    with 2 show ?thesis unfolding put_applied_def by blast
  qed simp
next
  case (4 k d e s sn s')
  then show ?case by (simp add: prefixed_save_def save_done)
next
  case (5 k d e s x s')
  then show ?case by (simp add: prefixed_save_def save_refused)
qed

end

section \<open>Read, decide, write\<close>

text \<open>
  Every user of the store loops: load, decide on what was loaded, save under the loaded tag, and try
  again when another request was faster, 16 times at most. The decision also sees the number of
  attempts left, for the random revision it draws each time.
\<close>

datatype ('d, 'r) decision = Finish "'r result" | Store 'd 'r

fun cas_loop :: "(string \<Rightarrow> ('s, 'd snapshot option) action) \<Rightarrow> (string \<Rightarrow> 'd \<Rightarrow> string option \<Rightarrow> ('s, 'd snapshot) action) \<Rightarrow>
    string \<Rightarrow> (nat \<Rightarrow> 'd option \<Rightarrow> ('d, 'r) decision) \<Rightarrow> nat \<Rightarrow> ('s, 'r) action" where
  "cas_loop load save key decide 0 s = (Inl (StateConflict ''busy''), s)"
| "cas_loop load save key decide (Suc n) s =
     (case load key s of
        (Inl e, s1) \<Rightarrow> (Inl e, s1)
      | (Inr found, s1) \<Rightarrow>
          (case decide n (map_option sn_data found) of
             Finish r \<Rightarrow> (r, s1)
           | Store d r \<Rightarrow>
               (case save key d (map_option sn_etag found) s1 of
                  (Inr _, s2) \<Rightarrow> (Inr r, s2)
                | (Inl e, s2) \<Rightarrow>
                    if \<exists>m. e = StateConflict m then cas_loop load save key decide n s2 else (Inl e, s2))))"

definition data_at :: "(string \<rightharpoonup> string \<times> 'd) \<Rightarrow> string \<Rightarrow> 'd option" where
  "data_at m k = map_option snd (m k)"

text \<open>A decision taken on the content of the record and applied to it, at most once.\<close>

definition decided :: "(nat \<Rightarrow> 'd option \<Rightarrow> ('d, 'r) decision) \<Rightarrow> string \<Rightarrow> (string \<rightharpoonup> string \<times> 'd) \<Rightarrow>
    (string \<rightharpoonup> string \<times> 'd) \<Rightarrow> bool" where
  "decided decide k o1 o2 =
     (o2 = o1 \<or> (\<exists>n d r e. decide n (data_at o1 k) = Store d r \<and> o2 = o1(k \<mapsto> (e, d))))"

context cas_store
begin

lemma cas_loop_decided:
  "cas_loop load save k decide n s = (res, s') \<Longrightarrow> decided decide k (obj s) (obj s') \<and>
     (case res of Inl _ \<Rightarrow> True
      | Inr r \<Rightarrow> (\<exists>m. decide m (data_at (obj s) k) = Finish (Inr r) \<and> obj s' = obj s) \<or>
          (\<exists>m d. decide m (data_at (obj s) k) = Store d r \<and> data_at (obj s') k = Some d))"
proof (induction n arbitrary: s)
  case 0
  then show ?case by (auto simp: decided_def)
next
  case (Suc n)
  obtain l s1 where l: "load k s = (l, s1)" by force
  note s1 = load_frame [OF l]
  show ?case
  proof (cases l)
    case (Inl e)
    with l s1 Suc.prems show ?thesis by (auto simp: decided_def)
  next
    case (Inr found)
    from load_found [OF l [unfolded Inr]] have o: "data_at (obj s) k = map_option sn_data found"
      by (cases found) (simp_all add: data_at_def)
    show ?thesis
    proof (cases "decide n (map_option sn_data found)")
      case (Finish r)
      with l Inr s1 Suc.prems o show ?thesis by (auto simp: decided_def split: sum.splits intro!: exI [of _ n])
    next
      case (Store d r)
      obtain w s2 where w: "save k d (map_option sn_etag found) s1 = (w, s2)" by force
      note f = save_frame [OF w, unfolded s1]
      have dec: "decided decide k (obj s) (obj s2)"
        using f Store o unfolding decided_def put_applied_def by metis
      show ?thesis
      proof (cases w)
        case (Inr sn)
        with l \<open>l = Inr found\<close> Store w Suc.prems have "res = Inr r" "s' = s2" by auto
        moreover have "data_at (obj s2) k = Some d" using save_done w Inr by (simp add: data_at_def)
        ultimately show ?thesis using dec Store o by (auto intro!: exI [of _ n])
      next
        case (Inl e)
        show ?thesis
        proof (cases "\<exists>m. e = StateConflict m")
          case True
          with Inl w have "obj s2 = obj s" using save_refused s1 by (auto simp: refused_def)
          moreover have "cas_loop load save k decide n s2 = (res, s')"
            using l \<open>l = Inr found\<close> Store w Inl True Suc.prems by auto
          ultimately show ?thesis using Suc.IH [of s2] by (auto split: sum.splits)
        next
          case False
          with l \<open>l = Inr found\<close> Store w Inl Suc.prems dec show ?thesis by auto
        qed
      qed
    qed
  qed
qed

end

section \<open>Interleaved requests\<close>

text \<open>
  One record under concurrent requests. A request decides on the content it sees and issues a write
  conditional on the tag it saw; an issued write may arrive at any later time, or never, and applies
  only when the tag is still the same. Tags are versions that are not used again.
\<close>

record 'd cell =
  ce_value :: "'d option"
  ce_version :: nat
  ce_issued :: "(nat \<times> 'd) set"

inductive cell_step :: "('d option \<Rightarrow> 'd \<Rightarrow> bool) \<Rightarrow> 'd cell \<Rightarrow> 'd cell \<Rightarrow> bool" for R where
  issue: "R (ce_value c) d \<Longrightarrow> cell_step R c (c\<lparr>ce_issued := insert (ce_version c, d) (ce_issued c)\<rparr>)"
| arrive: "(ce_version c, d) \<in> ce_issued c \<Longrightarrow>
    cell_step R c (c\<lparr>ce_value := Some d, ce_version := Suc (ce_version c)\<rparr>)"

inductive_cases cell_stepE [elim]: "cell_step R c c'"

definition empty_cell :: "'d option \<Rightarrow> 'd cell" where
  "empty_cell v = \<lparr>ce_value = v, ce_version = 0, ce_issued = {}\<rparr>"

definition cell_inv :: "('d option \<Rightarrow> 'd \<Rightarrow> bool) \<Rightarrow> 'd cell \<Rightarrow> bool" where
  "cell_inv R c = (\<forall>(n, d)\<in>ce_issued c. n \<le> ce_version c \<and> (n = ce_version c \<longrightarrow> R (ce_value c) d))"

lemma cell_step_inv: "cell_step R c c' \<Longrightarrow> cell_inv R c \<Longrightarrow> cell_inv R c'"
  by (auto simp: cell_inv_def elim!: cell_stepE) fastforce+

lemma cell_step_decided:
  "cell_step R c c' \<Longrightarrow> cell_inv R c \<Longrightarrow> ce_value c' = ce_value c \<or> (\<exists>d. ce_value c' = Some d \<and> R (ce_value c) d)"
  by (auto simp: cell_inv_def elim!: cell_stepE)

text \<open>Every content the record ever has is reached by decisions on the contents before it.\<close>

lemma cell_linear:
  assumes "(cell_step R)\<^sup>*\<^sup>* (empty_cell v) c"
  shows "cell_inv R c \<and> (\<lambda>x y. \<exists>d. y = Some d \<and> R x d)\<^sup>*\<^sup>* v (ce_value c)"
  using assms
proof (induction rule: rtranclp_induct)
  case base
  show ?case by (simp add: cell_inv_def empty_cell_def)
next
  case (step y z)
  then have "cell_inv R z" by (blast intro: cell_step_inv)
  moreover from cell_step_decided [OF step.hyps(2)] step.IH
  have "(\<lambda>x y. \<exists>d. y = Some d \<and> R x d)\<^sup>*\<^sup>* v (ce_value z)"
    by (metis (mono_tags, lifting) rtranclp.rtrancl_into_rtrancl)
  ultimately show ?case ..
qed

text \<open>
  So what every decision preserves is preserved by all interleavings.
\<close>

lemma cell_invariant:
  assumes "(cell_step R)\<^sup>*\<^sup>* (empty_cell v) c" "P v" "\<And>x d. P x \<Longrightarrow> R x d \<Longrightarrow> P (Some d)"
  shows "P (ce_value c)"
proof -
  have "P w" if "(\<lambda>x y. \<exists>d. y = Some d \<and> R x d)\<^sup>*\<^sup>* v w" for w
    using that by (induction rule: rtranclp_induct) (use assms(2,3) in auto)
  with cell_linear [OF assms(1)] show ?thesis by blast
qed

lemma cell_write:
  assumes "(cell_step R)\<^sup>*\<^sup>* c0 c" "R (ce_value c) d"
  shows "\<exists>c'. (cell_step R)\<^sup>*\<^sup>* c0 c' \<and> ce_value c' = Some d"
proof -
  let ?c = "c\<lparr>ce_issued := insert (ce_version c, d) (ce_issued c)\<rparr>"
  have "cell_step R c ?c" using assms(2) by (rule cell_step.issue)
  moreover have "cell_step R ?c (?c\<lparr>ce_value := Some d, ce_version := Suc (ce_version c)\<rparr>)"
    using cell_step.arrive [of ?c d] by simp
  ultimately show ?thesis
    using assms(1) by (intro exI [of _ "?c\<lparr>ce_value := Some d, ce_version := Suc (ce_version c)\<rparr>"])
      (auto intro: rtranclp.rtrancl_into_rtrancl)
qed

section \<open>A bucket\<close>

text \<open>
  A bucket in memory whose service may lose its answers: the list says for each request whether the
  answer arrives. Tags count the writes.
\<close>

record 'd bucket =
  bk_objects :: "string \<rightharpoonup> string \<times> 'd"
  bk_writes :: nat
  bk_lost :: "bool list"

definition bucket_answer :: "'a \<Rightarrow> 'a \<Rightarrow> 'd bucket \<Rightarrow> 'a \<times> 'd bucket" where
  "bucket_answer a lost b = (case bk_lost b of [] \<Rightarrow> (a, b) | l # ls \<Rightarrow> (if l then lost else a, b\<lparr>bk_lost := ls\<rparr>))"

definition bucket_s3 :: "('d bucket, 'd) s3" where
  "bucket_s3 = \<lparr>
     s3_get = (\<lambda>k b. bucket_answer (case bk_objects b k of None \<Rightarrow> GetClientError ''NoSuchKey''
        | Some (t, d) \<Rightarrow> GetOk (Some t) d) GetBotoError b),
     s3_put = (\<lambda>k d e b. if map_option fst (bk_objects b k) = e
        then bucket_answer (PutOk (Some (''v'' @ nat_digits (bk_writes b)))) PutBotoError
           (b\<lparr>bk_objects := (bk_objects b)(k \<mapsto> (''v'' @ nat_digits (bk_writes b), d)), bk_writes := Suc (bk_writes b)\<rparr>)
        else bucket_answer (PutClientError (Some 412) ''PreconditionFailed'') PutBotoError b),
     s3_size = (\<lambda>d. 0)\<rparr>"

interpretation bucket: s3_service bk_objects "bucket_s3 :: ('d bucket, 'd) s3"
  by unfold_locales
    (auto simp: bucket_s3_def bucket_answer_def put_applied_def split: list.splits if_splits option.splits)

text \<open>
  C15: What a save tells its caller is true, whatever answers of the service are lost: a returned
  snapshot is in the store under its tag, a conflict or a rejection means nothing was written, and in
  every case, the uncertain one included, the record either stayed or got exactly this write under
  exactly the expected tag.
\<close>

theorem save_outcome_sound:
  assumes "s3_service obj c" "r2_save c max_bytes k d e s = (r, s')"
  shows "(obj s' = obj s \<or> put_applied (obj s) (obj s') k d e) \<and>
    (case r of Inr sn \<Rightarrow> obj s' k = Some (sn_etag sn, d)
     | Inl x \<Rightarrow> refused x \<longrightarrow> obj s' = obj s)"
  using s3_service.r2_save_spec [OF assms] by (auto split: sum.splits)

theorem save_outcome_sound_witness:
  "\<exists>b'. r2_save bucket_s3 10 ''k'' ''new'' (Some ''v0'')
      \<lparr>bk_objects = [''k'' \<mapsto> (''v0'', ''old'')], bk_writes = 1, bk_lost = [True]\<rparr> =
    (Inr \<lparr>sn_etag = ''v1'', sn_data = ''new''\<rparr>, b') \<and> bk_objects b' ''k'' = Some (''v1'', ''new'')"
proof -
  let ?b = "\<lparr>bk_objects = [''k'' \<mapsto> (''v0'', ''old'')], bk_writes = 1, bk_lost = [True]\<rparr>"
  have n: "nat_digits (Suc 0) = ''1''" by code_simp
  obtain b' where r: "r2_save bucket_s3 10 ''k'' ''new'' (Some ''v0'') ?b = (Inr \<lparr>sn_etag = ''v1'', sn_data = ''new''\<rparr>, b')"
    by (simp add: r2_save_def bucket_s3_def bucket_answer_def eval_nat_numeral r2_load_def etag_of_def n)
  from save_outcome_sound [OF bucket.s3_service_axioms r] r show ?thesis by auto
qed

end
