(* ===== verification/WitnessModels.thy ===== *)
theory WitnessModels
  imports Prelude
begin

text \<open>
  Identities of the witness services, from \<^verbatim>\<open>shared/subnet_common/witness/models.py\<close>: scopes, session
  identifiers, the markers and names of pods and what they say about a pod's owner and life. SHA-256 is
  a parameter; patterns are those of ASCII text.
\<close>

definition in_chars :: "string \<Rightarrow> char \<Rightarrow> bool" where
  "in_chars cs c = (c \<in> set cs)"

definition lower_alnum :: string where
  "lower_alnum = ''abcdefghijklmnopqrstuvwxyz0123456789''"

definition hex_digits :: string where
  "hex_digits = ''0123456789abcdef''"

definition base58 :: string where
  "base58 = ''123456789ABCDEFGHJKLMNPQRSTUVWXYZabcdefghijkmnopqrstuvwxyz''"

text \<open>\<^verbatim>\<open>[a-z0-9][a-z0-9-]{0,63}\<close>, matched in full.\<close>

definition slug_ok :: "string \<Rightarrow> bool" where
  "slug_ok s = (case s of [] \<Rightarrow> False
     | c # cs \<Rightarrow> in_chars lower_alnum c \<and> length cs \<le> 63 \<and> list_all (in_chars (CHR ''-'' # lower_alnum)) cs)"

definition hotkey_ok :: "string \<Rightarrow> bool" where
  "hotkey_ok s = (length s = 48 \<and> list_all (in_chars base58) s)"

text \<open>The canonical form of a UUID: groups of 8, 4, 4, 4 and 12 lower-case hexadecimal digits.\<close>

definition uuid_ok :: "string \<Rightarrow> bool" where
  "uuid_ok s = (map length (split_on (CHR ''-'') s) = [8, 4, 4, 4, 12] \<and>
     list_all (list_all (in_chars hex_digits)) (split_on (CHR ''-'') s))"

definition session_uuid :: "string \<Rightarrow> string result" where
  "session_uuid s = (if uuid_ok s then Inr s else Inl (ValueError ''session UUID''))"

definition uuid_hex :: "string \<Rightarrow> string" where
  "uuid_hex s = filter (\<lambda>c. c \<noteq> CHR ''-'') s"

section \<open>Scopes\<close>

record scope =
  sc_deployment :: string
  sc_round :: string
  sc_hotkey :: string

definition make_scope :: "string \<Rightarrow> string \<Rightarrow> string \<Rightarrow> scope result" where
  "make_scope d r h =
     (if \<not> slug_ok d \<or> \<not> slug_ok r then Inl (ValueError ''Invalid deployment or round'')
      else if \<not> hotkey_ok h then Inl (ValueError ''Invalid hotkey encoding'')
      else Inr \<lparr>sc_deployment = d, sc_round = r, sc_hotkey = h\<rparr>)"

definition scope_ok :: "scope \<Rightarrow> bool" where
  "scope_ok s = (make_scope (sc_deployment s) (sc_round s) (sc_hotkey s) = Inr s)"

definition scope_key :: "scope \<Rightarrow> string" where
  "scope_key s = ''pod-gateway/v1/'' @ sc_deployment s @ ''/'' @ sc_round s @ ''/'' @ sc_hotkey s @ ''.json''"

definition short_name :: "scope \<Rightarrow> string" where
  "short_name s = ''w404-'' @ take 12 (sc_deployment s) @ ''-'' @ take 12 (sc_round s) @ ''-'' @ take 8 (sc_hotkey s)"

definition scope_name :: "scope \<Rightarrow> string \<Rightarrow> string result" where
  "scope_name s start_id = rmap (\<lambda>_. short_name s) (session_uuid start_id)"

definition MARKERS :: "string list" where
  "MARKERS = [''WITNESS_DEPLOYMENT'', ''WITNESS_ROUND'', ''WITNESS_HOTKEY'', ''WITNESS_START_ID'', ''WITNESS_POD_SPEC'',
     ''WITNESS_BOOT_MODE'', ''WITNESS_EPOCH_NS'', ''WITNESS_REPLACES'']"

definition scope_markers :: "scope \<Rightarrow> string \<Rightarrow> string \<Rightarrow> int \<Rightarrow> string option \<Rightarrow> (string, string) dict result" where
  "scope_markers s start_id spec_hash epoch_ns replaces =
     rbind (session_uuid start_id) (\<lambda>start.
     rbind (case replaces of None \<Rightarrow> Inr [] | Some r \<Rightarrow> session_uuid r) (\<lambda>rep.
       Inr [(''WITNESS_DEPLOYMENT'', sc_deployment s), (''WITNESS_ROUND'', sc_round s), (''WITNESS_HOTKEY'', sc_hotkey s),
            (''WITNESS_START_ID'', start), (''WITNESS_POD_SPEC'', spec_hash), (''WITNESS_BOOT_MODE'', ''dormant''),
            (''WITNESS_EPOCH_NS'', show_int epoch_ns), (''WITNESS_REPLACES'', rep)]))"

section \<open>Pods\<close>

datatype phase = queued | draining | creating | allocated | retiring | rejected | lost | retired

record session =
  se_start_id :: string
  se_replaces :: "string option"
  se_phase :: phase
  se_spec_hash :: string
  se_image :: string
  se_pod_id :: "string option"
  se_rejection :: "int option"

record pod =
  pd_id :: string
  pd_name :: string
  pd_image :: string
  pd_status :: string
  pd_markers :: "(string, string) dict"
  pd_tcp :: "(int, string \<times> int) dict"
  pd_cost :: "string option"

definition marker :: "pod \<Rightarrow> string \<Rightarrow> string result" where
  "marker p k = some_or (dget (pd_markers p) k) KeyError"

definition hash_ok :: "string \<Rightarrow> bool" where
  "hash_ok s = (length s = 64 \<and> list_all (in_chars hex_digits) s)"

definition lifecycles :: "string list" where
  "lifecycles = [''pending'', ''active'', ''draining'', ''drained'']"

definition isdigit :: "string \<Rightarrow> bool" where
  "isdigit s = (s \<noteq> [] \<and> list_all is_digit s)"

definition known_name :: "string list \<Rightarrow> string \<Rightarrow> bool" where
  "known_name names name = list_ex (\<lambda>n. list_ex (\<lambda>l. name = n @ ''-'' @ l) lifecycles) names"

text \<open>\<^verbatim>\<open>scope()\<close>: the owner of a pod, if its markers and its name are those of a pod of ours.\<close>

definition pod_scope_result :: "(string \<Rightarrow> string) \<Rightarrow> pod \<Rightarrow> scope option result" where
  "pod_scope_result sha p =
     rbind (marker p ''WITNESS_DEPLOYMENT'') (\<lambda>d.
     rbind (marker p ''WITNESS_ROUND'') (\<lambda>r.
     rbind (marker p ''WITNESS_HOTKEY'') (\<lambda>h.
     rbind (make_scope d r h) (\<lambda>scope.
     rbind (marker p ''WITNESS_START_ID'') (\<lambda>start0.
     rbind (session_uuid start0) (\<lambda>start.
       (let names = [short_name scope,
              ''w404-'' @ take 12 d @ ''-'' @ take 12 r @ ''-'' @ take 16 (sha h) @ ''-'' @ uuid_hex start]
        in if set (dkeys (pd_markers p)) \<noteq> set MARKERS then Inr None
           else
             rbind (marker p ''WITNESS_BOOT_MODE'') (\<lambda>mode.
             rbind (marker p ''WITNESS_POD_SPEC'') (\<lambda>spec.
             rbind (marker p ''WITNESS_EPOCH_NS'') (\<lambda>epoch.
               if mode \<noteq> ''dormant'' \<or> \<not> hash_ok spec \<or> \<not> isdigit epoch \<or>
                  \<not> known_name names (pd_name p)
               then Inr None
               else
                 rbind (marker p ''WITNESS_REPLACES'') (\<lambda>rep.
                 rbind (if rep = [] then Inr [] else session_uuid rep) (\<lambda>_. Inr (Some scope)))))))))))))"

definition pod_scope :: "(string \<Rightarrow> string) \<Rightarrow> pod \<Rightarrow> scope option" where
  "pod_scope sha p = (case pod_scope_result sha p of Inl _ \<Rightarrow> None | Inr s \<Rightarrow> s)"

text \<open>\<^verbatim>\<open>name.rsplit("-", 1)[-1]\<close>\<close>

definition lifecycle :: "pod \<Rightarrow> string" where
  "lifecycle p = last (split_on (CHR ''-'') (pd_name p))"

definition epoch_ns :: "pod \<Rightarrow> int result" where
  "epoch_ns p = rbind (marker p ''WITNESS_EPOCH_NS'') (\<lambda>e.
     if isdigit e then Inr (int (nat_of_digits e)) else Inl (ValueError ''int''))"

definition in_scope :: "pod \<Rightarrow> scope \<Rightarrow> bool" where
  "in_scope p s = (dget (pd_markers p) ''WITNESS_DEPLOYMENT'' = Some (sc_deployment s) \<and>
     dget (pd_markers p) ''WITNESS_ROUND'' = Some (sc_round s) \<and>
     dget (pd_markers p) ''WITNESS_HOTKEY'' = Some (sc_hotkey s))"

definition pod_matches :: "(string \<Rightarrow> string) \<Rightarrow> pod \<Rightarrow> scope \<Rightarrow> session \<Rightarrow> bool" where
  "pod_matches sha p s session = (pod_scope sha p = Some s \<and>
     dget (pd_markers p) ''WITNESS_START_ID'' = Some (se_start_id session) \<and> pd_image p = se_image session \<and>
     dget (pd_markers p) ''WITNESS_POD_SPEC'' = Some (se_spec_hash session))"

fun phase_of :: "string \<Rightarrow> phase result" where
  "phase_of l = (if l = ''pending'' then Inr creating else if l = ''active'' then Inr allocated
     else if l = ''draining'' then Inr retiring else if l = ''drained'' then Inr retired else Inl KeyError)"

definition pod_session :: "(string \<Rightarrow> string) \<Rightarrow> pod \<Rightarrow> session result" where
  "pod_session sha p =
     (if pod_scope sha p = None then Inl (ValueError ''Pod has invalid ownership metadata'')
      else
        rbind (marker p ''WITNESS_START_ID'') (\<lambda>start.
        rbind (marker p ''WITNESS_REPLACES'') (\<lambda>rep.
        rbind (phase_of (lifecycle p)) (\<lambda>ph.
        rbind (marker p ''WITNESS_POD_SPEC'') (\<lambda>spec.
          Inr \<lparr>se_start_id = start, se_replaces = (if rep = [] then None else Some rep), se_phase = ph,
               se_spec_hash = spec, se_image = pd_image p, se_pod_id = Some (pd_id p), se_rejection = None\<rparr>)))))"

section \<open>Lemmas\<close>

lemma scope_okD: "scope_ok s \<Longrightarrow> make_scope (sc_deployment s) (sc_round s) (sc_hotkey s) = Inr s"
  by (simp add: scope_ok_def)

lemma make_scope_ok: "make_scope d r h = Inr s \<Longrightarrow> scope_ok s"
  by (auto simp: make_scope_def scope_ok_def split: if_splits)

lemma pod_scope_result_Some:
  assumes "pod_scope sha p = Some s"
  shows "\<exists>d r h start. marker p ''WITNESS_DEPLOYMENT'' = Inr d \<and> marker p ''WITNESS_ROUND'' = Inr r \<and>
    marker p ''WITNESS_HOTKEY'' = Inr h \<and> make_scope d r h = Inr s \<and> marker p ''WITNESS_START_ID'' = Inr start \<and>
    session_uuid start = Inr start \<and> (\<exists>epoch. marker p ''WITNESS_EPOCH_NS'' = Inr epoch \<and> isdigit epoch) \<and>
    (\<exists>n. \<exists>l\<in>set lifecycles. pd_name p = n @ CHR ''-'' # l)"
proof -
  have r: "pod_scope_result sha p = Inr (Some s)" using assms by (simp add: pod_scope_def split: sum.splits)
  have u: "session_uuid x = Inr y \<Longrightarrow> y = x" for x y by (simp add: session_uuid_def split: if_splits)
  have nm: "known_name names name \<Longrightarrow> \<exists>n. \<exists>l\<in>set lifecycles. name = n @ CHR ''-'' # l" for names name
    by (auto simp: known_name_def list_ex_iff)
  show ?thesis
    using r unfolding pod_scope_result_def rbind_eq_Inr Let_def
    by (elim exE conjE, simp only: rbind_eq_Inr split: if_split_asm) (auto dest!: u intro: nm)
qed

lemma split_on_append_gen: "split_on c (s @ c # t) = split_on c s @ split_on c t"
proof (induction s)
  case (Cons x s)
  then show ?case by (cases "split_on c s") auto
qed simp

lemma last_split_append: "c \<notin> set t \<Longrightarrow> last (split_on c (s @ c # t)) = t"
  by (simp add: split_on_append_gen split_on_fresh)

lemma make_scope_sel:
  "make_scope d r h = Inr s \<Longrightarrow> sc_deployment s = d \<and> sc_round s = r \<and> sc_hotkey s = h"
  by (auto simp: make_scope_def split: if_splits)

lemma pod_scope_Some:
  assumes "pod_scope sha p = Some s"
  shows "scope_ok s" "marker p ''WITNESS_DEPLOYMENT'' = Inr (sc_deployment s)"
    "marker p ''WITNESS_ROUND'' = Inr (sc_round s)" "marker p ''WITNESS_HOTKEY'' = Inr (sc_hotkey s)"
    "\<exists>start. marker p ''WITNESS_START_ID'' = Inr start \<and> uuid_ok start"
    "\<exists>e. epoch_ns p = Inr e"
    "lifecycle p \<in> set lifecycles"
proof -
  from pod_scope_result_Some [OF assms] obtain d r h start epoch n l where
    m: "marker p ''WITNESS_DEPLOYMENT'' = Inr d" "marker p ''WITNESS_ROUND'' = Inr r" "marker p ''WITNESS_HOTKEY'' = Inr h"
    "make_scope d r h = Inr s" "marker p ''WITNESS_START_ID'' = Inr start" "session_uuid start = Inr start"
    "marker p ''WITNESS_EPOCH_NS'' = Inr epoch" "isdigit epoch"
    and l: "l \<in> set lifecycles" "pd_name p = n @ CHR ''-'' # l" by blast
  note sel = make_scope_sel [OF m(4)]
  show "scope_ok s" by (rule make_scope_ok [OF m(4)])
  show "marker p ''WITNESS_DEPLOYMENT'' = Inr (sc_deployment s)" "marker p ''WITNESS_ROUND'' = Inr (sc_round s)"
    "marker p ''WITNESS_HOTKEY'' = Inr (sc_hotkey s)" using m sel by simp_all
  show "\<exists>start. marker p ''WITNESS_START_ID'' = Inr start \<and> uuid_ok start"
    using m by (auto simp: session_uuid_def split: if_splits)
  show "\<exists>e. epoch_ns p = Inr e" using m by (simp add: epoch_ns_def)
  have "CHR ''-'' \<notin> set l" using l(1) by (auto simp: lifecycles_def)
  then show "lifecycle p \<in> set lifecycles" using l by (simp add: lifecycle_def last_split_append)
qed

text \<open>Printing and reading numbers and names.\<close>

lemma isdigit_nat_digits: "isdigit (nat_digits n)"
proof -
  have "nat_digits n \<noteq> []" by (subst nat_digits.simps) simp
  then show ?thesis using nat_digits_digits by (auto simp: isdigit_def list_all_iff)
qed

text \<open>The pod that a create request of \<open>s\<close> makes: its markers, and the short name with its life.\<close>

definition requested_pod :: "scope \<Rightarrow> string \<Rightarrow> string \<Rightarrow> string \<Rightarrow> (string, string) dict \<Rightarrow> string \<Rightarrow> string \<Rightarrow> pod" where
  "requested_pod s pid img status ms start_id life =
     \<lparr>pd_id = pid, pd_name = short_name s @ ''-'' @ life, pd_image = img, pd_status = status, pd_markers = ms,
       pd_tcp = [], pd_cost = None\<rparr>"

lemma scope_markers_sel:
  assumes "scope_markers s start spec e rep = Inr ms"
  shows "uuid_ok start" "set (dkeys ms) = set MARKERS" "dget ms ''WITNESS_DEPLOYMENT'' = Some (sc_deployment s)"
    "dget ms ''WITNESS_ROUND'' = Some (sc_round s)" "dget ms ''WITNESS_HOTKEY'' = Some (sc_hotkey s)"
    "dget ms ''WITNESS_START_ID'' = Some start" "dget ms ''WITNESS_POD_SPEC'' = Some spec"
    "dget ms ''WITNESS_BOOT_MODE'' = Some ''dormant''" "dget ms ''WITNESS_EPOCH_NS'' = Some (show_int e)"
    "dget ms ''WITNESS_REPLACES'' = Some (case rep of None \<Rightarrow> [] | Some r \<Rightarrow> r)"
    "\<And>r. rep = Some r \<Longrightarrow> uuid_ok r"
  using assms
  by (auto simp: scope_markers_def session_uuid_def MARKERS_def rbind_eq_Inr split: if_splits option.splits)

text \<open>
  A pod created for a start is recognised as that start's pod: from its markers and name its scope
  is read back, its epoch, and a session that is still being created, with the start it replaces; and
  once renamed to another stage of its life, as the session of that stage.
\<close>

theorem created_pod_recognised:
  assumes "scope_ok s" "scope_markers s start spec e rep = Inr ms" "0 \<le> e" "hash_ok spec"
    "life \<in> set lifecycles" "rep \<noteq> Some []"
  shows "pod_scope sha (requested_pod s pid img status ms start life) = Some s \<and>
    epoch_ns (requested_pod s pid img status ms start life) = Inr e \<and>
    rmap (\<lambda>x. (se_start_id x, se_replaces x, se_spec_hash x, se_pod_id x)) (pod_session sha (requested_pod s pid img status ms start life)) =
      Inr (start, rep, spec, Some pid) \<and>
    rmap se_phase (pod_session sha (requested_pod s pid img status ms start life)) = phase_of life"
proof -
  let ?p = "requested_pod s pid img status ms start life"
  note m = scope_markers_sel [OF assms(2)]
  have digits: "isdigit (show_int e)" "int (nat_of_digits (show_int e)) = e"
    using assms(3) by (simp_all add: show_int_def isdigit_nat_digits nat_of_digits_digits)
  have mk: "marker ?p k = some_or (dget ms k) KeyError" for k by (simp add: marker_def requested_pod_def)
  have name: "known_name (short_name s # ns) (pd_name ?p)" for ns
    using assms(5) by (auto simp: known_name_def requested_pod_def list_ex_iff)
  have rep: "(if (case rep of None \<Rightarrow> [] | Some r \<Rightarrow> r) = [] then Inr [] else
      session_uuid (case rep of None \<Rightarrow> [] | Some r \<Rightarrow> r)) = Inr (case rep of None \<Rightarrow> [] | Some r \<Rightarrow> r)"
    using m(11) by (auto simp: session_uuid_def split: option.splits)
  have keys: "set (dkeys (pd_markers ?p)) = set MARKERS" using m(2) by (simp add: requested_pod_def)
  have sc: "pod_scope sha ?p = Some s"
    using m(1) scope_okD [OF assms(1)]
    by (simp add: pod_scope_def pod_scope_result_def mk m(3-10) session_uuid_def Let_def keys digits assms(4) name rep
        del: set_map)
  have life: "lifecycle ?p = life"
    using assms(5) last_split_append [of "CHR ''-''" life "short_name s"]
    by (auto simp: lifecycle_def requested_pod_def lifecycles_def)
  have ph: "\<exists>x. phase_of life = Inr x" using assms(5) by (auto simp: lifecycles_def)
  have r: "(if (case rep of None \<Rightarrow> [] | Some r \<Rightarrow> r) = [] then None else Some (case rep of None \<Rightarrow> [] | Some r \<Rightarrow> r)) = rep"
    using assms(6) by (auto split: option.splits)
  from ph obtain x where x: "phase_of life = Inr x" by blast
  have se: "pod_session sha ?p = Inr \<lparr>se_start_id = start, se_replaces = rep, se_phase = x, se_spec_hash = spec,
      se_image = pd_image ?p, se_pod_id = Some (pd_id ?p), se_rejection = None\<rparr>"
    using r by (simp add: pod_session_def sc mk m life x del: phase_of.simps)
  have "epoch_ns ?p = Inr e" by (simp add: epoch_ns_def mk m digits)
  with sc se x show ?thesis by (simp del: phase_of.simps) (simp add: requested_pod_def)
qed

definition example_scope :: scope where
  "example_scope = \<lparr>sc_deployment = ''main'', sc_round = ''cup-4'', sc_hotkey = replicate 48 (CHR ''5'')\<rparr>"

definition example_start :: string where
  "example_start = ''0f8fad5b-d9cb-469f-a165-70867728950e''"

theorem created_pod_recognised_witness:
  "\<exists>ms. scope_markers example_scope example_start (replicate 64 (CHR ''a'')) 17 None = Inr ms \<and>
     pod_scope (\<lambda>h. h) (requested_pod example_scope ''p1'' ''img'' ''RUNNING'' ms example_start ''pending'') = Some example_scope"
proof -
  have ok: "scope_ok example_scope" "uuid_ok example_start" "hash_ok (replicate 64 (CHR ''a''))"
    "''pending'' \<in> set lifecycles" by code_simp+
  obtain ms where m: "scope_markers example_scope example_start (replicate 64 (CHR ''a'')) 17 None = Inr ms"
    using ok(2) by (simp add: scope_markers_def session_uuid_def)
  from created_pod_recognised [OF ok(1) m _ ok(3,4), of "\<lambda>h. h" "''p1''" "''img''" "''RUNNING''"] m show ?thesis by simp
qed

end
