(* ===== verification/Selection.thy ===== *)
theory Selection
  imports StateStore WitnessModels
begin

text \<open>
  The durable fence between the pods of one miner, from \<^verbatim>\<open>shared/subnet_common/witness/selection.py\<close>:
  one record for a scope says which pod is selected, whether it is active and whether it was given
  access. Each operation is a decision on the record, run by \<open>cas_loop\<close>; the interleavings of the
  gateway and the pods are those of \<open>cell_step\<close>.
\<close>

record sel_value =
  sv_start :: string
  sv_pod :: string
  sv_epoch :: int
  sv_active :: bool
  sv_access :: "bool option"

definition sel_key :: "scope \<Rightarrow> string" where
  "sel_key s = ''pod-selection/v1/'' @ sc_deployment s @ ''/'' @ sc_round s @ ''/'' @ sc_hotkey s @ ''.json''"

text \<open>
  What the operations read of a pod: its scope, start, epoch and life. They are present when the scope
  is.
\<close>

record pod_ref =
  pr_id :: string
  pr_scope :: "scope option"
  pr_start :: string
  pr_epoch :: int
  pr_life :: string

definition pod_ref_of :: "(string \<Rightarrow> string) \<Rightarrow> pod \<Rightarrow> pod_ref" where
  "pod_ref_of sha p = \<lparr>pr_id = pd_id p, pr_scope = pod_scope sha p,
     pr_start = (case marker p ''WITNESS_START_ID'' of Inl _ \<Rightarrow> [] | Inr s \<Rightarrow> s),
     pr_epoch = (case epoch_ns p of Inl _ \<Rightarrow> 0 | Inr e \<Rightarrow> e), pr_life = lifecycle p\<rparr>"

definition is_selected :: "sel_value option \<Rightarrow> string \<Rightarrow> string \<Rightarrow> bool" where
  "is_selected v start_id pod_id = (case v of None \<Rightarrow> False
     | Some c \<Rightarrow> sv_active c \<and> sv_start c = start_id \<and> sv_pod c = pod_id)"

definition is_revoked :: "sel_value option \<Rightarrow> pod_ref \<Rightarrow> bool" where
  "is_revoked v p = (case v of None \<Rightarrow> False
     | Some c \<Rightarrow> (sv_start c = pr_start p \<and> sv_pod c \<noteq> pr_id p) \<or>
         (pr_epoch p \<le> sv_epoch c \<and> (\<not> sv_active c \<or> sv_pod c \<noteq> pr_id p)))"

definition grant_decide :: "pod_ref \<Rightarrow> nat \<Rightarrow> sel_value option \<Rightarrow> (sel_value, bool) decision" where
  "grant_decide p n v = (case v of None \<Rightarrow> Finish (Inr False)
     | Some c \<Rightarrow>
         if \<not> sv_active c \<or> sv_pod c \<noteq> pr_id p \<or> sv_start c \<noteq> pr_start p then Finish (Inr False)
         else if sv_access c = Some True then Finish (Inr True)
         else Store (c\<lparr>sv_access := Some True\<rparr>) True)"

definition revoke_decide :: "pod_ref \<Rightarrow> nat \<Rightarrow> sel_value option \<Rightarrow> (sel_value, bool) decision" where
  "revoke_decide p n v = (case v of None \<Rightarrow> Finish (Inr False)
     | Some c \<Rightarrow>
         if sv_access c \<noteq> Some False \<or> sv_pod c \<noteq> pr_id p \<or> sv_start c \<noteq> pr_start p then Finish (Inr False)
         else if \<not> sv_active c then Finish (Inr True)
         else Store (c\<lparr>sv_active := False\<rparr>) True)"

definition update_decide :: "pod_ref \<Rightarrow> bool \<Rightarrow> nat \<Rightarrow> sel_value option \<Rightarrow> (sel_value, bool) decision" where
  "update_decide p active n v =
     (let value = \<lparr>sv_start = pr_start p, sv_pod = pr_id p, sv_epoch = pr_epoch p, sv_active = active,
            sv_access = (case v of
               Some c \<Rightarrow> if sv_pod c = pr_id p then sv_access c
                         else if active \<and> pr_life p = ''pending'' then Some False else None
             | None \<Rightarrow> if active \<and> pr_life p = ''pending'' then Some False else None)\<rparr>
      in case v of None \<Rightarrow> Store value True
         | Some c \<Rightarrow>
             if c = value then Finish (Inr True)
             else if \<not> active \<and> sv_pod c \<noteq> pr_id p then Finish (Inr True)
             else if active \<and> (pr_epoch p < sv_epoch c \<or> (sv_start c = pr_start p \<and> sv_pod c \<noteq> pr_id p) \<or>
                       (sv_pod c = pr_id p \<and> \<not> sv_active c))
             then Finish (Inl (StateConflict ''Allocation has been fenced''))
             else Store value True)"

section \<open>Operations on the store\<close>

type_synonym 's sel_load = "string \<Rightarrow> ('s, sel_value snapshot option) action"
type_synonym 's sel_save = "string \<Rightarrow> sel_value \<Rightarrow> string option \<Rightarrow> ('s, sel_value snapshot) action"

definition selected :: "'s sel_load \<Rightarrow> scope \<Rightarrow> string \<Rightarrow> string \<Rightarrow> ('s, bool) action" where
  "selected load s start_id pod_id =
     act_bind (load (sel_key s)) (\<lambda>sn. act_return (is_selected (map_option sn_data sn) start_id pod_id))"

definition revoked :: "'s sel_load \<Rightarrow> pod_ref \<Rightarrow> ('s, bool) action" where
  "revoked load p = (case pr_scope p of None \<Rightarrow> act_return True
     | Some s \<Rightarrow> act_bind (load (sel_key s)) (\<lambda>sn. act_return (is_revoked (map_option sn_data sn) p)))"

definition sel_change :: "'s sel_load \<Rightarrow> 's sel_save \<Rightarrow> pod_ref \<Rightarrow>
    (nat \<Rightarrow> sel_value option \<Rightarrow> (sel_value, bool) decision) \<Rightarrow> ('s, bool) action" where
  "sel_change load save p decide = (case pr_scope p of None \<Rightarrow> act_raise (ValueError ''Invalid allocation identity'')
     | Some s \<Rightarrow> cas_loop load save (sel_key s) decide 16)"

definition grant :: "'s sel_load \<Rightarrow> 's sel_save \<Rightarrow> pod_ref \<Rightarrow> ('s, bool) action" where
  "grant load save p = sel_change load save p (grant_decide p)"

definition revoke_unserved :: "'s sel_load \<Rightarrow> 's sel_save \<Rightarrow> pod_ref \<Rightarrow> ('s, bool) action" where
  "revoke_unserved load save p = sel_change load save p (revoke_decide p)"

definition update :: "'s sel_load \<Rightarrow> 's sel_save \<Rightarrow> pod_ref \<Rightarrow> bool \<Rightarrow> ('s, bool) action" where
  "update load save p active = sel_change load save p (update_decide p active)"

section \<open>Interleavings\<close>

text \<open>
  A write some operation of some pod of the scope may issue. Pods with one start share its epoch, pods of
  different starts have different ones: the gateway draws a new epoch for every start.
\<close>

definition sel_writes :: "pod_ref set \<Rightarrow> sel_value option \<Rightarrow> sel_value \<Rightarrow> bool" where
  "sel_writes pods v d \<longleftrightarrow> (\<exists>p\<in>pods. \<exists>r. grant_decide p 0 v = Store d r \<or> revoke_decide p 0 v = Store d r \<or>
     (\<exists>active. update_decide p active 0 v = Store d r))"

definition distinct_pods :: "pod_ref set \<Rightarrow> bool" where
  "distinct_pods pods \<longleftrightarrow> (\<forall>p\<in>pods. \<forall>q\<in>pods. (pr_id p = pr_id q \<longrightarrow> pr_start p = pr_start q) \<and>
     (pr_start p = pr_start q \<longleftrightarrow> pr_epoch p = pr_epoch q))"

definition sel_inv :: "pod_ref set \<Rightarrow> sel_value option \<Rightarrow> bool" where
  "sel_inv pods v = (case v of None \<Rightarrow> True
     | Some c \<Rightarrow> (\<exists>p\<in>pods. sv_pod c = pr_id p \<and> sv_start c = pr_start p \<and> sv_epoch c = pr_epoch p))"

lemma grant_store: "grant_decide p n v = Store d r \<Longrightarrow>
    \<exists>c. v = Some c \<and> sv_active c \<and> sv_pod c = pr_id p \<and> sv_start c = pr_start p \<and> d = c\<lparr>sv_access := Some True\<rparr>"
  by (auto simp: grant_decide_def split: option.splits if_splits)

lemma revoke_store: "revoke_decide p n v = Store d r \<Longrightarrow>
    \<exists>c. v = Some c \<and> sv_access c = Some False \<and> sv_pod c = pr_id p \<and> sv_start c = pr_start p \<and> d = c\<lparr>sv_active := False\<rparr>"
  by (auto simp: revoke_decide_def split: option.splits if_splits)

lemma update_store: "update_decide p active n v = Store d r \<Longrightarrow>
    sv_start d = pr_start p \<and> sv_pod d = pr_id p \<and> sv_epoch d = pr_epoch p \<and> sv_active d = active \<and>
    (case v of None \<Rightarrow> True | Some c \<Rightarrow>
       if active then sv_epoch c \<le> pr_epoch p \<and> (sv_start c = pr_start p \<longrightarrow> sv_pod c = pr_id p) \<and>
         (sv_pod c = pr_id p \<longrightarrow> sv_active c) else sv_pod c = pr_id p)"
  by (auto simp: update_decide_def Let_def split: option.splits if_splits)

lemma sel_writes_inv:
  assumes "sel_writes pods v d" "sel_inv pods v"
  shows "sel_inv pods (Some d)"
  using assms unfolding sel_writes_def
  by (auto dest!: grant_store revoke_store update_store simp: sel_inv_def)

lemma sel_writes_revoked:
  assumes w: "sel_writes pods v d" and inv: "sel_inv pods v" and ok: "distinct_pods pods"
    and p: "p \<in> pods" and r: "is_revoked v p"
  shows "is_revoked (Some d) p"
proof -
  obtain c where c: "v = Some c" using r by (auto simp: is_revoked_def split: option.splits)
  with inv obtain q where q: "q \<in> pods" "sv_pod c = pr_id q" "sv_start c = pr_start q" "sv_epoch c = pr_epoch q"
    by (auto simp: sel_inv_def)
  from w c obtain u rr where u: "u \<in> pods" and "grant_decide u 0 (Some c) = Store d rr \<or>
      revoke_decide u 0 (Some c) = Store d rr \<or> (\<exists>active. update_decide u active 0 (Some c) = Store d rr)"
    by (auto simp: sel_writes_def)
  then consider (grant) "d = c\<lparr>sv_access := Some True\<rparr>" | (revoke) "d = c\<lparr>sv_active := False\<rparr>"
    | (update) active where "update_decide u active 0 (Some c) = Store d rr"
    by (auto dest!: grant_store revoke_store)
  then show ?thesis
  proof cases
    case grant
    with r c show ?thesis by (simp add: is_revoked_def)
  next
    case revoke
    with r c show ?thesis by (auto simp: is_revoked_def)
  next
    case (update active)
    note s = update_store [OF update]
    have e: "pr_id x = pr_id y \<Longrightarrow> pr_start x = pr_start y" "pr_start x = pr_start y \<longleftrightarrow> pr_epoch x = pr_epoch y"
      if "x \<in> pods" "y \<in> pods" for x y using ok that unfolding distinct_pods_def by blast+
    have rc: "sv_start c = pr_start p \<and> sv_pod c \<noteq> pr_id p \<or>
        pr_epoch p \<le> sv_epoch c \<and> (\<not> sv_active c \<or> sv_pod c \<noteq> pr_id p)"
      using r c by (simp add: is_revoked_def)
    show ?thesis
    proof (cases active)
      case False
      with s have su: "sv_pod c = pr_id u" by simp
      with q e(1) [OF q(1) u] have "sv_start c = pr_start u" by simp
      moreover have "sv_epoch c = pr_epoch u" using calculation q e(2) [OF q(1) u] by simp
      ultimately show ?thesis using s su rc False by (auto simp: is_revoked_def)
    next
      case True
      with s have su: "sv_epoch c \<le> pr_epoch u" "sv_start c = pr_start u \<Longrightarrow> sv_pod c = pr_id u"
        "sv_pod c = pr_id u \<Longrightarrow> sv_active c" by simp_all
      show ?thesis
      proof (cases "pr_id u = pr_id p")
        case True
        then have up: "pr_start u = pr_start p" "pr_epoch u = pr_epoch p" using e [OF u p] by simp_all
        have "sv_start c = pr_start u"
        proof (rule disjE [OF rc])
          assume "pr_epoch p \<le> sv_epoch c \<and> (\<not> sv_active c \<or> sv_pod c \<noteq> pr_id p)"
          with su(1) up q(4) have "pr_epoch q = pr_epoch u" by simp
          then show ?thesis using e(2) [OF q(1) u] q(3) by simp
        qed (simp add: up)
        with su rc up True show ?thesis by auto
      next
        case False
        have "pr_epoch p \<le> pr_epoch u"
        proof (rule disjE [OF rc])
          assume "sv_start c = pr_start p \<and> sv_pod c \<noteq> pr_id p"
          then have "pr_epoch q = pr_epoch p" using e(2) [OF q(1) p] q(3) by simp
          then show ?thesis using su(1) q(4) by simp
        qed (use su(1) in simp)
        with s False show ?thesis by (simp add: is_revoked_def)
      qed
    qed
  qed
qed

text \<open>
  C11: Revocation is final. However the gateway's and the pods' operations on the selection interleave,
  and however late their writes arrive, a pod that is revoked once stays revoked and is never selected
  again.
\<close>

theorem revocation_is_final:
  assumes "(cell_step (sel_writes pods))\<^sup>*\<^sup>* (empty_cell v) c"
    and "sel_inv pods v" "distinct_pods pods" "p \<in> pods" "is_revoked v p"
  shows "is_revoked (ce_value c) p \<and> \<not> is_selected (ce_value c) (pr_start p) (pr_id p)"
proof -
  let ?P = "\<lambda>v. sel_inv pods v \<and> is_revoked v p"
  from assms(1) have "?P (ce_value c)"
    by (rule cell_invariant [where P = ?P])
      (use assms sel_writes_inv sel_writes_revoked [OF _ _ assms(3,4)] in blast)+
  moreover have "sv_epoch x = pr_epoch p" if "ce_value c = Some x" "sv_start x = pr_start p" for x
  proof -
    from calculation that obtain q where "q \<in> pods" "sv_start x = pr_start q" "sv_epoch x = pr_epoch q"
      by (auto simp: sel_inv_def)
    with that(2) assms(3,4) show ?thesis unfolding distinct_pods_def by metis
  qed
  ultimately show ?thesis by (auto simp: is_revoked_def is_selected_def split: option.splits)
qed

definition example_ref :: "string \<Rightarrow> string \<Rightarrow> int \<Rightarrow> pod_ref" where
  "example_ref i start e = \<lparr>pr_id = i, pr_scope = Some example_scope, pr_start = start, pr_epoch = e, pr_life = ''pending''\<rparr>"

text \<open>Pod a of an older start; pod b's activation is issued, then a tries again, then b's write arrives.\<close>

theorem revocation_is_final_witness:
  "\<not> is_selected (Some \<lparr>sv_start = ''s2'', sv_pod = ''b'', sv_epoch = 2, sv_active = False, sv_access = Some False\<rparr>) ''s1'' ''a''"
proof -
  let ?a = "example_ref ''a'' ''s1'' 1" and ?b = "example_ref ''b'' ''s2'' 2"
  let ?v = "\<lparr>sv_start = ''s2'', sv_pod = ''b'', sv_epoch = 2, sv_active = True, sv_access = Some False\<rparr>"
  let ?w = "?v\<lparr>sv_active := False\<rparr>"
  have d: "distinct_pods {?a, ?b}" "sel_inv {?a, ?b} (Some ?v)" "?a \<in> {?a, ?b}" "is_revoked (Some ?v) ?a"
    by (auto simp: distinct_pods_def sel_inv_def is_revoked_def example_ref_def)
  have "sel_writes {?a, ?b} (Some ?v) ?w"
    by (auto simp: sel_writes_def revoke_decide_def example_ref_def intro!: exI [of _ True])
  then have i: "cell_step (sel_writes {?a, ?b}) (empty_cell (Some ?v))
      ((empty_cell (Some ?v))\<lparr>ce_issued := {(0, ?w)}\<rparr>)"
    using cell_step.issue [of "sel_writes {?a, ?b}" "empty_cell (Some ?v)" ?w] by (simp add: empty_cell_def)
  moreover have "cell_step (sel_writes {?a, ?b}) ((empty_cell (Some ?v))\<lparr>ce_issued := {(0, ?w)}\<rparr>)
      \<lparr>ce_value = Some ?w, ce_version = 1, ce_issued = {(0, ?w)}\<rparr>"
    using cell_step.arrive [of "(empty_cell (Some ?v))\<lparr>ce_issued := {(0, ?w)}\<rparr>" ?w] by (simp add: empty_cell_def)
  ultimately have r: "(cell_step (sel_writes {?a, ?b}))\<^sup>*\<^sup>* (empty_cell (Some ?v))
      \<lparr>ce_value = Some ?w, ce_version = 1, ce_issued = {(0, ?w)}\<rparr>"
    by (blast intro: rtranclp.rtrancl_into_rtrancl)
  from revocation_is_final [OF r d(2,1,3,4)] show ?thesis by (simp add: example_ref_def)
qed

section \<open>The operations make these writes\<close>

text \<open>Over any store that keeps the contract, an operation leaves the record as it was or makes such a write.\<close>

lemma sel_change_writes:
  assumes "cas_store obj load save" "pr_scope p = Some s"
    "\<And>n v d r. decide n v = Store d r \<Longrightarrow> sel_writes pods v d"
    "sel_change load save p decide st = (res, st')"
  shows "obj st' = obj st \<or> (\<exists>d e. sel_writes pods (data_at (obj st) (sel_key s)) d \<and> obj st' = (obj st)(sel_key s \<mapsto> (e, d)))"
proof -
  from assms(2,4) have "cas_loop load save (sel_key s) decide 16 st = (res, st')" by (simp add: sel_change_def)
  from cas_store.cas_loop_decided [OF assms(1) this] assms(3) show ?thesis unfolding decided_def by blast
qed

lemma decide_indep:
  "grant_decide p n v = grant_decide p 0 v" "revoke_decide p n v = revoke_decide p 0 v"
  "update_decide p active n v = update_decide p active 0 v"
  by (simp_all add: grant_decide_def revoke_decide_def update_decide_def)

text \<open>
  Over any store with conditional writes, an operation of a pod changes nothing but its scope's
  record, and that by one write the interleaving theorem allows; a grant that returns true leaves the
  pod selected with access, and a revocation of an unserved pod that returns true leaves it inactive.
\<close>

theorem selection_operations_sound:
  assumes "cas_store obj load save" "pr_scope p = Some s" "p \<in> pods"
    "op \<in> {grant load save p, revoke_unserved load save p, update load save p True, update load save p False}"
    "op st = (res, st')"
  shows "(obj st' = obj st \<or>
      (\<exists>d e. sel_writes pods (data_at (obj st) (sel_key s)) d \<and> obj st' = (obj st)(sel_key s \<mapsto> (e, d)))) \<and>
    (grant load save p st = (Inr True, st') \<longrightarrow>
      (\<exists>c. data_at (obj st') (sel_key s) = Some c \<and> is_selected (Some c) (pr_start p) (pr_id p) \<and> sv_access c = Some True)) \<and>
    (revoke_unserved load save p st = (Inr True, st') \<longrightarrow>
      (\<exists>c. data_at (obj st') (sel_key s) = Some c \<and> sv_pod c = pr_id p \<and> \<not> sv_active c \<and> sv_access c = Some False))"
proof -
  have w: "grant_decide p n v = Store d r \<Longrightarrow> sel_writes pods v d" "revoke_decide p n v = Store d r \<Longrightarrow> sel_writes pods v d"
    "update_decide p active n v = Store d r \<Longrightarrow> sel_writes pods v d" for n v d r active
    using assms(3) unfolding sel_writes_def by (metis decide_indep)+
  have first: "obj st' = obj st \<or>
      (\<exists>d e. sel_writes pods (data_at (obj st) (sel_key s)) d \<and> obj st' = (obj st)(sel_key s \<mapsto> (e, d)))"
    using assms(4,5) sel_change_writes [OF assms(1,2)] w
    unfolding grant_def revoke_unserved_def update_def by (elim insertE emptyE) metis+
  have g: "\<exists>c. data_at (obj st') (sel_key s) = Some c \<and> is_selected (Some c) (pr_start p) (pr_id p) \<and> sv_access c = Some True"
    if "grant load save p st = (Inr True, st')"
  proof -
    from that assms(2) have "cas_loop load save (sel_key s) (grant_decide p) 16 st = (Inr True, st')"
      by (simp add: grant_def sel_change_def)
    from cas_store.cas_loop_decided [OF assms(1) this] show ?thesis
      by (auto simp: grant_decide_def is_selected_def split: option.splits if_splits)
  qed
  have r: "\<exists>c. data_at (obj st') (sel_key s) = Some c \<and> sv_pod c = pr_id p \<and> \<not> sv_active c \<and> sv_access c = Some False"
    if "revoke_unserved load save p st = (Inr True, st')"
  proof -
    from that assms(2) have "cas_loop load save (sel_key s) (revoke_decide p) 16 st = (Inr True, st')"
      by (simp add: revoke_unserved_def sel_change_def)
    from cas_store.cas_loop_decided [OF assms(1) this] show ?thesis
      by (auto simp: revoke_decide_def split: option.splits if_splits)
  qed
  from first g r show ?thesis by blast
qed

theorem selection_operations_sound_witness:
  "\<exists>st' c. grant (r2_load bucket_s3 9) (r2_save bucket_s3 9) (example_ref ''b'' ''s2'' 2)
      \<lparr>bk_objects = [sel_key example_scope \<mapsto> (''v0'', \<lparr>sv_start = ''s2'', sv_pod = ''b'', sv_epoch = 2,
         sv_active = True, sv_access = Some False\<rparr>)], bk_writes = 1, bk_lost = []\<rparr> = (Inr True, st') \<and>
    data_at (bk_objects st') (sel_key example_scope) = Some c \<and> sv_access c = Some True"
proof -
  let ?p = "example_ref ''b'' ''s2'' 2"
  let ?st = "\<lparr>bk_objects = [sel_key example_scope \<mapsto> (''v0'', \<lparr>sv_start = ''s2'', sv_pod = ''b'', sv_epoch = 2,
         sv_active = True, sv_access = Some False\<rparr>)], bk_writes = 1, bk_lost = []\<rparr>"
  have n: "nat_digits (Suc 0) = ''1''" by code_simp
  have "\<exists>st'. grant (r2_load bucket_s3 9) (r2_save bucket_s3 9) ?p ?st = (Inr True, st')"
    by (simp add: grant_def sel_change_def example_ref_def eval_nat_numeral r2_load_def r2_save_def bucket_s3_def
        bucket_answer_def etag_of_def grant_decide_def n)
  then obtain st' where r: "grant (r2_load bucket_s3 9) (r2_save bucket_s3 9) ?p ?st = (Inr True, st')" by blast
  have sc: "pr_scope ?p = Some example_scope" by (simp add: example_ref_def)
  have "\<exists>c. data_at (bk_objects st') (sel_key example_scope) = Some c \<and> sv_access c = Some True"
    using selection_operations_sound [where op = "grant (r2_load bucket_s3 9) (r2_save bucket_s3 9) ?p" and pods = "{?p}",
        OF bucket.r2.cas_store_axioms sc _ _ r] r by auto
  with r show ?thesis by blast
qed

end
