(* ===== verification/CallRecords.thy ===== *)
theory CallRecords
  imports StateStore WitnessModels
begin

text \<open>
  Durable records of model calls and their capture attempts, from \<^verbatim>\<open>witness_pod/records.py\<close>: one record
  for a call, one index entry for an exchange. Every operation changes the record through \<open>cas_loop\<close>;
  the interleavings of the pods and the gateway are those of \<open>cell_step\<close>. The identifiers drawn by
  \<^verbatim>\<open>uuid4\<close> come from the function \<open>uuid\<close> of the attempt; the hash of a request and the first exchange
  identifier are parameters. \<^verbatim>\<open>attempts\<close> is excluded from what is stored, so a loaded record has none.
\<close>

record request_key =
  rk_provider :: string
  rk_sha :: string
  rk_id :: int
  rk_session :: "string option"

datatype call_phase = Reserved | Assigned | Capturing | Issued | Failing

record call =
  cl_request :: request_key
  cl_exchange :: string
  cl_deadline :: "int option"
  cl_phase :: call_phase
  cl_start :: "string option"
  cl_pod :: "string option"
  cl_capture :: "string option"
  cl_authorized :: bool
  cl_not_dispatched :: bool
  cl_manifest :: "string option"
  cl_failure :: "string option"

record call_record =
  cr_revision :: string
  cr_scope_key :: string
  cr_call :: call

datatype document = RecordDoc call_record | IndexDoc string

definition new_call :: "request_key \<Rightarrow> string \<Rightarrow> call" where
  "new_call request exchange = \<lparr>cl_request = request, cl_exchange = exchange, cl_deadline = None, cl_phase = Reserved,
     cl_start = None, cl_pod = None, cl_capture = None, cl_authorized = False, cl_not_dispatched = False,
     cl_manifest = None, cl_failure = None\<rparr>"

definition call_key :: "scope \<Rightarrow> string \<Rightarrow> string result" where
  "call_key s call_id =
     (if hash_ok call_id
      then Inr (''pod-calls/v2/'' @ sc_deployment s @ ''/'' @ sc_round s @ ''/'' @ sc_hotkey s @ ''/'' @ call_id @ ''.json'')
      else Inl (ValueError ''Invalid call ID''))"

definition index_key :: "scope \<Rightarrow> string \<Rightarrow> string result" where
  "index_key s exchange_id = rmap (\<lambda>e. ''pod-exchanges/v2/'' @ sc_deployment s @ ''/'' @ sc_round s @ ''/'' @ sc_hotkey s @
     ''/'' @ e @ ''.json'') (session_uuid exchange_id)"

definition as_record :: "document \<Rightarrow> call_record result" where
  "as_record d = (case d of RecordDoc r \<Rightarrow> Inr r | IndexDoc _ \<Rightarrow> Inl (ValidationError ''call record''))"

definition as_index :: "document \<Rightarrow> string result" where
  "as_index d = (case d of IndexDoc i \<Rightarrow> Inr i | RecordDoc _ \<Rightarrow> Inl KeyError)"

section \<open>Changes of a call\<close>

text \<open>
  Each is the inner \<^verbatim>\<open>change\<close> of an operation: it raises, or gives the new call and the result. The
  number selects the identifiers the attempt draws.
\<close>

type_synonym 'r change = "nat \<Rightarrow> call \<Rightarrow> (call \<times> 'r) result"

definition reserve_change :: "call change" where
  "reserve_change n c = Inr (c, c)"

definition retry_change :: "(nat \<Rightarrow> string) \<Rightarrow> request_key \<Rightarrow> string \<Rightarrow> call change" where
  "retry_change new_id request exchange_id n c =
     (let c' = (if cl_exchange c = exchange_id \<and> cl_phase c = Failing then new_call request (new_id n) else c)
      in Inr (c', c'))"

definition assign_change :: "(nat \<Rightarrow> string) \<Rightarrow> (nat \<Rightarrow> string) \<Rightarrow> request_key \<Rightarrow> string \<Rightarrow> string \<Rightarrow> bool \<Rightarrow>
    string option \<Rightarrow> call change" where
  "assign_change new_id new_capture request start_id pod_id allow_reassign expected n c =
     (let c1 = (if Some (cl_exchange c) = expected \<and> cl_phase c = Failing then new_call request (new_id n) else c);
          c2 = (if cl_phase c1 = Reserved \<or> (cl_phase c1 = Assigned \<and> allow_reassign \<and>
                   (cl_start c1 \<noteq> Some start_id \<or> cl_pod c1 \<noteq> Some pod_id))
                then c1\<lparr>cl_deadline := None, cl_phase := Assigned, cl_start := Some start_id, cl_pod := Some pod_id,
                        cl_capture := Some (new_capture n)\<rparr>
                else c1)
      in Inr (c2, c2))"

definition claim_change :: "string \<Rightarrow> string \<Rightarrow> bool change" where
  "claim_change pod_id capture_id n c =
     (if cl_phase c \<noteq> Assigned \<or> cl_pod c \<noteq> Some pod_id \<or> cl_capture c \<noteq> Some capture_id then Inr (c, False)
      else Inr (c\<lparr>cl_phase := Capturing\<rparr>, True))"

definition authorize_change :: "(nat \<Rightarrow> int) \<Rightarrow> int \<Rightarrow> string \<Rightarrow> string \<Rightarrow> int change" where
  "authorize_change now exchange_seconds pod_id exchange_id n c =
     (if cl_exchange c \<noteq> exchange_id \<or> cl_phase c \<noteq> Capturing \<or> cl_pod c \<noteq> Some pod_id \<or> cl_authorized c
      then Inl (RecordingConflict ''Capture is no longer eligible for authorization'')
      else (let d = now n + exchange_seconds in Inr (c\<lparr>cl_authorized := True, cl_deadline := Some d\<rparr>, d)))"

definition issued_change :: "string \<Rightarrow> string \<Rightarrow> string \<Rightarrow> unit change" where
  "issued_change pod_id digest exchange_id n c =
     (if cl_exchange c \<noteq> exchange_id then Inl (RecordingConflict ''Capture attempt was superseded'')
      else if cl_phase c = Issued \<and> cl_manifest c = Some digest then Inr (c, ())
      else if cl_phase c \<noteq> Capturing \<or> \<not> cl_authorized c \<or> cl_pod c \<noteq> Some pod_id
      then Inl (RecordingConflict ''Capture cannot issue this result'')
      else Inr (c\<lparr>cl_phase := Issued, cl_manifest := Some digest\<rparr>, ()))"

definition failed_change :: "string \<Rightarrow> string \<Rightarrow> string \<Rightarrow> bool \<Rightarrow> string option \<Rightarrow> unit change" where
  "failed_change pod_id failure exchange_id not_dispatched digest n c =
     (if cl_exchange c \<noteq> exchange_id then Inr (c, ())
      else if cl_phase c = Failing \<and> cl_failure c = Some failure
      then Inr (if cl_pod c = Some pod_id \<and> cl_manifest c = None \<and> digest \<noteq> None then c\<lparr>cl_manifest := digest\<rparr> else c, ())
      else if cl_phase c \<noteq> Capturing \<or> cl_pod c \<noteq> Some pod_id
      then Inl (RecordingConflict ''Cannot replace an existing result with an error'')
      else (let c' = c\<lparr>cl_phase := Failing, cl_failure := Some failure, cl_not_dispatched := not_dispatched \<and> \<not> cl_authorized c\<rparr>
            in Inr (if digest \<noteq> None then c'\<lparr>cl_manifest := digest\<rparr> else c', ())))"

section \<open>Operations on the store\<close>

text \<open>
  \<open>cx_id\<close> is the hash of a request, \<open>cx_exchange\<close> the name-based first exchange identifier,
  \<open>cx_uuid k n\<close> the random identifiers of an attempt.
\<close>

record 's call_context =
  cx_load :: "string \<Rightarrow> ('s, document snapshot option) action"
  cx_save :: "string \<Rightarrow> document \<Rightarrow> string option \<Rightarrow> ('s, document snapshot) action"
  cx_id :: "request_key \<Rightarrow> string"
  cx_exchange :: "string \<Rightarrow> string"
  cx_uuid :: "nat \<Rightarrow> nat \<Rightarrow> string"
  cx_now :: "nat \<Rightarrow> int"
  cx_seconds :: int

definition load_call :: "'s call_context \<Rightarrow> scope \<Rightarrow> string \<Rightarrow> ('s, call_record option) action" where
  "load_call cx s call_id =
     act_bind (act_lift (call_key s call_id)) (\<lambda>key.
     act_bind (cx_load cx key) (\<lambda>sn.
       case sn of None \<Rightarrow> act_return None
       | Some x \<Rightarrow>
           act_bind (act_lift (as_record (sn_data x))) (\<lambda>r.
             if cr_scope_key r \<noteq> scope_key s \<or> cx_id cx (cl_request (cr_call r)) \<noteq> call_id
             then act_raise (RecordingConflict ''Call identity differs'')
             else act_return (Some r))))"

definition change_decide :: "'s call_context \<Rightarrow> scope \<Rightarrow> request_key \<Rightarrow> 'r change \<Rightarrow> nat \<Rightarrow> document option \<Rightarrow>
    (document, 'r) decision" where
  "change_decide cx s request change n v =
     (case (case v of None \<Rightarrow> Inr \<lparr>cr_revision = cx_uuid cx 0 n, cr_scope_key = scope_key s,
                cr_call = new_call request (cx_exchange cx (scope_key s @ ''/'' @ cx_id cx request))\<rparr>
            | Some d \<Rightarrow> as_record d) of
        Inl e \<Rightarrow> Finish (Inl e)
      | Inr r \<Rightarrow>
          if cr_scope_key r \<noteq> scope_key s \<or> cl_request (cr_call r) \<noteq> request
          then Finish (Inl (RecordingConflict ''Call identity differs''))
          else (case change n (cr_call r) of
                  Inl e \<Rightarrow> Finish (Inl e)
                | Inr (c, x) \<Rightarrow> Store (RecordDoc (r\<lparr>cr_revision := cx_uuid cx 1 n, cr_call := c\<rparr>)) x))"

definition change_call :: "'s call_context \<Rightarrow> scope \<Rightarrow> request_key \<Rightarrow> 'r change \<Rightarrow> ('s, 'r) action" where
  "change_call cx s request change =
     act_bind (act_lift (call_key s (cx_id cx request))) (\<lambda>key.
       cas_loop (cx_load cx) (cx_save cx) key (change_decide cx s request change) 16)"

definition index_call :: "'s call_context \<Rightarrow> scope \<Rightarrow> call \<Rightarrow> ('s, unit) action" where
  "index_call cx s c =
     act_bind (act_lift (index_key s (cl_exchange c))) (\<lambda>key st.
       case cx_save cx key (IndexDoc (cx_id cx (cl_request c))) None st of
         (Inr _, st') \<Rightarrow> (Inr (), st')
       | (Inl e, st') \<Rightarrow>
           if \<exists>m. e = StateConflict m then
             act_bind (cx_load cx key) (\<lambda>sn.
               if map_option sn_data sn = Some (IndexDoc (cx_id cx (cl_request c))) then act_return ()
               else act_raise (RecordingConflict ''Exchange index conflicts'')) st'
           else (Inl e, st'))"

definition reserve :: "'s call_context \<Rightarrow> scope \<Rightarrow> request_key \<Rightarrow> ('s, call) action" where
  "reserve cx s request = act_bind (change_call cx s request reserve_change)
     (\<lambda>c. act_bind (index_call cx s c) (\<lambda>_. act_return c))"

definition retry :: "'s call_context \<Rightarrow> scope \<Rightarrow> request_key \<Rightarrow> string \<Rightarrow> ('s, call) action" where
  "retry cx s request exchange_id = act_bind (change_call cx s request (retry_change (cx_uuid cx 2) request exchange_id))
     (\<lambda>c. act_bind (index_call cx s c) (\<lambda>_. act_return c))"

definition assign :: "'s call_context \<Rightarrow> scope \<Rightarrow> request_key \<Rightarrow> string \<Rightarrow> string \<Rightarrow> bool \<Rightarrow> string option \<Rightarrow>
    ('s, call) action" where
  "assign cx s request start_id pod_id allow_reassign expected =
     act_bind (change_call cx s request
         (assign_change (cx_uuid cx 2) (cx_uuid cx 3) request start_id pod_id allow_reassign expected))
     (\<lambda>c. act_bind (index_call cx s c) (\<lambda>_. act_return c))"

definition claim :: "'s call_context \<Rightarrow> scope \<Rightarrow> request_key \<Rightarrow> string \<Rightarrow> string \<Rightarrow> ('s, bool) action" where
  "claim cx s request pod_id capture_id = change_call cx s request (claim_change pod_id capture_id)"

definition authorize :: "'s call_context \<Rightarrow> scope \<Rightarrow> request_key \<Rightarrow> string \<Rightarrow> string \<Rightarrow> ('s, int) action" where
  "authorize cx s request pod_id exchange_id =
     change_call cx s request (authorize_change (cx_now cx) (cx_seconds cx) pod_id exchange_id)"

definition issued :: "'s call_context \<Rightarrow> scope \<Rightarrow> request_key \<Rightarrow> string \<Rightarrow> string \<Rightarrow> string \<Rightarrow> ('s, unit) action" where
  "issued cx s request pod_id digest exchange_id = change_call cx s request (issued_change pod_id digest exchange_id)"

definition failed :: "'s call_context \<Rightarrow> scope \<Rightarrow> request_key \<Rightarrow> string \<Rightarrow> string \<Rightarrow> string \<Rightarrow> bool \<Rightarrow> string option \<Rightarrow>
    ('s, unit) action" where
  "failed cx s request pod_id failure exchange_id not_dispatched digest =
     change_call cx s request (failed_change pod_id failure exchange_id not_dispatched digest)"

definition indexed_record :: "'s call_context \<Rightarrow> scope \<Rightarrow> string \<Rightarrow> ('s, call_record option) action" where
  "indexed_record cx s exchange_id =
     act_bind (act_lift (index_key s exchange_id)) (\<lambda>key.
     act_bind (cx_load cx key) (\<lambda>sn.
       case sn of None \<Rightarrow> act_return None
       | Some x \<Rightarrow> act_bind (act_lift (as_index (sn_data x))) (\<lambda>call_id. load_call cx s call_id)))"

definition locate :: "'s call_context \<Rightarrow> scope \<Rightarrow> string \<Rightarrow> ('s, (request_key \<times> call) option) action" where
  "locate cx s exchange_id =
     act_bind (indexed_record cx s exchange_id) (\<lambda>r.
       act_return (case r of None \<Rightarrow> None
         | Some x \<Rightarrow> if cl_exchange (cr_call x) = exchange_id then Some (cl_request (cr_call x), cr_call x) else None))"

definition replaced :: "'s call_context \<Rightarrow> scope \<Rightarrow> string \<Rightarrow> ('s, bool) action" where
  "replaced cx s exchange_id =
     act_bind (indexed_record cx s exchange_id) (\<lambda>r.
       act_return (case r of None \<Rightarrow> False | Some x \<Rightarrow> cl_exchange (cr_call x) \<noteq> exchange_id))"

section \<open>Interleavings\<close>

text \<open>
  The writes of a call some operation may issue; \<open>fresh\<close> are the identifiers drawn for new exchanges.
\<close>

definition current_call :: "request_key \<Rightarrow> string \<Rightarrow> call option \<Rightarrow> call" where
  "current_call request exchange v = (case v of None \<Rightarrow> new_call request exchange | Some c \<Rightarrow> c)"

inductive call_change :: "string set \<Rightarrow> request_key \<Rightarrow> call \<Rightarrow> call \<Rightarrow> bool" for fresh request where
  reserving: "reserve_change n c = Inr (d, x) \<Longrightarrow> call_change fresh request c d"
| retrying: "retry_change f request e n c = Inr (d, x) \<Longrightarrow> f n \<in> fresh \<Longrightarrow> call_change fresh request c d"
| assigning: "assign_change f g request st pod re ex n c = Inr (d, x) \<Longrightarrow> f n \<in> fresh \<Longrightarrow> g n \<in> fresh \<Longrightarrow>
    call_change fresh request c d"
| claiming: "claim_change pod cap n c = Inr (d, b) \<Longrightarrow> call_change fresh request c d"
| authorizing: "authorize_change now secs pod e n c = Inr (d, t) \<Longrightarrow> call_change fresh request c d"
| issuing: "issued_change pod m e n c = Inr (d, u) \<Longrightarrow> call_change fresh request c d"
| failing: "failed_change pod why e nd m n c = Inr (d, u) \<Longrightarrow> call_change fresh request c d"

inductive_cases call_changeE: "call_change fresh request c d"

definition call_writes :: "string set \<Rightarrow> request_key \<Rightarrow> string \<Rightarrow> call option \<Rightarrow> call \<Rightarrow> bool" where
  "call_writes fresh request exchange v d = call_change fresh request (current_call request exchange v) d"

text \<open>The forms a changed call can have.\<close>

lemma retry_forms: "retry_change f request e n c = Inr (d, x) \<Longrightarrow>
    d = c \<or> (cl_phase c = Failing \<and> d = new_call request (f n))"
  by (auto simp: retry_change_def Let_def split: if_splits)

abbreviation "assigned_to st pod cap c \<equiv>
  c\<lparr>cl_deadline := None, cl_phase := Assigned, cl_start := Some st, cl_pod := Some pod, cl_capture := Some cap\<rparr>"

lemma assign_forms: "assign_change f g request st pod re ex n c = Inr (d, x) \<Longrightarrow>
    d = c \<or> (cl_phase c \<in> {Reserved, Assigned} \<and> d = assigned_to st pod (g n) c) \<or>
    (cl_phase c = Failing \<and> d = assigned_to st pod (g n) (new_call request (f n)))"
  by (cases "Some (cl_exchange c) = ex \<and> cl_phase c = Failing")
    (auto simp: assign_change_def Let_def new_call_def split: if_splits)

lemma claim_forms: "claim_change pod cap n c = Inr (d, b) \<Longrightarrow> d = c \<or> (cl_phase c = Assigned \<and> d = c\<lparr>cl_phase := Capturing\<rparr>)"
  by (auto simp: claim_change_def split: if_splits)

lemma authorize_forms: "authorize_change now secs pod e n c = Inr (d, t) \<Longrightarrow>
    cl_exchange c = e \<and> cl_phase c = Capturing \<and> \<not> cl_authorized c \<and> d = c\<lparr>cl_authorized := True, cl_deadline := Some t\<rparr>"
  by (auto simp: authorize_change_def Let_def split: if_splits)

lemma issued_forms: "issued_change pod m e n c = Inr (d, u) \<Longrightarrow>
    d = c \<or> (cl_phase c = Capturing \<and> cl_authorized c \<and> d = c\<lparr>cl_phase := Issued, cl_manifest := Some m\<rparr>)"
  by (auto simp: issued_change_def split: if_splits)

lemma failed_forms: "failed_change pod why e nd m n c = Inr (d, u) \<Longrightarrow>
    d = c \<or> (cl_phase c = Failing \<and> d = c\<lparr>cl_manifest := m\<rparr>) \<or>
    (cl_phase c = Capturing \<and> (\<exists>k. d = c\<lparr>cl_phase := Failing, cl_failure := Some why,
       cl_not_dispatched := nd \<and> \<not> cl_authorized c, cl_manifest := k\<rparr>))"
proof -
  assume a: "failed_change pod why e nd m n c = Inr (d, u)"
  have same: "c\<lparr>cl_phase := Failing, cl_failure := Some why, cl_not_dispatched := b\<rparr> =
      c\<lparr>cl_phase := Failing, cl_failure := Some why, cl_not_dispatched := b, cl_manifest := cl_manifest c\<rparr>" for b by simp
  from a show ?thesis
    unfolding failed_change_def Let_def by (simp split: if_split_asm) (blast intro: same)+
qed

inductive call_form :: "string set \<Rightarrow> request_key \<Rightarrow> call \<Rightarrow> call \<Rightarrow> bool" for fresh request where
  same: "call_form fresh request c c"
| renewed: "cl_phase c = Failing \<Longrightarrow> e \<in> fresh \<Longrightarrow> call_form fresh request c (new_call request e)"
| assigned: "cl_phase c \<in> {Reserved, Assigned} \<Longrightarrow> cap \<in> fresh \<Longrightarrow> call_form fresh request c (assigned_to st pod cap c)"
| reassigned: "cl_phase c = Failing \<Longrightarrow> e \<in> fresh \<Longrightarrow> cap \<in> fresh \<Longrightarrow>
    call_form fresh request c (assigned_to st pod cap (new_call request e))"
| claimed: "cl_phase c = Assigned \<Longrightarrow> call_form fresh request c (c\<lparr>cl_phase := Capturing\<rparr>)"
| authorized: "cl_phase c = Capturing \<Longrightarrow> \<not> cl_authorized c \<Longrightarrow>
    call_form fresh request c (c\<lparr>cl_authorized := True, cl_deadline := Some t\<rparr>)"
| result: "cl_phase c = Capturing \<Longrightarrow> cl_authorized c \<Longrightarrow>
    call_form fresh request c (c\<lparr>cl_phase := Issued, cl_manifest := Some m\<rparr>)"
| failure: "cl_phase c = Capturing \<Longrightarrow> nd \<longrightarrow> \<not> cl_authorized c \<Longrightarrow>
    call_form fresh request c (c\<lparr>cl_phase := Failing, cl_failure := Some why, cl_not_dispatched := nd, cl_manifest := k\<rparr>)"
| manifest: "cl_phase c = Failing \<Longrightarrow> call_form fresh request c (c\<lparr>cl_manifest := k\<rparr>)"

inductive_cases call_formE: "call_form fresh request c d"

lemma call_change_form: "call_change fresh request c d \<Longrightarrow> call_form fresh request c d"
proof (erule call_changeE)
  fix pod why e nd m n u
  assume "failed_change pod why e nd m n c = Inr (d, u)"
  from failed_forms [OF this] show "call_form fresh request c d"
    by (elim disjE conjE exE) (auto intro: call_form.intros)
qed (auto simp: reserve_change_def intro: call_form.intros
      dest!: retry_forms assign_forms claim_forms authorize_forms issued_forms)

lemma call_form_issued: "call_form fresh request c d \<Longrightarrow> cl_phase c = Issued \<Longrightarrow> d = c"
  by (erule call_formE) auto

text \<open>What the phases say about the other fields.\<close>

definition call_ok :: "call \<Rightarrow> bool" where
  "call_ok c =
     ((cl_phase c = Reserved \<longrightarrow> cl_start c = None \<and> cl_pod c = None \<and> cl_capture c = None) \<and>
      (cl_phase c \<noteq> Reserved \<longrightarrow> cl_start c \<noteq> None \<and> cl_pod c \<noteq> None \<and> cl_capture c \<noteq> None) \<and>
      (cl_authorized c \<longrightarrow> cl_phase c \<in> {Capturing, Issued, Failing}) \<and>
      (cl_authorized c \<longleftrightarrow> cl_deadline c \<noteq> None) \<and>
      (cl_phase c = Issued \<longrightarrow> cl_authorized c \<and> cl_manifest c \<noteq> None) \<and>
      (cl_phase c = Failing \<longleftrightarrow> cl_failure c \<noteq> None) \<and>
      (cl_not_dispatched c \<longrightarrow> cl_phase c = Failing \<and> \<not> cl_authorized c) \<and>
      (cl_manifest c \<noteq> None \<longrightarrow> cl_phase c \<in> {Issued, Failing}))"

lemma call_ok_new: "call_ok (new_call request e)"
  by (simp add: call_ok_def new_call_def)

lemma call_form_authorized:
  "call_form fresh request c d \<Longrightarrow> x \<notin> fresh \<Longrightarrow> call_ok c \<Longrightarrow> cl_exchange c \<noteq> x \<or> cl_authorized c \<Longrightarrow>
     cl_exchange d \<noteq> x \<or> cl_authorized d"
  by (erule call_formE) (auto simp: new_call_def)

lemma call_form_ok: "call_form fresh request c d \<Longrightarrow> call_ok c \<Longrightarrow> call_ok d"
proof (erule call_formE)
  fix e st pod cap
  assume "d = assigned_to st pod cap (new_call request e)"
  then show "call_ok d" by (simp add: call_ok_def new_call_def)
qed (auto simp: call_ok_new, auto simp: call_ok_def)

lemma call_form_claimed:
  "call_form fresh request c d \<Longrightarrow> x \<notin> fresh \<Longrightarrow> cl_capture c \<noteq> Some x \<or> cl_phase c \<notin> {Reserved, Assigned} \<Longrightarrow>
     cl_capture d \<noteq> Some x \<or> cl_phase d \<notin> {Reserved, Assigned}"
  by (erule call_formE) (auto simp: new_call_def)

lemma call_writes_form: "call_writes fresh request exchange (Some c) d \<Longrightarrow> call_form fresh request c d"
  by (simp add: call_writes_def current_call_def call_change_form)

text \<open>A property of calls that every change keeps holds in all interleavings.\<close>

lemma call_run:
  assumes "(cell_step (call_writes fresh request exchange))\<^sup>*\<^sup>* (empty_cell (Some c)) cell"
    and "Q c" "\<And>c d. Q c \<Longrightarrow> call_form fresh request c d \<Longrightarrow> Q d"
  shows "\<exists>d. ce_value cell = Some d \<and> Q d"
proof -
  let ?P = "\<lambda>v. \<exists>d. v = Some d \<and> Q d"
  from assms(1) have "?P (ce_value cell)"
    by (rule cell_invariant [where P = ?P]) (use assms(2,3) call_writes_form in blast)+
  then show ?thesis .
qed

text \<open>
  C12: A result is final: once a call's record holds an issued result, no interleaving of any operations
  of any pods and the gateway, however late their writes arrive, changes that record again.
\<close>

theorem issued_result_is_final:
  assumes "(cell_step (call_writes fresh request exchange))\<^sup>*\<^sup>* (empty_cell (Some c)) cell" "cl_phase c = Issued"
  shows "ce_value cell = Some c"
  using call_run [OF assms(1), of "\<lambda>d. d = c"] call_form_issued [of fresh request c] assms(2) by blast

text \<open>
  C13: Capturing and dispatching happen at most once: after a successful claim every other claim of the
  same capture returns false, and after a successful authorization every other authorization of the
  same exchange raises, whatever happens to the call in between, provided that identifiers drawn anew
  differ from those in use.
\<close>

theorem claim_and_authorization_once:
  assumes run: "(cell_step (call_writes fresh request exchange))\<^sup>*\<^sup>* (empty_cell (Some d)) cell"
    and "call_ok c" "x \<notin> fresh"
    and step: "claim_change pod x n c = Inr (d, True) \<or> authorize_change now secs pod x n c = Inr (d, t)"
  shows "\<exists>e. ce_value cell = Some e \<and>
    (claim_change pod x n c = Inr (d, True) \<longrightarrow> claim_change pod' x m e = Inr (e, False)) \<and>
    (authorize_change now secs pod x n c = Inr (d, t) \<longrightarrow> (\<exists>err. authorize_change now' secs' pod' x m e = Inl err))"
proof -
  let ?Q = "\<lambda>e. call_ok e \<and>
     (claim_change pod x n c = Inr (d, True) \<longrightarrow> cl_capture e \<noteq> Some x \<or> cl_phase e \<notin> {Reserved, Assigned}) \<and>
     (authorize_change now secs pod x n c = Inr (d, t) \<longrightarrow> cl_exchange e \<noteq> x \<or> cl_authorized e)"
  have "call_form fresh request c d"
    using step by (auto intro!: call_change_form intro: call_change.intros)
  with assms(2) have ok: "call_ok d" by (rule call_form_ok [rotated])
  moreover have "claim_change pod x n c = Inr (d, True) \<longrightarrow> cl_phase d = Capturing"
    by (auto simp: claim_change_def split: if_splits)
  moreover have "authorize_change now secs pod x n c = Inr (d, t) \<longrightarrow> cl_authorized d"
    by (auto dest: authorize_forms)
  ultimately have "?Q d" by simp
  moreover have "?Q c' \<Longrightarrow> call_form fresh request c' d' \<Longrightarrow> ?Q d'" for c' d'
    using call_form_ok [of fresh request c' d'] call_form_claimed [of fresh request c' d' x]
      call_form_authorized [of fresh request c' d' x] assms(3) by blast
  ultimately have "\<exists>e. ce_value cell = Some e \<and> ?Q e"
    by (rule call_run [OF run, of ?Q])
  then obtain e where "ce_value cell = Some e" "?Q e" by blast
  then show ?thesis
    by (intro exI [of _ e]) (auto simp: claim_change_def authorize_change_def)
qed

text \<open>
  C14: In every interleaving the fields of a record fit its phase: only a captured call is authorized, an
  authorized one has a deadline, an issued one was authorized and has its manifest, a failure has its
  reason, and a call said not to have been dispatched was never authorized.
\<close>

theorem call_records_well_formed:
  assumes "(cell_step (call_writes fresh request exchange))\<^sup>*\<^sup>* (empty_cell v) cell"
    and "case v of None \<Rightarrow> True | Some c \<Rightarrow> call_ok c"
  shows "case ce_value cell of None \<Rightarrow> True | Some c \<Rightarrow> call_ok c"
proof -
  let ?P = "\<lambda>v. case v of None \<Rightarrow> True | Some c \<Rightarrow> call_ok c"
  have "call_writes fresh request exchange w d \<Longrightarrow> ?P w \<Longrightarrow> call_ok d" for w d
    using call_change_form [of fresh request "current_call request exchange w" d]
      call_form_ok [of fresh request "current_call request exchange w" d] call_ok_new
    by (auto simp: call_writes_def current_call_def split: option.splits)
  then show ?thesis
    by (intro cell_invariant [where P = ?P, OF assms(1,2)]) auto
qed

section \<open>Examples\<close>

definition example_request :: request_key where
  "example_request = \<lparr>rk_provider = ''api'', rk_sha = ''ab'', rk_id = 7, rk_session = None\<rparr>"

definition example_assigned :: call where
  "example_assigned = (new_call example_request ''x'')\<lparr>cl_phase := Assigned, cl_start := Some ''start'', cl_pod := Some ''pod'',
     cl_capture := Some ''x''\<rparr>"

definition example_capturing :: call where
  "example_capturing = example_assigned\<lparr>cl_phase := Capturing\<rparr>"

definition example_authorized :: call where
  "example_authorized = example_capturing\<lparr>cl_authorized := True, cl_deadline := Some 1900\<rparr>"

definition example_issued :: call where
  "example_issued = example_authorized\<lparr>cl_phase := Issued, cl_manifest := Some ''digest''\<rparr>"

lemmas example_call_defs = example_issued_def example_authorized_def example_capturing_def example_assigned_def
  new_call_def example_request_def

lemma example_changes:
  "claim_change ''pod'' ''x'' n example_assigned = Inr (example_capturing, True)"
  "authorize_change (\<lambda>_. 100) 1800 ''pod'' ''x'' n example_capturing = Inr (example_authorized, 1900)"
  "issued_change ''pod'' ''digest'' ''x'' n example_authorized = Inr (example_issued, ())"
  by (simp_all add: claim_change_def authorize_change_def issued_change_def Let_def example_call_defs)

lemma example_issue:
  "\<exists>cell. (cell_step (call_writes {} example_request ''x''))\<^sup>*\<^sup>* (empty_cell (Some example_authorized)) cell \<and>
     ce_value cell = Some example_issued"
proof (rule cell_write [OF rtranclp.rtrancl_refl])
  from example_changes(3) have "call_change {} example_request example_authorized example_issued" by (rule call_change.issuing)
  then show "call_writes {} example_request ''x'' (ce_value (empty_cell (Some example_authorized))) example_issued"
    by (simp add: call_writes_def current_call_def empty_cell_def)
qed

text \<open>A pod whose capture has its result cannot turn it into a failure.\<close>

theorem issued_result_is_final_witness:
  "\<exists>cell. (cell_step (call_writes {} example_request ''x''))\<^sup>*\<^sup>* (empty_cell (Some example_issued)) cell \<and>
     ce_version cell = 1 \<and> ce_value cell = Some example_issued"
proof -
  let ?R = "call_writes {} example_request ''x''"
  let ?c = "empty_cell (Some example_issued)"
  let ?d = "?c\<lparr>ce_issued := {(0, example_issued)}\<rparr>"
  let ?e = "?d\<lparr>ce_value := Some example_issued, ce_version := Suc 0\<rparr>"
  have "?R (ce_value ?c) example_issued"
    using call_change.reserving [of 0 example_issued example_issued example_issued]
    by (simp add: call_writes_def current_call_def empty_cell_def reserve_change_def)
  from cell_step.issue [of ?R ?c, OF this] have "cell_step ?R ?c ?d" by (simp add: empty_cell_def)
  moreover have "cell_step ?R ?d ?e" using cell_step.arrive [of ?d example_issued ?R] by (simp add: empty_cell_def)
  ultimately have run: "(cell_step ?R)\<^sup>*\<^sup>* ?c ?e" by (rule converse_rtranclp_into_rtranclp [OF _ r_into_rtranclp])
  have "cl_phase example_issued = Issued" by (simp add: example_call_defs)
  from issued_result_is_final [OF run this] run show ?thesis by (intro exI [of _ ?e]) simp
qed

theorem claim_and_authorization_once_witness:
  "authorize_change (\<lambda>_. 100) 1800 ''pod'' ''x'' 0 example_capturing = Inr (example_authorized, 1900) \<and>
   (\<exists>cell err. (cell_step (call_writes {} example_request ''x''))\<^sup>*\<^sup>* (empty_cell (Some example_authorized)) cell \<and>
     ce_value cell = Some example_issued \<and>
     authorize_change (\<lambda>_. 200) 1800 ''pod'' ''x'' 1 example_issued = Inl err)"
proof -
  from example_issue obtain cell where
    run: "(cell_step (call_writes {} example_request ''x''))\<^sup>*\<^sup>* (empty_cell (Some example_authorized)) cell"
    and v: "ce_value cell = Some example_issued" by blast
  have "call_ok example_capturing" by (simp add: call_ok_def example_call_defs)
  from claim_and_authorization_once [OF run this _ disjI2 [OF example_changes(2) [of 0]], of "''pod''" 1 "\<lambda>_. 200" 1800]
    example_changes(2) [of 0] v
  have "\<exists>err. authorize_change (\<lambda>_. 200) 1800 ''pod'' ''x'' 1 example_issued = Inl err" by auto
  with run v example_changes(2) [of 0] show ?thesis by blast
qed

theorem call_records_well_formed_witness:
  "\<exists>cell. (cell_step (call_writes {} example_request ''x''))\<^sup>*\<^sup>* (empty_cell (Some example_authorized)) cell \<and>
     (\<exists>c. ce_value cell = Some c \<and> call_ok c \<and> cl_phase c = Issued)"
proof -
  from example_issue obtain cell where
    run: "(cell_step (call_writes {} example_request ''x''))\<^sup>*\<^sup>* (empty_cell (Some example_authorized)) cell"
    and v: "ce_value cell = Some example_issued" by blast
  have "case Some example_authorized of None \<Rightarrow> True | Some c \<Rightarrow> call_ok c" by (simp add: call_ok_def example_call_defs)
  from call_records_well_formed [OF run this] v run show ?thesis by (auto simp: example_call_defs)
qed

end
