(* ===== verification/Weights.thy ===== *)
theory Weights
  imports Competition
begin

text \<open>
  The weights setter, \<^verbatim>\<open>weights-setter/weights_service.py\<close>: from the leader history to the weights on
  the chain. Everything the service awaits is read from an environment at successive instants; an
  instant may also be the one where \<^verbatim>\<open>wait_for\<close> cancels the iteration, which the model shows as the
  exception \<open>cancelled\<close>, the one \<^verbatim>\<open>except Exception\<close> does not catch. Weights set and attempts are logged.
\<close>

section \<open>The weights\<close>

record weights_result =
  wr_uids :: "int list"
  wr_weights :: "pyfloat list"

definition calculate_weights :: "int \<Rightarrow> int option \<Rightarrow> pyfloat \<Rightarrow> weights_result" where
  "calculate_weights owner leader_uid leader_weight =
     (case leader_uid of
        None \<Rightarrow> \<lparr>wr_uids = [owner], wr_weights = [1]\<rparr>
      | Some uid \<Rightarrow>
          if uid = owner then \<lparr>wr_uids = [owner], wr_weights = [1]\<rparr>
          else \<lparr>wr_uids = [owner, uid], wr_weights = [fsub 1 leader_weight, leader_weight]\<rparr>)"

definition leader_last_block :: "leader_state \<Rightarrow> int option" where
  "leader_last_block ls = map_option effective_block (get_latest ls)"

text \<open>The first neuron with a hotkey, as \<^verbatim>\<open>enumerate\<close> finds it.\<close>

fun uid_of :: "string \<Rightarrow> string list \<Rightarrow> nat option" where
  "uid_of hotkey [] = None"
| "uid_of hotkey (h # hs) = (if h = hotkey then Some 0 else map_option Suc (uid_of hotkey hs))"

lemma uid_of_Some: "uid_of h hs = Some u \<longleftrightarrow> u < length hs \<and> hs ! u = h \<and> h \<notin> set (take u hs)"
proof (induction hs arbitrary: u)
  case (Cons x xs)
  then show ?case by (cases u) auto
qed simp

section \<open>The environment\<close>

definition cancelled :: exn where "cancelled = PyException ''CancelledError''"
definition timed_out :: exn where "timed_out = PyException ''TimeoutError''"

record weights_env =
  we_time :: "nat \<Rightarrow> pyfloat"
  we_random :: "nat \<Rightarrow> pyfloat"
  we_open :: "nat \<Rightarrow> unit result"
  we_ref_sha :: "nat \<Rightarrow> string result"
  we_leader_file :: "string \<Rightarrow> nat \<Rightarrow> string option result"
  we_parse :: "string \<Rightarrow> leader_state result"
  we_block :: "nat \<Rightarrow> int result"
  we_metagraph :: "nat \<Rightarrow> (string list \<times> int list) result"
  we_set_weights :: "weights_result \<Rightarrow> nat \<Rightarrow> bool result"
  we_commit_reveal :: "nat \<Rightarrow> bool result"
  we_wait_block :: "nat \<Rightarrow> unit result"
  we_owner :: int
  we_hotkey :: string
  we_interval :: int
  we_min_retry :: int
  we_max_retry :: int
  we_leader_wait :: int

datatype weights_event = Attempt pyfloat | SetWeights weights_result bool | Notice

record weights_service =
  wk_clock :: nat
  wk_next :: pyfloat
  wk_log :: "weights_event list"

definition BLOCK_TIME :: int where "BLOCK_TIME = 12"
definition confirmation_blocks :: nat where "confirmation_blocks = 3"

definition w_read :: "(nat \<Rightarrow> 'a result) \<Rightarrow> (weights_service, 'a) action" where
  "w_read f s = (f (wk_clock s), s\<lparr>wk_clock := Suc (wk_clock s)\<rparr>)"

definition w_log :: "weights_event \<Rightarrow> (weights_service, unit) action" where
  "w_log e = act_modify (\<lambda>s. s\<lparr>wk_log := wk_log s @ [e]\<rparr>)"

section \<open>One iteration\<close>

definition fetch_leader_state :: "weights_env \<Rightarrow> (weights_service, leader_state) action" where
  "fetch_leader_state env =
     act_bind (w_read (we_ref_sha env)) (\<lambda>sha.
     act_bind (w_read (we_leader_file env sha)) (\<lambda>content.
       case content of
         None \<Rightarrow> act_raise (FileNotFoundError ''leader.json not found'')
       | Some c \<Rightarrow> act_lift (we_parse env c)))"

definition resolve_leader :: "weights_env \<Rightarrow> leader_state \<Rightarrow> (weights_service, int option \<times> pyfloat) action" where
  "resolve_leader env ls =
     act_bind (w_read (we_block env)) (\<lambda>block.
       case get_leader ls block of
         None \<Rightarrow> act_return (None, 0)
       | Some leader \<Rightarrow>
           act_bind (w_read (we_metagraph env)) (\<lambda>meta.
             act_return (case uid_of (le_hotkey leader) (fst meta) of
                None \<Rightarrow> (None, 0) | Some uid \<Rightarrow> (Some (int uid), le_weight leader))))"

text \<open>One look at the chain, and the loop that swallows what it raises.\<close>

definition updated_once :: "weights_env \<Rightarrow> int \<Rightarrow> (weights_service, bool) action" where
  "updated_once env ref_block =
     act_bind (w_read (we_wait_block env)) (\<lambda>_.
     act_bind (w_read (we_block env)) (\<lambda>_.
     act_bind (w_read (we_metagraph env)) (\<lambda>meta.
       case uid_of (we_hotkey env) (fst meta) of
         None \<Rightarrow> act_return False
       | Some uid \<Rightarrow>
           if uid < length (snd meta) then act_return (ref_block \<le> snd meta ! uid) else act_raise IndexError)))"

fun check_weights_updated :: "weights_env \<Rightarrow> int \<Rightarrow> nat \<Rightarrow> (weights_service, bool) action" where
  "check_weights_updated env ref_block 0 s = (Inr False, s)"
| "check_weights_updated env ref_block (Suc n) s =
     (case updated_once env ref_block s of
        (Inr True, s') \<Rightarrow> (Inr True, s')
      | (Inr False, s') \<Rightarrow> check_weights_updated env ref_block n s'
      | (Inl e, s') \<Rightarrow> if e = cancelled then (Inl e, s') else check_weights_updated env ref_block n s')"

definition submit_weights :: "weights_env \<Rightarrow> weights_result \<Rightarrow> (weights_service, bool) action" where
  "submit_weights env weights =
     act_bind (w_read (we_set_weights env weights)) (\<lambda>ok.
     act_bind (w_log (SetWeights weights ok)) (\<lambda>_. act_return ok))"

definition postponed :: "weights_env \<Rightarrow> int option \<Rightarrow> int \<Rightarrow> bool" where
  "postponed env last_block block = (case last_block of None \<Rightarrow> False
     | Some b \<Rightarrow> block < b \<and> (b - block) * BLOCK_TIME \<le> we_leader_wait env)"

definition set_weights_iteration :: "weights_env \<Rightarrow> (weights_service, bool) action" where
  "set_weights_iteration env =
     act_bind (w_read (we_open env)) (\<lambda>_.
     act_bind (fetch_leader_state env) (\<lambda>ls.
     act_bind (w_read (we_block env)) (\<lambda>block.
       if postponed env (leader_last_block ls) block then act_return True
       else
         act_bind (resolve_leader env ls) (\<lambda>leader.
         act_bind (submit_weights env (calculate_weights (we_owner env) (fst leader) (snd leader))) (\<lambda>ok.
           if \<not> ok then act_return False
           else
             act_bind (w_read (we_commit_reveal env)) (\<lambda>commit_reveal.
               if commit_reveal then act_return True
               else check_weights_updated env block confirmation_blocks))))))"

section \<open>The loop\<close>

text \<open>\<^verbatim>\<open>random.uniform(a, b)\<close> from a number in the unit interval.\<close>

definition uniform :: "int \<Rightarrow> int \<Rightarrow> pyfloat \<Rightarrow> pyfloat" where
  "uniform a b r = fadd (of_int a) (fmul (of_int (b - a)) r)"

definition schedule_retry :: "weights_env \<Rightarrow> pyfloat \<Rightarrow> weights_service \<Rightarrow> weights_service" where
  "schedule_retry env current_time s =
     s\<lparr>wk_next := fadd current_time (uniform (we_min_retry env) (we_max_retry env) (we_random env (wk_clock s))),
       wk_clock := Suc (wk_clock s)\<rparr>"

definition notify :: "weights_service \<Rightarrow> weights_service" where
  "notify s = s\<lparr>wk_log := wk_log s @ [Notice]\<rparr>"

definition loop_step :: "weights_env \<Rightarrow> weights_service \<Rightarrow> weights_service" where
  "loop_step env s =
     (let now = we_time env (wk_clock s); s1 = s\<lparr>wk_clock := Suc (wk_clock s)\<rparr>
      in if now < wk_next s then s1
         else (case set_weights_iteration env (s1\<lparr>wk_log := wk_log s1 @ [Attempt now]\<rparr>) of
                 (Inr True, s2) \<Rightarrow> s2\<lparr>wk_next := fadd now (of_int (we_interval env))\<rparr>
               | (Inr False, s2) \<Rightarrow> schedule_retry env now (notify s2)
               | (Inl e, s2) \<Rightarrow>
                   if e \<in> {cancelled, timed_out} then schedule_retry env now (notify s2)
                   else (let s3 = notify s2; later = we_time env (wk_clock s3)
                         in schedule_retry env later (s3\<lparr>wk_clock := Suc (wk_clock s3)\<rparr>))))"

definition service :: "weights_env \<Rightarrow> nat \<Rightarrow> weights_service \<Rightarrow> weights_service" where
  "service env n = loop_step env ^^ n"

definition service_start :: weights_service where
  "service_start = \<lparr>wk_clock = 0, wk_next = 0, wk_log = []\<rparr>"

section \<open>What an iteration does\<close>

text \<open>
  A history the repository holds at its branch, the weights that follow from it and a block of the chain,
  and a look at the chain that shows our weights.
\<close>

definition published :: "weights_env \<Rightarrow> leader_state \<Rightarrow> bool" where
  "published env ls = (\<exists>t u sha c. we_ref_sha env t = Inr sha \<and> we_leader_file env sha u = Inr (Some c) \<and>
     we_parse env c = Inr ls)"

definition owner_only :: "weights_env \<Rightarrow> weights_result" where
  "owner_only env = \<lparr>wr_uids = [we_owner env], wr_weights = [1]\<rparr>"

definition first_index :: "string \<Rightarrow> string list \<Rightarrow> nat \<Rightarrow> bool" where
  "first_index h hs uid = (uid < length hs \<and> hs ! uid = h \<and> h \<notin> set (take uid hs))"

inductive split_of :: "weights_env \<Rightarrow> leader_entry \<Rightarrow> string list \<Rightarrow> weights_result \<Rightarrow> bool" for env e hotkeys where
  unregistered: "le_hotkey e \<notin> set hotkeys \<Longrightarrow> split_of env e hotkeys (owner_only env)"
| owner: "first_index (le_hotkey e) hotkeys uid \<Longrightarrow> int uid = we_owner env \<Longrightarrow> split_of env e hotkeys (owner_only env)"
| leader: "first_index (le_hotkey e) hotkeys uid \<Longrightarrow> int uid \<noteq> we_owner env \<Longrightarrow> split_of env e hotkeys
    \<lparr>wr_uids = [we_owner env, int uid], wr_weights = [fsub 1 (le_weight e), le_weight e]\<rparr>"

definition leader_weights :: "weights_env \<Rightarrow> leader_state \<Rightarrow> weights_result \<Rightarrow> bool" where
  "leader_weights env ls w = (\<exists>t b. we_block env t = Inr b \<and>
     (case get_leader ls b of
        None \<Rightarrow> w = owner_only env
      | Some e \<Rightarrow> (\<exists>u hotkeys updates. we_metagraph env u = Inr (hotkeys, updates) \<and> split_of env e hotkeys w)))"

definition shown_on_chain :: "weights_env \<Rightarrow> int \<Rightarrow> bool" where
  "shown_on_chain env block = (\<exists>t hotkeys updates uid. we_metagraph env t = Inr (hotkeys, updates) \<and>
     uid < length hotkeys \<and> hotkeys ! uid = we_hotkey env \<and> uid < length updates \<and> block \<le> updates ! uid)"

named_theorems w_steps "first steps of the actions of the service"

lemma w_read_step [w_steps]:
  assumes "\<And>e t. f t = Inl e \<Longrightarrow> Q (Inl e) (s\<lparr>wk_clock := Suc (wk_clock s)\<rparr>)"
    and "\<And>x t. f t = Inr x \<Longrightarrow> wp (g x) Q (s\<lparr>wk_clock := Suc (wk_clock s)\<rparr>)"
  shows "wp (act_bind (w_read f) g) Q s"
  using assms by (cases "f (wk_clock s)") (auto simp: wp_def act_bind_def w_read_def)

lemma w_assoc [w_steps]:
  "wp (act_bind m (\<lambda>x. act_bind (g x) h)) Q s \<Longrightarrow> wp (act_bind (act_bind m g) h) Q s"
  by (simp add: wp_def act_bind_def split: prod.splits sum.splits)

text \<open>What is kept along an iteration: the schedule, and the log as far as it was.\<close>

abbreviation after :: "weights_service \<Rightarrow> weights_event list \<Rightarrow> weights_service \<Rightarrow> bool" where
  "after s es s' \<equiv> wk_clock s \<le> wk_clock s' \<and> wk_next s' = wk_next s \<and> wk_log s' = wk_log s @ es"

lemma fetch_spec:
  "wp (fetch_leader_state env) (\<lambda>r s'. after s [] s' \<and> (\<forall>ls. r = Inr ls \<longrightarrow> published env ls)) s"
  unfolding fetch_leader_state_def
  by (intro w_steps) (auto simp: wp_simps published_def split: option.splits)

lemma calculate_weights_leader:
  "split_of env e hs (case uid_of (le_hotkey e) hs of
     None \<Rightarrow> calculate_weights (we_owner env) None 0
   | Some uid \<Rightarrow> calculate_weights (we_owner env) (Some (int uid)) (le_weight e))"
proof (cases "uid_of (le_hotkey e) hs")
  case None
  then have "le_hotkey e \<notin> set hs" by (induction hs) (auto split: if_splits)
  from split_of.unregistered [OF this] None show ?thesis by (simp add: owner_only_def calculate_weights_def)
next
  case (Some uid)
  then have "first_index (le_hotkey e) hs uid" by (simp add: uid_of_Some first_index_def)
  from split_of.owner [OF this] split_of.leader [OF this] Some show ?thesis
    by (cases "int uid = we_owner env") (simp_all add: owner_only_def calculate_weights_def)
qed

lemma leader_weightsI:
  "we_block env t = Inr b \<Longrightarrow> get_leader ls b = None \<Longrightarrow> leader_weights env ls (owner_only env)"
  "we_block env t = Inr b \<Longrightarrow> get_leader ls b = Some e \<Longrightarrow> we_metagraph env u = Inr (hs, ups) \<Longrightarrow>
     split_of env e hs w \<Longrightarrow> leader_weights env ls w"
  unfolding leader_weights_def by (intro exI [of _ t] exI [of _ b]; auto)+

lemma resolve_spec:
  "wp (resolve_leader env ls) (\<lambda>r s'. after s [] s' \<and>
     (\<forall>x y. r = Inr (x, y) \<longrightarrow> leader_weights env ls (calculate_weights (we_owner env) x y))) s"
  unfolding resolve_leader_def
proof (intro w_steps)
  fix b t
  assume b: "we_block env t = Inr b"
  show "wp (case get_leader ls b of
          None \<Rightarrow> act_return (None, 0)
        | Some leader \<Rightarrow> act_bind (w_read (we_metagraph env))
            (\<lambda>meta. act_return (case uid_of (le_hotkey leader) (fst meta) of
               None \<Rightarrow> (None, 0) | Some uid \<Rightarrow> (Some (int uid), le_weight leader))))
      (\<lambda>r s'. after s [] s' \<and> (\<forall>x y. r = Inr (x, y) \<longrightarrow> leader_weights env ls (calculate_weights (we_owner env) x y)))
      (s\<lparr>wk_clock := Suc (wk_clock s)\<rparr>)"
  proof (cases "get_leader ls b")
    case None
    with b have "leader_weights env ls (owner_only env)" by (rule leader_weightsI)
    with None show ?thesis by (simp add: wp_simps calculate_weights_def owner_only_def)
  next
    case (Some e)
    have "leader_weights env ls (calculate_weights (we_owner env) x y)"
      if "we_metagraph env u = Inr (hs, ups)"
        "(x, y) = (case uid_of (le_hotkey e) hs of None \<Rightarrow> (None, 0) | Some uid \<Rightarrow> (Some (int uid), le_weight e))"
      for u hs ups x y
    proof -
      have "split_of env e hs (calculate_weights (we_owner env) x y)"
        using calculate_weights_leader [of env e hs] that(2) by (simp split: option.splits)
      with b Some that(1) show ?thesis by (rule leader_weightsI)
    qed
    then have "wp (act_bind (w_read (we_metagraph env)) (\<lambda>meta. act_return (case uid_of (le_hotkey e) (fst meta) of
          None \<Rightarrow> (None, 0) | Some uid \<Rightarrow> (Some (int uid), le_weight e))))
        (\<lambda>r s'. after s [] s' \<and> (\<forall>x y. r = Inr (x, y) \<longrightarrow> leader_weights env ls (calculate_weights (we_owner env) x y)))
        (s\<lparr>wk_clock := Suc (wk_clock s)\<rparr>)"
      by (intro w_read_step) (auto simp: wp_return)
    with Some show ?thesis by simp
  qed
qed simp

lemma updated_once_spec:
  "wp (updated_once env b) (\<lambda>r s'. after s [] s' \<and> (r = Inr True \<longrightarrow> shown_on_chain env b)) s"
  unfolding updated_once_def
  by (intro w_steps) (auto simp: wp_simps shown_on_chain_def uid_of_Some split: option.splits; blast)+

lemma check_weights_spec:
  "wp (check_weights_updated env b n) (\<lambda>r s'. after s [] s' \<and> (r = Inr True \<longrightarrow> shown_on_chain env b)) s"
proof (induction n arbitrary: s)
  case (Suc n)
  obtain r s1 where u: "updated_once env b s = (r, s1)" by force
  with updated_once_spec [of env b s] have 1: "after s [] s1" "r = Inr True \<longrightarrow> shown_on_chain env b"
    by (simp_all add: wp_def)
  show ?case
    using Suc.IH [of s1] 1 by (cases r) (auto simp: wp_def u split: bool.splits prod.splits)
qed (simp add: wp_def)

definition set_and_true :: "weights_env \<Rightarrow> weights_result \<Rightarrow> bool \<Rightarrow> bool result \<Rightarrow> bool" where
  "set_and_true env w ok r = (r = Inr True \<longrightarrow> ok \<and>
     ((\<exists>t. we_commit_reveal env t = Inr True) \<or> (\<exists>t b. we_block env t = Inr b \<and> shown_on_chain env b)))"

definition iteration_outcome :: "weights_env \<Rightarrow> weights_service \<Rightarrow> bool result \<Rightarrow> weights_service \<Rightarrow> bool" where
  "iteration_outcome env s r s' =
     ((after s [] s' \<and> (\<forall>b. r = Inr b \<longrightarrow> b \<and>
         (\<exists>ls t b. published env ls \<and> we_block env t = Inr b \<and> postponed env (leader_last_block ls) b))) \<or>
      (\<exists>ls w ok. after s [SetWeights w ok] s' \<and> published env ls \<and> leader_weights env ls w \<and> set_and_true env w ok r))"

lemma wp_bind_rule:
  assumes "wp m Q s" "\<And>e s'. Q (Inl e) s' \<Longrightarrow> R (Inl e) s'" "\<And>x s'. Q (Inr x) s' \<Longrightarrow> wp (f x) R s'"
  shows "wp (act_bind m f) R s"
proof (cases "m s")
  case (Pair r s')
  with assms show ?thesis by (cases r) (auto simp: wp_def act_bind_def)
qed

lemma submit_step:
  assumes "\<And>e. Q (Inl e) (s\<lparr>wk_clock := Suc (wk_clock s)\<rparr>)"
    "\<And>ok. wp (g ok) Q (s\<lparr>wk_clock := Suc (wk_clock s), wk_log := wk_log s @ [SetWeights w ok]\<rparr>)"
  shows "wp (act_bind (submit_weights env w) g) Q s"
  using assms unfolding submit_weights_def w_log_def
  by (cases "we_set_weights env w (wk_clock s)") (simp_all add: wp_def act_bind_def w_read_def act_simps)

lemma submitted_spec:
  assumes "published env ls" "leader_weights env ls w" "we_block env t = Inr b" "after s [] s1"
  shows "wp (act_bind (submit_weights env w) (\<lambda>ok.
      if \<not> ok then act_return False
      else act_bind (w_read (we_commit_reveal env)) (\<lambda>commit_reveal.
        if commit_reveal then act_return True
        else check_weights_updated env b confirmation_blocks)))
    (iteration_outcome env s) s1"
proof -
  have failed: "after s [] s' \<Longrightarrow> iteration_outcome env s (Inl e) s'" for e s'
    by (simp add: iteration_outcome_def)
  have reported: "after s [SetWeights w ok] s' \<Longrightarrow> set_and_true env w ok r \<Longrightarrow> iteration_outcome env s r s'" for ok r s'
    using assms(1,2) unfolding iteration_outcome_def by blast
  have check: "wp (check_weights_updated env b confirmation_blocks) (iteration_outcome env s) s'"
    if "after s [SetWeights w True] s'" for s'
    by (rule wp_mono [OF check_weights_spec])
      (use that assms(3) in \<open>auto intro!: reported simp: set_and_true_def\<close>)
  show ?thesis
  proof (rule submit_step)
    fix ok
    let ?s = "s1\<lparr>wk_clock := Suc (wk_clock s1), wk_log := wk_log s1 @ [SetWeights w ok]\<rparr>"
    have s: "after s [SetWeights w ok] ?s" using assms(4) by simp
    have "wp (act_bind (w_read (we_commit_reveal env)) (\<lambda>commit_reveal.
        if commit_reveal then act_return True
        else check_weights_updated env b confirmation_blocks)) (iteration_outcome env s) ?s" if "ok"
    proof (rule w_read_step)
      fix x t
      assume "we_commit_reveal env t = Inr x"
      with s that show "wp (if x then act_return True else check_weights_updated env b confirmation_blocks)
          (iteration_outcome env s) (?s\<lparr>wk_clock := Suc (wk_clock ?s)\<rparr>)"
        by (cases x) (auto simp: wp_return set_and_true_def intro!: check reported)
    qed (use s in \<open>auto simp: set_and_true_def intro!: reported\<close>)
    with s show "wp (if \<not> ok then act_return False
        else act_bind (w_read (we_commit_reveal env)) (\<lambda>commit_reveal.
          if commit_reveal then act_return True
          else check_weights_updated env b confirmation_blocks)) (iteration_outcome env s) ?s"
      by (cases ok) (auto simp: wp_return set_and_true_def intro!: reported)
  qed (use assms(4) in \<open>simp add: failed\<close>)
qed

lemma resolved_spec:
  assumes "published env ls" "we_block env t = Inr b" "after s [] s1"
  shows "wp (act_bind (resolve_leader env ls) (\<lambda>leader.
      act_bind (submit_weights env (calculate_weights (we_owner env) (fst leader) (snd leader))) (\<lambda>ok.
        if \<not> ok then act_return False
        else act_bind (w_read (we_commit_reveal env)) (\<lambda>commit_reveal.
          if commit_reveal then act_return True
          else check_weights_updated env b confirmation_blocks))))
    (iteration_outcome env s) s1"
proof (rule wp_bind_rule [OF resolve_spec])
  fix leader s2
  assume "after s1 [] s2 \<and> (\<forall>x y. Inr leader = Inr (x, y) \<longrightarrow> leader_weights env ls (calculate_weights (we_owner env) x y))"
  with assms show "wp (act_bind (submit_weights env (calculate_weights (we_owner env) (fst leader) (snd leader))) (\<lambda>ok.
        if \<not> ok then act_return False
        else act_bind (w_read (we_commit_reveal env)) (\<lambda>commit_reveal.
          if commit_reveal then act_return True
          else check_weights_updated env b confirmation_blocks))) (iteration_outcome env s) s2"
    by (intro submitted_spec) (cases leader; simp)+
qed (use assms(3) in \<open>simp add: iteration_outcome_def\<close>)

lemma iteration_spec: "wp (set_weights_iteration env) (iteration_outcome env s) s"
  unfolding set_weights_iteration_def
  by (intro w_read_step wp_bind_rule [OF fetch_spec])
    (auto simp: iteration_outcome_def wp_return intro: resolved_spec)

section \<open>What the loop does\<close>

fun attempts :: "weights_event list \<Rightarrow> pyfloat list" where
  "attempts [] = []"
| "attempts (Attempt t # es) = t # attempts es"
| "attempts (SetWeights w ok # es) = attempts es"
| "attempts (Notice # es) = attempts es"

lemma attempts_append [simp]: "attempts (es @ fs) = attempts es @ attempts fs"
  by (induction es rule: attempts.induct) auto

text \<open>A step sleeps, or attempts an iteration and schedules the next attempt after it.\<close>

definition earned :: "weights_env \<Rightarrow> weights_result \<Rightarrow> bool" where
  "earned env w = (\<exists>ls. published env ls \<and> leader_weights env ls w)"

definition settled :: "weights_env \<Rightarrow> weights_event list \<Rightarrow> bool" where
  "settled env es = (attempts es = [] \<and>
     (\<forall>w ok. SetWeights w ok \<in> set es \<longrightarrow> earned env w))"

lemma iteration_settled:
  assumes "set_weights_iteration env s = (r, s')"
  shows "\<exists>es. after s es s' \<and> settled env es"
proof -
  from wpD [OF iteration_spec assms] consider "after s [] s'"
    | ls w ok where "after s [SetWeights w ok] s'" "published env ls" "leader_weights env ls w"
    unfolding iteration_outcome_def by blast
  then show ?thesis
  proof cases
    case 1
    then show ?thesis by (intro exI [of _ "[]"]) (simp add: settled_def)
  next
    case 2
    then show ?thesis by (intro exI [of _ "[SetWeights w ok]"]) (auto simp: settled_def earned_def)
  qed
qed

lemma settled_notice: "settled env es \<Longrightarrow> settled env (es @ [Notice])"
  by (auto simp: settled_def)

lemma loop_step_attempt:
  assumes "wk_next s \<le> we_time env (wk_clock s)"
  shows "\<exists>es t u. wk_log (loop_step env s) = wk_log s @ Attempt (we_time env (wk_clock s)) # es \<and> settled env es \<and>
     wk_clock s \<le> t \<and> wk_clock s \<le> wk_clock (loop_step env s) \<and>
     (wk_next (loop_step env s) = fadd (we_time env (wk_clock s)) (of_int (we_interval env)) \<or>
      wk_next (loop_step env s) = fadd (we_time env t)
        (uniform (we_min_retry env) (we_max_retry env) (we_random env u)))"
proof -
  let ?now = "we_time env (wk_clock s)"
  let ?s = "s\<lparr>wk_clock := Suc (wk_clock s), wk_log := wk_log s @ [Attempt ?now]\<rparr>"
  obtain r s2 where r: "set_weights_iteration env ?s = (r, s2)" by force
  from iteration_settled [OF r] obtain es where es: "after ?s es s2" "settled env es" by blast
  have l: "\<not> ?now < wk_next s" using assms by simp
  from es(1) have c: "wk_clock s \<le> wk_clock s2" "wk_log s2 = wk_log s @ Attempt ?now # es" by simp_all
  note n = settled_notice [OF es(2)]
  consider "r = Inr True" | "r = Inr False" | e where "r = Inl e" "e \<in> {cancelled, timed_out}"
    | e where "r = Inl e" "e \<notin> {cancelled, timed_out}" by (cases r) auto
  then show ?thesis
  proof cases
    case 1
    with l r c have "wk_log (loop_step env s) = wk_log s @ Attempt ?now # es" "wk_clock s \<le> wk_clock (loop_step env s)"
      "wk_next (loop_step env s) = fadd ?now (of_int (we_interval env))"
      by (simp_all add: loop_step_def Let_def)
    with es(2) show ?thesis by blast
  next
    case 2
    with l r c have "wk_log (loop_step env s) = wk_log s @ Attempt ?now # es @ [Notice]"
      "wk_clock s \<le> wk_clock (loop_step env s)" "wk_next (loop_step env s) =
         fadd ?now (uniform (we_min_retry env) (we_max_retry env) (we_random env (wk_clock s2)))"
      by (simp_all add: loop_step_def schedule_retry_def notify_def Let_def)
    with n show ?thesis by blast
  next
    case 3
    with l r c have "wk_log (loop_step env s) = wk_log s @ Attempt ?now # es @ [Notice]"
      "wk_clock s \<le> wk_clock (loop_step env s)" "wk_next (loop_step env s) =
         fadd ?now (uniform (we_min_retry env) (we_max_retry env) (we_random env (wk_clock s2)))"
      by (simp_all add: loop_step_def schedule_retry_def notify_def Let_def)
    with n show ?thesis by blast
  next
    case 4
    with l r c have "wk_log (loop_step env s) = wk_log s @ Attempt ?now # es @ [Notice]"
      "wk_clock s \<le> wk_clock (loop_step env s)" "wk_next (loop_step env s) = fadd (we_time env (wk_clock s2))
         (uniform (we_min_retry env) (we_max_retry env) (we_random env (Suc (wk_clock s2))))"
      by (simp_all add: loop_step_def schedule_retry_def notify_def Let_def)
    with n c(1) show ?thesis by blast
  qed
qed

lemma loop_step_sleep:
  "we_time env (wk_clock s) < wk_next s \<Longrightarrow> loop_step env s = s\<lparr>wk_clock := Suc (wk_clock s)\<rparr>"
  by (simp add: loop_step_def)

lemma service_invariant:
  assumes "P s" "\<And>s. P s \<Longrightarrow> P (loop_step env s)"
  shows "P (service env n s)"
  unfolding service_def by (induction n) (use assms in auto)

text \<open>Floats: a retry is never earlier than the shortest one.\<close>

lemma uniform_ge:
  assumes "\<bar>a\<bar> < 2 ^ 53" "a \<le> b" "0 \<le> r"
  shows "of_int a \<le> uniform a b r"
proof -
  have "0 \<le> fmul (of_int (b - a)) r"
    unfolding fmul_def using assms by (intro fl_nonneg mult_nonneg_nonneg) auto
  then show ?thesis
    unfolding uniform_def fadd_def using assms(1) by (intro fl_ge_int) auto
qed

lemma fadd_mono: "a \<le> a' \<Longrightarrow> b \<le> b' \<Longrightarrow> fadd a b \<le> fadd a' b'"
  unfolding fadd_def by (intro fl_mono add_mono)

text \<open>
  C18: Whatever the chain, the repository and the timeouts do, every distribution of weights the service
  submits is that of a leader history published in the repository: all to the owner when there is no
  active leader, when the leader is not registered or is the owner, and otherwise the leader's weight to
  the first neuron with its hotkey and the rest to the owner.
\<close>

theorem weights_follow_the_leader:
  assumes "SetWeights w ok \<in> set (wk_log (service env n service_start))"
  shows "\<exists>ls. published env ls \<and> leader_weights env ls w"
proof -
  let ?P = "\<lambda>s. \<forall>w ok. SetWeights w ok \<in> set (wk_log s) \<longrightarrow> earned env w"
  have "?P (loop_step env s)" if "?P s" for s
  proof (cases "we_time env (wk_clock s) < wk_next s")
    case False
    then have "wk_next s \<le> we_time env (wk_clock s)" by simp
    from loop_step_attempt [OF this] obtain es where
      "wk_log (loop_step env s) = wk_log s @ Attempt (we_time env (wk_clock s)) # es" "settled env es" by blast
    with that show ?thesis by (auto simp: settled_def)
  qed (use that in \<open>simp add: loop_step_sleep\<close>)
  then have "?P (service env n service_start)"
    by (rule service_invariant [where P = ?P, rotated]) (simp_all add: service_start_def)
  with assms show ?thesis unfolding earned_def by blast
qed

text \<open>
  Attempts are never closer than the shorter of the interval and the shortest retry, through
  successes, failures, timeouts and errors alike.
\<close>

theorem attempts_are_spaced:
  assumes "\<And>t u. t \<le> u \<Longrightarrow> we_time env t \<le> we_time env u" "\<And>t. 0 \<le> we_random env t"
    "\<bar>we_min_retry env\<bar> < 2 ^ 53" "we_min_retry env \<le> we_max_retry env"
  shows "successively (\<lambda>a b. fadd a (of_int (min (we_interval env) (we_min_retry env))) \<le> b)
    (attempts (wk_log (service env n service_start)))"
proof -
  let ?gap = "of_int (min (we_interval env) (we_min_retry env)) :: pyfloat"
  let ?P = "\<lambda>s. successively (\<lambda>a b. fadd a ?gap \<le> b) (attempts (wk_log s)) \<and>
    (attempts (wk_log s) \<noteq> [] \<longrightarrow> fadd (last (attempts (wk_log s))) ?gap \<le> wk_next s)"
  have "?P (loop_step env s)" if P: "?P s" for s
  proof (cases "we_time env (wk_clock s) < wk_next s")
    case False
    let ?now = "we_time env (wk_clock s)"
    from False have now: "wk_next s \<le> ?now" by simp
    from loop_step_attempt [OF this] obtain es t u where l: "wk_log (loop_step env s) = wk_log s @ Attempt ?now # es"
      and es: "settled env es" and t: "wk_clock s \<le> t" and
      next_time: "wk_next (loop_step env s) = fadd ?now (of_int (we_interval env)) \<or>
        wk_next (loop_step env s) = fadd (we_time env t) (uniform (we_min_retry env) (we_max_retry env) (we_random env u))"
      by blast
    have a: "attempts (wk_log (loop_step env s)) = attempts (wk_log s) @ [?now]"
      using es by (simp add: l settled_def)
    have g: "?gap \<le> of_int (we_interval env)" "?gap \<le> of_int (we_min_retry env)" by linarith+
    from g(2) uniform_ge [OF assms(3,4,2)] have "?gap \<le> uniform (we_min_retry env) (we_max_retry env) (we_random env u)"
      by (rule order_trans)
    note late = fadd_mono [OF order_refl g(1), of ?now] fadd_mono [OF assms(1) [OF t] this]
    have "fadd ?now ?gap \<le> wk_next (loop_step env s)"
      using next_time late by (elim disjE) (simp_all only:)
    moreover have "successively (\<lambda>a b. fadd a ?gap \<le> b) (attempts (wk_log s) @ [?now])"
      using P now by (auto simp: successively_append_iff)
    ultimately show ?thesis unfolding a by simp
  qed (use that in \<open>simp add: loop_step_sleep\<close>)
  then have "?P (service env n service_start)"
    by (rule service_invariant [where P = ?P, rotated]) (simp_all add: service_start_def)
  then show ?thesis by blast
qed

text \<open>
  What an iteration reports is true: it reports success only when it waits for a leader about to
  become active, or when the chain accepted the weights of the published leader and either applies them
  at a later reveal or already shows an update by us no older than the block the iteration started
  from; it reports failure only after submitting weights, and submits at most once.
\<close>

theorem iteration_reports_truth:
  assumes "set_weights_iteration env s = (r, s')"
  shows "(r = Inr True \<longrightarrow>
      (wk_log s' = wk_log s \<and>
        (\<exists>ls t b. published env ls \<and> we_block env t = Inr b \<and> postponed env (leader_last_block ls) b)) \<or>
      (\<exists>ls w. wk_log s' = wk_log s @ [SetWeights w True] \<and> published env ls \<and> leader_weights env ls w \<and>
        ((\<exists>t. we_commit_reveal env t = Inr True) \<or> (\<exists>t b. we_block env t = Inr b \<and> shown_on_chain env b)))) \<and>
    (r = Inr False \<longrightarrow> (\<exists>w ok. wk_log s' = wk_log s @ [SetWeights w ok])) \<and>
    (wk_log s' = wk_log s \<or> (\<exists>w ok. wk_log s' = wk_log s @ [SetWeights w ok]))"
  using wpD [OF iteration_spec assms] unfolding iteration_outcome_def set_and_true_def by auto

section \<open>An example\<close>

definition example_weights_env :: weights_env where
  "example_weights_env = \<lparr>we_time = (\<lambda>t. of_nat t * 100), we_random = (\<lambda>_. 1 / 2), we_open = (\<lambda>_. Inr ()),
     we_ref_sha = (\<lambda>_. Inr ''c0''), we_leader_file = (\<lambda>_ _. Inr (Some ''doc'')),
     we_parse = (\<lambda>_. Inr [example_leader ''m'' 10]), we_block = (\<lambda>_. Inr 20),
     we_metagraph = (\<lambda>_. Inr ([''o'', ''m'', ''v''], [0, 0, 25])), we_set_weights = (\<lambda>_ _. Inr True),
     we_commit_reveal = (\<lambda>_. Inr False), we_wait_block = (\<lambda>_. Inr ()), we_owner = 0, we_hotkey = ''v'',
     we_interval = 1800, we_min_retry = 240, we_max_retry = 360, we_leader_wait = 1500\<rparr>"

lemma example_iteration:
  "\<exists>s'. set_weights_iteration example_weights_env s = (Inr True, s') \<and>
     wk_log s' = wk_log s @ [SetWeights \<lparr>wr_uids = [0, 1], wr_weights = [0, 1]\<rparr> True]"
  by (simp add: example_weights_env_def set_weights_iteration_def fetch_leader_state_def act_bind_def w_read_def act_simps
      postponed_def leader_last_block_def get_latest_def resolve_leader_def get_leader_def example_leader_def
      submit_weights_def w_log_def calculate_weights_def confirmation_blocks_def updated_once_def eval_nat_numeral)

theorem iteration_reports_truth_witness:
  "\<exists>s' w. wk_log s' = wk_log service_start @ [SetWeights w True] \<and>
     set_weights_iteration example_weights_env service_start = (Inr True, s') \<and>
     (\<exists>t b. we_block example_weights_env t = Inr b \<and> shown_on_chain example_weights_env b)"
proof -
  obtain s' where r: "set_weights_iteration example_weights_env service_start = (Inr True, s')"
    and l: "wk_log s' = wk_log service_start @ [SetWeights \<lparr>wr_uids = [0, 1], wr_weights = [0, 1]\<rparr> True]"
    using example_iteration [of service_start] by blast
  have "we_commit_reveal example_weights_env t \<noteq> Inr True" for t by (simp add: example_weights_env_def)
  with iteration_reports_truth [OF r] l
  have "\<exists>t b. we_block example_weights_env t = Inr b \<and> shown_on_chain example_weights_env b" by simp blast
  with r l show ?thesis by blast
qed

lemma example_service:
  "SetWeights \<lparr>wr_uids = [0, 1], wr_weights = [0, 1]\<rparr> True \<in> set (wk_log (service example_weights_env 1 service_start))"
proof -
  let ?s = "service_start\<lparr>wk_clock := Suc 0, wk_log := [Attempt 0]\<rparr>"
  obtain s' where "set_weights_iteration example_weights_env ?s = (Inr True, s')"
    "wk_log s' = wk_log ?s @ [SetWeights \<lparr>wr_uids = [0, 1], wr_weights = [0, 1]\<rparr> True]"
    using example_iteration [of ?s] by blast
  moreover have "we_time example_weights_env 0 = 0" by (simp add: example_weights_env_def)
  ultimately show ?thesis by (simp add: service_def loop_step_def service_start_def Let_def)
qed

theorem weights_follow_the_leader_witness:
  "\<exists>ls. published example_weights_env ls \<and>
     leader_weights example_weights_env ls \<lparr>wr_uids = [0, 1], wr_weights = [0, 1]\<rparr>"
  using weights_follow_the_leader [OF example_service] .

theorem attempts_are_spaced_witness:
  "successively (\<lambda>a b. fadd a 240 \<le> b) (attempts (wk_log (service example_weights_env 40 service_start)))"
proof -
  have c: "we_interval example_weights_env = 1800" "we_min_retry example_weights_env = 240"
    by (simp_all add: example_weights_env_def)
  have "successively (\<lambda>a b. fadd a (of_int (min (we_interval example_weights_env) (we_min_retry example_weights_env))) \<le> b)
      (attempts (wk_log (service example_weights_env 40 service_start)))"
    by (rule attempts_are_spaced) (simp_all add: example_weights_env_def)
  then show ?thesis by (simp add: c)
qed

end
