(* ===== verification/Admission.thy ===== *)
theory Admission
  imports StateStore WitnessModels PyFloat "HOL-Library.Multiset"
    "HOL-Library.Char_ord" "HOL-Library.List_Lexorder" "HOL-Library.Product_Lexorder"
begin

text \<open>
  Admission of pods, from \<^verbatim>\<open>pod_gateway/admission.py\<close>: the capacity check on RunPod's inventory and the
  durable queue of starts, one journal per deployment with at most one intent per hotkey. Every queue
  operation loads and checks the journal, changes it and writes it back under the loaded tag, once.
  \<open>now i\<close> is the \<open>i\<close>-th reading of the clock within an operation.
\<close>

section \<open>Capacity\<close>

definition counted_pods :: "(string \<Rightarrow> string) \<Rightarrow> pod list \<Rightarrow> string \<Rightarrow> pod list" where
  "counted_pods sha inventory deployment =
     filter (\<lambda>p. pod_scope sha p \<noteq> None \<and> dget (pd_markers p) ''WITNESS_DEPLOYMENT'' = Some deployment \<and>
       dget (pd_markers p) ''WITNESS_ROUND'' \<noteq> Some ''gateway'') inventory"

definition admission_check :: "(string \<Rightarrow> string) \<Rightarrow> nat \<Rightarrow> pod list \<Rightarrow> string \<Rightarrow> nat \<Rightarrow> unit result" where
  "admission_check sha max_pods inventory deployment pending =
     require (length (counted_pods sha inventory deployment) + pending < max_pods)
       (CapacityReached ''Witness fleet capacity reached'')"

text \<open>The order of the victims: dormant before active, newer before older, then by identifier.\<close>

definition victim_key :: "pod \<Rightarrow> bool \<times> int \<times> string" where
  "victim_key p = (lifecycle p = ''active'', - (case epoch_ns p of Inl _ \<Rightarrow> 0 | Inr e \<Rightarrow> e), pd_id p)"

text \<open>\<^verbatim>\<open>excess\<close>: the pods beyond the capacity, in that order.\<close>

definition excess :: "(string \<Rightarrow> string) \<Rightarrow> nat \<Rightarrow> pod list \<Rightarrow> string \<Rightarrow> pod list" where
  "excess sha max_pods inventory deployment =
     (let pods = counted_pods sha inventory deployment in take (length pods - max_pods) (sort_key victim_key pods))"

section \<open>The journal\<close>

record pending_start =
  ps_round :: string
  ps_start :: string
  ps_replaces :: "string option"
  ps_sequence :: int
  ps_eligible :: int
  ps_submitted :: bool

record create_attempt =
  ca_round :: string
  ca_start :: string
  ca_at :: int
  ca_rejected :: bool
  ca_submitted :: bool

type_synonym attempts = "(string, create_attempt) dict"

record queue_state =
  qs_deployment :: string
  qs_revision :: string
  qs_sequence :: int
  qs_last_create :: "int option"
  qs_pending :: "(string, pending_start) dict"
  qs_attempts :: attempts
  qs_history :: "(string, attempts) dict"
  qs_retained :: attempts

definition new_queue :: "string \<Rightarrow> string \<Rightarrow> queue_state" where
  "new_queue deployment revision = \<lparr>qs_deployment = deployment, qs_revision = revision, qs_sequence = 0,
     qs_last_create = None, qs_pending = [], qs_attempts = [], qs_history = [], qs_retained = []\<rparr>"

definition history_of :: "queue_state \<Rightarrow> string \<Rightarrow> attempts" where
  "history_of q hotkey = dget_default (qs_history q) hotkey []"

text \<open>\<^verbatim>\<open>state.history.setdefault(hotkey, {})[start_id] = attempt\<close>, and with the inner \<^verbatim>\<open>setdefault\<close>\<close>

definition put_history :: "string \<Rightarrow> string \<Rightarrow> create_attempt \<Rightarrow> (string, attempts) dict \<Rightarrow> (string, attempts) dict" where
  "put_history hotkey start_id a h = dset hotkey (dset start_id a (dget_default h hotkey [])) h"

definition default_history :: "string \<Rightarrow> string \<Rightarrow> create_attempt \<Rightarrow> (string, attempts) dict \<Rightarrow> (string, attempts) dict" where
  "default_history hotkey start_id a h =
     (if dhas (dget_default h hotkey []) start_id then h
      else dset hotkey (dset start_id a (dget_default h hotkey [])) h)"

definition ceil_int :: "pyfloat \<Rightarrow> int" where "ceil_int x = \<lceil>x\<rceil>"

text \<open>
  The checks of \<^verbatim>\<open>_load\<close>. A journal whose hotkeys, rounds and identifiers are not canonical is refused;
  eligible times are capped by the clock, and the current attempts are entered in the history.
\<close>

fun load_pending :: "string \<Rightarrow> (nat \<Rightarrow> pyfloat) \<Rightarrow> nat \<Rightarrow> (string, pending_start) dict \<Rightarrow>
    (string, pending_start) dict result" where
  "load_pending deployment now i [] = Inr []"
| "load_pending deployment now i ((hotkey, e) # es) =
     rbind (make_scope deployment (ps_round e) hotkey) (\<lambda>_.
     rbind (session_uuid (ps_start e)) (\<lambda>_.
     rbind (case ps_replaces e of None \<Rightarrow> Inr [] | Some r \<Rightarrow> session_uuid r) (\<lambda>_.
     rbind (load_pending deployment now (Suc i) es) (\<lambda>rest.
       Inr ((hotkey, e\<lparr>ps_eligible := min (ps_eligible e) (py_trunc (now i))\<rparr>) # rest)))))"

fun load_attempts :: "string \<Rightarrow> attempts \<Rightarrow> (string, attempts) dict \<Rightarrow> (string, attempts) dict result" where
  "load_attempts deployment [] h = Inr h"
| "load_attempts deployment ((hotkey, a) # rest) h =
     rbind (make_scope deployment (ca_round a) hotkey) (\<lambda>_.
     rbind (session_uuid (ca_start a)) (\<lambda>_.
       load_attempts deployment rest (default_history hotkey (ca_start a) a h)))"

fun check_attempts :: "string \<Rightarrow> string \<Rightarrow> attempts \<Rightarrow> unit result" where
  "check_attempts deployment hotkey [] = Inr ()"
| "check_attempts deployment hotkey ((start_id, a) # rest) =
     rbind (make_scope deployment (ca_round a) hotkey) (\<lambda>_.
     rbind (session_uuid start_id) (\<lambda>_.
     rbind (session_uuid (ca_start a)) (\<lambda>_. check_attempts deployment hotkey rest)))"

fun check_history :: "string \<Rightarrow> (string, attempts) dict \<Rightarrow> unit result" where
  "check_history deployment [] = Inr ()"
| "check_history deployment ((hotkey, m) # rest) =
     rbind (check_attempts deployment hotkey m) (\<lambda>_. check_history deployment rest)"

definition load_queue :: "string \<Rightarrow> (nat \<Rightarrow> pyfloat) \<Rightarrow> queue_state \<Rightarrow> queue_state result" where
  "load_queue deployment now q =
     rbind (require (qs_deployment q = deployment) (StateConflict ''Allocation queue belongs to another deployment'')) (\<lambda>_.
     rbind (load_pending deployment now 0 (qs_pending q)) (\<lambda>pending.
     rbind (load_attempts deployment (qs_attempts q) (qs_history q)) (\<lambda>h.
     rbind (check_history deployment h) (\<lambda>_.
       Inr (q\<lparr>qs_pending := pending, qs_history := h\<rparr>)))))"

section \<open>Changes\<close>

type_synonym 'r queue_op = "queue_state \<Rightarrow> (queue_state \<times> 'r) result"

definition new_attempt :: "string \<Rightarrow> string \<Rightarrow> pyfloat \<Rightarrow> bool \<Rightarrow> create_attempt" where
  "new_attempt rnd start_id moment submitted = \<lparr>ca_round = rnd, ca_start = start_id, ca_at = ceil_int moment,
     ca_rejected = False, ca_submitted = submitted\<rparr>"

definition enqueue_change :: "(nat \<Rightarrow> pyfloat) \<Rightarrow> nat \<Rightarrow> scope \<Rightarrow> string \<Rightarrow> string option \<Rightarrow> pending_start queue_op" where
  "enqueue_change now capacity s start_id replaces q =
     (let previous = dget (history_of q (sc_hotkey s)) start_id
      in case dget (qs_pending q) (sc_hotkey s) of
           Some current \<Rightarrow>
             if ps_round current \<noteq> sc_round s then Inl (CreateDeferred (fadd (now 0) 60))
             else Inr (case previous of
                  Some p \<Rightarrow> if ca_round p = sc_round s then q
                    else q\<lparr>qs_history := put_history (sc_hotkey s) start_id
                       (new_attempt (sc_round s) (ps_start current) (now 0) False) (qs_history q)\<rparr>
                | None \<Rightarrow> q\<lparr>qs_history := put_history (sc_hotkey s) start_id
                       (new_attempt (sc_round s) (ps_start current) (now 0) False) (qs_history q)\<rparr>, current)
         | None \<Rightarrow>
             if capacity \<le> length (qs_pending q) then Inl (CapacityReached ''Allocation queue is full'')
             else if (case previous of None \<Rightarrow> False | Some p \<Rightarrow> ca_round p = sc_round s)
             then Inl (StateConflict ''Connection has already been attempted'')
             else (let entry = \<lparr>ps_round = sc_round s, ps_start = start_id, ps_replaces = replaces,
                      ps_sequence = qs_sequence q + 1, ps_eligible = py_trunc (now 0), ps_submitted = False\<rparr>
                   in Inr (q\<lparr>qs_sequence := qs_sequence q + 1, qs_pending := dset (sc_hotkey s) entry (qs_pending q),
                             qs_history := put_history (sc_hotkey s) start_id
                               (new_attempt (sc_round s) start_id (now 1) False) (qs_history q)\<rparr>, entry)))"

definition is_entry :: "scope \<Rightarrow> string \<Rightarrow> pending_start \<Rightarrow> bool" where
  "is_entry s start_id e = (ps_round e = sc_round s \<and> ps_start e = start_id)"

definition due_at :: "pyfloat \<Rightarrow> queue_state \<Rightarrow> pyfloat" where
  "due_at interval q = (case qs_last_create q of None \<Rightarrow> 0
     | Some t \<Rightarrow> if interval = 0 then 0 else fadd (of_int t) interval)"

definition authorize_change :: "(nat \<Rightarrow> pyfloat) \<Rightarrow> pyfloat \<Rightarrow> scope \<Rightarrow> string \<Rightarrow> unit queue_op" where
  "authorize_change now interval s start_id q =
     (case dget (qs_pending q) (sc_hotkey s) of
        None \<Rightarrow> Inl (CreateDeferred (fadd (now 0) 60))
      | Some entry \<Rightarrow>
          if \<not> is_entry s start_id entry \<or> ps_submitted entry then Inl (CreateDeferred (fadd (now 0) 60))
          else if now 0 < due_at interval q then Inl (CreateDeferred (due_at interval q))
          else if (case dget (history_of q (sc_hotkey s)) start_id of None \<Rightarrow> False
                   | Some p \<Rightarrow> ca_round p = sc_round s \<and> ca_submitted p)
          then Inl (StateConflict ''Connection has already been attempted'')
          else (let a = new_attempt (sc_round s) start_id (now 0) True
                in Inr (q\<lparr>qs_pending := dset (sc_hotkey s) (entry\<lparr>ps_submitted := True\<rparr>) (qs_pending q),
                          qs_attempts := dset (sc_hotkey s) a (qs_attempts q),
                          qs_history := put_history (sc_hotkey s) start_id a (qs_history q),
                          qs_last_create := Some (ceil_int (now 0))\<rparr>, ())))"

text \<open>\<^verbatim>\<open>max(previous, key=lambda attempt: attempt.at)\<close>: the first of the latest.\<close>

fun latest_attempt :: "create_attempt \<Rightarrow> create_attempt list \<Rightarrow> create_attempt" where
  "latest_attempt a [] = a"
| "latest_attempt a (b # bs) = latest_attempt (if ca_at a < ca_at b then b else a) bs"

definition restored :: "scope \<Rightarrow> attempts \<Rightarrow> attempts \<Rightarrow> attempts" where
  "restored s history attempts =
     (case filter (\<lambda>b. ca_round b = sc_round s \<and> ca_submitted b) (map snd history) of
        [] \<Rightarrow> ddel (sc_hotkey s) attempts
      | b # bs \<Rightarrow> dset (sc_hotkey s) (latest_attempt b bs) attempts)"

definition release_change :: "scope \<Rightarrow> string \<Rightarrow> unit queue_op" where
  "release_change s start_id q =
     (case dget (qs_pending q) (sc_hotkey s) of
        None \<Rightarrow> Inr (q, ())
      | Some entry \<Rightarrow>
          if \<not> is_entry s start_id entry \<or> \<not> ps_submitted entry then Inr (q, ())
          else
            rbind (some_or (dget (qs_history q) (sc_hotkey s)) KeyError) (\<lambda>h.
            rbind (some_or (dget h start_id) KeyError) (\<lambda>a.
              (let h' = dset start_id (a\<lparr>ca_submitted := False\<rparr>) h
               in Inr (q\<lparr>qs_history := dset (sc_hotkey s) h' (qs_history q),
                    qs_pending := dset (sc_hotkey s) (entry\<lparr>ps_submitted := False\<rparr>) (qs_pending q),
                    qs_attempts := restored s h' (qs_attempts q)\<rparr>, ())))))"

definition complete_change :: "scope \<Rightarrow> string \<Rightarrow> bool \<Rightarrow> unit queue_op" where
  "complete_change s start_id denied q =
     (let q1 = (case dget (qs_pending q) (sc_hotkey s) of
                  Some e \<Rightarrow> if is_entry s start_id e then q\<lparr>qs_pending := ddel (sc_hotkey s) (qs_pending q)\<rparr> else q
                | None \<Rightarrow> q)
      in Inr (case dget (qs_attempts q1) (sc_hotkey s) of
           Some p \<Rightarrow>
             if denied \<and> ca_round p = sc_round s \<and> ca_start p = start_id
             then q1\<lparr>qs_attempts := dset (sc_hotkey s) (p\<lparr>ca_rejected := True\<rparr>) (qs_attempts q1),
                     qs_history := put_history (sc_hotkey s) start_id (p\<lparr>ca_rejected := True\<rparr>) (qs_history q1)\<rparr>
             else q1
         | None \<Rightarrow> q1, ()))"

definition cancel_change :: "scope \<Rightarrow> string \<Rightarrow> bool queue_op" where
  "cancel_change s start_id q =
     (case dget (qs_pending q) (sc_hotkey s) of
        None \<Rightarrow> Inr (q, True)
      | Some e \<Rightarrow>
          if \<not> is_entry s start_id e \<or> ps_submitted e then Inr (q, False)
          else Inr (q\<lparr>qs_pending := ddel (sc_hotkey s) (qs_pending q)\<rparr>, True))"

definition of_round :: "string \<Rightarrow> attempts \<Rightarrow> attempts" where
  "of_round rnd = filter (\<lambda>(k, a). ca_round a = rnd)"

definition discard_old_change :: "string \<Rightarrow> unit queue_op" where
  "discard_old_change rnd q = Inr (q\<lparr>
     qs_pending := filter (\<lambda>(k, e). ps_round e = rnd \<or> ps_submitted e) (qs_pending q),
     qs_attempts := of_round rnd (qs_attempts q),
     qs_history := map (\<lambda>(k, m). (k, of_round rnd m)) (qs_history q)\<rparr>, ())"

fun retain_unresolved :: "string \<Rightarrow> attempts \<Rightarrow> (string, pending_start) dict \<Rightarrow> attempts \<Rightarrow> attempts result" where
  "retain_unresolved rnd attempts [] retained = Inr retained"
| "retain_unresolved rnd attempts ((hotkey, e) # es) retained =
     (if ps_round e \<noteq> rnd \<and> ps_submitted e
      then rbind (some_or (dget attempts hotkey) KeyError) (\<lambda>a.
        retain_unresolved rnd attempts es (dset (hotkey @ ''/'' @ ps_start e) a retained))
      else retain_unresolved rnd attempts es retained)"

definition rollover_change :: "(nat \<Rightarrow> pyfloat) \<Rightarrow> string \<Rightarrow> unit queue_op" where
  "rollover_change now rnd q =
     rbind (retain_unresolved rnd (qs_attempts q) (qs_pending q) (qs_retained q)) (\<lambda>retained.
       Inr (q\<lparr>
         qs_retained := map snd (filter (\<lambda>(i, k, a). fsub (now i) (of_int (ca_at a)) < 600) (enumerate 0 retained)),
         qs_pending := filter (\<lambda>(k, e). ps_round e = rnd) (qs_pending q),
         qs_attempts := of_round rnd (qs_attempts q),
         qs_history := map (\<lambda>(k, m). (k, of_round rnd m)) (qs_history q)\<rparr>, ()))"

section \<open>The queue of a process\<close>

text \<open>\<open>qp_cache\<close> is the state last loaded or written; readers use it.\<close>

record 's queue_proc =
  qp_store :: 's
  qp_cache :: queue_state

record 's queue_env =
  qe_load :: "string \<Rightarrow> ('s, queue_state snapshot option) action"
  qe_save :: "string \<Rightarrow> queue_state \<Rightarrow> string option \<Rightarrow> ('s, queue_state snapshot) action"
  qe_size :: "queue_state \<Rightarrow> nat"
  qe_deployment :: string
  qe_interval :: pyfloat
  qe_capacity :: nat

definition queue_key :: "string \<Rightarrow> string" where
  "queue_key deployment = ''pod-admission/v1/'' @ deployment @ ''.json''"

definition on_store :: "('s, 'a) action \<Rightarrow> ('s queue_proc, 'a) action" where
  "on_store m p = (case m (qp_store p) of (r, s') \<Rightarrow> (r, p\<lparr>qp_store := s'\<rparr>))"

definition read_queue :: "'s queue_env \<Rightarrow> (nat \<Rightarrow> pyfloat) \<Rightarrow> string \<Rightarrow>
    ('s queue_proc, queue_state \<times> string option) action" where
  "read_queue env now fresh =
     act_bind (on_store (qe_load env (queue_key (qe_deployment env)))) (\<lambda>sn.
     act_bind (act_lift (load_queue (qe_deployment env) now
         (case sn of None \<Rightarrow> new_queue (qe_deployment env) fresh | Some x \<Rightarrow> sn_data x))) (\<lambda>q.
       act_return (q, map_option sn_etag sn)))"

definition load_cache :: "'s queue_env \<Rightarrow> (nat \<Rightarrow> pyfloat) \<Rightarrow> string \<Rightarrow> ('s queue_proc, unit) action" where
  "load_cache env now fresh =
     act_bind (read_queue env now fresh) (\<lambda>(q, _). act_modify (\<lambda>p. p\<lparr>qp_cache := q\<rparr>))"

definition queue_change :: "'s queue_env \<Rightarrow> (nat \<Rightarrow> pyfloat) \<Rightarrow> string \<Rightarrow> string \<Rightarrow> 'r queue_op \<Rightarrow>
    ('s queue_proc, 'r) action" where
  "queue_change env now fresh revision change =
     act_bind (read_queue env now fresh) (\<lambda>(q, etag).
     act_bind (act_lift (change q)) (\<lambda>(q', r).
       let q'' = q'\<lparr>qs_revision := revision\<rparr>
       in if MAX_JOURNAL_BYTES < qe_size env q'' then act_raise (CapacityReached ''Allocation journal is full'')
          else act_bind (on_store (qe_save env (queue_key (qe_deployment env)) q'' etag)) (\<lambda>_.
               act_bind (act_modify (\<lambda>p. p\<lparr>qp_cache := q''\<rparr>)) (\<lambda>_. act_return r))))"

text \<open>The readers of the cache.\<close>

definition entries :: "queue_state \<Rightarrow> (string \<times> pending_start) list" where
  "entries q = sort_key (\<lambda>x. ps_sequence (snd x)) (qs_pending q)"

definition pending_of :: "queue_state \<Rightarrow> scope \<Rightarrow> pending_start option" where
  "pending_of q s = (case dget (qs_pending q) (sc_hotkey s) of None \<Rightarrow> None
     | Some e \<Rightarrow> if ps_round e = sc_round s then Some e else None)"

definition attempt_of :: "queue_state \<Rightarrow> scope \<Rightarrow> string option \<Rightarrow> create_attempt option" where
  "attempt_of q s start_id =
     (let a = (case start_id of None \<Rightarrow> dget (qs_attempts q) (sc_hotkey s)
               | Some i \<Rightarrow> dget (history_of q (sc_hotkey s)) i)
      in case a of None \<Rightarrow> None
         | Some x \<Rightarrow>
             if ca_round x \<noteq> sc_round s then None
             else (let y = (if start_id \<noteq> None then dget_default (history_of q (sc_hotkey s)) (ca_start x) x else x)
                   in if ca_round y = sc_round s then Some y else None))"

definition unresolved :: "(nat \<Rightarrow> pyfloat) \<Rightarrow> queue_state \<Rightarrow> (string \<times> string \<times> string) list" where
  "unresolved now q =
     map (\<lambda>(h, e). (ps_round e, h, ps_start e)) (filter (\<lambda>(h, e). ps_submitted e) (entries q)) @
     map (\<lambda>(i, k, a). (ca_round a, hd (split_on (CHR ''/'') k), drop (Suc (length (hd (split_on (CHR ''/'') k)))) k))
       (filter (\<lambda>(i, k, a). fsub (now i) (of_int (ca_at a)) < 600) (enumerate 0 (qs_retained q)))"

definition enqueue :: "'s queue_env \<Rightarrow> (nat \<Rightarrow> pyfloat) \<Rightarrow> (nat \<Rightarrow> pyfloat) \<Rightarrow> string \<Rightarrow> string \<Rightarrow> scope \<Rightarrow> string \<Rightarrow>
    string option \<Rightarrow> ('s queue_proc, pending_start) action" where
  "enqueue env now now' fresh revision s start_id replaces =
     act_bind (act_lift (session_uuid start_id)) (\<lambda>_.
     act_bind (act_lift (case replaces of None \<Rightarrow> Inr [] | Some r \<Rightarrow> session_uuid r)) (\<lambda>_.
     act_bind (act_get (\<lambda>p. (pending_of (qp_cache p) s, attempt_of (qp_cache p) s (Some start_id)))) (\<lambda>(cached, known).
       case cached of
         Some e \<Rightarrow> if ps_start e = start_id \<or> known \<noteq> None then act_return e
                   else queue_change env now fresh revision (enqueue_change now' (qe_capacity env) s start_id replaces)
       | None \<Rightarrow> queue_change env now fresh revision (enqueue_change now' (qe_capacity env) s start_id replaces))))"

definition queue_authorize :: "'s queue_env \<Rightarrow> (nat \<Rightarrow> pyfloat) \<Rightarrow> (nat \<Rightarrow> pyfloat) \<Rightarrow> string \<Rightarrow> string \<Rightarrow> scope \<Rightarrow> string \<Rightarrow>
    ('s queue_proc, unit) action" where
  "queue_authorize env now now' fresh revision s start_id =
     queue_change env now fresh revision (authorize_change now' (qe_interval env) s start_id)"

definition release_authorization :: "'s queue_env \<Rightarrow> (nat \<Rightarrow> pyfloat) \<Rightarrow> string \<Rightarrow> string \<Rightarrow> scope \<Rightarrow> string \<Rightarrow>
    ('s queue_proc, unit) action" where
  "release_authorization env now fresh revision s start_id =
     queue_change env now fresh revision (release_change s start_id)"

definition complete_start :: "'s queue_env \<Rightarrow> (nat \<Rightarrow> pyfloat) \<Rightarrow> string \<Rightarrow> string \<Rightarrow> scope \<Rightarrow> string \<Rightarrow> bool \<Rightarrow>
    ('s queue_proc, unit) action" where
  "complete_start env now fresh revision s start_id denied =
     queue_change env now fresh revision (complete_change s start_id denied)"

definition cancel :: "'s queue_env \<Rightarrow> (nat \<Rightarrow> pyfloat) \<Rightarrow> string \<Rightarrow> string \<Rightarrow> scope \<Rightarrow> string \<Rightarrow>
    ('s queue_proc, bool) action" where
  "cancel env now fresh revision s start_id = queue_change env now fresh revision (cancel_change s start_id)"

definition discard_old :: "'s queue_env \<Rightarrow> (nat \<Rightarrow> pyfloat) \<Rightarrow> string \<Rightarrow> string \<Rightarrow> string \<Rightarrow> ('s queue_proc, unit) action" where
  "discard_old env now fresh revision rnd = queue_change env now fresh revision (discard_old_change rnd)"

definition rollover :: "'s queue_env \<Rightarrow> (nat \<Rightarrow> pyfloat) \<Rightarrow> (nat \<Rightarrow> pyfloat) \<Rightarrow> string \<Rightarrow> string \<Rightarrow> string \<Rightarrow>
    ('s queue_proc, unit) action" where
  "rollover env now now' fresh revision rnd =
     queue_change env now fresh revision (rollover_change now' rnd)"

section \<open>Histories of the journal\<close>

text \<open>
  The changes the journal goes through, labelled by what was done; \<open>queue_step\<close> adds the load before and
  the new revision after, and is what one request makes of the journal.
\<close>

datatype queue_event =
    Enqueue scope string
  | Authorize scope string pyfloat
  | Release scope string
  | Complete scope string
  | Cancel scope string
  | DiscardOld string
  | Rollover string

inductive queue_changes :: "pyfloat \<Rightarrow> queue_event \<Rightarrow> queue_state \<Rightarrow> queue_state \<Rightarrow> bool" for interval where
  enqueuing: "enqueue_change now capacity s st replaces q = Inr (q', e) \<Longrightarrow> queue_changes interval (Enqueue s st) q q'"
| authorizing: "authorize_change now interval s st q = Inr (q', u) \<Longrightarrow>
    queue_changes interval (Authorize s st (now 0)) q q'"
| releasing: "release_change s st q = Inr (q', u) \<Longrightarrow> queue_changes interval (Release s st) q q'"
| completing: "complete_change s st denied q = Inr (q', u) \<Longrightarrow> queue_changes interval (Complete s st) q q'"
| cancelling: "cancel_change s st q = Inr (q', b) \<Longrightarrow> queue_changes interval (Cancel s st) q q'"
| discarding: "discard_old_change rnd q = Inr (q', u) \<Longrightarrow> queue_changes interval (DiscardOld rnd) q q'"
| rolling: "rollover_change now rnd q = Inr (q', u) \<Longrightarrow> queue_changes interval (Rollover rnd) q q'"

inductive_cases queue_changesE: "queue_changes interval e q q'"

definition queue_step :: "string \<Rightarrow> pyfloat \<Rightarrow> queue_event \<Rightarrow> queue_state \<Rightarrow> queue_state \<Rightarrow> bool" where
  "queue_step deployment interval e q q' = (\<exists>now q1 q2 rv. load_queue deployment now q = Inr q1 \<and>
     queue_changes interval e q1 q2 \<and> q' = q2\<lparr>qs_revision := rv\<rparr>)"

inductive queue_run :: "string \<Rightarrow> pyfloat \<Rightarrow> queue_state \<Rightarrow> queue_event list \<Rightarrow> queue_state \<Rightarrow> bool"
  for deployment interval where
  none: "queue_run deployment interval q [] q"
| step: "queue_run deployment interval q es q' \<Longrightarrow> queue_step deployment interval e q' q'' \<Longrightarrow>
    queue_run deployment interval q (es @ [e]) q''"

lemma queue_run_invariant:
  assumes "queue_run deployment interval q es q'" "P [] q"
    "\<And>es q q1 now. P es q \<Longrightarrow> load_queue deployment now q = Inr q1 \<Longrightarrow> P es q1"
    "\<And>es e q q1. P es q \<Longrightarrow> queue_changes interval e q q1 \<Longrightarrow> P (es @ [e]) q1"
    "\<And>es q rv. P es q \<Longrightarrow> P es (q\<lparr>qs_revision := rv\<rparr>)"
  shows "P es q'"
  using assms(1,2)
proof (induction rule: queue_run.induct)
  case (step q es q' e q'')
  from step.hyps(2) obtain now q1 q2 rv where "load_queue deployment now q' = Inr q1" "queue_changes interval e q1 q2"
    "q'' = q2\<lparr>qs_revision := rv\<rparr>" unfolding queue_step_def by blast
  with step.IH [OF step.prems] show ?case using assms(3-5) by blast
qed

section \<open>The line\<close>

lemma subseq_mem: "subseq xs ys \<Longrightarrow> x \<in> set xs \<Longrightarrow> x \<in> set ys"
  by (induction rule: list_emb.induct) auto

lemma subseq_distinct: "subseq xs ys \<Longrightarrow> distinct ys \<Longrightarrow> distinct xs"
  by (induction rule: list_emb.induct) (auto dest: subseq_mem)

lemma subseq_sorted: "subseq xs ys \<Longrightarrow> sorted_wrt R ys \<Longrightarrow> sorted_wrt R xs"
  by (induction rule: list_emb.induct) (auto dest: subseq_mem)

text \<open>Who waits, with the ticket drawn; a step keeps the order and lets new ones in at the end only.\<close>

definition tickets :: "queue_state \<Rightarrow> (string \<times> int) list" where
  "tickets q = map (\<lambda>(h, e). (h, ps_sequence e)) (qs_pending q)"

lemma tickets_keys: "map fst (tickets q) = dkeys (qs_pending q)"
  by (auto simp: tickets_def)

lemma update_new: "k \<notin> set (dkeys d) \<Longrightarrow> dset k v d = d @ [(k, v)]"
  by (induction d) auto

lemma update_same_ticket:
  "dget d k = Some e \<Longrightarrow> ps_sequence e' = ps_sequence e \<Longrightarrow>
     map (\<lambda>(h, e). (h, ps_sequence e)) (dset k e' d) = map (\<lambda>(h, e). (h, ps_sequence e)) d"
  by (induction d) (auto split: if_splits)

lemma subseq_map_filter: "subseq (map f (filter P xs)) (map f xs)"
  by (intro subseq_map subseq_filter_left)

lemma subseq_ddel: "subseq (map f (ddel k d)) (map f d)"
  unfolding AList.delete_eq by (rule subseq_map_filter)

definition line_kept :: "queue_state \<Rightarrow> queue_state \<Rightarrow> bool" where
  "line_kept q q' = (\<exists>keep. subseq keep (tickets q) \<and>
     ((tickets q' = keep \<and> qs_sequence q' = qs_sequence q) \<or>
      (\<exists>h. h \<notin> fst ` set keep \<and> tickets q' = keep @ [(h, qs_sequence q + 1)] \<and> qs_sequence q' = qs_sequence q + 1)))"

lemma line_keptI: "subseq (tickets q') (tickets q) \<Longrightarrow> qs_sequence q' = qs_sequence q \<Longrightarrow> line_kept q q'"
  unfolding line_kept_def by blast

lemma load_pending_tickets:
  "load_pending deployment now i d = Inr d' \<Longrightarrow>
     map (\<lambda>(h, e). (h, ps_sequence e)) d' = map (\<lambda>(h, e). (h, ps_sequence e)) d"
  by (induction d arbitrary: i d') (auto simp: rbind_eq_Inr)

lemma load_queue_line:
  "load_queue deployment now q = Inr q' \<Longrightarrow> tickets q' = tickets q \<and> qs_sequence q' = qs_sequence q"
  by (auto simp: load_queue_def rbind_eq_Inr tickets_def dest: load_pending_tickets)

lemma queue_changes_line: "queue_changes interval ev q q' \<Longrightarrow> line_kept q q'"
proof (erule queue_changesE)
  fix now capacity s st replaces e
  assume a: "enqueue_change now capacity s st replaces q = Inr (q', e)"
  show "line_kept q q'"
  proof (cases "dget (qs_pending q) (sc_hotkey s)")
    case None
    then have "sc_hotkey s \<notin> set (dkeys (qs_pending q))" by (simp add: map_of_eq_None_iff)
    with a None have "tickets q' = tickets q @ [(sc_hotkey s, qs_sequence q + 1)]" "qs_sequence q' = qs_sequence q + 1"
      by (auto simp: enqueue_change_def Let_def tickets_def update_new split: if_splits)
    moreover have "sc_hotkey s \<notin> fst ` set (tickets q)"
      using \<open>sc_hotkey s \<notin> set (dkeys (qs_pending q))\<close> tickets_keys [of q] by (metis list.set_map)
    ultimately show ?thesis unfolding line_kept_def by blast
  next
    case (Some x)
    with a have "tickets q' = tickets q" "qs_sequence q' = qs_sequence q"
      by (auto simp: enqueue_change_def Let_def tickets_def split: if_splits option.splits)
    then show ?thesis by (simp add: line_keptI)
  qed
next
  fix now s st u
  assume "authorize_change now interval s st q = Inr (q', u)"
  then show "line_kept q q'"
    by (auto simp: authorize_change_def Let_def tickets_def update_same_ticket split: option.splits if_splits
        intro!: line_keptI)
next
  fix s st u
  assume "release_change s st q = Inr (q', u)"
  then show "line_kept q q'"
    by (auto simp: release_change_def Let_def rbind_eq_Inr tickets_def update_same_ticket
        split: option.splits if_splits list.splits intro!: line_keptI)
next
  fix s st denied u
  assume "complete_change s st denied q = Inr (q', u)"
  then show "line_kept q q'"
    by (auto simp: complete_change_def Let_def tickets_def subseq_ddel split: option.splits if_splits intro!: line_keptI)
next
  fix s st b
  assume "cancel_change s st q = Inr (q', b)"
  then show "line_kept q q'"
    by (auto simp: cancel_change_def tickets_def subseq_ddel split: option.splits if_splits intro!: line_keptI)
next
  fix rnd u
  assume "discard_old_change rnd q = Inr (q', u)"
  then show "line_kept q q'"
    by (auto simp: discard_old_change_def tickets_def subseq_map_filter intro!: line_keptI)
next
  fix now rnd u
  assume "rollover_change now rnd q = Inr (q', u)"
  then show "line_kept q q'"
    by (auto simp: rollover_change_def rbind_eq_Inr tickets_def subseq_map_filter intro!: line_keptI)
qed

definition line_ok :: "queue_state \<Rightarrow> bool" where
  "line_ok q = (distinct (map fst (tickets q)) \<and> sorted_wrt (<) (map snd (tickets q)) \<and>
     (\<forall>t\<in>snd ` set (tickets q). t \<le> qs_sequence q))"

lemma line_kept_ok: "line_kept q q' \<Longrightarrow> line_ok q \<Longrightarrow> line_ok q'"
proof -
  assume "line_kept q q'" "line_ok q"
  then obtain keep where keep: "subseq keep (tickets q)"
    and cases: "(tickets q' = keep \<and> qs_sequence q' = qs_sequence q) \<or>
      (\<exists>h. h \<notin> fst ` set keep \<and> tickets q' = keep @ [(h, qs_sequence q + 1)] \<and> qs_sequence q' = qs_sequence q + 1)"
    unfolding line_kept_def by blast
  have "distinct (map fst keep)" "sorted_wrt (<) (map snd keep)"
    using \<open>line_ok q\<close> subseq_distinct [OF subseq_map [OF keep]] subseq_sorted [OF subseq_map [OF keep]]
    unfolding line_ok_def by blast+
  moreover have "\<forall>t\<in>snd ` set keep. t \<le> qs_sequence q"
    using \<open>line_ok q\<close> subseq_mem [OF keep] unfolding line_ok_def by blast
  ultimately show ?thesis using cases by (auto simp: line_ok_def sorted_wrt_append) fastforce+
qed

lemma line_ok_run:
  assumes "queue_run deployment interval (new_queue deployment fresh) es q"
  shows "line_ok q"
proof -
  have load: "line_ok q1" if "line_ok q" "load_queue deployment now q = Inr q1" for q q1 now
    using that load_queue_line [OF that(2)] by (simp add: line_ok_def)
  show ?thesis
  proof (rule queue_run_invariant [where P = "\<lambda>_. line_ok", OF assms])
    show "line_ok (new_queue deployment fresh)" by (simp add: line_ok_def tickets_def new_queue_def)
    show "line_ok q1" if "line_ok q" "queue_changes interval e q q1" for e q q1
      using line_kept_ok [OF queue_changes_line [OF that(2)] that(1)] .
    show "line_ok (q\<lparr>qs_revision := rv\<rparr>)" if "line_ok q" for q rv
      using that by (simp add: line_ok_def tickets_def)
  qed (rule load)
qed

definition waiting :: "queue_state \<Rightarrow> string list" where
  "waiting q = map fst (entries q)"

lemma sorted_key_id: "sorted_wrt (<) (map f xs) \<Longrightarrow> sort_key f xs = xs"
  using strict_sorted_imp_sorted [of "map f xs"] by (rule sort_key_id_if_sorted)

lemma waiting_tickets: "line_ok q \<Longrightarrow> waiting q = map fst (tickets q)"
proof -
  assume "line_ok q"
  then have "sorted_wrt (<) (map (\<lambda>x. ps_sequence (snd x)) (qs_pending q))"
    by (simp add: line_ok_def tickets_def comp_def case_prod_unfold)
  then show ?thesis by (simp add: waiting_def entries_def sorted_key_id tickets_keys)
qed

text \<open>
  C19: The queue is first in, first out: whatever requests of whatever gateways change the journal, the
  order in which starts are served keeps those that stay in their order and lets a new one in at the
  end only; nobody is in it twice.
\<close>

theorem queue_is_fifo:
  assumes "queue_run deployment interval (new_queue deployment fresh) es q" "queue_step deployment interval e q q'"
  shows "distinct (waiting q') \<and> (\<exists>keep. subseq keep (waiting q) \<and>
    (waiting q' = keep \<or> (\<exists>h. h \<notin> set keep \<and> waiting q' = keep @ [h])))"
proof -
  from assms(2) obtain now q1 q2 rev' where l: "load_queue deployment now q = Inr q1"
    and c: "queue_changes interval e q1 q2" and q': "q' = q2\<lparr>qs_revision := rev'\<rparr>"
    unfolding queue_step_def by blast
  have ok: "line_ok q" by (rule line_ok_run [OF assms(1)])
  have ok': "line_ok q'" by (rule line_ok_run [OF queue_run.step [OF assms]])
  have "tickets q' = tickets q2" "qs_sequence q1 = qs_sequence q" "tickets q1 = tickets q"
    using load_queue_line [OF l] by (simp_all add: q' tickets_def)
  with queue_changes_line [OF c] obtain keep where k: "subseq keep (tickets q)"
    "tickets q' = keep \<or> (\<exists>h t. h \<notin> fst ` set keep \<and> tickets q' = keep @ [(h, t)])"
    unfolding line_kept_def by metis
  from k(2) have "map fst (tickets q') = map fst keep \<or>
      (\<exists>h. h \<notin> set (map fst keep) \<and> map fst (tickets q') = map fst keep @ [h])" by auto
  moreover have "distinct (map fst (tickets q'))" using ok' by (simp add: line_ok_def)
  ultimately show ?thesis
    unfolding waiting_tickets [OF ok] waiting_tickets [OF ok'] using subseq_map [OF k(1), of fst] by blast
qed

section \<open>The rate of creates\<close>

fun create_times :: "queue_event list \<Rightarrow> pyfloat list" where
  "create_times [] = []"
| "create_times (e # es) = (case e of Authorize s st t \<Rightarrow> [t] | _ \<Rightarrow> []) @ create_times es"

lemma create_times_append [simp]: "create_times (es @ fs) = create_times es @ create_times fs"
  by (induction es) simp_all

lemma last_create_changes:
  assumes "queue_changes interval e q q'"
  shows "(case e of Authorize s st t \<Rightarrow> due_at interval q \<le> t \<and> qs_last_create q' = Some (ceil_int t)
    | _ \<Rightarrow> qs_last_create q' = qs_last_create q)"
  using assms
  by (rule queue_changesE)
    (auto simp: enqueue_change_def authorize_change_def release_change_def complete_change_def cancel_change_def
      discard_old_change_def rollover_change_def rbind_eq_Inr Let_def split: option.splits if_splits)

text \<open>
  C20: Creates are paced: however many gateways share the journal, between one authorized create and the
  next at least the configured interval passes.
\<close>

theorem creates_are_paced:
  assumes "queue_run deployment interval (new_queue deployment fresh) es q"
  shows "successively (\<lambda>t u. interval = 0 \<or> fadd (of_int (ceil_int t)) interval \<le> u) (create_times es)"
proof -
  let ?R = "\<lambda>t u. interval = 0 \<or> fadd (of_int (ceil_int t)) interval \<le> u"
  let ?P = "\<lambda>es q. successively ?R (create_times es) \<and>
    (create_times es \<noteq> [] \<longrightarrow> qs_last_create q = Some (ceil_int (last (create_times es))))"
  have step: "?P (es @ [e]) q1" if "?P es q" "queue_changes interval e q q1" for es e q q1
    using that(1) last_create_changes [OF that(2)]
    by (cases e) (auto simp: successively_append_iff due_at_def split: if_splits)
  have load: "?P es q1" if "?P es q" "load_queue deployment now q = Inr q1" for es q q1 now
    using that by (auto simp: load_queue_def rbind_eq_Inr)
  have "?P es q"
  proof (rule queue_run_invariant [where P = ?P, OF assms])
    show "?P es q1" if "?P es q" "load_queue deployment now q = Inr q1" for es q q1 now
      using that by (rule load)
    show "?P (es @ [e]) q1" if "?P es q" "queue_changes interval e q q1" for es e q q1
      using that by (rule step)
  qed simp_all
  then show ?thesis by blast
qed

section \<open>No start is created twice\<close>

text \<open>
  A start is spent when the history says it was submitted. \<open>frees\<close> are the events that may end that: the
  return of its own authorization, and events of another round.
\<close>

definition spent :: "scope \<Rightarrow> string \<Rightarrow> queue_state \<Rightarrow> bool" where
  "spent s st q = (\<exists>a. dget (history_of q (sc_hotkey s)) st = Some a \<and> ca_round a = sc_round s \<and> ca_submitted a)"

fun frees :: "scope \<Rightarrow> string \<Rightarrow> queue_event \<Rightarrow> bool" where
  "frees s st (Release s' st') = (sc_hotkey s' = sc_hotkey s \<and> st' = st)"
| "frees s st (Enqueue s' st') = (sc_hotkey s' = sc_hotkey s \<and> st' = st \<and> sc_round s' \<noteq> sc_round s)"
| "frees s st (Authorize s' st' t) = (sc_hotkey s' = sc_hotkey s \<and> st' = st \<and> sc_round s' \<noteq> sc_round s)"
| "frees s st (Complete s' st') = (sc_hotkey s' = sc_hotkey s \<and> st' = st \<and> sc_round s' \<noteq> sc_round s)"
| "frees s st (Cancel s' st') = False"
| "frees s st (DiscardOld r) = (r \<noteq> sc_round s)"
| "frees s st (Rollover r) = (r \<noteq> sc_round s)"

lemma history_put:
  "dget (dget_default (put_history h st a hist) h' []) st' =
     (if h' = h \<and> st' = st then Some a else dget (dget_default hist h' []) st')"
  by (simp add: put_history_def dget_default_def split: option.split)

lemma history_default:
  "dget (dget_default hist h' []) st' = Some a \<Longrightarrow> dget (dget_default (default_history h st b hist) h' []) st' = Some a"
  by (auto simp: default_history_def dget_default_def dhas_def split: option.splits if_splits)

lemma load_attempts_history:
  "load_attempts deployment as hist = Inr hist' \<Longrightarrow> dget (dget_default hist h []) st = Some a \<Longrightarrow>
     dget (dget_default hist' h []) st = Some a"
proof (induction as arbitrary: hist)
  case (Cons x as)
  obtain k b where x: "x = (k, b)" by force
  with Cons.prems(1) have "load_attempts deployment as (default_history k (ca_start b) b hist) = Inr hist'"
    by (auto simp: rbind_eq_Inr)
  from Cons.IH [OF this history_default [OF Cons.prems(2)]] show ?case .
qed simp

lemma dget_filter_keeps: "dget d k = Some v \<Longrightarrow> P (k, v) \<Longrightarrow> dget (filter P d) k = Some v"
  by (induction d) (auto split: if_splits)

lemma history_of_round:
  "dget (dget_default hist h []) st = Some a \<Longrightarrow> ca_round a = r \<Longrightarrow>
     dget (dget_default (map (\<lambda>(k, m). (k, of_round r m)) hist) h []) st = Some a"
  by (cases "dget hist h") (auto simp: dget_default_def dget_map_values of_round_def dget_filter_keeps)

lemma dvalues_dset: "set (dvalues (dset k v d)) \<subseteq> insert v (set (dvalues d))"
  by (induction d) auto

lemma latest_attempt_mem: "latest_attempt a bs \<in> set (a # bs)"
  by (induction bs arbitrary: a) auto

definition all_submitted :: "attempts \<Rightarrow> bool" where
  "all_submitted d = list_all ca_submitted (dvalues d)"

lemma all_submitted_simps:
  "all_submitted d \<Longrightarrow> ca_submitted a \<Longrightarrow> all_submitted (dset k a d)"
  "all_submitted d \<Longrightarrow> all_submitted (ddel k d)"
  "all_submitted d \<Longrightarrow> all_submitted (filter P d)"
  "all_submitted d \<Longrightarrow> dget d k = Some b \<Longrightarrow> ca_submitted b"
  using dvalues_dset [of k a d]
  by (auto simp: all_submitted_def list_all_iff AList.delete_eq dest!: dget_mem) fastforce+

lemma restored_submitted: "all_submitted d \<Longrightarrow> all_submitted (restored s h d)"
proof (cases "filter (\<lambda>b. ca_round b = sc_round s \<and> ca_submitted b) (dvalues h)")
  case (Cons b bs)
  then have "latest_attempt b bs \<in> set (filter (\<lambda>b. ca_round b = sc_round s \<and> ca_submitted b) (dvalues h))"
    using latest_attempt_mem [of b bs] by metis
  then have "ca_submitted (latest_attempt b bs)" by auto
  moreover assume "all_submitted d"
  ultimately show ?thesis by (simp add: restored_def Cons all_submitted_simps)
qed (simp add: restored_def all_submitted_simps)

lemma queue_changes_submitted:
  "queue_changes interval e q q' \<Longrightarrow> all_submitted (qs_attempts q) \<Longrightarrow> all_submitted (qs_attempts q')"
  by (erule queue_changesE)
    (auto simp: enqueue_change_def authorize_change_def release_change_def complete_change_def cancel_change_def
      discard_old_change_def rollover_change_def rbind_eq_Inr Let_def new_attempt_def of_round_def
      all_submitted_simps restored_submitted split: option.splits if_splits)

lemma spent_cong: "spent s st q \<Longrightarrow> qs_history q' = qs_history q \<Longrightarrow> spent s st q'"
  by (simp add: spent_def history_of_def)

lemma spent_revision [simp]: "spent s st (q\<lparr>qs_revision := rv\<rparr>) = spent s st q"
  by (simp add: spent_def history_of_def)

lemma spent_put:
  assumes "spent s st q" "qs_history q' = put_history (sc_hotkey s') st' a (qs_history q)"
    "sc_hotkey s' = sc_hotkey s \<Longrightarrow> st' = st \<Longrightarrow> ca_round a = sc_round s \<and> ca_submitted a"
  shows "spent s st q'"
  using assms by (auto simp: spent_def history_of_def history_put)

lemma spent_of_round:
  "spent s st q \<Longrightarrow> qs_history q' = map (\<lambda>(k, m). (k, of_round (sc_round s) m)) (qs_history q) \<Longrightarrow> spent s st q'"
  using history_of_round by (fastforce simp: spent_def history_of_def)

lemma queue_changes_spent:
  assumes "queue_changes interval e q q'" "spent s st q" "all_submitted (qs_attempts q)" "\<not> frees s st e"
  shows "spent s st q'"
  using assms(1)
proof (rule queue_changesE)
  fix now capacity s' st' replaces x
  assume e: "e = Enqueue s' st'" and c: "enqueue_change now capacity s' st' replaces q = Inr (q', x)"
  show ?thesis
  proof (cases "sc_hotkey s' = sc_hotkey s \<and> st' = st")
    case True
    with assms(2,4) e obtain a where "dget (history_of q (sc_hotkey s')) st' = Some a" "ca_round a = sc_round s'"
      by (auto simp: spent_def)
    with c have "q' = q" by (auto simp: enqueue_change_def Let_def split: option.splits if_splits)
    with assms(2) show ?thesis by simp
  next
    case False
    from c consider "q' = q" | a where "qs_history q' = put_history (sc_hotkey s') st' a (qs_history q)"
      by (auto simp: enqueue_change_def Let_def split: option.splits if_splits)
    then show ?thesis using False assms(2) spent_put [OF assms(2)] by cases blast+
  qed
next
  fix now s' st' u
  assume e: "e = Authorize s' st' (now 0)" and c: "authorize_change now interval s' st' q = Inr (q', u)"
  show ?thesis
  proof (cases "sc_hotkey s' = sc_hotkey s \<and> st' = st")
    case True
    with assms(2,4) e obtain a where "dget (history_of q (sc_hotkey s')) st' = Some a" "ca_round a = sc_round s'"
      "ca_submitted a" by (auto simp: spent_def)
    with c show ?thesis by (auto simp: authorize_change_def split: option.splits if_splits)
  next
    case False
    with c show ?thesis
      by (auto simp: authorize_change_def Let_def split: option.splits if_splits intro: spent_put [OF assms(2)])
  qed
next
  fix s' st' u
  assume e: "e = Release s' st'" and c: "release_change s' st' q = Inr (q', u)"
  with assms(4) have n: "sc_hotkey s' \<noteq> sc_hotkey s \<or> st' \<noteq> st" by auto
  obtain h a where "q' = q \<or> (dget (qs_history q) (sc_hotkey s') = Some h \<and>
      qs_history q' = dset (sc_hotkey s') (dset st' (a\<lparr>ca_submitted := False\<rparr>) h) (qs_history q))"
    using c by (fastforce simp: release_change_def Let_def rbind_eq_Inr split: option.splits if_splits)
  then consider "q' = q" | "dget (qs_history q) (sc_hotkey s') = Some h"
      "qs_history q' = dset (sc_hotkey s') (dset st' (a\<lparr>ca_submitted := False\<rparr>) h) (qs_history q)" by blast
  then show ?thesis
  proof cases
    case 2
    then have "qs_history q' = put_history (sc_hotkey s') st' (a\<lparr>ca_submitted := False\<rparr>) (qs_history q)"
      by (simp add: put_history_def dget_default_def)
    from spent_put [OF assms(2) this] n show ?thesis by blast
  qed (use assms(2) in simp)
next
  fix s' st' denied u
  assume e: "e = Complete s' st'" and c: "complete_change s' st' denied q = Inr (q', u)"
  from c consider "qs_history q' = qs_history q"
    | p where "qs_history q' = put_history (sc_hotkey s') st' (p\<lparr>ca_rejected := True\<rparr>) (qs_history q)"
      "dget (qs_attempts q) (sc_hotkey s') = Some p" "ca_round p = sc_round s'"
    by (auto simp: complete_change_def Let_def split: option.splits if_splits)
  then show ?thesis
  proof cases
    case 1
    with assms(2) show ?thesis by (rule spent_cong)
  next
    case (2 p)
    have "ca_submitted p" using all_submitted_simps(4) [OF assms(3) 2(2)] .
    with spent_put [OF assms(2) 2(1)] 2(3) e assms(4) show ?thesis by auto
  qed
next
  fix s' st' b
  assume "cancel_change s' st' q = Inr (q', b)"
  then have "qs_history q' = qs_history q" by (auto simp: cancel_change_def split: option.splits if_splits)
  with assms(2) show ?thesis by (rule spent_cong)
next
  fix rnd u
  assume "e = DiscardOld rnd" "discard_old_change rnd q = Inr (q', u)"
  with assms(4) show ?thesis by (intro spent_of_round [OF assms(2)]) (auto simp: discard_old_change_def)
next
  fix now rnd u
  assume "e = Rollover rnd" "rollover_change now rnd q = Inr (q', u)"
  with assms(4) show ?thesis
    by (intro spent_of_round [OF assms(2)]) (auto simp: rollover_change_def rbind_eq_Inr)
qed

lemma load_queue_spent:
  assumes "load_queue deployment now q = Inr q'"
  shows "qs_attempts q' = qs_attempts q \<and> (spent s st q \<longrightarrow> spent s st q')"
  using assms load_attempts_history by (fastforce simp: load_queue_def rbind_eq_Inr spent_def history_of_def)

lemma queue_run_spent:
  assumes "queue_run deployment interval q es q'" "spent s st q" "all_submitted (qs_attempts q)" "\<forall>e\<in>set es. \<not> frees s st e"
  shows "spent s st q' \<and> all_submitted (qs_attempts q')"
proof -
  let ?P = "\<lambda>es q. (\<forall>e\<in>set es. \<not> frees s st e) \<longrightarrow> spent s st q \<and> all_submitted (qs_attempts q)"
  have "?P es q'"
  proof (rule queue_run_invariant [where P = ?P, OF assms(1)])
    show "?P es q1" if "?P es q" "load_queue deployment now q = Inr q1" for es q q1 now
      using that load_queue_spent [OF that(2), of s st] by simp
    show "?P (es @ [e]) q1" if "?P es q" "queue_changes interval e q q1" for es e q q1
      using that queue_changes_spent [OF that(2), of s st] queue_changes_submitted [OF that(2)] by simp
    show "?P es (q\<lparr>qs_revision := rv\<rparr>)" if "?P es q" for es q rv
      using that by simp
  qed (use assms(2,3) in simp)
  with assms(4) show ?thesis by blast
qed

lemma queue_run_submitted:
  assumes "queue_run deployment interval (new_queue deployment fresh) es q"
  shows "all_submitted (qs_attempts q)"
proof -
  let ?P = "\<lambda>_ q. all_submitted (qs_attempts q)"
  show ?thesis
  proof (rule queue_run_invariant [where P = ?P, OF assms])
    show "all_submitted (qs_attempts (new_queue deployment fresh))" by (simp add: all_submitted_def new_queue_def)
    show "all_submitted (qs_attempts q1)" if "all_submitted (qs_attempts q)" "load_queue deployment now q = Inr q1" for q q1 now
      using that load_queue_spent [OF that(2)] by simp
    show "all_submitted (qs_attempts q1)" if "all_submitted (qs_attempts q)" "queue_changes interval e q q1" for e q q1
      using queue_changes_submitted [OF that(2,1)] .
  qed simp
qed

text \<open>
  C21: A create is authorized at most once: after a start was authorized, no request authorizes it again,
  through any sequence of requests of any gateways, unless its own authorization was returned or the
  round was left.
\<close>

theorem create_authorized_once:
  assumes "queue_run deployment interval (new_queue deployment fresh) xs q0"
    "queue_step deployment interval (Authorize s st t) q0 q1"
    "queue_run deployment interval q1 es q2" "\<forall>e\<in>set es. \<not> frees s st e"
  shows "\<not> queue_step deployment interval (Authorize s st u) q2 q3"
proof
  assume again: "queue_step deployment interval (Authorize s st u) q2 q3"
  from assms(2) obtain now q q' rv where l: "load_queue deployment now q0 = Inr q"
    and c: "queue_changes interval (Authorize s st t) q q'" and q1: "q1 = q'\<lparr>qs_revision := rv\<rparr>"
    unfolding queue_step_def by blast
  from queue_run_submitted [OF queue_run.step [OF assms(1,2)]] have sub: "all_submitted (qs_attempts q1)" .
  have "spent s st q'"
    using c by (rule queue_changesE)
      (auto simp: authorize_change_def Let_def new_attempt_def spent_def history_of_def history_put
        split: option.splits if_splits)
  then have "spent s st q1" by (simp add: q1)
  from queue_run_spent [OF assms(3) this sub assms(4)] have "spent s st q2" by blast
  moreover from again obtain now q q' where l: "load_queue deployment now q2 = Inr q"
    and c: "queue_changes interval (Authorize s st u) q q'"
    unfolding queue_step_def by blast
  ultimately have "spent s st q" using load_queue_spent by blast
  with c show False
    by (elim queue_changesE) (auto simp: authorize_change_def spent_def split: option.splits if_splits)
qed

section \<open>Requests make such steps\<close>

definition stored_queue :: "'s queue_env \<Rightarrow> string \<Rightarrow> queue_state option \<Rightarrow> queue_state" where
  "stored_queue env fresh v = (case v of None \<Rightarrow> new_queue (qe_deployment env) fresh | Some q \<Rightarrow> q)"

lemma queue_change_eq:
  "queue_change env now fresh revision change p =
     (case qe_load env (queue_key (qe_deployment env)) (qp_store p) of
        (Inl e, s1) \<Rightarrow> (Inl e, p\<lparr>qp_store := s1\<rparr>)
      | (Inr sn, s1) \<Rightarrow>
          (case load_queue (qe_deployment env) now (stored_queue env fresh (map_option sn_data sn)) of
             Inl e \<Rightarrow> (Inl e, p\<lparr>qp_store := s1\<rparr>)
           | Inr q \<Rightarrow>
               (case change q of
                  Inl e \<Rightarrow> (Inl e, p\<lparr>qp_store := s1\<rparr>)
                | Inr (q', r) \<Rightarrow>
                    if MAX_JOURNAL_BYTES < qe_size env (q'\<lparr>qs_revision := revision\<rparr>)
                    then (Inl (CapacityReached ''Allocation journal is full''), p\<lparr>qp_store := s1\<rparr>)
                    else (case qe_save env (queue_key (qe_deployment env)) (q'\<lparr>qs_revision := revision\<rparr>)
                              (map_option sn_etag sn) s1 of
                            (Inl e, s2) \<Rightarrow> (Inl e, p\<lparr>qp_store := s2\<rparr>)
                          | (Inr _, s2) \<Rightarrow> (Inr r, p\<lparr>qp_store := s2, qp_cache := q'\<lparr>qs_revision := revision\<rparr>\<rparr>)))))"
  by (auto simp: queue_change_def read_queue_def on_store_def act_bind_def act_simps stored_queue_def Let_def
      split: prod.splits sum.splits option.splits if_splits)

text \<open>
  C22: A request on the queue changes nothing but the journal, and that at most by one step of the kind
  the histories above are made of, taken from the journal as it is in the store; when it returns, that
  step is in the store and in the cache of the process.
\<close>

theorem queue_change_is_step:
  assumes "cas_store obj (qe_load env) (qe_save env)"
    and "\<forall>q q' x. change q = Inr (q', x) \<longrightarrow> queue_changes (qe_interval env) e q q'"
    and "queue_change env now fresh revision change p = (r, p')"
  shows "let k = queue_key (qe_deployment env); o1 = obj (qp_store p);
      written = (\<lambda>q. (\<exists>t. obj (qp_store p') = o1(k \<mapsto> (t, q))) \<and>
        queue_step (qe_deployment env) (qe_interval env) e (stored_queue env fresh (data_at o1 k)) q)
    in (obj (qp_store p') = o1 \<or> (\<exists>q. written q)) \<and> (is_ok r \<longrightarrow> written (qp_cache p'))"
proof -
  note frame = cas_store.load_frame [OF assms(1)] and found = cas_store.load_found [OF assms(1)]
    and saved = cas_store.save_frame [OF assms(1)] and stored = cas_store.save_done [OF assms(1)]
  let ?k = "queue_key (qe_deployment env)" and ?o = "obj (qp_store p)"
  obtain lr s1 where l: "qe_load env ?k (qp_store p) = (lr, s1)" by force
  note f = frame [OF l]
  show ?thesis
  proof (cases lr)
    case (Inl x)
    with assms(3) l f show ?thesis by (auto simp: queue_change_eq Let_def)
  next
    case (Inr sn)
    have v: "data_at ?o ?k = map_option sn_data sn"
      using found [OF l [unfolded Inr]] by (cases sn) (simp_all add: data_at_def)
    show ?thesis
    proof (cases "load_queue (qe_deployment env) now (stored_queue env fresh (map_option sn_data sn))")
      case (Inl x)
      with assms(3) l f Inr show ?thesis by (auto simp: queue_change_eq Let_def)
    next
      case q: (Inr q)
      show ?thesis
      proof (cases "change q")
        case (Inl x)
        with assms(3) l f Inr q show ?thesis by (auto simp: queue_change_eq Let_def)
      next
        case qx: (Inr y)
        obtain q' x where y: "y = (q', x)" by force
        let ?q = "q'\<lparr>qs_revision := revision\<rparr>"
        have step: "queue_step (qe_deployment env) (qe_interval env) e (stored_queue env fresh (data_at ?o ?k)) ?q"
          using q assms(2) qx [unfolded y] unfolding v queue_step_def by blast
        show ?thesis
        proof (cases "MAX_JOURNAL_BYTES < qe_size env ?q")
          case True
          with assms(3) l f Inr q qx y show ?thesis by (auto simp: queue_change_eq Let_def)
        next
          case False
          obtain sr s2 where w: "qe_save env ?k ?q (map_option sn_etag sn) s1 = (sr, s2)" by force
          from saved [OF w] have o: "obj s2 = ?o \<or> (\<exists>t. obj s2 = ?o(?k \<mapsto> (t, ?q)))"
            unfolding f put_applied_def by blast
          show ?thesis
          proof (cases sr)
            case (Inl x)
            with assms(3) l Inr q qx y False w have p': "qp_store p' = s2" "r = Inl x"
              by (auto simp: queue_change_eq)
            from o step show ?thesis unfolding Let_def p' is_ok_simps by blast
          next
            case sn': (Inr sn')
            with assms(3) l Inr q qx y False w have p': "p' = p\<lparr>qp_store := s2, qp_cache := ?q\<rparr>"
              by (simp add: queue_change_eq)
            from stored [OF w [unfolded sn']] have "obj s2 ?k = Some (sn_etag sn', ?q)" .
            with o have "\<exists>t. obj s2 = ?o(?k \<mapsto> (t, ?q))" by (metis fun_upd_triv)
            with step show ?thesis by (auto simp: p' Let_def)
          qed
        qed
      qed
    qed
  qed
qed

section \<open>Leaving a round\<close>

text \<open>
  \<^verbatim>\<open>discard_old\<close> keeps a submitted start of an old round but not its attempt; a later \<^verbatim>\<open>rollover\<close> looks that
  attempt up and raises, for as long as the start is in the journal.
\<close>

lemma rollover_after_discard:
  assumes "discard_old_change r1 q = Inr (q', u)" "dict_ok (qs_pending q)" "dict_ok (qs_attempts q)"
    "dget (qs_pending q) h = Some e" "ps_submitted e" "ps_round e \<noteq> r1" "dget (qs_attempts q) h = Some a"
    "ca_round a = ps_round e" "r2 \<noteq> ps_round e"
  shows "rollover_change now r2 q' = Inl KeyError"
proof -
  have p: "dget (qs_pending q') h = Some e" and n: "dget (qs_attempts q') h = None"
    using assms by (auto simp: discard_old_change_def of_round_def dget_filter)
  have "\<exists>x. retain_unresolved r2 atts es ret = Inl KeyError"
    if "dget es h = Some e" "dget atts h = None" for es atts ret
    using that assms(5,9)
    by (induction es arbitrary: ret) (auto simp: some_or_def rbind_def split: option.splits sum.splits if_splits)
  with p n show ?thesis by (simp add: rollover_change_def)
qed

section \<open>Draining the excess\<close>

text \<open>
  Draining the excess brings the fleet of a deployment down to its capacity and no further, touches
  only pods of the deployment that are not gateways, and an active pod only when every dormant one is
  drained as well.
\<close>

theorem excess_spec:
  "mset (excess sha max_pods inventory d) \<subseteq># mset (counted_pods sha inventory d) \<and>
    length (counted_pods sha inventory d) - length (excess sha max_pods inventory d) =
      min max_pods (length (counted_pods sha inventory d)) \<and>
    (p \<in> set (excess sha max_pods inventory d) \<and> lifecycle p = ''active'' \<longrightarrow>
      filter (\<lambda>p. lifecycle p \<noteq> ''active'') (excess sha max_pods inventory d) =
        filter (\<lambda>p. lifecycle p \<noteq> ''active'') (sort_key victim_key (counted_pods sha inventory d)))"
proof -
  let ?pods = "counted_pods sha inventory d"
  let ?xs = "sort_key victim_key ?pods" and ?n = "length ?pods - max_pods"
  have e: "excess sha max_pods inventory d = take ?n ?xs" by (simp add: excess_def Let_def)
  have split: "?xs = take ?n ?xs @ drop ?n ?xs" by simp
  have "mset (take ?n ?xs) \<subseteq># mset ?xs" by (metis split mset_append mset_subset_eq_add_left)
  then have sub: "mset (take ?n ?xs) \<subseteq># mset ?pods" by simp
  have "lifecycle y = ''active''" if "p \<in> set (take ?n ?xs)" "lifecycle p = ''active''" "y \<in> set (drop ?n ?xs)" for y
  proof -
    have "sorted (map victim_key (take ?n ?xs @ drop ?n ?xs))" unfolding split [symmetric] by simp
    with that(1,3) have "victim_key p \<le> victim_key y"
      unfolding map_append sorted_append by (metis imageI list.set_map)
    with that(2) show ?thesis by (simp add: victim_key_def less_eq_prod_def)
  qed
  then have "p \<in> set (take ?n ?xs) \<and> lifecycle p = ''active'' \<longrightarrow>
      filter (\<lambda>p. lifecycle p \<noteq> ''active'') (drop ?n ?xs) = []"
    by (auto simp: filter_empty_conv)
  moreover have "filter (\<lambda>p. lifecycle p \<noteq> ''active'') ?xs = filter (\<lambda>p. lifecycle p \<noteq> ''active'') (take ?n ?xs) @
      filter (\<lambda>p. lifecycle p \<noteq> ''active'') (drop ?n ?xs)"
    by (subst split, subst filter_append) (rule refl)
  moreover have "length ?pods - length (take ?n ?xs) = min max_pods (length ?pods)"
    by (simp only: length_take length_sort)
  ultimately show ?thesis using sub unfolding e by simp
qed

section \<open>Examples\<close>

definition other_start :: string where
  "other_start = ''7d444840-9dc0-11d1-b245-5ffdce74fad2''"

text \<open>Requests of the examples, on the journal of a deployment at a moment.\<close>

definition request_at :: "pyfloat \<Rightarrow> 'r queue_op \<Rightarrow> queue_state \<Rightarrow> queue_state result" where
  "request_at t change q = rbind (load_queue ''main'' (\<lambda>_. t) q) (\<lambda>q'. rmap fst (change q'))"

lemma request_at_step:
  assumes "request_at t change q = Inr q'" "\<And>q q' x. change q = Inr (q', x) \<Longrightarrow> queue_changes interval e q q'"
  shows "queue_step ''main'' interval e q q'"
proof -
  from assms(1) obtain q1 x where "load_queue ''main'' (\<lambda>_. t) q = Inr q1" "change q1 = Inr (q', x)"
    by (auto simp: request_at_def rbind_eq_Inr rmap_eq_Inr)
  with assms(2) show ?thesis unfolding queue_step_def by (metis queue_state.surjective queue_state.update_convs(2))
qed

lemma example_ids: "session_uuid example_start = Inr example_start" "session_uuid other_start = Inr other_start"
  "make_scope ''main'' (sc_round example_scope) (sc_hotkey example_scope) = Inr example_scope"
  by code_simp+

definition join :: "pyfloat \<Rightarrow> string \<Rightarrow> queue_state \<Rightarrow> queue_state result" where
  "join t st = request_at t (enqueue_change (\<lambda>_. t) 8 example_scope st None)"

definition permit :: "pyfloat \<Rightarrow> string \<Rightarrow> queue_state \<Rightarrow> queue_state result" where
  "permit t st = request_at t (authorize_change (\<lambda>_. t) 10 example_scope st)"

definition leave :: "pyfloat \<Rightarrow> string \<Rightarrow> queue_state \<Rightarrow> queue_state result" where
  "leave t st = request_at t (complete_change example_scope st False)"

lemma example_steps:
  "join t st q = Inr q' \<Longrightarrow> queue_step ''main'' 10 (Enqueue example_scope st) q q'"
  "permit t st q = Inr q' \<Longrightarrow> queue_step ''main'' 10 (Authorize example_scope st t) q q'"
  "leave t st q = Inr q' \<Longrightarrow> queue_step ''main'' 10 (Complete example_scope st) q q'"
proof -
  assume "join t st q = Inr q'"
  then show "queue_step ''main'' 10 (Enqueue example_scope st) q q'"
    unfolding join_def by (rule request_at_step) (rule queue_changes.enqueuing)
next
  assume "permit t st q = Inr q'"
  then show "queue_step ''main'' 10 (Authorize example_scope st t) q q'"
    unfolding permit_def by (rule request_at_step) (use queue_changes.authorizing in fastforce)
next
  assume "leave t st q = Inr q'"
  then show "queue_step ''main'' 10 (Complete example_scope st) q q'"
    unfolding leave_def by (rule request_at_step) (rule queue_changes.completing)
qed

lemma example_journey:
  "\<exists>q1 q2 q3 q4 q5. join 5 example_start (new_queue ''main'' ''r0'') = Inr q1 \<and> permit 5 example_start q1 = Inr q2 \<and>
     leave 9 example_start q2 = Inr q3 \<and> join 20 other_start q3 = Inr q4 \<and> permit 20 other_start q4 = Inr q5 \<and>
     waiting q1 = [sc_hotkey example_scope]"
proof -
  have f: "fadd 5 10 = 15" using fl_of_int [of 15] by (simp add: fadd_def)
  have n: "example_start \<noteq> other_start" "other_start \<noteq> example_start" by (simp_all add: example_start_def other_start_def)
  have c: "ceil_int 5 = 5" "ceil_int 20 = 20" by (simp_all add: ceil_int_def)
  show ?thesis
    by (simp add: join_def permit_def leave_def request_at_def load_queue_def new_queue_def require_def example_ids
        enqueue_change_def authorize_change_def complete_change_def Let_def history_of_def dget_default_def put_history_def
        default_history_def dhas_def new_attempt_def is_entry_def due_at_def f n c waiting_def entries_def)
qed

lemma run_one: "queue_step d interval e q q' \<Longrightarrow> queue_run d interval q [e] q'"
  using queue_run.step [OF queue_run.none] by force

lemma run_snoc: "queue_run d interval q es q' \<Longrightarrow> queue_step d interval e q' q'' \<Longrightarrow> fs = es @ [e] \<Longrightarrow> queue_run d interval q fs q''"
  using queue_run.step by blast

theorem queue_is_fifo_witness:
  "\<exists>q1. queue_step ''main'' 10 (Enqueue example_scope example_start) (new_queue ''main'' ''r0'') q1 \<and>
     distinct (waiting q1) \<and> waiting q1 = [sc_hotkey example_scope]"
proof -
  obtain q1 where q1: "join 5 example_start (new_queue ''main'' ''r0'') = Inr q1" "waiting q1 = [sc_hotkey example_scope]"
    using example_journey by blast
  note step = example_steps(1) [OF q1(1)]
  from queue_is_fifo [OF queue_run.none step] step q1(2) show ?thesis by blast
qed

theorem creates_are_paced_witness:
  "\<exists>es q. queue_run ''main'' 10 (new_queue ''main'' ''r0'') es q \<and> create_times es = [5, 20] \<and>
     successively (\<lambda>t u. (10 :: pyfloat) = 0 \<or> fadd (of_int (ceil_int t)) 10 \<le> u) (create_times es)"
proof -
  obtain q1 q2 q3 q4 q5 where q: "join 5 example_start (new_queue ''main'' ''r0'') = Inr q1"
    "permit 5 example_start q1 = Inr q2" "leave 9 example_start q2 = Inr q3" "join 20 other_start q3 = Inr q4"
    "permit 20 other_start q4 = Inr q5" using example_journey by blast
  let ?s = example_scope and ?a = example_start and ?b = other_start
  note run = run_one [OF example_steps(1) [OF q(1)]]
  note run = run_snoc [OF run example_steps(2) [OF q(2)] refl]
  note run = run_snoc [OF run example_steps(3) [OF q(3)] refl]
  note run = run_snoc [OF run example_steps(1) [OF q(4)] refl]
  note run = run_snoc [OF run example_steps(2) [OF q(5)] refl]
  obtain es where es: "es = [Enqueue ?s ?a, Authorize ?s ?a 5, Complete ?s ?a, Enqueue ?s ?b, Authorize ?s ?b 20]" by blast
  with run have run': "queue_run ''main'' 10 (new_queue ''main'' ''r0'') es q5" by simp
  have "create_times es = [5, 20]" by (simp add: es)
  with creates_are_paced [OF run'] run' show ?thesis by blast
qed

theorem create_authorized_once_witness:
  "\<exists>q1 q2. queue_run ''main'' 10 (new_queue ''main'' ''r0'') [Enqueue example_scope example_start] q1 \<and>
     queue_step ''main'' 10 (Authorize example_scope example_start 5) q1 q2 \<and>
     \<not> queue_step ''main'' 10 (Authorize example_scope example_start 30) q2 q2"
proof -
  obtain q1 q2 where q: "join 5 example_start (new_queue ''main'' ''r0'') = Inr q1" "permit 5 example_start q1 = Inr q2"
    using example_journey by blast
  note run = run_one [OF example_steps(1) [OF q(1)]] and auth = example_steps(2) [OF q(2)]
  from create_authorized_once [OF run auth queue_run.none] run auth show ?thesis by auto
qed

definition example_queue_env :: "queue_state bucket queue_env" where
  "example_queue_env = \<lparr>qe_load = r2_load bucket_s3 9, qe_save = r2_save bucket_s3 9, qe_size = (\<lambda>_. 0),
     qe_deployment = ''main'', qe_interval = 10, qe_capacity = 8\<rparr>"

theorem queue_change_is_step_witness:
  "\<exists>p' t q. cancel example_queue_env (\<lambda>_. 5) ''r0'' ''r1'' example_scope example_start
      \<lparr>qp_store = \<lparr>bk_objects = Map.empty, bk_writes = 0, bk_lost = []\<rparr>, qp_cache = new_queue ''main'' ''r0''\<rparr> =
      (Inr True, p') \<and> qp_cache p' = q \<and> bk_objects (qp_store p') (queue_key ''main'') = Some (t, q)"
proof -
  let ?p = "\<lparr>qp_store = \<lparr>bk_objects = Map.empty, bk_writes = 0, bk_lost = []\<rparr>, qp_cache = new_queue ''main'' ''r0''\<rparr> ::
    queue_state bucket queue_proc"
  have n: "nat_digits 0 = ''0''" by code_simp
  have c: "cas_store bk_objects (qe_load example_queue_env) (qe_save example_queue_env)"
    using bucket.r2.cas_store_axioms by (simp add: example_queue_env_def)
  obtain p' where r: "queue_change example_queue_env (\<lambda>_. 5) ''r0'' ''r1'' (cancel_change example_scope example_start) ?p =
      (Inr True, p')"
    by (simp add: queue_change_eq example_queue_env_def r2_load_def r2_save_def bucket_s3_def bucket_answer_def
        stored_queue_def new_queue_def load_queue_def cancel_change_def etag_of_def eval_nat_numeral n)
  have step: "\<forall>q q' x. cancel_change example_scope example_start q = Inr (q', x) \<longrightarrow>
      queue_changes (qe_interval example_queue_env) (Cancel example_scope example_start) q q'"
    by (intro allI impI queue_changes.cancelling)
  from queue_change_is_step [OF c step r] obtain t where
    "bk_objects (qp_store p') = (bk_objects (qp_store ?p))(queue_key (qe_deployment example_queue_env) \<mapsto> (t, qp_cache p'))"
    unfolding Let_def is_ok_simps by blast
  then have "bk_objects (qp_store p') (queue_key ''main'') = Some (t, qp_cache p')" by (simp add: example_queue_env_def)
  with r show ?thesis unfolding cancel_def by blast
qed

definition example_fleet_pod :: "string \<Rightarrow> string \<Rightarrow> string \<Rightarrow> int \<Rightarrow> pod" where
  "example_fleet_pod i start life epoch = requested_pod example_scope i ''img'' ''RUNNING''
     (case scope_markers example_scope start (replicate 64 (CHR ''a'')) epoch None of Inr ms \<Rightarrow> ms | Inl _ \<Rightarrow> []) start life"

definition example_fleet :: "pod list" where
  "example_fleet = [example_fleet_pod ''p1'' example_start ''active'' 17, example_fleet_pod ''p2'' other_start ''pending'' 18]"

theorem excess_spec_witness:
  "map pd_id (excess (\<lambda>h. h) 1 example_fleet ''main'') = [''p2''] \<and>
   map pd_id (excess (\<lambda>h. h) 0 example_fleet ''main'') = [''p2'', ''p1''] \<and>
   filter (\<lambda>p. lifecycle p \<noteq> ''active'') (excess (\<lambda>h. h) 0 example_fleet ''main'') =
     filter (\<lambda>p. lifecycle p \<noteq> ''active'') (sort_key victim_key (counted_pods (\<lambda>h. h) example_fleet ''main''))"
proof -
  let ?p = "example_fleet_pod ''p1'' example_start ''active'' 17"
  have 1: "map pd_id (excess (\<lambda>h. h) 1 example_fleet ''main'') = [''p2'']" by code_simp
  have 2: "map pd_id (excess (\<lambda>h. h) 0 example_fleet ''main'') = [''p2'', ''p1'']" by code_simp
  have 3: "?p \<in> set (excess (\<lambda>h. h) 0 example_fleet ''main'')" "lifecycle ?p = ''active''" by code_simp+
  from excess_spec [of "\<lambda>h. h" 0 example_fleet "''main''" ?p] 1 2 3 show ?thesis by blast
qed

end
