(* ===== verification/Pricing.thy ===== *)
theory Pricing
  imports StateStore Submissions
begin

text \<open>
  Prices and accounting: Python's decimals as far as the code uses them, the shared model table and its
  publication (\<^verbatim>\<open>shared/subnet_common/witness/pricing.py\<close>), and the accounting of a prompt's calls
  (\<^verbatim>\<open>miner-runtime/src/miner_runtime/accounting.py\<close>). The JSON parser of the table is a parameter.
\<close>

section \<open>Decimals\<close>

text \<open>
  A finite decimal as its coefficient and exponent; results are rounded to 28 digits, ties to even, as in
  the default context.
\<close>

datatype dec = Dec int int

fun dec_value :: "dec \<Rightarrow> rat" where
  "dec_value (Dec c e) = of_int c * 10 powi e"

definition digits_of :: "int \<Rightarrow> nat" where
  "digits_of c = length (nat_digits (nat \<bar>c\<bar>))"

definition PREC :: nat where "PREC = 28"

fun dec_fix :: "dec \<Rightarrow> dec" where
  "dec_fix (Dec c e) =
     (if \<bar>c\<bar> < 10 ^ PREC then Dec c e
      else (let k = digits_of c - PREC; r = round_half_even (of_int c / 10 ^ k)
            in if \<bar>r\<bar> < 10 ^ PREC then Dec r (e + int k) else Dec (r div 10) (e + int k + 1)))"

fun dec_mult :: "dec \<Rightarrow> int \<Rightarrow> dec" where
  "dec_mult (Dec c e) n = dec_fix (Dec (c * n) e)"

fun dec_add :: "dec \<Rightarrow> dec \<Rightarrow> dec" where
  "dec_add (Dec c e) (Dec d f) =
     (let m = min e f in dec_fix (Dec (c * 10 ^ nat (e - m) + d * 10 ^ nat (f - m)) m))"

definition dec_eq :: "dec \<Rightarrow> dec \<Rightarrow> bool" where
  "dec_eq x y = (dec_value x = dec_value y)"

definition dec_sum :: "dec list \<Rightarrow> dec" where
  "dec_sum xs = fold (\<lambda>x a. dec_add a x) xs (Dec 0 0)"

text \<open>\<^verbatim>\<open>str(d)\<close> for a coefficient that is not negative.\<close>

fun dec_str :: "dec \<Rightarrow> string" where
  "dec_str (Dec c e) =
     (let ds = nat_digits (nat c); n = int (length ds); left = e + n;
          dot = (if e \<le> 0 \<and> - 6 < left then left else 1);
          whole = (if dot \<le> 0 then ''0'' else if n \<le> dot then ds @ replicate (nat (dot - n)) (CHR ''0'')
                   else take (nat dot) ds);
          frac = (if dot \<le> 0 then ''.'' @ replicate (nat (- dot)) (CHR ''0'') @ ds
                  else if n \<le> dot then [] else ''.'' @ drop (nat dot) ds)
      in whole @ frac @ (if left = dot then []
           else ''E'' @ (if left - dot < 0 then show_int (left - dot) else ''+'' @ show_int (left - dot))))"

lemma dec_fix_exact: "\<bar>c\<bar> < 10 ^ PREC \<Longrightarrow> dec_fix (Dec c e) = Dec c e"
  by simp

lemma dec_align:
  assumes "m \<le> e"
  shows "of_int (c * 10 ^ nat (e - m)) * 10 powi m = (of_int c * 10 powi e :: rat)"
proof -
  have "(10 :: rat) ^ nat (e - m) = 10 powi (e - m)" using assms by (simp add: power_int_def)
  then have "(10 :: rat) ^ nat (e - m) * 10 powi m = 10 powi e" by (simp flip: power_int_add)
  then show ?thesis by simp
qed

lemma dec_add_value:
  assumes "\<bar>c * 10 ^ nat (e - min e f) + d * 10 ^ nat (f - min e f)\<bar> < 10 ^ PREC"
  shows "dec_value (dec_add (Dec c e) (Dec d f)) = dec_value (Dec c e) + dec_value (Dec d f)"
proof -
  have "dec_value (dec_add (Dec c e) (Dec d f)) =
      of_int (c * 10 ^ nat (e - min e f) + d * 10 ^ nat (f - min e f)) * 10 powi min e f"
    using assms by (simp add: Let_def)
  then show ?thesis
    unfolding of_int_add distrib_right by (simp only: dec_align [OF min.cobounded1] dec_align [OF min.cobounded2] dec_value.simps)
qed

section \<open>The model table\<close>

record model_rates =
  input_credits_per_token :: dec
  output_credits_per_token :: dec
  long_input_credits_per_token :: dec
  long_output_credits_per_token :: dec
  mr_extra :: string

record model_table =
  calls_per_prompt :: int
  credits_per_prompt :: dec
  long_context_above_input_tokens :: int
  mt_models :: "(string, model_rates) dict"
  mt_checked_on :: "string option"
  mt_extra :: string

definition rates_eq :: "model_rates \<Rightarrow> model_rates \<Rightarrow> bool" where
  "rates_eq r q = (dec_eq (input_credits_per_token r) (input_credits_per_token q) \<and>
     dec_eq (output_credits_per_token r) (output_credits_per_token q) \<and>
     dec_eq (long_input_credits_per_token r) (long_input_credits_per_token q) \<and>
     dec_eq (long_output_credits_per_token r) (long_output_credits_per_token q) \<and> mr_extra r = mr_extra q)"

definition limits_eq :: "model_table \<Rightarrow> model_table \<Rightarrow> bool" where
  "limits_eq t u = (calls_per_prompt t = calls_per_prompt u \<and> dec_eq (credits_per_prompt t) (credits_per_prompt u) \<and>
     long_context_above_input_tokens t = long_context_above_input_tokens u \<and> mt_extra t = mt_extra u)"

definition same_rates :: "model_table \<Rightarrow> string \<Rightarrow> model_rates \<Rightarrow> bool" where
  "same_rates t m r = (case dget (mt_models t) m of None \<Rightarrow> False | Some q \<Rightarrow> rates_eq q r)"

definition require_extension :: "model_table \<Rightarrow> model_table \<Rightarrow> unit result" where
  "require_extension t previous =
     (if \<not> limits_eq t previous then Inl (ValueError ''Model table limits and configuration cannot change'')
      else if list_ex (\<lambda>(m, r). \<not> same_rates t m r) (mt_models previous)
      then Inl (ValueError ''Existing models and rates cannot change or be removed'')
      else Inr ())"

definition table_eq :: "model_table \<Rightarrow> model_table \<Rightarrow> bool" where
  "table_eq t u = (limits_eq t u \<and> mt_checked_on t = mt_checked_on u \<and>
     set (dkeys (mt_models t)) = set (dkeys (mt_models u)) \<and> list_all (\<lambda>(m, r). same_rates t m r) (mt_models u))"

definition pricing_key :: "string \<Rightarrow> string" where
  "pricing_key deployment = ''pod-pricing/v1/'' @ deployment @ ''.json''"

definition read_pricing :: "(string \<Rightarrow> ('s, string snapshot option) action) \<Rightarrow> string \<Rightarrow> ('s, string) action" where
  "read_pricing load deployment =
     act_bind (load (pricing_key deployment)) (\<lambda>sn.
       case sn of None \<Rightarrow> act_raise (ValueError ''Publish the shared model table before starting workers'')
       | Some x \<Rightarrow> act_return (sn_data x))"

definition publish_pricing :: "(string \<Rightarrow> model_table result) \<Rightarrow> (string \<Rightarrow> ('s, string snapshot option) action) \<Rightarrow>
    (string \<Rightarrow> string \<Rightarrow> string option \<Rightarrow> ('s, string snapshot) action) \<Rightarrow> string \<Rightarrow> string \<Rightarrow> ('s, unit) action" where
  "publish_pricing parse load save deployment pricing =
     act_bind (act_lift (parse pricing)) (\<lambda>table.
     act_bind (load (pricing_key deployment)) (\<lambda>sn.
       case sn of
         None \<Rightarrow> act_bind (save (pricing_key deployment) pricing None) (\<lambda>_. act_return ())
       | Some x \<Rightarrow>
           act_bind (act_lift (parse (sn_data x))) (\<lambda>previous.
           act_bind (act_lift (require_extension table previous)) (\<lambda>_.
             if table_eq table previous then act_return ()
             else act_bind (save (pricing_key deployment) pricing (Some (sn_etag x))) (\<lambda>_. act_return ())))))"

section \<open>Usage\<close>

text \<open>The credits of a verified usage; a usage that is absent has none.\<close>

definition token_count :: "(string \<times> json) list \<Rightarrow> string \<Rightarrow> int option" where
  "token_count u k = (case dget u k of Some (JInt n) \<Rightarrow> if 0 \<le> n then Some n else None | _ \<Rightarrow> None)"

definition usage_tokens :: "json \<Rightarrow> (int \<times> int) option" where
  "usage_tokens usage = (case usage of
     JObj u \<Rightarrow>
       (case (token_count u ''input_tokens'', token_count u ''output_tokens'') of
          (Some i, Some out) \<Rightarrow>
            (case dget u ''total_tokens'' of
               None \<Rightarrow> Some (i, out)
             | Some t \<Rightarrow> if json_eq t (JInt (i + out)) then Some (i, out) else None)
        | _ \<Rightarrow> None)
   | _ \<Rightarrow> None)"

definition token_credits :: "model_table \<Rightarrow> model_rates \<Rightarrow> int \<Rightarrow> int \<Rightarrow> dec" where
  "token_credits t r i out =
     (if long_context_above_input_tokens t < i
      then dec_sum [dec_mult (long_input_credits_per_token r) i, dec_mult (long_output_credits_per_token r) out]
      else dec_sum [dec_mult (input_credits_per_token r) i, dec_mult (output_credits_per_token r) out])"

definition usage_credits :: "model_table \<Rightarrow> string \<Rightarrow> json \<Rightarrow> dec option result" where
  "usage_credits t model usage =
     (if usage = JNull then Inr None
      else (case usage_tokens usage of
              None \<Rightarrow> Inl (BudgetRejected ''Invalid verified token usage'')
            | Some (i, out) \<Rightarrow>
                (case dget (mt_models t) model of
                   None \<Rightarrow> Inl (BudgetRejected ''Unknown priced model'')
                 | Some r \<Rightarrow> Inr (Some (token_credits t r i out)))))"

section \<open>The budget of a prompt\<close>

type_synonym prompt_charges = "(string, dec option) dict"

definition consume :: "model_table \<Rightarrow> string \<Rightarrow> string \<Rightarrow> json \<Rightarrow> bool \<Rightarrow> prompt_charges \<Rightarrow> prompt_charges result" where
  "consume t call_id model usage not_dispatched charges =
     (if dhas charges call_id \<or> not_dispatched then Inr charges
      else rmap (\<lambda>c. dset call_id c charges) (usage_credits t model usage))"

definition accept :: "model_table \<Rightarrow> prompt_charges \<Rightarrow> unit result" where
  "accept t charges =
     (if list_ex (\<lambda>v. v = None) (dvalues charges) then Inl (BudgetRejected ''Consumed call has unknown usage'')
      else (let total = dec_sum (map the (dvalues charges))
            in if calls_per_prompt t < int (length charges) \<or> dec_value (credits_per_prompt t) < dec_value total
               then Inl (BudgetRejected ''Replayed prompt exceeds its frozen budget'')
               else Inr ()))"

text \<open>A replay consumes its calls one by one and is then accepted or not.\<close>

record replayed_call =
  rc_id :: string
  rc_model :: string
  rc_usage :: json
  rc_not_dispatched :: bool

fun consume_all :: "model_table \<Rightarrow> replayed_call list \<Rightarrow> prompt_charges \<Rightarrow> prompt_charges result" where
  "consume_all t [] charges = Inr charges"
| "consume_all t (c # cs) charges =
     rbind (consume t (rc_id c) (rc_model c) (rc_usage c) (rc_not_dispatched c) charges) (consume_all t cs)"

section \<open>Exact credits\<close>

lemma dec_mult_exact: "\<bar>c * n\<bar> < 10 ^ PREC \<Longrightarrow> dec_mult (Dec c e) n = Dec (c * n) e"
  by simp

lemma aligned_le:
  fixes x :: int
  assumes "m \<le> m1" "m1 \<le> e"
  shows "\<bar>x * 10 ^ nat (e - m1)\<bar> \<le> \<bar>x\<bar> * 10 ^ nat (e - m)"
proof -
  have "(10 :: int) ^ nat (e - m1) \<le> 10 ^ nat (e - m)" using assms by (intro power_increasing) auto
  then have "\<bar>x\<bar> * 10 ^ nat (e - m1) \<le> \<bar>x\<bar> * 10 ^ nat (e - m)" by (intro mult_left_mono) auto
  then show ?thesis by (simp add: abs_mult)
qed

lemma dec_sum_two_value:
  assumes "m = min 0 (min e f)" "\<bar>x\<bar> * 10 ^ nat (e - m) + \<bar>y\<bar> * 10 ^ nat (f - m) < 10 ^ PREC"
  shows "dec_value (dec_sum [Dec x e, Dec y f]) = dec_value (Dec x e) + dec_value (Dec y f)"
proof -
  let ?m1 = "min 0 e"
  have m: "m \<le> ?m1" "m = min ?m1 f" using assms(1) by auto
  have x: "\<bar>x * 10 ^ nat (e - ?m1)\<bar> \<le> \<bar>x\<bar> * 10 ^ nat (e - m)" by (rule aligned_le [OF m(1)]) simp
  have "0 \<le> \<bar>y\<bar> * 10 ^ nat (f - m)" by simp
  with x assms(2) have "\<bar>x * 10 ^ nat (e - ?m1)\<bar> < 10 ^ PREC" by linarith
  then have b1: "\<bar>0 * 10 ^ nat (0 - ?m1) + x * 10 ^ nat (e - ?m1)\<bar> < 10 ^ PREC" by simp
  note v1 = dec_add_value [OF b1]
  have a1: "dec_add (Dec 0 0) (Dec x e) = Dec (x * 10 ^ nat (e - ?m1)) ?m1"
    using b1 by (simp add: Let_def)
  have "nat (e - ?m1) + nat (?m1 - m) = nat (e - m)" using m(1) by auto
  then have x2: "x * 10 ^ nat (e - ?m1) * 10 ^ nat (?m1 - m) = x * 10 ^ nat (e - m)"
    by (metis mult.assoc power_add)
  have "\<bar>x * 10 ^ nat (e - ?m1) * 10 ^ nat (?m1 - min ?m1 f) + y * 10 ^ nat (f - min ?m1 f)\<bar> \<le>
      \<bar>x * 10 ^ nat (e - m)\<bar> + \<bar>y * 10 ^ nat (f - m)\<bar>"
    unfolding m(2) [symmetric] x2 by (rule abs_triangle_ineq)
  also have "\<dots> < 10 ^ PREC" using assms(2) by (simp add: abs_mult)
  finally have b2: "\<bar>x * 10 ^ nat (e - ?m1) * 10 ^ nat (?m1 - min ?m1 f) + y * 10 ^ nat (f - min ?m1 f)\<bar> < 10 ^ PREC" .
  have "dec_sum [Dec x e, Dec y f] = dec_add (Dec (x * 10 ^ nat (e - ?m1)) ?m1) (Dec y f)"
    unfolding dec_sum_def fold_simps comp_apply id_apply a1 ..
  then show ?thesis
    using dec_add_value [OF b2] v1 unfolding a1 by (simp only: dec_value.simps)
qed

definition small_product :: "dec \<Rightarrow> int \<Rightarrow> dec \<Rightarrow> int \<Rightarrow> bool" where
  "small_product r n q k = (case (r, q) of (Dec a e, Dec b f) \<Rightarrow>
     (let m = min 0 (min e f)
      in \<bar>a * n\<bar> * 10 ^ nat (e - m) + \<bar>b * k\<bar> * 10 ^ nat (f - m) < 10 ^ PREC))"

text \<open>
  The credits of a call are exact: they are the input tokens times the input rate plus the output
  tokens times the output rate, at the long rates exactly when the input exceeds the threshold, with
  no rounding as long as the aligned products stay within 28 digits.
\<close>

theorem usage_credits_exact:
  assumes "usage_credits t model usage = Inr (Some c)" "dget (mt_models t) model = Some r"
    "usage_tokens usage = Some (i, out)"
    "(rin, rout) = (if long_context_above_input_tokens t < i
       then (long_input_credits_per_token r, long_output_credits_per_token r)
       else (input_credits_per_token r, output_credits_per_token r))"
    "small_product rin i rout out"
  shows "dec_value c = dec_value rin * of_int i + dec_value rout * of_int out"
proof -
  obtain a e b f where r: "rin = Dec a e" "rout = Dec b f" by (metis dec.exhaust)
  let ?m = "min 0 (min e f)"
  from assms(5) have b: "\<bar>a * i\<bar> * 10 ^ nat (e - ?m) + \<bar>b * out\<bar> * 10 ^ nat (f - ?m) < 10 ^ PREC"
    by (simp add: small_product_def r Let_def)
  have "\<bar>a * i\<bar> * 1 \<le> \<bar>a * i\<bar> * 10 ^ nat (e - ?m)" "\<bar>b * out\<bar> * 1 \<le> \<bar>b * out\<bar> * 10 ^ nat (f - ?m)"
    by (intro mult_left_mono; simp)+
  moreover have "0 \<le> \<bar>a * i\<bar> * 10 ^ nat (e - ?m)" "0 \<le> \<bar>b * out\<bar> * 10 ^ nat (f - ?m)" by simp_all
  ultimately have "\<bar>a * i\<bar> < 10 ^ PREC" "\<bar>b * out\<bar> < 10 ^ PREC" using b by linarith+
  then have p: "dec_mult rin i = Dec (a * i) e" "dec_mult rout out = Dec (b * out) f"
    unfolding r by (simp_all only: dec_mult_exact)
  have "usage \<noteq> JNull" using assms(3) by (auto simp: usage_tokens_def)
  with assms(1-4) have "c = dec_sum [dec_mult rin i, dec_mult rout out]"
    by (auto simp: usage_credits_def token_credits_def split: if_splits)
  then have "dec_value c = dec_value (dec_sum [Dec (a * i) e, Dec (b * out) f])" by (simp only: p)
  also have "\<dots> = dec_value (Dec (a * i) e) + dec_value (Dec (b * out) f)" by (rule dec_sum_two_value [OF refl b])
  finally show ?thesis by (simp add: r)
qed

section \<open>Published rates are final\<close>

text \<open>A write that publishing may issue on what it has read.\<close>

definition publishes :: "(string \<Rightarrow> model_table result) \<Rightarrow> string option \<Rightarrow> string \<Rightarrow> bool" where
  "publishes parse v pricing = (\<exists>t. parse pricing = Inr t \<and>
     (case v of None \<Rightarrow> True | Some p \<Rightarrow> \<exists>previous. parse p = Inr previous \<and> require_extension t previous = Inr ()))"

lemma publish_pricing_writes:
  assumes "cas_store obj load save" "publish_pricing parse load save deployment pricing s = (r, s')"
  shows "obj s' = obj s \<or> (publishes parse (data_at (obj s) (pricing_key deployment)) pricing \<and>
    (\<exists>e. obj s' = (obj s)(pricing_key deployment \<mapsto> (e, pricing))))"
proof -
  let ?k = "pricing_key deployment"
  show ?thesis
  proof (cases "parse pricing")
    case (Inl e)
    with assms(2) show ?thesis by (simp add: publish_pricing_def act_bind_def act_simps)
  next
    case t: (Inr t)
    obtain l s1 where l: "load ?k s = (l, s1)" by force
    note f = cas_store.load_frame [OF assms(1) l]
    have w: "obj s2 = obj s \<or> (\<exists>e. obj s2 = (obj s)(?k \<mapsto> (e, pricing)))" if "save ?k pricing x s1 = (y, s2)" for x y s2
      using cas_store.save_frame [OF assms(1) that] unfolding f put_applied_def by blast
    show ?thesis
    proof (cases l)
      case (Inl e)
      with assms(2) t l f show ?thesis by (simp add: publish_pricing_def act_bind_def act_simps)
    next
      case (Inr sn)
      from cas_store.load_found [OF assms(1) l [unfolded Inr]]
      have v: "data_at (obj s) ?k = map_option sn_data sn" by (cases sn) (simp_all add: data_at_def)
      show ?thesis
      proof (cases sn)
        case None
        obtain y s2 where y: "save ?k pricing None s1 = (y, s2)" by force
        with assms(2) t l Inr None have "s' = s2"
          by (auto simp: publish_pricing_def act_bind_def act_simps split: sum.splits)
        with w [OF y] t v None show ?thesis by (auto simp: publishes_def)
      next
        case (Some x)
        obtain y s2 where y: "save ?k pricing (Some (sn_etag x)) s1 = (y, s2)" by force
        from assms(2) t l Inr Some y f consider "obj s' = obj s"
          | previous where "s' = s2" "parse (sn_data x) = Inr previous" "require_extension t previous = Inr ()"
          by (cases "parse (sn_data x)")
            (auto simp: publish_pricing_def act_bind_def act_simps split: sum.splits if_splits)
        then show ?thesis using w [OF y] t v Some by cases (auto simp: publishes_def)
      qed
    qed
  qed
qed

lemma rates_eq_trans: "rates_eq a b \<Longrightarrow> rates_eq b c \<Longrightarrow> rates_eq a c"
  by (simp add: rates_eq_def dec_eq_def)

lemma extension_same_rates:
  assumes "require_extension t p = Inr ()" "same_rates p m r"
  shows "same_rates t m r"
proof -
  from assms(2) obtain q where q: "dget (mt_models p) m = Some q" "rates_eq q r"
    by (auto simp: same_rates_def split: option.splits)
  have "same_rates t m q"
    using assms(1) dget_mem [OF q(1)] by (auto simp: require_extension_def list_ex_iff split: if_splits)
  with q(2) show ?thesis by (auto simp: same_rates_def split: option.splits intro: rates_eq_trans)
qed

text \<open>
  A published rate is final: under any interleaving of publications, however late their writes
  arrive, every later table has the model with the same rates and the same limits.
\<close>

theorem published_rates_final:
  assumes "(cell_step (publishes parse))\<^sup>*\<^sup>* (empty_cell (Some p)) cell" "parse p = Inr t"
    "dget (mt_models t) m = Some r"
  shows "\<exists>q u. ce_value cell = Some q \<and> parse q = Inr u \<and> limits_eq u t \<and> same_rates u m r"
proof -
  let ?P = "\<lambda>v. \<exists>q u. v = Some q \<and> parse q = Inr u \<and> limits_eq u t \<and> same_rates u m r"
  have "?P (Some p)" using assms(2,3) by (auto simp: limits_eq_def dec_eq_def same_rates_def rates_eq_def)
  moreover have "?P (Some d)" if "?P v" "publishes parse v d" for v d
  proof -
    from that obtain q u d' where "v = Some q" "parse q = Inr u" "limits_eq u t" "same_rates u m r"
      and d: "parse d = Inr d'" "require_extension d' u = Inr ()" by (auto simp: publishes_def)
    moreover from d(2) have "limits_eq d' u" by (auto simp: require_extension_def split: if_splits)
    ultimately have "limits_eq d' t" "same_rates d' m r"
      using extension_same_rates by (auto simp: limits_eq_def dec_eq_def)
    with d(1) show ?thesis by blast
  qed
  ultimately show ?thesis by (rule cell_invariant [OF assms(1), of ?P])
qed

section \<open>The budget of a replay\<close>

definition charged_call :: "replayed_call list \<Rightarrow> string \<Rightarrow> replayed_call option" where
  "charged_call cs i = find_first (\<lambda>c. rc_id c = i \<and> \<not> rc_not_dispatched c) cs"

lemma consume_all_get:
  "consume_all t cs charges = Inr charges' \<Longrightarrow> dget charges' i =
     (case dget charges i of Some x \<Rightarrow> Some x
      | None \<Rightarrow> (case charged_call cs i of None \<Rightarrow> None
          | Some c \<Rightarrow> (case usage_credits t (rc_model c) (rc_usage c) of Inl _ \<Rightarrow> None | Inr x \<Rightarrow> Some x)))"
proof (induction cs arbitrary: charges)
  case Nil
  then show ?case by (auto simp: charged_call_def split: option.splits)
next
  case (Cons c cs)
  from Cons.prems obtain ch where c: "consume t (rc_id c) (rc_model c) (rc_usage c) (rc_not_dispatched c) charges = Inr ch"
    and r: "consume_all t cs ch = Inr charges'" by (auto simp: rbind_eq_Inr)
  from Cons.IH [OF r] c show ?case
    by (auto simp: consume_def charged_call_def dhas_def rmap_eq_Inr split: option.splits if_splits)
qed

lemma consume_all_ok: "consume_all t cs charges = Inr charges' \<Longrightarrow> dict_ok charges \<Longrightarrow> dict_ok charges'"
  by (induction cs arbitrary: charges)
    (auto simp: consume_def rbind_eq_Inr rmap_eq_Inr simp del: set_map split: if_splits)

text \<open>
  A replay is charged for each call identifier once, with the usage of its first dispatched
  occurrence, and is accepted exactly when every charge is known, the calls are no more than allowed
  and their credits do not exceed the prompt's.
\<close>

theorem replay_budget_spec:
  assumes "consume_all t cs [] = Inr charges"
  shows "dict_ok charges \<and>
    (\<forall>i. dget charges i = (case charged_call cs i of None \<Rightarrow> None
       | Some c \<Rightarrow> (case usage_credits t (rc_model c) (rc_usage c) of Inl _ \<Rightarrow> None | Inr x \<Rightarrow> Some x))) \<and>
    (accept t charges = Inr () \<longleftrightarrow>
      (\<forall>i. dget charges i \<noteq> Some None) \<and> int (length charges) \<le> calls_per_prompt t \<and>
      dec_value (dec_sum (map the (dvalues charges))) \<le> dec_value (credits_per_prompt t))"
proof -
  have ok: "dict_ok charges" using consume_all_ok [OF assms] by simp
  have "None \<in> set (dvalues charges) \<longleftrightarrow> (\<exists>i. (i, None) \<in> set charges)" by force
  also have "\<dots> \<longleftrightarrow> (\<exists>i. dget charges i = Some None)" using dget_of_mem [OF ok] dget_mem by metis
  finally have "None \<in> set (dvalues charges) \<longleftrightarrow> (\<exists>i. dget charges i = Some None)" .
  then have n: "list_ex (\<lambda>v. v = None) (dvalues charges) \<longleftrightarrow> (\<exists>i. dget charges i = Some None)"
    by (simp add: list_ex_iff)
  have "accept t charges = Inr () \<longleftrightarrow> (\<forall>i. dget charges i \<noteq> Some None) \<and> int (length charges) \<le> calls_per_prompt t \<and>
      dec_value (dec_sum (map the (dvalues charges))) \<le> dec_value (credits_per_prompt t)"
    unfolding accept_def n by (auto simp: Let_def)
  with ok consume_all_get [OF assms] show ?thesis by simp
qed

section \<open>Examples\<close>

definition example_rates :: model_rates where
  "example_rates = \<lparr>input_credits_per_token = Dec 25 (- 7), output_credits_per_token = Dec 1 (- 5),
     long_input_credits_per_token = Dec 5 (- 6), long_output_credits_per_token = Dec 2 (- 5), mr_extra = []\<rparr>"

definition example_table :: model_table where
  "example_table = \<lparr>calls_per_prompt = 2, credits_per_prompt = Dec 1 0, long_context_above_input_tokens = 200000,
     mt_models = [(''m'', example_rates)], mt_checked_on = None, mt_extra = []\<rparr>"

definition example_usage :: "int \<Rightarrow> int \<Rightarrow> json" where
  "example_usage i out = JObj [(''input_tokens'', JInt i), (''output_tokens'', JInt out), (''total_tokens'', JInt (i + out))]"

lemma example_credits:
  "usage_credits example_table ''m'' (example_usage 1000 10) = Inr (Some (Dec 26000 (- 7)))"
  by code_simp

theorem usage_credits_exact_witness:
  "dec_value (Dec 26000 (- 7)) = dec_value (Dec 25 (- 7)) * of_int 1000 + dec_value (Dec 1 (- 5)) * of_int 10"
proof -
  have "dget (mt_models example_table) ''m'' = Some example_rates" by (simp add: example_table_def)
  moreover have "usage_tokens (example_usage 1000 10) = Some (1000, 10)" by code_simp
  moreover have "(Dec 25 (- 7), Dec 1 (- 5)) = (if long_context_above_input_tokens example_table < 1000
      then (long_input_credits_per_token example_rates, long_output_credits_per_token example_rates)
      else (input_credits_per_token example_rates, output_credits_per_token example_rates))"
    by (simp add: example_table_def example_rates_def)
  moreover have "small_product (Dec 25 (- 7)) 1000 (Dec 1 (- 5)) 10" by code_simp
  ultimately show ?thesis by (rule usage_credits_exact [OF example_credits])
qed

definition extended_table :: model_table where
  "extended_table = example_table\<lparr>mt_models := [(''m'', example_rates), (''n'', example_rates)]\<rparr>"

definition example_parse :: "string \<Rightarrow> model_table result" where
  "example_parse s = (if s = ''v1'' then Inr example_table else if s = ''v2'' then Inr extended_table
     else Inl (ValidationError ''model table''))"

theorem published_rates_final_witness:
  "\<exists>cell u. (cell_step (publishes example_parse))\<^sup>*\<^sup>* (empty_cell (Some ''v1'')) cell \<and> ce_value cell = Some ''v2'' \<and>
     example_parse ''v2'' = Inr u \<and> same_rates u ''m'' example_rates"
proof -
  have "require_extension extended_table example_table = Inr ()" by code_simp
  then have "publishes example_parse (ce_value (empty_cell (Some ''v1''))) ''v2''"
    by (simp add: publishes_def empty_cell_def example_parse_def)
  from cell_write [of "publishes example_parse", OF rtranclp.rtrancl_refl, OF this] obtain cell where
    run: "(cell_step (publishes example_parse))\<^sup>*\<^sup>* (empty_cell (Some ''v1'')) cell" and v: "ce_value cell = Some ''v2''"
    by blast
  have "example_parse ''v1'' = Inr example_table" "dget (mt_models example_table) ''m'' = Some example_rates"
    by (simp_all add: example_parse_def example_table_def)
  from published_rates_final [OF run this] run v show ?thesis by auto
qed

definition example_replay :: "replayed_call list" where
  "example_replay =
     [\<lparr>rc_id = ''a'', rc_model = ''m'', rc_usage = example_usage 1000 10, rc_not_dispatched = False\<rparr>,
      \<lparr>rc_id = ''b'', rc_model = ''m'', rc_usage = JNull, rc_not_dispatched = True\<rparr>,
      \<lparr>rc_id = ''a'', rc_model = ''m'', rc_usage = example_usage 7 7, rc_not_dispatched = False\<rparr>]"

theorem replay_budget_spec_witness:
  "\<exists>charges. consume_all example_table example_replay [] = Inr charges \<and>
     dget charges ''a'' = Some (Some (Dec 26000 (- 7))) \<and> dget charges ''b'' = None \<and> accept example_table charges = Inr ()"
proof -
  have c: "consume_all example_table example_replay [] = Inr [(''a'', Some (Dec 26000 (- 7)))]" by code_simp
  have "dec_value (dec_sum [Dec 26000 (- 7)]) \<le> dec_value (credits_per_prompt example_table)" by code_simp
  moreover have "int 1 \<le> calls_per_prompt example_table" by (simp add: example_table_def)
  ultimately have "accept example_table [(''a'', Some (Dec 26000 (- 7)))] = Inr ()"
    using conjunct2 [OF conjunct2 [OF replay_budget_spec [OF c]]] by simp
  with c show ?thesis by simp
qed

end
