(* ===== verification/Budget.thy ===== *)
theory Budget
  imports CallRecords Pricing
begin

text \<open>
  The fence in front of the model provider, \<^verbatim>\<open>witness_pod/budget.py\<close>: a ledger for a call, in which a
  dispatch is entered before it is made and settled with the verified usage after. The digest and the
  JSON parser of a request, the hash of the pricing and random revisions are parameters.
\<close>

datatype charge_state = Possible | Settled | Unknown

record charge =
  ch_exchange :: string
  ch_model :: string
  ch_state :: charge_state
  ch_credits :: "string option"
  ch_usage :: "(int \<times> int) option"

record ledger =
  lg_revision :: string
  lg_scope_key :: string
  lg_pricing :: string
  lg_charges :: "(string, charge) dict"

definition new_charge :: "string \<Rightarrow> string \<Rightarrow> charge" where
  "new_charge exchange model = \<lparr>ch_exchange = exchange, ch_model = model, ch_state = Possible, ch_credits = None, ch_usage = None\<rparr>"

text \<open>The budget of a process: its rates may be refreshed from the shared table.\<close>

record 's budget =
  bd_store :: 's
  bd_rates :: model_table
  bd_hash :: string

record 's budget_env =
  be_load :: "string \<Rightarrow> ('s, ledger snapshot option) action"
  be_save :: "string \<Rightarrow> ledger \<Rightarrow> string option \<Rightarrow> ('s, ledger snapshot) action"
  be_refresh :: "('s, string) action option"
  be_parse :: "string \<Rightarrow> model_table result"
  be_sha :: "string \<Rightarrow> string"
  be_id :: "request_key \<Rightarrow> string"
  be_digest :: "string \<Rightarrow> string result"
  be_request :: "string \<Rightarrow> json result"
  be_uuid :: "nat \<Rightarrow> nat \<Rightarrow> string"

definition new_budget :: "'s budget_env \<Rightarrow> string \<Rightarrow> 's \<Rightarrow> 's budget result" where
  "new_budget env pricing s = rmap (\<lambda>t. \<lparr>bd_store = s, bd_rates = t, bd_hash = be_sha env pricing\<rparr>) (be_parse env pricing)"

definition b_store :: "('s, 'a) action \<Rightarrow> ('s budget, 'a) action" where
  "b_store m b = (case m (bd_store b) of (r, s') \<Rightarrow> (r, b\<lparr>bd_store := s'\<rparr>))"

text \<open>A model that is not a string is no model; a list or a dictionary cannot even be looked up.\<close>

definition model_name :: "json option \<Rightarrow> string option result" where
  "model_name m = (case m of None \<Rightarrow> Inr None | Some (JStr s) \<Rightarrow> Inr (Some s)
     | Some (JList _) \<Rightarrow> Inl (PyException ''TypeError'') | Some (JObj _) \<Rightarrow> Inl (PyException ''TypeError'')
     | Some _ \<Rightarrow> Inr None)"

definition priced :: "model_table \<Rightarrow> string option \<Rightarrow> bool" where
  "priced t m = (case m of None \<Rightarrow> False | Some x \<Rightarrow> dhas (mt_models t) x)"

definition require_model :: "'s budget_env \<Rightarrow> string option \<Rightarrow> ('s budget, unit) action" where
  "require_model env model =
     act_bind (act_get bd_rates) (\<lambda>t.
     act_bind (case be_refresh env of
         Some refresh \<Rightarrow>
           if priced t model then act_return ()
           else
             act_bind (b_store refresh) (\<lambda>pricing.
             act_bind (act_lift (be_parse env pricing)) (\<lambda>updated.
             act_bind (act_lift (require_extension updated t)) (\<lambda>_.
               act_modify (\<lambda>b. b\<lparr>bd_rates := updated, bd_hash := be_sha env pricing\<rparr>))))
       | None \<Rightarrow> act_return ()) (\<lambda>_.
     act_bind (act_get bd_rates) (\<lambda>t.
       if priced t model then act_return () else act_raise (BudgetRejected ''Unknown priced model''))))"

definition ledger_key :: "'s budget_env \<Rightarrow> scope \<Rightarrow> request_key \<Rightarrow> string" where
  "ledger_key env s invocation =
     ''pod-usage/v2/'' @ sc_deployment s @ ''/'' @ sc_round s @ ''/'' @ sc_hotkey s @ ''/'' @ be_id env invocation @ ''.json''"

definition fresh_ledger :: "scope \<Rightarrow> string \<Rightarrow> string \<Rightarrow> ledger" where
  "fresh_ledger s pricing revision = \<lparr>lg_revision = revision, lg_scope_key = scope_key s, lg_pricing = pricing, lg_charges = []\<rparr>"

definition load_ledger :: "'s budget_env \<Rightarrow> scope \<Rightarrow> request_key \<Rightarrow> nat \<Rightarrow> ('s budget, ledger \<times> string option) action" where
  "load_ledger env s invocation n =
     act_bind (b_store (be_load env (ledger_key env s invocation))) (\<lambda>sn.
     act_bind (act_get bd_hash) (\<lambda>pricing.
       let l = (case sn of None \<Rightarrow> fresh_ledger s pricing (be_uuid env 0 n) | Some x \<Rightarrow> sn_data x)
       in if lg_scope_key l \<noteq> scope_key s then act_raise (BudgetRejected ''Call ledger identity changed'')
          else act_return (l, map_option sn_etag sn)))"

definition save_ledger :: "'s budget_env \<Rightarrow> scope \<Rightarrow> request_key \<Rightarrow> nat \<Rightarrow> ledger \<Rightarrow> string option \<Rightarrow> ('s budget, unit) action" where
  "save_ledger env s invocation n l etag =
     act_bind (b_store (be_save env (ledger_key env s invocation) (l\<lparr>lg_revision := be_uuid env 1 n\<rparr>) etag)) (\<lambda>_. act_return ())"

definition is_conflict :: "exn \<Rightarrow> bool" where
  "is_conflict e = (case e of StateConflict _ \<Rightarrow> True | _ \<Rightarrow> False)"

definition is_rejected_write :: "exn \<Rightarrow> bool" where
  "is_rejected_write e = (case e of WriteRejected _ \<Rightarrow> True | _ \<Rightarrow> False)"

definition is_budget_rejected :: "exn \<Rightarrow> bool" where
  "is_budget_rejected e = (case e of BudgetRejected _ \<Rightarrow> True | BudgetNotReserved _ \<Rightarrow> True | _ \<Rightarrow> False)"

text \<open>\<^verbatim>\<open>reserve\<close>: its loop, whose argument counts the attempts left, and the checks before it.\<close>

definition reserve_ledger :: "string \<Rightarrow> string \<Rightarrow> string \<Rightarrow> ledger \<Rightarrow> ledger result" where
  "reserve_ledger base exchange model l =
     (if dhas (lg_charges l) base then Inl (BudgetRejected ''This call already has a possible dispatch'')
      else Inr (l\<lparr>lg_charges := dset base (new_charge exchange model) (lg_charges l)\<rparr>))"

fun reserve_loop :: "'s budget_env \<Rightarrow> scope \<Rightarrow> request_key \<Rightarrow> string \<Rightarrow> string \<Rightarrow> nat \<Rightarrow> ('s budget, unit) action" where
  "reserve_loop env s invocation exchange model 0 b = (Inl (BudgetNotReserved ''ledger_busy''), b)"
| "reserve_loop env s invocation exchange model (Suc n) b =
     (case load_ledger env s invocation n b of
        (Inl e, b1) \<Rightarrow> (Inl (BudgetNotReserved ''ledger_read_failed''), b1)
      | (Inr (l, etag), b1) \<Rightarrow>
          (case reserve_ledger (be_id env invocation) exchange model l of
             Inl e \<Rightarrow> (Inl e, b1)
           | Inr l' \<Rightarrow>
               (case save_ledger env s invocation n l' etag b1 of
                  (Inr _, b2) \<Rightarrow> (Inr (), b2)
                | (Inl e, b2) \<Rightarrow>
                    if is_conflict e then reserve_loop env s invocation exchange model n b2
                    else if is_rejected_write e then (Inl (BudgetNotReserved ''ledger_write_rejected''), b2)
                    else (Inl e, b2))))"

definition reserve_call :: "'s budget_env \<Rightarrow> scope \<Rightarrow> request_key \<Rightarrow> string \<Rightarrow> string \<Rightarrow> ('s budget, unit) action" where
  "reserve_call env s invocation exchange body b =
     (case be_digest env body of
        Inl e \<Rightarrow> (Inl e, b)
      | Inr d \<Rightarrow>
          if d \<noteq> rk_sha invocation then (Inl (BudgetNotReserved ''request_hash_mismatch''), b)
          else (case be_request env body of
                  Inr (JObj request) \<Rightarrow>
                    if dget request ''service_tier'' = Some (JStr ''flex'')
                    then (Inl (BudgetNotReserved ''unsupported_service_tier''), b)
                    else (case act_bind (act_lift (model_name (dget request ''model'')))
                                 (\<lambda>m. act_bind (require_model env m) (\<lambda>_. act_return m)) b of
                            (Inl e, b1) \<Rightarrow> (Inl (BudgetNotReserved
                               (if is_budget_rejected e then ''unsupported_model'' else ''pricing_unavailable'')), b1)
                          | (Inr None, b1) \<Rightarrow> (Inl AssertionError, b1)
                          | (Inr (Some model), b1) \<Rightarrow> reserve_loop env s invocation exchange model 16 b1)
                | Inr _ \<Rightarrow> (Inl (PyException ''AttributeError''), b)
                | Inl e \<Rightarrow> (Inl e, b)))"

text \<open>\<^verbatim>\<open>discard\<close>: nothing is written when the call is charged to another exchange.\<close>

definition discard_ledger :: "string \<Rightarrow> string \<Rightarrow> ledger \<Rightarrow> ledger option" where
  "discard_ledger base exchange l =
     (if (case dget (lg_charges l) base of None \<Rightarrow> False | Some c \<Rightarrow> ch_exchange c \<noteq> exchange) then None
      else Some (l\<lparr>lg_charges := filter (\<lambda>(k, c). ch_exchange c \<noteq> exchange) (lg_charges l)\<rparr>))"

fun discard_loop :: "'s budget_env \<Rightarrow> scope \<Rightarrow> request_key \<Rightarrow> string \<Rightarrow> nat \<Rightarrow> ('s budget, unit) action" where
  "discard_loop env s invocation exchange 0 b = (Inl (StateConflict ''Call ledger is busy''), b)"
| "discard_loop env s invocation exchange (Suc n) b =
     (case load_ledger env s invocation n b of
        (Inl e, b1) \<Rightarrow> (Inl e, b1)
      | (Inr (l, etag), b1) \<Rightarrow>
          (case discard_ledger (be_id env invocation) exchange l of
             None \<Rightarrow> (Inr (), b1)
           | Some l' \<Rightarrow>
               (case save_ledger env s invocation n l' etag b1 of
                  (Inr _, b2) \<Rightarrow> (Inr (), b2)
                | (Inl e, b2) \<Rightarrow> if is_conflict e then discard_loop env s invocation exchange n b2 else (Inl e, b2))))"

definition discard :: "'s budget_env \<Rightarrow> scope \<Rightarrow> request_key \<Rightarrow> string \<Rightarrow> ('s budget, unit) action" where
  "discard env s invocation exchange = discard_loop env s invocation exchange 16"

text \<open>
  \<^verbatim>\<open>settle\<close>: the usage is checked, then the charge is found, priced and closed. The result of the decision is
  the charge to write, or an early return.
\<close>

definition normalized_usage :: "json \<Rightarrow> (int \<times> int) option result" where
  "normalized_usage usage =
     (if usage = JNull then Inr None
      else (case usage of
              JObj u \<Rightarrow>
                (case (token_count u ''input_tokens'', token_count u ''output_tokens'') of
                   (Some i, Some out) \<Rightarrow>
                     (case dget u ''total_tokens'' of
                        None \<Rightarrow> Inr (Some (i, out))
                      | Some t \<Rightarrow> if json_eq t (JInt (i + out)) then Inr (Some (i, out))
                                  else Inl (BudgetRejected ''Inconsistent verified token counts''))
                 | _ \<Rightarrow> Inl (BudgetRejected ''Invalid verified token counts''))
            | _ \<Rightarrow> Inl (BudgetRejected ''Invalid verified token usage'')))"

definition find_charge :: "ledger \<Rightarrow> string \<Rightarrow> string option \<Rightarrow> (int \<times> int) option \<Rightarrow> (string \<times> charge) option result" where
  "find_charge l base exchange_id normalized =
     (case dget (lg_charges l) base of
        None \<Rightarrow> if normalized \<noteq> None then Inl (BudgetRejected ''Usage has no reserved dispatch'') else Inr None
      | Some c \<Rightarrow>
          (case exchange_id of
             None \<Rightarrow> Inr (Some (base, c))
           | Some x \<Rightarrow>
               if ch_exchange c = x then Inr (Some (base, c))
               else (case dget (lg_charges l) x of
                       None \<Rightarrow> if normalized = None then Inr None
                               else Inl (BudgetRejected ''Settlement belongs to a different capture attempt'')
                     | Some c' \<Rightarrow> if ch_exchange c' = x then Inr (Some (x, c'))
                                   else Inl (BudgetRejected ''Settlement belongs to a different capture attempt''))))"

definition usage_value :: "int \<times> int \<Rightarrow> json" where
  "usage_value u = JObj [(''input_tokens'', JInt (fst u)), (''output_tokens'', JInt (snd u))]"

definition price :: "'s budget_env \<Rightarrow> charge \<Rightarrow> (int \<times> int) option \<Rightarrow> ('s budget, string option) action" where
  "price env c normalized =
     (case normalized of
        None \<Rightarrow> act_return None
      | Some u \<Rightarrow>
          act_bind (require_model env (Some (ch_model c))) (\<lambda>_.
          act_bind (act_get bd_rates) (\<lambda>t.
          act_bind (act_lift (usage_credits t (ch_model c) (usage_value u))) (\<lambda>credits.
            act_return (map_option dec_str credits)))))"

definition settled_charge :: "(int \<times> int) option \<Rightarrow> string option \<Rightarrow> charge \<Rightarrow> charge" where
  "settled_charge normalized credits c =
     c\<lparr>ch_state := (if normalized = None then Unknown else Settled), ch_usage := normalized, ch_credits := credits\<rparr>"

definition settle_ledger :: "string \<Rightarrow> (int \<times> int) option \<Rightarrow> string option \<Rightarrow> charge \<Rightarrow> ledger \<Rightarrow> ledger option result" where
  "settle_ledger k normalized credits c l =
     (if ch_state c \<noteq> Possible
      then (if ch_usage c \<noteq> normalized \<or> ch_credits c \<noteq> credits
            then Inl (BudgetRejected ''Verified usage changed after settlement'') else Inr None)
      else Inr (Some (l\<lparr>lg_charges := dset k (settled_charge normalized credits c) (lg_charges l)\<rparr>)))"

fun settle_loop :: "'s budget_env \<Rightarrow> scope \<Rightarrow> request_key \<Rightarrow> (int \<times> int) option \<Rightarrow> string option \<Rightarrow> nat \<Rightarrow>
    ('s budget, unit) action" where
  "settle_loop env s invocation normalized exchange_id 0 b = (Inl (StateConflict ''Call ledger is busy''), b)"
| "settle_loop env s invocation normalized exchange_id (Suc n) b =
     (case load_ledger env s invocation n b of
        (Inl e, b1) \<Rightarrow> (Inl e, b1)
      | (Inr (l, etag), b1) \<Rightarrow>
          (case find_charge l (be_id env invocation) exchange_id normalized of
             Inl e \<Rightarrow> (Inl e, b1)
           | Inr None \<Rightarrow> (Inr (), b1)
           | Inr (Some (k, c)) \<Rightarrow>
               (case price env c normalized b1 of
                  (Inl e, b2) \<Rightarrow> (Inl e, b2)
                | (Inr credits, b2) \<Rightarrow>
                    (case settle_ledger k normalized credits c l of
                       Inl e \<Rightarrow> (Inl e, b2)
                     | Inr None \<Rightarrow> (Inr (), b2)
                     | Inr (Some l') \<Rightarrow>
                         (case save_ledger env s invocation n l' etag b2 of
                            (Inr _, b3) \<Rightarrow> (Inr (), b3)
                          | (Inl e, b3) \<Rightarrow>
                              if is_conflict e then settle_loop env s invocation normalized exchange_id n b3
                              else (Inl e, b3))))))"

definition settle :: "'s budget_env \<Rightarrow> scope \<Rightarrow> request_key \<Rightarrow> json \<Rightarrow> string option \<Rightarrow> ('s budget, unit) action" where
  "settle env s invocation usage exchange_id =
     act_bind (act_lift (normalized_usage usage)) (\<lambda>normalized. settle_loop env s invocation normalized exchange_id 16)"

section \<open>Writes of a ledger\<close>

text \<open>
  Every content a request may write, given the one it saw; a missing ledger is a fresh one. \<open>dropped\<close> are the
  exchanges whose reservation may be discarded.
\<close>

definition current_ledger :: "ledger option \<Rightarrow> ledger \<Rightarrow> bool" where
  "current_ledger v l = (case v of None \<Rightarrow> lg_charges l = [] | Some x \<Rightarrow> l = x)"

inductive ledger_writes :: "string set \<Rightarrow> string \<Rightarrow> ledger option \<Rightarrow> ledger \<Rightarrow> bool" for dropped base where
  reserving: "current_ledger v l \<Longrightarrow> reserve_ledger base exchange model l = Inr l' \<Longrightarrow>
    ledger_writes dropped base v (l'\<lparr>lg_revision := r\<rparr>)"
| discarding: "current_ledger v l \<Longrightarrow> exchange \<in> dropped \<Longrightarrow> discard_ledger base exchange l = Some l' \<Longrightarrow>
    ledger_writes dropped base v (l'\<lparr>lg_revision := r\<rparr>)"
| settling: "current_ledger v l \<Longrightarrow> find_charge l base exchange_id normalized = Inr (Some (k, c)) \<Longrightarrow>
    settle_ledger k normalized credits c l = Inr (Some l') \<Longrightarrow> ledger_writes dropped base v (l'\<lparr>lg_revision := r\<rparr>)"

inductive_cases ledger_writesE: "ledger_writes dropped base v l"

lemma find_charge_found: "find_charge l base ex u = Inr (Some (k, c)) \<Longrightarrow> dget (lg_charges l) k = Some c"
  by (auto simp: find_charge_def split: option.splits if_splits)

lemma dget_filter_keep: "dget d k = Some c \<Longrightarrow> P (k, c) \<Longrightarrow> dget (filter P d) k = Some c"
  by (induction d) (auto split: if_splits)

text \<open>What holds of a reserved charge from then on.\<close>

definition kept_charge :: "charge \<Rightarrow> charge \<Rightarrow> bool" where
  "kept_charge c d = (ch_exchange d = ch_exchange c \<and> ch_model d = ch_model c \<and> (ch_state c \<noteq> Possible \<longrightarrow> d = c))"

lemma ledger_writes_keep:
  assumes "ledger_writes dropped base (Some l) l'" "dget (lg_charges l) base = Some d" "kept_charge c d"
    and "ch_exchange c \<notin> dropped"
  shows "\<exists>d'. dget (lg_charges l') base = Some d' \<and> kept_charge c d'"
  using assms(1)
proof (rule ledger_writesE)
  fix l1 exchange model l2 r
  assume "l' = l2\<lparr>lg_revision := r\<rparr>" "current_ledger (Some l) l1" "reserve_ledger base exchange model l1 = Inr l2"
  with assms(2) show ?thesis by (auto simp: current_ledger_def reserve_ledger_def dhas_def split: if_splits)
next
  fix l1 exchange l2 r
  assume a: "l' = l2\<lparr>lg_revision := r\<rparr>" "current_ledger (Some l) l1" "exchange \<in> dropped"
    "discard_ledger base exchange l1 = Some l2"
  with assms(2-4) have "dget (lg_charges l2) base = Some d"
    by (auto simp: current_ledger_def discard_ledger_def kept_charge_def split: if_splits
        intro!: dget_filter_keep)
  with a assms(3) show ?thesis by simp
next
  fix l1 ex u k e credits l2 r
  assume a: "l' = l2\<lparr>lg_revision := r\<rparr>" "current_ledger (Some l) l1" "find_charge l1 base ex u = Inr (Some (k, e))"
    "settle_ledger k u credits e l1 = Inr (Some l2)"
  then have "dget (lg_charges l) k = Some e" by (auto simp: current_ledger_def dest: find_charge_found)
  with a assms(2,3) show ?thesis
    by (auto simp: current_ledger_def settle_ledger_def settled_charge_def kept_charge_def split: if_splits)
qed

definition ledger_step :: "string set \<Rightarrow> string \<Rightarrow> string \<Rightarrow> (string \<rightharpoonup> string \<times> ledger) \<Rightarrow> (string \<rightharpoonup> string \<times> ledger) \<Rightarrow> bool" where
  "ledger_step dropped base key o1 o2 =
     (o2 = o1 \<or> (\<exists>l e. ledger_writes dropped base (data_at o1 key) l \<and> o2 = o1(key \<mapsto> (e, l))))"

lemma ledger_step_refl [simp]: "ledger_step dropped base key o1 o1"
  by (simp add: ledger_step_def)

text \<open>What a caller of \<^verbatim>\<open>reserve\<close>, \<^verbatim>\<open>discard\<close> and \<^verbatim>\<open>settle\<close> may rely on, from the objects before and after.\<close>

definition reserve_post :: "string \<Rightarrow> string \<Rightarrow> string \<Rightarrow> string \<Rightarrow> unit result \<Rightarrow> (string \<rightharpoonup> string \<times> ledger) \<Rightarrow>
    (string \<rightharpoonup> string \<times> ledger) \<Rightarrow> bool" where
  "reserve_post base key exchange model r o1 o2 =
     (ledger_step {} base key o1 o2 \<and>
      (case r of
         Inr _ \<Rightarrow> (\<forall>l. data_at o1 key = Some l \<longrightarrow> \<not> dhas (lg_charges l) base) \<and>
           (\<exists>l. data_at o2 key = Some l \<and> dget (lg_charges l) base = Some (new_charge exchange model))
       | Inl e \<Rightarrow> (\<exists>why. e = BudgetNotReserved why) \<longrightarrow> o2 = o1))"

definition discard_post :: "string \<Rightarrow> string \<Rightarrow> string \<Rightarrow> unit result \<Rightarrow> (string \<rightharpoonup> string \<times> ledger) \<Rightarrow>
    (string \<rightharpoonup> string \<times> ledger) \<Rightarrow> bool" where
  "discard_post base key exchange r o1 o2 =
     (ledger_step {exchange} base key o1 o2 \<and>
      (r = Inr () \<longrightarrow> (case data_at o2 key of None \<Rightarrow> True
        | Some l \<Rightarrow> (\<forall>c. dget (lg_charges l) base = Some c \<longrightarrow> ch_exchange c \<noteq> exchange))))"

definition settle_post :: "string \<Rightarrow> string \<Rightarrow> (int \<times> int) option \<Rightarrow> unit result \<Rightarrow> (string \<rightharpoonup> string \<times> ledger) \<Rightarrow>
    (string \<rightharpoonup> string \<times> ledger) \<Rightarrow> bool" where
  "settle_post base key normalized r o1 o2 =
     (ledger_step {} base key o1 o2 \<and>
      (r = Inr () \<and> normalized \<noteq> None \<longrightarrow>
         (\<exists>l k c. data_at o2 key = Some l \<and> dget (lg_charges l) k = Some c \<and> ch_state c \<noteq> Possible \<and>
            ch_usage c = normalized)))"

section \<open>Operations over a conditional store\<close>

text \<open>A budget over a store with the contract; refreshing the pricing only reads.\<close>

locale ledger_store = cas_store obj load save
  for obj :: "'s \<Rightarrow> string \<Rightarrow> (string \<times> ledger) option"
    and load :: "string \<Rightarrow> ('s, ledger snapshot option) action"
    and save :: "string \<Rightarrow> ledger \<Rightarrow> string option \<Rightarrow> ('s, ledger snapshot) action" +
  fixes env :: "'s budget_env"
  assumes env_load: "be_load env = load" and env_save: "be_save env = save"
    and refresh_frame: "be_refresh env = Some refresh \<Longrightarrow> refresh s = (r, s') \<Longrightarrow> obj s' = obj s"
    and save_raises: "save k d e s = (Inl x, s') \<Longrightarrow> x \<noteq> BudgetNotReserved why"
begin

abbreviation objects :: "'s budget \<Rightarrow> string \<rightharpoonup> string \<times> ledger" where
  "objects b \<equiv> obj (bd_store b)"

lemma load_ledger_spec:
  assumes "load_ledger env s i n b = (r, b')"
  shows "objects b' = objects b"
    "r = Inr (l, etag) \<Longrightarrow> current_ledger (data_at (objects b) (ledger_key env s i)) l \<and>
       etag = map_option fst (objects b (ledger_key env s i))"
proof -
  obtain q s' where q: "load (ledger_key env s i) (bd_store b) = (q, s')" by force
  note simps = load_ledger_def b_store_def act_simps env_load q Let_def
  from assms load_frame [OF q] show "objects b' = objects b"
    by (cases q) (auto simp: simps split: option.splits if_splits)
  assume "r = Inr (l, etag)"
  with assms load_found [of "ledger_key env s i" "bd_store b"] q
  show "current_ledger (data_at (objects b) (ledger_key env s i)) l \<and>
      etag = map_option fst (objects b (ledger_key env s i))"
    by (cases q) (auto simp: simps current_ledger_def data_at_def fresh_ledger_def split: option.splits if_splits)
qed

lemma save_ledger_spec:
  assumes "save_ledger env s i n l etag b = (r, b')"
  shows "objects b' = objects b \<or>
      put_applied (objects b) (objects b') (ledger_key env s i) (l\<lparr>lg_revision := be_uuid env 1 n\<rparr>) etag"
    "r = Inr u \<Longrightarrow> data_at (objects b') (ledger_key env s i) = Some (l\<lparr>lg_revision := be_uuid env 1 n\<rparr>)"
    "r = Inl x \<Longrightarrow> refused x \<Longrightarrow> objects b' = objects b"
    "r = Inl x \<Longrightarrow> x \<noteq> BudgetNotReserved why"
proof -
  obtain q s' where q: "save (ledger_key env s i) (l\<lparr>lg_revision := be_uuid env 1 n\<rparr>) etag (bd_store b) = (q, s')" by force
  note simps = save_ledger_def b_store_def act_simps env_save q
  from assms save_frame [OF q] save_done [of "ledger_key env s i" _ etag "bd_store b" _ s'] q
    save_refused [of "ledger_key env s i" _ etag "bd_store b" x s'] save_raises [of "ledger_key env s i" _ etag "bd_store b" x s' why]
  show "objects b' = objects b \<or>
      put_applied (objects b) (objects b') (ledger_key env s i) (l\<lparr>lg_revision := be_uuid env 1 n\<rparr>) etag"
    "r = Inr u \<Longrightarrow> data_at (objects b') (ledger_key env s i) = Some (l\<lparr>lg_revision := be_uuid env 1 n\<rparr>)"
    "r = Inl x \<Longrightarrow> refused x \<Longrightarrow> objects b' = objects b"
    "r = Inl x \<Longrightarrow> x \<noteq> BudgetNotReserved why"
    by (cases q; force simp: simps data_at_def)+
qed

lemma require_model_frame: "require_model env m b = (r, b') \<Longrightarrow> objects b' = objects b"
  using refresh_frame
  by (auto simp: require_model_def b_store_def act_simps act_bind_def act_lift_def act_raise_def act_return_def act_get_def
      act_modify_def split: option.splits if_splits prod.splits sum.splits)

text \<open>A write under the loaded tag of what was decided on the loaded ledger is a step.\<close>

lemma saved_step:
  assumes "load_ledger env s i n b = (Inr (l, etag), b1)" "save_ledger env s i n l' etag b2 = (r, b3)"
    and "objects b2 = objects b1" "\<And>v. current_ledger v l \<Longrightarrow> ledger_writes dropped base v (l'\<lparr>lg_revision := be_uuid env 1 n\<rparr>)"
  shows "ledger_step dropped base (ledger_key env s i) (objects b) (objects b3)"
proof -
  let ?k = "ledger_key env s i"
  from load_ledger_spec [OF assms(1)] assms(3,4)
  have "objects b2 = objects b" "ledger_writes dropped base (data_at (objects b) ?k) (l'\<lparr>lg_revision := be_uuid env 1 n\<rparr>)"
    by auto
  then show ?thesis
    using save_ledger_spec(1) [OF assms(2)] by (auto simp: ledger_step_def put_applied_def)
qed

lemma conflict_same:
  assumes "load_ledger env s i n b = (Inr (l, etag), b1)" "save_ledger env s i n l' etag b2 = (Inl e, b3)"
    and "objects b2 = objects b1" "is_conflict e \<or> is_rejected_write e"
  shows "objects b3 = objects b"
proof -
  have "refused e" using assms(4) by (auto simp: refused_def is_conflict_def is_rejected_write_def split: exn.splits)
  with save_ledger_spec(3) [OF assms(2) refl] load_ledger_spec(1) [OF assms(1)] assms(3) show ?thesis by simp
qed

lemma reserve_loop_spec:
  "reserve_loop env s i exchange model n b = (r, b') \<Longrightarrow>
     reserve_post (be_id env i) (ledger_key env s i) exchange model r (objects b) (objects b')"
proof (induction n arbitrary: b)
  case 0
  then show ?case by (auto simp: reserve_post_def)
next
  case (Suc n)
  obtain q b1 where q: "load_ledger env s i n b = (q, b1)" by force
  show ?case
  proof (cases q)
    case (Inl e)
    with q Suc.prems load_ledger_spec(1) [OF q] show ?thesis by (auto simp: reserve_post_def)
  next
    case (Inr le)
    then obtain l etag where le: "q = Inr (l, etag)" by (cases le) auto
    note load = q [unfolded le]
    show ?thesis
    proof (cases "reserve_ledger (be_id env i) exchange model l")
      case (Inl e)
      with load Suc.prems load_ledger_spec(1) [OF load] show ?thesis
        by (auto simp: reserve_post_def reserve_ledger_def split: if_splits)
    next
      case (Inr l')
      obtain w b2 where w: "save_ledger env s i n l' etag b1 = (w, b2)" by force
      have step: "ledger_step {} (be_id env i) (ledger_key env s i) (objects b) (objects b2)"
        by (rule saved_step [OF load w refl]) (blast intro: ledger_writes.reserving Inr)
      show ?thesis
      proof (cases w)
        case (Inr u)
        note saved = save_ledger_spec(2) [OF w Inr]
        from load_ledger_spec(2) [OF load refl] \<open>reserve_ledger _ _ _ l = Inr l'\<close>
        have "\<forall>l. data_at (objects b) (ledger_key env s i) = Some l \<longrightarrow> \<not> dhas (lg_charges l) (be_id env i)"
          "dget (lg_charges l') (be_id env i) = Some (new_charge exchange model)"
          by (auto simp: current_ledger_def reserve_ledger_def split: if_splits)
        with saved load Suc.prems w Inr \<open>reserve_ledger _ _ _ l = Inr l'\<close> step show ?thesis
          by (auto simp: reserve_post_def)
      next
        case (Inl e)
        show ?thesis
        proof (cases "is_conflict e")
          case True
          with conflict_same [OF load w [unfolded Inl] refl] have "objects b2 = objects b" by simp
          moreover have "reserve_loop env s i exchange model n b2 = (r, b')"
            using Suc.prems load \<open>reserve_ledger _ _ _ l = Inr l'\<close> w Inl True by simp
          ultimately show ?thesis using Suc.IH [of b2] by simp
        next
          case False
          with Suc.prems load \<open>reserve_ledger _ _ _ l = Inr l'\<close> w Inl step
            conflict_same [OF load w [unfolded Inl] refl] save_ledger_spec(4) [OF w Inl]
          show ?thesis by (auto simp: reserve_post_def split: if_splits)
        qed
      qed
    qed
  qed
qed

lemma reserve_call_spec:
  assumes "reserve_call env s i exchange body b = (r, b')"
  shows "\<exists>model. reserve_post (be_id env i) (ledger_key env s i) exchange model r (objects b) (objects b')"
proof -
  have same: "reserve_post (be_id env i) (ledger_key env s i) exchange model (Inl e) o1 o1" for model e o1
    by (simp add: reserve_post_def)
  show ?thesis
  proof (cases "\<exists>d request. be_digest env body = Inr d \<and> d = rk_sha i \<and> be_request env body = Inr (JObj request) \<and>
      dget request ''service_tier'' \<noteq> Some (JStr ''flex'')")
    case False
    then have "\<exists>e. (r, b') = (Inl e, b)" using assms by (auto simp: reserve_call_def split: sum.splits json.splits if_splits)
    with same show ?thesis by blast
  next
    case True
    then obtain request where d: "be_digest env body = Inr (rk_sha i)" "be_request env body = Inr (JObj request)"
      "dget request ''service_tier'' \<noteq> Some (JStr ''flex'')" by blast
    obtain q b1 where q: "act_bind (act_lift (model_name (dget request ''model'')))
        (\<lambda>m. act_bind (require_model env m) (\<lambda>_. act_return m)) b = (q, b1)" by force
    then have b1: "objects b1 = objects b"
      by (auto elim!: act_bind_cases simp: act_simps dest: require_model_frame)
    show ?thesis
    proof (cases "\<exists>m. q = Inr (Some m)")
      case True
      then obtain m where "q = Inr (Some m)" ..
      with assms d q have "reserve_loop env s i exchange m 16 b1 = (r, b')" by (simp add: reserve_call_def)
      from reserve_loop_spec [OF this] b1 show ?thesis by auto
    next
      case False
      then have "\<exists>e. (r, b') = (Inl e, b1)" using assms d q by (cases q) (auto simp: reserve_call_def split: option.splits)
      with same b1 show ?thesis by auto
    qed
  qed
qed

lemma discard_loop_spec:
  "discard_loop env s i exchange n b = (r, b') \<Longrightarrow>
     discard_post (be_id env i) (ledger_key env s i) exchange r (objects b) (objects b')"
proof (induction n arbitrary: b)
  case 0
  then show ?case by (auto simp: discard_post_def)
next
  case (Suc n)
  obtain q b1 where q: "load_ledger env s i n b = (q, b1)" by force
  show ?case
  proof (cases q)
    case (Inl e)
    with q Suc.prems load_ledger_spec(1) [OF q] show ?thesis by (auto simp: discard_post_def)
  next
    case (Inr le)
    then obtain l etag where le: "q = Inr (l, etag)" by (cases le) auto
    note load = q [unfolded le]
    show ?thesis
    proof (cases "discard_ledger (be_id env i) exchange l")
      case None
      with load Suc.prems load_ledger_spec [OF load] show ?thesis
        by (auto simp: discard_post_def discard_ledger_def current_ledger_def split: if_splits option.splits)
    next
      case (Some l')
      obtain w b2 where w: "save_ledger env s i n l' etag b1 = (w, b2)" by force
      have step: "ledger_step {exchange} (be_id env i) (ledger_key env s i) (objects b) (objects b2)"
        by (rule saved_step [OF load w refl]) (blast intro: ledger_writes.discarding Some)
      show ?thesis
      proof (cases w)
        case (Inr u)
        from Some have "\<forall>c. dget (lg_charges l') (be_id env i) = Some c \<longrightarrow> ch_exchange c \<noteq> exchange"
          by (auto simp: discard_ledger_def split: if_splits dest!: map_of_SomeD)
        with save_ledger_spec(2) [OF w Inr] load Suc.prems w Inr Some step show ?thesis
          by (auto simp: discard_post_def)
      next
        case (Inl e)
        show ?thesis
        proof (cases "is_conflict e")
          case True
          with conflict_same [OF load w [unfolded Inl] refl] have "objects b2 = objects b" by simp
          moreover have "discard_loop env s i exchange n b2 = (r, b')"
            using Suc.prems load Some w Inl True by simp
          ultimately show ?thesis using Suc.IH [of b2] by simp
        next
          case False
          with Suc.prems load Some w Inl step show ?thesis by (auto simp: discard_post_def)
        qed
      qed
    qed
  qed
qed

lemma price_frame: "price env c u b = (r, b') \<Longrightarrow> objects b' = objects b"
  by (auto simp: price_def act_simps split: option.splits elim!: act_bind_cases dest: require_model_frame)

lemma settle_loop_spec:
  "settle_loop env s i u ex n b = (r, b') \<Longrightarrow>
     settle_post (be_id env i) (ledger_key env s i) u r (objects b) (objects b')"
proof (induction n arbitrary: b)
  case 0
  then show ?case by (auto simp: settle_post_def)
next
  case (Suc n)
  obtain q b1 where q: "load_ledger env s i n b = (q, b1)" by force
  show ?case
  proof (cases "\<exists>l etag k c b2 credits. q = Inr (l, etag) \<and> find_charge l (be_id env i) ex u = Inr (Some (k, c)) \<and>
      price env c u b1 = (Inr credits, b2)")
    case False
    have "objects b' = objects b \<and> (r = Inr () \<longrightarrow> u = None)"
    proof (cases q)
      case (Inr le)
      then obtain l etag where le: "q = Inr (l, etag)" by (cases le) auto
      with False Suc.prems q load_ledger_spec(1) [OF q] price_frame show ?thesis
        by (cases u) (auto simp: find_charge_def split: sum.splits option.splits prod.splits if_splits)
    qed (use q Suc.prems load_ledger_spec(1) [OF q] in auto)
    then show ?thesis by (auto simp: settle_post_def)
  next
    case True
    then obtain l etag k c b2 credits where le: "q = Inr (l, etag)"
      and found: "find_charge l (be_id env i) ex u = Inr (Some (k, c))"
      and paid: "price env c u b1 = (Inr credits, b2)" by blast
    note load = q [unfolded le]
    note b2 = price_frame [OF paid]
    from load_ledger_spec [OF load] b2 have b: "objects b2 = objects b"
      "current_ledger (data_at (objects b) (ledger_key env s i)) l" by auto
    show ?thesis
    proof (cases "\<exists>l'. settle_ledger k u credits c l = Inr (Some l')")
      case False
      then have *: "ch_state c \<noteq> Possible" "b' = b2" "r = Inr () \<longrightarrow> ch_usage c = u"
        using Suc.prems load found paid by (auto simp: settle_ledger_def split: if_splits)
      from find_charge_found [OF found] b(2) have "data_at (objects b) (ledger_key env s i) = Some l"
        by (auto simp: current_ledger_def split: option.splits)
      with * b(1) find_charge_found [OF found] show ?thesis by (auto simp: settle_post_def)
    next
      case True
      then obtain l' where l': "settle_ledger k u credits c l = Inr (Some l')" ..
      obtain w b3 where w: "save_ledger env s i n l' etag b2 = (w, b3)" by force
      have step: "ledger_step {} (be_id env i) (ledger_key env s i) (objects b) (objects b3)"
        by (rule saved_step [OF load w b2]) (blast intro: ledger_writes.settling found l')
      show ?thesis
      proof (cases w)
        case (Inr x)
        from l' have "\<exists>d. dget (lg_charges l') k = Some d \<and> (u \<noteq> None \<longrightarrow> ch_state d \<noteq> Possible) \<and> ch_usage d = u"
          by (auto simp: settle_ledger_def settled_charge_def split: if_splits)
        with save_ledger_spec(2) [OF w Inr] load found paid Suc.prems w Inr l' step show ?thesis
          by (fastforce simp: settle_post_def)
      next
        case (Inl e)
        show ?thesis
        proof (cases "is_conflict e")
          case True
          with conflict_same [OF load w [unfolded Inl] b2] have "objects b3 = objects b" by simp
          moreover have "settle_loop env s i u ex n b3 = (r, b')"
            using Suc.prems load found paid l' w Inl True by simp
          ultimately show ?thesis using Suc.IH [of b3] by simp
        next
          case False
          with Suc.prems load found paid l' w Inl step show ?thesis by (auto simp: settle_post_def)
        qed
      qed
    qed
  qed
qed

lemma settle_spec:
  assumes "settle env s i usage ex b = (r, b')" "normalized_usage usage = Inr u"
  shows "settle_post (be_id env i) (ledger_key env s i) u r (objects b) (objects b')"
  using assms settle_loop_spec by (simp add: settle_def act_simps)

end


text \<open>The R2 store raises no \<^verbatim>\<open>BudgetNotReserved\<close>.\<close>

lemma r2_save_raises: "r2_save c m k d e s = (Inl x, s') \<Longrightarrow> x \<noteq> BudgetNotReserved why"
proof -
  have put: "put_attempts c k d e n s = (Some (Inl x), s') \<Longrightarrow> x \<noteq> BudgetNotReserved why" for n s s' x
    by (induction n arbitrary: s)
      (auto simp: rmap_def etag_of_def ClientError_def split: prod.splits put_answer.splits if_splits option.splits sum.splits)
  have get: "r2_load c m k s = (Inl x, s') \<Longrightarrow> x \<noteq> BudgetNotReserved why" for s s' x
    by (auto simp: r2_load_def rmap_def etag_of_def ClientError_def BotoCoreError_def
        split: prod.splits get_answer.splits if_splits option.splits sum.splits)
  assume "r2_save c m k d e s = (Inl x, s')"
  then show ?thesis
    by (auto simp: r2_save_def split: prod.splits option.splits if_splits sum.splits dest: put get)
qed

text \<open>
  Every operation of the budget, over any store with the contract and whatever happens to its answers,
  writes the ledger at most once and as the interleavings below allow. A refused reservation has written
  nothing; a granted one entered the call, which had no charge before. A granted discard leaves no
  charge of that attempt for the call; a granted settlement leaves the usage recorded.
\<close>

theorem budget_operations_sound:
  assumes "ledger_store obj load save env"
  shows "(reserve_call env s i exchange body b = (r, b') \<longrightarrow>
      (\<exists>model. reserve_post (be_id env i) (ledger_key env s i) exchange model r (obj (bd_store b)) (obj (bd_store b')))) \<and>
    (discard env s i exchange b = (r, b') \<longrightarrow>
      discard_post (be_id env i) (ledger_key env s i) exchange r (obj (bd_store b)) (obj (bd_store b'))) \<and>
    (settle env s i usage exchange_id b = (r, b') \<and> normalized_usage usage = Inr u \<longrightarrow>
      settle_post (be_id env i) (ledger_key env s i) u r (obj (bd_store b)) (obj (bd_store b')))"
  using ledger_store.reserve_call_spec [OF assms, of s i exchange body b r b']
    ledger_store.discard_loop_spec [OF assms, of s i exchange 16 b r b']
    ledger_store.settle_spec [OF assms, of s i usage exchange_id b r b' u]
  by (simp add: discard_def)

text \<open>
  C23: A reserved dispatch is charged once: as long as nobody discards the attempt itself, every
  interleaving of reservations, settlements and discards of other attempts leaves the call charged to that attempt
  and model, every further reservation of the call raises, and once the usage is settled, it and its credits
  never change.
\<close>

theorem reserved_charge_kept:
  assumes run: "(cell_step (ledger_writes dropped base))\<^sup>*\<^sup>* (empty_cell (Some l)) cell"
    and charge: "dget (lg_charges l) base = Some c" "ch_exchange c \<notin> dropped"
  shows "\<exists>l' d. ce_value cell = Some l' \<and> dget (lg_charges l') base = Some d \<and>
    ch_exchange d = ch_exchange c \<and> ch_model d = ch_model c \<and> (ch_state c \<noteq> Possible \<longrightarrow> d = c) \<and>
    (\<forall>exchange model. \<exists>e. reserve_ledger base exchange model l' = Inl e)"
proof -
  let ?P = "\<lambda>v. \<exists>l' d. v = Some l' \<and> dget (lg_charges l') base = Some d \<and> kept_charge c d"
  have "?P (Some l)" using charge(1) by (auto simp: kept_charge_def)
  moreover have "?P v \<Longrightarrow> ledger_writes dropped base v l' \<Longrightarrow> ?P (Some l')" for v l'
    using ledger_writes_keep charge(2) by fastforce
  ultimately have "?P (ce_value cell)" by (rule cell_invariant [where P = ?P, OF run])
  then show ?thesis by (fastforce simp: kept_charge_def reserve_ledger_def dhas_def)
qed

section \<open>Examples\<close>

definition example_table_of :: "string \<Rightarrow> model_table result" where
  "example_table_of _ = Inr example_table"

definition bucket_budget_env :: "ledger bucket budget_env" where
  "bucket_budget_env = \<lparr>be_load = r2_load bucket_s3 10, be_save = r2_save bucket_s3 10, be_refresh = None,
     be_parse = example_table_of, be_sha = (\<lambda>_. ''h''), be_id = (\<lambda>_. ''call''), be_digest = (\<lambda>_. Inr ''ab''),
     be_request = (\<lambda>_. Inr (JObj [(''model'', JStr ''m'')])), be_uuid = (\<lambda>_ _. ''u'')\<rparr>"

interpretation bucket_ledgers: ledger_store bk_objects "r2_load bucket_s3 10" "r2_save bucket_s3 10" bucket_budget_env
  by unfold_locales
    (auto simp: bucket_budget_env_def intro: bucket.r2.load_frame bucket.r2.load_found bucket.r2.save_frame
      bucket.r2.save_done bucket.r2.save_refused dest: r2_save_raises)

text \<open>The answer to the write is lost; the reservation is confirmed by reading the ledger back.\<close>

definition example_budget :: "ledger bucket budget" where
  "example_budget = \<lparr>bd_store = \<lparr>bk_objects = Map.empty, bk_writes = 0, bk_lost = [False, True]\<rparr>,
     bd_rates = example_table, bd_hash = ''h''\<rparr>"

definition example_ledger :: ledger where
  "example_ledger = \<lparr>lg_revision = ''u'', lg_scope_key = scope_key example_scope, lg_pricing = ''h'',
     lg_charges = [(''call'', new_charge ''x'' ''m'')]\<rparr>"

lemma example_reserve:
  "\<exists>b. reserve_call bucket_budget_env example_scope example_request ''x'' ''body'' example_budget = (Inr (), b)"
proof -
  have v: "nat_digits 0 = ''0''" by code_simp
  show ?thesis
    by (simp add: reserve_call_def bucket_budget_env_def example_request_def example_budget_def model_name_def require_model_def
        act_bind_def act_simps priced_def dhas_def example_table_def eval_nat_numeral load_ledger_def b_store_def r2_load_def
        bucket_s3_def bucket_answer_def Let_def fresh_ledger_def reserve_ledger_def save_ledger_def r2_save_def etag_of_def v)
qed

theorem budget_operations_sound_witness:
  "\<exists>b l model. reserve_call bucket_budget_env example_scope example_request ''x'' ''body'' example_budget = (Inr (), b) \<and>
     data_at (bk_objects (bd_store b)) (ledger_key bucket_budget_env example_scope example_request) = Some l \<and>
     dget (lg_charges l) ''call'' = Some (new_charge ''x'' model)"
proof -
  from example_reserve obtain b where
    r: "reserve_call bucket_budget_env example_scope example_request ''x'' ''body'' example_budget = (Inr (), b)" by blast
  from budget_operations_sound [OF bucket_ledgers.ledger_store_axioms] r
  obtain model where "reserve_post (be_id bucket_budget_env example_request)
      (ledger_key bucket_budget_env example_scope example_request) ''x'' model (Inr ())
      (bk_objects (bd_store example_budget)) (bk_objects (bd_store b))" by blast
  then have "\<exists>l. data_at (bk_objects (bd_store b)) (ledger_key bucket_budget_env example_scope example_request) = Some l \<and>
      dget (lg_charges l) ''call'' = Some (new_charge ''x'' model)"
    by (simp add: reserve_post_def bucket_budget_env_def)
  with r show ?thesis by blast
qed

text \<open>Usage settled late, after another attempt was refused.\<close>

definition example_settled :: ledger where
  "example_settled = example_ledger\<lparr>lg_charges :=
     [(''call'', settled_charge (Some (1000, 10)) (Some ''0.0026000'') (new_charge ''x'' ''m''))]\<rparr>"

theorem reserved_charge_kept_witness:
  "\<exists>cell. (cell_step (ledger_writes {''y''} ''call''))\<^sup>*\<^sup>* (empty_cell (Some example_ledger)) cell \<and>
     ce_value cell = Some example_settled \<and>
     (\<exists>d. dget (lg_charges example_settled) ''call'' = Some d \<and> ch_exchange d = ''x'') \<and>
     (\<exists>e. reserve_ledger ''call'' ''z'' ''m'' example_settled = Inl e)"
proof -
  let ?R = "ledger_writes {''y''} ''call''"
  let ?c = "new_charge ''x'' ''m''"
  have "find_charge example_ledger ''call'' None (Some (1000, 10)) = Inr (Some (''call'', ?c))"
    by (simp add: find_charge_def example_ledger_def)
  moreover have "settle_ledger ''call'' (Some (1000, 10)) (Some ''0.0026000'') ?c example_ledger = Inr (Some example_settled)"
    by (simp add: settle_ledger_def example_settled_def example_ledger_def new_charge_def)
  ultimately have "?R (Some example_ledger) (example_settled\<lparr>lg_revision := ''u''\<rparr>)"
    by (intro ledger_writes.settling) (auto simp: current_ledger_def)
  moreover have "example_settled\<lparr>lg_revision := ''u''\<rparr> = example_settled"
    by (simp add: example_settled_def example_ledger_def)
  ultimately have "?R (ce_value (empty_cell (Some example_ledger))) example_settled" by (simp add: empty_cell_def)
  then obtain cell where run: "(cell_step ?R)\<^sup>*\<^sup>* (empty_cell (Some example_ledger)) cell"
    and v: "ce_value cell = Some example_settled"
    using cell_write [of ?R, OF rtranclp.rtrancl_refl] by blast
  have c: "dget (lg_charges example_ledger) ''call'' = Some ?c" "ch_exchange ?c \<notin> {''y''}" "ch_exchange ?c = ''x''"
    by (simp_all add: example_ledger_def new_charge_def)
  from reserved_charge_kept [OF run c(1,2)] v c(3) show ?thesis by (intro exI [of _ cell]) (use run in auto)
qed

end
