(* ===== verification/Auth.thy ===== *)
theory Auth
  imports WitnessModels "HOL-Library.Multiset" "HOL-Library.Char_ord" "HOL-Library.List_Lexorder" "HOL-Library.Product_Lexorder"
begin

text \<open>
  Signed requests of the miners: \<^verbatim>\<open>hotkey_headers\<close> of the client (\<^verbatim>\<open>witness_client/auth.py\<close>) and the
  \<^verbatim>\<open>Authenticator\<close> of the gateway (\<^verbatim>\<open>shared/subnet_common/witness/auth.py\<close>). Verifications run in several
  threads, so \<^verbatim>\<open>verify\<close> is two pieces, each atomic under its lock, with the signature check between them;
  \<open>auth_step\<close> interleaves them. SHA-256, the wallet library and the authorization are parameters. The heap of
  expiries is the sorted list of its elements.
\<close>

section \<open>Requests\<close>

record auth_request =
  rq_method :: string
  rq_path :: string
  rq_body :: string
  rq_headers :: "(string, string) dict"

record 'k auth_env =
  ae_sha :: "string \<Rightarrow> string"
  ae_format :: "string \<Rightarrow> bool"
  ae_keypair :: "string \<Rightarrow> 'k result"
  ae_verify :: "'k \<Rightarrow> string \<Rightarrow> string \<Rightarrow> bool"

definition newline :: string where "newline = [CHR 0x0A]"

text \<open>What is signed, by the client and by the gateway alike.\<close>

definition payload :: "'k auth_env \<Rightarrow> string \<Rightarrow> string \<Rightarrow> string \<Rightarrow> string \<Rightarrow> string \<Rightarrow> string" where
  "payload env http_method path body nonce hotkey =
     join_with newline [''btauth/1'', ''sr25519'', http_method, path, ae_sha env body, nonce, hotkey, ''404-witness'']"


definition nonce_ok :: "string \<Rightarrow> bool" where
  "nonce_ok n = (case n of [] \<Rightarrow> False
     | c # cs \<Rightarrow> is_digit c \<and> c \<noteq> CHR ''0'' \<and> 15 \<le> length cs \<and> length cs \<le> 19 \<and> list_all is_digit cs)"

definition signature_ok :: "string \<Rightarrow> bool" where
  "signature_ok s = (take 2 s = ''0x'' \<and> length s = 130 \<and> list_all (in_chars hex_digits) (drop 2 s))"

definition invalid_hotkey :: exn where "invalid_hotkey = AuthRejected ''invalid_hotkey'' 401"

definition keypair_from_hotkey :: "'k auth_env \<Rightarrow> string \<Rightarrow> 'k result" where
  "keypair_from_hotkey env hotkey =
     (if \<not> hotkey_ok hotkey then Inl invalid_hotkey
      else if \<not> ae_format env hotkey then Inl invalid_hotkey
      else (case ae_keypair env hotkey of Inl _ \<Rightarrow> Inl invalid_hotkey | Inr k \<Rightarrow> Inr k))"

section \<open>The authenticator\<close>

record 'k auth_state =
  as_nonces :: "(string \<times> string, int) dict"
  as_expiry :: "(int \<times> string \<times> string) list"
  as_counts :: "(string, int) dict"
  as_keys :: "(string, 'k) dict"

definition new_auth :: "'k auth_state" where
  "new_auth = \<lparr>as_nonces = [], as_expiry = [], as_counts = [], as_keys = []\<rparr>"

text \<open>The first loop of \<^verbatim>\<open>_check_nonce\<close>: forget what has expired.\<close>

fun drop_expired :: "int \<Rightarrow> (int \<times> string \<times> string) list \<Rightarrow> (string \<times> string, int) dict \<Rightarrow> (string, int) dict \<Rightarrow>
    unit result \<times> (int \<times> string \<times> string) list \<times> (string \<times> string, int) dict \<times> (string, int) dict" where
  "drop_expired now [] nonces counts = (Inr (), [], nonces, counts)"
| "drop_expired now ((t, owner, expired) # es) nonces counts =
     (if now < t then (Inr (), (t, owner, expired) # es, nonces, counts)
      else (case dget counts owner of
              None \<Rightarrow> (Inl KeyError, es, ddel (owner, expired) nonces, counts)
            | Some k \<Rightarrow> drop_expired now es (ddel (owner, expired) nonces)
                (if k - 1 = 0 then ddel owner counts else dset owner (k - 1) counts)))"

definition MAX_NONCES :: nat where "MAX_NONCES = 100000"
definition MAX_PER_HOTKEY :: int where "MAX_PER_HOTKEY = 256"
definition MAX_KEYS :: nat where "MAX_KEYS = 4096"

definition check_nonce :: "string \<Rightarrow> string \<Rightarrow> int \<Rightarrow> ('k auth_state, unit) action" where
  "check_nonce hotkey nonce now s =
     (case drop_expired now (as_expiry s) (as_nonces s) (as_counts s) of
        (r, es, ns, cs) \<Rightarrow>
          (case r of
             Inl e \<Rightarrow> Inl e
           | Inr _ \<Rightarrow>
               if dhas ns (hotkey, nonce) then Inl (AuthRejected ''replayed_hotkey_auth'' 401)
               else if MAX_NONCES \<le> length ns \<or> MAX_PER_HOTKEY \<le> dget_default cs hotkey 0
               then Inl (AuthRejected ''authentication_busy'' 429)
               else Inr (),
           s\<lparr>as_expiry := es, as_nonces := ns, as_counts := cs\<rparr>))"

definition header :: "auth_request \<Rightarrow> string \<Rightarrow> string" where
  "header req name = dget_default (rq_headers req) name []"

definition WINDOW :: int where "WINDOW = 30000000000"

text \<open>The checks before the first lock; the argument \<open>authorize\<close> is the membership at that time.\<close>

definition checked_headers :: "auth_request \<Rightarrow> int \<Rightarrow> (string \<times> string \<times> string) result" where
  "checked_headers req now =
     (let hotkey = header req ''x-bittensor-hotkey''; nonce = header req ''x-bittensor-nonce'';
          signature = header req ''x-bittensor-signature''
      in if dget (rq_headers req) ''x-bittensor-version'' \<noteq> Some ''1'' \<or>
            dget (rq_headers req) ''x-bittensor-receiver'' \<noteq> Some ''404-witness'' \<or>
            dget_default (rq_headers req) ''x-bittensor-crypto'' ''sr25519'' \<noteq> ''sr25519'' \<or>
            \<not> nonce_ok nonce \<or> \<not> signature_ok signature
         then Inl (AuthRejected ''invalid_hotkey_auth'' 401)
         else if now - int (nat_of_digits nonce) < - WINDOW \<or> WINDOW < now - int (nat_of_digits nonce)
         then Inl (AuthRejected ''stale_hotkey_auth'' 401)
         else Inr (hotkey, nonce, signature))"

text \<open>A verified request on its way to the second lock.\<close>

record 'k in_flight =
  fl_hotkey :: string
  fl_nonce :: string
  fl_key :: 'k
  fl_now :: int

definition begin_verify :: "'k auth_env \<Rightarrow> (string \<Rightarrow> unit result) \<Rightarrow> int \<Rightarrow> auth_request \<Rightarrow>
    ('k auth_state, 'k in_flight) action" where
  "begin_verify env authorize now req =
     act_bind (act_lift (checked_headers req now)) (\<lambda>(hotkey, nonce, signature).
     act_bind (act_lift (authorize hotkey)) (\<lambda>_.
     act_bind (check_nonce hotkey nonce now) (\<lambda>_.
     act_bind (act_get (\<lambda>s. dget (as_keys s) hotkey)) (\<lambda>cached.
     act_bind (act_lift (case cached of Some k \<Rightarrow> Inr k | None \<Rightarrow> keypair_from_hotkey env hotkey)) (\<lambda>key.
       if \<not> ae_verify env key (payload env (rq_method req) (rq_path req) (rq_body req) nonce hotkey) (drop 2 signature)
       then act_raise (AuthRejected ''invalid_signature'' 401)
       else act_return \<lparr>fl_hotkey = hotkey, fl_nonce = nonce, fl_key = key, fl_now = now\<rparr>)))))"

text \<open>\<^verbatim>\<open>move_to_end\<close> and \<^verbatim>\<open>popitem(last=False)\<close> of the key cache.\<close>

definition remember_key :: "string \<Rightarrow> 'k \<Rightarrow> (string, 'k) dict \<Rightarrow> (string, 'k) dict" where
  "remember_key hotkey key keys =
     (let ks = ddel hotkey keys @ [(hotkey, key)] in if MAX_KEYS < length ks then tl ks else ks)"

definition finish_verify :: "(string \<Rightarrow> unit result) \<Rightarrow> 'k in_flight \<Rightarrow> ('k auth_state, string) action" where
  "finish_verify authorize f =
     act_bind (act_lift (authorize (fl_hotkey f))) (\<lambda>_.
     act_bind (check_nonce (fl_hotkey f) (fl_nonce f) (fl_now f)) (\<lambda>_.
     act_bind (act_modify (\<lambda>s.
       let expiry = int (nat_of_digits (fl_nonce f)) + WINDOW + 1
       in s\<lparr>as_nonces := dset (fl_hotkey f, fl_nonce f) expiry (as_nonces s),
            as_expiry := insort (expiry, fl_hotkey f, fl_nonce f) (as_expiry s),
            as_counts := dset (fl_hotkey f) (dget_default (as_counts s) (fl_hotkey f) 0 + 1) (as_counts s),
            as_keys := remember_key (fl_hotkey f) (fl_key f) (as_keys s)\<rparr>)) (\<lambda>_.
       act_return (fl_hotkey f))))"


section \<open>Threads\<close>

text \<open>
  The authenticator with the requests in flight, the clock readings so far and the requests accepted,
  the last one first: each with its own reading of the clock and the readings that any thread had made
  when it was accepted.
\<close>

record acceptance =
  ac_hotkey :: string
  ac_nonce :: string
  ac_now :: int
  ac_readings :: "int list"

record 'k auth_run =
  ar_state :: "'k auth_state"
  ar_flight :: "'k in_flight list"
  ar_accepted :: "acceptance list"
  ar_readings :: "int list"

definition in_window :: "int list \<Rightarrow> string \<Rightarrow> bool" where
  "in_window readings nonce = (\<forall>t\<in>set readings. t \<le> int (nat_of_digits nonce) + WINDOW)"

inductive auth_step :: "'k auth_env \<Rightarrow> 'k auth_run \<Rightarrow> 'k auth_run \<Rightarrow> bool" for env where
  begins: "begin_verify env authorize now req (ar_state a) = (Inr f, s) \<Longrightarrow>
    auth_step env a (a\<lparr>ar_state := s, ar_flight := f # ar_flight a, ar_readings := now # ar_readings a\<rparr>)"
| rejects: "begin_verify env authorize now req (ar_state a) = (Inl e, s) \<Longrightarrow>
    auth_step env a (a\<lparr>ar_state := s, ar_readings := now # ar_readings a\<rparr>)"
| accepts: "f \<in> set (ar_flight a) \<Longrightarrow> finish_verify authorize f (ar_state a) = (Inr h, s) \<Longrightarrow>
    auth_step env a (a\<lparr>ar_state := s, ar_flight := remove1 f (ar_flight a),
      ar_accepted := \<lparr>ac_hotkey = h, ac_nonce = fl_nonce f, ac_now = fl_now f, ac_readings = ar_readings a\<rparr>
        # ar_accepted a\<rparr>)"
| refuses: "f \<in> set (ar_flight a) \<Longrightarrow> finish_verify authorize f (ar_state a) = (Inl e, s) \<Longrightarrow>
    auth_step env a (a\<lparr>ar_state := s, ar_flight := remove1 f (ar_flight a)\<rparr>)"

inductive_cases auth_stepE: "auth_step env a b"

definition auth_start :: "'k auth_run" where
  "auth_start = \<lparr>ar_state = new_auth, ar_flight = [], ar_accepted = [], ar_readings = []\<rparr>"

section \<open>The books of the authenticator\<close>

text \<open>How many nonces of an owner are remembered, and that the three books agree.\<close>

definition owned_by :: "string \<Rightarrow> (string \<times> string, int) dict \<Rightarrow> int" where
  "owned_by h ns = int (length (filter (\<lambda>((o', x), t). o' = h) ns))"

definition books :: "(int \<times> string \<times> string) list \<Rightarrow> (string \<times> string, int) dict \<Rightarrow> (string, int) dict \<Rightarrow> bool" where
  "books es ns cs = (dict_ok ns \<and> dict_ok cs \<and> distinct (map snd es) \<and>
     (\<forall>t k. (t, k) \<in> set es \<longleftrightarrow> dget ns k = Some t) \<and>
     (\<forall>h. dget cs h = (if owned_by h ns = 0 then None else Some (owned_by h ns))))"

lemma owned_by_ddel:
  "dict_ok ns \<Longrightarrow> dget ns (h, x) = Some t \<Longrightarrow>
     owned_by h' (ddel (h, x) ns) = (if h' = h then owned_by h' ns - 1 else owned_by h' ns)"
proof (induction ns)
  case (Cons p ns)
  obtain o1 x1 t1 where p: "p = ((o1, x1), t1)" by (metis surj_pair)
  have fresh: "(h, x) \<notin> set (dkeys ns) \<Longrightarrow> ddel (h, x) ns = ns" by (rule delete_id) auto
  show ?case
  proof (cases "(o1, x1) = (h, x)")
    case True
    with Cons.prems p fresh show ?thesis by (simp add: owned_by_def)
  next
    case False
    with Cons p have "owned_by h' (ddel (h, x) ns) = (if h' = h then owned_by h' ns - 1 else owned_by h' ns)" by auto
    with False p show ?thesis by (auto simp: owned_by_def)
  qed
qed simp

lemma owned_by_dset: "dget ns k = None \<Longrightarrow> owned_by h (dset k t ns) = owned_by h ns + (if fst k = h then 1 else 0)"
proof -
  assume "dget ns k = None"
  then have "dset k t ns = ns @ [(k, t)]" by (induction ns) (auto split: if_splits)
  then show ?thesis by (cases k) (simp add: owned_by_def)
qed

lemma owned_by_mem: "dget ns (h, x) = Some t \<Longrightarrow> 0 < owned_by h ns"
  by (auto simp: owned_by_def length_greater_0_conv filter_empty_conv dest!: map_of_SomeD simp del: length_greater_0_conv
      intro!: Nat.gr0I)

lemma booksD:
  assumes "books es ns cs"
  shows "dict_ok ns" "dict_ok cs" "distinct (map snd es)" "(t, k) \<in> set es \<longleftrightarrow> dget ns k = Some t"
    "dget cs h = (if owned_by h ns = 0 then None else Some (owned_by h ns))"
  using assms unfolding books_def by blast+

lemma books_drop1:
  assumes "books ((t, h, x) # es) ns cs"
  shows "dget ns (h, x) = Some t" "dget cs h = Some (owned_by h ns)"
    "books es (ddel (h, x) ns) (if owned_by h ns - 1 = 0 then ddel h cs else dset h (owned_by h ns - 1) cs)"
proof -
  note b = booksD [OF assms]
  show x: "dget ns (h, x) = Some t" using b(4) [of t "(h, x)"] by (metis list.set_intros(1))
  from owned_by_mem [OF x] b(5) show "dget cs h = Some (owned_by h ns)" by simp
  have new: "(h, x) \<notin> snd ` set es" using b(3) by simp
  have e: "(t', k) \<in> set es \<longleftrightarrow> dget (ddel (h, x) ns) k = Some t'" for t' k
  proof (cases "k = (h, x)")
    case True
    then have "(t', k) \<notin> set es" using new by (metis image_eqI snd_conv)
    with True show ?thesis by (simp del: map_of_eq_Some_iff)
  next
    case False
    then have "(t', k) \<in> set es \<longleftrightarrow> (t', k) \<in> set ((t, h, x) # es)" by auto
    also have "\<dots> \<longleftrightarrow> dget ns k = Some t'" by (rule b(4))
    finally show ?thesis using False by (simp del: map_of_eq_Some_iff)
  qed
  show "books es (ddel (h, x) ns) (if owned_by h ns - 1 = 0 then ddel h cs else dset h (owned_by h ns - 1) cs)"
    unfolding books_def
  proof (intro conjI allI)
    show "dict_ok (ddel (h, x) ns)" using b(1) by simp
    show "dict_ok (if owned_by h ns - 1 = 0 then ddel h cs else dset h (owned_by h ns - 1) cs)" using b(2) by simp
    show "distinct (map snd es)" using b(3) by simp
    show "((t', k) \<in> set es) = (dget (ddel (h, x) ns) k = Some t')" for t' k by (rule e)
    show "dget (if owned_by h ns - 1 = 0 then ddel h cs else dset h (owned_by h ns - 1) cs) g =
        (if owned_by g (ddel (h, x) ns) = 0 then None else Some (owned_by g (ddel (h, x) ns)))" for g
      using b(5) [of g] owned_by_ddel [OF b(1) x] by simp
  qed
qed

text \<open>What was forgotten at a time had expired by then.\<close>

definition forgets :: "int \<Rightarrow> (string \<times> string, int) dict \<Rightarrow> (string \<times> string, int) dict \<Rightarrow> bool" where
  "forgets now ns ns' = (length ns' \<le> length ns \<and> (\<forall>k t. dget ns' k = Some t \<longrightarrow> dget ns k = Some t) \<and>
     (\<forall>k t. dget ns k = Some t \<longrightarrow> now < t \<longrightarrow> dget ns' k = Some t))"

lemma forgets_refl: "forgets now ns ns"
  by (simp add: forgets_def)

lemma forgetsD:
  assumes "forgets now ns ns'"
  shows "length ns' \<le> length ns" "dget ns' k = Some t \<Longrightarrow> dget ns k = Some t"
    "dget ns k = Some t \<Longrightarrow> now < t \<Longrightarrow> dget ns' k = Some t"
  using assms unfolding forgets_def by blast+

lemma forgets_ddel:
  assumes "dget ns k0 = Some t0" "\<not> now < t0" "forgets now (ddel k0 ns) ns'"
  shows "forgets now ns ns'"
  unfolding forgets_def
proof (intro conjI allI impI)
  note f = forgetsD [OF assms(3)]
  have "length (ddel k0 ns) \<le> length ns" by (simp add: AList.delete_eq)
  with f(1) show "length ns' \<le> length ns" by simp
  show "dget ns k = Some t" if "dget ns' k = Some t" for k t
    using f(2) [OF that] by (simp del: map_of_eq_Some_iff split: if_split_asm)
  show "dget ns' k = Some t" if "dget ns k = Some t" "now < t" for k t
  proof -
    from that assms(1,2) have "k \<noteq> k0" by auto
    with that(1) have "dget (ddel k0 ns) k = Some t" by (simp del: map_of_eq_Some_iff)
    from f(3) [OF this that(2)] show ?thesis .
  qed
qed

lemma drop_expired_spec:
  assumes "drop_expired now es ns cs = (r, es', ns', cs')" "books es ns cs"
  shows "r = Inr () \<and> books es' ns' cs' \<and> forgets now ns ns'"
  using assms
proof (induction now es ns cs rule: drop_expired.induct)
  case (2 now t owner x es ns cs)
  show ?case
  proof (cases "now < t")
    case True
    with 2 show ?thesis by (auto simp: forgets_refl)
  next
    case False
    note d = books_drop1 [OF "2.prems"(2)]
    from "2.IH" [OF False d(2) _ d(3)] "2.prems"(1) False d(2)
    have "r = Inr () \<and> books es' ns' cs' \<and> forgets now (ddel (owner, x) ns) ns'" by simp
    with forgets_ddel [OF d(1) False] show ?thesis by blast
  qed
qed (simp add: forgets_refl)

text \<open>Everything the state keeps.\<close>

definition auth_inv :: "'k auth_env \<Rightarrow> 'k auth_state \<Rightarrow> bool" where
  "auth_inv env s = (books (as_expiry s) (as_nonces s) (as_counts s) \<and> length (as_nonces s) \<le> MAX_NONCES \<and>
     (\<forall>h k. dget (as_counts s) h = Some k \<longrightarrow> k \<le> MAX_PER_HOTKEY) \<and>
     (\<forall>h x t. dget (as_nonces s) (h, x) = Some t \<longrightarrow> t = int (nat_of_digits x) + WINDOW + 1) \<and>
     (\<forall>p\<in>set (as_keys s). keypair_from_hotkey env (fst p) = Inr (snd p)) \<and> length (as_keys s) \<le> MAX_KEYS)"

lemma auth_inv_new: "auth_inv env new_auth"
  by (simp add: auth_inv_def new_auth_def books_def owned_by_def)

lemma owned_by_forgets:
  assumes "forgets now ns ns'" "dict_ok ns'"
  shows "owned_by g ns' \<le> owned_by g ns"
proof -
  have "p \<in> set ns" if "p \<in> set ns'" for p
  proof -
    have "dget ns' (fst p) = Some (snd p)" using dget_of_mem [OF assms(2), of "fst p" "snd p"] that by simp
    from map_of_SomeD [OF forgetsD(2) [OF assms(1) this]] show ?thesis by simp
  qed
  then have "set (filter (\<lambda>((o', x), t). o' = g) ns') \<subseteq> set (filter (\<lambda>((o', x), t). o' = g) ns)"
    unfolding set_filter by blast
  moreover have "distinct (filter (\<lambda>((o', x), t). o' = g) ns')" using assms(2) by (simp add: distinct_map)
  ultimately have "length (filter (\<lambda>((o', x), t). o' = g) ns') \<le> length (filter (\<lambda>((o', x), t). o' = g) ns)"
    using card_mono [OF finite_set] card_length distinct_card order_trans by (metis (no_types, lifting))
  then show ?thesis by (simp add: owned_by_def)
qed

lemma auth_invD:
  assumes "auth_inv env s"
  shows "books (as_expiry s) (as_nonces s) (as_counts s)" "length (as_nonces s) \<le> MAX_NONCES"
    "dget (as_counts s) h = Some k \<Longrightarrow> k \<le> MAX_PER_HOTKEY"
    "dget (as_nonces s) (h, x) = Some t \<Longrightarrow> t = int (nat_of_digits x) + WINDOW + 1"
    "p \<in> set (as_keys s) \<Longrightarrow> keypair_from_hotkey env (fst p) = Inr (snd p)" "length (as_keys s) \<le> MAX_KEYS"
  using assms unfolding auth_inv_def by blast+

lemma check_nonce_spec:
  assumes "check_nonce h x now s = (r, s')" "auth_inv env s"
  shows "auth_inv env s' \<and> as_keys s' = as_keys s \<and> r \<noteq> Inl KeyError \<and> forgets now (as_nonces s) (as_nonces s') \<and>
    (r = Inr () \<longrightarrow> dget (as_nonces s') (h, x) = None \<and> length (as_nonces s') < MAX_NONCES \<and>
       dget_default (as_counts s') h 0 < MAX_PER_HOTKEY)"
proof -
  obtain q es ns cs where d: "drop_expired now (as_expiry s) (as_nonces s) (as_counts s) = (q, es, ns, cs)"
    by (metis prod_cases4)
  note inv = auth_invD [OF assms(2)]
  from drop_expired_spec [OF d inv(1)]
  have dr: "q = Inr ()" "books es ns cs" "forgets now (as_nonces s) ns" by auto
  have s': "s' = s\<lparr>as_expiry := es, as_nonces := ns, as_counts := cs\<rparr>" using assms(1) d by (simp add: check_nonce_def)
  have counts: "k \<le> MAX_PER_HOTKEY" if "dget cs g = Some k" for g k
  proof -
    have k: "k = owned_by g ns" "owned_by g ns \<noteq> 0" using that booksD(5) [OF dr(2), of g] by (auto split: if_splits)
    have "0 \<le> owned_by g ns" by (simp add: owned_by_def)
    with k owned_by_forgets [OF dr(3) booksD(1) [OF dr(2)], of g] have "owned_by g (as_nonces s) \<noteq> 0" by linarith
    with booksD(5) [OF inv(1), of g] have "dget (as_counts s) g = Some (owned_by g (as_nonces s))" by simp
    from inv(3) [OF this] k owned_by_forgets [OF dr(3) booksD(1) [OF dr(2)], of g] show ?thesis by simp
  qed
  have "auth_inv env s'"
    unfolding auth_inv_def
  proof (intro conjI allI impI ballI)
    show "books (as_expiry s') (as_nonces s') (as_counts s')" using dr(2) by (simp add: s')
    show "length (as_nonces s') \<le> MAX_NONCES" using inv(2) forgetsD(1) [OF dr(3)] by (simp add: s')
    show "k \<le> MAX_PER_HOTKEY" if "dget (as_counts s') g = Some k" for g k using counts that by (simp add: s')
    show "t = int (nat_of_digits y) + WINDOW + 1" if "dget (as_nonces s') (g, y) = Some t" for g y t
      using inv(4) [OF forgetsD(2) [OF dr(3)]] that by (simp add: s')
    show "keypair_from_hotkey env (fst p) = Inr (snd p)" if "p \<in> set (as_keys s')" for p using inv(5) that by (simp add: s')
    show "length (as_keys s') \<le> MAX_KEYS" using inv(6) by (simp add: s')
  qed
  moreover have "r = (if dhas ns (h, x) then Inl (AuthRejected ''replayed_hotkey_auth'' 401)
      else if MAX_NONCES \<le> length ns \<or> MAX_PER_HOTKEY \<le> dget_default cs h 0
      then Inl (AuthRejected ''authentication_busy'' 429) else Inr ())"
    using assms(1) d dr(1) by (simp add: check_nonce_def)
  ultimately show ?thesis using dr(3) by (auto simp: s' dhas_def split: if_splits)
qed

section \<open>The two pieces\<close>

text \<open>A request of this hotkey and nonce was signed by the hotkey, for its method, path and body.\<close>

definition authentic :: "'k auth_env \<Rightarrow> string \<Rightarrow> string \<Rightarrow> bool" where
  "authentic env h n = (\<exists>req now signature k. checked_headers req now = Inr (h, n, signature) \<and>
     keypair_from_hotkey env h = Inr k \<and>
     ae_verify env k (payload env (rq_method req) (rq_path req) (rq_body req) n h) (drop 2 signature))"

definition flight_ok :: "'k auth_env \<Rightarrow> 'k in_flight \<Rightarrow> bool" where
  "flight_ok env f = (keypair_from_hotkey env (fl_hotkey f) = Inr (fl_key f) \<and> authentic env (fl_hotkey f) (fl_nonce f))"

lemma begin_verify_spec:
  assumes "begin_verify env authorize now req s = (r, s')" "auth_inv env s"
  shows "auth_inv env s' \<and> forgets now (as_nonces s) (as_nonces s') \<and>
    (\<forall>f. r = Inr f \<longrightarrow> flight_ok env f \<and> fl_now f = now \<and> now \<le> int (nat_of_digits (fl_nonce f)) + WINDOW)"
proof (cases "\<exists>h n sg. checked_headers req now = Inr (h, n, sg) \<and> authorize h = Inr ()")
  case False
  then have "s' = s \<and> (\<exists>e. r = Inl e)" using assms(1)
    by (auto simp: begin_verify_def act_bind_def act_lift_def split: sum.splits prod.splits)
  with assms(2) show ?thesis by (auto simp: forgets_refl)
next
  case True
  then obtain h n sg where h: "checked_headers req now = Inr (h, n, sg)" "authorize h = Inr ()" by blast
  obtain c s1 where c: "check_nonce h n now s = (c, s1)" by force
  from check_nonce_spec [OF c assms(2)] have ok: "auth_inv env s1" "forgets now (as_nonces s) (as_nonces s1)" by auto
  have s': "s' = s1" using assms(1) h c
    by (auto simp: begin_verify_def act_bind_def act_simps split: sum.splits if_splits)
  have "flight_ok env f \<and> fl_now f = now \<and> now \<le> int (nat_of_digits (fl_nonce f)) + WINDOW" if "r = Inr f" for f
  proof -
    from assms(1) h c that obtain k where k:
      "(case dget (as_keys s1) h of Some k \<Rightarrow> Inr k | None \<Rightarrow> keypair_from_hotkey env h) = Inr k"
      "ae_verify env k (payload env (rq_method req) (rq_path req) (rq_body req) n h) (drop 2 sg)"
      "f = \<lparr>fl_hotkey = h, fl_nonce = n, fl_key = k, fl_now = now\<rparr>"
      by (auto simp: begin_verify_def act_bind_def act_simps split: sum.splits if_splits)
    have "keypair_from_hotkey env h = Inr k"
      using k(1) auth_invD(5) [OF ok(1)] by (fastforce split: option.splits dest: map_of_SomeD)
    moreover have "now \<le> int (nat_of_digits n) + WINDOW" using h(1) by (auto simp: checked_headers_def Let_def split: if_splits)
    ultimately show ?thesis using k(2,3) h(1) by (auto simp: flight_ok_def authentic_def)
  qed
  with ok s' show ?thesis by blast
qed

lemma remember_key_ok:
  assumes "length keys \<le> MAX_KEYS"
  shows "length (remember_key h key keys) \<le> MAX_KEYS" "set (remember_key h key keys) \<subseteq> insert (h, key) (set keys)"
proof -
  let ?ks = "ddel h keys @ [(h, key)]"
  have "length ?ks \<le> Suc MAX_KEYS" using assms by (simp add: AList.delete_eq le_trans [OF length_filter_le])
  then show "length (remember_key h key keys) \<le> MAX_KEYS" by (auto simp: remember_key_def Let_def)
  have ks: "set ?ks \<subseteq> insert (h, key) (set keys)" by (auto simp: AList.delete_eq)
  have "set (tl ?ks) \<subseteq> set ?ks" by (cases ?ks) auto
  from order_trans [OF this ks] ks show "set (remember_key h key keys) \<subseteq> insert (h, key) (set keys)"
    by (cases "MAX_KEYS < length ?ks") (simp_all only: remember_key_def Let_def if_True if_False)
qed

lemma books_insert:
  assumes "books es ns cs" "dget ns (h, x) = None"
  shows "books (insort (t, h, x) es) (dset (h, x) t ns) (dset h (dget_default cs h 0 + 1) cs)"
  unfolding books_def
proof (intro conjI allI)
  note b = booksD [OF assms(1)]
  have new: "(h, x) \<notin> snd ` set es"
  proof
    assume "(h, x) \<in> snd ` set es"
    then obtain u where "(u, h, x) \<in> set es" by force
    with b(4) [of u "(h, x)"] assms(2) show False by simp
  qed
  show "dict_ok (dset (h, x) t ns)" "dict_ok (dset h (dget_default cs h 0 + 1) cs)" using b(1,2) by simp_all
  have "mset (map snd (insort (t, h, x) es)) = mset ((h, x) # map snd es)" by (simp add: mset_map)
  with b(3) new show "distinct (map snd (insort (t, h, x) es))" by (metis distinct.simps(2) list.set_map mset_eq_imp_distinct_iff)
  show "(u, k) \<in> set (insort (t, h, x) es) \<longleftrightarrow> dget (dset (h, x) t ns) k = Some u" for u k
  proof (cases "k = (h, x)")
    case True
    then have "(u, k) \<notin> set es" using new by (metis image_eqI snd_conv)
    with True show ?thesis by (auto simp: set_insort_key simp del: map_of_eq_Some_iff)
  next
    case False
    then show ?thesis using b(4) [of u k] by (simp add: set_insort_key del: map_of_eq_Some_iff)
  qed
  have "0 \<le> owned_by g ns" for g by (simp add: owned_by_def)
  then show "dget (dset h (dget_default cs h 0 + 1) cs) g =
      (if owned_by g (dset (h, x) t ns) = 0 then None else Some (owned_by g (dset (h, x) t ns)))" for g
    using b(5) [of g] b(5) [of h] by (auto simp: owned_by_dset [OF assms(2)] dget_default_def) (smt (verit))
qed

lemma finish_verify_spec:
  assumes "finish_verify authorize f s = (r, s')" "auth_inv env s" "keypair_from_hotkey env (fl_hotkey f) = Inr (fl_key f)"
  shows "auth_inv env s' \<and> (\<exists>ns. forgets (fl_now f) (as_nonces s) ns \<and>
    (case r of Inl _ \<Rightarrow> as_nonces s' = ns
     | Inr h \<Rightarrow> h = fl_hotkey f \<and> dget ns (h, fl_nonce f) = None \<and>
         as_nonces s' = dset (h, fl_nonce f) (int (nat_of_digits (fl_nonce f)) + WINDOW + 1) ns))"
proof (cases "authorize (fl_hotkey f)")
  case (Inl e)
  with assms(1,2) show ?thesis by (auto simp: finish_verify_def act_bind_def act_simps forgets_refl)
next
  case (Inr u)
  obtain c s1 where c: "check_nonce (fl_hotkey f) (fl_nonce f) (fl_now f) s = (c, s1)" by force
  note cs = check_nonce_spec [OF c assms(2)]
  then have inv1: "auth_inv env s1" and fo: "forgets (fl_now f) (as_nonces s) (as_nonces s1)" by auto
  show ?thesis
  proof (cases c)
    case (Inl e)
    with Inr c assms(1) have "r = Inl e" "s' = s1" by (auto simp: finish_verify_def act_bind_def act_simps)
    with inv1 fo show ?thesis by auto
  next
    case ok: (Inr u')
    let ?t = "int (nat_of_digits (fl_nonce f)) + WINDOW + 1" and ?h = "fl_hotkey f" and ?n = "fl_nonce f"
    have r: "r = Inr ?h" and s': "s' = s1\<lparr>as_nonces := dset (?h, ?n) ?t (as_nonces s1),
        as_expiry := insort (?t, ?h, ?n) (as_expiry s1),
        as_counts := dset ?h (dget_default (as_counts s1) ?h 0 + 1) (as_counts s1),
        as_keys := remember_key ?h (fl_key f) (as_keys s1)\<rparr>"
      using Inr c ok assms(1) by (auto simp: finish_verify_def act_bind_def act_simps Let_def)
    from cs ok have free: "dget (as_nonces s1) (?h, ?n) = None" "length (as_nonces s1) < MAX_NONCES"
      "dget_default (as_counts s1) ?h 0 < MAX_PER_HOTKEY" by auto
    note inv = auth_invD [OF inv1]
    note keys = remember_key_ok [OF inv(6), of ?h "fl_key f"]
    have "auth_inv env s'"
      unfolding auth_inv_def
    proof (intro conjI allI impI ballI)
      show "books (as_expiry s') (as_nonces s') (as_counts s')" using books_insert [OF inv(1) free(1)] by (simp add: s')
      show "length (as_nonces s') \<le> MAX_NONCES" using free(1,2) by (simp add: s' length_dset_new)
      show "k \<le> MAX_PER_HOTKEY" if "dget (as_counts s') g = Some k" for g k
        using that free(3) inv(3) by (auto simp: s' split: if_splits)
      show "t = int (nat_of_digits y) + WINDOW + 1" if "dget (as_nonces s') (g, y) = Some t" for g y t
        using that inv(4) by (auto simp: s' simp del: map_of_eq_Some_iff split: if_splits)
      show "keypair_from_hotkey env (fst p) = Inr (snd p)" if "p \<in> set (as_keys s')" for p
        using that keys(2) inv(5) assms(3) by (auto simp: s')
      show "length (as_keys s') \<le> MAX_KEYS" using keys(1) by (simp add: s')
    qed
    with r fo free(1) show ?thesis by (auto simp: s')
  qed
qed

section \<open>Runs\<close>

text \<open>
  An accepted pair is remembered, or some reading of the clock was beyond its window; and none was
  accepted again before that.
\<close>

definition remembered :: "(string \<times> string, int) dict \<Rightarrow> int list \<Rightarrow> acceptance \<Rightarrow> bool" where
  "remembered ns readings x = (\<not> in_window readings (ac_nonce x) \<or>
     dget ns (ac_hotkey x, ac_nonce x) = Some (int (nat_of_digits (ac_nonce x)) + WINDOW + 1))"

fun once_in_window :: "acceptance list \<Rightarrow> bool" where
  "once_in_window [] = True"
| "once_in_window (x # earlier) = (once_in_window earlier \<and> ac_now x \<le> int (nat_of_digits (ac_nonce x)) + WINDOW \<and>
     (in_window (ac_readings x) (ac_nonce x) \<longrightarrow>
        (ac_hotkey x, ac_nonce x) \<notin> (\<lambda>y. (ac_hotkey y, ac_nonce y)) ` set earlier))"

lemma once_in_windowD: "once_in_window (later @ x # earlier) \<Longrightarrow> once_in_window (x # earlier)"
  by (induction later) auto

definition run_inv :: "'k auth_env \<Rightarrow> 'k auth_run \<Rightarrow> bool" where
  "run_inv env a = (auth_inv env (ar_state a) \<and>
     (\<forall>f\<in>set (ar_flight a). flight_ok env f \<and> fl_now f \<in> set (ar_readings a) \<and>
        fl_now f \<le> int (nat_of_digits (fl_nonce f)) + WINDOW) \<and>
     (\<forall>x\<in>set (ar_accepted a). authentic env (ac_hotkey x) (ac_nonce x) \<and>
        remembered (as_nonces (ar_state a)) (ar_readings a) x) \<and>
     once_in_window (ar_accepted a))"

lemma accepted_kept:
  assumes "remembered ns rs x" "forgets now ns ns'" "set rs \<subseteq> set rs'" "now \<in> set rs'"
  shows "remembered ns' rs' x"
proof (cases "in_window rs' (ac_nonce x)")
  case True
  then have "in_window rs (ac_nonce x)" using assms(3) by (auto simp: in_window_def)
  moreover have "now < int (nat_of_digits (ac_nonce x)) + WINDOW + 1" using True assms(4) by (auto simp: in_window_def)
  ultimately show ?thesis using assms(1) forgetsD(3) [OF assms(2)] unfolding remembered_def by blast
qed (simp add: remembered_def)

lemma run_inv_begin:
  assumes "begin_verify env authorize now req (ar_state a) = (r, s)" "run_inv env a"
  shows "auth_inv env s" "x \<in> set (ar_accepted a) \<Longrightarrow> remembered (as_nonces s) (now # ar_readings a) x"
    "r = Inr f \<Longrightarrow> flight_ok env f \<and> fl_now f = now \<and> now \<le> int (nat_of_digits (fl_nonce f)) + WINDOW"
proof -
  have inv: "auth_inv env (ar_state a)" using assms(2) by (simp add: run_inv_def)
  note b = begin_verify_spec [OF assms(1) inv]
  then show "auth_inv env s" "r = Inr f \<Longrightarrow> flight_ok env f \<and> fl_now f = now \<and> now \<le> int (nat_of_digits (fl_nonce f)) + WINDOW"
    by blast+
  assume "x \<in> set (ar_accepted a)"
  with assms(2) have "remembered (as_nonces (ar_state a)) (ar_readings a) x" by (simp add: run_inv_def)
  with b show "remembered (as_nonces s) (now # ar_readings a) x" by (auto elim!: accepted_kept)
qed

lemma run_inv_finish:
  assumes "finish_verify authorize f (ar_state a) = (r, s)" "run_inv env a" "f \<in> set (ar_flight a)"
  obtains ns where "auth_inv env s" "\<And>x. x \<in> set (ar_accepted a) \<Longrightarrow> remembered ns (ar_readings a) x"
    "case r of Inl _ \<Rightarrow> as_nonces s = ns
     | Inr h \<Rightarrow> h = fl_hotkey f \<and> dget ns (h, fl_nonce f) = None \<and>
         as_nonces s = dset (h, fl_nonce f) (int (nat_of_digits (fl_nonce f)) + WINDOW + 1) ns"
proof -
  have inv: "auth_inv env (ar_state a)" and f: "flight_ok env f" "fl_now f \<in> set (ar_readings a)"
    using assms(2,3) by (auto simp: run_inv_def)
  have key: "keypair_from_hotkey env (fl_hotkey f) = Inr (fl_key f)" using f(1) by (simp add: flight_ok_def)
  from finish_verify_spec [OF assms(1) inv key] obtain ns where ns: "auth_inv env s"
    "forgets (fl_now f) (as_nonces (ar_state a)) ns"
    "case r of Inl _ \<Rightarrow> as_nonces s = ns
     | Inr h \<Rightarrow> h = fl_hotkey f \<and> dget ns (h, fl_nonce f) = None \<and>
         as_nonces s = dset (h, fl_nonce f) (int (nat_of_digits (fl_nonce f)) + WINDOW + 1) ns" by blast
  have "remembered ns (ar_readings a) x" if "x \<in> set (ar_accepted a)" for x
    using accepted_kept [OF _ ns(2) subset_refl f(2), of x] assms(2) that by (simp add: run_inv_def)
  with ns(1,3) that show ?thesis by blast
qed

lemma run_inv_step: "auth_step env a b \<Longrightarrow> run_inv env a \<Longrightarrow> run_inv env b"
proof (induction rule: auth_step.induct)
  case (begins authorize now req a f s)
  from run_inv_begin [OF begins(1,2)] begins.prems show ?case by (auto simp: run_inv_def)
next
  case (rejects authorize now req a e s)
  from run_inv_begin [OF rejects(1,2)] rejects.prems show ?case by (auto simp: run_inv_def)
next
  case (accepts f a authorize h s)
  let ?x = "\<lparr>ac_hotkey = h, ac_nonce = fl_nonce f, ac_now = fl_now f, ac_readings = ar_readings a\<rparr>"
  from run_inv_finish [OF accepts(2,3,1)] obtain ns where
    b: "auth_inv env s" "\<And>x. x \<in> set (ar_accepted a) \<Longrightarrow> remembered ns (ar_readings a) x"
      "h = fl_hotkey f" "dget ns (h, fl_nonce f) = None"
      "as_nonces s = dset (h, fl_nonce f) (int (nat_of_digits (fl_nonce f)) + WINDOW + 1) ns" by auto
  have f: "authentic env h (fl_nonce f)" "fl_now f \<le> int (nat_of_digits (fl_nonce f)) + WINDOW"
    using accepts.prems accepts(1) b(3) by (auto simp: run_inv_def flight_ok_def)
  have "(h, fl_nonce f) \<notin> (\<lambda>y. (ac_hotkey y, ac_nonce y)) ` set (ar_accepted a)"
    if "in_window (ar_readings a) (fl_nonce f)"
    using b(2,4) that by (fastforce simp: remembered_def)
  moreover have "remembered (as_nonces s) (ar_readings a) x" if "x \<in> set (ar_accepted a)" for x
    using b(2) [OF that] by (auto simp: remembered_def b(5))
  moreover have "remembered (as_nonces s) (ar_readings a) ?x" by (simp add: remembered_def b(5))
  ultimately show ?case using accepts.prems b(1) f by (auto simp: run_inv_def dest: notin_set_remove1 in_set_remove1)
next
  case (refuses f a authorize e s)
  from run_inv_finish [OF refuses(2,3,1)] refuses.prems show ?case
    by (auto simp: run_inv_def dest: in_set_remove1 notin_set_remove1)
qed

lemma run_inv_run: "(auth_step env)\<^sup>*\<^sup>* auth_start a \<Longrightarrow> run_inv env a"
  by (induction rule: rtranclp_induct) (auto simp: run_inv_step, simp add: run_inv_def auth_start_def auth_inv_new)

text \<open>
  C24: Replay protection: under any interleaving of the verifying threads, a pair of hotkey and nonce
  that was accepted is accepted again only for a request that outlived its window under verification:
  its own reading of the clock was within the window of the nonce, and by the time it was accepted
  some thread had read the clock beyond that window. Until then nothing accepts the pair again.
\<close>

theorem nonce_accepted_once:
  assumes "(auth_step env)\<^sup>*\<^sup>* auth_start a" "ar_accepted a = later @ x # earlier"
    "y \<in> set earlier" "ac_hotkey y = ac_hotkey x" "ac_nonce y = ac_nonce x"
  shows "ac_now x \<le> int (nat_of_digits (ac_nonce x)) + WINDOW \<and>
    (\<exists>t\<in>set (ac_readings x). int (nat_of_digits (ac_nonce x)) + WINDOW < t)"
proof -
  have "once_in_window (x # earlier)"
    using run_inv_run [OF assms(1)] assms(2) by (auto simp: run_inv_def dest: once_in_windowD)
  moreover have "(ac_hotkey x, ac_nonce x) \<in> (\<lambda>y. (ac_hotkey y, ac_nonce y)) ` set earlier"
    using assms(3) by (rule image_eqI [rotated]) (simp add: assms(4,5))
  ultimately show ?thesis by (auto simp: in_window_def not_le)
qed

text \<open>
  Every accepted request was signed by the key of its hotkey over its method, path, body, nonce and
  hotkey within the window of the nonce; and in every interleaving the three books of the authenticator
  agree and stay within their limits.
\<close>

theorem accepted_is_authentic:
  assumes "(auth_step env)\<^sup>*\<^sup>* auth_start a"
  shows "(\<forall>x\<in>set (ar_accepted a). authentic env (ac_hotkey x) (ac_nonce x)) \<and>
    (let s = ar_state a in length (as_nonces s) \<le> 100000 \<and> length (as_keys s) \<le> 4096 \<and>
       (\<forall>h. dget_default (as_counts s) h 0 = owned_by h (as_nonces s) \<and> owned_by h (as_nonces s) \<le> 256) \<and>
       (\<forall>t k. (t, k) \<in> set (as_expiry s) \<longleftrightarrow> dget (as_nonces s) k = Some t))"
proof -
  have r: "run_inv env a" by (rule run_inv_run [OF assms])
  then have inv: "auth_inv env (ar_state a)" by (simp add: run_inv_def)
  note i = auth_invD [OF inv]
  note b = booksD [OF i(1)]
  have nn: "0 \<le> owned_by h (as_nonces (ar_state a))" for h by (simp add: owned_by_def)
  have "dget_default (as_counts (ar_state a)) h 0 = owned_by h (as_nonces (ar_state a))" for h
    using b(5) [of h] nn by (auto simp: dget_default_def)
  moreover have "owned_by h (as_nonces (ar_state a)) \<le> 256" for h
    using b(5) [of h] i(3) [of h "owned_by h (as_nonces (ar_state a))"] nn [of h]
    by (cases "owned_by h (as_nonces (ar_state a)) = 0") (auto simp: MAX_PER_HOTKEY_def)
  ultimately show ?thesis
    using r i(2,6) b(4) unfolding run_inv_def Let_def MAX_NONCES_def MAX_KEYS_def by blast
qed

section \<open>Signed requests pass once\<close>

lemma nat_digits_length:
  "n < 10 ^ Suc k \<Longrightarrow> length (nat_digits n) \<le> Suc k" "10 ^ k \<le> n \<Longrightarrow> Suc k \<le> length (nat_digits n)"
proof (induction k arbitrary: n)
  case 0
  { case 1 then show ?case by (subst nat_digits.simps) simp }
  { case 2 then show ?case by (subst nat_digits.simps) simp }
next
  case (Suc k)
  { case 1
    then have "n div 10 < 10 ^ Suc k" by (simp add: less_mult_imp_div_less mult.commute)
    from Suc.IH(1) [OF this] show ?case by (subst nat_digits.simps) simp }
  { case 2
    then have "10 ^ k \<le> n div 10" by (simp add: less_eq_div_iff_mult_less_eq mult.commute)
    moreover from this have "\<not> n < 10" using one_le_power [of "10::nat" k] by (auto dest: div_less)
    ultimately show ?case using Suc.IH(2) [of "n div 10"] by (subst nat_digits.simps) simp }
qed

lemma nat_digits_first: "0 < n \<Longrightarrow> \<exists>c cs. nat_digits n = c # cs \<and> c \<noteq> CHR ''0''"
proof (induction n rule: nat_digits.induct)
  case (1 n)
  show ?case
  proof (cases "n < 10")
    case True
    have "(of_char (char_of (48 + n)) :: nat) = 48 + n" using True by simp
    moreover have "(of_char (CHR ''0'') :: nat) = 48" by code_simp
    ultimately have "char_of (48 + n) \<noteq> CHR ''0''" using \<open>0 < n\<close> by (metis add_0_right add_left_cancel nat_less_le)
    with True show ?thesis by (subst nat_digits.simps) simp
  next
    case False
    then obtain c cs where "nat_digits (n div 10) = c # cs" "c \<noteq> CHR ''0''" using 1 by force
    with False show ?thesis by (subst nat_digits.simps) simp
  qed
qed

lemma nonce_ok_time:
  assumes "10 ^ 15 \<le> t" "t < 10 ^ 20"
  shows "nonce_ok (show_int t)" "int (nat_of_digits (show_int t)) = t"
proof -
  have t: "show_int t = nat_digits (nat t)" "0 < nat t" using assms by (auto simp: show_int_def)
  obtain c cs where d: "nat_digits (nat t) = c # cs" "c \<noteq> CHR ''0''" using nat_digits_first [OF t(2)] by blast
  have "length (nat_digits (nat t)) \<le> 20" using nat_digits_length(1) [of "nat t" 19] assms by simp
  moreover have "16 \<le> length (nat_digits (nat t))" using nat_digits_length(2) [of 15 "nat t"] assms by simp
  moreover have "list_all is_digit (c # cs)" using nat_digits_digits [of _ "nat t"] d by (auto simp: list_all_iff)
  ultimately show "nonce_ok (show_int t)" using d by (simp add: nonce_ok_def t(1))
  show "int (nat_of_digits (show_int t)) = t" using assms by (simp add: t(1) nat_of_digits_digits)
qed




section \<open>Examples\<close>

definition example_auth :: "unit auth_env" where
  "example_auth = \<lparr>ae_sha = (\<lambda>b. replicate 64 (CHR ''0'')), ae_format = (\<lambda>_. True), ae_keypair = (\<lambda>_. Inr ()),
     ae_verify = (\<lambda>_ msg sg. sg = replicate 128 (CHR ''a''))\<rparr>"


definition example_hotkey :: string where
  "example_hotkey = replicate 48 (CHR ''5'')"

definition example_nonce :: string where
  "example_nonce = show_int 1700000000000000000"

lemma example_nonce_ok: "nonce_ok example_nonce" "int (nat_of_digits example_nonce) = 1700000000000000000"
  unfolding example_nonce_def by (rule nonce_ok_time; simp)+

lemma example_hotkey_ok: "hotkey_ok example_hotkey" "signature_ok (''0x'' @ replicate 128 (CHR ''a''))"
  by code_simp+

definition signed_request :: auth_request where
  "signed_request = \<lparr>rq_method = ''POST'', rq_path = ''/v1/pods/start'', rq_body = ''body'', rq_headers =
     [(''x-bittensor-version'', ''1''), (''x-bittensor-hotkey'', example_hotkey), (''x-bittensor-receiver'', ''404-witness''),
      (''x-bittensor-nonce'', example_nonce), (''x-bittensor-signature'', ''0x'' @ replicate 128 (CHR ''a''))]\<rparr>"


definition admitted :: "string \<Rightarrow> unit result" where
  "admitted h = Inr ()"


text \<open>Two threads verify the same request; the first to finish is accepted, the other refused.\<close>

definition example_flight :: "unit in_flight" where
  "example_flight = \<lparr>fl_hotkey = example_hotkey, fl_nonce = example_nonce, fl_key = (), fl_now = 1700000000000000005\<rparr>"

definition example_accepted :: "unit auth_state" where
  "example_accepted = \<lparr>as_nonces = [((example_hotkey, example_nonce), 1700000030000000001)],
     as_expiry = [(1700000030000000001, example_hotkey, example_nonce)], as_counts = [(example_hotkey, 1)],
     as_keys = [(example_hotkey, ())]\<rparr>"

lemma example_pieces:
  "begin_verify example_auth admitted 1700000000000000005 signed_request new_auth = (Inr example_flight, new_auth)"
  "finish_verify admitted example_flight new_auth = (Inr example_hotkey, example_accepted)"
  "finish_verify admitted example_flight example_accepted = (Inl (AuthRejected ''replayed_hotkey_auth'' 401), example_accepted)"
proof -
  have h: "checked_headers signed_request 1700000000000000005 =
      Inr (example_hotkey, example_nonce, ''0x'' @ replicate 128 (CHR ''a''))"
    using example_nonce_ok example_hotkey_ok(2)
    by (simp add: checked_headers_def signed_request_def header_def dget_default_def WINDOW_def)
  have key: "keypair_from_hotkey example_auth example_hotkey = Inr ()"
    using example_hotkey_ok(1) by (simp add: keypair_from_hotkey_def example_auth_def)
  show "begin_verify example_auth admitted 1700000000000000005 signed_request new_auth = (Inr example_flight, new_auth)"
    by (simp add: begin_verify_def h act_bind_def act_simps admitted_def check_nonce_def new_auth_def dhas_def dget_default_def
        MAX_NONCES_def MAX_PER_HOTKEY_def key example_flight_def) (simp add: example_auth_def)
  show "finish_verify admitted example_flight new_auth = (Inr example_hotkey, example_accepted)"
    using example_nonce_ok(2)
    by (simp add: finish_verify_def act_bind_def act_simps admitted_def check_nonce_def new_auth_def dhas_def dget_default_def
        MAX_NONCES_def MAX_PER_HOTKEY_def example_flight_def Let_def WINDOW_def remember_key_def MAX_KEYS_def example_accepted_def)
  show "finish_verify admitted example_flight example_accepted = (Inl (AuthRejected ''replayed_hotkey_auth'' 401), example_accepted)"
    by (simp add: finish_verify_def act_bind_def act_simps admitted_def check_nonce_def dhas_def example_flight_def
        example_accepted_def)
qed

text \<open>
  Half a minute later a request with a fresh nonce makes the authenticator forget the first one, and
  the second copy of it, verified since with its old reading of the clock, is accepted after all.
\<close>

definition late_nonce :: string where
  "late_nonce = show_int 1700000031000000000"

lemma late_nonce_ok: "nonce_ok late_nonce" "int (nat_of_digits late_nonce) = 1700000031000000000"
  unfolding late_nonce_def by (rule nonce_ok_time; simp)+

definition late_request :: auth_request where
  "late_request = signed_request\<lparr>rq_headers := dset ''x-bittensor-nonce'' late_nonce (rq_headers signed_request)\<rparr>"

definition late_flight :: "unit in_flight" where
  "late_flight = \<lparr>fl_hotkey = example_hotkey, fl_nonce = late_nonce, fl_key = (), fl_now = 1700000031000000005\<rparr>"

definition forgotten :: "unit auth_state" where
  "forgotten = new_auth\<lparr>as_keys := [(example_hotkey, ())]\<rparr>"

lemma late_pieces:
  "begin_verify example_auth admitted 1700000031000000005 late_request example_accepted = (Inr late_flight, forgotten)"
  "finish_verify admitted example_flight forgotten = (Inr example_hotkey, example_accepted)"
proof -
  have h: "checked_headers late_request 1700000031000000005 =
      Inr (example_hotkey, late_nonce, ''0x'' @ replicate 128 (CHR ''a''))"
    using late_nonce_ok example_hotkey_ok(2)
    by (simp add: checked_headers_def late_request_def signed_request_def header_def dget_default_def WINDOW_def)
  show "begin_verify example_auth admitted 1700000031000000005 late_request example_accepted = (Inr late_flight, forgotten)"
    by (simp add: begin_verify_def h act_bind_def act_simps admitted_def check_nonce_def new_auth_def dhas_def dget_default_def
        MAX_NONCES_def MAX_PER_HOTKEY_def late_flight_def example_accepted_def forgotten_def) (simp add: example_auth_def)
  show "finish_verify admitted example_flight forgotten = (Inr example_hotkey, example_accepted)"
    using example_nonce_ok(2)
    by (simp add: finish_verify_def act_bind_def act_simps admitted_def check_nonce_def new_auth_def dhas_def dget_default_def
        MAX_NONCES_def MAX_PER_HOTKEY_def example_flight_def Let_def WINDOW_def remember_key_def MAX_KEYS_def
        example_accepted_def forgotten_def)
qed

abbreviation example_acceptance :: "int list \<Rightarrow> acceptance" where
  "example_acceptance readings \<equiv>
     \<lparr>ac_hotkey = example_hotkey, ac_nonce = example_nonce, ac_now = 1700000000000000005, ac_readings = readings\<rparr>"

definition example_replayed :: "unit auth_run" where
  "example_replayed = \<lparr>ar_state = example_accepted, ar_flight = [late_flight],
     ar_accepted = [example_acceptance [1700000031000000005, 1700000000000000005, 1700000000000000005],
       example_acceptance [1700000000000000005, 1700000000000000005]],
     ar_readings = [1700000031000000005, 1700000000000000005, 1700000000000000005]\<rparr>"

lemma example_auth_run: "(auth_step example_auth)\<^sup>*\<^sup>* auth_start example_replayed"
proof -
  let ?now = "1700000000000000005 :: int" and ?later = "1700000031000000005 :: int"
  let ?a = "auth_start\<lparr>ar_state := new_auth, ar_flight := [example_flight], ar_readings := [?now]\<rparr>"
  let ?b = "?a\<lparr>ar_state := new_auth, ar_flight := [example_flight, example_flight], ar_readings := [?now, ?now]\<rparr>"
  let ?c = "?b\<lparr>ar_state := example_accepted, ar_flight := [example_flight], ar_accepted := [example_acceptance [?now, ?now]]\<rparr>"
  let ?d = "?c\<lparr>ar_state := forgotten, ar_flight := [late_flight, example_flight], ar_readings := [?later, ?now, ?now]\<rparr>"
  have "auth_step example_auth auth_start ?a"
    using auth_step.begins [of example_auth admitted ?now signed_request auth_start example_flight new_auth]
      example_pieces(1) by (simp add: auth_start_def)
  moreover have "auth_step example_auth ?a ?b"
    using auth_step.begins [of example_auth admitted ?now signed_request ?a example_flight new_auth]
      example_pieces(1) by (simp add: auth_start_def)
  moreover have "auth_step example_auth ?b ?c"
    using auth_step.accepts [of example_flight ?b admitted example_hotkey example_accepted example_auth]
      example_pieces(2) by (simp add: auth_start_def example_flight_def)
  moreover have "auth_step example_auth ?c ?d"
    using auth_step.begins [of example_auth admitted ?later late_request ?c late_flight forgotten]
      late_pieces(1) by (simp add: auth_start_def)
  moreover have "auth_step example_auth ?d example_replayed"
    using auth_step.accepts [of example_flight ?d admitted example_hotkey example_accepted example_auth]
      late_pieces(2) by (simp add: auth_start_def example_flight_def late_flight_def example_replayed_def)
  ultimately show ?thesis by (meson converse_rtranclp_into_rtranclp rtranclp.rtrancl_refl)
qed

theorem nonce_accepted_once_witness:
  "(auth_step example_auth)\<^sup>*\<^sup>* auth_start example_replayed \<and>
     map (\<lambda>x. (ac_hotkey x, ac_nonce x)) (ar_accepted example_replayed) =
       [(example_hotkey, example_nonce), (example_hotkey, example_nonce)] \<and>
     (\<exists>t\<in>set (ar_readings example_replayed). int (nat_of_digits example_nonce) + WINDOW < t)"
proof -
  let ?y = "example_acceptance [1700000000000000005, 1700000000000000005]"
  let ?x = "example_acceptance [1700000031000000005, 1700000000000000005, 1700000000000000005]"
  have "\<exists>t\<in>set (ac_readings ?x). int (nat_of_digits (ac_nonce ?x)) + WINDOW < t"
    using nonce_accepted_once [OF example_auth_run, of "[]" ?x "[?y]" ?y] by (auto simp: example_replayed_def)
  then show ?thesis using example_auth_run by (simp add: example_replayed_def)
qed

theorem accepted_is_authentic_witness:
  "authentic example_auth example_hotkey example_nonce"
  using accepted_is_authentic [OF example_auth_run] by (simp add: example_replayed_def)

end
