(* ===== verification/PodSpec.thy ===== *)
theory PodSpec
  imports WitnessModels Submissions "HOL-Library.Word"
begin

text \<open>
  What the gateway asks the provider for: the shape of a pod and the body of a create request, from
  \<^verbatim>\<open>shared/subnet_common/witness/models.py\<close>, and the tokens derived for a pod, from \<^verbatim>\<open>witness/security.py\<close>. HMAC,
  SHA-256, Base64 and the JSON printer are parameters; byte strings are character lists.
\<close>

unbundle bit_operations_syntax

section \<open>Tokens\<close>

record crypto =
  cy_hmac :: "string \<Rightarrow> string \<Rightarrow> string"
  cy_sha :: "string \<Rightarrow> string"
  cy_digest :: "string \<Rightarrow> string"
  cy_unhex :: "string \<Rightarrow> string result"
  cy_dumps :: "json \<Rightarrow> string"
  cy_loads :: "string \<Rightarrow> json result"
  cy_b64 :: "string \<Rightarrow> string"
  cy_unb64 :: "string \<Rightarrow> string result"

definition lf :: string where "lf = [CHR 0x0A]"

definition capability_message :: "scope \<Rightarrow> string \<Rightarrow> string" where
  "capability_message s start_id = ''404-pod/v1'' @ lf @ scope_key s @ lf @ start_id"

definition capability :: "crypto \<Rightarrow> string \<Rightarrow> scope \<Rightarrow> string \<Rightarrow> string result" where
  "capability cy secret s start_id =
     (if length secret < 32 then Inl (ValueError ''Pod capability master key must contain at least 32 bytes'')
      else rmap (\<lambda>i. cy_hmac cy secret (capability_message s i)) (session_uuid start_id))"

definition capture_message :: "string \<Rightarrow> string \<Rightarrow> string" where
  "capture_message exchange_id capture_id = ''404-capture/v1'' @ lf @ exchange_id @ lf @ capture_id"

definition capture_token :: "crypto \<Rightarrow> string \<Rightarrow> string \<Rightarrow> string \<Rightarrow> string result" where
  "capture_token cy token exchange_id capture_id =
     rbind (session_uuid exchange_id) (\<lambda>e.
     rbind (session_uuid capture_id) (\<lambda>c.
     rbind (cy_unhex cy token) (\<lambda>key. Inr (cy_hmac cy key (capture_message e c)))))"

text \<open>The value a miner presents to its pod: a payload and its signature.\<close>

definition access_claims :: "scope \<Rightarrow> string \<Rightarrow> string \<Rightarrow> int \<Rightarrow> json" where
  "access_claims s start_id pod_id expires = JObj [(''scope'', JStr (scope_key s)), (''start_id'', JStr start_id),
     (''pod_id'', JStr pod_id), (''expires'', JInt expires)]"

definition miner_access :: "crypto \<Rightarrow> string \<Rightarrow> scope \<Rightarrow> string \<Rightarrow> string \<Rightarrow> int \<Rightarrow> string result" where
  "miner_access cy token s start_id pod_id expires =
     rbind (session_uuid start_id) (\<lambda>i.
       let payload = cy_b64 cy (cy_dumps cy (access_claims s i pod_id expires))
       in rbind (cy_unhex cy token) (\<lambda>key.
            Inr (payload @ ''.'' @ cy_hmac cy key (''404-miner/v1'' @ lf @ payload))))"

text \<open>\<^verbatim>\<open>verify_miner_access\<close> at a time; any error of the parsing is a refusal.\<close>

definition verify_miner_access :: "crypto \<Rightarrow> pyfloat \<Rightarrow> string \<Rightarrow> string \<Rightarrow> scope \<Rightarrow> string \<Rightarrow> string \<Rightarrow> bool" where
  "verify_miner_access cy now presented token s start_id pod_id =
     (case rbind (cy_unb64 cy (hd (split_on (CHR ''.'') presented))) (cy_loads cy) of
        Inr (JObj claims) \<Rightarrow>
          (case dget claims ''expires'' of
             Some (JInt expires) \<Rightarrow> now < of_int expires \<and> miner_access cy token s start_id pod_id expires = Inr presented
           | _ \<Rightarrow> False)
      | _ \<Rightarrow> False)"

section \<open>The shape of a pod\<close>

record pod_spec =
  sp_image :: string
  sp_cpu :: string
  sp_vcpus :: int
  sp_disk :: int
  sp_port :: int
  sp_sites :: "string list"
  sp_env :: "(string, string) dict"
  sp_secret :: "string option"
  sp_registry :: "string option"

definition upper_alnum :: string where
  "upper_alnum = ''ABCDEFGHIJKLMNOPQRSTUVWXYZ0123456789''"

definition image_chars :: string where
  "image_chars = ''ABCDEFGHIJKLMNOPQRSTUVWXYZ_./:-'' @ lower_alnum"

text \<open>\<^verbatim>\<open>[A-Za-z0-9_./:-]+@sha256:[0-9a-f]{64}\<close>\<close>

definition image_ok :: "string \<Rightarrow> bool" where
  "image_ok s = (case split_on (CHR ''@'') s of
     [name, digest] \<Rightarrow> name \<noteq> [] \<and> list_all (in_chars image_chars) name \<and> take 7 digest = ''sha256:'' \<and> hash_ok (drop 7 digest)
   | _ \<Rightarrow> False)"

definition cpu_ok :: "string \<Rightarrow> bool" where
  "cpu_ok s = (s \<noteq> [] \<and> list_all (in_chars (CHR ''-'' # lower_alnum)) s)"

definition site_ok :: "string \<Rightarrow> bool" where
  "site_ok s = (s \<noteq> [] \<and> list_all (in_chars (CHR ''-'' # upper_alnum)) s)"

definition reserved_name :: "string \<Rightarrow> bool" where
  "reserved_name k = (k \<in> set (''WITNESS_POD_CAPABILITY'' # MARKERS) \<or> take 7 k = ''RUNPOD_'')"

definition validate_spec :: "pod_spec \<Rightarrow> unit result" where
  "validate_spec sp =
     (if \<not> image_ok (sp_image sp) then Inl (ValueError ''Witness image must be pinned by SHA256 digest'')
      else if \<not> cpu_ok (sp_cpu sp) then Inl (ValueError ''Invalid CPU flavor'')
      else if sp_vcpus sp < 2 \<or> sp_vcpus sp AND (sp_vcpus sp - 1) \<noteq> 0 \<or> sp_disk sp < 1 \<or> \<not> (1 \<le> sp_port sp \<and> sp_port sp \<le> 65535)
      then Inl (ValueError ''Invalid CPU Pod shape'')
      else if list_ex reserved_name (dkeys (sp_env sp)) then Inl (ValueError ''Reserved environment variable'')
      else if (case sp_secret sp of None \<Rightarrow> False | Some k \<Rightarrow> length k < 32)
      then Inl (ValueError ''Pod capability master key is too short'')
      else if (case sp_registry sp of None \<Rightarrow> False | Some r \<Rightarrow> r = [] \<or> 128 < length r)
      then Inl (ValueError ''Invalid container registry credential ID'')
      else if \<not> list_all site_ok (sp_sites sp) then Inl (ValueError ''Invalid data center ID'')
      else Inr ())"

definition env_json :: "(string, string) dict \<Rightarrow> json" where
  "env_json env = JObj (map (\<lambda>(k, v). (k, JStr v)) env)"

definition spec_body :: "pod_spec \<Rightarrow> (string, json) dict" where
  "spec_body sp =
     [(''image'', JStr (sp_image sp)), (''cloud'', JStr ''SECURE''),
      (''cpu'', JObj [(''id'', JStr (sp_cpu sp)), (''vcpuCount'', JInt (sp_vcpus sp))]),
      (''disk'', JInt (sp_disk sp)), (''ports'', JList [JStr (show_int (sp_port sp) @ ''/tcp'')]), (''env'', env_json (sp_env sp))] @
     (if sp_sites sp = [] then [] else [(''dataCenterIds'', JList (map JStr (sp_sites sp)))]) @
     (case sp_registry sp of None \<Rightarrow> [] | Some r \<Rightarrow> [(''registry'', JStr r)])"

definition fingerprint :: "crypto \<Rightarrow> pod_spec \<Rightarrow> string" where
  "fingerprint cy sp = cy_sha cy (cy_dumps cy (JObj (spec_body sp)) @ (case sp_secret sp of None \<Rightarrow> [] | Some k \<Rightarrow> cy_digest cy k))"

text \<open>The body of the create request of a start.\<close>

definition create_body :: "crypto \<Rightarrow> pod_spec \<Rightarrow> scope \<Rightarrow> string \<Rightarrow> int \<Rightarrow> string option \<Rightarrow> (string, json) dict result" where
  "create_body cy sp s start_id epoch replaces =
     rbind (case sp_secret sp of None \<Rightarrow> Inr []
            | Some k \<Rightarrow> rmap (\<lambda>c. [(''WITNESS_POD_CAPABILITY'', c)]) (capability cy k s start_id)) (\<lambda>secrets.
     rbind (scope_name s start_id) (\<lambda>name.
     rbind (scope_markers s start_id (fingerprint cy sp) epoch replaces) (\<lambda>ms.
       Inr (dset ''env'' (env_json (dset_all secrets (dset_all ms (sp_env sp))))
             (dset ''name'' (JStr (name @ ''-pending'')) (spec_body sp))))))"

section \<open>What is signed\<close>

lemma slug_chars: "slug_ok s \<Longrightarrow> c \<in> set s \<Longrightarrow> c \<in> set (CHR ''-'' # lower_alnum)"
  by (auto simp: slug_ok_def in_chars_def list_all_iff split: list.splits)

lemma slug_no_sep: "slug_ok s \<Longrightarrow> CHR ''/'' \<notin> set s" "slug_ok s \<Longrightarrow> CHR 0x0A \<notin> set s"
  using slug_chars [of s "CHR ''/''"] slug_chars [of s "CHR 0x0A"] by (auto simp: lower_alnum_def)

lemma hotkey_no_sep: "hotkey_ok s \<Longrightarrow> CHR 0x0A \<notin> set s"
proof -
  have "\<not> in_chars base58 (CHR 0x0A)" by code_simp
  then show "hotkey_ok s \<Longrightarrow> CHR 0x0A \<notin> set s" by (auto simp: hotkey_ok_def list_all_iff)
qed

lemma split_on_chars: "c \<in> set s \<Longrightarrow> c \<noteq> d \<Longrightarrow> \<exists>x\<in>set (split_on d s). c \<in> set x"
proof (induction s)
  case (Cons y s)
  obtain z zs where z: "split_on d s = z # zs" by (cases "split_on d s") auto
  from Cons show ?case by (cases "c = y") (auto simp: z)
qed simp

lemma uuid_chars: "uuid_ok s \<Longrightarrow> c \<in> set s \<Longrightarrow> c \<noteq> CHR ''-'' \<Longrightarrow> c \<in> set hex_digits"
  using split_on_chars [of c s "CHR ''-''"] by (auto simp: uuid_ok_def list_all_iff in_chars_def)

lemma uuid_no_newline: "uuid_ok s \<Longrightarrow> CHR 0x0A \<notin> set s"
  using uuid_chars [of s "CHR 0x0A"] by (auto simp: hex_digits_def)

lemma append_sep_inj:
  assumes "c \<notin> set x" "c \<notin> set y"
  shows "x @ c # s = y @ c # t \<longleftrightarrow> x = y \<and> s = t"
proof
  have *: "takeWhile (\<lambda>d. d \<noteq> c) (z @ c # w) = z" if "c \<notin> set z" for z w
    using that by (subst takeWhile_append2) auto
  assume eq: "x @ c # s = y @ c # t"
  with * [OF assms(1), of s] * [OF assms(2), of t] have "x = y" by simp
  with eq show "x = y \<and> s = t" by simp
qed simp

lemma scope_okE: "scope_ok s \<Longrightarrow> slug_ok (sc_deployment s) \<and> slug_ok (sc_round s) \<and> hotkey_ok (sc_hotkey s)"
  by (auto simp: scope_ok_def make_scope_def split: if_splits)

lemma scope_key_inj:
  assumes "scope_ok s" "scope_ok s'" "scope_key s = scope_key s'"
  shows "s = s'"
proof -
  have "CHR ''/'' \<notin> set (sc_deployment s)" "CHR ''/'' \<notin> set (sc_deployment s')" "CHR ''/'' \<notin> set (sc_round s)"
    "CHR ''/'' \<notin> set (sc_round s')" using scope_okE [OF assms(1)] scope_okE [OF assms(2)] slug_no_sep by blast+
  with assms(3) show ?thesis by (simp add: scope_key_def append_sep_inj)
qed

lemma scope_key_no_newline: "scope_ok s \<Longrightarrow> CHR 0x0A \<notin> set (scope_key s)"
  using scope_okE [of s] slug_no_sep(2) [of "sc_deployment s"] slug_no_sep(2) [of "sc_round s"]
    hotkey_no_sep [of "sc_hotkey s"] by (simp add: scope_key_def)

text \<open>
  No signature serves two purposes: the messages signed for a pod's capability, for a capture and for
  a miner's access never coincide, and a message determines what it was made for, the pod's scope and
  start, or the exchange and the capture.
\<close>

theorem signed_messages_distinct:
  assumes "scope_ok s" "scope_ok s'" "uuid_ok i" "uuid_ok i'" "uuid_ok e" "uuid_ok e'"
  shows "(capability_message s i = capability_message s' i' \<longleftrightarrow> s = s' \<and> i = i') \<and>
    (capture_message e c = capture_message e' c' \<longleftrightarrow> e = e' \<and> c = c') \<and>
    capability_message s i \<noteq> capture_message e c \<and> capability_message s i \<noteq> ''404-miner/v1'' @ lf @ p \<and>
    capture_message e c \<noteq> ''404-miner/v1'' @ lf @ p"
  using scope_key_inj [OF assms(1,2)] scope_key_no_newline [OF assms(1)] scope_key_no_newline [OF assms(2)]
    uuid_no_newline [OF assms(5)] uuid_no_newline [OF assms(6)]
  by (auto simp: capability_message_def capture_message_def lf_def append_sep_inj)

section \<open>Access of the miners\<close>

text \<open>What is used of Base64 and JSON: decoding undoes encoding, and the alphabet has no dot.\<close>

definition token_codec :: "crypto \<Rightarrow> bool" where
  "token_codec cy = ((\<forall>x. cy_unb64 cy (cy_b64 cy x) = Inr x \<and> CHR ''.'' \<notin> set (cy_b64 cy x)) \<and>
     (\<forall>s i p e. \<exists>claims. cy_loads cy (cy_dumps cy (access_claims s i p e)) = Inr (JObj claims) \<and>
        (\<forall>k. dget claims k = (case access_claims s i p e of JObj kvs \<Rightarrow> dget kvs k | _ \<Rightarrow> None))))"

lemma miner_access_Inr:
  "miner_access cy token s i p e = Inr v \<Longrightarrow> uuid_ok i \<and> (\<exists>key. cy_unhex cy token = Inr key \<and>
     (let payload = cy_b64 cy (cy_dumps cy (access_claims s i p e))
      in v = payload @ CHR ''.'' # cy_hmac cy key (''404-miner/v1'' @ lf @ payload)))"
  by (auto simp: miner_access_def rbind_eq_Inr session_uuid_def Let_def split: if_splits)

lemma access_claims_back:
  assumes "token_codec cy" "miner_access cy token s i p e = Inr v"
  shows "\<exists>claims. rbind (cy_unb64 cy (hd (split_on (CHR ''.'') v))) (cy_loads cy) = Inr (JObj claims) \<and>
    dget claims ''scope'' = Some (JStr (scope_key s)) \<and> dget claims ''start_id'' = Some (JStr i) \<and>
    dget claims ''pod_id'' = Some (JStr p) \<and> dget claims ''expires'' = Some (JInt e)"
proof -
  let ?b = "cy_b64 cy (cy_dumps cy (access_claims s i p e))"
  from miner_access_Inr [OF assms(2)] obtain w where v: "v = ?b @ CHR ''.'' # w" by (auto simp: Let_def)
  from assms(1) have "CHR ''.'' \<notin> set ?b" "cy_unb64 cy ?b = Inr (cy_dumps cy (access_claims s i p e))"
    by (auto simp: token_codec_def)
  moreover from assms(1) obtain claims where "cy_loads cy (cy_dumps cy (access_claims s i p e)) = Inr (JObj claims)"
    "\<And>k. dget claims k = (case access_claims s i p e of JObj kvs \<Rightarrow> dget kvs k | _ \<Rightarrow> None)"
    unfolding token_codec_def by blast
  ultimately show ?thesis by (intro exI [of _ claims]) (simp add: v split_on_append access_claims_def)
qed

text \<open>
  C26: The access value issued for a pod opens that pod, for that start and scope, until it expires, and
  nothing else: no other pod, start or scope with the same capability accepts it, nor any time later.
\<close>

theorem access_opens_one_pod:
  assumes "token_codec cy" "scope_ok s" "miner_access cy token s i p e = Inr v" "scope_ok s'"
  shows "verify_miner_access cy now v token s' i' p' \<longleftrightarrow> s' = s \<and> i' = i \<and> p' = p \<and> now < of_int e"
proof
  obtain claims where claims: "rbind (cy_unb64 cy (hd (split_on (CHR ''.'') v))) (cy_loads cy) = Inr (JObj claims)"
    "dget claims ''scope'' = Some (JStr (scope_key s))" "dget claims ''start_id'' = Some (JStr i)"
    "dget claims ''pod_id'' = Some (JStr p)" "dget claims ''expires'' = Some (JInt e)"
    using access_claims_back [OF assms(1,3)] by blast
  { assume "verify_miner_access cy now v token s' i' p'"
    then have t: "now < of_int e" and again: "miner_access cy token s' i' p' e = Inr v"
      using claims by (auto simp: verify_miner_access_def)
    from access_claims_back [OF assms(1) again] claims
    have "scope_key s' = scope_key s" "i' = i" "p' = p" by auto
    with scope_key_inj [OF assms(4,2)] t show "s' = s \<and> i' = i \<and> p' = p \<and> now < of_int e" by simp }
  assume "s' = s \<and> i' = i \<and> p' = p \<and> now < of_int e"
  with assms(3) claims show "verify_miner_access cy now v token s' i' p'" by (simp add: verify_miner_access_def)
qed

section \<open>The environment of a pod\<close>

lemma dget_env_json: "(case env_json env of JObj kvs \<Rightarrow> dget kvs k | _ \<Rightarrow> None) = map_option JStr (dget env k)"
  by (induction env) (auto simp: env_json_def)

definition body_env :: "(string, json) dict \<Rightarrow> string \<Rightarrow> json option" where
  "body_env body k = (case dget body ''env'' of Some (JObj kvs) \<Rightarrow> dget kvs k | _ \<Rightarrow> None)"

lemma dset_all_map: "distinct (map fst kvs) \<Longrightarrow> dget (dset_all kvs d) k = (case dget kvs k of None \<Rightarrow> dget d k | Some v \<Rightarrow> Some v)"
  using map_of_inject_set [of "rev kvs" kvs] by (simp add: dget_dset_all rev_map [symmetric])

lemma scope_markers_dict: "scope_markers s start spec e rep = Inr ms \<Longrightarrow> dict_ok ms"
  by (auto simp: scope_markers_def rbind_eq_Inr)

text \<open>
  A configured environment can neither forge nor lose a marker: in the create request of a valid
  shape the markers are those of the scope and the start, the capability is the derived one, and every
  configured variable is passed on unchanged.
\<close>

theorem create_body_environment:
  assumes "validate_spec sp = Inr ()" "create_body cy sp s start epoch rep = Inr body"
  shows "\<exists>ms. scope_markers s start (fingerprint cy sp) epoch rep = Inr ms \<and>
    (\<forall>m\<in>set MARKERS. body_env body m = map_option JStr (dget ms m)) \<and>
    (\<forall>k v. dget (sp_env sp) k = Some v \<longrightarrow> body_env body k = Some (JStr v)) \<and>
    (\<forall>secret. sp_secret sp = Some secret \<longrightarrow> (\<exists>c. capability cy secret s start = Inr c \<and>
       body_env body ''WITNESS_POD_CAPABILITY'' = Some (JStr c))) \<and>
    dget body ''name'' = Some (JStr (short_name s @ ''-pending'')) \<and> dget body ''image'' = Some (JStr (sp_image sp))"
proof -
  from assms(2) obtain secrets ms where p:
    "(case sp_secret sp of None \<Rightarrow> Inr []
      | Some k \<Rightarrow> rmap (\<lambda>c. [(''WITNESS_POD_CAPABILITY'', c)]) (capability cy k s start)) = Inr secrets"
    and ms: "scope_markers s start (fingerprint cy sp) epoch rep = Inr ms"
    and body: "body = dset ''env'' (env_json (dset_all secrets (dset_all ms (sp_env sp))))
        (dset ''name'' (JStr (short_name s @ ''-pending'')) (spec_body sp))"
    by (auto simp: create_body_def rbind_eq_Inr scope_name_def rmap_eq_Inr)
  note m = scope_markers_sel [OF ms] and dm = scope_markers_dict [OF ms]
  have secrets: "secrets = [] \<or> (\<exists>c. secrets = [(''WITNESS_POD_CAPABILITY'', c)])"
    using p by (auto simp: rmap_eq_Inr split: option.splits)
  then have dp: "distinct (map fst secrets)" by auto
  have env: "body_env body k = map_option JStr (dget (dset_all secrets (dset_all ms (sp_env sp))) k)" for k
    using dget_env_json [where env = "dset_all secrets (dset_all ms (sp_env sp))" and k = k]
    by (simp add: body_env_def body)
  have look: "dget (dset_all secrets (dset_all ms (sp_env sp))) k =
      (case dget secrets k of Some v \<Rightarrow> Some v | None \<Rightarrow> (case dget ms k of Some v \<Rightarrow> Some v | None \<Rightarrow> dget (sp_env sp) k))" for k
    by (simp add: dset_all_map [OF dp] dset_all_map [OF dm] split: option.splits)
  have cap: "''WITNESS_POD_CAPABILITY'' \<notin> set MARKERS" by (simp add: MARKERS_def)
  have markers: "body_env body k = map_option JStr (dget ms k)" if "k \<in> set MARKERS" for k
  proof -
    from that m(2) have "dget ms k \<noteq> None" by (simp add: map_of_eq_None_iff)
    moreover have "dget secrets k = None" using secrets that cap by auto
    ultimately show ?thesis by (auto simp: env look)
  qed
  have kept: "body_env body k = Some (JStr v)" if "dget (sp_env sp) k = Some v" for k v
  proof -
    have "k \<in> set (dkeys (sp_env sp))" using that by (force dest: map_of_SomeD)
    moreover have "\<not> list_ex reserved_name (dkeys (sp_env sp))" using assms(1) by (auto simp: validate_spec_def split: if_splits)
    ultimately have "\<not> reserved_name k" by (auto simp: list_ex_iff)
    then have k: "k \<noteq> ''WITNESS_POD_CAPABILITY''" "k \<notin> set MARKERS" by (auto simp: reserved_name_def)
    have "dget secrets k = None" using secrets k(1) by auto
    moreover have "dget ms k = None" using m(2) k(2) by (simp add: map_of_eq_None_iff)
    ultimately show ?thesis using that by (simp add: env look)
  qed
  have secret: "\<exists>c. capability cy secret s start = Inr c \<and> body_env body ''WITNESS_POD_CAPABILITY'' = Some (JStr c)"
    if "sp_secret sp = Some secret" for secret
    using p that by (auto simp: rmap_eq_Inr env look)
  have "dget (spec_body sp) ''image'' = Some (JStr (sp_image sp))" by (simp add: spec_body_def)
  then have "dget body ''name'' = Some (JStr (short_name s @ ''-pending''))" "dget body ''image'' = Some (JStr (sp_image sp))"
    by (simp_all add: body)
  with ms markers kept secret show ?thesis by blast
qed

section \<open>Examples\<close>

text \<open>A printer and an alphabet for the examples: fields with their length in unary, dots escaped.\<close>

fun undot :: "string \<Rightarrow> string" where
  "undot [] = []"
| "undot [c] = [c]"
| "undot (c # d # cs) = (if c = CHR ''-'' then (if d = CHR ''d'' then CHR ''.'' else CHR ''-'') # undot cs
     else c # undot (d # cs))"

definition dot_out :: "string \<Rightarrow> string" where
  "dot_out s = concat (map (\<lambda>c. if c = CHR ''.'' then ''-d'' else if c = CHR ''-'' then ''--'' else [c]) s)"

lemma undot_other: "c \<noteq> CHR ''-'' \<Longrightarrow> undot (c # cs) = c # undot cs"
  by (cases cs) auto

lemma dot_out: "undot (dot_out s) = s" "CHR ''.'' \<notin> set (dot_out s)"
proof (induction s)
  case (Cons c s)
  { case 1 from Cons(1) show ?case by (cases "c = CHR ''.''"; cases "c = CHR ''-''") (auto simp: dot_out_def undot_other) }
  { case 2 from Cons(2) show ?case by (auto simp: dot_out_def) }
qed (simp_all add: dot_out_def)

definition field :: "string \<Rightarrow> string" where
  "field s = replicate (length s) (CHR ''1'') @ CHR ''0'' # s"

definition unfield :: "string \<Rightarrow> string \<times> string" where
  "unfield t = (let n = length (takeWhile (\<lambda>c. c = CHR ''1'') t) in (take n (drop (Suc n) t), drop (Suc n + n) t))"

lemma unfield_field: "unfield (field s @ r) = (s, r)"
proof -
  have "takeWhile (\<lambda>c. c = CHR ''1'') (replicate n (CHR ''1'') @ CHR ''0'' # t) = replicate n (CHR ''1'')" for n t
    by (subst takeWhile_append2) auto
  then show ?thesis by (simp add: unfield_def field_def Let_def)
qed

definition read_int :: "string \<Rightarrow> int" where
  "read_int s = (case s of CHR ''-'' # cs \<Rightarrow> - int (nat_of_digits cs) | _ \<Rightarrow> int (nat_of_digits s))"

lemma read_show_int: "read_int (show_int e) = e"
proof (cases "e < 0")
  case True
  then show ?thesis by (simp add: read_int_def show_int_def nat_of_digits_digits)
next
  case False
  obtain c cs where d: "nat_digits (nat e) = c # cs" by (cases "nat_digits (nat e)") (subst (asm) nat_digits.simps, auto split: if_splits)
  have "is_digit c" using nat_digits_digits [of c "nat e"] d by simp
  then have "c \<noteq> CHR ''-''" by (auto simp: is_digit_def)
  then have "read_int (show_int e) = int (nat_of_digits (nat_digits (nat e)))"
    using False d by (auto simp: read_int_def show_int_def split: list.splits char.splits bool.splits)
  with False show ?thesis by (simp add: nat_of_digits_digits)
qed

definition print_claims :: "json \<Rightarrow> string" where
  "print_claims j = (case j of
     JObj [(_, JStr s), (_, JStr i), (_, JStr p), (_, JInt e)] \<Rightarrow> field s @ field i @ field p @ show_int e
   | _ \<Rightarrow> [])"

definition read_claims :: "string \<Rightarrow> json result" where
  "read_claims t = (case unfield t of (s, t1) \<Rightarrow> case unfield t1 of (i, t2) \<Rightarrow> case unfield t2 of (p, e) \<Rightarrow>
     Inr (JObj [(''scope'', JStr s), (''start_id'', JStr i), (''pod_id'', JStr p), (''expires'', JInt (read_int e))]))"

definition example_crypto :: crypto where
  "example_crypto = \<lparr>cy_hmac = (\<lambda>k m. field k @ m), cy_sha = (\<lambda>_. replicate 64 (CHR ''0'')), cy_digest = (\<lambda>x. x),
     cy_unhex = Inr, cy_dumps = print_claims, cy_loads = read_claims, cy_b64 = dot_out, cy_unb64 = (\<lambda>x. Inr (undot x))\<rparr>"

lemma example_codec: "token_codec example_crypto"
  by (simp add: token_codec_def example_crypto_def dot_out print_claims_def read_claims_def access_claims_def
      unfield_field read_show_int)

definition other_scope :: scope where
  "other_scope = example_scope\<lparr>sc_round := ''cup-5''\<rparr>"

lemma example_scopes: "scope_ok example_scope" "scope_ok other_scope" "uuid_ok example_start"
  by code_simp+

theorem signed_messages_distinct_witness:
  "capability_message example_scope example_start \<noteq> capability_message other_scope example_start"
proof -
  have "example_scope \<noteq> other_scope" by (simp add: example_scope_def other_scope_def)
  with signed_messages_distinct [OF example_scopes(1,2,3,3,3,3), of "[]" "[]" "[]"] show ?thesis by blast
qed

theorem access_opens_one_pod_witness:
  "\<exists>v. miner_access example_crypto ''key'' example_scope example_start ''p1'' 100 = Inr v \<and>
     verify_miner_access example_crypto 99 v ''key'' example_scope example_start ''p1'' \<and>
     \<not> verify_miner_access example_crypto 100 v ''key'' example_scope example_start ''p1'' \<and>
     \<not> verify_miner_access example_crypto 99 v ''key'' other_scope example_start ''p1'' \<and>
     \<not> verify_miner_access example_crypto 99 v ''key'' example_scope example_start ''p2''"
proof -
  obtain v where v: "miner_access example_crypto ''key'' example_scope example_start ''p1'' 100 = Inr v"
    using example_scopes(3) by (simp add: miner_access_def session_uuid_def Let_def example_crypto_def)
  have "example_scope \<noteq> other_scope" by (simp add: example_scope_def other_scope_def)
  with access_opens_one_pod [OF example_codec example_scopes(1) v example_scopes(1)]
    access_opens_one_pod [OF example_codec example_scopes(1) v example_scopes(2)]
  show ?thesis using v by auto
qed

definition example_spec :: pod_spec where
  "example_spec = \<lparr>sp_image = ''witness@sha256:'' @ replicate 64 (CHR ''a''), sp_cpu = ''cpu3c'', sp_vcpus = 2, sp_disk = 10,
     sp_port = 8000, sp_sites = [''EU-1''], sp_env = [(''WITNESS_BUCKET'', ''b'')], sp_secret = Some (replicate 32 (CHR ''k'')),
     sp_registry = None\<rparr>"

theorem create_body_environment_witness:
  "\<exists>body. create_body example_crypto example_spec example_scope example_start 17 None = Inr body \<and>
     body_env body ''WITNESS_BUCKET'' = Some (JStr ''b'') \<and> body_env body ''WITNESS_ROUND'' = Some (JStr ''cup-4'')"
proof -
  have ok: "validate_spec example_spec = Inr ()" by code_simp
  obtain body where b: "create_body example_crypto example_spec example_scope example_start 17 None = Inr body"
    using example_scopes(3)
    by (simp add: create_body_def example_spec_def capability_def session_uuid_def scope_name_def scope_markers_def)
  from create_body_environment [OF ok b] obtain ms where
    ms: "scope_markers example_scope example_start (fingerprint example_crypto example_spec) 17 None = Inr ms"
    "\<forall>m\<in>set MARKERS. body_env body m = map_option JStr (dget ms m)"
    "\<forall>k v. dget (sp_env example_spec) k = Some v \<longrightarrow> body_env body k = Some (JStr v)" by blast
  have "body_env body ''WITNESS_BUCKET'' = Some (JStr ''b'')" using ms(3) by (simp add: example_spec_def)
  moreover have "body_env body ''WITNESS_ROUND'' = Some (JStr ''cup-4'')"
    using ms(2) scope_markers_sel(4) [OF ms(1)] by (simp add: MARKERS_def example_scope_def)
  ultimately show ?thesis using b by blast
qed

end
