(* ===== verification/RunPod.thy ===== *)
theory RunPod
  imports PodSpec Traces
begin

text \<open>
  The client of the pod provider, \<^verbatim>\<open>pod_gateway/runpod.py\<close>: the paced requests, the reading of pods and of the
  paginated inventory, and the operations with what they make of every answer. The transport, the two
  clocks, \<^verbatim>\<open>sleep\<close>, the parser of HTTP dates, \<^verbatim>\<open>ipaddress\<close> and \<^verbatim>\<open>str\<close> on numbers and containers are
  parameters. The inventory is read with fuel, since the service decides when it ends. The log of requests
  and answers is for the properties only.
\<close>

section \<open>The interface of a provider\<close>

text \<open>What the allocator relies on of \<^verbatim>\<open>PodProvider.get\<close>: it never answers with another pod.\<close>

locale pod_provider =
  fixes get :: "string \<Rightarrow> ('w, pod option) action"
  assumes get_by_id: "get i w = (Inr (Some p), w') \<Longrightarrow> pd_id p = i"

section \<open>JSON values\<close>

definition object_dict :: "json \<Rightarrow> (string, json) dict result" where
  "object_dict v = (case v of JObj kvs \<Rightarrow> Inr kvs | _ \<Rightarrow> Inl (ValueError ''Expected a JSON object''))"

definition json_string :: "json option \<Rightarrow> string result" where
  "json_string v = (case v of
     None \<Rightarrow> Inl KeyError
   | Some (JStr s) \<Rightarrow> if s = [] then Inl (ValueError ''Expected a nonempty string'') else Inr s
   | Some _ \<Rightarrow> Inl (ValueError ''Expected a nonempty string''))"

section \<open>The client\<close>

datatype http_method = GET | POST | DELETE | PATCH

record http_call =
  hc_method :: http_method
  hc_path :: string
  hc_body :: "json option"
  hc_params :: "(string, string) dict"

record http_answer =
  ha_status :: int
  ha_retry_after :: "string option"
  ha_json :: "json option"

record 'w runpod =
  rp_world :: 'w
  rp_next :: pyfloat
  rp_cached :: "(pyfloat \<times> pod list) option"
  rp_log :: "(http_call \<times> http_answer option) list"

record 'w runpod_env =
  re_interval :: pyfloat
  re_cache_seconds :: pyfloat
  re_fuel :: nat
  re_send :: "http_call \<Rightarrow> 'w \<Rightarrow> http_answer option \<times> 'w"
  re_monotonic :: "'w \<Rightarrow> pyfloat \<times> 'w"
  re_time :: "'w \<Rightarrow> pyfloat \<times> 'w"
  re_sleep :: "pyfloat \<Rightarrow> 'w \<Rightarrow> unit \<times> 'w"
  re_http_date :: "string \<Rightarrow> pyfloat option"
  re_ip :: "string \<Rightarrow> (string \<times> bool) option"
  re_str :: "json \<Rightarrow> string"

type_synonym ('w, 'a) rp_action = "('w runpod, 'a) action"

text \<open>Asking the world; a failed request is the answer \<open>None\<close>.\<close>

definition outside :: "('w \<Rightarrow> 'a \<times> 'w) \<Rightarrow> ('w, 'a) rp_action" where
  "outside m s = (case m (rp_world s) of (x, w) \<Rightarrow> (Inr x, s\<lparr>rp_world := w\<rparr>))"

definition new_client :: "pyfloat \<Rightarrow> 'w \<Rightarrow> 'w runpod result" where
  "new_client interval w =
     (if \<not> (0 \<le> interval \<and> interval \<le> 60) then Inl (ValueError ''Invalid RunPod request interval'')
      else Inr \<lparr>rp_world = w, rp_next = 0, rp_cached = None, rp_log = []\<rparr>)"

section \<open>Paced requests\<close>

text \<open>\<^verbatim>\<open>value.replace(".", "", 1).isdigit()\<close>, and \<^verbatim>\<open>float\<close> of such a value.\<close>

definition is_decimal :: "string \<Rightarrow> bool" where
  "is_decimal v = (length (split_on (CHR ''.'') v) \<le> 2 \<and> isdigit (concat (split_on (CHR ''.'') v)))"

definition decimal_value :: "string \<Rightarrow> pyfloat" where
  "decimal_value v = fl (of_nat (nat_of_digits (concat (split_on (CHR ''.'') v))) /
     10 ^ (case split_on (CHR ''.'') v of [_, digits] \<Rightarrow> length digits | _ \<Rightarrow> 0))"

definition retry_delay :: "'w runpod_env \<Rightarrow> string \<Rightarrow> ('w, pyfloat) rp_action" where
  "retry_delay env value =
     (if is_decimal value then act_return (max 0 (decimal_value value))
      else case re_http_date env value of
        None \<Rightarrow> act_return 30
      | Some date \<Rightarrow> act_bind (outside (re_time env)) (\<lambda>now. act_return (max 0 (fsub date now))))"

definition set_next :: "pyfloat \<Rightarrow> ('w, unit) rp_action" where
  "set_next t = act_modify (\<lambda>s. s\<lparr>rp_next := t\<rparr>)"

definition send :: "'w runpod_env \<Rightarrow> http_call \<Rightarrow> ('w, http_answer option) rp_action" where
  "send env c = act_bind (outside (re_send env c)) (\<lambda>r.
     act_bind (act_modify (\<lambda>s. s\<lparr>rp_log := rp_log s @ [(c, r)]\<rparr>)) (\<lambda>_. act_return r))"

text \<open>The section under \<^verbatim>\<open>self._rate\<close> before a request: wait for the slot, or refuse to wait that long.\<close>

definition wait_turn :: "'w runpod_env \<Rightarrow> http_method \<Rightarrow> ('w, unit) rp_action" where
  "wait_turn env m =
     act_bind (act_get rp_next) (\<lambda>next.
     act_bind (outside (re_monotonic env)) (\<lambda>now.
       let wait = fsub next now
       in if 30 < wait
          then act_raise (if m = POST then CreateRejected 429 else ProviderUnavailable ''RunPod is in a rate-limit cooldown'')
          else
            act_bind (if 0 < wait then outside (re_sleep env wait) else act_return ()) (\<lambda>_.
            act_bind (outside (re_monotonic env)) (\<lambda>now'. set_next (fadd now' (re_interval env))))))"

definition back_off :: "'w runpod_env \<Rightarrow> http_answer \<Rightarrow> ('w, unit) rp_action" where
  "back_off env a =
     (if ha_status a \<noteq> 429 then act_return ()
      else
        act_bind (retry_delay env (case ha_retry_after a of None \<Rightarrow> ''30'' | Some v \<Rightarrow> v)) (\<lambda>delay.
        act_bind (act_get rp_next) (\<lambda>next.
        act_bind (outside (re_monotonic env)) (\<lambda>now. set_next (max next (fadd now delay))))))"

definition rp_request :: "'w runpod_env \<Rightarrow> http_call \<Rightarrow> ('w, http_answer) rp_action" where
  "rp_request env c =
     act_bind (wait_turn env (hc_method c)) (\<lambda>_.
     act_bind (send env c) (\<lambda>r.
       case r of
         None \<Rightarrow> act_raise (ProviderUnavailable ''RunPod request did not complete'')
       | Some a \<Rightarrow> act_bind (back_off env a) (\<lambda>_. act_return a)))"

section \<open>Reading answers\<close>

definition answer_object :: "http_answer \<Rightarrow> (string, json) dict result" where
  "answer_object a = (case ha_json a of
     None \<Rightarrow> Inl (ProviderUnavailable ''Malformed RunPod response'')
   | Some v \<Rightarrow> (case object_dict v of Inl _ \<Rightarrow> Inl (ProviderUnavailable ''Malformed RunPod response'') | Inr d \<Rightarrow> Inr d))"

definition present :: "(string, json) dict \<Rightarrow> string \<Rightarrow> json option" where
  "present d k = (case dget d k of Some JNull \<Rightarrow> None | x \<Rightarrow> x)"

definition str_of :: "'w runpod_env \<Rightarrow> json \<Rightarrow> string" where
  "str_of env v = (case v of JStr s \<Rightarrow> s | _ \<Rightarrow> re_str env v)"

definition pod_markers :: "'w runpod_env \<Rightarrow> (string, json) dict \<Rightarrow> (string, string) dict" where
  "pod_markers env environment =
     (let ms = map (\<lambda>k. (k, str_of env (the (dget environment k)))) (filter (dhas environment) MARKERS)
      in if dhas ms ''WITNESS_REPLACES'' then ms else ms @ [(''WITNESS_REPLACES'', [])])"

text \<open>One entry of the port mappings; entries that are not public TCP mappings are passed over.\<close>

definition add_mapping :: "'w runpod_env \<Rightarrow> json \<Rightarrow> (int, string \<times> int) dict \<Rightarrow> (int, string \<times> int) dict result" where
  "add_mapping env entry tcp =
     rbind (object_dict entry) (\<lambda>m.
       if dget m ''type'' = Some (JStr ''tcp'') \<and> present m ''ip'' \<noteq> None \<and> present m ''public'' \<noteq> None
       then (case (dget m ''private'', dget m ''public'') of
               (None, _) \<Rightarrow> Inl KeyError
             | (Some (JInt private_port), Some (JInt public_port)) \<Rightarrow>
                 if \<not> (1 \<le> public_port \<and> public_port \<le> 65535) then Inl (ValueError ''Invalid TCP port mapping'')
                 else rbind (json_string (dget m ''ip'')) (\<lambda>ip.
                   case re_ip env ip of
                     None \<Rightarrow> Inl (ValueError ''ip_address'')
                   | Some (address, is_global) \<Rightarrow> Inr (if is_global then dset private_port (address, public_port) tcp else tcp))
             | _ \<Rightarrow> Inl (ValueError ''Invalid TCP port mapping''))
       else Inr tcp)"

fun add_mappings :: "'w runpod_env \<Rightarrow> json list \<Rightarrow> (int, string \<times> int) dict \<Rightarrow> (int, string \<times> int) dict result" where
  "add_mappings env [] tcp = Inr tcp"
| "add_mappings env (e # es) tcp = rbind (add_mapping env e tcp) (add_mappings env es)"

definition pod_tcp :: "'w runpod_env \<Rightarrow> (string, json) dict \<Rightarrow> (int, string \<times> int) dict result" where
  "pod_tcp env d = (case present d ''runtime'' of
     None \<Rightarrow> Inr []
   | Some rt \<Rightarrow> rbind (object_dict rt) (\<lambda>r.
       case dget r ''ports'' of None \<Rightarrow> Inr []
       | Some (JList es) \<Rightarrow> add_mappings env es []
       | Some _ \<Rightarrow> Inl (ValueError ''Invalid TCP port mappings'')))"

definition read_pod :: "'w runpod_env \<Rightarrow> json \<Rightarrow> pod result" where
  "read_pod env v =
     rbind (object_dict v) (\<lambda>d.
     rbind (object_dict (case present d ''env'' of None \<Rightarrow> JObj [] | Some e \<Rightarrow> e)) (\<lambda>environment.
     rbind (pod_tcp env d) (\<lambda>tcp.
     rbind (json_string (dget d ''id'')) (\<lambda>i.
     rbind (json_string (dget d ''name'')) (\<lambda>name.
     rbind (json_string (dget d ''image'')) (\<lambda>image.
     rbind (json_string (dget d ''status'')) (\<lambda>status.
       Inr \<lparr>pd_id = i, pd_name = name, pd_image = image, pd_status = status, pd_markers = pod_markers env environment,
            pd_tcp = tcp, pd_cost = map_option (str_of env) (present d ''cost'')\<rparr>)))))))"

definition rp_pod :: "'w runpod_env \<Rightarrow> json \<Rightarrow> pod result" where
  "rp_pod env v = (case read_pod env v of Inl _ \<Rightarrow> Inl (ProviderUnavailable ''Malformed RunPod Pod'') | Inr p \<Rightarrow> Inr p)"

section \<open>The inventory\<close>

text \<open>Equality of pods as Python compares them: dictionaries without their order.\<close>

definition same_dict :: "('k, 'v) dict \<Rightarrow> ('k, 'v) dict \<Rightarrow> bool" where
  "same_dict d e = (set (dkeys d) = set (dkeys e) \<and> list_all (\<lambda>k. dget d k = dget e k) (dkeys d))"

definition same_pod :: "pod \<Rightarrow> pod \<Rightarrow> bool" where
  "same_pod p q = (pd_id p = pd_id q \<and> pd_name p = pd_name q \<and> pd_image p = pd_image q \<and> pd_status p = pd_status q \<and>
     same_dict (pd_markers p) (pd_markers q) \<and> same_dict (pd_tcp p) (pd_tcp q) \<and> pd_cost p = pd_cost q)"

fun add_page :: "'w runpod_env \<Rightarrow> json list \<Rightarrow> (string, pod) dict \<Rightarrow> (string, pod) dict result" where
  "add_page env [] pods = Inr pods"
| "add_page env (v # vs) pods =
     rbind (rp_pod env v) (\<lambda>p.
       if (case dget pods (pd_id p) of None \<Rightarrow> False | Some q \<Rightarrow> \<not> same_pod q p)
       then Inl (ValueError ''Conflicting inventory'')
       else add_page env vs (dset (pd_id p) p pods))"

text \<open>A page: the pods with it, and the cursor of the next one when there is one.\<close>

definition read_page :: "'w runpod_env \<Rightarrow> (string, json) dict \<Rightarrow> (string, pod) dict \<Rightarrow> string list \<Rightarrow>
    ((string, pod) dict \<times> string option) result" where
  "read_page env value pods cursors =
     (case (dget value ''pods'', dget value ''pagination'') of
        (Some page, Some pg) \<Rightarrow>
          rbind (object_dict pg) (\<lambda>pagination.
            case (dget pagination ''hasNextPage'', page) of
              (None, JList _) \<Rightarrow> Inl KeyError
            | (Some (JBool further), JList vs) \<Rightarrow>
                rbind (add_page env vs pods) (\<lambda>pods'.
                  if \<not> further then Inr (pods', None)
                  else rbind (json_string (dget pagination ''nextCursor'')) (\<lambda>cursor.
                    if cursor \<in> set cursors then Inl (ValueError ''Repeated cursor'') else Inr (pods', Some cursor)))
            | _ \<Rightarrow> Inl (ValueError ''Invalid page''))
      | _ \<Rightarrow> Inl KeyError)"

text \<open>\<^verbatim>\<open>except (KeyError, ValueError)\<close>; a malformed pod is \<^verbatim>\<open>ProviderUnavailable\<close> already.\<close>

definition incomplete :: "'a result \<Rightarrow> 'a result" where
  "incomplete r = (case r of
     Inl KeyError \<Rightarrow> Inl (ProviderUnavailable ''Incomplete RunPod inventory'')
   | Inl (ValueError _) \<Rightarrow> Inl (ProviderUnavailable ''Incomplete RunPod inventory'')
   | _ \<Rightarrow> r)"

definition page_params :: "string option \<Rightarrow> (string, string) dict" where
  "page_params cursor = [(''limit'', ''1000''), (''includeClusterPods'', ''false'')] @
     (case cursor of None \<Rightarrow> [] | Some c \<Rightarrow> [(''cursor'', c)])"

definition page_call :: "string option \<Rightarrow> http_call" where
  "page_call cursor = \<lparr>hc_method = GET, hc_path = ''/pods'', hc_body = None, hc_params = page_params cursor\<rparr>"

definition unending :: exn where
  "unending = PyException ''the inventory did not end''"

text \<open>The loop over the pages; \<open>None\<close> when it has not ended within the fuel.\<close>

fun rp_pages :: "'w runpod_env \<Rightarrow> nat \<Rightarrow> string option \<Rightarrow> string list \<Rightarrow> (string, pod) dict \<Rightarrow>
    ('w, pod list option) rp_action" where
  "rp_pages env 0 cursor cursors pods = act_return None"
| "rp_pages env (Suc fuel) cursor cursors pods =
     act_bind (rp_request env (page_call cursor)) (\<lambda>a.
       if ha_status a \<noteq> 200 then act_raise (ProviderUnavailable ''RunPod request failed'')
       else
         act_bind (act_lift (rbind (answer_object a) (\<lambda>value. incomplete (read_page env value pods cursors)))) (\<lambda>(pods', follow).
           case follow of
             None \<Rightarrow> act_return (Some (map snd pods'))
           | Some c \<Rightarrow> rp_pages env fuel (Some c) (c # cursors) pods'))"

definition rp_list_all :: "'w runpod_env \<Rightarrow> ('w, pod list) rp_action" where
  "rp_list_all env = act_bind (rp_pages env (re_fuel env) None [] []) (\<lambda>r.
     case r of None \<Rightarrow> act_raise unending | Some pods \<Rightarrow> act_return pods)"

definition rp_list :: "'w runpod_env \<Rightarrow> bool \<Rightarrow> ('w, pod list) rp_action" where
  "rp_list env fresh =
     act_bind (act_get rp_cached) (\<lambda>cached.
       let reload = act_bind (rp_list_all env) (\<lambda>pods. act_bind (outside (re_monotonic env)) (\<lambda>now.
             act_bind (act_modify (\<lambda>s. s\<lparr>rp_cached := Some (now, pods)\<rparr>)) (\<lambda>_. act_return pods)))
       in case cached of
            None \<Rightarrow> reload
          | Some (t, pods) \<Rightarrow>
              if fresh then reload
              else act_bind (outside (re_monotonic env)) (\<lambda>now.
                if fsub now t < re_cache_seconds env then act_return pods else reload))"

section \<open>Operations on pods\<close>

text \<open>\<^verbatim>\<open>quote(pod_id, safe="")\<close>: all but letters, digits and \<^verbatim>\<open>_.-~\<close> as the bytes of UTF-8.\<close>

definition unreserved :: string where
  "unreserved = upper_alnum @ lower_alnum @ ''_.-~''"

definition hex_byte :: "nat \<Rightarrow> string" where
  "hex_byte n = CHR ''%'' # map (\<lambda>d. ''0123456789ABCDEF'' ! d) [n div 16, n mod 16]"

definition quote_char :: "char \<Rightarrow> string" where
  "quote_char c = (let n = of_char c :: nat in
     if c \<in> set unreserved then [c] else if n < 128 then hex_byte n
     else hex_byte (192 + n div 64) @ hex_byte (128 + n mod 64))"

definition pod_path :: "string \<Rightarrow> string" where
  "pod_path i = ''/pods/'' @ concat (map quote_char i)"

definition pod_call :: "http_method \<Rightarrow> string \<Rightarrow> json option \<Rightarrow> http_call" where
  "pod_call m i body = \<lparr>hc_method = m, hc_path = pod_path i, hc_body = body, hc_params = []\<rparr>"

definition forget :: "('w, unit) rp_action" where
  "forget = act_modify (\<lambda>s. s\<lparr>rp_cached := None\<rparr>)"

definition answer_pod :: "'w runpod_env \<Rightarrow> http_answer \<Rightarrow> pod result" where
  "answer_pod env a = rbind (answer_object a) (\<lambda>d. rp_pod env (JObj d))"

definition rp_get :: "'w runpod_env \<Rightarrow> string \<Rightarrow> ('w, pod option) rp_action" where
  "rp_get env i =
     act_bind (rp_request env (pod_call GET i None)) (\<lambda>a.
       if ha_status a = 404 then act_return None
       else if ha_status a \<noteq> 200 then act_raise (ProviderUnavailable ''RunPod request failed'')
       else act_bind (act_lift (answer_pod env a)) (\<lambda>p.
         if pd_id p \<noteq> i then act_raise (ProviderUnavailable ''RunPod returned a different Pod ID'') else act_return (Some p)))"

definition rejected_statuses :: "int list" where
  "rejected_statuses = [400, 401, 403, 404, 422, 429]"

definition create_call :: "(string, json) dict \<Rightarrow> http_call" where
  "create_call body = \<lparr>hc_method = POST, hc_path = ''/pods'', hc_body = Some (JObj body), hc_params = []\<rparr>"

definition read_created :: "'w runpod_env \<Rightarrow> http_answer \<Rightarrow> pod result" where
  "read_created env a =
     (if ha_status a \<in> set rejected_statuses then Inl (CreateRejected (ha_status a))
      else if ha_status a \<notin> {200, 201} then Inl (CreateUnknown ''RunPod creation is unconfirmed'')
      else case answer_pod env a of
        Inl (ProviderUnavailable _) \<Rightarrow> Inl (CreateUnknown ''RunPod creation reply is incomplete'')
      | r \<Rightarrow> r)"

definition rp_create :: "'w runpod_env \<Rightarrow> (string, json) dict \<Rightarrow> ('w, pod) rp_action" where
  "rp_create env body =
     act_bind forget (\<lambda>_ s.
       case rp_request env (create_call body) s of
         (Inl (ProviderUnavailable _), s') \<Rightarrow> (Inl (CreateUnknown ''RunPod creation is unconfirmed''), s')
       | (Inl e, s') \<Rightarrow> (Inl e, s')
       | (Inr a, s') \<Rightarrow> (read_created env a, s'))"

definition rp_delete :: "'w runpod_env \<Rightarrow> string \<Rightarrow> ('w, unit) rp_action" where
  "rp_delete env i =
     act_bind forget (\<lambda>_.
     act_bind (rp_request env (pod_call DELETE i None)) (\<lambda>a.
       if ha_status a \<notin> {204, 404} then act_raise (ProviderUnavailable ''RunPod request failed'') else act_return ()))"

definition rp_rename :: "'w runpod_env \<Rightarrow> string \<Rightarrow> string \<Rightarrow> ('w, pod) rp_action" where
  "rp_rename env i name =
     act_bind forget (\<lambda>_.
     act_bind (rp_request env (pod_call PATCH i (Some (JObj [(''name'', JStr name)])))) (\<lambda>a.
       if ha_status a \<noteq> 200 then act_raise (ProviderUnavailable ''RunPod request failed'')
       else act_bind (act_lift (answer_pod env a)) (\<lambda>p.
         if pd_id p \<noteq> i \<or> pd_name p \<noteq> name then act_raise (ProviderUnavailable ''RunPod lifecycle update differs'')
         else act_return p)))"

text \<open>The contract of the interface holds for the client, whatever the service answers.\<close>

interpretation runpod: pod_provider "rp_get env" for env :: "'w runpod_env"
proof
  fix i w p w'
  assume "rp_get env i w = (Inr (Some p), w')"
  then show "pd_id p = i"
    by (auto simp: rp_get_def act_bind_Inr act_simps split: if_splits)
qed

section \<open>Pages\<close>

text \<open>What an answer to a page request says: its pods, and the cursor of the next page.\<close>

definition page_parts :: "http_answer \<Rightarrow> (json list \<times> string option) option" where
  "page_parts a = (case ha_json a of
     Some (JObj d) \<Rightarrow>
       (case (dget d ''pods'', dget d ''pagination'') of
          (Some (JList vs), Some (JObj pg)) \<Rightarrow>
            (case dget pg ''hasNextPage'' of
               Some (JBool False) \<Rightarrow> Some (vs, None)
             | Some (JBool True) \<Rightarrow> (case json_string (dget pg ''nextCursor'') of Inl _ \<Rightarrow> None | Inr c \<Rightarrow> Some (vs, Some c))
             | _ \<Rightarrow> None)
        | _ \<Rightarrow> None)
   | _ \<Rightarrow> None)"

lemma read_page_parts:
  assumes "read_page env value pods cursors = Inr (pods', follow)"
  obtains vs pg where "dget value ''pods'' = Some (JList vs)" "dget value ''pagination'' = Some (JObj pg)"
    "dget pg ''hasNextPage'' = Some (JBool (follow \<noteq> None))" "add_page env vs pods = Inr pods'"
    "\<And>c. follow = Some c \<Longrightarrow> json_string (dget pg ''nextCursor'') = Inr c \<and> c \<notin> set cursors"
proof -
  from assms obtain page pgj where d: "dget value ''pods'' = Some page" "dget value ''pagination'' = Some pgj"
    unfolding read_page_def by (simp split: option.splits)
  from assms d obtain pg where pg: "pgj = JObj pg"
    unfolding read_page_def object_dict_def by (cases pgj) auto
  from assms d pg obtain further where f: "dget pg ''hasNextPage'' = Some (JBool further)"
    unfolding read_page_def object_dict_def
    by (cases "dget pg ''hasNextPage''"; cases "the (dget pg ''hasNextPage'')") (auto split: json.splits)
  from assms d pg f obtain vs where vs: "page = JList vs"
    unfolding read_page_def object_dict_def by (cases page) auto
  from assms d pg f vs show thesis
    by (intro that [of vs pg]) (auto simp: read_page_def object_dict_def rbind_eq_Inr split: if_splits)
qed

lemma page_read:
  assumes "answer_object a = Inr value" "incomplete (read_page env value pods cursors) = Inr (pods', follow)"
  shows "\<exists>vs. page_parts a = Some (vs, follow) \<and> add_page env vs pods = Inr pods' \<and> (\<forall>c. follow = Some c \<longrightarrow> c \<notin> set cursors)"
proof -
  have r: "read_page env value pods cursors = Inr (pods', follow)"
    using assms(2) by (auto simp: incomplete_def split: sum.splits exn.splits)
  have v: "ha_json a = Some (JObj value)"
    using assms(1) by (auto simp: answer_object_def object_dict_def split: option.splits sum.splits json.splits)
  from read_page_parts [OF r] obtain vs pg where
    f: "dget value ''pods'' = Some (JList vs)" "dget value ''pagination'' = Some (JObj pg)"
      "dget pg ''hasNextPage'' = Some (JBool (follow \<noteq> None))" "add_page env vs pods = Inr pods'"
      "\<And>c. follow = Some c \<Longrightarrow> json_string (dget pg ''nextCursor'') = Inr c \<and> c \<notin> set cursors" by blast
  then show ?thesis using v by (cases follow) (auto simp: page_parts_def)
qed

text \<open>The requests of one listing: from the first page, each with the cursor of the one before, to the last.\<close>

fun page_chain :: "string option \<Rightarrow> (http_call \<times> http_answer option) list \<Rightarrow> bool" where
  "page_chain cursor [] = False"
| "page_chain cursor ((c, r) # es) = (c = page_call cursor \<and>
     (case r of
        None \<Rightarrow> False
      | Some a \<Rightarrow> ha_status a = 200 \<and>
          (case page_parts a of None \<Rightarrow> False
           | Some (vs, follow) \<Rightarrow> (case follow of None \<Rightarrow> es = [] | Some d \<Rightarrow> page_chain (Some d) es))))"

definition page_entries :: "http_call \<times> http_answer option \<Rightarrow> json list" where
  "page_entries e = (case snd e of None \<Rightarrow> [] | Some a \<Rightarrow> (case page_parts a of None \<Rightarrow> [] | Some (vs, _) \<Rightarrow> vs))"

section \<open>One request\<close>

lemma traced_outside [traced_rules]: "(\<And>x. Q (Inr x) []) \<Longrightarrow> traced rp_log (outside m) Q"
  by (simp add: traced_def outside_def split: prod.split)

lemma traced_set_next [traced_rules]: "Q (Inr ()) [] \<Longrightarrow> traced rp_log (set_next t) Q"
  unfolding set_next_def by (rule traced_modify) auto

lemma traced_forget [traced_rules]: "Q (Inr ()) [] \<Longrightarrow> traced rp_log forget Q"
  unfolding forget_def by (rule traced_modify) auto

lemma traced_send [traced_rules]: "(\<And>r. Q (Inr r) [(c, r)]) \<Longrightarrow> traced rp_log (send env c) Q"
  unfolding send_def by (intro traced_rules) (auto intro!: traced_rules traced_modify)

text \<open>A request is refused unsent, or sent once: then there is an answer or it is lost.\<close>

definition asked :: "http_call \<Rightarrow> http_answer result \<Rightarrow> (http_call \<times> http_answer option) list \<Rightarrow> bool" where
  "asked c r es = (case r of
     Inr a \<Rightarrow> es = [(c, Some a)]
   | Inl e \<Rightarrow> (es = [] \<and> e = (if hc_method c = POST then CreateRejected 429 else ProviderUnavailable ''RunPod is in a rate-limit cooldown''))
       \<or> (es = [(c, None)] \<and> e = ProviderUnavailable ''RunPod request did not complete''))"

lemma traced_wait:
  "(Q (Inr ()) []) \<Longrightarrow>
   Q (Inl (if m = POST then CreateRejected 429 else ProviderUnavailable ''RunPod is in a rate-limit cooldown'')) [] \<Longrightarrow>
     traced rp_log (wait_turn env m) Q"
  unfolding wait_turn_def Let_def by (auto split: sum.split intro!: traced_rules)

lemma traced_back_off: "Q (Inr ()) [] \<Longrightarrow> traced rp_log (back_off env a) Q"
  unfolding back_off_def retry_delay_def by (auto split: sum.split intro!: traced_rules)

lemma request_asks: "traced rp_log (rp_request env c) (asked c)"
  unfolding rp_request_def
  by (intro traced_bind traced_wait)
     (auto simp: asked_def split: option.split intro!: traced_rules traced_back_off)

lemma traced_request [traced_rules]:
  assumes "\<And>a. Q (Inr a) [(c, Some a)]" "\<And>e es. asked c (Inl e) es \<Longrightarrow> Q (Inl e) es"
  shows "traced rp_log (rp_request env c) Q"
  by (rule traced_mono [OF request_asks]) (auto simp: asked_def assms split: sum.splits)

section \<open>Creating a pod\<close>

text \<open>\<open>created env body r es\<close>: what the result of a create says of the requests \<open>es\<close> it made.\<close>

definition created :: "'w runpod_env \<Rightarrow> (string, json) dict \<Rightarrow> pod result \<Rightarrow> (http_call \<times> http_answer option) list \<Rightarrow> bool" where
  "created env body r es = (case r of
     Inr p \<Rightarrow> (\<exists>a. es = [(create_call body, Some a)] \<and> ha_status a \<in> {200, 201} \<and> answer_pod env a = Inr p)
   | Inl (CreateRejected st) \<Rightarrow> es = [] \<and> st = 429 \<or>
       (\<exists>a. es = [(create_call body, Some a)] \<and> ha_status a = st \<and> st \<in> set rejected_statuses)
   | Inl (CreateUnknown _) \<Rightarrow> (\<exists>answer. es = [(create_call body, answer)] \<and>
       (case answer of None \<Rightarrow> True | Some a \<Rightarrow> ha_status a \<notin> set rejected_statuses))
   | Inl _ \<Rightarrow> False)"

lemma answer_pod_error: "answer_pod env a = Inl e \<Longrightarrow> \<exists>m. e = ProviderUnavailable m"
  by (auto simp: answer_pod_def answer_object_def rp_pod_def rbind_eq_Inl split: option.splits sum.splits)

lemma read_created_outcome: "created env body (read_created env a) [(create_call body, Some a)]"
proof (cases "answer_pod env a")
  case (Inl e)
  then obtain m where "e = ProviderUnavailable m" using answer_pod_error by blast
  with Inl show ?thesis by (auto simp: read_created_def created_def)
next
  case (Inr p)
  then show ?thesis by (auto simp: read_created_def created_def)
qed

text \<open>
  A create is sent at most once, and what it tells the caller is true: a pod was answered with success
  for exactly this body; an explicit rejection was answered with one of the client errors, or the request
  never left; in every other case the outcome is called unknown, and then the request did leave.
\<close>

theorem create_outcome_sound: "traced rp_log (rp_create env body) (created env body)"
  unfolding traced_iff
proof (intro allI impI)
  fix s r s'
  assume c: "rp_create env body s = (r, s')"
  obtain q s1 where q: "rp_request env (create_call body) (s\<lparr>rp_cached := None\<rparr>) = (q, s1)" by force
  from tracedD [OF request_asks q] obtain es where es: "rp_log s1 = rp_log s @ es" "asked (create_call body) q es" by auto
  have res: "s' = s1" "r = (case q of Inl (ProviderUnavailable _) \<Rightarrow> Inl (CreateUnknown ''RunPod creation is unconfirmed'')
      | Inl e \<Rightarrow> Inl e | Inr a \<Rightarrow> read_created env a)"
    using c q by (auto simp: rp_create_def forget_def act_bind_def act_simps split: sum.splits exn.splits)
  have "created env body r es"
    using es(2) res(2) read_created_outcome [of env body]
    by (cases q) (auto simp: asked_def created_def create_call_def)
  with es res show "\<exists>es. rp_log s' = rp_log s @ es \<and> created env body r es" by blast
qed

section \<open>Listing\<close>

lemma add_page_append: "add_page env (vs @ ws) pods = rbind (add_page env vs pods) (add_page env ws)"
  by (induction vs arbitrary: pods) (auto simp: rbind_def split: sum.split)

lemma same_dict_iff: "same_dict d e \<longleftrightarrow> map_of d = map_of e"
proof
  assume s: "same_dict d e"
  show "map_of d = map_of e"
  proof
    fix k
    show "map_of d k = map_of e k"
    proof (cases "k \<in> set (dkeys e)")
      case True
      with s have "k \<in> set (dkeys d)" by (simp add: same_dict_def)
      with s show ?thesis unfolding same_dict_def list_all_iff by blast
    next
      case False
      with s have "k \<notin> set (dkeys d)" by (simp add: same_dict_def)
      with False show ?thesis using map_of_eq_None_iff [of d k] map_of_eq_None_iff [of e k] by auto
    qed
  qed
next
  assume m: "map_of d = map_of e"
  then have "set (dkeys d) = set (dkeys e)" using dom_map_of_conv_image_fst [of d] dom_map_of_conv_image_fst [of e] by simp
  with m show "same_dict d e" by (simp add: same_dict_def list_all_iff)
qed

lemma same_pod_refl [simp]: "same_pod p p"
  by (simp add: same_pod_def same_dict_iff)

lemma same_pod_trans: "same_pod p q \<Longrightarrow> same_pod q r \<Longrightarrow> same_pod p r"
  by (simp add: same_pod_def same_dict_iff)

lemma same_pod_sym: "same_pod p q \<Longrightarrow> same_pod q p"
  by (simp add: same_pod_def same_dict_iff)

text \<open>\<open>lists env vs ps\<close>: \<open>ps\<close> are the pods of the entries \<open>vs\<close>, once each.\<close>

definition lists :: "'w runpod_env \<Rightarrow> json list \<Rightarrow> pod list \<Rightarrow> bool" where
  "lists env vs ps = (distinct (map pd_id ps) \<and>
     (\<forall>v\<in>set vs. \<exists>p. rp_pod env v = Inr p \<and> (\<exists>q\<in>set ps. same_pod q p)) \<and>
     (\<forall>q\<in>set ps. \<exists>v\<in>set vs. rp_pod env v = Inr q))"

definition keyed :: "(string, pod) dict \<Rightarrow> bool" where
  "keyed pods = (dict_ok pods \<and> (\<forall>k p. (k, p) \<in> set pods \<longrightarrow> pd_id p = k))"

lemma keyed_ids: "keyed pods \<Longrightarrow> distinct (map pd_id (map snd pods))"
proof -
  assume k: "keyed pods"
  then have "map pd_id (map snd pods) = dkeys pods"
    by (induction pods) (auto simp: keyed_def)
  moreover from k have "dict_ok pods" by (simp add: keyed_def)
  ultimately show ?thesis by (simp only:)
qed

lemma set_dset: "dict_ok d \<Longrightarrow> set (dset k v d) = insert (k, v) {x \<in> set d. fst x \<noteq> k}"
  by (induction d) force+

lemma keyed_dset: "keyed pods \<Longrightarrow> keyed (dset (pd_id p) p pods)"
  by (auto simp: keyed_def set_dset)

lemma add_page_lists:
  assumes "add_page env vs pods = Inr pods'" "keyed pods"
  shows "keyed pods' \<and> (\<forall>v\<in>set vs. \<exists>p. rp_pod env v = Inr p \<and> (\<exists>q\<in>snd ` set pods'. same_pod q p)) \<and>
    (\<forall>p\<in>snd ` set pods. \<exists>q\<in>snd ` set pods'. same_pod q p) \<and>
    (\<forall>q\<in>snd ` set pods'. q \<in> snd ` set pods \<or> (\<exists>v\<in>set vs. rp_pod env v = Inr q))"
  using assms
proof (induction vs arbitrary: pods)
  case (Cons v vs)
  from Cons.prems obtain p where p: "rp_pod env v = Inr p"
    "\<And>q. dget pods (pd_id p) = Some q \<Longrightarrow> same_pod q p" "add_page env vs (dset (pd_id p) p pods) = Inr pods'"
    by (auto simp: rbind_eq_Inr split: if_splits option.splits)
  let ?d = "dset (pd_id p) p pods"
  from p(3) Cons.prems(2) have IH: "keyed pods'"
    "\<forall>v\<in>set vs. \<exists>p. rp_pod env v = Inr p \<and> (\<exists>q\<in>snd ` set pods'. same_pod q p)"
    "\<forall>p\<in>snd ` set ?d. \<exists>q\<in>snd ` set pods'. same_pod q p"
    "\<forall>q\<in>snd ` set pods'. q \<in> snd ` set ?d \<or> (\<exists>v\<in>set vs. rp_pod env v = Inr q)"
    using Cons.IH [OF p(3) keyed_dset] by blast+
  have k: "dict_ok pods" "\<And>k q. (k, q) \<in> set pods \<Longrightarrow> pd_id q = k" using Cons.prems(2) by (auto simp: keyed_def)
  have new: "p \<in> snd ` set ?d" using k(1) by (force simp: set_dset)
  have old: "\<exists>q\<in>snd ` set ?d. same_pod q p'" if "p' \<in> snd ` set pods" for p'
  proof (cases "pd_id p' = pd_id p")
    case True
    with that k have "dget pods (pd_id p) = Some p'" by (auto intro: dget_of_mem)
    with p(2) new show ?thesis by (blast intro: same_pod_sym)
  next
    case False
    with that k show ?thesis by (force simp: set_dset)
  qed
  have "snd ` set ?d \<subseteq> insert p (snd ` set pods)" using k(1) by (auto simp: set_dset)
  with IH(4) p(1) have orig: "\<forall>q\<in>snd ` set pods'. q \<in> snd ` set pods \<or> (\<exists>v\<in>set (v # vs). rp_pod env v = Inr q)"
    unfolding list.set by blast
  from IH(3) new have "\<exists>q\<in>snd ` set pods'. same_pod q p" by blast
  moreover from IH(3) old have "\<forall>p\<in>snd ` set pods. \<exists>q\<in>snd ` set pods'. same_pod q p" by (meson same_pod_trans)
  ultimately show ?case using IH(1,2) p(1) orig by simp
qed (auto, metis same_pod_refl snd_conv)

lemma add_page_lists_new: "add_page env vs [] = Inr pods \<Longrightarrow> lists env vs (map snd pods)"
  using add_page_lists [of env vs "[]" pods] keyed_ids [of pods] by (simp add: lists_def keyed_def)

text \<open>The requests of a listing never repeat; \<open>fresh_pages cursors es\<close>: none has a cursor of \<open>cursors\<close>.\<close>

definition fresh_pages :: "string list \<Rightarrow> (http_call \<times> http_answer option) list \<Rightarrow> bool" where
  "fresh_pages cursors es = (\<forall>e\<in>set es. \<exists>c. fst e = page_call (Some c) \<and> c \<notin> set cursors)"

lemma page_call_inj: "page_call c = page_call d \<Longrightarrow> c = d"
  by (simp add: page_call_def page_params_def split: option.splits)

definition listed_from :: "'w runpod_env \<Rightarrow> string option \<Rightarrow> string list \<Rightarrow> (string, pod) dict \<Rightarrow> pod list option result \<Rightarrow>
    (http_call \<times> http_answer option) list \<Rightarrow> bool" where
  "listed_from env cursor cursors pods r es = (case r of
     Inr (Some ps) \<Rightarrow> page_chain cursor es \<and> distinct (map fst es) \<and> fresh_pages cursors (tl es) \<and>
       (\<exists>pods'. add_page env (concat (map page_entries es)) pods = Inr pods' \<and> ps = map snd pods')
   | _ \<Rightarrow> True)"

lemma listed_from_step:
  assumes "ha_status a = 200" "page_parts a = Some (vs, Some c)" "add_page env vs pods = Inr pods1"
    "c \<notin> set cursors" "\<And>d. cursor = Some d \<Longrightarrow> d \<in> set cursors"
    "listed_from env (Some c) (c # cursors) pods1 r es"
  shows "listed_from env cursor cursors pods r ((page_call cursor, Some a) # es)"
proof (cases "\<exists>ps. r = Inr (Some ps)")
  case True
  then obtain ps where r: "r = Inr (Some ps)" ..
  with assms(6) obtain pods' where f: "page_chain (Some c) es" "distinct (map fst es)" "fresh_pages (c # cursors) (tl es)"
    "add_page env (concat (map page_entries es)) pods1 = Inr pods'" "ps = map snd pods'" by (auto simp: listed_from_def)
  from f(1) obtain e es' where es: "es = (page_call (Some c), e) # es'" by (cases es) auto
  have fr: "fresh_pages cursors es"
    using f(3) assms(4) es by (auto simp: fresh_pages_def)
  have "page_call cursor \<notin> fst ` set es"
  proof
    assume "page_call cursor \<in> fst ` set es"
    with fr obtain d where "page_call cursor = page_call (Some d)" "d \<notin> set cursors" by (auto simp: fresh_pages_def)
    with assms(5) show False using page_call_inj by blast
  qed
  with f assms(1-3) fr r show ?thesis by (simp add: listed_from_def page_entries_def add_page_append)
qed (auto simp: listed_from_def split: sum.split option.split)

lemma pages_spec:
  assumes "\<And>c. cursor = Some c \<Longrightarrow> c \<in> set cursors"
  shows "traced rp_log (rp_pages env n cursor cursors pods) (listed_from env cursor cursors pods)"
  using assms
proof (induction n arbitrary: cursor cursors pods)
  case 0
  then show ?case by (auto intro: traced_rules simp: listed_from_def)
next
  case (Suc n)
  have err: "listed_from env cursor cursors pods (Inl e) es" for e es by (simp add: listed_from_def)
  show ?case
  proof (unfold rp_pages.simps, rule traced_seq [OF request_asks], goal_cases)
    case (2 a es)
    then have es: "es = [(page_call cursor, Some a)]" by (simp add: asked_def)
    let ?read = "rbind (answer_object a) (\<lambda>value. incomplete (read_page env value pods cursors))"
    have "traced rp_log (case x of (pods', None) \<Rightarrow> act_return (Some (map snd pods')) | (pods', Some c) \<Rightarrow> rp_pages env n (Some c) (c # cursors) pods')
        (\<lambda>r es. listed_from env cursor cursors pods r ((page_call cursor, Some a) # es))"
      if ok: "ha_status a = 200" and "?read = Inr x" for x
    proof -
      obtain pods1 follow where x: "x = (pods1, follow)" by force
      from that(2) x obtain val where "answer_object a = Inr val" "incomplete (read_page env val pods cursors) = Inr (pods1, follow)"
        by (auto simp: rbind_eq_Inr)
      from page_read [OF this] obtain vs where vs: "page_parts a = Some (vs, follow)" "add_page env vs pods = Inr pods1"
        "\<And>c. follow = Some c \<Longrightarrow> c \<notin> set cursors" by blast
      show ?thesis
      proof (cases follow)
        case None
        with vs ok x show ?thesis
          by (auto intro!: traced_return simp: page_entries_def fresh_pages_def listed_from_def)
      next
        case (Some c)
        have "traced rp_log (rp_pages env n (Some c) (c # cursors) pods1) (listed_from env (Some c) (c # cursors) pods1)"
          by (rule Suc.IH) simp
        then have "traced rp_log (rp_pages env n (Some c) (c # cursors) pods1)
            (\<lambda>r es. listed_from env cursor cursors pods r ((page_call cursor, Some a) # es))"
          by (rule traced_mono) (use vs Some ok Suc.prems in \<open>auto intro!: listed_from_step\<close>)
        with Some x show ?thesis by simp
      qed
    qed
    then show ?case unfolding es
      by (intro traced_if traced_raise traced_bind traced_lift) (simp_all add: err split: sum.split)
  qed (simp_all add: err)
qed

definition complete_listing :: "'w runpod_env \<Rightarrow> (http_call \<times> http_answer option) list \<Rightarrow> pod list result \<Rightarrow> bool" where
  "complete_listing env es r = (case r of Inl _ \<Rightarrow> True
   | Inr ps \<Rightarrow> page_chain None es \<and> distinct (map fst es) \<and> lists env (concat (map page_entries es)) ps)"

text \<open>
  An inventory is never partial: what a listing returns are the pods of all pages from the first to the
  one that says it is the last, every entry read and none dropped, no page asked for twice, and no two pods
  with one id.
\<close>

theorem listing_is_complete: "traced rp_log (rp_list_all env) (\<lambda>r es. complete_listing env es r)"
  unfolding rp_list_all_def
proof (rule traced_seq [OF pages_spec], goal_cases)
  case (3 x es)
  then show ?case
    using add_page_lists_new [of env]
    by (auto simp: listed_from_def complete_listing_def split: option.splits intro!: traced_rules)
qed (simp_all add: complete_listing_def)

lemma request_answer:
  assumes "rp_request env c s = (Inr a, s')"
  shows "\<exists>w w'. re_send env c w = (Some a, w')"
proof -
  from assms obtain s1 r s2 where "send env c s1 = (Inr r, s2)" "r = Some a"
    by (auto simp: rp_request_def act_bind_Inr act_simps split: option.splits)
  then show ?thesis by (auto simp: send_def outside_def act_bind_Inr act_simps split: prod.splits)
qed

lemma pages_end:
  assumes "finite C" "\<And>c w a w' vs d. re_send env c w = (Some a, w') \<Longrightarrow> page_parts a = Some (vs, Some d) \<Longrightarrow> d \<in> C"
    "card (C - set cursors) < n"
  shows "rp_pages env n cursor cursors pods s \<noteq> (Inr None, s')"
  using assms(3)
proof (induction n arbitrary: cursor cursors pods s)
  case (Suc n)
  show ?case
  proof
    assume "rp_pages env (Suc n) cursor cursors pods s = (Inr None, s')"
    then obtain a s1 val pods1 c where r: "rp_request env (page_call cursor) s = (Inr a, s1)" "answer_object a = Inr val"
      "incomplete (read_page env val pods cursors) = Inr (pods1, Some c)"
      "rp_pages env n (Some c) (c # cursors) pods1 s1 = (Inr None, s')"
      by (auto simp: act_bind_Inr act_simps rbind_eq_Inr split: if_splits option.splits)
    from request_answer [OF r(1)] obtain w w' where "re_send env (page_call cursor) w = (Some a, w')" by blast
    moreover from page_read [OF r(2,3)] obtain vs where "page_parts a = Some (vs, Some c)" "c \<notin> set cursors" by blast
    ultimately have "c \<in> C - set cursors" using assms(2) by blast
    moreover have "C - set (c # cursors) = (C - set cursors) - {c}" by auto
    ultimately have "card (C - set (c # cursors)) < n"
      using Suc.prems assms(1) card_Suc_Diff1 [of "C - set cursors" c] by simp
    with Suc.IH r(4) show False by blast
  qed
qed simp

lemma add_page_error: "add_page env vs pods = Inl e \<Longrightarrow> (\<exists>m. e = ValueError m) \<or> (\<exists>m. e = ProviderUnavailable m)"
  by (induction vs arbitrary: pods)
     (auto simp: rbind_eq_Inl rp_pod_def split: sum.splits if_splits option.splits)

lemma json_string_error: "json_string v = Inl e \<Longrightarrow> e = KeyError \<or> (\<exists>m. e = ValueError m)"
  by (auto simp: json_string_def split: option.splits json.splits if_splits)

lemma read_page_error:
  assumes "read_page env v pods cursors = Inl e"
  shows "e = KeyError \<or> (\<exists>m. e = ValueError m) \<or> (\<exists>m. e = ProviderUnavailable m)"
  using assms unfolding read_page_def object_dict_def
  by (cases "dget v ''pods''"; cases "dget v ''pagination''")
     (auto simp: rbind_eq_Inl dest!: add_page_error json_string_error split: json.splits if_splits option.splits)

lemma unending_other [simp]: "ProviderUnavailable m \<noteq> unending" "CreateRejected st \<noteq> unending"
  "unending \<noteq> ProviderUnavailable m" "unending \<noteq> CreateRejected st"
  by (simp_all add: unending_def)

lemma pages_raise: "traced rp_log (rp_pages env n cursor cursors pods) (\<lambda>r es. r \<noteq> Inl unending)"
proof (induction n arbitrary: cursor cursors pods)
  case 0
  then show ?case by (auto intro: traced_rules)
next
  case (Suc n)
  have read: "rbind (answer_object a) (\<lambda>value. incomplete (read_page env value pods cursors)) \<noteq> Inl unending" for a
  proof (cases "answer_object a")
    case (Inl e)
    then show ?thesis by (auto simp: answer_object_def unending_def split: option.splits sum.splits)
  next
    case (Inr val)
    show ?thesis
    proof (cases "read_page env val pods cursors")
      case (Inl e)
      from read_page_error [OF this] Inl Inr show ?thesis by (auto simp: incomplete_def unending_def)
    qed (simp add: Inr incomplete_def)
  qed
  show ?case
    unfolding rp_pages.simps
  proof (rule traced_seq [OF request_asks], goal_cases)
    case (2 a es)
    show ?case using read [of a]
      by (intro traced_rules) (auto intro!: traced_rules Suc.IH split: sum.split)
  qed (auto simp: asked_def split: if_splits)
qed

text \<open>
  C27: A listing ends: when the cursors the service hands out come from a finite set, one request more than
  the set has members is enough, whatever else the answers say.
\<close>

theorem listing_terminates:
  assumes "finite C" "\<And>c w a w' vs d. re_send env c w = (Some a, w') \<Longrightarrow> page_parts a = Some (vs, Some d) \<Longrightarrow> d \<in> C"
    "card C < re_fuel env"
  shows "fst (rp_list_all env s) \<noteq> Inl unending"
proof
  assume f: "fst (rp_list_all env s) = Inl unending"
  obtain r s' where p: "rp_pages env (re_fuel env) None [] [] s = (r, s')" by force
  show False
  proof (cases r)
    case (Inr x)
    with p pages_end [OF assms(1), of env "[]"] assms(2,3) obtain ps where "x = Some ps" by fastforce
    with Inr p f show False by (simp add: rp_list_all_def act_bind_def act_simps)
  next
    case (Inl e)
    have "traced rp_log (rp_pages env (re_fuel env) None [] []) (\<lambda>r es. r \<noteq> Inl unending)" by (rule pages_raise)
    from tracedD [OF this p] Inl p f show False by (simp add: rp_list_all_def act_bind_def act_simps)
  qed
qed

section \<open>Creating and reading back\<close>

text \<open>
  What the service shows of a pod made from a request: name, image and environment of the body, with the
  empty values of the environment left out.
\<close>

definition body_str :: "(string, json) dict \<Rightarrow> string \<Rightarrow> string" where
  "body_str body k = (case dget body k of Some (JStr v) \<Rightarrow> v | _ \<Rightarrow> [])"

definition shown_env :: "(string, json) dict \<Rightarrow> (string, json) dict" where
  "shown_env body = (case dget body ''env'' of Some (JObj e) \<Rightarrow> filter (\<lambda>(k, v). v \<noteq> JStr []) e | _ \<Rightarrow> [])"

definition created_reply :: "string \<Rightarrow> string \<Rightarrow> (string, json) dict \<Rightarrow> json" where
  "created_reply i status body = JObj [(''id'', JStr i), (''name'', JStr (body_str body ''name'')),
     (''image'', JStr (body_str body ''image'')), (''status'', JStr status), (''env'', JObj (shown_env body))]"

lemma pod_scope_cong:
  assumes "map_of (pd_markers p) = map_of (pd_markers q)" "pd_name p = pd_name q"
  shows "pod_scope sha p = pod_scope sha q"
proof -
  have keys: "set (dkeys (pd_markers p)) = set (dkeys (pd_markers q))"
    using assms(1) dom_map_of_conv_image_fst [of "pd_markers p"] dom_map_of_conv_image_fst [of "pd_markers q"] by simp
  then show ?thesis
    by (simp only: pod_scope_def pod_scope_result_def marker_def assms keys)
qed

lemma pod_session_cong:
  assumes "map_of (pd_markers p) = map_of (pd_markers q)" "pd_name p = pd_name q" "pd_image p = pd_image q" "pd_id p = pd_id q"
  shows "pod_session sha p = pod_session sha q" "epoch_ns p = epoch_ns q"
  using assms pod_scope_cong [OF assms(1,2)]
  by (simp_all add: pod_session_def marker_def lifecycle_def epoch_ns_def)

lemma dget_marker_list:
  "dget (map (\<lambda>k. (k, f k)) (filter P ks)) k = (if k \<in> set ks \<and> P k then Some (f k) else None)"
  by (induction ks) auto

lemma pod_markers_dget:
  "dget (pod_markers env e) k = (if k \<in> set MARKERS \<and> dhas e k then Some (str_of env (the (dget e k)))
     else if k = ''WITNESS_REPLACES'' then Some [] else None)"
  unfolding pod_markers_def Let_def dhas_def
  by (auto simp: dget_marker_list map_add_def dhas_def split: option.split)

lemma marker_values:
  assumes "scope_ok s" "scope_markers s start spec e rep = Inr ms" "hash_ok spec" "dget ms k = Some []"
  shows "k = ''WITNESS_REPLACES''"
proof -
  have "sc_deployment s \<noteq> []" "sc_round s \<noteq> []" "sc_hotkey s \<noteq> []"
    using assms(1) by (auto simp: scope_ok_def make_scope_def slug_ok_def hotkey_ok_def split: if_splits)
  moreover have "start \<noteq> []" using scope_markers_sel(1) [OF assms(2)] by (auto simp: uuid_ok_def)
  moreover have "spec \<noteq> []" using assms(3) by (auto simp: hash_ok_def)
  moreover have "show_int e \<noteq> []" using isdigit_nat_digits by (auto simp: show_int_def isdigit_def)
  ultimately show ?thesis
    using assms(2,4) by (auto simp: scope_markers_def rbind_eq_Inr session_uuid_def split: if_splits option.splits)
qed

lemma dict_ok_env_json: "dict_ok env \<Longrightarrow> (case env_json env of JObj kvs \<Rightarrow> dict_ok kvs | _ \<Rightarrow> False)"
  by (simp add: env_json_def comp_def case_prod_unfold)

lemma session_rest:
  "pod_session sha p = Inr x \<Longrightarrow> se_image x = pd_image p \<and> se_rejection x = None \<and> se_pod_id x = Some (pd_id p)"
  by (auto simp: pod_session_def rbind_eq_Inr split: if_splits)

text \<open>
  The pod that the service shows for a create request is read back as what was asked for: owned by the
  scope, pending, of the start, epoch, shape and image of the request and replacing what it said, although
  the service drops the empty values of the environment.
\<close>

theorem created_pod_read_back:
  assumes "scope_ok s" "validate_spec sp = Inr ()" "dict_ok (sp_env sp)" "hash_ok (fingerprint cy sp)"
    "create_body cy sp s start e rep = Inr body" "0 \<le> e" "rep \<noteq> Some []" "i \<noteq> []" "status \<noteq> []"
  shows "\<exists>p. read_pod env (created_reply i status body) = Inr p \<and> pd_id p = i \<and> pd_status p = status \<and>
    pod_scope (cy_sha cy) p = Some s \<and> epoch_ns p = Inr e \<and>
    pod_session (cy_sha cy) p = Inr \<lparr>se_start_id = start, se_replaces = rep, se_phase = creating,
      se_spec_hash = fingerprint cy sp, se_image = sp_image sp, se_pod_id = Some i, se_rejection = None\<rparr>"
proof -
  from create_body_environment [OF assms(2,5)] obtain ms where
    ms: "scope_markers s start (fingerprint cy sp) e rep = Inr ms"
    and env: "\<forall>m\<in>set MARKERS. body_env body m = map_option JStr (dget ms m)"
    and nm: "dget body ''name'' = Some (JStr (short_name s @ ''-pending''))" "dget body ''image'' = Some (JStr (sp_image sp))"
    by blast
  note m = scope_markers_sel [OF ms]
  from assms(5) obtain secrets ms' where b: "body = dset ''env'' (env_json (dset_all secrets (dset_all ms' (sp_env sp))))
      (dset ''name'' (JStr (short_name s @ ''-pending'')) (spec_body sp))"
    by (auto simp: create_body_def rbind_eq_Inr scope_name_def rmap_eq_Inr)
  have "\<exists>kvs. dget body ''env'' = Some (JObj kvs) \<and> dict_ok kvs"
    using dict_ok_env_json [of "dset_all secrets (dset_all ms' (sp_env sp))"] assms(3)
    by (auto simp: b env_json_def comp_def case_prod_unfold)
  then obtain kvs where kvs: "dget body ''env'' = Some (JObj kvs)" "dict_ok kvs" by blast
  have look: "dget kvs k = map_option JStr (dget ms k)" if "k \<in> set MARKERS" for k
    using env that kvs by (auto simp: body_env_def)
  have shown: "dget (shown_env body) k = (case dget kvs k of None \<Rightarrow> None | Some v \<Rightarrow> if v \<noteq> JStr [] then Some v else None)" for k
    using dget_filter [OF kvs(2), of "\<lambda>k v. v \<noteq> JStr []" k] by (simp add: shown_env_def kvs(1))
  let ?q = "requested_pod s i (sp_image sp) status ms start ''pending''"
  let ?p = "\<lparr>pd_id = i, pd_name = short_name s @ ''-pending'', pd_image = sp_image sp, pd_status = status,
    pd_markers = pod_markers env (shown_env body), pd_tcp = [], pd_cost = None\<rparr>"
  have "map_of (pod_markers env (shown_env body)) = map_of ms"
  proof
    fix k
    show "dget (pod_markers env (shown_env body)) k = dget ms k"
    proof (cases "k \<in> set MARKERS")
      case True
      with m(2) obtain v where v: "dget ms k = Some v" by (metis map_of_eq_None_iff not_None_eq set_map)
      show ?thesis
      proof (cases "v = []")
        case True
        with v marker_values [OF assms(1) ms assms(4)] have "k = ''WITNESS_REPLACES''" by blast
        with True v look [OF \<open>k \<in> set MARKERS\<close>] show ?thesis by (simp add: pod_markers_dget dhas_def shown)
      next
        case False
        with v look [OF \<open>k \<in> set MARKERS\<close>] \<open>k \<in> set MARKERS\<close> show ?thesis
          by (simp add: pod_markers_dget dhas_def shown str_of_def)
      qed
    next
      case False
      then have "dget ms k = None" using m(2) by (metis map_of_eq_None_iff set_map)
      moreover have "k \<noteq> ''WITNESS_REPLACES''" using False by (auto simp: MARKERS_def)
      ultimately show ?thesis using False by (simp add: pod_markers_dget)
    qed
  qed
  then have same: "map_of (pd_markers ?p) = map_of (pd_markers ?q)" "pd_name ?p = pd_name ?q" "pd_image ?p = pd_image ?q" "pd_id ?p = pd_id ?q"
    by (simp_all add: requested_pod_def)
  have "sp_image sp \<noteq> []" using assms(2) by (auto simp: validate_spec_def image_ok_def split: if_splits)
  then have "read_pod env (created_reply i status body) = Inr ?p"
    using nm assms(8,9)
    by (simp add: read_pod_def created_reply_def body_str_def object_dict_def present_def pod_tcp_def json_string_def)
  moreover have rec: "pod_scope (cy_sha cy) ?q = Some s" "epoch_ns ?q = Inr e"
    "rmap (\<lambda>x. (se_start_id x, se_replaces x, se_spec_hash x, se_pod_id x)) (pod_session (cy_sha cy) ?q) =
      Inr (start, rep, fingerprint cy sp, Some i)"
    "rmap se_phase (pod_session (cy_sha cy) ?q) = phase_of ''pending''"
    using created_pod_recognised [OF assms(1) ms assms(6,4) _ assms(7), of "''pending''"] by (auto simp: lifecycles_def)
  moreover from rec(3,4) obtain x where x: "pod_session (cy_sha cy) ?q = Inr x" "se_start_id x = start" "se_replaces x = rep"
    "se_spec_hash x = fingerprint cy sp" "se_phase x = creating"
    by (auto simp: rmap_eq_Inr)
  moreover from session_rest [OF x(1)] have "se_image x = sp_image sp" "se_rejection x = None" "se_pod_id x = Some i"
    by (simp_all add: requested_pod_def)
  ultimately show ?thesis
    using pod_scope_cong [OF same(1,2)] pod_session_cong [OF same]
    by (intro exI [of _ ?p]) (simp add: session.equality)
qed

section \<open>Examples\<close>

text \<open>A service with an inventory of two pages.\<close>

definition example_page :: "json list \<Rightarrow> string option \<Rightarrow> http_answer" where
  "example_page vs follow = \<lparr>ha_status = 200, ha_retry_after = None, ha_json = Some (JObj [(''pods'', JList vs),
     (''pagination'', JObj ([(''hasNextPage'', JBool (follow \<noteq> None))] @
        (case follow of None \<Rightarrow> [] | Some c \<Rightarrow> [(''nextCursor'', JStr c)])))])\<rparr>"

definition example_pod_json :: "string \<Rightarrow> json" where
  "example_pod_json i = JObj [(''id'', JStr i), (''name'', JStr ''n''), (''image'', JStr ''img''), (''status'', JStr ''RUNNING'')]"

definition example_service :: "http_call \<Rightarrow> unit \<Rightarrow> http_answer option \<times> unit" where
  "example_service c w = (Some (if dget (hc_params c) ''cursor'' = None then example_page [example_pod_json ''p1''] (Some ''c'')
     else example_page [example_pod_json ''p2''] None), w)"

definition example_runpod :: "unit runpod_env" where
  "example_runpod = \<lparr>re_interval = 0, re_cache_seconds = 0, re_fuel = 2, re_send = example_service,
     re_monotonic = (\<lambda>w. (0, w)), re_time = (\<lambda>w. (0, w)), re_sleep = (\<lambda>t w. ((), w)), re_http_date = (\<lambda>_. None),
     re_ip = (\<lambda>_. None), re_str = (\<lambda>_. [])\<rparr>"

definition example_client :: "unit runpod" where
  "example_client = \<lparr>rp_world = (), rp_next = 0, rp_cached = None, rp_log = []\<rparr>"

lemma example_listing: "rmap (map pd_id) (fst (rp_list_all example_runpod example_client)) = Inr [''p1'', ''p2'']"
  by code_simp

theorem listing_terminates_witness: "fst (rp_list_all example_runpod example_client) \<noteq> Inl unending"
proof (rule listing_terminates [of "{''c''}"])
  fix c w a w' vs d
  assume "re_send example_runpod c w = (Some a, w')" "page_parts a = Some (vs, Some d)"
  then show "d \<in> {''c''}"
    by (auto simp: example_runpod_def example_service_def example_page_def page_parts_def json_string_def split: if_splits)
qed (simp_all add: example_runpod_def)

theorem created_pod_read_back_witness:
  "\<exists>body p. create_body example_crypto example_spec example_scope example_start 17 None = Inr body \<and>
     read_pod example_runpod (created_reply ''p1'' ''RUNNING'' body) = Inr p \<and>
     pod_scope (cy_sha example_crypto) p = Some example_scope"
proof -
  have "fingerprint example_crypto example_spec = replicate 64 (CHR ''0'')"
    by (simp add: fingerprint_def example_crypto_def del: replicate.simps)
  moreover have "hash_ok (replicate 64 (CHR ''0''))" "validate_spec example_spec = Inr ()" "dict_ok (sp_env example_spec)"
    by code_simp+
  ultimately have ok: "validate_spec example_spec = Inr ()" "dict_ok (sp_env example_spec)"
    "hash_ok (fingerprint example_crypto example_spec)" by simp_all
  obtain body where b: "create_body example_crypto example_spec example_scope example_start 17 None = Inr body"
    using example_scopes(3)
    by (simp add: create_body_def example_spec_def capability_def session_uuid_def scope_name_def scope_markers_def)
  from created_pod_read_back [OF example_scopes(1) ok b, of "''p1''" "''RUNNING''" example_runpod] b show ?thesis by auto
qed

end
