(* ===== verification/Allocator.thy ===== *)
theory Allocator
  imports Admission RunPod
begin

text \<open>
  The allocator of the gateway, \<^verbatim>\<open>pod_gateway/lifecycle.py\<close>: which pod of a miner is the one, how it is
  activated, drained, deleted and replaced, and when a new one may be created. The provider, the control
  connection, the durable fence and the hooks of the gateway are parameters over a state of the world of
  any type; nothing is assumed about what they answer. The log of what was asked and answered is for the
  properties only. Pods that reach \<open>winner\<close> have a scope, so their markers are present.
\<close>

section \<open>The one pod of a miner\<close>

definition start_of :: "pod \<Rightarrow> string" where
  "start_of p = (case marker p ''WITNESS_START_ID'' of Inl _ \<Rightarrow> [] | Inr s \<Rightarrow> s)"

definition epoch_of :: "pod \<Rightarrow> int" where
  "epoch_of p = (case epoch_ns p of Inl _ \<Rightarrow> 0 | Inr e \<Rightarrow> e)"

fun start_epochs :: "pod list \<Rightarrow> (string, int) dict \<Rightarrow> (string, int) dict" where
  "start_epochs [] d = d"
| "start_epochs (p # ps) d = start_epochs ps (dset (start_of p) (max (dget_default d (start_of p) 0) (epoch_of p)) d)"

text \<open>\<^verbatim>\<open>max\<close> and \<^verbatim>\<open>min\<close> with a key: the first of the extreme elements.\<close>

fun max_by :: "('a \<Rightarrow> 'b::linorder) \<Rightarrow> 'a \<Rightarrow> 'a list \<Rightarrow> 'a" where
  "max_by f a [] = a"
| "max_by f a (b # bs) = max_by f (if f a < f b then b else a) bs"

fun min_by :: "('a \<Rightarrow> 'b::linorder) \<Rightarrow> 'a \<Rightarrow> 'a list \<Rightarrow> 'a" where
  "min_by f a [] = a"
| "min_by f a (b # bs) = min_by f (if f b < f a then b else a) bs"

definition newest_start :: "pod list \<Rightarrow> string" where
  "newest_start ps = (case start_epochs ps [] of [] \<Rightarrow> [] | kv # kvs \<Rightarrow> fst (max_by (\<lambda>(k, v). (v, k)) kv kvs))"

definition preferred :: "pod list \<Rightarrow> pod list" where
  "preferred copies =
     (let active = filter (\<lambda>p. lifecycle p = ''active'') copies; viable = filter (\<lambda>p. lifecycle p = ''pending'') copies
      in if active \<noteq> [] then active else if viable \<noteq> [] then viable else copies)"

definition winner :: "pod list \<Rightarrow> pod option" where
  "winner ps =
     (if ps = [] then None
      else (case preferred (filter (\<lambda>p. start_of p = newest_start ps) ps) of
              [] \<Rightarrow> None | q # qs \<Rightarrow> Some (min_by pd_id q qs)))"

section \<open>The allocator\<close>

record operation =
  op_session :: session
  op_epoch :: int
  op_since :: pyfloat
  op_submitted :: bool

datatype alloc_event =
    Listed "pod list"
  | Got string "pod option"
  | RenameTo string string
  | DrainAsked pod bool
  | DeleteOf string
  | FenceAsked pod bool
  | FenceDone pod bool
  | Created scope string

record 'w allocator =
  al_world :: 'w
  al_ticks :: nat
  al_spec :: pod_spec
  al_operations :: "(scope, operation) dict"
  al_log :: "alloc_event list"

record 'w fence =
  fe_update :: "pod \<Rightarrow> bool \<Rightarrow> ('w, unit) action"
  fe_revoked :: "pod \<Rightarrow> ('w, bool) action"

record 'w alloc_env =
  av_crypto :: crypto
  av_list :: "bool \<Rightarrow> ('w, pod list) action"
  av_get :: "string \<Rightarrow> ('w, pod option) action"
  av_rename :: "string \<Rightarrow> string \<Rightarrow> ('w, unit) action"
  av_delete :: "string \<Rightarrow> ('w, unit) action"
  av_create :: "(string, json) dict \<Rightarrow> ('w, pod) action"
  av_drain :: "pod \<Rightarrow> ('w, bool) action"
  av_selection :: "'w fence option"
  av_before_create :: "(scope \<Rightarrow> string \<Rightarrow> ('w, unit) action) option"
  av_pending_creates :: "('w, (scope \<times> string) list) action option"
  av_max_pods :: "nat option"
  av_grace :: pyfloat
  av_clock :: "nat \<Rightarrow> pyfloat"

type_synonym ('w, 'a) alloc = "('w allocator, 'a) action"

definition call :: "('w, 'a) action \<Rightarrow> ('w, 'a) alloc" where
  "call m a = (case m (al_world a) of (r, w) \<Rightarrow> (r, a\<lparr>al_world := w\<rparr>))"

definition logged :: "alloc_event \<Rightarrow> ('w, unit) alloc" where
  "logged e = act_modify (\<lambda>a. a\<lparr>al_log := al_log a @ [e]\<rparr>)"

definition tick :: "'w alloc_env \<Rightarrow> ('w, pyfloat) alloc" where
  "tick env a = (Inr (av_clock env (al_ticks a)), a\<lparr>al_ticks := Suc (al_ticks a)\<rparr>)"

definition list_pods :: "'w alloc_env \<Rightarrow> bool \<Rightarrow> ('w, pod list) alloc" where
  "list_pods env fresh = act_bind (call (av_list env fresh)) (\<lambda>ps. act_bind (logged (Listed ps)) (\<lambda>_. act_return ps))"

definition get_pod :: "'w alloc_env \<Rightarrow> string \<Rightarrow> ('w, pod option) alloc" where
  "get_pod env i = act_bind (call (av_get env i)) (\<lambda>p. act_bind (logged (Got i p)) (\<lambda>_. act_return p))"

definition drain_pod :: "'w alloc_env \<Rightarrow> pod \<Rightarrow> ('w, bool) alloc" where
  "drain_pod env p = act_bind (call (av_drain env p)) (\<lambda>b. act_bind (logged (DrainAsked p b)) (\<lambda>_. act_return b))"

definition set_fence :: "'w alloc_env \<Rightarrow> pod \<Rightarrow> bool \<Rightarrow> ('w, unit) alloc" where
  "set_fence env p active = (case av_selection env of None \<Rightarrow> act_return ()
     | Some f \<Rightarrow> act_bind (logged (FenceAsked p active)) (\<lambda>_. act_bind (call (fe_update f p active)) (\<lambda>_.
         logged (FenceDone p active))))"

definition is_revoked_pod :: "'w alloc_env \<Rightarrow> pod \<Rightarrow> ('w, bool) alloc" where
  "is_revoked_pod env p = (case av_selection env of None \<Rightarrow> act_return False | Some f \<Rightarrow> call (fe_revoked f p))"

text \<open>\<^verbatim>\<open>except ProviderUnavailable: pass\<close>; an explicit rejection is a subclass.\<close>

definition is_unavailable :: "exn \<Rightarrow> bool" where
  "is_unavailable e = (case e of ProviderUnavailable _ \<Rightarrow> True | CreateRejected _ \<Rightarrow> True | CreateUnknown _ \<Rightarrow> True | _ \<Rightarrow> False)"

definition unless_unavailable :: "('s, unit) action \<Rightarrow> ('s, unit) action" where
  "unless_unavailable m = act_handle m (\<lambda>e. if is_unavailable e then act_return () else act_raise e) act_return"

definition pod_owner :: "'w alloc_env \<Rightarrow> pod \<Rightarrow> scope option" where
  "pod_owner env p = pod_scope (cy_sha (av_crypto env)) p"

definition owned :: "'w alloc_env \<Rightarrow> pod list \<Rightarrow> scope \<Rightarrow> pod list" where
  "owned env ps s = filter (\<lambda>p. pod_owner env p = Some s) ps"

definition session_of :: "'w alloc_env \<Rightarrow> pod \<Rightarrow> ('w, session) alloc" where
  "session_of env p = act_lift (pod_session (cy_sha (av_crypto env)) p)"

definition set_operation :: "scope \<Rightarrow> operation \<Rightarrow> ('w, unit) alloc" where
  "set_operation s operation = act_modify (\<lambda>a. a\<lparr>al_operations := dset s operation (al_operations a)\<rparr>)"

definition spec_print :: "'w alloc_env \<Rightarrow> pod_spec \<Rightarrow> string" where
  "spec_print env sp = fingerprint (av_crypto env) sp"

section \<open>Reading\<close>

definition current :: "'w alloc_env \<Rightarrow> scope \<Rightarrow> ('w, session option) alloc" where
  "current env s =
     act_bind (list_pods env False) (\<lambda>ps.
     act_bind (act_get (\<lambda>a. dget (al_operations a) s)) (\<lambda>operation.
       let pod = winner (owned env ps s);
           rest = (case pod of None \<Rightarrow> act_return None | Some p \<Rightarrow> act_bind (session_of env p) (\<lambda>se. act_return (Some se)))
       in case operation of
            None \<Rightarrow> rest
          | Some op \<Rightarrow>
              if se_phase (op_session op) \<in> {creating, draining}
              then act_bind (tick env) (\<lambda>now.
                if av_grace env \<le> fsub now (op_since op)
                then act_bind (set_operation s (op\<lparr>op_session := (op_session op)\<lparr>se_phase := lost, se_pod_id := None\<rparr>\<rparr>)) (\<lambda>_. rest)
                else if (case pod of None \<Rightarrow> True | Some p \<Rightarrow> epoch_of p < op_epoch op)
                then act_return (Some (op_session op)) else rest)
              else rest))"

definition status :: "'w alloc_env \<Rightarrow> scope \<Rightarrow> string \<Rightarrow> ('w, session option) alloc" where
  "status env s start_id =
     act_bind (act_lift (session_uuid start_id)) (\<lambda>_.
     act_bind (list_pods env False) (\<lambda>ps.
       case winner (filter (\<lambda>p. start_of p = start_id) (owned env ps s)) of
         Some p \<Rightarrow> act_bind (session_of env p) (\<lambda>se. act_return (Some se))
       | None \<Rightarrow>
           act_bind (act_get (\<lambda>a. dget (al_operations a) s)) (\<lambda>operation.
             case operation of
               None \<Rightarrow> act_return None
             | Some op \<Rightarrow>
                 if se_start_id (op_session op) \<noteq> start_id then act_return None
                 else if se_phase (op_session op) = allocated
                 then act_return (Some ((op_session op)\<lparr>se_phase := lost, se_pod_id := None\<rparr>))
                 else act_bind (tick env) (\<lambda>now.
                   if av_grace env \<le> fsub now (op_since op)
                   then act_return (Some ((op_session op)\<lparr>se_phase := lost, se_pod_id := None\<rparr>))
                   else act_return (Some (op_session op))))))"

definition selected_pod :: "'w alloc_env \<Rightarrow> scope \<Rightarrow> string \<Rightarrow> string \<Rightarrow> ('w, bool) alloc" where
  "selected_pod env s start_id pod_id =
     act_bind (list_pods env False) (\<lambda>ps.
       act_return (case winner (owned env ps s) of None \<Rightarrow> False
         | Some p \<Rightarrow> lifecycle p = ''active'' \<and> pd_status p = ''RUNNING'' \<and> pd_id p = pod_id \<and> start_of p = start_id))"

section \<open>Renaming and retiring\<close>

definition same_markers :: "pod \<Rightarrow> pod \<Rightarrow> bool" where
  "same_markers p q = (set (dkeys (pd_markers p)) = set (dkeys (pd_markers q)) \<and>
     list_all (\<lambda>(k, v). dget (pd_markers q) k = Some v) (pd_markers p))"

definition rename_pod :: "'w alloc_env \<Rightarrow> pod \<Rightarrow> string \<Rightarrow> ('w, pod) alloc" where
  "rename_pod env p life =
     (case pod_owner env p of
        None \<Rightarrow> act_raise (InventoryConflict ''Invalid Pod ownership'')
      | Some s \<Rightarrow>
          act_bind (get_pod env (pd_id p)) (\<lambda>cur.
            case cur of
              None \<Rightarrow> act_raise (InventoryConflict ''Pod identity changed'')
            | Some c \<Rightarrow>
                if pod_owner env c \<noteq> Some s \<or> pd_image c \<noteq> pd_image p \<or> \<not> same_markers c p
                then act_raise (InventoryConflict ''Pod identity changed'')
                else
                  act_bind (act_lift (scope_name s (start_of p))) (\<lambda>base.
                    let name = base @ ''-'' @ life
                    in if pd_name c = name then act_return c
                       else if pd_name c \<noteq> pd_name p then act_raise (InventoryConflict ''Pod lifecycle changed'')
                       else
                         act_bind (unless_unavailable (act_bind (logged (RenameTo (pd_id p) name)) (\<lambda>_.
                             call (av_rename env (pd_id p) name)))) (\<lambda>_.
                         act_bind (get_pod env (pd_id p)) (\<lambda>actual.
                           case actual of
                             None \<Rightarrow> act_raise (ProviderUnavailable ''Pod lifecycle update is unconfirmed'')
                           | Some q \<Rightarrow>
                               if pd_name q \<noteq> name \<or> pd_image q \<noteq> pd_image p \<or> \<not> same_markers q p
                               then act_raise (ProviderUnavailable ''Pod lifecycle update is unconfirmed'')
                               else act_return q)))))"

definition stopped :: "pod \<Rightarrow> bool" where
  "stopped p = (pd_status p \<in> {''EXITED'', ''ERROR''})"

text \<open>The end of \<^verbatim>\<open>retire\<close>: delete, and look whether the pod is gone.\<close>

definition delete_pod :: "'w alloc_env \<Rightarrow> session \<Rightarrow> pod \<Rightarrow> ('w, session) alloc" where
  "delete_pod env original p =
     act_bind (unless_unavailable (act_bind (logged (DeleteOf (pd_id p))) (\<lambda>_. call (av_delete env (pd_id p))))) (\<lambda>_.
     act_bind (get_pod env (pd_id p)) (\<lambda>left.
       act_return (original\<lparr>se_phase := (if left \<noteq> None then retiring else retired)\<rparr>)))"

definition retire :: "'w alloc_env \<Rightarrow> scope \<Rightarrow> string \<Rightarrow> string \<Rightarrow> bool \<Rightarrow> ('w, session) alloc" where
  "retire env s start_id pod_id drain =
     act_bind (get_pod env pod_id) (\<lambda>pod.
       case pod of
         None \<Rightarrow> act_bind (act_get al_spec) (\<lambda>sp.
           act_return \<lparr>se_start_id = start_id, se_replaces = None, se_phase = retired, se_spec_hash = spec_print env sp,
             se_image = sp_image sp, se_pod_id = Some pod_id, se_rejection = None\<rparr>)
       | Some p \<Rightarrow>
           if pod_owner env p \<noteq> Some s \<or> start_of p \<noteq> start_id
           then act_raise (InventoryConflict ''Cannot retire a different Pod'')
           else
             act_bind (session_of env p) (\<lambda>original.
             act_bind (set_fence env p False) (\<lambda>_.
               if lifecycle p = ''drained'' then delete_pod env original p
               else
                 act_bind (rename_pod env p ''draining'') (\<lambda>q.
                 act_bind (if drain \<and> \<not> stopped q then drain_pod env q else act_return True) (\<lambda>ok.
                   if \<not> ok then act_return (original\<lparr>se_phase := retiring\<rparr>)
                   else act_bind (rename_pod env q ''drained'') (delete_pod env original))))))"

section \<open>Reconciling\<close>

text \<open>The loop over the pods that are not the winner; the result is \<^verbatim>\<open>blocked\<close>.\<close>

fun retire_others :: "'w alloc_env \<Rightarrow> scope \<Rightarrow> pod \<Rightarrow> pod list \<Rightarrow> bool \<Rightarrow> ('w, bool) alloc" where
  "retire_others env s w [] blocked = act_return blocked"
| "retire_others env s w (p # ps) blocked =
     (if pd_id p = pd_id w then retire_others env s w ps blocked
      else act_bind (retire env s (start_of p) (pd_id p) True) (\<lambda>se.
        retire_others env s w ps (blocked \<or> (start_of p \<noteq> start_of w \<and> se_phase se \<noteq> retired))))"

definition activate :: "'w alloc_env \<Rightarrow> pod \<Rightarrow> ('w, session option) alloc" where
  "activate env w = act_bind (set_fence env w True) (\<lambda>_. act_bind (session_of env w) (\<lambda>se. act_return (Some se)))"

definition reconcile_pods :: "'w alloc_env \<Rightarrow> scope \<Rightarrow> pod list \<Rightarrow> ('w, session option) alloc" where
  "reconcile_pods env s inventory =
     (case winner (owned env inventory s) of
        None \<Rightarrow> act_return None
      | Some w \<Rightarrow>
          act_bind (retire_others env s w (owned env inventory s) False) (\<lambda>blocked.
          act_bind (if lifecycle w \<in> {''draining'', ''drained''} \<or> stopped w then act_return True else is_revoked_pod env w) (\<lambda>gone.
            let go = act_bind (retire env s (start_of w) (pd_id w) True) (\<lambda>se. act_return (Some se))
            in if gone then go
               else if lifecycle w = ''pending''
               then (if blocked then act_bind (session_of env w) (\<lambda>se. act_return (Some se))
                     else act_bind (act_get al_spec) (\<lambda>sp.
                       if pd_image w \<noteq> sp_image sp \<or> dget (pd_markers w) ''WITNESS_POD_SPEC'' \<noteq> Some (spec_print env sp)
                       then go
                       else act_bind (set_fence env w True) (\<lambda>_. act_bind (rename_pod env w ''active'') (activate env))))
               else activate env w)))"

section \<open>Creating\<close>

text \<open>The unresolved creates of this process, as the comprehension in \<^verbatim>\<open>_progress\<close> collects them.\<close>

fun unresolved_operations :: "'w alloc_env \<Rightarrow> (scope \<times> operation) list \<Rightarrow> ('w, (scope \<times> string) list) alloc" where
  "unresolved_operations env [] = act_return []"
| "unresolved_operations env ((s, op) # ops) =
     (if op_submitted op \<and> se_phase (op_session op) = creating
      then act_bind (tick env) (\<lambda>now. act_bind (unresolved_operations env ops) (\<lambda>rest.
        act_return (if fsub now (op_since op) < av_grace env then (s, se_start_id (op_session op)) # rest else rest)))
      else unresolved_operations env ops)"

definition check_capacity :: "'w alloc_env \<Rightarrow> scope \<Rightarrow> pod list \<Rightarrow> ('w, unit) alloc" where
  "check_capacity env s inventory =
     (case av_max_pods env of
        None \<Rightarrow> act_return ()
      | Some max_pods \<Rightarrow>
          act_bind (act_get al_operations) (\<lambda>ops.
          act_bind (unresolved_operations env ops) (\<lambda>mine.
          act_bind (case av_pending_creates env of None \<Rightarrow> act_return [] | Some m \<Rightarrow> call m) (\<lambda>theirs.
            let visible = map (\<lambda>p. (pod_owner env p, dget (pd_markers p) ''WITNESS_START_ID'')) inventory;
                pending = filter (\<lambda>(o', i). sc_deployment o' = sc_deployment s \<and> (Some o', Some i) \<notin> set visible)
                  (remdups (mine @ theirs))
            in act_lift (admission_check (cy_sha (av_crypto env)) max_pods inventory (sc_deployment s) (length pending))))))"

text \<open>A pod of the same miner, or of the same scope of a gateway, has to be gone first.\<close>

definition competes :: "scope \<Rightarrow> scope \<Rightarrow> bool" where
  "competes s owner = (owner = s \<or> (sc_round s \<noteq> ''gateway'' \<and> sc_round owner \<noteq> ''gateway'' \<and>
     sc_deployment owner = sc_deployment s \<and> sc_hotkey owner = sc_hotkey s))"

fun clear_field :: "'w alloc_env \<Rightarrow> scope \<Rightarrow> pod list \<Rightarrow> ('w, bool) alloc" where
  "clear_field env s [] = act_return True"
| "clear_field env s (p # ps) =
     (case pod_owner env p of
        None \<Rightarrow> clear_field env s ps
      | Some owner \<Rightarrow>
          if \<not> competes s owner then clear_field env s ps
          else act_bind (retire env owner (start_of p) (pd_id p) (sc_round s = ''gateway'' \<or> sc_round owner \<noteq> sc_round s)) (\<lambda>se.
            if se_phase se \<noteq> retired then act_return False else clear_field env s ps))"

definition epoch_now :: "pyfloat \<Rightarrow> int" where
  "epoch_now now = py_trunc (fmul now 1000000000)"

definition create_pod :: "'w alloc_env \<Rightarrow> scope \<Rightarrow> operation \<Rightarrow> ('w, session) alloc" where
  "create_pod env s op =
     act_bind (act_get al_spec) (\<lambda>sp.
     act_bind (act_lift (create_body (av_crypto env) sp s (se_start_id (op_session op)) (op_epoch op)
       (se_replaces (op_session op)))) (\<lambda>body.
     act_bind (logged (Created s (se_start_id (op_session op)))) (\<lambda>_.
     act_handle (call (av_create env body))
       (\<lambda>e. case e of
          CreateRejected st \<Rightarrow>
            (let se = (op_session op)\<lparr>se_phase := rejected, se_rejection := Some st\<rparr>
             in act_bind (set_operation s (op\<lparr>op_session := se\<rparr>)) (\<lambda>_. act_return se))
        | _ \<Rightarrow> if is_unavailable e then act_return (op_session op) else act_raise e)
       (\<lambda>p. if \<not> pod_matches (cy_sha (av_crypto env)) p s (op_session op)
            then act_raise (InventoryConflict ''Create returned a different Pod'')
            else act_bind (list_pods env True) (\<lambda>ps. act_bind (reconcile_pods env s ps) (\<lambda>actual.
              case actual of None \<Rightarrow> act_return (op_session op)
              | Some se \<Rightarrow> act_bind (set_operation s (op\<lparr>op_session := se\<rparr>)) (\<lambda>_. act_return se)))))))"

definition progress :: "'w alloc_env \<Rightarrow> scope \<Rightarrow> operation \<Rightarrow> ('w, session) alloc" where
  "progress env s op =
     act_bind (list_pods env True) (\<lambda>inventory.
       if filter (\<lambda>p. start_of p = se_start_id (op_session op)) (owned env inventory s) \<noteq> []
       then act_bind (reconcile_pods env s inventory) (\<lambda>actual.
         case actual of None \<Rightarrow> act_raise AssertionError
         | Some se \<Rightarrow> act_bind (set_operation s (op\<lparr>op_session := se\<rparr>)) (\<lambda>_. act_return se))
       else if op_submitted op then act_return (op_session op)
       else
         act_bind (clear_field env s inventory) (\<lambda>clear.
           if \<not> clear then act_return (op_session op)
           else
             act_bind (list_pods env True) (\<lambda>ps.
             act_bind (check_capacity env s ps) (\<lambda>_.
             act_bind (case av_before_create env of None \<Rightarrow> act_return ()
                       | Some hook \<Rightarrow> call (hook s (se_start_id (op_session op)))) (\<lambda>_.
             act_bind (tick env) (\<lambda>now.
               let op' = op\<lparr>op_epoch := max (op_epoch op) (epoch_now now), op_submitted := True,
                     op_session := (op_session op)\<lparr>se_phase := creating\<rparr>\<rparr>
               in act_bind (set_operation s op') (\<lambda>_. create_pod env s op')))))))"

definition reconcile :: "'w alloc_env \<Rightarrow> scope \<Rightarrow> ('w, session option) alloc" where
  "reconcile env s =
     act_bind (act_get (\<lambda>a. dget (al_operations a) s)) (\<lambda>operation.
       let rest = act_bind (list_pods env True) (\<lambda>ps. act_bind (reconcile_pods env s ps) (\<lambda>actual.
         case actual of
           None \<Rightarrow> current env s
         | Some se \<Rightarrow>
             (case operation of
                Some op \<Rightarrow> if se_start_id se = se_start_id (op_session op)
                  then act_bind (set_operation s (op\<lparr>op_session := se\<rparr>)) (\<lambda>_. act_return (Some se))
                  else act_return (Some se)
              | None \<Rightarrow> act_return (Some se))))
       in case operation of
            Some op \<Rightarrow> if se_phase (op_session op) = draining \<and> \<not> op_submitted op
              then act_bind (progress env s op) (\<lambda>se. act_return (Some se)) else rest
          | None \<Rightarrow> rest)"

definition cancel_intent :: "scope \<Rightarrow> string \<Rightarrow> ('w, unit) alloc" where
  "cancel_intent s start_id = act_modify (\<lambda>a. case dget (al_operations a) s of
     None \<Rightarrow> a
   | Some op \<Rightarrow> if se_start_id (op_session op) = start_id \<and> \<not> op_submitted op
       then a\<lparr>al_operations := ddel s (al_operations a)\<rparr> else a)"

text \<open>The last part of \<^verbatim>\<open>acquire\<close>: a new operation.\<close>

definition new_operation :: "'w alloc_env \<Rightarrow> scope \<Rightarrow> string \<Rightarrow> string option \<Rightarrow> pod list \<Rightarrow> ('w, session) alloc" where
  "new_operation env s start_id replaces pods =
     act_bind (tick env) (\<lambda>now.
     act_bind (tick env) (\<lambda>since.
     act_bind (act_get al_spec) (\<lambda>sp.
       let op = \<lparr>op_session = \<lparr>se_start_id = start_id, se_replaces = replaces, se_phase = draining,
                   se_spec_hash = spec_print env sp, se_image = sp_image sp, se_pod_id = None, se_rejection = None\<rparr>,
                 op_epoch = max (epoch_now now) ((if pods = [] then 0 else Max (epoch_of ` set pods)) + 1),
                 op_since = since, op_submitted = False\<rparr>
       in act_bind (set_operation s op) (\<lambda>_. progress env s op))))"

text \<open>The three parts of \<^verbatim>\<open>acquire\<close>: a start that has a pod, one that has an operation or none, and the choice.\<close>

definition differs :: "'w alloc_env \<Rightarrow> pod_spec \<Rightarrow> string option \<Rightarrow> session \<Rightarrow> bool" where
  "differs env sp replaces se = (se_replaces se \<noteq> replaces \<or> se_spec_hash se \<noteq> spec_print env sp)"

definition acquire_existing :: "'w alloc_env \<Rightarrow> scope \<Rightarrow> string \<Rightarrow> string option \<Rightarrow> pod_spec \<Rightarrow> pod list \<Rightarrow> pod \<Rightarrow> ('w, session) alloc" where
  "acquire_existing env s start_id replaces sp inventory existing =
     act_bind (session_of env existing) (\<lambda>se.
       if differs env sp replaces se then act_raise (AllocationConflict ''Connection ID has different parameters'')
       else
         act_bind (reconcile_pods env s inventory) (\<lambda>_.
         act_bind (status env s start_id) (\<lambda>st.
           act_return (case st of Some x \<Rightarrow> x | None \<Rightarrow> se\<lparr>se_phase := retired\<rparr>))))"

definition acquire_operation :: "'w alloc_env \<Rightarrow> scope \<Rightarrow> string \<Rightarrow> string option \<Rightarrow> pod_spec \<Rightarrow> pod list \<Rightarrow> operation option \<Rightarrow> ('w, session) alloc" where
  "acquire_operation env s start_id replaces sp pods operation =
     (case operation of
        None \<Rightarrow> new_operation env s start_id replaces pods
      | Some op \<Rightarrow>
          if se_start_id (op_session op) = start_id
          then (if differs env sp replaces (op_session op)
                then act_raise (AllocationConflict ''Connection ID has different parameters'')
                else act_bind (tick env) (\<lambda>now.
                  if av_grace env \<le> fsub now (op_since op)
                  then act_return ((op_session op)\<lparr>se_phase := lost, se_pod_id := None\<rparr>)
                  else progress env s op))
          else if se_phase (op_session op) \<in> {draining, creating}
          then act_bind (tick env) (\<lambda>now.
            if fsub now (op_since op) < av_grace env
            then act_raise (AllocationConflict ''A create attempt is still unresolved'')
            else new_operation env s start_id replaces pods)
          else new_operation env s start_id replaces pods)"

definition acquire :: "'w alloc_env \<Rightarrow> scope \<Rightarrow> string \<Rightarrow> string option \<Rightarrow> ('w, session) alloc" where
  "acquire env s start_id replaces =
     act_bind (act_lift (rbind (session_uuid start_id) (\<lambda>_. case replaces of None \<Rightarrow> Inr [] | Some r \<Rightarrow> session_uuid r))) (\<lambda>_.
     act_bind (list_pods env True) (\<lambda>inventory.
     act_bind (act_get al_spec) (\<lambda>sp.
     act_bind (act_get (\<lambda>a. dget (al_operations a) s)) (\<lambda>operation.
       let pods = owned env inventory s
       in case winner (filter (\<lambda>p. start_of p = start_id) pods) of
            Some existing \<Rightarrow> acquire_existing env s start_id replaces sp inventory existing
          | None \<Rightarrow> acquire_operation env s start_id replaces sp pods operation))))"

section \<open>Orderly traces\<close>

text \<open>The last thing the provider said of a pod, and the last that was done to its fence.\<close>

fun latest_got :: "string \<Rightarrow> alloc_event list \<Rightarrow> pod option option" where
  "latest_got i [] = None"
| "latest_got i (Got j p # h) = (if j = i then Some p else latest_got i h)"
| "latest_got i (_ # h) = latest_got i h"

fun latest_fence :: "string \<Rightarrow> alloc_event list \<Rightarrow> bool option" where
  "latest_fence i [] = None"
| "latest_fence i (FenceDone p b # h) = (if pd_id p = i then Some b else latest_fence i h)"
| "latest_fence i (_ # h) = latest_fence i h"

definition name_life :: "string \<Rightarrow> string" where
  "name_life n = last (split_on (CHR ''-'') n)"

definition fenced_as :: "'w alloc_env \<Rightarrow> string \<Rightarrow> bool \<Rightarrow> alloc_event list \<Rightarrow> bool" where
  "fenced_as env i b h = (av_selection env = None \<or> latest_fence i h = Some b)"

definition delete_ok :: "'w alloc_env \<Rightarrow> string \<Rightarrow> alloc_event list \<Rightarrow> bool" where
  "delete_ok env i h = ((\<exists>p. latest_got i h = Some (Some p) \<and> lifecycle p = ''drained'') \<and> fenced_as env i False h)"

definition is_listing :: "alloc_event \<Rightarrow> bool" where
  "is_listing e = (case e of Listed _ \<Rightarrow> True | _ \<Rightarrow> False)"

definition creates :: "alloc_event list \<Rightarrow> nat" where
  "creates h = length (filter (\<lambda>e. case e of Created _ _ \<Rightarrow> True | _ \<Rightarrow> False) h)"

text \<open>
  The captures of a pod are over when its drain was confirmed or it has stopped. The drain is waived only
  for a worker that makes way for a new start of its own scope, before that start is created: \<open>w\<close> is the
  start the operation means to create, if any, and the inventory read last has no pod of it yet and shows
  the pod that makes way as one of the scope.
\<close>

definition waived :: "'w alloc_env \<Rightarrow> scope \<Rightarrow> string option \<Rightarrow> string \<Rightarrow> alloc_event list \<Rightarrow> bool" where
  "waived env s w i h = (sc_round s \<noteq> ''gateway'' \<and> creates h = 0 \<and>
     (\<exists>st h1 inv h2. w = Some st \<and> h = h1 @ Listed inv # h2 \<and> \<not> list_ex is_listing h1 \<and>
        i \<in> pd_id ` set (owned env inv s) \<and> st \<notin> start_of ` set (owned env inv s)))"

definition captures_over :: "'w alloc_env \<Rightarrow> scope \<Rightarrow> string option \<Rightarrow> string \<Rightarrow> alloc_event list \<Rightarrow> bool" where
  "captures_over env s w i h = ((\<exists>p. DrainAsked p True \<in> set h \<and> pd_id p = i) \<or>
     (\<exists>p. Got i (Some p) \<in> set h \<and> stopped p) \<or> waived env s w i h)"

definition activation_ok :: "'w alloc_env \<Rightarrow> scope \<Rightarrow> string \<Rightarrow> alloc_event list \<Rightarrow> bool" where
  "activation_ok env s i h = (fenced_as env i True h \<and>
     (\<exists>h1 inv h2 w. h = h1 @ Listed inv # h2 \<and> \<not> list_ex is_listing h1 \<and> winner (owned env inv s) = Some w \<and> pd_id w = i \<and>
        (\<forall>p\<in>set (owned env inv s). pd_id p \<noteq> i \<longrightarrow> start_of p \<noteq> start_of w \<longrightarrow> Got (pd_id p) None \<in> set h1)))"

definition creation_ok :: "'w alloc_env \<Rightarrow> scope \<Rightarrow> alloc_event list \<Rightarrow> bool" where
  "creation_ok env s h = (\<exists>h1 inv h2. h = h1 @ Listed inv # h2 \<and>
     (\<forall>p\<in>set inv. \<forall>owner. pod_owner env p = Some owner \<longrightarrow> competes s owner \<longrightarrow> Got (pd_id p) None \<in> set h1))"

definition in_order :: "'w alloc_env \<Rightarrow> scope \<Rightarrow> string option \<Rightarrow> alloc_event \<Rightarrow> alloc_event list \<Rightarrow> bool" where
  "in_order env s w e h = (case e of
     DeleteOf i \<Rightarrow> delete_ok env i h
   | RenameTo i n \<Rightarrow> (name_life n = ''drained'' \<longrightarrow> captures_over env s w i h) \<and> (name_life n = ''active'' \<longrightarrow> activation_ok env s i h)
   | Created o' i \<Rightarrow> o' = s \<and> creation_ok env s h
   | _ \<Rightarrow> True)"

lemma latest_append: "latest_got i (h @ h') = (case latest_got i h of None \<Rightarrow> latest_got i h' | Some p \<Rightarrow> Some p)"
  by (induction i h rule: latest_got.induct) auto

lemma latest_got_mem: "latest_got i h = Some p \<Longrightarrow> Got i p \<in> set h"
  by (induction i h rule: latest_got.induct) (auto split: if_splits)

section \<open>The actions along a history\<close>

lemma along_call [along_rules]: "(\<And>r. Q r h) \<Longrightarrow> along al_log C (call m) Q h"
  by (rule along_silent) (simp_all add: call_def split: prod.split)

lemma along_logged [along_rules]: "C e h \<Longrightarrow> Q (Inr ()) (e # h) \<Longrightarrow> along al_log C (logged e) Q h"
  unfolding logged_def by (rule along_event) auto

lemma along_tick [along_rules]: "(\<And>r. Q r h) \<Longrightarrow> along al_log C (tick env) Q h"
  by (rule along_silent) (simp_all add: tick_def)

lemma along_set [along_rules]: "(\<And>r. Q r h) \<Longrightarrow> along al_log C (set_operation s op) Q h"
  by (rule along_silent) (simp_all add: set_operation_def act_simps)

lemma along_list [along_rules]:
  assumes "\<And>ps. C (Listed ps) h" "\<And>e. Q (Inl e) h" "\<And>ps. Q (Inr ps) (Listed ps # h)"
  shows "along al_log C (list_pods env fresh) Q h"
  unfolding list_pods_def by (intro along_rules) (auto split: sum.split intro!: along_rules assms)

lemma along_drain [along_rules]:
  assumes "\<And>b. C (DrainAsked p b) h" "\<And>e. Q (Inl e) h" "\<And>b. Q (Inr b) (DrainAsked p b # h)"
  shows "along al_log C (drain_pod env p) Q h"
  unfolding drain_pod_def by (intro along_rules) (auto split: sum.split intro!: along_rules assms)

lemma along_fence [along_rules]:
  assumes "\<And>h. C (FenceAsked p b) h" "\<And>h. C (FenceDone p b) h"
    "av_selection env = None \<Longrightarrow> Q (Inr ()) h" "\<And>e. Q (Inl e) (FenceAsked p b # h)"
    "Q (Inr ()) (FenceDone p b # FenceAsked p b # h)"
  shows "along al_log C (set_fence env p b) Q h"
  unfolding set_fence_def by (intro along_rules) (auto split: sum.split intro!: along_rules assms)

lemma along_revoked [along_rules]: "(\<And>r. Q r h) \<Longrightarrow> along al_log C (is_revoked_pod env p) Q h"
  unfolding is_revoked_pod_def by (intro along_rules) auto

lemma along_session [along_rules]: "(\<And>r. Q r h) \<Longrightarrow> along al_log C (session_of env p) Q h"
  unfolding session_of_def by (intro along_rules) auto

lemma along_unless [along_rules]:
  assumes "along al_log C m (\<lambda>r h'. Q r h' \<and> (\<forall>e. r = Inl e \<longrightarrow> Q (Inr ()) h')) h"
  shows "along al_log C (unless_unavailable m) Q h"
  unfolding unless_unavailable_def
  by (rule along_handle, rule along_mono [OF assms]) (auto intro!: along_rules split: sum.split)

section \<open>Retiring in order\<close>

text \<open>What retiring the pod \<open>i\<close> may log.\<close>

definition about :: "string \<Rightarrow> alloc_event \<Rightarrow> bool" where
  "about i e = (case e of Got j _ \<Rightarrow> j = i | RenameTo j n \<Rightarrow> j = i \<and> name_life n \<noteq> ''active'' | DrainAsked p _ \<Rightarrow> pd_id p = i
     | DeleteOf j \<Rightarrow> j = i | FenceAsked p b \<Rightarrow> pd_id p = i \<and> \<not> b | FenceDone p b \<Rightarrow> pd_id p = i \<and> \<not> b | _ \<Rightarrow> False)"

definition retires :: "string \<Rightarrow> alloc_event list \<Rightarrow> session result \<Rightarrow> alloc_event list \<Rightarrow> bool" where
  "retires i h r h' = (\<exists>es. h' = es @ h \<and> list_all (about i) es \<and>
     (\<forall>se. r = Inr se \<longrightarrow> se_phase se = retired \<longrightarrow> latest_got i es = Some None))"

lemma name_life_rename: "CHR ''-'' \<notin> set life \<Longrightarrow> name_life (base @ CHR ''-'' # life) = life"
  using last_split_append [of "CHR ''-''" life base] by (simp add: name_life_def)

lemma lifecycle_name: "lifecycle p = name_life (pd_name p)"
  by (simp add: lifecycle_def name_life_def)

locale fleet = pod_provider "av_get env"
  for env :: "'w alloc_env"
begin

lemma along_get_pod:
  assumes "\<And>p. C (Got i p) h" "\<And>e. Q (Inl e) h" "Q (Inr None) (Got i None # h)"
    "\<And>p. pd_id p = i \<Longrightarrow> Q (Inr (Some p)) (Got i (Some p) # h)"
  shows "along al_log C (get_pod env i) Q h"
proof -
  have "along al_log C (call (av_get env i))
      (\<lambda>r h'. case r of Inl e \<Rightarrow> Q (Inl e) h'
        | Inr p \<Rightarrow> along al_log C (act_bind (logged (Got i p)) (\<lambda>_. act_return p)) Q h') h"
    unfolding along_def [where m = "call (av_get env i)"] traced_iff
  proof (intro allI impI)
    fix a r a'
    assume c: "call (av_get env i) a = (r, a')"
    then obtain w where w: "av_get env i (al_world a) = (r, w)" "a' = a\<lparr>al_world := w\<rparr>"
      by (auto simp: call_def split: prod.splits)
    have "case r of Inl e \<Rightarrow> Q (Inl e) h
        | Inr p \<Rightarrow> along al_log C (act_bind (logged (Got i p)) (\<lambda>_. act_return p)) Q h"
    proof (cases r)
      case (Inr p)
      with w get_by_id have "Q (Inr p) (Got i p # h)" using assms(3,4) by (cases p) auto
      with Inr assms(1) show ?thesis by (auto intro!: along_rules)
    qed (simp add: assms(2))
    with w(2) show "\<exists>es. al_log a' = al_log a @ es \<and> preceded C h es \<and>
        (case r of Inl e \<Rightarrow> Q (Inl e) (rev es @ h)
         | Inr p \<Rightarrow> along al_log C (act_bind (logged (Got i p)) (\<lambda>_. act_return p)) Q (rev es @ h))"
      by (intro exI [of _ "[]"]) (cases r; simp)
  qed
  then show ?thesis unfolding get_pod_def by (rule along_bind)
qed

lemma along_get_any:
  assumes "\<And>p. C (Got i p) h" "\<And>e. Q (Inl e) h" "\<And>p. Q (Inr p) (Got i p # h)"
  shows "along al_log C (get_pod env i) Q h"
  by (rule along_get_pod; rule assms)

lemma rename_along:
  assumes "CHR ''-'' \<notin> set life" "\<And>p h. C (Got (pd_id p0) p) h"
    "\<And>n c. name_life n = life \<Longrightarrow> C (RenameTo (pd_id p0) n) (Got (pd_id p0) (Some c) # h)"
    "\<And>e es. list_all (\<lambda>x. (\<exists>q. x = Got (pd_id p0) q) \<or> (\<exists>n. x = RenameTo (pd_id p0) n \<and> name_life n = life)) es \<Longrightarrow> Q (Inl e) (es @ h)"
    "\<And>q es. list_all (\<lambda>x. (\<exists>q. x = Got (pd_id p0) q) \<or> (\<exists>n. x = RenameTo (pd_id p0) n \<and> name_life n = life)) es \<Longrightarrow>
       pd_id q = pd_id p0 \<Longrightarrow> lifecycle q = life \<Longrightarrow> Q (Inr q) (Got (pd_id p0) (Some q) # es @ h)"
  shows "along al_log C (rename_pod env p0 life) Q h"
proof -
  note err = assms(4) [of "[]", simplified] assms(4) [of "[x]" for x, simplified]
    assms(4) [of "[x, y]" for x y, simplified] assms(4) [of "[x, y, z]" for x y z, simplified]
  note ok = assms(5) [of "[]", simplified] assms(5) [of "[x, y]" for x y, simplified]
  have get: "along al_log C (get_pod env (pd_id p0)) Q' h'"
    if "\<And>e. Q' (Inl e) h'" "Q' (Inr None) (Got (pd_id p0) None # h')"
      "\<And>p. pd_id p = pd_id p0 \<Longrightarrow> Q' (Inr (Some p)) (Got (pd_id p0) (Some p) # h')" for Q' h'
    by (rule along_get_pod) (auto intro: that assms(2))
  show ?thesis
    unfolding rename_pod_def Let_def
    by (auto intro!: along_rules get err ok assms(3) simp: name_life_rename [OF assms(1)] lifecycle_name split: sum.split)
qed

end

text \<open>A waiver lasts until the next inventory is read or a pod is created.\<close>

lemma waived_more:
  assumes "waived env S v i h" "\<And>e. e \<in> set es \<Longrightarrow> \<not> is_listing e \<and> (\<forall>o' j. e \<noteq> Created o' j)"
  shows "waived env S v i (es @ h)"
proof -
  from assms(1) obtain st h1 inv h2 where w: "v = Some st" "h = h1 @ Listed inv # h2" "\<not> list_ex is_listing h1"
    "i \<in> pd_id ` set (owned env inv S)" "st \<notin> start_of ` set (owned env inv S)" unfolding waived_def by blast
  have "\<not> (case e of Created _ _ \<Rightarrow> True | _ \<Rightarrow> False)" if "e \<in> set es" for e using assms(2) [OF that] by (cases e) auto
  then have "creates (es @ h) = creates h" by (auto simp: creates_def filter_empty_conv)
  moreover have "\<not> list_ex is_listing (es @ h1)" using w(3) assms(2) by (auto simp: list_ex_iff)
  ultimately show ?thesis using assms(1) w unfolding waived_def by (metis append_assoc)
qed

lemma waived_about: "waived env S v i h \<Longrightarrow> list_all (about j) es \<Longrightarrow> waived env S v i (es @ h)"
  by (erule waived_more) (auto simp: list_all_iff about_def is_listing_def split: alloc_event.splits)

lemma captures_over_about:
  "captures_over env S v i h \<Longrightarrow> list_all (about j) es \<Longrightarrow> captures_over env S v i (es @ h)"
  unfolding captures_over_def using waived_about [of env S v i h j es] by auto

lemma fenced_about: "list_all (about i) es \<Longrightarrow> fenced_as env i False h \<Longrightarrow> fenced_as env i False (es @ h)"
  by (induction es) (auto simp: fenced_as_def about_def split: alloc_event.splits)

lemma retiresI: "list_all (about i) es \<Longrightarrow> (\<And>se. r = Inr se \<Longrightarrow> se_phase se = retired \<Longrightarrow> latest_got i es = Some None) \<Longrightarrow> retires i h r (es @ h)"
  by (auto simp: retires_def)

lemma retires_more:
  assumes "list_all (about i) es" "\<And>se. r = Inr se \<Longrightarrow> se_phase se = retired \<Longrightarrow> latest_got i es' = Some None"
    "list_all (about i) es'"
  shows "retires i h r (es' @ es @ h)"
  using retiresI [of i "es' @ es" r h] assms by (simp add: latest_append)

context fleet
begin

lemma delete_along:
  assumes "pd_id p = i" "list_all (about i) es" "delete_ok env i (es @ h)"
  shows "along al_log (in_order env S v) (delete_pod env original p) (retires i h) (es @ h)"
proof -
  note more = retires_more [OF assms(2), of _ "[]", simplified] retires_more [OF assms(2), of _ "[x]" for x, simplified]
    retires_more [OF assms(2), of _ "[x, y]" for x y, simplified]
  show ?thesis
    unfolding delete_pod_def
    by (auto intro!: along_rules along_get_any more simp: in_order_def assms(1,3) about_def split: sum.split)
qed

lemma drained_along:
  assumes "pd_id q = i" "list_all (about i) es" "fenced_as env i False (es @ h)" "captures_over env S v i (es @ h)"
  shows "along al_log (in_order env S v) (act_bind (rename_pod env q ''drained'') (delete_pod env original)) (retires i h) (es @ h)"
proof (rule along_bind, rule rename_along, goal_cases)
  case (3 n c)
  have "list_all (about i) [Got i (Some c)]" by (simp add: about_def)
  from captures_over_about [OF assms(4) this] 3 assms(1) show ?case by (simp add: in_order_def name_life_def)
next
  case (4 e es')
  with assms(1,2) have "list_all (about i) (es' @ es)" by (auto simp: list_all_iff about_def)
  from retiresI [OF this, of "Inl e" h] show ?case by simp
next
  case (5 q' es')
  with assms(1,2) have es: "list_all (about i) (Got i (Some q') # es' @ es)" by (auto simp: list_all_iff about_def)
  have "list_all (about i) (Got i (Some q') # es')" using es by simp
  from fenced_about [OF this assms(3)] have f: "fenced_as env i False ((Got i (Some q') # es' @ es) @ h)" by simp
  have "along al_log (in_order env S v) (delete_pod env original q') (retires i h) ((Got i (Some q') # es' @ es) @ h)"
    using 5 assms(1) es f by (intro delete_along) (auto simp: delete_ok_def)
  with assms(1) show ?case by simp
qed (auto simp: in_order_def)

end

lemma quiet_in_order:
  "in_order env S v (Got j x) h'" "in_order env S v (FenceAsked q b) h'" "in_order env S v (FenceDone q b) h'"
  "in_order env S v (DrainAsked q b) h'"
  by (simp_all add: in_order_def)

lemma retires_error: "list_all (about i) es \<Longrightarrow> retires i h (Inl e) (es @ h)"
  by (rule retiresI) auto

context fleet
begin

lemma drain_along:
  assumes wait: "\<not> drain \<Longrightarrow> waived env S v i h"
    and p: "pd_id p = i" "pod_owner env p = Some s" and es: "list_all (about i) es" "Got i (Some p) \<in> set es"
    and f: "fenced_as env i False (es @ h)"
  shows "along al_log (in_order env S v)
      (act_bind (rename_pod env p ''draining'') (\<lambda>q. act_bind (if drain \<and> \<not> stopped q then drain_pod env q else act_return True)
        (\<lambda>ok. if \<not> ok then act_return (original\<lparr>se_phase := retiring\<rparr>) else act_bind (rename_pod env q ''drained'') (delete_pod env original))))
      (retires i h) (es @ h)"
proof (rule along_bind, rule rename_along, goal_cases)
  case (4 e es')
  with p es have "list_all (about i) (es' @ es)" by (auto simp: list_all_iff about_def)
  from retires_error [OF this] show ?case by simp
next
  case (5 q es')
  let ?es = "Got i (Some q) # es' @ es"
  from 5 p es have a: "list_all (about i) ?es" by (auto simp: list_all_iff about_def)
  have q: "pd_id q = i" using 5 p by simp
  have f': "fenced_as env i False (?es @ h)"
    using fenced_about [OF _ f, of "Got i (Some q) # es'"] a by simp
  have go: "along al_log (in_order env S v) (act_bind (rename_pod env q ''drained'') (delete_pod env original)) (retires i h) (es2 @ ?es @ h)"
    if "es2 = [] \<and> (stopped q \<or> \<not> drain) \<or> es2 = [DrainAsked q True]" for es2
  proof -
    have "list_all (about i) (es2 @ ?es)" using that a q by (auto simp: about_def)
    moreover have "fenced_as env i False (es2 @ ?es @ h)"
      using fenced_about [OF _ f', of es2] that q by (auto simp: about_def)
    moreover have "captures_over env S v i (es2 @ ?es @ h)"
    proof (cases "es2 = [] \<and> \<not> stopped q")
      case True
      with that wait have "waived env S v i h" by blast
      from waived_about [OF this a] True show ?thesis by (simp add: captures_over_def)
    next
      case False
      with that q show ?thesis by (auto simp: captures_over_def)
    qed
    ultimately show ?thesis using drained_along [OF q, of "es2 @ ?es"] by simp
  qed
  have "along al_log (in_order env S v) (act_bind (if drain \<and> \<not> stopped q then drain_pod env q else act_return True)
      (\<lambda>ok. if \<not> ok then act_return (original\<lparr>se_phase := retiring\<rparr>) else act_bind (rename_pod env q ''drained'') (delete_pod env original)))
    (retires i h) (?es @ h)"
  proof (intro along_bind along_if along_drain along_return, goal_cases)
    case (2 e)
    then show ?case using retires_error [OF a] retires_error [where es = "DrainAsked q True # ?es"] by simp
  next
    case (3 b)
    have "list_all (about i) (DrainAsked q b # ?es)" using a q by (simp add: about_def)
    then have "retires i h (Inr (original\<lparr>se_phase := retiring\<rparr>)) ((DrainAsked q b # ?es) @ h)" by (rule retiresI) auto
    then show ?case using go [of "[DrainAsked q True]"] by (cases b) (auto intro!: along_rules)
  next
    case 4
    then have "stopped q \<or> \<not> drain" by blast
    with go [of "[]"] show ?case by simp
  qed (rule quiet_in_order)
  with p(1) show ?case by simp
qed (use quiet_in_order in \<open>auto simp: in_order_def name_life_def\<close>)

lemma owned_along:
  assumes wait: "\<not> drain \<Longrightarrow> waived env S v i h" and p: "pd_id p = i" "pod_owner env p = Some s"
  shows "along al_log (in_order env S v)
      (act_bind (session_of env p) (\<lambda>original. act_bind (set_fence env p False) (\<lambda>_.
         if lifecycle p = ''drained'' then delete_pod env original p
         else act_bind (rename_pod env p ''draining'') (\<lambda>q. act_bind (if drain \<and> \<not> stopped q then drain_pod env q else act_return True)
           (\<lambda>ok. if \<not> ok then act_return (original\<lparr>se_phase := retiring\<rparr>)
             else act_bind (rename_pod env q ''drained'') (delete_pod env original))))))
      (retires i h) (Got i (Some p) # h)" (is "along _ _ (act_bind _ (\<lambda>original. act_bind _ (\<lambda>_. ?go original))) _ _")
proof -
  have go: "along al_log (in_order env S v) (?go original) (retires i h) (fs @ Got i (Some p) # h)"
    if "fs = [] \<and> av_selection env = None \<or> fs = [FenceDone p False, FenceAsked p False]" for fs original
  proof -
    have es: "list_all (about i) (fs @ [Got i (Some p)])" "Got i (Some p) \<in> set (fs @ [Got i (Some p)])"
      "fenced_as env i False ((fs @ [Got i (Some p)]) @ h)" "latest_got i ((fs @ [Got i (Some p)]) @ h) = Some (Some p)"
      using that p by (auto simp: about_def fenced_as_def)
    then show ?thesis
      using drain_along [OF wait p es(1,2,3)] delete_along [OF p(1) es(1)] by (auto simp: delete_ok_def)
  qed
  show ?thesis
  proof (intro along_bind along_session along_fence, goal_cases)
    case (1 r)
    have "retires i h (Inl e) (Got i (Some p) # h)" "retires i h (Inl e) (FenceAsked p False # Got i (Some p) # h)" for e
      using retires_error [where es = "[Got i (Some p)]"] retires_error [where es = "[FenceAsked p False, Got i (Some p)]"] p(1) by (simp_all add: about_def)
    then show ?case
      using go [of "[]"] go [of "[FenceDone p False, FenceAsked p False]"]
      by (cases r) (auto intro!: along_bind along_fence quiet_in_order)
  qed
qed

lemma retire_along:
  assumes "\<not> drain \<Longrightarrow> waived env S v i h"
  shows "along al_log (in_order env S v) (retire env s st i drain) (retires i h) h"
  unfolding retire_def
proof (rule along_bind, rule along_get_pod, goal_cases)
    case (2 e)
    then show ?case using retires_error [where es = "[]"] by simp
  next
    case 3
    have "retires i h (Inr se) ([Got i None] @ h)" for se by (rule retiresI) (auto simp: about_def)
    then show ?case by (auto intro!: along_rules)
  next
    case (4 p)
    have "retires i h (Inl e) ([Got i (Some p)] @ h)" for e by (rule retires_error) (simp add: about_def)
    then show ?case using owned_along [OF assms 4] by (auto intro!: along_raise)
qed (rule quiet_in_order)

end

section \<open>Reconciling in order\<close>

definition calm :: "alloc_event \<Rightarrow> bool" where
  "calm e = (case e of Listed _ \<Rightarrow> False | Created _ _ \<Rightarrow> False | RenameTo _ n \<Rightarrow> name_life n \<noteq> ''active'' | _ \<Rightarrow> True)"

lemma about_calm: "about i e \<Longrightarrow> calm e"
  by (auto simp: about_def calm_def split: alloc_event.splits)

lemma waived_calm: "waived env S v i h \<Longrightarrow> list_all calm es \<Longrightarrow> waived env S v i (es @ h)"
  by (erule waived_more) (auto simp: list_all_iff calm_def is_listing_def split: alloc_event.splits)

lemma calm_not_listing: "list_all calm es \<Longrightarrow> \<not> list_ex is_listing es"
  by (induction es) (auto simp: calm_def is_listing_def split: alloc_event.splits)

lemma retires_calm:
  assumes "retires i h r h'"
  obtains es where "h' = es @ h" "list_all calm es"
    "\<And>se. r = Inr se \<Longrightarrow> se_phase se = retired \<Longrightarrow> Got i None \<in> set es"
proof -
  from assms obtain es where es: "h' = es @ h" "list_all (about i) es"
    "\<And>se. r = Inr se \<Longrightarrow> se_phase se = retired \<Longrightarrow> latest_got i es = Some None" unfolding retires_def by blast
  from es(2) have "list_all calm es" by (auto simp: list_all_iff about_calm)
  with es that [OF es(1)] show ?thesis by (blast dest: latest_got_mem)
qed

context fleet
begin

lemma retire_others_along:
  "along al_log (in_order env s v) (retire_others env s w ps blocked)
     (\<lambda>r h'. \<exists>es. h' = es @ h \<and> list_all calm es \<and> (r = Inr False \<longrightarrow> \<not> blocked \<and>
        (\<forall>p\<in>set ps. pd_id p \<noteq> pd_id w \<longrightarrow> start_of p \<noteq> start_of w \<longrightarrow> Got (pd_id p) None \<in> set es))) h"
proof (induction ps arbitrary: blocked h)
  case Nil
  then show ?case by (auto intro!: along_rules)
next
  case (Cons p ps)
  show ?case
  proof (cases "pd_id p = pd_id w")
    case True
    with Cons show ?thesis by simp
  next
    case False
    show ?thesis
      unfolding retire_others.simps if_not_P [OF False]
    proof (rule along_seq [OF retire_along], goal_cases)
      case (2 e h')
      then obtain es where "h' = es @ h" "list_all calm es" by (rule retires_calm)
      then show ?case by blast
    next
      case (3 se h')
      then obtain es where es: "h' = es @ h" "list_all calm es" "se_phase se = retired \<Longrightarrow> Got (pd_id p) None \<in> set es"
        by (rule retires_calm) blast
      show ?case
      proof (rule along_mono [OF Cons [of _ h']])
        fix r h''
        assume "\<exists>es. h'' = es @ h' \<and> list_all calm es \<and> (r = Inr False \<longrightarrow>
          \<not> (blocked \<or> (start_of p \<noteq> start_of w \<and> se_phase se \<noteq> retired)) \<and>
          (\<forall>p\<in>set ps. pd_id p \<noteq> pd_id w \<longrightarrow> start_of p \<noteq> start_of w \<longrightarrow> Got (pd_id p) None \<in> set es))"
        then obtain es' where "h'' = es' @ h'" "list_all calm es'" "r = Inr False \<Longrightarrow>
          \<not> (blocked \<or> (start_of p \<noteq> start_of w \<and> se_phase se \<noteq> retired)) \<and>
          (\<forall>p\<in>set ps. pd_id p \<noteq> pd_id w \<longrightarrow> start_of p \<noteq> start_of w \<longrightarrow> Got (pd_id p) None \<in> set es')" by blast
        with es show "\<exists>es. h'' = es @ h \<and> list_all calm es \<and> (r = Inr False \<longrightarrow> \<not> blocked \<and>
          (\<forall>p\<in>set (p # ps). pd_id p \<noteq> pd_id w \<longrightarrow> start_of p \<noteq> start_of w \<longrightarrow> Got (pd_id p) None \<in> set es))"
          by (intro exI [of _ "es' @ es"]) auto
      qed
    qed simp
  qed
qed

end

definition settled :: "alloc_event list \<Rightarrow> alloc_event list \<Rightarrow> bool" where
  "settled h h' = (\<exists>es. h' = es @ h \<and> list_all (\<lambda>e. \<not> is_listing e \<and> (\<forall>o' i. e \<noteq> Created o' i)) es)"

lemma settled_refl [intro]: "settled h h"
  by (simp add: settled_def)

lemma settled_calm: "list_all calm es \<Longrightarrow> settled h h' \<Longrightarrow> settled h (es @ h')"
proof -
  assume c: "list_all calm es" and s: "settled h h'"
  from s obtain es' where "h' = es' @ h" "list_all (\<lambda>e. \<not> is_listing e \<and> (\<forall>o' i. e \<noteq> Created o' i)) es'" by (auto simp: settled_def)
  moreover have "calm e \<Longrightarrow> \<not> is_listing e \<and> (\<forall>o' i. e \<noteq> Created o' i)" for e
    by (auto simp: calm_def is_listing_def split: alloc_event.splits)
  ultimately show "settled h (es @ h')"
    using c unfolding settled_def by (intro exI [of _ "es @ es'"]) (auto simp: list_all_iff)
qed

lemma settled_retires: "retires i h' r h'' \<Longrightarrow> settled h h' \<Longrightarrow> settled h h''"
  by (erule retires_calm) (simp add: settled_calm)

lemma settled_Cons: "settled h h' \<Longrightarrow> \<not> is_listing e \<Longrightarrow> (\<And>o' i. e \<noteq> Created o' i) \<Longrightarrow> settled h (e # h')"
  unfolding settled_def by (elim exE conjE, rename_tac es, rule_tac x = "e # es" in exI) auto

lemma settled_steps:
  assumes "settled h h'"
  shows "settled h (Got i p # h')" "settled h (FenceAsked q b # h')" "settled h (FenceDone q b # h')" "settled h (RenameTo i n # h')"
  using assms by (auto intro: settled_Cons simp: is_listing_def)

context fleet
begin

lemma fence_along:
  assumes "settled h h'" "\<And>e. Q (Inl e) (FenceAsked w b # h')"
    "\<And>h''. settled h h'' \<Longrightarrow> fenced_as env (pd_id w) b h'' \<Longrightarrow> (\<exists>es. h'' = es @ h' \<and> list_all calm es) \<Longrightarrow> Q (Inr ()) h''"
  shows "along al_log (in_order env s v) (set_fence env w b) Q h'"
proof (rule along_fence)
  show "Q (Inr ()) h'" if "av_selection env = None"
    using that assms(1) by (auto intro!: assms(3) simp: fenced_as_def)
  show "Q (Inr ()) (FenceDone w b # FenceAsked w b # h')"
    using assms(1) by (intro assms(3) exI [of _ "[FenceDone w b, FenceAsked w b]"]) (auto simp: fenced_as_def calm_def intro: settled_steps)
qed (auto simp: in_order_def assms(2))

lemma activate_along:
  assumes "settled h h'"
  shows "along al_log (in_order env s v) (activate env w) (\<lambda>_. settled h) h'"
  unfolding activate_def
  by (intro along_bind fence_along [OF assms]) (auto intro!: along_rules settled_steps assms split: sum.split)

lemma reconcile_pods_along:
  "along al_log (in_order env s v) (reconcile_pods env s ivt) (\<lambda>_. settled (Listed ivt # h0)) (Listed ivt # h0)"
  (is "along _ ?C _ ?Q ?h")
proof (cases "winner (owned env ivt s)")
  case None
  then show ?thesis by (auto simp: reconcile_pods_def intro!: along_rules)
next
  case (Some w)
  have go: "along al_log ?C (act_bind (retire env s (start_of w) (pd_id w) True) (\<lambda>se. act_return (Some se))) ?Q h'"
    if "settled ?h h'" for h'
    by (rule along_seq [OF retire_along]) (auto intro!: along_return intro: settled_retires that)
  have act: "along al_log ?C (act_bind (set_fence env w True) (\<lambda>_. act_bind (rename_pod env w ''active'') (activate env))) ?Q (es @ ?h)"
    if es: "list_all calm es" "\<forall>p\<in>set (owned env ivt s). pd_id p \<noteq> pd_id w \<longrightarrow> start_of p \<noteq> start_of w \<longrightarrow> Got (pd_id p) None \<in> set es" for es
  proof (intro along_bind fence_along [where h = ?h], goal_cases)
    case 1
    show ?case using es(1) by (rule settled_calm) auto
  next
    case (2 e)
    show ?case using settled_calm [OF es(1) settled_refl] by (auto intro: settled_steps)
  next
    case (3 h'')
    then obtain fs where fs: "h'' = fs @ es @ ?h" "list_all calm fs" by blast
    show ?case
      unfolding sum.case
    proof (rule along_bind, rule rename_along, goal_cases)
      case (3 n c)
      let ?h1 = "Got (pd_id w) (Some c) # fs @ es"
      have "list_all calm ?h1" using fs(2) es(1) by (simp add: calm_def)
      then have "\<not> list_ex is_listing ?h1" by (rule calm_not_listing)
      moreover have "fenced_as env (pd_id w) True (?h1 @ ?h)" using \<open>fenced_as env (pd_id w) True h''\<close> fs(1) by (simp add: fenced_as_def)
      ultimately have "activation_ok env s (pd_id w) (?h1 @ ?h)"
        unfolding activation_ok_def using Some es(2) by (intro conjI exI [of _ ?h1] exI [of _ ivt] exI [of _ h0] exI [of _ w]) auto
      with 3 fs(1) show ?case by (simp add: in_order_def)
    next
      case (4 e es')
      then have "list_all (\<lambda>e. \<not> is_listing e \<and> (\<forall>o' i. e \<noteq> Created o' i)) es'" by (auto simp: list_all_iff is_listing_def)
      with \<open>settled ?h h''\<close> show ?case unfolding settled_def by auto
    next
      case (5 q es')
      then have "list_all (\<lambda>e. \<not> is_listing e \<and> (\<forall>o' i. e \<noteq> Created o' i)) es'" by (auto simp: list_all_iff is_listing_def)
      with \<open>settled ?h h''\<close> have "settled ?h (es' @ h'')" unfolding settled_def by auto
      then show ?case by (auto intro!: activate_along settled_steps)
    qed (auto simp: in_order_def)
  qed
  show ?thesis
    unfolding reconcile_pods_def Some option.case Let_def
  proof (rule along_seq [OF retire_others_along], goal_cases)
    case (1 e h')
    then show ?case by (auto intro: settled_calm)
  next
    case (2 blocked h')
    then obtain es where es: "h' = es @ ?h" "list_all calm es" "blocked = False \<Longrightarrow>
        \<forall>p\<in>set (owned env ivt s). pd_id p \<noteq> pd_id w \<longrightarrow> start_of p \<noteq> start_of w \<longrightarrow> Got (pd_id p) None \<in> set es" by auto
    then have s: "settled ?h h'" by (auto intro: settled_calm)
    have act': "\<not> blocked \<Longrightarrow>
        along al_log ?C (act_bind (set_fence env w True) (\<lambda>_. act_bind (rename_pod env w ''active'') (activate env))) ?Q h'"
      using act [OF es(2)] es(1,3) by simp
    have shown: "along al_log ?C (act_bind (session_of env w) (\<lambda>se. act_return (Some se))) ?Q h'"
      by (intro along_bind along_session) (auto intro!: along_return s split: sum.split)
    show ?case
      by (rule along_bind, intro along_if along_return along_revoked)
         (auto intro!: go [OF s] act' activate_along [OF s] shown s along_seq [OF along_get [where Q = "\<lambda>r h''. h'' = h' \<and> is_ok r"]] split: sum.split)
  qed
qed

end

section \<open>Creating in order\<close>

lemma creates_simps [simp]:
  "creates [] = 0" "creates (Created o' i # h) = Suc (creates h)" "creates (Listed ps # h) = creates h"
  "creates (Got j p # h) = creates h"
  by (simp_all add: creates_def)

lemma creates_settled: "settled h h' \<Longrightarrow> creates h' = creates h"
proof -
  have "\<not> (case e of Created _ _ \<Rightarrow> True | _ \<Rightarrow> False)" if "\<forall>o' i. e \<noteq> Created o' i" for e
    using that by (cases e) auto
  then show "settled h h' \<Longrightarrow> creates h' = creates h"
    by (auto simp: settled_def creates_def list_all_iff filter_empty_conv)
qed

lemma creates_calm: "list_all calm es \<Longrightarrow> creates (es @ h) = creates h"
  by (rule creates_settled) (auto intro: settled_calm)

lemma competes_same: "competes s owner \<Longrightarrow> \<not> (sc_round s = ''gateway'' \<or> sc_round owner \<noteq> sc_round s) \<Longrightarrow> owner = s"
  by (auto simp: competes_def intro!: scope.equality)

lemma unresolved_silent: "al_log (snd (unresolved_operations env ops a)) = al_log a"
proof (induction ops arbitrary: a)
  case (Cons x ops)
  obtain o' op where x: "x = (o', op)" by force
  show ?case
    using Cons [of a] Cons [of "a\<lparr>al_ticks := Suc (al_ticks a)\<rparr>"]
    by (auto simp: x act_bind_def tick_def act_simps split: prod.splits sum.splits)
qed (simp add: act_simps)

lemma along_unresolved: "(\<And>r. Q r h) \<Longrightarrow> along al_log C (unresolved_operations env ops) Q h"
  by (rule along_silent) (auto simp: unresolved_silent)

lemma along_capacity: "(\<And>r. Q r h) \<Longrightarrow> along al_log C (check_capacity env s ps) Q h"
  unfolding check_capacity_def Let_def
  by (auto intro!: along_rules along_unresolved split: sum.split)

context fleet
begin

lemma clear_field_along:
  assumes "\<And>p. p \<in> set ps \<Longrightarrow> pod_owner env p = Some s \<Longrightarrow> sc_round s \<noteq> ''gateway'' \<Longrightarrow> waived env s v (pd_id p) h"
  shows "along al_log (in_order env s v) (clear_field env s ps)
     (\<lambda>r h'. \<exists>es. h' = es @ h \<and> list_all calm es \<and> (r = Inr True \<longrightarrow>
        (\<forall>p\<in>set ps. \<forall>owner. pod_owner env p = Some owner \<longrightarrow> competes s owner \<longrightarrow> Got (pd_id p) None \<in> set es))) h"
  using assms
proof (induction ps arbitrary: h)
  case Nil
  then show ?case by (auto intro!: along_rules)
next
  case (Cons p ps)
  have wait: "waived env s v (pd_id q) h" if "q \<in> set (p # ps)" "pod_owner env q = Some s" "sc_round s \<noteq> ''gateway''" for q
    using Cons.prems that by blast
  show ?case
  proof (cases "\<exists>owner. pod_owner env p = Some owner \<and> competes s owner")
    case False
    have "clear_field env s (p # ps) = clear_field env s ps" using False by (auto split: option.split)
    with Cons.IH [OF wait] show ?thesis using False by (auto elim!: along_mono)
  next
    case True
    then obtain owner where o: "pod_owner env p = Some owner" "competes s owner" by blast
    let ?drain = "sc_round s = ''gateway'' \<or> sc_round owner \<noteq> sc_round s"
    have step: "clear_field env s (p # ps) = act_bind (retire env owner (start_of p) (pd_id p) ?drain)
        (\<lambda>se. if se_phase se \<noteq> retired then act_return False else clear_field env s ps)"
      by (simp add: o)
    show ?thesis
      unfolding step
    proof (rule along_seq [OF retire_along [where i = "pd_id p"]], goal_cases)
      case 1
      then have "owner = s" "sc_round s \<noteq> ''gateway''" using competes_same [OF o(2)] by auto
      with wait o(1) show ?case by simp
    next
      case (2 e h')
      then obtain es where "h' = es @ h" "list_all calm es" by (rule retires_calm)
      then show ?case by blast
    next
      case (3 se h')
      then obtain es where es: "h' = es @ h" "list_all calm es" "se_phase se = retired \<Longrightarrow> Got (pd_id p) None \<in> set es"
        by (rule retires_calm) blast
      show ?case
      proof (cases "se_phase se = retired")
        case True
        show ?thesis
          unfolding True
        proof (simp, rule along_mono [OF Cons.IH [of h']], goal_cases)
          case (1 q)
          with wait [of q] es(1) waived_calm [OF _ es(2)] show ?case by simp
        next
          case (2 r h'')
then obtain es' where "h'' = es' @ h'" "list_all calm es'" "r = Inr True \<Longrightarrow>
            \<forall>p\<in>set ps. \<forall>owner. pod_owner env p = Some owner \<longrightarrow> competes s owner \<longrightarrow> Got (pd_id p) None \<in> set es'" by blast
          with es True show ?case
            by (intro exI [of _ "es' @ es"]) auto
        qed
      next
        case False
        with es show ?thesis by (auto intro!: along_rules)
      qed
    qed
  qed
qed

end

text \<open>What \<open>reconcile\<close> does with the operation it finds, and the start it then means to create.\<close>

definition reconcile_with :: "'w alloc_env \<Rightarrow> scope \<Rightarrow> operation option \<Rightarrow> ('w, session option) alloc" where
  "reconcile_with env s operation =
     (let rest = act_bind (list_pods env True) (\<lambda>ps. act_bind (reconcile_pods env s ps) (\<lambda>actual.
         case actual of
           None \<Rightarrow> current env s
         | Some se \<Rightarrow>
             (case operation of
                Some op \<Rightarrow> if se_start_id se = se_start_id (op_session op)
                  then act_bind (set_operation s (op\<lparr>op_session := se\<rparr>)) (\<lambda>_. act_return (Some se))
                  else act_return (Some se)
              | None \<Rightarrow> act_return (Some se))))
      in case operation of
           Some op \<Rightarrow> if se_phase (op_session op) = draining \<and> \<not> op_submitted op
             then act_bind (progress env s op) (\<lambda>se. act_return (Some se)) else rest
         | None \<Rightarrow> rest)"

lemma reconcile_finds: "reconcile env s a = reconcile_with env s (dget (al_operations a) s) a"
  by (simp add: reconcile_def reconcile_with_def act_bind_def act_get_def)

definition intent :: "operation option \<Rightarrow> string option" where
  "intent operation = (case operation of None \<Rightarrow> None
     | Some op \<Rightarrow> if se_phase (op_session op) = draining \<and> \<not> op_submitted op then Some (se_start_id (op_session op)) else None)"

text \<open>\<open>bounded k h h'\<close>: at most \<open>k\<close> creates were asked for since \<open>h\<close>.\<close>

definition bounded :: "nat \<Rightarrow> alloc_event list \<Rightarrow> 'a result \<Rightarrow> alloc_event list \<Rightarrow> bool" where
  "bounded k h r h' = (creates h' \<le> creates h + k)"

context fleet
begin

lemma along_list_then:
  assumes "\<And>e. Q (Inl e) h" "\<And>ps. along al_log (in_order env s v) (f ps) Q (Listed ps # h)"
  shows "along al_log (in_order env s v) (act_bind (list_pods env fresh) f) Q h"
  by (intro along_bind along_list) (auto simp: in_order_def assms)

lemma reconcile_listed:
  assumes "\<And>e h'. settled (Listed ps # h) h' \<Longrightarrow> Q (Inl e) h'"
    "\<And>x h'. settled (Listed ps # h) h' \<Longrightarrow> along al_log (in_order env s v) (f x) Q h'"
  shows "along al_log (in_order env s v) (act_bind (reconcile_pods env s ps) f) Q (Listed ps # h)"
  by (rule along_seq [OF reconcile_pods_along]) (auto intro: assms)

lemma create_pod_along:
  assumes "creation_ok env s h"
  shows "along al_log (in_order env s v) (create_pod env s op) (bounded (Suc 0) h) h"
proof -
  have after: "along al_log (in_order env s v)
      (act_bind (list_pods env True) (\<lambda>ps. act_bind (reconcile_pods env s ps) (\<lambda>actual.
         case actual of None \<Rightarrow> act_return (op_session op)
         | Some se \<Rightarrow> act_bind (set_operation s (op\<lparr>op_session := se\<rparr>)) (\<lambda>_. act_return se)))) (bounded (Suc 0) h) h1"
    if "creates h1 = Suc (creates h)" for h1
    using that by (intro along_list_then reconcile_listed) (auto simp: bounded_def creates_settled intro!: along_rules split: sum.split)
  show ?thesis
    unfolding create_pod_def Let_def
    using after assms
    by (auto intro!: along_rules simp: in_order_def bounded_def split: sum.split exn.split)
qed

end

lemma bounded_le: "creates h' \<le> creates h + k \<Longrightarrow> bounded k h r h'"
  by (simp add: bounded_def)

lemma along_bounded:
  assumes "along lg C m (bounded k h') h'" "creates h' \<le> creates h"
  shows "along lg C m (bounded k h) h'"
  by (rule along_mono [OF assms(1)]) (use assms(2) in \<open>simp add: bounded_def\<close>)

context fleet
begin

lemma create_now_along:
  assumes "creation_ok env s h" "creates h = creates h0"
  shows "along al_log (in_order env s v) (create_pod env s op) (bounded (Suc 0) h0) h"
  using along_bounded [OF create_pod_along [OF assms(1)]] assms(2) by simp

lemma progress_along:
  assumes "op_submitted op \<or> v = Some (se_start_id (op_session op)) \<and> creates h = 0"
  shows "along al_log (in_order env s v) (progress env s op) (bounded (if op_submitted op then 0 else Suc 0) h) h"
proof -
  let ?k = "if op_submitted op then 0 else Suc 0"
  have create: "along al_log (in_order env s v)
      (act_bind (list_pods env True) (\<lambda>ps. act_bind (check_capacity env s ps) (\<lambda>_.
         act_bind (case av_before_create env of None \<Rightarrow> act_return () | Some hook \<Rightarrow> call (hook s (se_start_id (op_session op)))) (\<lambda>_.
         act_bind (tick env) (\<lambda>now. act_bind (set_operation s (f now)) (\<lambda>_. create_pod env s (f now)))))))
      (bounded (Suc 0) h) (es @ Listed ps # h)"
    if es: "list_all calm es" "\<forall>p\<in>set ps. \<forall>owner. pod_owner env p = Some owner \<longrightarrow> competes s owner \<longrightarrow> Got (pd_id p) None \<in> set es"
    for es ps f
  proof (intro along_list_then)
    show "bounded (Suc 0) h (Inl e) (es @ Listed ps # h)" for e
      using creates_calm [OF es(1), of "Listed ps # h"] by (simp add: bounded_def)
    fix ps'
    let ?h = "Listed ps' # es @ Listed ps # h"
    have c: "creates ?h = creates h" using creates_calm [OF es(1), of "Listed ps # h"] by simp
    have ok: "creation_ok env s ?h"
      unfolding creation_ok_def using es(2) by (intro exI [of _ "Listed ps' # es"] exI [of _ ps] exI [of _ h]) auto
    show "along al_log (in_order env s v) (act_bind (check_capacity env s ps') (\<lambda>_.
         act_bind (case av_before_create env of None \<Rightarrow> act_return () | Some hook \<Rightarrow> call (hook s (se_start_id (op_session op)))) (\<lambda>_.
         act_bind (tick env) (\<lambda>now. act_bind (set_operation s (f now)) (\<lambda>_. create_pod env s (f now)))))) (bounded (Suc 0) h) ?h"
      by (intro along_bind along_capacity)
         (auto intro!: along_rules create_now_along ok c simp: bounded_def c [simplified] split: sum.split)
  qed
  show ?thesis
    unfolding progress_def Let_def
  proof (intro along_list_then along_if)
    fix ps
    show "along al_log (in_order env s v) (act_bind (reconcile_pods env s ps) (\<lambda>actual.
         case actual of None \<Rightarrow> act_raise AssertionError
         | Some se \<Rightarrow> act_bind (set_operation s (op\<lparr>op_session := se\<rparr>)) (\<lambda>_. act_return se))) (bounded ?k h) (Listed ps # h)"
      by (intro reconcile_listed) (auto simp: bounded_def creates_settled intro!: along_rules split: sum.split)
    show "along al_log (in_order env s v) (act_return (op_session op)) (bounded ?k h) (Listed ps # h)"
      by (auto simp: bounded_def intro!: along_rules)
    assume sub: "\<not> op_submitted op" and none: "\<not> filter (\<lambda>p. start_of p = se_start_id (op_session op)) (owned env ps s) \<noteq> []"
    have wait: "waived env s v (pd_id p) (Listed ps # h)"
      if "p \<in> set ps" "pod_owner env p = Some s" "sc_round s \<noteq> ''gateway''" for p
      unfolding waived_def
      using sub assms none that by (intro conjI exI [of _ "se_start_id (op_session op)"] exI [of _ "[]"] exI [of _ ps] exI [of _ h]) (auto simp: owned_def filter_empty_conv)
    show "along al_log (in_order env s v) (act_bind (clear_field env s ps) (\<lambda>clear.
        if \<not> clear then act_return (op_session op)
        else act_bind (list_pods env True) (\<lambda>ps. act_bind (check_capacity env s ps) (\<lambda>_.
          act_bind (case av_before_create env of None \<Rightarrow> act_return () | Some hook \<Rightarrow> call (hook s (se_start_id (op_session op)))) (\<lambda>_.
          act_bind (tick env) (\<lambda>now.
            act_bind (set_operation s (op\<lparr>op_epoch := max (op_epoch op) (epoch_now now), op_submitted := True,
                     op_session := (op_session op)\<lparr>se_phase := creating\<rparr>\<rparr>)) (\<lambda>_.
            create_pod env s (op\<lparr>op_epoch := max (op_epoch op) (epoch_now now), op_submitted := True,
                     op_session := (op_session op)\<lparr>se_phase := creating\<rparr>\<rparr>)))))))) (bounded ?k h) (Listed ps # h)"
    proof (rule along_seq [OF clear_field_along], goal_cases)
      case (1 p)
      then show ?case by (rule wait)
    next
      case (2 e h')
      then show ?case using creates_calm by (fastforce simp: bounded_def)
    next
      case (3 b h')
      then obtain es where es: "h' = es @ Listed ps # h" "list_all calm es" "b \<longrightarrow>
        (\<forall>p\<in>set ps. \<forall>owner. pod_owner env p = Some owner \<longrightarrow> competes s owner \<longrightarrow> Got (pd_id p) None \<in> set es)" by auto
      show ?case
        using create [OF es(2)] es(3) sub creates_calm [OF es(2), of "Listed ps # h"]
        by (cases b) (auto simp: es(1) bounded_def intro!: along_rules)
    qed
  qed (simp add: bounded_def)
qed

end

context fleet
begin

lemma current_along: "along al_log (in_order env s v) (current env s0) (bounded k h) h"
  unfolding current_def Let_def
  by (intro along_list_then)
     (auto simp: bounded_def intro!: along_rules split: sum.split)

lemma status_along:
  assumes "creates h' \<le> creates h + k"
  shows "along al_log (in_order env s v) (status env s0 st) (bounded k h) h'"
  unfolding status_def
  by (intro along_bind along_lift)
     (auto simp: bounded_def assms in_order_def intro!: along_rules split: sum.split)

lemma progress_once:
  assumes "creates h' = creates h" "op_submitted op \<or> v = Some (se_start_id (op_session op)) \<and> creates h = 0"
  shows "along al_log (in_order env s v) (progress env s op) (bounded (Suc 0) h) h'"
proof (rule along_mono [OF progress_along])
  show "op_submitted op \<or> v = Some (se_start_id (op_session op)) \<and> creates h' = 0" using assms by simp
  fix r h''
  assume "bounded (if op_submitted op then 0 else Suc 0) h' r h''"
  with assms show "bounded (Suc 0) h r h''" by (cases "op_submitted op") (simp_all add: bounded_def)
qed

lemma new_operation_along:
  assumes "creates h' = creates h" "v = Some st" "creates h = 0"
  shows "along al_log (in_order env s v) (new_operation env s st rep ps) (bounded (Suc 0) h) h'"
  unfolding new_operation_def Let_def
  by (auto intro!: along_rules progress_once simp: assms bounded_def split: sum.split)

lemma reconcile_along:
  assumes "v = intent operation" "creates h = 0"
  shows "along al_log (in_order env s v) (reconcile_with env s operation) (bounded (Suc 0) h) h"
proof -
  have cur: "along al_log (in_order env s v) (current env s) (bounded (Suc 0) h) h'" if "creates h' = creates h" for h'
    using along_bounded [OF current_along] that by simp
  have rest: "along al_log (in_order env s v) (act_bind (list_pods env True) (\<lambda>ps. act_bind (reconcile_pods env s ps) (\<lambda>actual.
         case actual of
           None \<Rightarrow> current env s
         | Some se \<Rightarrow>
             (case operation of
                Some op \<Rightarrow> if se_start_id se = se_start_id (op_session op)
                  then act_bind (set_operation s (op\<lparr>op_session := se\<rparr>)) (\<lambda>_. act_return (Some se))
                  else act_return (Some se)
              | None \<Rightarrow> act_return (Some se))))) (bounded (Suc 0) h) h" for operation
    by (intro along_list_then reconcile_listed)
       (auto simp: bounded_def creates_settled intro!: along_rules cur split: sum.split option.split)
  have go: "along al_log (in_order env s v) (act_bind (progress env s op) (\<lambda>se. act_return (Some se))) (bounded (Suc 0) h) h"
    if "operation = Some op" "se_phase (op_session op) = draining" "\<not> op_submitted op" for op
    by (rule along_seq [OF progress_once])
       (use assms that in \<open>auto simp: bounded_def intent_def intro!: along_rules\<close>)
  show ?thesis
  proof (cases operation)
    case None
    show ?thesis unfolding reconcile_with_def Let_def None option.case by (rule rest [of None, unfolded option.case])
  next
    case (Some op)
    show ?thesis
      unfolding reconcile_with_def Let_def Some option.case
      by (intro along_if rest [of "Some op", unfolded option.case] go [OF Some]) auto
  qed
qed

lemma existing_along:
  "along al_log (in_order env s v) (acquire_existing env s st rep sp ps p) (bounded 0 h) (Listed ps # h)"
proof -
  have "along al_log (in_order env s v) (act_bind (reconcile_pods env s ps) (\<lambda>_.
        act_bind (status env s st) (\<lambda>x. act_return (f x)))) (bounded 0 h) (Listed ps # h)" for f
  proof (intro reconcile_listed)
    fix x h'
    assume "settled (Listed ps # h) h'"
    then have "creates h' \<le> creates h + 0" by (simp add: creates_settled)
    then show "along al_log (in_order env s v) (act_bind (status env s st) (\<lambda>x. act_return (f x))) (bounded 0 h) h'"
      by (intro along_seq [OF status_along [where h = h and k = 0]]) (auto simp: bounded_def intro!: along_rules)
  qed (simp add: bounded_def creates_settled)
  then show ?thesis
    unfolding acquire_existing_def
    by (intro along_bind along_session) (auto simp: bounded_def intro!: along_raise split: sum.split)
qed

lemma operation_along:
  assumes "v = Some st" "creates h = 0"
  shows "along al_log (in_order env s v) (acquire_operation env s st rep sp pods operation) (bounded (Suc 0) h) (Listed ps # h)"
  by (cases operation)
     (auto simp: acquire_operation_def bounded_def assms intro!: along_rules progress_once new_operation_along split: sum.split)

lemma acquire_along:
  assumes "v = Some st" "creates h = 0"
  shows "along al_log (in_order env s v) (acquire env s st rep) (bounded (Suc 0) h) h"
proof -
  have "along al_log (in_order env s v) (acquire_existing env s st rep sp ps p) (bounded (Suc 0) h) (Listed ps # h)" for sp ps p
    by (rule along_mono [OF existing_along]) (simp add: bounded_def)
  then have step: "along al_log (in_order env s v) (case w of Some p \<Rightarrow> acquire_existing env s st rep sp ps p
      | None \<Rightarrow> acquire_operation env s st rep sp pods operation) (bounded (Suc 0) h) (Listed ps # h)" for w sp ps pods operation
    by (cases w) (simp_all add: operation_along [OF assms])
  show ?thesis
    unfolding acquire_def Let_def
    by (intro along_bind along_lift)
       (auto simp: bounded_le split: sum.split intro!: along_list_then along_bind [OF along_get] step)
qed

text \<open>An operation that is submitted and unresolved stays alone.\<close>

lemma unresolved_along:
  assumes "op_submitted op" "se_phase (op_session op) = creating" "\<And>n. fsub (av_clock env n) (op_since op) < av_grace env"
  shows "along al_log (in_order env s v) (acquire_operation env s st rep sp pods (Some op)) (bounded 0 h) (Listed ps # h)"
proof -
  have now: "along al_log (in_order env s v) (act_bind (tick env) f) (bounded 0 h) (Listed ps # h)"
    if "\<And>n. along al_log (in_order env s v) (f (av_clock env n)) (bounded 0 h) (Listed ps # h)" for f :: "_ \<Rightarrow> ('w, session) alloc"
  proof -
    have "along al_log (in_order env s v) (tick env) (\<lambda>r h'. h' = Listed ps # h \<and> (\<exists>n. r = Inr (av_clock env n))) (Listed ps # h)"
      by (auto simp: along_def traced_def tick_def)
    then show ?thesis by (rule along_seq) (use that in auto)
  qed
  have "along al_log (in_order env s v) (progress env s op) (bounded 0 h) (Listed ps # h)"
    using progress_along [of op v "Listed ps # h" s] assms(1) by - (rule along_bounded, simp_all)
  then show ?thesis
    using assms by (auto simp: acquire_operation_def not_le [symmetric] bounded_def intro!: now along_raise along_return)
qed

end

section \<open>The winner\<close>

text \<open>The newest epoch of a start among the pods, and the preference among the pods of one start.\<close>

definition newest_epoch :: "pod list \<Rightarrow> string \<Rightarrow> int" where
  "newest_epoch ps st = Max (insert 0 (epoch_of ` {p \<in> set ps. start_of p = st}))"

definition life_rank :: "pod \<Rightarrow> nat" where
  "life_rank p = (if lifecycle p = ''active'' then 0 else if lifecycle p = ''pending'' then 1 else 2)"

definition least_pod :: "pod list \<Rightarrow> pod \<Rightarrow> bool" where
  "least_pod ps w = (w \<in> set ps \<and> (\<forall>p\<in>set ps.
     (newest_epoch ps (start_of p), start_of p) < (newest_epoch ps (start_of w), start_of w) \<or>
     start_of p = start_of w \<and> (life_rank w, pd_id w) \<le> (life_rank p, pd_id p)))"

lemma max_by: "max_by f a bs \<in> set (a # bs) \<and> (\<forall>x\<in>set (a # bs). f x \<le> f (max_by f a bs))"
proof (induction bs arbitrary: a)
  case (Cons b bs)
  from Cons [of "if f a < f b then b else a"] show ?case by (auto split: if_splits intro: order.trans)
qed simp

lemma min_by: "min_by f a bs \<in> set (a # bs) \<and> (\<forall>x\<in>set (a # bs). f (min_by f a bs) \<le> f x)"
proof (induction bs arbitrary: a)
  case (Cons b bs)
  from Cons [of "if f b < f a then b else a"] show ?case by (auto split: if_splits intro: order.trans)
qed simp

lemma start_epochs_keys: "set (dkeys (start_epochs ps d)) = set (dkeys d) \<union> start_of ` set ps"
  by (induction ps arbitrary: d) (auto simp del: set_map simp: set_map [symmetric])

lemma start_epochs_ok: "dict_ok d \<Longrightarrow> dict_ok (start_epochs ps d)"
  by (induction ps arbitrary: d) auto

lemma Max_insert_max: "finite E \<Longrightarrow> Max (insert (max a b) E) = Max (insert a (insert b (E :: int set)))"
  by (cases "E = {}") (auto simp: max.assoc)

lemma start_epochs_value:
  "dget_default (start_epochs ps d) st 0 = Max (insert (dget_default d st 0) (epoch_of ` {p \<in> set ps. start_of p = st}))"
proof (induction ps arbitrary: d)
  case (Cons p ps)
  let ?E = "epoch_of ` {p \<in> set ps. start_of p = st}"
  show ?case
  proof (cases "start_of p = st")
    case True
    then have "{q \<in> set (p # ps). start_of q = st} = insert p {q \<in> set ps. start_of q = st}" by auto
    with Cons True Max_insert_max [of ?E] show ?thesis by (simp add: dget_default_def)
  next
    case False
    then have "{q \<in> set (p # ps). start_of q = st} = {q \<in> set ps. start_of q = st}" by auto
    with Cons False show ?thesis by (simp add: dget_default_def)
  qed
qed (simp add: dget_default_def)

lemma newest_start_max:
  assumes "ps \<noteq> []"
  shows "newest_start ps \<in> start_of ` set ps \<and>
    (\<forall>p\<in>set ps. (newest_epoch ps (start_of p), start_of p) \<le> (newest_epoch ps (newest_start ps), newest_start ps))"
proof -
  let ?d = "start_epochs ps []"
  have keys: "set (dkeys ?d) = start_of ` set ps" using start_epochs_keys [of ps "[]"] by simp
  have val: "newest_epoch ps k = v" if "(k, v) \<in> set ?d" for k v
    using start_epochs_value [of ps "[]" k] dget_of_mem [OF _ that] start_epochs_ok [of "[]" ps]
    by (simp add: newest_epoch_def dget_default_def)
  from keys assms obtain kv kvs where d: "?d = kv # kvs" by (cases ?d) auto
  let ?m = "max_by (\<lambda>(k, v). (v, k)) kv kvs"
  from max_by [of "\<lambda>(k, v). (v, k)" kv kvs] d have m: "?m \<in> set ?d" "\<forall>x\<in>set ?d. (\<lambda>(k, v). (v, k)) x \<le> (\<lambda>(k, v). (v, k)) ?m" by auto
  obtain k v where kv: "?m = (k, v)" by force
  have n: "newest_start ps = k" by (simp add: newest_start_def d kv)
  have "k \<in> start_of ` set ps" using keys m(1) kv by force
  moreover have "(newest_epoch ps (start_of p), start_of p) \<le> (newest_epoch ps k, k)" if "p \<in> set ps" for p
  proof -
    from that keys obtain u where "(start_of p, u) \<in> set ?d" by force
    with m kv val show ?thesis by fastforce
  qed
  ultimately show ?thesis by (simp add: n)
qed

lemma preferred_spec:
  assumes "copies \<noteq> []"
  shows "preferred copies \<noteq> [] \<and> (\<forall>w\<in>set (preferred copies). w \<in> set copies \<and> (\<forall>p\<in>set copies. life_rank w \<le> life_rank p) \<and>
    (\<forall>p\<in>set copies. life_rank p \<le> life_rank w \<longrightarrow> p \<in> set (preferred copies)))"
proof (cases "\<exists>p\<in>set copies. lifecycle p = ''active''")
  case True
  then have "preferred copies = filter (\<lambda>p. lifecycle p = ''active'') copies" "filter (\<lambda>p. lifecycle p = ''active'') copies \<noteq> []"
    by (auto simp: preferred_def filter_empty_conv)
  then show ?thesis by (auto simp: life_rank_def split: if_splits)
next
  case act: False
  show ?thesis
  proof (cases "\<exists>p\<in>set copies. lifecycle p = ''pending''")
    case True
    with act have "preferred copies = filter (\<lambda>p. lifecycle p = ''pending'') copies" "filter (\<lambda>p. lifecycle p = ''pending'') copies \<noteq> []"
      by (auto simp: preferred_def filter_empty_conv)
    with act show ?thesis by (auto simp: life_rank_def split: if_splits)
  next
    case False
    with act have "preferred copies = copies" by (auto simp: preferred_def filter_empty_conv)
    with act False assms show ?thesis by (auto simp: life_rank_def)
  qed
qed

lemma winner_least:
  assumes "winner ps = Some w"
  shows "least_pod ps w"
proof -
  let ?s = "newest_start ps" and ?copies = "filter (\<lambda>p. start_of p = newest_start ps) ps"
  from assms have ne: "ps \<noteq> []" by (auto simp: winner_def)
  note ns = newest_start_max [OF ne]
  from ns have "?copies \<noteq> []" by (auto simp: filter_empty_conv)
  note pr = preferred_spec [OF this]
  from assms ne obtain q qs where q: "preferred ?copies = q # qs" "w = min_by pd_id q qs"
    by (auto simp: winner_def split: list.splits)
  with min_by [of pd_id q qs] have w: "w \<in> set (preferred ?copies)" "\<forall>x\<in>set (preferred ?copies). pd_id w \<le> pd_id x" by auto
  from pr w(1) have c1: "w \<in> set ?copies" "\<forall>p\<in>set ?copies. life_rank w \<le> life_rank p"
    "\<forall>p\<in>set ?copies. life_rank p \<le> life_rank w \<longrightarrow> p \<in> set (preferred ?copies)" by blast+
  then have c: "w \<in> set ps" "start_of w = ?s" by simp_all
  have "(newest_epoch ps (start_of p), start_of p) < (newest_epoch ps (start_of w), start_of w) \<or>
     start_of p = start_of w \<and> (life_rank w, pd_id w) \<le> (life_rank p, pd_id p)" if p: "p \<in> set ps" for p
  proof (cases "start_of p = ?s")
    case True
    with p have "p \<in> set ?copies" by simp
    with c1 w(2) have "life_rank w \<le> life_rank p" "life_rank p \<le> life_rank w \<Longrightarrow> pd_id w \<le> pd_id p" by blast+
    with True c(2) show ?thesis by (simp add: less_le_not_le)
  next
    case False
    from ns p have "(newest_epoch ps (start_of p), start_of p) \<le> (newest_epoch ps (start_of w), start_of w)" by (simp only: c(2))
    moreover have "(newest_epoch ps (start_of p), start_of p) \<noteq> (newest_epoch ps (start_of w), start_of w)" using False c(2) by simp
    ultimately show ?thesis by (simp only: order_le_neq_trans simp_thms)
  qed
  with c(1) show ?thesis by (simp add: least_pod_def)
qed

lemma least_unique:
  assumes "least_pod ps w" "least_pod ps v" "distinct (map pd_id ps)"
  shows "w = v"
proof -
  from assms(1,2) have "w \<in> set ps" "v \<in> set ps" "pd_id w = pd_id v" unfolding least_pod_def by fastforce+
  with assms(3) show ?thesis by (simp add: distinct_map inj_on_def)
qed

lemma winner_some: "ps \<noteq> [] \<Longrightarrow> \<exists>w. winner ps = Some w"
proof -
  assume ne: "ps \<noteq> []"
  from newest_start_max [OF ne] have "filter (\<lambda>p. start_of p = newest_start ps) ps \<noteq> []" by (auto simp: filter_empty_conv)
  then have "preferred (filter (\<lambda>p. start_of p = newest_start ps) ps) \<noteq> []" using preferred_spec by blast
  with ne show ?thesis by (auto simp: winner_def neq_Nil_conv)
qed

text \<open>
  Everyone who sees the same pods agrees on the winner, in whatever order they come: it is the pod of
  the newest connection (ties broken by its identifier) that is active before pending before anything else,
  with the least id.
\<close>

theorem winner_agreed:
  assumes "distinct (map pd_id ps)" "mset qs = mset ps" "ps \<noteq> []"
  shows "\<exists>w. winner ps = Some w \<and> winner qs = Some w \<and> least_pod ps w"
proof -
  from assms(2) have s: "set qs = set ps" by (rule mset_eq_setD)
  from winner_some [OF assms(3)] obtain w where w: "winner ps = Some w" ..
  from assms(3) s have "qs \<noteq> []" by auto
  from winner_some [OF this] obtain v where v: "winner qs = Some v" ..
  from winner_least [OF v] s have "least_pod ps v" by (simp add: least_pod_def newest_epoch_def)
  with w v winner_least [OF w] least_unique assms(1) show ?thesis by blast
qed

section \<open>The allocator over the provider\<close>

text \<open>The allocator of the gateway works with the client of \<^verbatim>\<open>runpod.py\<close>; everything else stays as it is.\<close>

definition on_runpod :: "'w runpod_env \<Rightarrow> 'w runpod alloc_env \<Rightarrow> 'w runpod alloc_env" where
  "on_runpod cl env = env\<lparr>av_list := rp_list cl, av_get := rp_get cl,
     av_rename := (\<lambda>i name. act_bind (rp_rename cl i name) (\<lambda>_. act_return ())),
     av_delete := rp_delete cl, av_create := rp_create cl\<rparr>"

interpretation gateway: fleet "on_runpod cl env" for cl :: "'w runpod_env" and env
  by unfold_locales (simp add: on_runpod_def runpod.get_by_id)

text \<open>The parts of \<open>in_order\<close>.\<close>

definition deletes_in_order :: "'w alloc_env \<Rightarrow> scope \<Rightarrow> string option \<Rightarrow> alloc_event \<Rightarrow> alloc_event list \<Rightarrow> bool" where
  "deletes_in_order env s w e h = (case e of
     DeleteOf i \<Rightarrow> delete_ok env i h
   | RenameTo i n \<Rightarrow> name_life n = ''drained'' \<longrightarrow> captures_over env s w i h
   | _ \<Rightarrow> True)"

definition activates_in_order :: "'w alloc_env \<Rightarrow> scope \<Rightarrow> alloc_event \<Rightarrow> alloc_event list \<Rightarrow> bool" where
  "activates_in_order env s e h = (case e of RenameTo i n \<Rightarrow> name_life n = ''active'' \<longrightarrow> activation_ok env s i h | _ \<Rightarrow> True)"

definition creates_in_order :: "'w alloc_env \<Rightarrow> scope \<Rightarrow> alloc_event \<Rightarrow> alloc_event list \<Rightarrow> bool" where
  "creates_in_order env s e h = (case e of Created owner i \<Rightarrow> owner = s \<and> creation_ok env s h | _ \<Rightarrow> True)"

lemma preceded_mono: "preceded C h es \<Longrightarrow> (\<And>e h. C e h \<Longrightarrow> D e h) \<Longrightarrow> preceded D h es"
  by (induction es arbitrary: h) auto

lemma in_order_parts:
  assumes "preceded (in_order env s v) h es"
  shows "preceded (deletes_in_order env s v) h es" "preceded (activates_in_order env s) h es" "preceded (creates_in_order env s) h es"
  by (rule preceded_mono [OF assms], auto simp: in_order_def deletes_in_order_def activates_in_order_def creates_in_order_def
        split: alloc_event.splits)+

definition says_gone :: "string \<Rightarrow> session result \<Rightarrow> alloc_event list \<Rightarrow> bool" where
  "says_gone i r h = (case r of Inl _ \<Rightarrow> True | Inr se \<Rightarrow> se_phase se = retired \<longrightarrow> latest_got i h = Some None)"

lemma trace_of:
  assumes "along al_log C m Q []" "\<And>r es. preceded C [] es \<Longrightarrow> Q r (rev es) \<Longrightarrow> P r es"
  shows "traced al_log m P"
  by (rule traced_mono [OF along_traced [OF assms(1)]]) (use assms(2) in blast)

lemma creates_rev: "creates (rev es) = creates es"
  by (simp add: creates_def rev_filter [symmetric])

text \<open>The operations of the allocator over the provider, with the start each means to create.\<close>

lemma acquire_in_order:
  "traced al_log (acquire (on_runpod cl env) s st rep)
     (\<lambda>r es. creates es \<le> 1 \<and> preceded (in_order (on_runpod cl env) s (Some st)) [] es)"
  by (rule trace_of [OF gateway.acquire_along [where v = "Some st"]]) (auto simp: bounded_def creates_rev)

lemma reconcile_in_order:
  assumes "reconcile (on_runpod cl env) s a = (r, a')"
  shows "\<exists>es. al_log a' = al_log a @ es \<and> creates es \<le> 1 \<and>
    preceded (in_order (on_runpod cl env) s (intent (dget (al_operations a) s))) [] es"
  using tracedD [OF along_traced [OF gateway.reconcile_along [OF refl, of "[]" cl env s "dget (al_operations a) s"]],
      of a r a'] assms
  by (auto simp: reconcile_finds bounded_def creates_rev)

text \<open>
  C28: No pod is deleted in service: whatever the provider, the pods and the fence answer, the last thing seen
  of a pod before it is deleted is its drained mark, and it has been fenced off since; and a pod reported as
  retired was last seen to be gone. The mark is only set when the pod's drain was confirmed or it was seen to
  have stopped. The one exception is a worker that makes way for a new start of its own scope: the inventory
  read last shows it and no pod of that start, and nothing was created yet. The start is the one the
  operation is called for, or the unsubmitted one a reconciliation finds; a reconciliation without such an
  intent, and a direct retirement, wait for the captures of every pod.
\<close>

theorem deletes_are_safe:
  "traced al_log (retire (on_runpod cl env) s st i True)
     (\<lambda>r es. preceded (deletes_in_order (on_runpod cl env) s None) [] es \<and> says_gone i r (rev es)) \<and>
   traced al_log (acquire (on_runpod cl env) s st rep)
     (\<lambda>r es. preceded (deletes_in_order (on_runpod cl env) s (Some st)) [] es) \<and>
   (case reconcile (on_runpod cl env) s a of (r, a') \<Rightarrow> \<exists>es. al_log a' = al_log a @ es \<and>
     preceded (deletes_in_order (on_runpod cl env) s (intent (dget (al_operations a) s))) [] es)"
proof (intro conjI)
  show "traced al_log (retire (on_runpod cl env) s st i True)
     (\<lambda>r es. preceded (deletes_in_order (on_runpod cl env) s None) [] es \<and> says_gone i r (rev es))"
    by (rule trace_of [OF gateway.retire_along [where S = s and v = None]])
       (auto intro: in_order_parts simp: retires_def says_gone_def split: sum.split)
  show "traced al_log (acquire (on_runpod cl env) s st rep)
     (\<lambda>r es. preceded (deletes_in_order (on_runpod cl env) s (Some st)) [] es)"
    by (rule traced_mono [OF acquire_in_order]) (blast intro: in_order_parts)
  show "case reconcile (on_runpod cl env) s a of (r, a') \<Rightarrow> \<exists>es. al_log a' = al_log a @ es \<and>
     preceded (deletes_in_order (on_runpod cl env) s (intent (dget (al_operations a) s))) [] es"
    by (auto split: prod.split dest!: reconcile_in_order intro: in_order_parts)
qed

lemma reconcile_traced:
  assumes "\<And>r es v. creates es \<le> 1 \<Longrightarrow> preceded (in_order (on_runpod cl env) s v) [] es \<Longrightarrow> P r es"
  shows "traced al_log (reconcile (on_runpod cl env) s) P"
  unfolding traced_iff using reconcile_in_order assms by blast

text \<open>
  C29: A pod is only activated when it is the winner of the inventory just read, every pod of an older
  connection of its miner has been seen to be gone since, and the fence has let it in.
\<close>

theorem activation_waits:
  "traced al_log (acquire (on_runpod cl env) s st rep) (\<lambda>r es. preceded (activates_in_order (on_runpod cl env) s) [] es) \<and>
   traced al_log (reconcile (on_runpod cl env) s) (\<lambda>r es. preceded (activates_in_order (on_runpod cl env) s) [] es)"
  by (intro conjI traced_mono [OF acquire_in_order] reconcile_traced) (blast intro: in_order_parts)+

text \<open>
  C30: An operation asks for at most one pod, for its own scope, and only after every pod of the miner (or of
  the gateway's scope) in an inventory it read has been seen to be gone.
\<close>

theorem create_needs_clear_field:
  "traced al_log (acquire (on_runpod cl env) s st rep)
     (\<lambda>r es. creates es \<le> 1 \<and> preceded (creates_in_order (on_runpod cl env) s) [] es) \<and>
   traced al_log (reconcile (on_runpod cl env) s)
     (\<lambda>r es. creates es \<le> 1 \<and> preceded (creates_in_order (on_runpod cl env) s) [] es)"
  by (intro conjI traced_mono [OF acquire_in_order] reconcile_traced) (blast intro: in_order_parts)+

text \<open>
  While a create is unresolved nothing else is created for the scope: an operation that was submitted
  and has neither failed nor shown a pod within its grace period keeps every further attempt, for its own
  start or for another one, from asking for a pod.
\<close>

theorem unresolved_create_blocks:
  assumes "dget (al_operations a) s = Some op" "op_submitted op" "se_phase (op_session op) = creating"
    "\<And>n. fsub (av_clock env n) (op_since op) < av_grace env"
    "acquire (on_runpod cl env) s st rep a = (r, a')"
  shows "\<exists>es. al_log a' = al_log a @ es \<and> creates es = 0"
proof -
  let ?E = "on_runpod cl env"
  have E: "av_clock ?E = av_clock env" "av_grace ?E = av_grace env" by (simp_all add: on_runpod_def)
  have list: "(\<exists>e. q = Inl e \<and> al_log a1 = al_log a) \<or>
      (\<exists>ps. q = Inr ps \<and> al_log a1 = al_log a @ [Listed ps] \<and> al_operations a1 = al_operations a)"
    if "list_pods ?E True a = (q, a1)" for q a1
    using that by (auto simp: list_pods_def act_bind_def call_def logged_def act_simps split: prod.splits sum.splits)
  obtain q a1 where q: "list_pods ?E True a = (q, a1)" by force
  show ?thesis
  proof (cases "rbind (session_uuid st) (\<lambda>_. case rep of None \<Rightarrow> Inr [] | Some r \<Rightarrow> session_uuid r)")
    case (Inl e)
    with assms(5) show ?thesis by (auto simp: acquire_def act_bind_def act_simps)
  next
    case (Inr x)
    from list [OF q] show ?thesis
    proof (elim disjE exE conjE)
      fix e
      assume "q = Inl e" "al_log a1 = al_log a"
      with assms(5) Inr q show ?thesis by (auto simp: acquire_def act_bind_def act_simps)
    next
      fix ps
      assume ps: "q = Inr ps" "al_log a1 = al_log a @ [Listed ps]" "al_operations a1 = al_operations a"
      let ?w = "winner (filter (\<lambda>p. start_of p = st) (owned ?E ps s))"
      let ?m = "case ?w of Some p \<Rightarrow> acquire_existing ?E s st rep (al_spec a1) ps p
        | None \<Rightarrow> acquire_operation ?E s st rep (al_spec a1) (owned ?E ps s) (Some op)"
      have run: "?m a1 = (r, a')"
        using assms(1,5) Inr q ps by (cases ?w) (simp_all add: acquire_def act_bind_def act_simps Let_def)
      have grace: "fsub (av_clock ?E n) (op_since op) < av_grace ?E" for n using assms(4) by (simp add: E)
      have "along al_log (in_order ?E s None) ?m (bounded 0 []) [Listed ps]"
        using gateway.existing_along [where h = "[]"] gateway.unresolved_along [where h = "[]", OF assms(2,3) grace]
        by (cases ?w) auto
      from tracedD [OF this [unfolded along_def] run] obtain es where
        "al_log a' = al_log a1 @ es" "creates (rev es) = 0" by (auto simp: bounded_def creates_def)
      with ps(2) show ?thesis by (intro exI [of _ "Listed ps # es"]) (simp add: creates_def rev_filter [symmetric])
    qed
  qed
qed

section \<open>Examples\<close>

text \<open>A worker that is drained, at a service that deletes it when asked.\<close>

definition example_env :: "(string, json) dict" where
  "example_env = [(''WITNESS_DEPLOYMENT'', JStr ''main''), (''WITNESS_ROUND'', JStr ''cup-4''),
     (''WITNESS_HOTKEY'', JStr (replicate 48 (CHR ''5''))), (''WITNESS_START_ID'', JStr example_start),
     (''WITNESS_POD_SPEC'', JStr (replicate 64 (CHR ''0''))), (''WITNESS_BOOT_MODE'', JStr ''dormant''), (''WITNESS_EPOCH_NS'', JStr ''17'')]"

definition example_worker :: "string \<Rightarrow> json" where
  "example_worker life = JObj [(''id'', JStr ''p1''), (''name'', JStr (''w404-main-cup-4-55555555-'' @ life)), (''image'', JStr ''img''),
     (''status'', JStr ''RUNNING''), (''env'', JObj example_env)]"

definition worker_service :: "http_call \<Rightarrow> bool \<Rightarrow> http_answer option \<times> bool" where
  "worker_service c there = (let ok = \<lambda>v. \<lparr>ha_status = 200, ha_retry_after = None, ha_json = Some v\<rparr>;
       none = \<lambda>st. \<lparr>ha_status = st, ha_retry_after = None, ha_json = None\<rparr>
     in if hc_method c = DELETE then (Some (none 204), False)
        else if hc_path c = ''/pods'' then (Some (ok (JObj [(''pods'', JList (if there then [example_worker ''drained''] else [])),
            (''pagination'', JObj [(''hasNextPage'', JBool False)])])), there)
        else if there then (Some (ok (example_worker ''drained'')), there) else (Some (none 404), there))"

definition worker_runpod :: "bool runpod_env" where
  "worker_runpod = \<lparr>re_interval = 0, re_cache_seconds = 0, re_fuel = 2, re_send = worker_service,
     re_monotonic = (\<lambda>w. (0, w)), re_time = (\<lambda>w. (0, w)), re_sleep = (\<lambda>t w. ((), w)), re_http_date = (\<lambda>_. None),
     re_ip = (\<lambda>_. None), re_str = (\<lambda>_. [])\<rparr>"

definition example_alloc :: "bool runpod alloc_env" where
  "example_alloc = \<lparr>av_crypto = example_crypto, av_list = (\<lambda>_. act_return []), av_get = (\<lambda>_. act_return None),
     av_rename = (\<lambda>_ _. act_return ()), av_delete = (\<lambda>_. act_return ()), av_create = (\<lambda>_. act_raise KeyError),
     av_drain = (\<lambda>_. act_return True), av_selection = None, av_before_create = None, av_pending_creates = None,
     av_max_pods = None, av_grace = 600, av_clock = (\<lambda>_. 0)\<rparr>"

definition example_allocator :: "(scope, operation) dict \<Rightarrow> bool runpod allocator" where
  "example_allocator ops = \<lparr>al_world = \<lparr>rp_world = True, rp_next = 0, rp_cached = None, rp_log = []\<rparr>, al_ticks = 0,
     al_spec = example_spec, al_operations = ops, al_log = []\<rparr>"

lemma example_retire:
  "let (r, a) = retire (on_runpod worker_runpod example_alloc) example_scope example_start ''p1'' True (example_allocator [])
   in rmap se_phase r = Inr retired \<and>
      map (\<lambda>e. case e of Got i p \<Rightarrow> (''got'', p \<noteq> None) | DeleteOf i \<Rightarrow> (''delete'', True) | _ \<Rightarrow> ([], False)) (al_log a) =
        [(''got'', True), (''delete'', True), (''got'', False)]"
  by code_simp

definition example_pods :: "pod list" where
  "example_pods = map (\<lambda>(i, life, e). \<lparr>pd_id = i, pd_name = ''w404-main-cup-4-55555555-'' @ life, pd_image = ''img'', pd_status = ''RUNNING'',
     pd_markers = [(''WITNESS_START_ID'', example_start), (''WITNESS_EPOCH_NS'', e)], pd_tcp = [], pd_cost = None\<rparr>)
     [(''p1'', ''pending'', ''17''), (''p2'', ''active'', ''17''), (''p3'', ''pending'', ''19'')]"

theorem winner_agreed_witness:
  "\<exists>w. winner example_pods = Some w \<and> winner (rev example_pods) = Some w \<and> least_pod example_pods w \<and> pd_id w = ''p2''"
proof -
  have d: "distinct (map pd_id example_pods)" "example_pods \<noteq> []" by code_simp+
  have i: "map_option pd_id (winner example_pods) = Some ''p2''" by code_simp
  from winner_agreed [OF d(1) _ d(2), of "rev example_pods"] i show ?thesis by auto
qed

definition example_operation :: operation where
  "example_operation = \<lparr>op_session = \<lparr>se_start_id = example_start, se_replaces = None, se_phase = creating, se_spec_hash = [],
     se_image = [], se_pod_id = None, se_rejection = None\<rparr>, op_epoch = 17, op_since = 0, op_submitted = True\<rparr>"

theorem unresolved_create_blocks_witness:
  "\<exists>es. al_log (snd (acquire (on_runpod worker_runpod example_alloc) example_scope ''0f8fad5b-d9cb-469f-a165-708677289501'' None
     (example_allocator [(example_scope, example_operation)]))) = es \<and> creates es = 0"
proof -
  let ?m = "acquire (on_runpod worker_runpod example_alloc) example_scope ''0f8fad5b-d9cb-469f-a165-708677289501'' None"
  let ?a = "example_allocator [(example_scope, example_operation)]"
  obtain r a' where m: "?m ?a = (r, a')" by force
  have "\<exists>es. al_log a' = al_log ?a @ es \<and> creates es = 0"
    by (rule unresolved_create_blocks [OF _ _ _ _ m, of example_operation])
       (simp_all add: example_allocator_def example_operation_def example_alloc_def)
  with m show ?thesis by (simp add: example_allocator_def)
qed

end
