(* ===== verification/Rounds.thy ===== *)
theory Rounds
  imports Repo StateStore RunPod MatchExecution
begin

text \<open>
  The inputs of a round and who may generate, \<^verbatim>\<open>shared/subnet_common/witness/rounds.py\<close> and
  \<^verbatim>\<open>pod_gateway/rounds.py\<close>: the frozen inputs, the short-lived policy, the controller that derives both from
  a commit of the competition repository and pins the inputs in the store. Git, the downloads, the head of
  the chain, the clock, \<^verbatim>\<open>urlsplit\<close>, PIL and SHA-256 are parameters. The reads and the downloads that the code
  gathers run one after another.
\<close>

section \<open>Inputs and policy\<close>

definition lower_char :: "char \<Rightarrow> char" where
  "lower_char c = (let n = of_char c :: nat in if 65 \<le> n \<and> n \<le> 90 then char_of (n + 32) else c)"

definition lower :: "string \<Rightarrow> string" where
  "lower = map lower_char"

definition removeprefix :: "string \<Rightarrow> string \<Rightarrow> string" where
  "removeprefix p s = (if take (length p) s = p then drop (length p) s else s)"

definition removesuffix :: "string \<Rightarrow> string \<Rightarrow> string" where
  "removesuffix p s = (if length p \<le> length s \<and> drop (length s - length p) s = p then take (length s - length p) s else s)"

definition repo_char :: "char \<Rightarrow> bool" where
  "repo_char c = in_chars (upper_alnum @ lower_alnum @ ''_.-'') c"

definition repository :: "string \<Rightarrow> string result" where
  "repository v0 =
     (let v1 = if take 19 v0 = ''https://github.com/'' then removesuffix ''/'' (removeprefix ''https://github.com/'' v0) else v0;
          v = removesuffix ''.git'' v1
      in case split_on (CHR ''/'') v of
           [o', n] \<Rightarrow> if o' \<noteq> [] \<and> n \<noteq> [] \<and> list_all repo_char o' \<and> list_all repo_char n then Inr (lower v)
             else Inl (ValueError ''Expected a GitHub repository URL or owner/repository'')
         | _ \<Rightarrow> Inl (ValueError ''Expected a GitHub repository URL or owner/repository''))"

record prompt_image =
  pi_id :: string
  pi_source_url :: string
  pi_sha256 :: string
  pi_image_key :: string

record round_inputs =
  ri_repository :: string
  ri_branch :: string
  ri_revision :: string
  ri_round :: string
  ri_number :: int
  ri_seed :: int
  ri_prompts :: "prompt_image list"
  ri_deadline :: "int option"
  ri_storage_prefix :: string
  ri_save_submissions :: bool

record round_policy =
  po_repository :: string
  po_branch :: string
  po_revision :: string
  po_round :: string
  po_inputs_sha :: "string option"
  po_stage :: string
  po_observed :: pyfloat
  po_expires :: pyfloat
  po_state_expires :: "pyfloat option"
  po_block :: "int option"
  po_deadline :: "int option"

text \<open>\<^verbatim>\<open>^[A-Za-z0-9][A-Za-z0-9_.-]{0,254}$\<close> and \<^verbatim>\<open>^[0-9a-f]{40}$\<close>.\<close>

definition prompt_id_ok :: "string \<Rightarrow> bool" where
  "prompt_id_ok s = (case s of [] \<Rightarrow> False
     | c # cs \<Rightarrow> in_chars (upper_alnum @ lower_alnum) c \<and> length cs \<le> 254 \<and> list_all repo_char cs)"

definition revision_ok :: "string \<Rightarrow> bool" where
  "revision_ok s = (length s = 40 \<and> list_all (in_chars hex_digits) s)"

definition make_prompt :: "string \<Rightarrow> string \<Rightarrow> string \<Rightarrow> string \<Rightarrow> prompt_image result" where
  "make_prompt i url sha key = (if prompt_id_ok i \<and> hash_ok sha
     then Inr \<lparr>pi_id = i, pi_source_url = url, pi_sha256 = sha, pi_image_key = key\<rparr> else Inl (ValidationError ''PromptImage''))"

definition image_key :: "string \<Rightarrow> string \<Rightarrow> string" where
  "image_key store sha = store @ ''competition-inputs/v1/'' @ sha"

definition valid_inputs :: "round_inputs \<Rightarrow> round_inputs result" where
  "valid_inputs i =
     (if \<not> revision_ok (ri_revision i) \<or> \<not> slug_ok (ri_round i) \<or> ri_number i < 0 \<or> ri_seed i < 0 \<or> 2 ^ 64 \<le> ri_seed i \<or>
         ri_prompts i = [] \<or> 4096 < int (length (ri_prompts i)) \<or> (case ri_deadline i of None \<Rightarrow> False | Some d \<Rightarrow> d < 0)
      then Inl (ValidationError ''RoundInputs'')
      else if repository (ri_repository i) \<noteq> Inr (ri_repository i) then Inl (ValidationError ''RoundInputs'')
      else if \<not> is_ok (storage_prefix (ri_storage_prefix i)) then Inl (ValidationError ''RoundInputs'')
      else if \<not> distinct (map pi_sha256 (ri_prompts i)) \<or> \<not> distinct (map pi_id (ri_prompts i))
      then Inl (ValidationError ''RoundInputs'')
      else if list_ex (\<lambda>p. pi_image_key p \<noteq> image_key (ri_storage_prefix i) (pi_sha256 p)) (ri_prompts i)
      then Inl (ValidationError ''RoundInputs'')
      else Inr i)"

definition opt_int :: "int option \<Rightarrow> json" where
  "opt_int x = (case x of None \<Rightarrow> JNull | Some i \<Rightarrow> JInt i)"

text \<open>What the fingerprint covers: everything but the revision and the source URLs.\<close>

definition inputs_json :: "round_inputs \<Rightarrow> json" where
  "inputs_json i = JObj [(''repository'', JStr (ri_repository i)), (''branch'', JStr (ri_branch i)), (''round'', JStr (ri_round i)),
     (''number'', JInt (ri_number i)), (''seed'', JInt (ri_seed i)), (''generation_deadline_block'', opt_int (ri_deadline i)),
     (''storage_prefix'', JStr (ri_storage_prefix i)), (''save_submissions'', JBool (ri_save_submissions i)),
     (''prompts'', JList (map (\<lambda>p. JObj [(''id'', JStr (pi_id p)), (''sha256'', JStr (pi_sha256 p)),
        (''image_key'', JStr (pi_image_key p))]) (ri_prompts i)))]"

text \<open>\<open>hash\<close> is the SHA-256 of the printed value, in hexadecimal digits.\<close>

definition inputs_print :: "(json \<Rightarrow> string) \<Rightarrow> round_inputs \<Rightarrow> string" where
  "inputs_print hash i = hash (inputs_json i)"

definition stale_policy :: exn where "stale_policy = AuthRejected ''round_policy_stale'' 503"
definition policy_mismatch :: exn where "policy_mismatch = AuthRejected ''round_policy_mismatch'' 403"
definition round_closed :: exn where "round_closed = AuthRejected ''round_closed'' 403"

definition policy_require :: "(json \<Rightarrow> string) \<Rightarrow> round_policy \<Rightarrow> round_inputs \<Rightarrow> pyfloat \<Rightarrow> bool \<Rightarrow> unit result" where
  "policy_require hash p i now generation =
     (let expires = (case po_state_expires p of None \<Rightarrow> po_expires p | Some t \<Rightarrow> if generation then po_expires p else t)
      in if \<not> po_observed p \<le> fadd now 5 \<or> \<not> (now < expires \<and> expires \<le> fadd (po_observed p) 120) then Inl stale_policy
         else if po_repository p \<noteq> ri_repository i \<or> po_branch p \<noteq> ri_branch i \<or> po_round p \<noteq> ri_round i \<or>
           po_inputs_sha p \<noteq> Some (inputs_print hash i) then Inl policy_mismatch
         else if po_deadline p \<noteq> ri_deadline i then Inl policy_mismatch
         else if \<not> generation then Inr ()
         else if po_stage p \<noteq> stage_value MINER_GENERATION then Inl round_closed
         else (case ri_deadline i of None \<Rightarrow> Inr ()
           | Some d \<Rightarrow> (case po_block p of None \<Rightarrow> Inl round_closed | Some b \<Rightarrow> if d \<le> b then Inl round_closed else Inr ())))"

section \<open>The controller\<close>

record url_parts =
  up_scheme :: string
  up_netloc :: string
  up_hostname :: "string option"
  up_username :: "string option"
  up_path :: string
  up_fragment :: string

record 'w rounds =
  ro_world :: 'w
  ro_inputs :: "round_inputs option"
  ro_policy :: "round_policy option"
  ro_resolved :: "(string, round_inputs) dict"

record 'w rounds_env =
  rv_repository :: string
  rv_branch :: string
  rv_ttl :: pyfloat
  rv_clock :: "('w, pyfloat) action"
  rv_ref :: "string \<Rightarrow> ('w, string) action"
  rv_repo :: "string \<Rightarrow> ('w, repo) action"
  rv_download :: "string \<Rightarrow> ('w, string) action"
  rv_head :: "('w, int \<times> pyfloat) action"
  rv_put :: "string \<Rightarrow> string \<Rightarrow> string \<Rightarrow> ('w, unit) action"
  rv_on_close :: "('w, unit) action option"
  rv_load :: "string \<Rightarrow> ('w, round_inputs snapshot option) action"
  rv_save :: "string \<Rightarrow> round_inputs \<Rightarrow> string option \<Rightarrow> ('w, round_inputs snapshot) action"
  rv_urlsplit :: "string \<Rightarrow> url_parts result"
  rv_unquote :: "string \<Rightarrow> string"
  rv_picture :: "string \<Rightarrow> string result"
  rv_sha :: "string \<Rightarrow> string"
  rv_hash :: "json \<Rightarrow> string"

type_synonym ('w, 'a) ro_action = "('w rounds, 'a) action"

definition ask :: "('w, 'a) action \<Rightarrow> ('w, 'a) ro_action" where
  "ask m s = (case m (ro_world s) of (r, w) \<Rightarrow> (r, s\<lparr>ro_world := w\<rparr>))"

definition read_doc :: "'w rounds_env \<Rightarrow> string \<Rightarrow> (repo \<Rightarrow> 'a result) \<Rightarrow> ('w, 'a) ro_action" where
  "read_doc env revision f = act_bind (ask (rv_repo env revision)) (\<lambda>r. act_lift (f r))"

definition fingerprint_of :: "'w rounds_env \<Rightarrow> round_inputs \<Rightarrow> string" where
  "fingerprint_of env = inputs_print (rv_hash env)"

definition controller_require :: "'w rounds_env \<Rightarrow> bool \<Rightarrow> ('w, round_inputs) ro_action" where
  "controller_require env generation =
     act_bind (act_get (\<lambda>s. (ro_inputs s, ro_policy s))) (\<lambda>ip. case ip of
       (Some i, Some p) \<Rightarrow> act_bind (ask (rv_clock env)) (\<lambda>now.
         act_bind (act_lift (policy_require (rv_hash env) p i now generation)) (\<lambda>_. act_return i))
     | _ \<Rightarrow> act_raise (AuthRejected ''round_unavailable'' 503))"

definition raw_url :: "'w rounds_env \<Rightarrow> string \<Rightarrow> string" where
  "raw_url env revision = ''https://raw.githubusercontent.com/'' @ rv_repository env @ ''/'' @ revision @ ''/''"

text \<open>\<^verbatim>\<open>quote(value, safe="/")\<close>\<close>

definition quote_path :: "string \<Rightarrow> string" where
  "quote_path s = concat (map (\<lambda>c. if c = CHR ''/'' then [c] else quote_char c) s)"

text \<open>\<^verbatim>\<open>[A-Za-z0-9][A-Za-z0-9._/-]{0,199}\<close> without two dots in a row.\<close>

definition branch_ok :: "string \<Rightarrow> bool" where
  "branch_ok s = ((case s of [] \<Rightarrow> False
     | c # cs \<Rightarrow> in_chars (upper_alnum @ lower_alnum) c \<and> length cs \<le> 199 \<and> list_all (in_chars (upper_alnum @ lower_alnum @ ''._/-'')) cs) \<and>
     \<not> list_ex (\<lambda>i. take 2 (drop i s) = ''..'') [0..<length s])"

definition new_rounds :: "string \<Rightarrow> string \<Rightarrow> pyfloat \<Rightarrow> 'w \<Rightarrow> 'w rounds result" where
  "new_rounds repo branch ttl w =
     (if \<not> branch_ok branch \<or> \<not> (5 \<le> ttl \<and> ttl \<le> 120) then Inl (ValueError ''Invalid round refresh configuration'')
      else rmap (\<lambda>_. \<lparr>ro_world = w, ro_inputs = None, ro_policy = None, ro_resolved = []\<rparr>) (repository repo))"

text \<open>A reference to a file of the branch is pinned to the revision.\<close>

definition pin_origin :: "'w rounds_env \<Rightarrow> url_parts \<Rightarrow> string \<times> string \<Rightarrow> string option" where
  "pin_origin env u op = (case op of (origin, pre) \<Rightarrow>
     let repo_path = ''/'' @ rv_repository env @ ''/''; n = length repo_path
     in if up_hostname u = Some origin \<and> lower (take n (up_path u)) = repo_path \<and> take (length pre) (drop n (up_path u)) = pre
        then Some (drop (n + length pre) (up_path u)) else None)"

definition prompt_url :: "'w rounds_env \<Rightarrow> string \<Rightarrow> string \<Rightarrow> string result" where
  "prompt_url env revision v =
     rbind (rv_urlsplit env v) (\<lambda>u.
       if up_scheme u = [] \<and> up_netloc u = []
       then (if take 1 v = ''/'' \<or> list_ex (\<lambda>p. p = ''.'' \<or> p = ''..'') (split_on (CHR ''/'') v)
             then Inl (ValueError ''Invalid repository prompt path'')
             else Inr (raw_url env revision @ quote_path v))
       else if up_scheme u \<noteq> ''https'' \<or> up_hostname u \<in> {None, Some []} \<or> up_username u \<notin> {None, Some []} \<or> up_fragment u \<noteq> []
       then Inl (ValueError ''Prompt references must use HTTPS'')
       else (case pin_origin env u (''raw.githubusercontent.com'', rv_branch env @ ''/'') of
               Some path \<Rightarrow> Inr (raw_url env revision @ path)
             | None \<Rightarrow> (case pin_origin env u (''github.com'', ''blob/'' @ rv_branch env @ ''/'') of
                 Some path \<Rightarrow> Inr (raw_url env revision @ path) | None \<Rightarrow> Inr v)))"

definition max_image :: int where "max_image = 8 * 1024 * 1024"

definition fetch_prompt :: "'w rounds_env \<Rightarrow> string \<Rightarrow> string \<Rightarrow> string \<Rightarrow> ('w, prompt_image \<times> string \<times> string) ro_action" where
  "fetch_prompt env revision storage v =
     act_bind (act_lift (prompt_url env revision v)) (\<lambda>url.
     act_bind (act_lift (rmap (\<lambda>u. path_stem (rv_unquote env (up_path u))) (rv_urlsplit env v))) (\<lambda>name.
     act_bind (ask (rv_download env url)) (\<lambda>bytes.
       if bytes = [] \<or> max_image < int (length bytes) then act_raise (ValueError ''Prompt image exceeds its size limit'')
       else
         act_bind (act_lift (rv_picture env bytes)) (\<lambda>content_type.
         act_bind (act_lift (make_prompt name url (rv_sha env bytes) (image_key storage (rv_sha env bytes)))) (\<lambda>p.
           act_return (p, bytes, content_type))))))"

fun fetch_prompts :: "'w rounds_env \<Rightarrow> string \<Rightarrow> string \<Rightarrow> string list \<Rightarrow> ('w, (prompt_image \<times> string \<times> string) list) ro_action" where
  "fetch_prompts env revision storage [] = act_return []"
| "fetch_prompts env revision storage (v # vs) =
     act_bind (fetch_prompt env revision storage v) (\<lambda>x.
     act_bind (fetch_prompts env revision storage vs) (\<lambda>xs. act_return (x # xs)))"

fun put_images :: "'w rounds_env \<Rightarrow> (prompt_image \<times> string \<times> string) list \<Rightarrow> ('w, unit) ro_action" where
  "put_images env [] = act_return ()"
| "put_images env ((p, bytes, content_type) # xs) =
     act_bind (ask (rv_put env (pi_image_key p) bytes content_type)) (\<lambda>_. put_images env xs)"

definition pin_key :: "'w rounds_env \<Rightarrow> string \<Rightarrow> string" where
  "pin_key env round_name = ''pod-gateway/round-inputs/v1/'' @
     rv_hash env (JList [JStr (rv_repository env), JStr (rv_branch env)]) @ ''/'' @ round_name @ ''.json''"

definition retained :: "'w rounds_env \<Rightarrow> string \<Rightarrow> ('w, round_inputs option) ro_action" where
  "retained env round_name =
     act_bind (ask (rv_load env (pin_key env round_name))) (\<lambda>saved.
       case saved of None \<Rightarrow> act_return None
       | Some sn \<Rightarrow>
           act_bind (act_lift (valid_inputs (sn_data sn))) (\<lambda>i.
             if (ri_repository i, ri_branch i, ri_round i) \<noteq> (rv_repository env, rv_branch env, round_name)
             then act_raise (ValueError ''Frozen round belongs to another competition source'')
             else act_return (Some i)))"

text \<open>The comparison at the end of \<^verbatim>\<open>_pin\<close>.\<close>

definition same_inputs :: "'w rounds_env \<Rightarrow> round_inputs \<Rightarrow> round_inputs snapshot option \<Rightarrow> ('w, round_inputs) ro_action" where
  "same_inputs env inputs current =
     (case current of
        None \<Rightarrow> act_raise (StateConflict ''Frozen round inputs are unavailable'')
      | Some sn \<Rightarrow>
          act_bind (act_lift (valid_inputs (sn_data sn))) (\<lambda>i.
            if fingerprint_of env i \<noteq> fingerprint_of env inputs
            then act_raise (ValueError ''Published inputs changed for an existing round; publish a new round'')
            else act_return i))"

definition pin :: "'w rounds_env \<Rightarrow> round_inputs \<Rightarrow> ('w, round_inputs) ro_action" where
  "pin env inputs =
     (let key = pin_key env (ri_round inputs)
      in act_bind (ask (rv_load env key)) (\<lambda>current.
           case current of
             Some _ \<Rightarrow> same_inputs env inputs current
           | None \<Rightarrow>
               act_handle (ask (rv_save env key inputs None))
                 (\<lambda>e. case e of StateConflict _ \<Rightarrow> act_bind (ask (rv_load env key)) (same_inputs env inputs) | _ \<Rightarrow> act_raise e)
                 (\<lambda>_. act_return inputs)))"

definition resolve :: "'w rounds_env \<Rightarrow> string \<Rightarrow> int \<Rightarrow> ('w, round_inputs) ro_action" where
  "resolve env revision number =
     act_bind (read_doc env revision require_config) (\<lambda>config.
     act_bind (read_doc env revision (\<lambda>r. require_schedule r number)) (\<lambda>schedule.
     act_bind (read_doc env revision (\<lambda>r. require_seed r number)) (\<lambda>seed.
     act_bind (read_doc env revision (\<lambda>r. require_round_prompts r (Some number))) (\<lambda>urls.
       if \<not> (1 \<le> length urls \<and> int (length urls) \<le> 4096) then act_raise (ValueError ''Expected round prompts'')
       else
         act_bind (fetch_prompts env revision (witness_storage_prefix schedule) urls) (\<lambda>downloaded.
           let prompts = map fst downloaded
           in if \<not> distinct (map pi_id prompts) \<or> \<not> distinct (map pi_sha256 prompts)
              then act_raise (ValueError ''Round prompts must have distinct official IDs and image hashes'')
              else
                act_bind (act_lift (valid_inputs \<lparr>ri_repository = rv_repository env, ri_branch = rv_branch env, ri_revision = revision,
                  ri_round = cfg_name config @ ''-'' @ show_int number, ri_number = number, ri_seed = seed, ri_prompts = prompts,
                  ri_deadline = generation_deadline_block schedule, ri_storage_prefix = witness_storage_prefix schedule,
                  ri_save_submissions = witness_save_submissions schedule\<rparr>)) (\<lambda>inputs.
                act_bind (put_images env downloaded) (\<lambda>_. pin env inputs)))))))"

section \<open>Refreshing\<close>

definition set_policy :: "round_policy option \<Rightarrow> ('w, unit) ro_action" where
  "set_policy p = act_modify (\<lambda>s. s\<lparr>ro_policy := p\<rparr>)"

text \<open>A policy that the observed commit no longer supports is withdrawn before anything else is read.\<close>

definition withdraw :: "'w rounds_env \<Rightarrow> string \<Rightarrow> round_stage \<Rightarrow> ('w, unit) ro_action" where
  "withdraw env revision st =
     act_bind (act_get ro_policy) (\<lambda>policy.
       case policy of None \<Rightarrow> act_return ()
       | Some p \<Rightarrow>
           if revision \<noteq> po_revision p \<or> st \<noteq> MINER_GENERATION
           then act_bind (set_policy None) (\<lambda>_. case rv_on_close env of None \<Rightarrow> act_return () | Some m \<Rightarrow> ask m)
           else act_return ())"

definition resolved_inputs :: "'w rounds_env \<Rightarrow> string \<Rightarrow> int \<Rightarrow> ('w, round_inputs) ro_action" where
  "resolved_inputs env revision number =
     act_bind (act_get (\<lambda>s. dget (ro_resolved s) revision)) (\<lambda>known.
       case known of Some i \<Rightarrow> act_return i
       | None \<Rightarrow> act_bind (resolve env revision number) (\<lambda>i.
           act_bind (act_modify (\<lambda>s. s\<lparr>ro_resolved := [(revision, i)]\<rparr>)) (\<lambda>_. act_return i)))"

text \<open>The end of the lease: never after the estimated time of the deadline block.\<close>

definition lease :: "'w rounds_env \<Rightarrow> pyfloat \<Rightarrow> round_inputs \<Rightarrow> ('w, int option \<times> pyfloat) ro_action" where
  "lease env observed i =
     (case ri_deadline i of
        None \<Rightarrow> act_return (None, fadd observed (rv_ttl env))
      | Some deadline \<Rightarrow>
          act_bind (ask (rv_head env)) (\<lambda>(block, block_time).
            if \<not> fsub observed 60 \<le> block_time then act_raise (ValueError ''Stale generation block'')
            else act_bind (ask (rv_clock env)) (\<lambda>now.
              if \<not> block_time \<le> fadd now 5 then act_raise (ValueError ''Stale generation block'')
              else act_return (Some block, min (fadd observed (rv_ttl env)) (fadd block_time (of_int ((deadline - block) * 12)))))))"

definition make_policy :: "'w rounds_env \<Rightarrow> string \<Rightarrow> string \<Rightarrow> round_inputs option \<Rightarrow> round_stage \<Rightarrow> pyfloat \<Rightarrow> int option \<Rightarrow> pyfloat \<Rightarrow>
    round_policy result" where
  "make_policy env revision round_name inputs st observed block expires =
     (if \<not> revision_ok revision then Inl (ValidationError ''RoundPolicy'')
      else Inr \<lparr>po_repository = rv_repository env, po_branch = rv_branch env, po_revision = revision, po_round = round_name,
        po_inputs_sha = map_option (fingerprint_of env) inputs, po_stage = stage_value st, po_observed = observed,
        po_expires = expires, po_state_expires = Some (fadd observed (rv_ttl env)), po_block = block,
        po_deadline = (case inputs of None \<Rightarrow> None | Some i \<Rightarrow> ri_deadline i)\<rparr>)"

text \<open>All that a policy is made of: the stage and the round of the commit, the inputs, the block and the lease.\<close>

definition policy_parts :: "'w rounds_env \<Rightarrow> pyfloat \<Rightarrow> string \<Rightarrow>
    ('w, round_stage \<times> string \<times> round_inputs option \<times> int option \<times> pyfloat) ro_action" where
  "policy_parts env observed revision =
     act_bind (read_doc env revision require_state) (\<lambda>st.
     act_bind (read_doc env revision require_config) (\<lambda>config.
       let round_name = cfg_name config @ ''-'' @ show_int (current_round st); expires = fadd observed (rv_ttl env)
       in
         act_bind (withdraw env revision (stage st)) (\<lambda>_.
         act_bind (act_get ro_inputs) (\<lambda>held.
           if stage st = MINER_GENERATION
           then act_bind (resolved_inputs env revision (current_round st)) (\<lambda>i.
             act_bind (lease env observed i) (\<lambda>(block, until). act_return (stage st, round_name, Some i, block, until)))
           else if (case held of None \<Rightarrow> True | Some i \<Rightarrow> ri_round i \<noteq> round_name)
           then act_bind (retained env round_name) (\<lambda>kept.
             act_return (stage st, round_name, if kept \<noteq> None then kept else held, None, expires))
           else act_return (stage st, round_name, held, None, expires)))))"

definition observe :: "'w rounds_env \<Rightarrow> pyfloat \<Rightarrow> string \<Rightarrow> ('w, unit) ro_action" where
  "observe env observed revision =
     act_bind (policy_parts env observed revision) (\<lambda>(st, round_name, inputs, block, expires).
     act_bind (act_lift (make_policy env revision round_name inputs st observed block expires)) (\<lambda>policy.
       act_modify (\<lambda>s. s\<lparr>ro_inputs := inputs, ro_policy := Some policy\<rparr>)))"

definition refresh :: "'w rounds_env \<Rightarrow> ('w, unit) ro_action" where
  "refresh env =
     act_bind (ask (rv_clock env)) (\<lambda>observed.
     act_bind (ask (rv_ref env (rv_branch env))) (\<lambda>revision.
     act_handle (observe env observed revision)
       (\<lambda>e. act_bind (act_get ro_policy) (\<lambda>policy.
          act_bind (if (case policy of None \<Rightarrow> False | Some p \<Rightarrow> revision \<noteq> po_revision p) then set_policy None else act_return ())
            (\<lambda>_. act_raise e)))
       act_return))"

section \<open>Images\<close>

text \<open>\<^verbatim>\<open>RoundImages.put\<close> over \<^verbatim>\<open>save\<close> and \<^verbatim>\<open>read\<close> of the store, and the body of \<^verbatim>\<open>download_image\<close> from its chunks.\<close>

definition put_image :: "(string \<Rightarrow> ('w, string option) action) \<Rightarrow> (string \<Rightarrow> string \<Rightarrow> string option \<Rightarrow> ('w, string snapshot) action) \<Rightarrow>
    string \<Rightarrow> string \<Rightarrow> ('w, unit) action" where
  "put_image read save key bytes =
     act_handle (save key bytes None)
       (\<lambda>e. case e of
          StateConflict _ \<Rightarrow> act_bind (read key) (\<lambda>found.
            if found \<noteq> Some bytes then act_raise (ValueError ''Stored prompt bytes differ'') else act_return ())
        | _ \<Rightarrow> act_raise e)
       (\<lambda>_. act_return ())"

fun download_body :: "string \<Rightarrow> string list \<Rightarrow> string result" where
  "download_body body [] = Inr body"
| "download_body body (chunk # chunks) =
     (if max_image < int (length (body @ chunk)) then Inl (ValueError ''Prompt image exceeds its size limit'')
      else download_body (body @ chunk) chunks)"

section \<open>Pins\<close>

text \<open>What other gateways may do to the pins: each only ever creates an object.\<close>

definition pin_step :: "(string \<Rightarrow> (string \<times> round_inputs) option) \<Rightarrow> (string \<Rightarrow> (string \<times> round_inputs) option) \<Rightarrow> bool" where
  "pin_step o1 o2 = (\<exists>k d. put_applied o1 o2 k d None)"

lemma pin_step_keeps: "pin_step\<^sup>*\<^sup>* o1 o2 \<Longrightarrow> o1 k = Some x \<Longrightarrow> o2 k = Some x"
  by (induction rule: rtranclp_induct) (auto simp: pin_step_def put_applied_def)

lemma ask_result: "ask m s = (r, s') \<Longrightarrow> \<exists>w. m (ro_world s) = (r, w) \<and> s' = s\<lparr>ro_world := w\<rparr>"
  by (auto simp: ask_def split: prod.splits)

lemma same_inputs_result:
  assumes "same_inputs env i found s = (Inr a, s')"
  shows "s' = s \<and> (\<exists>sn. found = Some sn \<and> sn_data sn = a \<and> fingerprint_of env a = fingerprint_of env i)"
  using assms
  by (auto simp: same_inputs_def act_bind_Inr act_simps valid_inputs_def split: option.splits if_splits)

lemma loaded_then_same:
  assumes "cas_store obj (rv_load env) (rv_save env)"
    "act_bind (ask (rv_load env k)) (same_inputs env i) s = (Inr a, s')"
  shows "(\<exists>t. obj (ro_world s') k = Some (t, a)) \<and> fingerprint_of env a = fingerprint_of env i"
proof -
  from assms(2) obtain found s1 where l: "ask (rv_load env k) s = (Inr found, s1)" "same_inputs env i found s1 = (Inr a, s')"
    by (auto simp: act_bind_Inr)
  from ask_result [OF l(1)] obtain w where w: "rv_load env k (ro_world s) = (Inr found, w)" "s1 = s\<lparr>ro_world := w\<rparr>" by blast
  from same_inputs_result [OF l(2)] obtain sn where "found = Some sn" "sn_data sn = a" "s' = s1"
    "fingerprint_of env a = fingerprint_of env i" by blast
  with w cas_store.load_frame [OF assms(1) w(1)] cas_store.load_found [OF assms(1) w(1)] show ?thesis by simp
qed

lemma pin_returns_stored:
  assumes "cas_store obj (rv_load env) (rv_save env)" "pin env i s = (Inr a, s')"
  shows "(\<exists>t. obj (ro_world s') (pin_key env (ri_round i)) = Some (t, a)) \<and> fingerprint_of env a = fingerprint_of env i"
proof -
  let ?k = "pin_key env (ri_round i)"
  from assms(2) obtain found s1 where l: "ask (rv_load env ?k) s = (Inr found, s1)"
    "(case found of Some _ \<Rightarrow> same_inputs env i found
      | None \<Rightarrow> act_handle (ask (rv_save env ?k i None))
          (\<lambda>e. case e of StateConflict _ \<Rightarrow> act_bind (ask (rv_load env ?k)) (same_inputs env i) | _ \<Rightarrow> act_raise e)
          (\<lambda>_. act_return i)) s1 = (Inr a, s')"
    by (auto simp: pin_def Let_def act_bind_Inr)
  show ?thesis
  proof (cases found)
    case (Some sn)
    with l have "act_bind (ask (rv_load env ?k)) (same_inputs env i) s = (Inr a, s')" by (simp add: act_bind_def)
    from loaded_then_same [OF assms(1) this] show ?thesis .
  next
    case None
    obtain q s2 where q: "ask (rv_save env ?k i None) s1 = (q, s2)" by force
    show ?thesis
    proof (cases q)
      case (Inr sn)
      with l None q have "a = i" "s' = s2" by (auto simp: act_handle_def act_simps)
      with ask_result [OF q] Inr cas_store.save_done [OF assms(1)] show ?thesis by fastforce
    next
      case (Inl e)
      with l None q have "act_bind (ask (rv_load env ?k)) (same_inputs env i) s2 = (Inr a, s')"
        by (cases e) (auto simp: act_handle_def act_simps)
      from loaded_then_same [OF assms(1) this] show ?thesis .
    qed
  qed
qed

lemma same_inputs_state: "same_inputs env i found s = (r, s') \<Longrightarrow> s' = s"
  by (auto simp: same_inputs_def act_bind_def act_simps split: option.splits sum.splits if_splits)

lemma pin_of_pinned:
  assumes "cas_store obj (rv_load env) (rv_save env)" "pin env i s = (r, s')"
    "obj (ro_world s) (pin_key env (ri_round i)) \<noteq> None"
  shows "obj (ro_world s') = obj (ro_world s)"
proof -
  let ?k = "pin_key env (ri_round i)"
  obtain q s1 where q: "ask (rv_load env ?k) s = (q, s1)" by force
  from ask_result [OF q] obtain w where w: "rv_load env ?k (ro_world s) = (q, w)" "s1 = s\<lparr>ro_world := w\<rparr>" by blast
  note f = cas_store.load_frame [OF assms(1) w(1)]
  show ?thesis
  proof (cases q)
    case (Inl e)
    with assms(2) q w f show ?thesis by (auto simp: pin_def Let_def act_bind_def)
  next
    case (Inr found)
    with cas_store.load_found [OF assms(1), of ?k "ro_world s" found w] w assms(3) obtain sn where "found = Some sn" by auto
    with assms(2) q Inr have "same_inputs env i found s1 = (r, s')" by (simp add: pin_def Let_def act_bind_def)
    with same_inputs_state w(2) f show ?thesis by fastforce
  qed
qed

text \<open>
  C31: The inputs of a round are frozen by whoever publishes them first: over a store with the contract, two
  gateways that pin inputs for the same round, at any times and with any pins of others between, either
  fail or go on with the very same inputs, the stored ones, and these have the fingerprint of what each
  of them had resolved.
\<close>

theorem pinned_inputs_agree:
  assumes "cas_store obj (rv_load env) (rv_save env)" "ri_round i = ri_round j"
    "pin env i s1 = (Inr a, s1')" "pin_step\<^sup>*\<^sup>* (obj (ro_world s1')) (obj (ro_world s2'))" "pin env j s2 = (Inr b, s2')"
  shows "a = b \<and> fingerprint_of env a = fingerprint_of env i \<and> fingerprint_of env b = fingerprint_of env j"
proof -
  from pin_returns_stored [OF assms(1,3)] obtain t where
    a: "obj (ro_world s1') (pin_key env (ri_round i)) = Some (t, a)" "fingerprint_of env a = fingerprint_of env i" by blast
  from pin_step_keeps [OF assms(4) a(1)] pin_returns_stored [OF assms(1,5)] assms(2) a(2) show ?thesis by auto
qed

section \<open>Leases\<close>

text \<open>
  The lease of a policy for generation: it speaks of the inputs held, and when they have a deadline the
  head of the chain was read and the lease ends before the estimated time of the deadline block.
\<close>

definition leased :: "'w rounds_env \<Rightarrow> round_inputs option \<Rightarrow> round_policy \<Rightarrow> bool" where
  "leased env inputs p = (\<exists>i. inputs = Some i \<and> po_inputs_sha p = Some (fingerprint_of env i) \<and> po_deadline p = ri_deadline i \<and>
     (\<forall>d. ri_deadline i = Some d \<longrightarrow> (\<exists>b t w w'. rv_head env w = (Inr (b, t), w') \<and> po_block p = Some b \<and>
        fsub (po_observed p) 60 \<le> t \<and> po_expires p \<le> fadd t (of_int ((d - b) * 12)))))"

definition policy_of :: "'w rounds_env \<Rightarrow> pyfloat \<Rightarrow> string \<Rightarrow> round_inputs option \<Rightarrow> round_policy \<Rightarrow> bool" where
  "policy_of env t revision inputs p = (po_revision p = revision \<and> po_observed p = t \<and> po_expires p \<le> fadd t (rv_ttl env) \<and>
     (\<exists>r st w w'. rv_repo env revision w = (Inr r, w') \<and> require_state r = Inr st \<and> po_stage p = stage_value (stage st) \<and>
        (stage st = MINER_GENERATION \<longrightarrow> leased env inputs p)))"

text \<open>What is not the last step changes neither inputs nor policy, but for withdrawing it.\<close>

definition keeps_policy :: "'w rounds \<Rightarrow> 'w rounds \<Rightarrow> bool" where
  "keeps_policy s0 s = (ro_policy s \<in> {ro_policy s0, None} \<and> ro_inputs s = ro_inputs s0)"

lemma keeps_ask [keeps_intros]: "keeps (keeps_policy s0) (ask m)"
  by (auto simp: keeps_def ask_def keeps_policy_def split: prod.split)

lemma keeps_read [keeps_intros]: "keeps (keeps_policy s0) (read_doc env rv f)"
  unfolding read_doc_def by (intro keeps_intros)

lemma keeps_handle [keeps_intros]:
  assumes "keeps P m" "\<And>e. keeps P (f e)" "\<And>x. keeps P (g x)"
  shows "keeps P (act_handle m f g)"
  unfolding keeps_def
proof (intro allI impI)
  fix s
  assume s: "P s"
  obtain q s1 where q: "m s = (q, s1)" by force
  from keepsD [OF assms(1) s q] have "P s1" .
  with q assms(2,3) show "P (snd (act_handle m f g s))" by (cases q) (auto simp: act_handle_def keeps_def)
qed

lemma keeps_fetch: "keeps (keeps_policy s0) (fetch_prompts env rv storage vs)"
  by (induction vs) (auto simp: fetch_prompt_def intro!: keeps_intros)

lemma keeps_put: "keeps (keeps_policy s0) (put_images env xs)"
  by (induction xs) (auto intro!: keeps_intros)

lemma keeps_pin: "keeps (keeps_policy s0) (pin env i)"
  unfolding pin_def Let_def same_inputs_def
  by (auto intro!: keeps_intros split: option.split exn.split)

lemma keeps_resolved: "keeps (keeps_policy s0) (resolved_inputs env rv n)"
  unfolding resolved_inputs_def resolve_def Let_def
  by (auto intro!: keeps_intros keeps_fetch keeps_put keeps_pin simp: keeps_policy_def split: option.split)

lemma keeps_parts: "keeps (keeps_policy s0) (policy_parts env t rv)"
  unfolding policy_parts_def Let_def withdraw_def lease_def retained_def set_policy_def
  by (auto intro!: keeps_intros keeps_resolved simp: keeps_policy_def split: option.split prod.split)

lemma lease_spec:
  assumes "lease env t i s = (Inr (block, until), s')"
  shows "until \<le> fadd t (rv_ttl env) \<and> (\<forall>d. ri_deadline i = Some d \<longrightarrow> (\<exists>b bt w w'. rv_head env w = (Inr (b, bt), w') \<and>
    block = Some b \<and> fsub t 60 \<le> bt \<and> until \<le> fadd bt (of_int ((d - b) * 12))))"
  using assms
  by (auto simp: lease_def act_bind_Inr act_simps dest!: ask_result split: option.splits prod.splits if_splits)
     (blast intro: min.cobounded2)

lemma observe_done:
  assumes "observe env t rv s = (Inr u, s')"
  shows "\<exists>p. ro_policy s' = Some p \<and> policy_of env t rv (ro_inputs s') p"
proof -
  from assms obtain st round_name inputs block until s1 p where
    parts: "policy_parts env t rv s = (Inr (st, round_name, inputs, block, until), s1)"
    and p: "make_policy env rv round_name inputs st t block until = Inr p" "s' = s1\<lparr>ro_inputs := inputs, ro_policy := Some p\<rparr>"
    by (auto simp: observe_def act_bind_Inr act_simps)
  from p(1) have pv: "po_revision p = rv" "po_observed p = t" "po_stage p = stage_value st" "po_block p = block" "po_expires p = until"
    "po_inputs_sha p = map_option (fingerprint_of env) inputs" "po_deadline p = (case inputs of None \<Rightarrow> None | Some i \<Rightarrow> ri_deadline i)"
    by (auto simp: make_policy_def split: if_splits)
  from parts obtain c s0 s2 where c: "read_doc env rv require_state s = (Inr c, s0)" "stage c = st"
    and rest: "st = MINER_GENERATION \<and> (\<exists>i s3 s4. inputs = Some i \<and> lease env t i s3 = (Inr (block, until), s4)) \<or>
      st \<noteq> MINER_GENERATION \<and> until = fadd t (rv_ttl env)"
    by (fastforce simp: policy_parts_def Let_def act_bind_Inr act_simps split: if_splits prod.splits option.splits)
  from c(1) obtain r w w' where "rv_repo env rv w = (Inr r, w')" "require_state r = Inr c"
    by (auto simp: read_doc_def act_bind_Inr act_simps dest!: ask_result)
  moreover have "until \<le> fadd t (rv_ttl env)" using rest lease_spec by fastforce
  moreover have "leased env inputs p" if "st = MINER_GENERATION"
  proof -
    from rest that obtain i s3 s4 where "inputs = Some i" "lease env t i s3 = (Inr (block, until), s4)" by auto
    with lease_spec pv show ?thesis by (fastforce simp: leased_def)
  qed
  ultimately show ?thesis using pv c(2) p(2) by (auto simp: policy_of_def)
qed

lemma observe_failed:
  assumes "observe env t rv s = (Inl e, s')"
  shows "keeps_policy s s'"
proof -
  obtain q s1 where q: "policy_parts env t rv s = (q, s1)" by force
  have "keeps_policy s s1" using keepsD [OF keeps_parts _ q, of s] by (simp add: keeps_policy_def)
  with assms q show ?thesis
    by (cases q) (auto simp: observe_def act_bind_def act_simps split: prod.splits sum.splits)
qed

text \<open>
  A refresh never leaves a policy of another commit than the one the branch was seen at, even when
  reading the new one fails; when it returns, the policy is of the stage published there, its lease is
  at most the configured time from the observation, and for the generation stage it is bound to the
  inputs held and ends before the estimated time of the deadline block.
\<close>

theorem refresh_follows_branch:
  assumes "rv_clock env (ro_world s) = (Inr t, w1)" "rv_ref env (rv_branch env) w1 = (Inr rv, w2)" "refresh env s = (r, s')"
  shows "(\<forall>p. ro_policy s' = Some p \<longrightarrow> po_revision p = rv) \<and>
    (is_ok r \<longrightarrow> (\<exists>p. ro_policy s' = Some p \<and> policy_of env t rv (ro_inputs s') p))"
proof -
  let ?s2 = "s\<lparr>ro_world := w2\<rparr>"
  obtain q s3 where q: "observe env t rv ?s2 = (q, s3)" by force
  show ?thesis
  proof (cases q)
    case (Inr u)
    with assms q have "s' = s3" "r = Inr u" by (auto simp: refresh_def act_bind_def ask_def act_handle_def act_simps)
    with observe_done [OF q [unfolded Inr]] show ?thesis by (auto simp: policy_of_def)
  next
    case (Inl e)
    with assms q have "r = Inl e" "s' = (if (case ro_policy s3 of None \<Rightarrow> False | Some p \<Rightarrow> rv \<noteq> po_revision p) then s3\<lparr>ro_policy := None\<rparr> else s3)"
      by (auto simp: refresh_def act_bind_def ask_def act_handle_def act_simps set_policy_def split: option.splits if_splits)
    then show ?thesis by (auto split: option.splits if_splits)
  qed
qed

section \<open>Admission to generate\<close>

text \<open>The states of a controller: it starts empty, is refreshed, and the world goes on.\<close>

inductive ro_reach :: "'w rounds_env \<Rightarrow> 'w rounds \<Rightarrow> bool" for env where
  start: "ro_reach env \<lparr>ro_world = w, ro_inputs = None, ro_policy = None, ro_resolved = []\<rparr>"
| refreshed: "ro_reach env s \<Longrightarrow> ro_reach env (snd (refresh env s))"
| world: "ro_reach env s \<Longrightarrow> ro_reach env (s\<lparr>ro_world := w\<rparr>)"

lemma policy_kept:
  assumes "refresh env s = (r, s')"
  shows "keeps_policy s s' \<or> (\<exists>p t rv. ro_policy s' = Some p \<and> policy_of env t rv (ro_inputs s') p)"
proof -
  from assms consider (early) "keeps_policy s s'"
    | (late) t w1 rv w2 where "rv_clock env (ro_world s) = (Inr t, w1)" "rv_ref env (rv_branch env) w1 = (Inr rv, w2)"
    by (fastforce simp: refresh_def act_bind_def ask_def keeps_policy_def split: prod.splits sum.splits)
  then show ?thesis
  proof cases
    case late
    let ?s2 = "s\<lparr>ro_world := w2\<rparr>"
    obtain q s3 where q: "observe env t rv ?s2 = (q, s3)" by force
    show ?thesis
    proof (cases q)
      case (Inr u)
      with assms late q have "s' = s3" by (auto simp: refresh_def act_bind_def ask_def act_handle_def act_simps)
      with observe_done [OF q [unfolded Inr]] show ?thesis by blast
    next
      case (Inl e)
      from observe_failed [OF q [unfolded Inl]] have "keeps_policy s s3" by (simp add: keeps_policy_def)
      with assms late q Inl show ?thesis
        by (auto simp: refresh_def act_bind_def ask_def act_handle_def act_simps set_policy_def keeps_policy_def split: option.splits if_splits)
    qed
  qed blast
qed

lemma reach_policy:
  assumes "ro_reach env s" "ro_policy s = Some p"
  shows "\<exists>t rv. policy_of env t rv (ro_inputs s) p"
  using assms
proof (induction arbitrary: p rule: ro_reach.induct)
  case (refreshed s)
  obtain r s' where r: "refresh env s = (r, s')" by force
  from policy_kept [OF r] refreshed r show ?case by (auto simp: keeps_policy_def)
qed auto

lemma require_spec:
  assumes "policy_require hash p i now True = Inr ()"
  shows "now < po_expires p" "po_stage p = stage_value MINER_GENERATION" "po_inputs_sha p = Some (inputs_print hash i)"
    "po_round p = ri_round i" "po_deadline p = ri_deadline i"
    "\<And>d. ri_deadline i = Some d \<Longrightarrow> \<exists>b. po_block p = Some b \<and> b < d"
  using assms by (auto simp: policy_require_def Let_def split: if_splits option.splits)

text \<open>
  Whenever a controller admits somebody to generate, a commit it read says that the round is in its
  generation stage, the lease taken then, at most the configured time, has not ended, and for a round
  with a deadline block the head of the chain was before it and neither has its estimated time come.
\<close>

theorem generation_within_lease:
  assumes "ro_reach env s" "controller_require env True s = (Inr i, s')"
  shows "\<exists>p now r st w w' w1 w2. ro_policy s = Some p \<and> rv_clock env (ro_world s) = (Inr now, w') \<and>
    rv_repo env (po_revision p) w1 = (Inr r, w2) \<and> require_state r = Inr st \<and> stage st = MINER_GENERATION \<and>
    ri_round i = po_round p \<and> now < fadd (po_observed p) (rv_ttl env) \<and>
    (\<forall>d. ri_deadline i = Some d \<longrightarrow> (\<exists>b t. rv_head env w = (Inr (b, t), snd (rv_head env w)) \<and> b < d \<and>
       now < fadd t (of_int ((d - b) * 12))))"
proof -
  from assms(2) obtain p now w' where s: "ro_inputs s = Some i" "ro_policy s = Some p" "rv_clock env (ro_world s) = (Inr now, w')"
    and rq: "policy_require (rv_hash env) p i now True = Inr ()"
    by (auto simp: controller_require_def act_bind_Inr act_simps dest!: ask_result split: option.splits)
  note q = require_spec [OF rq]
  from reach_policy [OF assms(1) s(2)] obtain t rv where pol: "policy_of env t rv (Some i) p" using s(1) by auto
  then obtain r st w1 w2 where r: "rv_repo env (po_revision p) w1 = (Inr r, w2)" "require_state r = Inr st"
    "po_stage p = stage_value (stage st)" "stage st = MINER_GENERATION \<Longrightarrow> leased env (Some i) p"
    "po_expires p \<le> fadd (po_observed p) (rv_ttl env)" by (auto simp: policy_of_def)
  from r(3) q(2) have st: "stage st = MINER_GENERATION" using stage_value_inj by metis
  with r(4) have l: "leased env (Some i) p" by blast
  have "\<exists>w. \<forall>d. ri_deadline i = Some d \<longrightarrow> (\<exists>b t. rv_head env w = (Inr (b, t), snd (rv_head env w)) \<and> b < d \<and>
       now < fadd t (of_int ((d - b) * 12)))"
  proof (cases "ri_deadline i")
    case (Some d)
    with l obtain b t w w'' where h: "rv_head env w = (Inr (b, t), w'')" "po_block p = Some b"
      "po_expires p \<le> fadd t (of_int ((d - b) * 12))" by (auto simp: leased_def)
    from q(6) [OF Some] h(2) have "b < d" by auto
    with h q(1) Some show ?thesis by (intro exI [of _ w]) auto
  qed auto
  with s r st q(1,4) show ?thesis by fastforce
qed

section \<open>Examples\<close>

definition example_repo :: repo where
  "example_repo = \<lparr>rp_state = Some \<lparr>current_round = 4, stage = MINER_GENERATION, next_stage_eta = None\<rparr>,
     rp_config = Some \<lparr>cfg_name = ''cup'', first_evaluation_date = 0, last_competition_date = 9, round_start_time = 0,
       generation_stage_minutes = 1, finalization_buffer_hours = 1, win_margin = 0, prompts_per_round = 1, carryover_prompts = 0,
       round_duration_days = 1\<rparr>,
     rp_leaders = None, rp_pool = None,
     rp_rounds = [(4, \<lparr>rd_schedule = Some \<lparr>earliest_reveal_block = 1, latest_reveal_block = 2, generation_deadline_block = Some 10,
         witness_storage_prefix = ''w/'', witness_save_submissions = True\<rparr>,
       rd_seed = Some 7, rd_prompts = Some [''chair.png''], rd_submissions = None, rd_generations = [], rd_winner = None\<rparr>)]\<rparr>"

definition example_rounds_env :: "round_inputs bucket rounds_env" where
  "example_rounds_env = \<lparr>rv_repository = ''404-repo/competition'', rv_branch = ''main'', rv_ttl = 30, rv_clock = act_return 100,
     rv_ref = (\<lambda>_. act_return (replicate 40 (CHR ''a''))), rv_repo = (\<lambda>_. act_return example_repo),
     rv_download = (\<lambda>_. act_return ''png''), rv_head = act_return (9, 99), rv_put = (\<lambda>_ _ _. act_return ()), rv_on_close = None,
     rv_load = r2_load bucket_s3 9, rv_save = r2_save bucket_s3 9,
     rv_urlsplit = (\<lambda>v. Inr \<lparr>up_scheme = [], up_netloc = [], up_hostname = None, up_username = None, up_path = v, up_fragment = []\<rparr>),
     rv_unquote = (\<lambda>v. v), rv_picture = (\<lambda>_. Inr ''image/png''), rv_sha = (\<lambda>_. replicate 64 (CHR ''0'')), rv_hash = (\<lambda>_. ''h'')\<rparr>"

definition example_rounds :: "round_inputs bucket rounds" where
  "example_rounds = \<lparr>ro_world = \<lparr>bk_objects = Map.empty, bk_writes = 0, bk_lost = []\<rparr>, ro_inputs = None, ro_policy = None, ro_resolved = []\<rparr>"

lemma example_refresh:
  "rmap ri_round (fst (controller_require example_rounds_env True (snd (refresh example_rounds_env example_rounds)))) = Inr ''cup-4''"
  by code_simp

theorem refresh_follows_branch_witness:
  "\<exists>r s' p. refresh example_rounds_env example_rounds = (r, s') \<and> ro_policy s' = Some p \<and> po_revision p = replicate 40 (CHR ''a'')"
proof -
  obtain r s' where r: "refresh example_rounds_env example_rounds = (r, s')" by force
  have "ro_policy (snd (refresh example_rounds_env example_rounds)) \<noteq> None" by code_simp
  then obtain p where p: "ro_policy s' = Some p" using r by auto
  have c: "rv_clock example_rounds_env (ro_world example_rounds) = (Inr 100, ro_world example_rounds)"
    "rv_ref example_rounds_env (rv_branch example_rounds_env) (ro_world example_rounds) = (Inr (replicate 40 (CHR ''a'')), ro_world example_rounds)"
    by (simp_all add: example_rounds_env_def act_simps)
  from refresh_follows_branch [OF c r] p r show ?thesis by blast
qed

theorem generation_within_lease_witness:
  "\<exists>p. ro_policy (snd (refresh example_rounds_env example_rounds)) = Some p \<and> (100::rat) < fadd (po_observed p) 30"
proof -
  let ?s = "snd (refresh example_rounds_env example_rounds)"
  have reach: "ro_reach example_rounds_env ?s"
    unfolding example_rounds_def by (intro ro_reach.intros)
  obtain i s' where c: "controller_require example_rounds_env True ?s = (Inr i, s')"
    using example_refresh by (cases "controller_require example_rounds_env True ?s"; cases "fst (controller_require example_rounds_env True ?s)") auto
  from generation_within_lease [OF reach c] obtain p now w' where "ro_policy ?s = Some p"
    "rv_clock example_rounds_env (ro_world ?s) = (Inr now, w')" "now < fadd (po_observed p) (rv_ttl example_rounds_env)" by blast
  then show ?thesis by (auto simp: example_rounds_env_def act_simps)
qed

definition example_inputs :: "string \<Rightarrow> round_inputs" where
  "example_inputs revision = \<lparr>ri_repository = ''404-repo/competition'', ri_branch = ''main'', ri_revision = revision, ri_round = ''cup-4'',
     ri_number = 4, ri_seed = 7, ri_prompts = [\<lparr>pi_id = ''chair'', pi_source_url = ''u'', pi_sha256 = replicate 64 (CHR ''0''),
       pi_image_key = image_key ''w/'' (replicate 64 (CHR ''0''))\<rparr>], ri_deadline = Some 10, ri_storage_prefix = ''w/'',
     ri_save_submissions = True\<rparr>"

text \<open>Two gateways pin the round from two commits.\<close>

theorem pinned_inputs_agree_witness:
  "let pinned = pin example_rounds_env (example_inputs (replicate 40 (CHR ''a''))) example_rounds;
       again = pin example_rounds_env (example_inputs (replicate 40 (CHR ''b''))) (snd pinned)
   in fst again = fst pinned \<and> is_ok (fst pinned)"
proof -
  let ?i = "example_inputs (replicate 40 (CHR ''a''))" and ?j = "example_inputs (replicate 40 (CHR ''b''))"
  obtain p s1 where p: "pin example_rounds_env ?i example_rounds = (p, s1)" by force
  obtain q s2 where q: "pin example_rounds_env ?j s1 = (q, s2)" by force
  have ok: "is_ok (fst (pin example_rounds_env ?i example_rounds))"
    "is_ok (fst (pin example_rounds_env ?j (snd (pin example_rounds_env ?i example_rounds))))" by code_simp+
  then obtain a b where ab: "p = Inr a" "q = Inr b" using p q by (auto simp: is_ok_iff)
  have c: "cas_store bk_objects (rv_load example_rounds_env) (rv_save example_rounds_env)"
    using bucket.r2.cas_store_axioms by (simp add: example_rounds_env_def)
  have key: "bk_objects (ro_world s1) (pin_key example_rounds_env ''cup-4'') \<noteq> None"
    using pin_returns_stored [OF c p [unfolded ab]] by (auto simp: example_inputs_def)
  have "bk_objects (ro_world s2) = bk_objects (ro_world s1)"
    using pin_of_pinned [OF c q] key by (simp add: example_inputs_def)
  then have "pin_step\<^sup>*\<^sup>* (bk_objects (ro_world s1)) (bk_objects (ro_world s2))" by simp
  from pinned_inputs_agree [OF c _ p [unfolded ab] this q [unfolded ab]] p q ab show ?thesis
    by (simp add: example_inputs_def)
qed

end
