(* ===== verification/Membership.thy ===== *)
theory Membership
  imports RunPod "HOL-Library.List_Lexorder" "HOL-Library.Char_ord"
begin

text \<open>
  The registrations of the subnet as the gateway sees them, \<^verbatim>\<open>pod_gateway/membership.py\<close>: the reading of the
  chain's storage over RPC, the snapshot of the registered hotkeys and the check of a hotkey against it.
  The RPC endpoint, xxHash, the address format, \<^verbatim>\<open>int(s, 16)\<close> and the clock are parameters. A snapshot is a
  JSON object; printing and parsing it back is the identity.
\<close>

section \<open>Bytes\<close>

definition hex_pair :: "nat \<Rightarrow> string" where
  "hex_pair n = map (\<lambda>d. hex_digits ! d) [n div 16, n mod 16]"

text \<open>\<^verbatim>\<open>value.to_bytes(n, "little").hex()\<close>\<close>

fun le_hex :: "nat \<Rightarrow> nat \<Rightarrow> string" where
  "le_hex 0 v = []"
| "le_hex (Suc n) v = hex_pair (v mod 256) @ le_hex n (v div 256)"

definition hex_value :: "char \<Rightarrow> nat" where
  "hex_value c = length (takeWhile (\<lambda>d. d \<noteq> c) hex_digits)"

text \<open>\<^verbatim>\<open>int.from_bytes(bytes.fromhex(s), "little")\<close>\<close>

fun le_value :: "string \<Rightarrow> nat" where
  "le_value (a # b # cs) = 16 * hex_value a + hex_value b + 256 * le_value cs"
| "le_value _ = 0"

definition hex_string :: "nat \<Rightarrow> string \<Rightarrow> bool" where
  "hex_string n s = (take 2 s = ''0x'' \<and> length s = 2 + n \<and> list_all (in_chars hex_digits) (drop 2 s))"

section \<open>The snapshot\<close>

record 'w membership =
  mb_world :: 'w
  mb_snapshot :: "(string, json) dict option"

record rpc_answer =
  ra_status :: int
  ra_size :: int
  ra_json :: "json option"

record 'w membership_env =
  me_netuid :: nat
  me_test_hotkey :: "string option"
  me_admitted :: "string list option"
  me_time_ms :: "('w, int) action"
  me_time_ns :: "('w, int) action"
  me_post :: "string \<Rightarrow> json list \<Rightarrow> ('w, rpc_answer) action"
  me_xxh :: "nat \<Rightarrow> string \<Rightarrow> nat"
  me_int16 :: "string \<Rightarrow> int result"
  me_ss58 :: "string \<Rightarrow> string result"

type_synonym ('w, 'a) mb_action = "('w membership, 'a) action"

definition query :: "('w, 'a) action \<Rightarrow> ('w, 'a) mb_action" where
  "query m s = (case m (mb_world s) of (r, w) \<Rightarrow> (r, s\<lparr>mb_world := w\<rparr>))"

definition new_membership :: "'w membership_env \<Rightarrow> string \<Rightarrow> 'w \<Rightarrow> 'w membership result" where
  "new_membership env round_number w =
     (if \<not> me_netuid env \<le> 65535 \<or> (me_test_hotkey env \<noteq> None \<and> round_number \<notin> {''test-0'', ''test-1'', ''test-2''})
      then Inl (ValueError ''Invalid membership configuration'')
      else Inr \<lparr>mb_world = w, mb_snapshot = None\<rparr>)"

definition new_refresher :: "string \<Rightarrow> unit result" where
  "new_refresher rpc_url = (if take 8 rpc_url \<noteq> ''https://'' then Inl (ValueError ''Subtensor RPC must use HTTPS'') else Inr ())"

text \<open>A JSON value that Python's \<^verbatim>\<open>==\<close> takes for an integer, and one whose type is \<^verbatim>\<open>int\<close>.\<close>

definition equals_int :: "json option \<Rightarrow> int \<Rightarrow> bool" where
  "equals_int v i = (case v of Some (JInt k) \<Rightarrow> k = i | Some (JFloat q) \<Rightarrow> q = of_int i | Some (JBool b) \<Rightarrow> i = of_bool b | _ \<Rightarrow> False)"

definition the_int :: "json option \<Rightarrow> int option" where
  "the_int v = (case v of Some (JInt i) \<Rightarrow> Some i | _ \<Rightarrow> None)"

definition unavailable :: exn where "unavailable = AuthRejected ''membership_unavailable'' 503"

definition snapshot_ok :: "'w membership_env \<Rightarrow> int \<Rightarrow> (string, json) dict \<Rightarrow> bool" where
  "snapshot_ok env now v =
     (equals_int (dget v ''version'') 1 \<and> dget v ''network'' = Some (JStr ''finney'') \<and>
      equals_int (dget v ''netuid'') (int (me_netuid env)) \<and>
      (case the_int (dget v ''block'') of None \<Rightarrow> False | Some b \<Rightarrow> 0 \<le> b) \<and>
      (case dget v ''hotkeys'' of Some (JList ks) \<Rightarrow> int (length ks) \<le> 4096 | _ \<Rightarrow> False) \<and>
      list_all (\<lambda>k. case the_int (dget v k) of None \<Rightarrow> False
         | Some t \<Rightarrow> now - 48 * 3600000 \<le> t \<and> t \<le> now + 30000) [''fetched_at'', ''block_time''])"

definition require_member :: "'w membership_env \<Rightarrow> string \<Rightarrow> ('w, unit) mb_action" where
  "require_member env hotkey =
     (if (case me_admitted env of None \<Rightarrow> False | Some ks \<Rightarrow> hotkey \<notin> set ks)
      then act_raise (AuthRejected ''hotkey_not_admitted'' 403)
      else
        act_bind (act_get mb_snapshot) (\<lambda>snapshot.
          case snapshot of None \<Rightarrow> act_raise unavailable
          | Some v \<Rightarrow>
              act_bind (query (me_time_ms env)) (\<lambda>now.
                if \<not> snapshot_ok env now v then act_raise unavailable
                else if me_test_hotkey env \<noteq> Some hotkey \<and>
                  (case dget v ''hotkeys'' of Some (JList ks) \<Rightarrow> JStr hotkey \<notin> set ks | _ \<Rightarrow> True)
                then act_raise (AuthRejected ''hotkey_not_registered'' 403)
                else act_return ())))"

section \<open>Reading the chain\<close>

definition FINNEY_GENESIS :: string where
  "FINNEY_GENESIS = ''0x2f0555cc76fc2840a25a6ea3b9637146806f1f44b090c175ffde2a7e5ab36c03''"

definition twox :: "'w membership_env \<Rightarrow> string \<Rightarrow> string" where
  "twox env v = concat (map (\<lambda>i. le_hex 8 (me_xxh env i v)) [0, 1])"

definition storage_key :: "'w membership_env \<Rightarrow> string \<Rightarrow> string \<Rightarrow> string" where
  "storage_key env pallet name = ''0x'' @ twox env pallet @ twox env name"

definition rpc_result :: "rpc_answer \<Rightarrow> json result" where
  "rpc_result a =
     (if ra_status a \<noteq> 200 \<or> 1024 * 1024 < ra_size a then Inl (ValueError ''Chain RPC unavailable'')
      else case ra_json a of None \<Rightarrow> Inl (ValueError ''json'')
      | Some j \<Rightarrow> rbind (object_dict j) (\<lambda>v.
          if \<not> equals_int (dget v ''id'') 1 \<or> dget v ''jsonrpc'' \<noteq> Some (JStr ''2.0'') \<or> dhas v ''error''
          then Inl (ValueError ''Invalid chain RPC reply'')
          else some_or (dget v ''result'') KeyError))"

definition rpc :: "'w membership_env \<Rightarrow> string \<Rightarrow> json list \<Rightarrow> ('w, json) mb_action" where
  "rpc env m params = act_bind (query (me_post env m params)) (\<lambda>a. act_lift (rpc_result a))"

text \<open>The entries of a storage reply, each of a key that was asked for, none twice.\<close>

fun read_entries :: "string list \<Rightarrow> json list \<Rightarrow> (string, string) dict \<Rightarrow> (string, string) dict result" where
  "read_entries keys [] values = Inr values"
| "read_entries keys (item # items) values =
     (case item of
        JList [JStr k, v] \<Rightarrow>
          if k \<notin> set keys \<or> dhas values k then Inl (ValueError ''Invalid membership storage entry'')
          else rbind (json_string (Some (JStr k))) (\<lambda>k. rbind (json_string (Some v)) (\<lambda>x. read_entries keys items (dset k x values)))
      | _ \<Rightarrow> Inl (ValueError ''Invalid membership storage entry''))"

definition storage_values :: "string list \<Rightarrow> string \<Rightarrow> json \<Rightarrow> string list result" where
  "storage_values keys block result =
     (case result of
        JList [r] \<Rightarrow>
          rbind (object_dict r) (\<lambda>row.
            case dget row ''changes'' of
              Some (JList changes) \<Rightarrow>
                if dget row ''block'' \<noteq> Some (JStr block) \<or> length changes \<noteq> length keys
                then Inl (ValueError ''Incomplete membership snapshot'')
                else rbind (read_entries keys changes []) (\<lambda>values. rmapM (\<lambda>k. some_or (dget values k) KeyError) keys)
            | _ \<Rightarrow> Inl (ValueError ''Incomplete membership snapshot''))
      | _ \<Rightarrow> Inl (ValueError ''Invalid storage reply''))"

definition storage :: "'w membership_env \<Rightarrow> string list \<Rightarrow> string \<Rightarrow> ('w, string list) mb_action" where
  "storage env keys block =
     act_bind (rpc env ''state_queryStorageAt'' [JList (map JStr keys), JStr block]) (\<lambda>r. act_lift (storage_values keys block r))"

definition check_finney :: "'w membership_env \<Rightarrow> ('w, unit) mb_action" where
  "check_finney env = act_bind (rpc env ''chain_getBlockHash'' [JInt 0]) (\<lambda>g.
     if g \<noteq> JStr FINNEY_GENESIS then act_raise (ValueError ''RPC is not Finney'') else act_return ())"

text \<open>The hash of a block, and the number in its header.\<close>

definition block_hash :: "'w membership_env \<Rightarrow> string \<Rightarrow> string \<Rightarrow> ('w, string) mb_action" where
  "block_hash env m message = act_bind (rpc env m []) (\<lambda>r. act_bind (act_lift (json_string (Some r))) (\<lambda>b.
     if \<not> hex_string 64 b then act_raise (ValueError message) else act_return b))"

definition block_height :: "'w membership_env \<Rightarrow> string \<Rightarrow> ('w, string) mb_action" where
  "block_height env b = act_bind (rpc env ''chain_getHeader'' [JStr b]) (\<lambda>r. act_lift (rbind (object_dict r) (\<lambda>h. json_string (dget h ''number''))))"

definition generation_head :: "'w membership_env \<Rightarrow> ('w, int \<times> pyfloat) mb_action" where
  "generation_head env =
     act_bind (check_finney env) (\<lambda>_.
     act_bind (block_hash env ''chain_getBlockHash'' ''Invalid generation block'') (\<lambda>b.
     act_bind (block_height env b) (\<lambda>height.
     act_bind (storage env [storage_key env ''Timestamp'' ''Now''] b) (\<lambda>vs.
       if \<not> hex_string 16 (hd vs) \<or> \<not> (take 2 height = ''0x'' \<and> 2 < length height \<and> list_all (in_chars hex_digits) (drop 2 height))
       then act_raise (ValueError ''Invalid generation block timestamp'')
       else act_bind (act_lift (me_int16 env height)) (\<lambda>n. act_return (n, int_div (int (le_value (drop 2 (hd vs)))) 1000))))))"

section \<open>Refreshing\<close>

text \<open>The ranges of \<^verbatim>\<open>range(0, size, 256)\<close>, and the keys of one.\<close>

function uid_ranges :: "nat \<Rightarrow> nat \<Rightarrow> nat list list" where
  "uid_ranges from size' = (if size' \<le> from then [] else [from..<min (from + 256) size'] # uid_ranges (from + 256) size')"
  by auto
termination by (relation "measure (\<lambda>(from, size'). size' - from)") auto

declare uid_ranges.simps [simp del]

definition netuid_hex :: "'w membership_env \<Rightarrow> string" where
  "netuid_hex env = le_hex 2 (me_netuid env)"

definition uid_key :: "'w membership_env \<Rightarrow> nat \<Rightarrow> string" where
  "uid_key env uid = storage_key env ''SubtensorModule'' ''Keys'' @ netuid_hex env @ le_hex 2 uid"

definition hotkey_of :: "'w membership_env \<Rightarrow> string \<Rightarrow> string result" where
  "hotkey_of env v = (if \<not> hex_string 64 v then Inl (ValueError ''Invalid registered public key'') else me_ss58 env (drop 2 v))"

fun read_hotkeys :: "'w membership_env \<Rightarrow> string \<Rightarrow> nat list list \<Rightarrow> ('w, string list) mb_action" where
  "read_hotkeys env block [] = act_return []"
| "read_hotkeys env block (uids # rest) =
     act_bind (storage env (map (uid_key env) uids) block) (\<lambda>vs.
     act_bind (act_lift (rmapM (hotkey_of env) vs)) (\<lambda>ks.
     act_bind (read_hotkeys env block rest) (\<lambda>ks'. act_return (ks @ ks'))))"

definition snapshot_of :: "'w membership_env \<Rightarrow> int \<Rightarrow> string \<Rightarrow> int \<Rightarrow> int \<Rightarrow> string list \<Rightarrow> int \<Rightarrow> (string, json) dict" where
  "snapshot_of env height block block_time now hotkeys ns =
     [(''version'', JInt 1), (''network'', JStr ''finney''), (''netuid'', JInt (int (me_netuid env))), (''block'', JInt height),
      (''block_hash'', JStr block), (''block_time'', JInt block_time), (''fetched_at'', JInt now),
      (''hotkeys'', JList (map JStr (sort hotkeys))), (''revision'', JStr (show_int ns))]"

text \<open>The time of a block and the number of registrations at it, checked against the clock.\<close>

definition read_counters :: "'w membership_env \<Rightarrow> string \<Rightarrow> ('w, int \<times> nat \<times> int) mb_action" where
  "read_counters env b =
     act_bind (storage env [storage_key env ''Timestamp'' ''Now'', storage_key env ''SubtensorModule'' ''SubnetworkN'' @ netuid_hex env] b) (\<lambda>vs.
       case vs of
         [stamp, cnt] \<Rightarrow>
           if \<not> hex_string 16 stamp \<or> \<not> hex_string 4 cnt then act_raise (ValueError ''Invalid membership counters'')
           else
             act_bind (query (me_time_ms env)) (\<lambda>now.
               let block_time = int (le_value (drop 2 stamp)); n = le_value (drop 2 cnt)
               in if \<not> (now - 300000 \<le> block_time \<and> block_time \<le> now + 30000) \<or> 4096 < int n
                  then act_raise (ValueError ''Stale finalized membership'')
                  else act_return (block_time, n, now))
       | _ \<Rightarrow> act_raise (ValueError ''unpack''))"

definition read_members :: "'w membership_env \<Rightarrow> ('w, (string, json) dict) mb_action" where
  "read_members env =
     act_bind (check_finney env) (\<lambda>_.
     act_bind (block_hash env ''chain_getFinalizedHead'' ''Invalid finalized block'') (\<lambda>b.
     act_bind (block_height env b) (\<lambda>height.
     act_bind (read_counters env b) (\<lambda>(block_time, n, now).
     act_bind (read_hotkeys env b (uid_ranges 0 n)) (\<lambda>hotkeys.
       if card (set hotkeys) \<noteq> n then act_raise (ValueError ''Duplicate registered hotkeys'')
       else
         act_bind (act_lift (me_int16 env height)) (\<lambda>h.
         act_bind (query (me_time_ns env)) (\<lambda>ns.
           act_return (snapshot_of env h b block_time now hotkeys ns))))))))"

definition refresh_members :: "'w membership_env \<Rightarrow> ('w, unit) mb_action" where
  "refresh_members env = act_bind (read_members env) (\<lambda>v. act_modify (\<lambda>s. s\<lparr>mb_snapshot := Some v\<rparr>))"

section \<open>What a snapshot says\<close>

lemma query_result: "query m s = (r, s') \<Longrightarrow> \<exists>w. m (mb_world s) = (r, w) \<and> s' = s\<lparr>mb_world := w\<rparr>"
  by (auto simp: query_def split: prod.splits)

text \<open>A node that tells the storage of the chain: every change in a reply is the value of its key at the block.\<close>

definition truthful :: "'w membership_env \<Rightarrow> (string \<Rightarrow> string \<Rightarrow> string) \<Rightarrow> bool" where
  "truthful env chain = (\<forall>keys b w a w' row changes k v.
     me_post env ''state_queryStorageAt'' [JList (map JStr keys), JStr b] w = (Inr a, w') \<and>
     rpc_result a = Inr (JList [JObj row]) \<and> dget row ''changes'' = Some (JList changes) \<and> JList [JStr k, JStr v] \<in> set changes
     \<longrightarrow> v = chain b k)"

lemma read_entries_mem:
  "read_entries keys items vs = Inr vals \<Longrightarrow> dget vals k = Some v \<Longrightarrow>
     dget vs k = Some v \<or> JList [JStr k, JStr v] \<in> set items"
proof (induction items arbitrary: vs)
  case (Cons item items)
  from Cons.prems(1) obtain k' v' where i: "item = JList [JStr k', JStr v']"
    "read_entries keys items (dset k' v' vs) = Inr vals"
    by (auto simp: rbind_eq_Inr json_string_def split: json.splits list.splits if_splits)
  from Cons.IH [OF i(2) Cons.prems(2)] i(1) show ?case by (auto split: if_splits)
qed simp

lemma rmapM_Inr: "rmapM f xs = Inr ys \<Longrightarrow> list_all2 (\<lambda>x y. f x = Inr y) xs ys"
  by (induction xs arbitrary: ys) (auto split: sum.splits)

lemma list_all2_map: "list_all2 (\<lambda>x y. y = g x) xs ys \<Longrightarrow> ys = map g xs"
  by (induction rule: list_all2_induct) auto

lemma storage_values_from:
  assumes "storage_values keys b j = Inr vs"
    "\<And>row cs k v. j = JList [JObj row] \<Longrightarrow> dget row ''changes'' = Some (JList cs) \<Longrightarrow> JList [JStr k, JStr v] \<in> set cs \<Longrightarrow> v = f k"
  shows "vs = map f keys"
proof -
  from assms(1) obtain row cs vals where r: "j = JList [JObj row]" "dget row ''changes'' = Some (JList cs)"
    "read_entries keys cs [] = Inr vals" "rmapM (\<lambda>k. some_or (dget vals k) KeyError) keys = Inr vs"
    by (auto simp: storage_values_def object_dict_def rbind_eq_Inr split: json.splits list.splits option.splits if_splits)
  have "v = f k" if "some_or (dget vals k) KeyError = Inr v" for k v
    using read_entries_mem [OF r(3), of k v] that assms(2) [OF r(1,2)] by simp
  with rmapM_Inr [OF r(4)] have "list_all2 (\<lambda>k v. v = f k) keys vs" by (auto elim: list_all2_mono)
  then show ?thesis by (rule list_all2_map)
qed

lemma storage_truthful:
  assumes "truthful env chain" "storage env keys b s = (Inr vs, s')"
  shows "vs = map (chain b) keys"
proof -
  from assms(2) obtain j s1 where j: "rpc env ''state_queryStorageAt'' [JList (map JStr keys), JStr b] s = (Inr j, s1)"
    "storage_values keys b j = Inr vs" by (auto simp: storage_def act_bind_Inr act_simps)
  from j(1) obtain a w where a: "me_post env ''state_queryStorageAt'' [JList (map JStr keys), JStr b] (mb_world s) = (Inr a, w)"
    "rpc_result a = Inr j" by (auto simp: rpc_def act_bind_Inr act_simps dest!: query_result)
  from assms(1) a show ?thesis unfolding truthful_def by (intro storage_values_from [OF j(2)]) blast
qed

text \<open>Only the last step of a refresh touches the snapshot.\<close>

definition same_snapshot :: "'w membership \<Rightarrow> 'w membership \<Rightarrow> bool" where
  "same_snapshot s0 s = (mb_snapshot s = mb_snapshot s0)"

lemma keeps_query [keeps_intros]: "keeps (same_snapshot s0) (query m)"
  by (auto simp: keeps_def query_def same_snapshot_def split: prod.split)

lemma keeps_rpc [keeps_intros]: "keeps (same_snapshot s0) (rpc env m ps)"
  unfolding rpc_def by (intro keeps_intros)

lemma keeps_storage [keeps_intros]: "keeps (same_snapshot s0) (storage env ks b)"
  unfolding storage_def by (intro keeps_intros)

lemma keeps_counters [keeps_intros]: "keeps (same_snapshot s0) (read_counters env b)"
  unfolding read_counters_def Let_def by (auto intro!: keeps_intros split: list.split)

lemma keeps_hotkeys [keeps_intros]: "keeps (same_snapshot s0) (read_hotkeys env b us)"
  by (induction us) (auto intro!: keeps_intros)

lemma keeps_blocks [keeps_intros]: "keeps (same_snapshot s0) (check_finney env)" "keeps (same_snapshot s0) (block_hash env m t)"
  "keeps (same_snapshot s0) (block_height env b)"
  unfolding check_finney_def block_hash_def block_height_def by (intro keeps_intros)+

lemma keeps_members: "keeps (same_snapshot s0) (read_members env)"
  unfolding read_members_def by (auto intro!: keeps_intros split: prod.split)

lemma refresh_failed:
  assumes "refresh_members env s = (Inl e, s')"
  shows "mb_snapshot s' = mb_snapshot s"
proof -
  obtain q s1 where q: "read_members env s = (q, s1)" by force
  have "same_snapshot s s1" using keepsD [OF keeps_members _ q] by (simp add: same_snapshot_def)
  with assms q show ?thesis by (cases q) (auto simp: refresh_members_def act_bind_def act_simps same_snapshot_def)
qed

section \<open>Reading every registration\<close>

lemma upt_split: "i \<le> j \<Longrightarrow> j \<le> k \<Longrightarrow> [i..<j] @ [j..<k] = [i..<k]"
  by (metis le_add_diff_inverse upt_add_eq_append)

lemma uid_ranges_concat: "concat (uid_ranges from n) = [from..<n]"
proof (induction "from" n rule: uid_ranges.induct)
  case (1 a n)
  show ?case
  proof (cases "n \<le> a")
    case False
    then have "[a..<min (a + 256) n] @ [a + 256..<n] = [a..<n]"
      by (cases "n \<le> a + 256") (auto simp: min_def upt_split)
    with False 1 show ?thesis by (subst uid_ranges.simps) simp
  qed (simp add: uid_ranges.simps)
qed

lemma read_hotkeys_truthful:
  assumes "truthful env chain" "read_hotkeys env b us s = (Inr ks, s')"
  shows "list_all2 (\<lambda>uid k. hotkey_of env (chain b (uid_key env uid)) = Inr k) (concat us) ks"
  using assms(2)
proof (induction us arbitrary: s ks)
  case Nil
  then show ?case by (simp add: act_simps)
next
  case (Cons u us)
  from Cons.prems obtain vs ks1 ks2 s1 where r: "storage env (map (uid_key env) u) b s = (Inr vs, s1)"
    "rmapM (hotkey_of env) vs = Inr ks1" "read_hotkeys env b us s1 = (Inr ks2, s')" "ks = ks1 @ ks2"
    by (auto simp: act_bind_Inr act_simps)
  from storage_truthful [OF assms(1) r(1)] have "vs = map (\<lambda>uid. chain b (uid_key env uid)) u" by simp
  with rmapM_Inr [OF r(2)] have "list_all2 (\<lambda>uid k. hotkey_of env (chain b (uid_key env uid)) = Inr k) u ks1"
    by (simp add: list_all2_map1)
  with Cons.IH [OF r(3)] r(4) show ?case by (simp add: list_all2_appendI)
qed

text \<open>The number of registrations at a block, and who is enrolled there.\<close>

definition registrations :: "'w membership_env \<Rightarrow> (string \<Rightarrow> string \<Rightarrow> string) \<Rightarrow> string \<Rightarrow> nat" where
  "registrations env chain b = le_value (drop 2 (chain b (storage_key env ''SubtensorModule'' ''SubnetworkN'' @ netuid_hex env)))"

definition enrolled :: "'w membership_env \<Rightarrow> (string \<Rightarrow> string \<Rightarrow> string) \<Rightarrow> string \<Rightarrow> string \<Rightarrow> bool" where
  "enrolled env chain b h = list_ex (\<lambda>uid. hotkey_of env (chain b (uid_key env uid)) = Inr h) [0..<registrations env chain b]"

lemma read_counters_spec:
  assumes "read_counters env b s = (Inr (bt, n, now), s')"
  shows "\<exists>st cnt s1. storage env [storage_key env ''Timestamp'' ''Now'', storage_key env ''SubtensorModule'' ''SubnetworkN'' @ netuid_hex env] b s
      = (Inr [st, cnt], s1) \<and> n = le_value (drop 2 cnt) \<and> now - 300000 \<le> bt \<and> bt \<le> now + 30000 \<and> n \<le> 4096"
proof -
  from assms obtain vs s1 where vs: "storage env [storage_key env ''Timestamp'' ''Now'', storage_key env ''SubtensorModule'' ''SubnetworkN'' @ netuid_hex env] b s
      = (Inr vs, s1)" by (auto simp: read_counters_def act_bind_Inr)
  with assms obtain st cnt where v: "vs = [st, cnt]"
    by (auto simp: read_counters_def act_bind_def act_simps split: list.splits)
  from assms vs show ?thesis
    by (auto simp: v read_counters_def Let_def act_bind_def act_simps split: if_splits prod.splits sum.splits)
qed

lemma read_members_truthful:
  assumes "truthful env chain" "read_members env s = (Inr v, s')"
  shows "\<exists>h b bt now ks ns. v = snapshot_of env h b bt now ks ns \<and> distinct ks \<and> length ks = registrations env chain b \<and>
    int (length ks) \<le> 4096 \<and> now - 300000 \<le> bt \<and> bt \<le> now + 30000 \<and> (\<forall>h. h \<in> set ks \<longleftrightarrow> enrolled env chain b h)"
proof -
  from assms(2) obtain b s1 s2 bt n now ks s3 h ns where
    c: "read_counters env b s1 = (Inr (bt, n, now), s2)" and k: "read_hotkeys env b (uid_ranges 0 n) s2 = (Inr ks, s3)" and
    d: "card (set ks) = n" and v: "v = snapshot_of env h b bt now ks ns"
    by (auto simp: read_members_def act_bind_Inr act_simps split: if_splits prod.splits)
  from read_counters_spec [OF c] obtain st cnt s4 where
    vs: "storage env [storage_key env ''Timestamp'' ''Now'', storage_key env ''SubtensorModule'' ''SubnetworkN'' @ netuid_hex env] b s1
      = (Inr [st, cnt], s4)" and n: "n = le_value (drop 2 cnt)"
    and t: "now - 300000 \<le> bt" "bt \<le> now + 30000" "int n \<le> 4096" by fastforce
  have n: "n = registrations env chain b"
    using n storage_truthful [OF assms(1) vs] by (simp add: registrations_def)
  from read_hotkeys_truthful [OF assms(1) k] have
    l: "list_all2 (\<lambda>uid k. hotkey_of env (chain b (uid_key env uid)) = Inr k) [0..<n] ks" by (simp add: uid_ranges_concat)
  then have len: "length ks = n" by (auto dest: list_all2_lengthD)
  with d have "distinct ks" by (simp add: card_distinct)
  moreover have "h \<in> set ks \<longleftrightarrow> enrolled env chain b h" for h
  proof -
    from l len have "\<forall>i<n. hotkey_of env (chain b (uid_key env i)) = Inr (ks ! i)" by (simp add: list_all2_conv_all_nth)
    with len show ?thesis by (auto simp: enrolled_def list_ex_iff n in_set_conv_nth)
  qed
  ultimately show ?thesis using v t n len
    by (intro exI [of _ h] exI [of _ b] exI [of _ bt] exI [of _ now] exI [of _ ks] exI [of _ ns]) simp
qed

text \<open>
  C32: Who is let in is who is registered: against a node that tells the chain, a failed refresh leaves the
  snapshot as it was, and after a completed one a hotkey passes exactly when it is on the admission list, if
  there is one, the snapshot is at most 48 hours old by the clock of the check, and it is registered at
  the block of the snapshot (or is the hotkey of a test round).
\<close>

theorem members_are_registered:
  assumes "truthful env chain" "refresh_members env s = (r, s1)" "mb_snapshot s2 = mb_snapshot s1"
    "me_time_ms env (mb_world s2) = (Inr now, w)"
  shows "case r of
     Inl e \<Rightarrow> mb_snapshot s1 = mb_snapshot s
   | Inr _ \<Rightarrow> \<exists>v height b bt fetched. mb_snapshot s1 = Some v \<and> dget v ''block'' = Some (JInt height) \<and> dget v ''block_hash'' = Some (JStr b) \<and>
       dget v ''block_time'' = Some (JInt bt) \<and> dget v ''fetched_at'' = Some (JInt fetched) \<and>
       fetched - 300000 \<le> bt \<and> bt \<le> fetched + 30000 \<and> registrations env chain b \<le> 4096 \<and>
       (fst (require_member env h s2) = Inr () \<longleftrightarrow>
          (case me_admitted env of None \<Rightarrow> True | Some ks \<Rightarrow> h \<in> set ks) \<and> 0 \<le> height \<and>
          now - 48 * 3600000 \<le> min fetched bt \<and> max fetched bt \<le> now + 30000 \<and>
          (me_test_hotkey env = Some h \<or> enrolled env chain b h))"
proof (cases r)
  case (Inl e)
  with assms(2) refresh_failed show ?thesis by auto
next
  case (Inr u)
  from assms(2) [unfolded Inr] obtain v s0 where v: "read_members env s = (Inr v, s0)" "s1 = s0\<lparr>mb_snapshot := Some v\<rparr>"
    by (auto simp: refresh_members_def act_bind_Inr act_simps)
  from read_members_truthful [OF assms(1) v(1)] obtain ht b bt fetched ks ns where
    k: "v = snapshot_of env ht b bt fetched ks ns" "length ks = registrations env chain b" "int (length ks) \<le> 4096"
    "fetched - 300000 \<le> bt" "bt \<le> fetched + 30000" "\<forall>h. h \<in> set ks \<longleftrightarrow> enrolled env chain b h" by blast
  from v(2) assms(3) have s2: "mb_snapshot s2 = Some v" by simp
  have q: "query (me_time_ms env) s2 = (Inr now, s2\<lparr>mb_world := w\<rparr>)" by (simp add: query_def assms(4))
  have m: "(\<exists>x\<in>set ks. h = x) \<longleftrightarrow> enrolled env chain b h" using k(6) by auto
  have "fst (require_member env h s2) = Inr () \<longleftrightarrow>
      (case me_admitted env of None \<Rightarrow> True | Some ks \<Rightarrow> h \<in> set ks) \<and> 0 \<le> ht \<and>
      now - 48 * 3600000 \<le> min fetched bt \<and> max fetched bt \<le> now + 30000 \<and> (me_test_hotkey env = Some h \<or> enrolled env chain b h)"
    using k(3) m
    by (auto simp: require_member_def act_bind_def act_simps s2 q snapshot_ok_def equals_int_def the_int_def k(1) snapshot_of_def
        image_iff split: option.split)
  moreover have "dget v ''block'' = Some (JInt ht)" "dget v ''block_hash'' = Some (JStr b)" "dget v ''block_time'' = Some (JInt bt)"
    "dget v ''fetched_at'' = Some (JInt fetched)" by (simp_all add: k(1) snapshot_of_def)
  moreover have "mb_snapshot s1 = Some v" using v(2) by simp
  ultimately show ?thesis using Inr k(2-5) by fastforce
qed

section \<open>Examples\<close>

text \<open>A chain with two registrations, at a node that answers at once.\<close>

definition example_chain :: "string \<Rightarrow> string \<Rightarrow> string" where
  "example_chain b k = (if length k = 66 then ''0x0000000000000000'' else if length k = 70 then ''0x0200''
     else ''0x'' @ replicate 60 (CHR ''0'') @ drop (length k - 4) k)"

definition example_reply :: "string \<Rightarrow> json list \<Rightarrow> json" where
  "example_reply m ps = (case ps of
     [JList ks, JStr b] \<Rightarrow> JList [JObj [(''block'', JStr b),
       (''changes'', JList (map (\<lambda>k. case k of JStr x \<Rightarrow> JList [k, JStr (example_chain b x)] | _ \<Rightarrow> JNull) ks))]]
   | [JInt i] \<Rightarrow> JStr FINNEY_GENESIS
   | [] \<Rightarrow> JStr (''0x'' @ replicate 64 (CHR ''b''))
   | _ \<Rightarrow> JObj [(''number'', JStr ''0x5'')])"

definition example_membership_env :: "unit membership_env" where
  "example_membership_env = \<lparr>me_netuid = 1, me_test_hotkey = None, me_admitted = None, me_time_ms = act_return 7, me_time_ns = act_return 9,
     me_post = (\<lambda>m ps. act_return \<lparr>ra_status = 200, ra_size = 100,
       ra_json = Some (JObj [(''id'', JInt 1), (''jsonrpc'', JStr ''2.0''), (''result'', example_reply m ps)])\<rparr>),
     me_xxh = (\<lambda>i v. length v), me_int16 = (\<lambda>_. Inr 5), me_ss58 = Inr\<rparr>"

definition example_membership :: "unit membership" where
  "example_membership = \<lparr>mb_world = (), mb_snapshot = None\<rparr>"

lemma example_truthful: "truthful example_membership_env example_chain"
  by (auto simp: truthful_def example_membership_env_def act_simps rpc_result_def object_dict_def equals_int_def dhas_def
      example_reply_def rbind_eq_Inr)

definition example_key :: "nat \<Rightarrow> string" where
  "example_key i = replicate 60 (CHR ''0'') @ le_hex 2 i"

lemma example_members:
  "case refresh_members example_membership_env example_membership of (r, s1) \<Rightarrow>
     r = Inr () \<and> fst (require_member example_membership_env (example_key 1) s1) = Inr () \<and>
     fst (require_member example_membership_env (example_key 2) s1) = Inl (AuthRejected ''hotkey_not_registered'' 403)"
  by code_simp

theorem members_are_registered_witness:
  "\<exists>s1 b. refresh_members example_membership_env example_membership = (Inr (), s1) \<and>
     enrolled example_membership_env example_chain b (example_key 1) \<and>
     \<not> enrolled example_membership_env example_chain b (example_key 2)"
proof -
  let ?e = example_membership_env
  obtain r s1 where r: "refresh_members ?e example_membership = (r, s1)" by force
  have clock: "me_time_ms ?e (mb_world s1) = (Inr 7, mb_world s1)" by (simp add: example_membership_env_def act_simps)
  note m = members_are_registered [OF example_truthful r refl clock]
  from example_members r have e: "r = Inr ()" "fst (require_member ?e (example_key 1) s1) = Inr ()"
    "fst (require_member ?e (example_key 2) s1) \<noteq> Inr ()" by auto
  have t: "me_test_hotkey ?e = None" by (simp add: example_membership_env_def)
  from m [of "example_key 1"] e(1,2) t obtain v b where v: "mb_snapshot s1 = Some v" "dget v ''block_hash'' = Some (JStr b)"
    "enrolled ?e example_chain b (example_key 1)"
    "0 \<le> (case dget v ''block'' of Some (JInt i) \<Rightarrow> i | _ \<Rightarrow> - 1)"
    "(7 :: int) - 48 * 3600000 \<le> min (case dget v ''fetched_at'' of Some (JInt i) \<Rightarrow> i | _ \<Rightarrow> - 1) (case dget v ''block_time'' of Some (JInt i) \<Rightarrow> i | _ \<Rightarrow> - 1)"
    "max (case dget v ''fetched_at'' of Some (JInt i) \<Rightarrow> i | _ \<Rightarrow> - 1) (case dget v ''block_time'' of Some (JInt i) \<Rightarrow> i | _ \<Rightarrow> - 1) \<le> (7 :: int) + 30000"
    by auto
  from m [of "example_key 2"] e(1,3) t v have "\<not> enrolled ?e example_chain b (example_key 2)"
    by (auto simp: example_membership_env_def)
  with r e(1) v(3) show ?thesis by blast
qed

end
