(* ===== verification/Relay.thy ===== *)
theory Relay
  imports Auth RunPod
begin

text \<open>
  The capture of one exchange, \<^verbatim>\<open>relay\<close> of \<^verbatim>\<open>witness_pod/worker.py\<close>: TLS between a miner and the model provider
  passes through the witness, which holds the request back until a verified authorization is durable and
  hands the answer to the miner only when its evidence is. The provider's socket, the miner's channel, the
  verifier process, the object store, the spool's disk, JSON and the clocks are parameters. The loops take
  fuel, since the clock decides when they end. The log is for the properties only; diagnostics are left out.
\<close>

section \<open>TLS records\<close>

text \<open>\<^verbatim>\<open>int.from_bytes(data, "big")\<close>\<close>

definition big_endian :: "string \<Rightarrow> nat" where
  "big_endian = foldl (\<lambda>n c. 256 * n + of_char c) 0"

definition record_size :: "string \<Rightarrow> nat" where
  "record_size s = 5 + big_endian (take 2 (drop 3 s))"

function complete_records :: "string \<Rightarrow> bool" where
  "complete_records s = (if s = [] then True else if length s < 5 then False
     else if length s < record_size s then False else complete_records (drop (record_size s) s))"
  by auto
termination by (relation "measure length") (auto simp: record_size_def)

declare complete_records.simps [simp del]

section \<open>State\<close>

datatype relay_event =
    FromMiner string
  | FromProvider string
  | ToMiner string
  | Released string
  | Wrote string string
  | Verified string
  | Stored string string
  | Reserved
  | Sealed
  | Finalized

type_synonym files = "(string, string) dict"

record 'w relay =
  rl_world :: 'w
  rl_client :: string
  rl_server :: string
  rl_files :: files
  rl_issued :: bool
  rl_log :: "relay_event list"

record ('w, 'k) relay_env =
  ve_fuel :: nat
  ve_auth :: "'k auth_env"
  ve_monotonic :: "('w, pyfloat) action"
  ve_time :: "('w, pyfloat) action"
  ve_connect :: "('w, unit) action"
  ve_close :: "('w, unit) action"
  ve_readable :: "pyfloat \<Rightarrow> ('w, bool) action"
  ve_recv :: "('w, string) action"
  ve_sendall :: "string \<Rightarrow> ('w, unit) action"
  ve_channel_recv :: "pyfloat \<Rightarrow> ('w, string) action"
  ve_channel_claim :: "string \<Rightarrow> ('w, string option) action"
  ve_channel_send :: "string \<Rightarrow> ('w, unit) action"
  ve_channel_notify :: "json \<Rightarrow> ('w, unit) action"
  ve_channel_finish :: "('w, unit) action"
  ve_write :: "string \<Rightarrow> string \<Rightarrow> ('w, unit) action"
  ve_verify :: "string \<Rightarrow> files \<Rightarrow> 'w \<Rightarrow> ((string, json) dict result \<times> files) \<times> 'w"
  ve_put :: "string \<Rightarrow> string \<Rightarrow> ('w, unit) action"
  ve_before_release :: "(string \<Rightarrow> ('w, pyfloat option) action) option"
  ve_extra :: "(string, json) dict option"
  ve_seal :: "((string, json) dict \<Rightarrow> ('w, (string, json) dict) action) option"
  ve_before_delivery :: "((string, json) dict \<Rightarrow> ('w, (string, json) dict) action) option"
  ve_observe_failure :: "(exn \<Rightarrow> ('w, unit) action) option"
  ve_json :: "string \<Rightarrow> json option"
  ve_dumps :: "json \<Rightarrow> string"
  ve_int :: "string \<Rightarrow> int result"

type_synonym ('w, 'a) rl_action = "('w relay, 'a) action"

definition ext :: "('w, 'a) action \<Rightarrow> ('w, 'a) rl_action" where
  "ext m s = (case m (rl_world s) of (r, w) \<Rightarrow> (r, s\<lparr>rl_world := w\<rparr>))"

definition record_event :: "relay_event \<Rightarrow> ('w, unit) rl_action" where
  "record_event e = act_modify (\<lambda>s. s\<lparr>rl_log := rl_log s @ [e]\<rparr>)"

definition receive_client :: "string \<Rightarrow> ('w, unit) rl_action" where
  "receive_client chunk = act_modify (\<lambda>s. s\<lparr>rl_client := rl_client s @ chunk, rl_log := rl_log s @ [FromMiner chunk]\<rparr>)"

definition receive_server :: "string \<Rightarrow> ('w, unit) rl_action" where
  "receive_server chunk = act_modify (\<lambda>s. s\<lparr>rl_server := rl_server s @ chunk, rl_log := rl_log s @ [FromProvider chunk]\<rparr>)"

text \<open>What may have reached the other side is logged before it is sent, what is durable when it is.\<close>

definition release :: "('w, 'k) relay_env \<Rightarrow> string \<Rightarrow> ('w, unit) rl_action" where
  "release env b = act_bind (record_event (Released b)) (\<lambda>_. ext (ve_sendall env b))"

definition deliver :: "('w, 'k) relay_env \<Rightarrow> string \<Rightarrow> ('w, unit) rl_action" where
  "deliver env b = act_bind (record_event (ToMiner b)) (\<lambda>_. ext (ve_channel_send env b))"

definition write_file :: "('w, 'k) relay_env \<Rightarrow> string \<Rightarrow> string \<Rightarrow> ('w, unit) rl_action" where
  "write_file env name b = act_bind (ext (ve_write env name b)) (\<lambda>_.
     act_modify (\<lambda>s. s\<lparr>rl_files := dset name b (rl_files s), rl_log := rl_log s @ [Wrote name b]\<rparr>))"

definition read_file :: "string \<Rightarrow> ('w, string) rl_action" where
  "read_file name = act_bind (act_get (\<lambda>s. dget (rl_files s) name)) (\<lambda>f. act_lift (some_or f (FileNotFoundError name)))"

definition put :: "('w, 'k) relay_env \<Rightarrow> string \<Rightarrow> string \<Rightarrow> ('w, unit) rl_action" where
  "put env key b = act_bind (ext (ve_put env key b)) (\<lambda>_. record_event (Stored key b))"

definition verifier :: "('w, 'k) relay_env \<Rightarrow> string \<Rightarrow> ('w, (string, json) dict) rl_action" where
  "verifier env mode s = (case ve_verify env mode (rl_files s) (rl_world s) of
     ((Inl e, files), w) \<Rightarrow> (Inl e, s\<lparr>rl_world := w, rl_files := files\<rparr>)
   | ((Inr v, files), w) \<Rightarrow> (Inr v, s\<lparr>rl_world := w, rl_files := files, rl_log := rl_log s @ [Verified mode]\<rparr>))"

text \<open>\<^verbatim>\<open>with suppress(OSError, WebSocketException)\<close>.\<close>

definition timeout_error :: exn where "timeout_error = PyException ''TimeoutError''"

definition is_os_error :: "exn \<Rightarrow> bool" where
  "is_os_error e = (case e of PyException n \<Rightarrow> n \<in> {''OSError'', ''TimeoutError'', ''ConnectionError''} | FileNotFoundError _ \<Rightarrow> True | _ \<Rightarrow> False)"

definition suppress :: "(exn \<Rightarrow> bool) \<Rightarrow> ('s, unit) action \<Rightarrow> ('s, unit) action" where
  "suppress p m = act_handle m (\<lambda>e. if p e then act_return () else act_raise e) act_return"

definition socket_error :: "exn \<Rightarrow> bool" where
  "socket_error e = (is_os_error e \<or> e = PyException ''WebSocketException'')"

section \<open>Identity\<close>

text \<open>\<^verbatim>\<open>miner_prefix\<close> of \<^verbatim>\<open>identity.py\<close>, and the two parts of \<^verbatim>\<open>prefix.rsplit("/", 1)\<close>.\<close>

definition miner_prefix :: "'k auth_env \<Rightarrow> string \<Rightarrow> string \<Rightarrow> string result" where
  "miner_prefix env round_number hotkey =
     (if \<not> slug_ok round_number then Inl (ValueError ''Round must be 1-64 lowercase letters, digits, or hyphens'')
      else (case keypair_from_hotkey env hotkey of
        Inl _ \<Rightarrow> Inl (ValueError ''Invalid miner hotkey'')
      | Inr _ \<Rightarrow> Inr (''rounds/'' @ round_number @ ''/'' @ hotkey)))"

definition path_parent :: "string \<Rightarrow> string" where
  "path_parent p = (case split_on (CHR ''/'') p of [x] \<Rightarrow> x | xs \<Rightarrow> join_with ''/'' (butlast xs))"

definition path_name :: "string \<Rightarrow> string result" where
  "path_name p = (case split_on (CHR ''/'') p of [x] \<Rightarrow> Inl IndexError | xs \<Rightarrow> Inr (last xs))"

section \<open>The ClientHello\<close>

definition MAX_BYTES :: int where "MAX_BYTES = 16 * 1024 * 1024"

definition whole_hello :: "string \<Rightarrow> bool" where
  "whole_hello client = (5 \<le> length client \<and> record_size client \<le> length client)"

fun read_hello :: "nat \<Rightarrow> ('w, 'k) relay_env \<Rightarrow> pyfloat \<Rightarrow> ('w, unit) rl_action" where
  "read_hello 0 env t = act_raise (PyException ''out of fuel'')"
| "read_hello (Suc n) env t =
     act_bind (act_get rl_client) (\<lambda>client.
       if whole_hello client then act_return ()
       else
         act_bind (ext (ve_monotonic env)) (\<lambda>now.
           if t \<le> now then act_raise timeout_error
           else
             act_bind (ext (ve_channel_recv env t)) (\<lambda>chunk.
               if chunk = [] then act_raise (ValueError ''Missing ClientHello'')
               else
                 act_bind (receive_client chunk) (\<lambda>_.
                   if 5 \<le> length (client @ chunk) \<and> 16645 < int (record_size (client @ chunk))
                   then act_raise (ValueError ''Oversized ClientHello'')
                   else read_hello n env t))))"

text \<open>\<^verbatim>\<open>int(str(gate["released"]))\<close>, and Python's slices from and to an integer.\<close>

definition gate_released :: "('w, 'k) relay_env \<Rightarrow> (string, json) dict \<Rightarrow> int result" where
  "gate_released env gate = (case dget gate ''released'' of
     None \<Rightarrow> Inl KeyError
   | Some (JInt i) \<Rightarrow> Inr i
   | Some (JStr s) \<Rightarrow> ve_int env s
   | Some _ \<Rightarrow> Inl (ValueError ''int''))"

definition slice_to :: "int \<Rightarrow> string \<Rightarrow> string" where
  "slice_to i s = (if 0 \<le> i then take (nat i) s else take (length s - nat (- i)) s)"

definition slice_from :: "int \<Rightarrow> string \<Rightarrow> string" where
  "slice_from i s = (if 0 \<le> i then drop (nat i) s else drop (length s - nat (- i)) s)"

definition release_hello :: "('w, 'k) relay_env \<Rightarrow> pyfloat \<Rightarrow> ('w, int) rl_action" where
  "release_hello env hello_deadline =
     act_bind (read_hello (ve_fuel env) env hello_deadline) (\<lambda>_.
     act_bind (act_get rl_client) (\<lambda>client.
     act_bind (write_file env ''client.bin'' client) (\<lambda>_.
     act_bind (verifier env ''hello'') (\<lambda>gate.
     act_bind (act_lift (gate_released env gate)) (\<lambda>released.
     act_bind (release env (slice_to released client)) (\<lambda>_. act_return released))))))"

section \<open>Handshake and authorization\<close>

definition provider_flight :: "('w, 'k) relay_env \<Rightarrow> ('w, unit) rl_action" where
  "provider_flight env =
     act_bind (ext (ve_readable env 0)) (\<lambda>ready.
       if \<not> ready then act_return ()
       else
         act_bind (ext (ve_recv env)) (\<lambda>chunk.
           if chunk = [] then act_raise (ValueError ''Provider closed before authorization'')
           else
             act_bind (receive_server chunk) (\<lambda>_.
             act_bind (act_get rl_server) (\<lambda>server.
               if 128 * 1024 < int (length server) then act_raise (ValueError ''Server handshake exceeds limit'')
               else deliver env chunk))))"

definition miner_message :: "('w, 'k) relay_env \<Rightarrow> pyfloat \<Rightarrow> ('w, unit) rl_action" where
  "miner_message env authorization_deadline =
     act_handle
       (act_bind (ext (ve_monotonic env)) (\<lambda>now.
        act_bind (ext (ve_channel_recv env (min authorization_deadline (fadd now (fl (1 / 20)))))) (\<lambda>chunk.
          if chunk = [] then act_raise (ValueError ''Miner left before authorization'')
          else
            act_bind (receive_client chunk) (\<lambda>_.
            act_bind (act_get rl_client) (\<lambda>client.
              if MAX_BYTES < int (length client) then act_raise (ValueError ''Client traffic exceeds limit'') else act_return ())))))
       (\<lambda>e. if e = timeout_error then act_return () else act_raise e)
       act_return"

definition claim_ready :: "('w, 'k) relay_env \<Rightarrow> string \<Rightarrow> string \<Rightarrow> string \<Rightarrow> bool \<Rightarrow> nat \<Rightarrow> bool result" where
  "claim_ready env raw client server handshake handshake_bytes =
     (case ve_json env raw of
        None \<Rightarrow> Inl (ValueError ''json'')
      | Some (JObj claim) \<Rightarrow>
          (case (case dget claim ''client_bytes'' of Some (JInt i) \<Rightarrow> Some i | Some (JBool b) \<Rightarrow> Some (of_bool b) | _ \<Rightarrow> None) of
             None \<Rightarrow> Inl (ValueError ''Invalid authorized request size'')
           | Some size' \<Rightarrow>
               if \<not> (0 < size' \<and> size' \<le> MAX_BYTES) \<or> size' < int (length client)
               then Inl (ValueError ''Invalid authorized request size'')
               else if int (length client) < size' then Inr False
               else if \<not> complete_records server then Inr False
               else Inr (\<not> (handshake \<and> length server = handshake_bytes)))
      | Some _ \<Rightarrow> Inl (PyException ''AttributeError''))"

definition running_status :: "bool \<Rightarrow> json" where
  "running_status authorized = JObj [(''status'', JStr ''running''), (''handshook'', JBool True), (''authorized'', JBool authorized)]"

text \<open>The step at the handshake claim: the client's Finished goes out, the request does not.\<close>

definition finish_handshake :: "('w, 'k) relay_env \<Rightarrow> string \<Rightarrow> int \<Rightarrow> ('w, int \<times> nat) rl_action" where
  "finish_handshake env pre released =
     act_bind (verifier env ''handshake'') (\<lambda>_.
     act_bind (read_file ''handshake.json'') (\<lambda>b.
     act_bind (put env (pre @ ''/handshake.json'') b) (\<lambda>_.
     act_bind (act_get (\<lambda>s. (rl_client s, rl_server s))) (\<lambda>(client, server).
     act_bind (ext (ve_channel_notify env (running_status False))) (\<lambda>_.
     act_bind (release env (slice_from released client)) (\<lambda>_.
       act_return (int (length client), length server)))))))"

fun put_files :: "('w, 'k) relay_env \<Rightarrow> string \<Rightarrow> string list \<Rightarrow> ('w, unit) rl_action" where
  "put_files env pre [] = act_return ()"
| "put_files env pre (name # names) =
     act_bind (read_file name) (\<lambda>b. act_bind (put env (pre @ ''/'' @ name) b) (\<lambda>_. put_files env pre names))"

definition authorization_files :: "string list" where
  "authorization_files = [''client.bin'', ''server.bin'', ''claim.json'', ''authorization.json'', ''request.json'']"

definition check_time :: "('w, 'k) relay_env \<Rightarrow> pyfloat \<Rightarrow> ('w, unit) rl_action" where
  "check_time env t = act_bind (ext (ve_monotonic env)) (\<lambda>now. if t \<le> now then act_raise timeout_error else act_return ())"

definition reserve_dispatch :: "('w, 'k) relay_env \<Rightarrow> string \<Rightarrow> pyfloat option \<Rightarrow> pyfloat \<Rightarrow> ('w, pyfloat option) rl_action" where
  "reserve_dispatch env pre deadline authorization_deadline =
     (case ve_before_release env of
        None \<Rightarrow> act_return deadline
      | Some reserve \<Rightarrow>
          act_bind (act_get rl_server) (\<lambda>server.
          act_bind (write_file env ''authorization-server.bin'' server) (\<lambda>_.
          act_bind (put env (pre @ ''/authorization-server.bin'') server) (\<lambda>_.
          act_bind (read_file ''request.json'') (\<lambda>request.
          act_bind (ext (reserve request)) (\<lambda>capture_deadline.
          act_bind (record_event Reserved) (\<lambda>_.
          act_bind (check_time env authorization_deadline) (\<lambda>_.
            act_return (if capture_deadline \<noteq> None then capture_deadline else deadline)))))))))"

text \<open>The step at the authorization claim: everything durable first, then the request goes out.\<close>

definition dispatch :: "('w, 'k) relay_env \<Rightarrow> string \<Rightarrow> int \<Rightarrow> pyfloat option \<Rightarrow> pyfloat \<Rightarrow> ('w, nat \<times> pyfloat) rl_action" where
  "dispatch env pre released deadline authorization_deadline =
     act_bind (verifier env ''authorize'') (\<lambda>_.
     act_bind (put_files env pre authorization_files) (\<lambda>_.
     act_bind (put env (pre @ ''/status.json'') (ve_dumps env (running_status True))) (\<lambda>_.
     act_bind (check_time env authorization_deadline) (\<lambda>_.
     act_bind (reserve_dispatch env pre deadline authorization_deadline) (\<lambda>until.
       case until of
         None \<Rightarrow> act_raise (ValueError ''Capture deadline is missing'')
       | Some t \<Rightarrow>
           act_bind (suppress socket_error (ext (ve_channel_notify env (running_status True)))) (\<lambda>_.
           act_bind (act_get (\<lambda>s. (rl_client s, rl_server s))) (\<lambda>(client, server).
           act_bind (release env (slice_from released client)) (\<lambda>_.
             act_return (length server, t)))))))))"

fun authorize_loop :: "nat \<Rightarrow> ('w, 'k) relay_env \<Rightarrow> string \<Rightarrow> pyfloat option \<Rightarrow> pyfloat \<Rightarrow> bool \<Rightarrow> int \<Rightarrow> nat \<Rightarrow>
    ('w, nat \<times> pyfloat) rl_action" where
  "authorize_loop 0 env pre deadline t handshake released handshake_bytes = act_raise (PyException ''out of fuel'')"
| "authorize_loop (Suc n) env pre deadline t handshake released handshake_bytes =
     act_bind (check_time env t) (\<lambda>_.
     act_bind (provider_flight env) (\<lambda>_.
     act_bind (miner_message env t) (\<lambda>_.
     act_bind (ext (ve_channel_claim env (if handshake then ''authorize'' else ''handshake''))) (\<lambda>raw_claim.
       case raw_claim of
         None \<Rightarrow> authorize_loop n env pre deadline t handshake released handshake_bytes
       | Some raw \<Rightarrow>
           act_bind (act_get (\<lambda>s. (rl_client s, rl_server s))) (\<lambda>(client, server).
           act_bind (act_lift (claim_ready env raw client server handshake handshake_bytes)) (\<lambda>ready.
             if \<not> ready then authorize_loop n env pre deadline t handshake released handshake_bytes
             else
               act_bind (write_file env ''client.bin'' client) (\<lambda>_.
               act_bind (write_file env ''server.bin'' server) (\<lambda>_.
               act_bind (write_file env (if handshake then ''claim.json'' else ''handshake-claim.json'') raw) (\<lambda>_.
                 if handshake then dispatch env pre released deadline t
                 else act_bind (finish_handshake env pre released) (\<lambda>(released, handshake_bytes).
                   authorize_loop n env pre deadline t True released handshake_bytes))))))))))"

section \<open>The answer\<close>

fun response_loop :: "nat \<Rightarrow> ('w, 'k) relay_env \<Rightarrow> pyfloat \<Rightarrow> ('w, unit) rl_action" where
  "response_loop 0 env t = act_raise (PyException ''out of fuel'')"
| "response_loop (Suc n) env t =
     act_bind (check_time env t) (\<lambda>_.
     act_bind (ext (ve_readable env (fl (1 / 5)))) (\<lambda>ready.
       if \<not> ready then response_loop n env t
       else
         act_bind (ext (ve_recv env)) (\<lambda>chunk.
           if chunk = [] then act_return ()
           else
             act_bind (receive_server chunk) (\<lambda>_.
             act_bind (act_get rl_server) (\<lambda>server.
               if MAX_BYTES < int (length server) then act_raise (ValueError ''Provider traffic exceeds 16 MiB'')
               else response_loop n env t)))))"

definition exchange :: "('w, 'k) relay_env \<Rightarrow> string \<Rightarrow> pyfloat option \<Rightarrow> pyfloat \<Rightarrow> pyfloat \<Rightarrow> ('w, nat) rl_action" where
  "exchange env pre deadline hello_deadline authorization_deadline =
     act_bind (ext (ve_connect env)) (\<lambda>_.
     act_finally
       (act_bind (release_hello env hello_deadline) (\<lambda>released.
        act_bind (authorize_loop (ve_fuel env) env pre deadline authorization_deadline False released 0) (\<lambda>(handshake_bytes, t).
        act_bind (response_loop (ve_fuel env) env t) (\<lambda>_. act_return handshake_bytes))))
       (ext (ve_close env)))"

definition issued_status :: "(string, json) dict \<Rightarrow> json \<Rightarrow> pyfloat \<Rightarrow> json" where
  "issued_status metadata provider_status now =
     (let usage = dget_default metadata ''usage'' JNull
      in JObj [(''status'', JStr ''issued''), (''authorized'', JBool True), (''usage'', usage), (''provider_status'', provider_status),
         (''usage_state'', JStr (if usage \<noteq> JNull then ''recorded'' else ''unknown'')),
         (''evidence_expires'', JInt (py_trunc (fmul (fadd now (7 * 86400)) 1000)))])"

text \<open>A hook that is given the metadata may change them: it returns what it leaves.\<close>

definition call_hook :: "('a \<Rightarrow> ('w, 'a) action) option \<Rightarrow> 'a \<Rightarrow> relay_event \<Rightarrow> ('w, 'a) rl_action" where
  "call_hook hook x e = (case hook of None \<Rightarrow> act_return x
     | Some f \<Rightarrow> act_bind (ext (f x)) (\<lambda>y. act_bind (record_event e) (\<lambda>_. act_return y)))"

definition finish_exchange :: "('w, 'k) relay_env \<Rightarrow> string \<Rightarrow> string \<Rightarrow> string \<Rightarrow> string \<Rightarrow> nat \<Rightarrow> ('w, (string, json) dict) rl_action" where
  "finish_exchange env pre round_number hotkey exchange_id handshake_bytes =
     act_bind (act_get rl_server) (\<lambda>server.
     act_bind (write_file env ''server.bin'' server) (\<lambda>_.
     act_bind (put env (pre @ ''/server.bin'') server) (\<lambda>_.
     act_bind (verifier env ''finish'') (\<lambda>verified.
       let bound = dset_all [(''round'', JStr round_number), (''hotkey'', JStr hotkey), (''exchange_id'', JStr exchange_id)] verified;
           metadata = (case ve_extra env of None \<Rightarrow> bound | Some extra \<Rightarrow> dset_all extra bound)
       in
         act_bind (put_files env pre [''request.json'', ''response.sse'']) (\<lambda>_.
         act_bind (call_hook (ve_seal env) metadata Sealed) (\<lambda>metadata.
         act_bind (put env (pre @ ''/manifest.json'') (ve_dumps env (JObj metadata))) (\<lambda>_.
         act_bind (act_lift (some_or (dget metadata ''provider_status'') KeyError)) (\<lambda>provider_status.
         act_bind (ext (ve_time env)) (\<lambda>now.
         act_bind (put env (pre @ ''/status.json'') (ve_dumps env (issued_status metadata provider_status now))) (\<lambda>_.
         act_bind (act_modify (\<lambda>s. s\<lparr>rl_issued := True\<rparr>)) (\<lambda>_.
         act_bind (call_hook (ve_before_delivery env) metadata Finalized) (\<lambda>metadata.
         act_bind (suppress socket_error
           (act_bind (act_get rl_server) (\<lambda>server.
            act_bind (deliver env (drop handshake_bytes server)) (\<lambda>_. ext (ve_channel_finish env))))) (\<lambda>_.
           act_return metadata)))))))))))))"

section \<open>The relay\<close>

definition keep_spool :: "('w, 'k) relay_env \<Rightarrow> ('w, unit) rl_action" where
  "keep_spool env =
     act_bind (suppress is_os_error
       (act_bind (act_get rl_client) (\<lambda>client. act_bind (write_file env ''client.bin'' client) (\<lambda>_.
        act_bind (act_get rl_server) (\<lambda>server. write_file env ''server.bin'' server))))) (\<lambda>_.
     act_bind (act_get rl_issued) (\<lambda>issued.
       if issued then act_return () else suppress socket_error (ext (ve_channel_finish env))))"

definition capture :: "('w, 'k) relay_env \<Rightarrow> string \<Rightarrow> pyfloat option \<Rightarrow> string \<Rightarrow> string \<Rightarrow> string \<Rightarrow> ('w, (string, json) dict) rl_action" where
  "capture env pre deadline round_number hotkey exchange_id =
     act_bind (ext (ve_monotonic env)) (\<lambda>started.
       let hello = (case deadline of None \<Rightarrow> fadd started 60 | Some t \<Rightarrow> min t (fadd started 60));
           authorization = (case deadline of None \<Rightarrow> fadd started 300 | Some t \<Rightarrow> min t (fadd started 300))
       in
         act_finally
           (act_handle
             (act_bind (exchange env pre deadline hello authorization) (finish_exchange env pre round_number hotkey exchange_id))
             (\<lambda>e. act_bind (case ve_observe_failure env of None \<Rightarrow> act_return () | Some f \<Rightarrow> ext (f e)) (\<lambda>_. act_raise e))
             act_return)
           (keep_spool env))"

definition relay_run :: "('w, 'k) relay_env \<Rightarrow> string \<Rightarrow> pyfloat option \<Rightarrow> string \<Rightarrow> string \<Rightarrow> string \<Rightarrow> ('w, (string, json) dict) rl_action" where
  "relay_run env pre deadline round_number hotkey storage =
     act_bind (act_lift (miner_prefix (ve_auth env) round_number hotkey)) (\<lambda>base.
       if path_parent pre \<noteq> storage @ base then act_raise (ValueError ''Transcript path differs from authenticated identity'')
       else act_bind (act_lift (path_name pre)) (\<lambda>exchange_id. capture env pre deadline round_number hotkey exchange_id))"

definition new_relay :: "files \<Rightarrow> 'w \<Rightarrow> 'w relay" where
  "new_relay files w = \<lparr>rl_world = w, rl_client = [], rl_server = [], rl_files = files, rl_issued = False, rl_log = []\<rparr>"

section \<open>Reading a history\<close>

text \<open>The traffic of a history (latest first), what was last written to a file, and how often was released.\<close>

fun from_miner :: "relay_event list \<Rightarrow> string" where
  "from_miner [] = []"
| "from_miner (e # h) = from_miner h @ (case e of FromMiner b \<Rightarrow> b | _ \<Rightarrow> [])"

fun from_provider :: "relay_event list \<Rightarrow> string" where
  "from_provider [] = []"
| "from_provider (e # h) = from_provider h @ (case e of FromProvider b \<Rightarrow> b | _ \<Rightarrow> [])"

fun to_miner :: "relay_event list \<Rightarrow> string" where
  "to_miner [] = []"
| "to_miner (e # h) = to_miner h @ (case e of ToMiner b \<Rightarrow> b | _ \<Rightarrow> [])"

fun sent :: "relay_event list \<Rightarrow> string" where
  "sent [] = []"
| "sent (e # h) = sent h @ (case e of Released b \<Rightarrow> b | _ \<Rightarrow> [])"

fun releases :: "relay_event list \<Rightarrow> nat" where
  "releases [] = 0"
| "releases (e # h) = (case e of Released b \<Rightarrow> Suc (releases h) | _ \<Rightarrow> releases h)"

fun written :: "string \<Rightarrow> relay_event list \<Rightarrow> string option" where
  "written n [] = None"
| "written n (e # h) = (case e of Wrote m b \<Rightarrow> if m = n then Some b else written n h | _ \<Rightarrow> written n h)"

text \<open>What happened since the last verification in a mode, and before it.\<close>

definition since :: "string \<Rightarrow> relay_event list \<Rightarrow> relay_event list" where
  "since m h = takeWhile (\<lambda>e. e \<noteq> Verified m) h"

definition before :: "string \<Rightarrow> relay_event list \<Rightarrow> relay_event list" where
  "before m h = drop (Suc (length (since m h))) h"

definition stored :: "relay_event list \<Rightarrow> string \<Rightarrow> bool" where
  "stored h key = list_ex (\<lambda>e. case e of Stored k _ \<Rightarrow> k = key | _ \<Rightarrow> False) h"

text \<open>The verification in a mode was of all the traffic so far.\<close>

definition verified_traffic :: "string \<Rightarrow> relay_event list \<Rightarrow> bool" where
  "verified_traffic m h = (Verified m \<in> set h \<and> written ''client.bin'' (before m h) = Some (from_miner h) \<and>
     written ''server.bin'' (before m h) = Some (from_provider h))"

text \<open>
  When bytes may go to the provider: of the ClientHello once it is verified, the rest of the handshake once it
  is verified and its record durable, the request once it is authorized, the authorization durable and the
  dispatch reserved; never again.
\<close>

definition release_ok :: "('w, 'k) relay_env \<Rightarrow> string \<Rightarrow> string \<Rightarrow> relay_event list \<Rightarrow> bool" where
  "release_ok env pre b h =
     (if releases h = 0 then Verified ''hello'' \<in> set h \<and> written ''client.bin'' h = Some (from_miner h) \<and> b = take (length b) (from_miner h)
      else if releases h = 1 then verified_traffic ''handshake'' h \<and> stored (since ''handshake'' h) (pre @ ''/handshake.json'') \<and>
        sent h @ b = from_miner h
      else releases h = 2 \<and> verified_traffic ''authorize'' h \<and> sent h @ b = from_miner h \<and>
        Stored (pre @ ''/client.bin'') (from_miner h) \<in> set (since ''authorize'' h) \<and>
        list_all (\<lambda>n. stored (since ''authorize'' h) (pre @ ''/'' @ n)) (''status.json'' # authorization_files) \<and>
        (ve_before_release env \<noteq> None \<longrightarrow> Reserved \<in> set (since ''authorize'' h) \<and>
           stored (since ''authorize'' h) (pre @ ''/authorization-server.bin'')))"

text \<open>The evidence of the answer.\<close>

definition evidence_durable :: "('w, 'k) relay_env \<Rightarrow> string \<Rightarrow> relay_event list \<Rightarrow> bool" where
  "evidence_durable env pre h =
     (Verified ''finish'' \<in> set h \<and> written ''server.bin'' (before ''finish'' h) = Some (from_provider h) \<and>
      Stored (pre @ ''/server.bin'') (from_provider h) \<in> set (before ''finish'' h) \<and>
      list_all (\<lambda>n. stored (since ''finish'' h) (pre @ ''/'' @ n)) [''request.json'', ''response.sse'', ''manifest.json'', ''status.json''] \<and>
      (ve_seal env \<noteq> None \<longrightarrow> Sealed \<in> set (since ''finish'' h)) \<and>
      (ve_before_delivery env \<noteq> None \<longrightarrow> Finalized \<in> set (since ''finish'' h)))"

definition delivery_ok :: "('w, 'k) relay_env \<Rightarrow> string \<Rightarrow> string \<Rightarrow> relay_event list \<Rightarrow> bool" where
  "delivery_ok env pre b h = (to_miner h @ b = from_provider h \<and> (releases h = 3 \<longrightarrow> evidence_durable env pre h))"

definition event_ok :: "('w, 'k) relay_env \<Rightarrow> string \<Rightarrow> relay_event \<Rightarrow> relay_event list \<Rightarrow> bool" where
  "event_ok env pre e h = (case e of Released b \<Rightarrow> release_ok env pre b h | ToMiner b \<Rightarrow> delivery_ok env pre b h | _ \<Rightarrow> True)"

text \<open>
  What the relay relies on of the verifier: it leaves the two traffic files alone, and of a ClientHello it
  releases a part.
\<close>

definition verifier_laws :: "('w, 'k) relay_env \<Rightarrow> bool" where
  "verifier_laws env = (\<forall>m files w r files' w'. ve_verify env m files w = ((r, files'), w') \<longrightarrow>
     (\<forall>n\<in>{''client.bin'', ''server.bin''}. dget files' n = dget files n) \<and>
     (m = ''hello'' \<longrightarrow> (\<forall>v i c. r = Inr v \<longrightarrow> gate_released env v = Inr i \<longrightarrow> dget files ''client.bin'' = Some c \<longrightarrow>
        0 \<le> i \<and> i \<le> int (length c))))"

section \<open>The log follows the state\<close>

definition tracked :: "('w, 'k) relay_env \<Rightarrow> string \<Rightarrow> 'w relay \<Rightarrow> bool" where
  "tracked env pre s = (let h = rev (rl_log s) in rl_client s = from_miner h \<and> rl_server s = from_provider h \<and>
     (\<forall>n\<in>{''client.bin'', ''server.bin''}. \<forall>d. written n h = Some d \<longrightarrow> dget (rl_files s) n = Some d) \<and>
     preceded (event_ok env pre) [] (rl_log s))"

lemma tracked_new: "tracked env pre (new_relay files w)"
  by (simp add: tracked_def new_relay_def)

lemma hist_ext [hist_rules]: "(\<And>r. Q r h) \<Longrightarrow> hist rl_log (tracked env pre) (ext m) Q h"
  by (auto simp: hist_def ext_def tracked_def split: prod.splits)

lemma hist_event:
  assumes "event_ok env pre e h" "Q (Inr ()) (e # h)" "case e of FromMiner _ \<Rightarrow> False | FromProvider _ \<Rightarrow> False | Wrote _ _ \<Rightarrow> False | _ \<Rightarrow> True"
  shows "hist rl_log (tracked env pre) (record_event e) Q h"
  using assms by (auto simp: hist_def record_event_def act_simps tracked_def preceded_append split: relay_event.splits)

lemma hist_receive [hist_rules]:
  "Q (Inr ()) (FromMiner b # h) \<Longrightarrow> hist rl_log (tracked env pre) (receive_client b) Q h"
  "Q (Inr ()) (FromProvider b # h) \<Longrightarrow> hist rl_log (tracked env pre) (receive_server b) Q h"
  by (auto simp: hist_def receive_client_def receive_server_def act_simps tracked_def preceded_append event_ok_def)

lemma hist_buffers [hist_rules]:
  "Q (Inr (from_miner h)) h \<Longrightarrow> hist rl_log (tracked env pre) (act_get rl_client) Q h"
  "Q (Inr (from_provider h)) h \<Longrightarrow> hist rl_log (tracked env pre) (act_get rl_server) Q h"
  by (rule hist_get, simp add: tracked_def)+

lemma hist_both [hist_rules]:
  "Q (Inr (from_miner h, from_provider h)) h \<Longrightarrow> hist rl_log (tracked env pre) (act_get (\<lambda>s. (rl_client s, rl_server s))) Q h"
  by (rule hist_get, simp add: tracked_def)

lemma hist_issued [hist_rules]:
  "(\<And>b. Q (Inr b) h) \<Longrightarrow> hist rl_log (tracked env pre) (act_get rl_issued) Q h"
  "R (Inr ()) h \<Longrightarrow> hist rl_log (tracked env pre) (act_modify (\<lambda>s. s\<lparr>rl_issued := b\<rparr>)) R h"
  by (auto simp: hist_def act_simps tracked_def)

lemma hist_release [hist_rules]:
  assumes "release_ok env pre b h" "\<And>r. Q r (Released b # h)"
  shows "hist rl_log (tracked env pre) (release env b) Q h"
  unfolding release_def using assms
  by (intro hist_bind hist_event) (auto simp: event_ok_def intro: hist_rules)

lemma hist_deliver [hist_rules]:
  assumes "delivery_ok env pre b h" "\<And>r. Q r (ToMiner b # h)"
  shows "hist rl_log (tracked env pre) (deliver env b) Q h"
  unfolding deliver_def using assms
  by (intro hist_bind hist_event) (auto simp: event_ok_def intro: hist_rules)

lemma hist_write [hist_rules]:
  assumes "\<And>e. Q (Inl e) h" "Q (Inr ()) (Wrote n b # h)"
  shows "hist rl_log (tracked env pre) (write_file env' n b) Q h"
  unfolding write_file_def
  by (intro hist_bind hist_ext)
     (use assms in \<open>auto simp: hist_def act_simps tracked_def preceded_append event_ok_def split: sum.split\<close>)

lemma hist_read [hist_rules]:
  assumes "\<And>e. Q (Inl e) h" "\<And>b. (\<forall>d. n \<in> {''client.bin'', ''server.bin''} \<longrightarrow> written n h = Some d \<longrightarrow> b = d) \<Longrightarrow> Q (Inr b) h"
  shows "hist rl_log (tracked env pre) (read_file n) Q h"
  unfolding read_file_def
proof (rule hist_bind, rule hist_get, goal_cases)
  case (1 s)
  have "Q (Inr b) h" if "dget (rl_files s) n = Some b" for b
  proof (rule assms(2), intro allI impI)
    fix d
    assume "n \<in> {''client.bin'', ''server.bin''}" "written n h = Some d"
    with 1 have "dget (rl_files s) n = Some d" unfolding tracked_def Let_def by (metis rev_rev_ident)
    with that show "b = d" by simp
  qed
  then show ?case using assms(1) by (cases "dget (rl_files s) n") (auto intro!: hist_lift)
qed

lemma hist_put [hist_rules]:
  assumes "\<And>e. Q (Inl e) h" "Q (Inr ()) (Stored k b # h)"
  shows "hist rl_log (tracked env pre) (put env k b) Q h"
  unfolding put_def
  by (intro hist_bind hist_ext) (use assms in \<open>auto intro!: hist_event simp: event_ok_def split: sum.split\<close>)

lemma verifier_hello:
  "verifier_laws env \<Longrightarrow> ve_verify env m files w = ((Inr v, files'), w') \<Longrightarrow> m = ''hello'' \<Longrightarrow> gate_released env v = Inr i \<Longrightarrow>
     dget files ''client.bin'' = Some c \<Longrightarrow> 0 \<le> i \<and> i \<le> int (length c)"
  unfolding verifier_laws_def by blast

lemma hist_verifier:
  assumes "verifier_laws env" "\<And>e. Q (Inl e) h"
    "\<And>v. (\<forall>i c. m = ''hello'' \<longrightarrow> gate_released env v = Inr i \<longrightarrow> written ''client.bin'' h = Some c \<longrightarrow> 0 \<le> i \<and> i \<le> int (length c)) \<Longrightarrow>
       Q (Inr v) (Verified m # h)"
  shows "hist rl_log (tracked env pre) (verifier env m) Q h"
proof (rule histI)
  fix s r s'
  assume s: "tracked env pre s" "rl_log s = rev h" and v: "verifier env m s = (r, s')"
  obtain q files w where q: "ve_verify env m (rl_files s) (rl_world s) = ((q, files), w)" by (metis prod.exhaust)
  with assms(1) have files: "dget files n = dget (rl_files s) n" if "n \<in> {''client.bin'', ''server.bin''}" for n
    using that unfolding verifier_laws_def by blast
  show "tracked env pre s' \<and> Q r (rev (rl_log s'))"
  proof (cases q)
    case (Inl e)
    with v q have "s' = s\<lparr>rl_world := w, rl_files := files\<rparr>" "r = Inl e" by (auto simp: verifier_def)
    with s assms(2) files show ?thesis by (auto simp: tracked_def)
  next
    case (Inr x)
    with v q have s': "s' = s\<lparr>rl_world := w, rl_files := files, rl_log := rl_log s @ [Verified m]\<rparr>" "r = Inr x"
      by (auto simp: verifier_def)
    have "\<forall>i c. m = ''hello'' \<longrightarrow> gate_released env x = Inr i \<longrightarrow> written ''client.bin'' h = Some c \<longrightarrow> 0 \<le> i \<and> i \<le> int (length c)"
      using verifier_hello [OF assms(1) q [unfolded Inr]] s by (auto simp: tracked_def)
    with assms(3) have "Q (Inr x) (Verified m # h)" by blast
    with s s' files show ?thesis by (auto simp: tracked_def preceded_append event_ok_def)
  qed
qed

section \<open>The stages along the history\<close>

lemma since_Cons [simp]: "since m (e # h) = (if e = Verified m then [] else e # since m h)"
  by (simp add: since_def)

lemma before_Cons [simp]: "before m (e # h) = (if e = Verified m then h else before m h)"
  by (simp add: before_def)

lemma stored_Cons [simp]: "stored (e # h) k = ((case e of Stored k' _ \<Rightarrow> k' = k | _ \<Rightarrow> False) \<or> stored h k)"
  by (simp add: stored_def)

lemma stored_append [simp]: "stored (es @ h) k \<longleftrightarrow> stored es k \<or> stored h k"
  by (simp add: stored_def)

text \<open>Events that only store.\<close>

definition stores :: "relay_event list \<Rightarrow> bool" where
  "stores es = list_all (\<lambda>e. case e of Stored _ _ \<Rightarrow> True | _ \<Rightarrow> False) es"

lemma stores_simps [simp]: "stores []" "stores (e # es) \<longleftrightarrow> (\<exists>k b. e = Stored k b) \<and> stores es"
  by (auto simp: stores_def split: relay_event.splits)

lemma stores_append:
  assumes "stores es"
  shows "from_miner (es @ h) = from_miner h" "from_provider (es @ h) = from_provider h" "to_miner (es @ h) = to_miner h"
    "sent (es @ h) = sent h" "releases (es @ h) = releases h" "written n (es @ h) = written n h"
    "since m (es @ h) = es @ since m h" "before m (es @ h) = before m h" "Verified m \<in> set es \<longleftrightarrow> False"
  using assms by (induction es) auto

lemma hist_put_files:
  "hist rl_log (tracked env pre) (put_files env p ns)
     (\<lambda>r h'. \<exists>es. h' = es @ h \<and> stores es \<and> (r = Inr () \<longrightarrow> list_all (\<lambda>n. stored es (p @ ''/'' @ n)) ns \<and>
        (\<forall>d. ''client.bin'' \<in> set ns \<longrightarrow> written ''client.bin'' h = Some d \<longrightarrow> Stored (p @ ''/client.bin'') d \<in> set es))) h"
proof (induction ns arbitrary: h)
  case Nil
  then show ?case by (auto intro!: hist_rules exI [of _ "[]"])
next
  case (Cons n ns)
  show ?case unfolding put_files.simps
  proof (rule hist_bind, rule hist_read, goal_cases)
    case (1 e)
    show ?case by (auto intro: exI [of _ "[]"])
  next
    case (2 b)
    show ?case unfolding sum.case
    proof (rule hist_bind, rule hist_put, goal_cases)
      case (1 e)
      show ?case by (auto intro: exI [of _ "[]"])
    next
      case stored_now: 2
      show ?case unfolding sum.case
      proof (rule hist_mono [OF Cons.IH], elim exE conjE, goal_cases)
        case (1 r h' es)
        with 2 show ?case by (intro exI [of _ "es @ [Stored (p @ ''/'' @ n) b]"]) (auto simp: stores_def list_all_iff)
      qed
    qed
  qed
qed

text \<open>\<open>k\<close> releases so far, of the first \<open>i\<close> bytes of the miner, who has got all that the provider sent.\<close>

definition holding :: "nat \<Rightarrow> int \<Rightarrow> relay_event list \<Rightarrow> bool" where
  "holding k i h = (releases h = k \<and> to_miner h = from_provider h \<and> 0 \<le> i \<and> nat i \<le> length (from_miner h) \<and>
     sent h = take (nat i) (from_miner h))"

lemma holding_neutral [simp]:
  "holding k i (Wrote n b # h) = holding k i h" "holding k i (Verified m # h) = holding k i h" "holding k i (Stored p b # h) = holding k i h"
  "holding k i (Reserved # h) = holding k i h" "holding k i h \<Longrightarrow> holding k i (FromMiner b # h)"
  by (auto simp: holding_def)

lemma hist_check_time [hist_rules]:
  "(\<And>r. Q r h) \<Longrightarrow> hist rl_log (tracked env pre) (check_time env' t) Q h"
  unfolding check_time_def by (auto intro!: hist_rules split: sum.split)

lemma hist_read_hello:
  assumes "holding 0 0 h"
  shows "hist rl_log (tracked env pre) (read_hello n env t) (\<lambda>r h'. holding 0 0 h') h"
  using assms by (induction n arbitrary: h) (auto intro!: hist_rules split: sum.split)

lemma hist_release_hello:
  assumes "verifier_laws env" "holding 0 0 h"
  shows "hist rl_log (tracked env pre) (release_hello env t) (\<lambda>r h'. \<forall>i. r = Inr i \<longrightarrow> holding 1 i h') h"
  unfolding release_hello_def
  by (rule hist_seq [OF hist_read_hello [OF assms(2)]])
     (auto split: sum.split intro!: hist_rules hist_verifier [OF assms(1)] simp: holding_def release_ok_def slice_to_def nat_le_iff)

lemma hist_provider_flight:
  assumes "holding k i h" "k < 3"
  shows "hist rl_log (tracked env pre) (provider_flight env) (\<lambda>r h'. r = Inr () \<longrightarrow> holding k i h') h"
  unfolding provider_flight_def using assms
  by (auto split: sum.split intro!: hist_rules simp: holding_def delivery_ok_def)

lemma hist_miner_message:
  assumes "holding k i h"
  shows "hist rl_log (tracked env pre) (miner_message env t) (\<lambda>r h'. holding k i h') h"
  unfolding miner_message_def using assms
  by (auto split: sum.split intro!: hist_rules)

text \<open>The claims are acted on when the files hold the traffic so far.\<close>

definition spooled :: "relay_event list \<Rightarrow> bool" where
  "spooled h = (written ''client.bin'' h = Some (from_miner h) \<and> written ''server.bin'' h = Some (from_provider h))"

lemma hist_finish_handshake:
  assumes "verifier_laws env" "holding 1 i h" "spooled h"
  shows "hist rl_log (tracked env pre) (finish_handshake env pre i)
     (\<lambda>r h'. \<forall>j n. r = Inr (j, n) \<longrightarrow> holding 2 j h') h"
  unfolding finish_handshake_def using assms(2,3)
  by (auto split: sum.split intro!: hist_rules hist_verifier [OF assms(1)]
      simp: holding_def release_ok_def verified_traffic_def spooled_def slice_from_def)

text \<open>Once the request is out.\<close>

definition answering :: "nat \<Rightarrow> relay_event list \<Rightarrow> bool" where
  "answering n h = (releases h = 3 \<and> n \<le> length (from_provider h) \<and> to_miner h = take n (from_provider h))"

lemma hist_suppress [hist_rules]:
  "hist lg J m (\<lambda>r h'. case r of Inl e \<Rightarrow> (p e \<longrightarrow> Q (Inr ()) h') \<and> (\<not> p e \<longrightarrow> Q (Inl e) h') | Inr u \<Rightarrow> Q (Inr ()) h') h \<Longrightarrow>
     hist lg J (suppress p m) Q h"
  unfolding suppress_def
  by (rule hist_handle, erule hist_mono) (auto split: sum.splits intro!: hist_rules)

lemma hist_dispatch:
  assumes "verifier_laws env" "holding 2 i h" "spooled h"
  shows "hist rl_log (tracked env pre) (dispatch env pre i d t) (\<lambda>r h'. \<forall>n u. r = Inr (n, u) \<longrightarrow> answering n h') h"
  unfolding dispatch_def
proof (rule hist_bind, rule hist_verifier [OF assms(1)], goal_cases)
  case (2 v)
  show ?case unfolding sum.case
  proof (rule hist_seq [OF hist_put_files], goal_cases)
    case (2 x h')
    then obtain es where h': "h' = es @ Verified ''authorize'' # h" and es: "stores es"
      "list_all (\<lambda>n. stored es (pre @ ''/'' @ n)) authorization_files"
      "Stored (pre @ ''/client.bin'') (from_miner h) \<in> set es"
      using assms(3) by (auto simp: spooled_def authorization_files_def)
    show ?case unfolding h' reserve_dispatch_def
      using assms(2,3) es
      by (auto intro!: hist_rules hist_event split: sum.split option.split
          simp: release_ok_def verified_traffic_def spooled_def holding_def answering_def slice_from_def event_ok_def stores_append [OF es(1)]
            list_all_iff)
  qed simp
qed simp

definition answered :: "(nat \<times> pyfloat) result \<Rightarrow> relay_event list \<Rightarrow> bool" where
  "answered r h = (\<forall>n u. r = Inr (n, u) \<longrightarrow> answering n h)"

lemma answered_Inl [simp]: "answered (Inl e) h" by (simp add: answered_def)

lemma hist_claimed:
  assumes "holding k i h" "hist rl_log (tracked env pre) again answered h"
    "\<And>h. holding k i h \<Longrightarrow> spooled h \<Longrightarrow> hist rl_log (tracked env pre) act answered h"
  shows "hist rl_log (tracked env pre)
    (act_bind (act_get (\<lambda>s. (rl_client s, rl_server s))) (\<lambda>(client, server).
     act_bind (act_lift (claim_ready env raw client server b n)) (\<lambda>ready.
       if \<not> ready then again
       else act_bind (write_file env ''client.bin'' client) (\<lambda>_. act_bind (write_file env ''server.bin'' server) (\<lambda>_.
         act_bind (write_file env (if b then ''claim.json'' else ''handshake-claim.json'') raw) (\<lambda>_. act)))))) answered h"
  using assms(1,2) by (auto split: sum.split intro!: hist_rules assms(3) simp: spooled_def)

lemma hist_authorize_loop:
  assumes "verifier_laws env" "holding (if handshake then 2 else 1) i h"
  shows "hist rl_log (tracked env pre) (authorize_loop n env pre d t handshake i hb) answered h"
  using assms(2)
proof (induction n arbitrary: handshake i hb h)
  case 0
  show ?case by (simp add: hist_rules)
next
  case (Suc n)
  show ?case unfolding authorize_loop.simps
  proof (rule hist_bind, rule hist_check_time, split sum.split, intro conjI allI impI, goal_cases)
    case (2 r u)
    show ?case
    proof (rule hist_seq [OF hist_provider_flight [OF Suc.prems]], goal_cases)
      case (3 x h1)
      then have 1: "holding (if handshake then 2 else 1) i h1" by simp
      show ?case
      proof (rule hist_seq [OF hist_miner_message [OF 1]], goal_cases)
        case (2 y h2)
        note again = Suc.IH [OF 2]
        have act: "hist rl_log (tracked env pre)
            (if handshake then dispatch env pre i d t
             else act_bind (finish_handshake env pre i) (\<lambda>(i, hb). authorize_loop n env pre d t True i hb)) answered h3"
          if "holding (if handshake then 2 else 1) i h3" "spooled h3" for h3
        proof (cases handshake)
          case True
          with hist_dispatch [OF assms(1) _ that(2)] that(1) show ?thesis unfolding answered_def by simp
        next
          case False
          with that(1) have "holding 1 i h3" by simp
          from hist_finish_handshake [OF assms(1) this that(2)] show ?thesis unfolding if_not_P [OF False]
            by (rule hist_seq) (auto intro: Suc.IH [of True, simplified])
        qed
        show ?case
          by (rule hist_bind, rule hist_ext, split sum.split, intro conjI allI impI)
             (simp, rule hist_option, rule again, rule hist_claimed [OF 2 again act])
      qed simp
    qed simp_all
  qed simp
qed

lemma hist_response_loop:
  assumes "answering k h"
  shows "hist rl_log (tracked env pre) (response_loop n env t) (\<lambda>r h'. answering k h') h"
  using assms by (induction n arbitrary: h) (auto split: sum.split intro!: hist_rules simp: answering_def)

lemma hist_exchange:
  assumes "verifier_laws env"
  shows "hist rl_log (tracked env pre) (exchange env pre d t u) (\<lambda>r h'. \<forall>n. r = Inr n \<longrightarrow> answering n h') []"
  unfolding exchange_def
proof (rule hist_bind, rule hist_ext, split sum.split, intro conjI allI impI hist_finally, goal_cases)
  case (2 r x)
  have closing: "hist rl_log (tracked env pre) (ext (ve_close env))
     (\<lambda>r' h''. case r' of Inl e \<Rightarrow> (\<forall>n. Inl e = Inr n \<longrightarrow> answering n h'') | Inr _ \<Rightarrow> \<forall>n. r = Inr n \<longrightarrow> answering n h'') h"
    if "\<forall>n. r = Inr n \<longrightarrow> answering n h" for r h
    using that by (auto intro!: hist_rules split: sum.split)
  have "holding 0 0 []" by (simp add: holding_def)
  from hist_release_hello [OF assms this] show ?case
  proof (rule hist_seq, goal_cases)
    case (2 i h)
    then have "holding (if False then 2 else 1) i h" by simp
    from hist_authorize_loop [OF assms this] show ?case
    proof (rule hist_seq, goal_cases)
      case (2 y h')
      obtain n t' where y: "y = (n, t')" by force
      with 2 have "answering n h'" by (simp add: answered_def)
      from hist_response_loop [OF this] show ?case unfolding y prod.case
        by (rule hist_seq) (auto intro!: closing hist_return)
    qed (auto intro!: closing)
  qed (auto intro!: closing)
qed simp

text \<open>What holds when the relay returns: the evidence is durable, the miner was sent all that the provider sent.\<close>

definition captured :: "('w, 'k) relay_env \<Rightarrow> string \<Rightarrow> relay_event list \<Rightarrow> bool" where
  "captured env pre h = (releases h = 3 \<and> evidence_durable env pre h \<and> to_miner h = from_provider h)"

lemma captured_wrote [simp]: "captured env pre (Wrote n b # h) = captured env pre h"
  by (auto simp: captured_def evidence_durable_def)

lemma hist_call_hook:
  assumes "\<And>x. Q (Inl x) h" "\<And>x. hook = None \<Longrightarrow> Q (Inr x) h" "\<And>x. hook \<noteq> None \<Longrightarrow> Q (Inr x) (e # h)" "e \<in> {Sealed, Finalized}"
  shows "hist rl_log (tracked env pre) (call_hook hook v e) Q h"
  unfolding call_hook_def using assms
  by (cases hook) (auto intro!: hist_rules hist_event split: sum.split simp: event_ok_def)

lemma hist_finish_exchange:
  assumes "verifier_laws env" "answering n h"
  shows "hist rl_log (tracked env pre) (finish_exchange env pre rn hk eid n) (\<lambda>r h'. is_ok r \<longrightarrow> captured env pre h') h"
proof -
  let ?h0 = "Stored (pre @ ''/server.bin'') (from_provider h) # Wrote ''server.bin'' (from_provider h) # h"
  have step: "hist rl_log (tracked env pre)
      (act_bind (put_files env pre [''request.json'', ''response.sse'']) m) Q (Verified ''finish'' # ?h0)"
    if "\<And>es. stores es \<Longrightarrow> stored es (pre @ ''/request.json'') \<Longrightarrow> stored es (pre @ ''/response.sse'') \<Longrightarrow>
       hist rl_log (tracked env pre) (m ()) Q (es @ Verified ''finish'' # ?h0)" "\<And>e h. Q (Inl e) h" for m Q
    by (rule hist_seq [OF hist_put_files]) (use that in auto)
  show ?thesis
    unfolding finish_exchange_def Let_def
    apply (intro hist_bind hist_buffers, unfold sum.case)
    apply (intro hist_bind hist_write, simp, unfold sum.case)
    apply (intro hist_bind hist_put, simp, unfold sum.case)
    apply (rule hist_bind, rule hist_verifier [OF assms(1)], simp, unfold sum.case)
    apply (rule step)
     prefer 2 apply simp
    subgoal for v es
      using assms(2)
      by (auto split: sum.split intro!: hist_rules hist_call_hook
          simp: stores_append answering_def captured_def evidence_durable_def delivery_ok_def)
    done
qed

lemma hist_keep_spool:
  assumes "\<And>h n b. Q (Inr ()) h \<Longrightarrow> Q (Inr ()) (Wrote n b # h)" "\<And>e h. Q (Inl e) h" "Q (Inr ()) h"
  shows "hist rl_log (tracked env pre) (keep_spool env') Q h"
  unfolding keep_spool_def using assms
  by (auto split: sum.split intro!: hist_rules)

lemma hist_capture:
  assumes "verifier_laws env"
  shows "hist rl_log (tracked env pre) (capture env pre d rn hk eid) (\<lambda>r h'. is_ok r \<longrightarrow> captured env pre h') []"
proof -
  have spool: "hist rl_log (tracked env pre) (keep_spool env)
      (\<lambda>r' h'. case r' of Inl e \<Rightarrow> (is_ok (Inl e :: (string, json) dict result) \<longrightarrow> captured env pre h') | Inr _ \<Rightarrow> (is_ok r \<longrightarrow> captured env pre h')) h"
    if "is_ok r \<longrightarrow> captured env pre h" for r h
    by (rule hist_keep_spool) (use that in auto)
  have "hist rl_log (tracked env pre) (act_bind (exchange env pre d t u) (finish_exchange env pre rn hk eid))
      (\<lambda>r h'. is_ok r \<longrightarrow> captured env pre h') []" for t u
    by (rule hist_seq [OF hist_exchange [OF assms]]) (auto intro: hist_finish_exchange [OF assms])
  then have "hist rl_log (tracked env pre)
      (act_handle (act_bind (exchange env pre d t u) (finish_exchange env pre rn hk eid))
        (\<lambda>e. act_bind (case ve_observe_failure env of None \<Rightarrow> act_return () | Some f \<Rightarrow> ext (f e)) (\<lambda>_. act_raise e)) act_return)
      (\<lambda>r h'. is_ok r \<longrightarrow> captured env pre h') []" for t u
    by (rule hist_handle [OF hist_mono]) (auto split: sum.split intro!: hist_rules)
  note body = hist_finally [OF hist_mono [OF this spool]]
  show ?thesis
    unfolding capture_def Let_def
    by (rule hist_bind, rule hist_ext, split sum.split, intro conjI allI impI) (simp, rule body)
qed

lemma relay_traced:
  assumes "verifier_laws env" "relay_run env pre d rn hk st (new_relay files w) = (r, s)"
  shows "preceded (event_ok env pre) [] (rl_log s) \<and> (is_ok r \<longrightarrow> captured env pre (rev (rl_log s)))"
proof -
  have "hist rl_log (tracked env pre) (relay_run env pre d rn hk st) (\<lambda>r h'. is_ok r \<longrightarrow> captured env pre h') []"
    unfolding relay_run_def
    by (auto intro!: hist_rules hist_capture [OF assms(1)] split: sum.split)
  from histD [OF this tracked_new _ assms(2)] show ?thesis by (simp add: new_relay_def) (simp add: tracked_def Let_def)
qed

section \<open>Properties\<close>

definition releases_in_order :: "('w, 'k) relay_env \<Rightarrow> string \<Rightarrow> relay_event \<Rightarrow> relay_event list \<Rightarrow> bool" where
  "releases_in_order env pre e h = (case e of Released b \<Rightarrow> release_ok env pre b h | _ \<Rightarrow> True)"

definition deliveries_in_order :: "('w, 'k) relay_env \<Rightarrow> string \<Rightarrow> relay_event \<Rightarrow> relay_event list \<Rightarrow> bool" where
  "deliveries_in_order env pre e h = (case e of ToMiner b \<Rightarrow> delivery_ok env pre b h | _ \<Rightarrow> True)"

lemma preceded_weaken: "preceded C h es \<Longrightarrow> (\<And>e h. C e h \<Longrightarrow> D e h) \<Longrightarrow> preceded D h es"
  by (induction es arbitrary: h) auto

text \<open>
  C33: No request reaches the provider unpaid: whatever the miner, the provider, the clock and the store do,
  bytes go to the provider at most three times, in order and without gaps: of the ClientHello once it is
  verified, the rest of the handshake once all traffic so far is verified and recorded, and the request once
  all traffic so far is authorized, every file of the authorization is durable and the dispatch is reserved.
\<close>

theorem request_waits_for_authorization:
  assumes "verifier_laws env" "relay_run env pre d rn hk st (new_relay files w) = (r, s)"
  shows "preceded (releases_in_order env pre) [] (rl_log s)"
  using relay_traced [OF assms]
  by (auto elim!: preceded_weaken simp: event_ok_def releases_in_order_def split: relay_event.splits)

text \<open>
  C34: No answer reaches the miner unrecorded: the miner is only ever sent what the provider sent, in order; after
  the request has gone out nothing more until the whole answer is stored and verified, its evidence stored and
  sealed, its status published and the call finalized; and when the relay returns all of that has happened.
\<close>

theorem answer_waits_for_evidence:
  assumes "verifier_laws env" "relay_run env pre d rn hk st (new_relay files w) = (r, s)"
  shows "preceded (deliveries_in_order env pre) [] (rl_log s) \<and> (is_ok r \<longrightarrow> captured env pre (rev (rl_log s)))"
  using relay_traced [OF assms]
  by (auto elim!: preceded_weaken simp: event_ok_def deliveries_in_order_def split: relay_event.splits)

lemma record_size_take: "5 \<le> n \<Longrightarrow> record_size (take n s) = record_size s"
  by (simp add: record_size_def drop_take min_def)

text \<open>
  The check for whole records accepts exactly the sequences of TLS records, a header of five bytes with a
  payload of the length it gives.
\<close>

theorem complete_records_iff:
  "complete_records s \<longleftrightarrow> (\<exists>rs. s = concat rs \<and> list_all (\<lambda>r. 5 \<le> length r \<and> length r = record_size r) rs)"
proof
  show "complete_records s \<Longrightarrow> \<exists>rs. s = concat rs \<and> list_all (\<lambda>r. 5 \<le> length r \<and> length r = record_size r) rs"
  proof (induction s rule: complete_records.induct)
    case (1 s)
    show ?case
    proof (cases "s = []")
      case False
      with 1(2) have l: "5 \<le> length s" "record_size s \<le> length s" "complete_records (drop (record_size s) s)"
        by (subst (asm) complete_records.simps, simp split: if_splits)+
      with 1(1) False obtain rs where rs: "drop (record_size s) s = concat rs"
        "list_all (\<lambda>r. 5 \<le> length r \<and> length r = record_size r) rs" by (meson not_less)
      have n: "5 \<le> record_size s" by (simp add: record_size_def)
      from record_size_take [OF this] have "record_size (take (record_size s) s) = record_size s" .
      moreover have "s = concat (take (record_size s) s # rs)" by (simp flip: rs(1))
      ultimately show ?thesis using n l(2) rs(2)
        by (intro exI [of _ "take (record_size s) s # rs"]) (simp add: min_def)
    qed (auto intro: exI [of _ "[]"])
  qed
next
  assume "\<exists>rs. s = concat rs \<and> list_all (\<lambda>r. 5 \<le> length r \<and> length r = record_size r) rs"
  then obtain rs where "s = concat rs" "list_all (\<lambda>r. 5 \<le> length r \<and> length r = record_size r) rs" by blast
  then show "complete_records s"
  proof (induction rs arbitrary: s)
    case (Cons r rs)
    then have r: "5 \<le> length r" "length r = record_size r" "complete_records (concat rs)" by auto
    have "record_size (r @ concat rs) = record_size r" using r(1) by (simp add: record_size_def)
    with r Cons.prems show ?case by (subst complete_records.simps) auto
  qed (subst complete_records.simps, simp)
qed

section \<open>An example\<close>

text \<open>A miner and a provider that send three records each; the verifier accepts and the hooks do nothing.\<close>

definition record5 :: "nat \<Rightarrow> string" where
  "record5 n = [char_of n, CHR 0x03, CHR 0x03, CHR 0x00, CHR 0x00]"

definition example_verifier :: "string \<Rightarrow> files \<Rightarrow> 'w \<Rightarrow> ((string, json) dict result \<times> files) \<times> 'w" where
  "example_verifier m files w =
     ((Inr [(''released'', JInt (int (length (dget_default files ''client.bin'' [])))), (''provider_status'', JInt 200)],
       dset_all [(''handshake.json'', ''h''), (''authorization.json'', ''a''), (''request.json'', ''q''), (''response.sse'', ''r'')] files), w)"


definition example_relay_env :: "(string list \<times> string list, unit) relay_env" where
  "example_relay_env = \<lparr>ve_fuel = 5, ve_auth = \<lparr>ae_sha = (\<lambda>s. s), ae_format = (\<lambda>_. True), ae_keypair = (\<lambda>_. Inr ()), ae_verify = (\<lambda>_ _ _. True)\<rparr>,
     ve_monotonic = act_return 0, ve_time = act_return 0, ve_connect = act_return (), ve_close = act_return (),
     ve_readable = (\<lambda>_. act_return True),
     ve_recv = (\<lambda>w. case snd w of [] \<Rightarrow> (Inr [], w) | x # xs \<Rightarrow> (Inr x, (fst w, xs))),
     ve_sendall = (\<lambda>_. act_return ()),
     ve_channel_recv = (\<lambda>_ w. case fst w of [] \<Rightarrow> (Inl timeout_error, w) | x # xs \<Rightarrow> (Inr x, (xs, snd w))),
     ve_channel_claim = (\<lambda>phase. act_return (Some phase)), ve_channel_send = (\<lambda>_. act_return ()), ve_channel_notify = (\<lambda>_. act_return ()),
     ve_channel_finish = act_return (), ve_write = (\<lambda>_ _. act_return ()), ve_verify = example_verifier, ve_put = (\<lambda>_ _. act_return ()),
     ve_before_release = Some (\<lambda>_. act_return (Some 600)), ve_extra = None, ve_seal = Some act_return,
     ve_before_delivery = None, ve_observe_failure = None,
     ve_json = (\<lambda>raw. Some (JObj [(''client_bytes'', JInt (if raw = ''handshake'' then 10 else 15))])), ve_dumps = (\<lambda>_. ''{}''), ve_int = (\<lambda>_. Inl KeyError)\<rparr>"

definition example_hotkey :: string where "example_hotkey = replicate 48 (CHR ''5'')"

definition example_path :: string where "example_path = ''rounds/cup-4/'' @ example_hotkey @ ''/x1''"

definition example_start_state :: "(string list \<times> string list) relay" where
  "example_start_state = new_relay [] (map record5 [22, 23, 24], map record5 [25, 26, 27])"

lemma example_relay_laws: "verifier_laws example_relay_env"
  by (auto simp: verifier_laws_def example_relay_env_def example_verifier_def gate_released_def dget_default_def)

lemma example_identity:
  "miner_prefix (ve_auth example_relay_env) ''cup-4'' example_hotkey = Inr (path_parent example_path)" "path_name example_path = Inr ''x1''"
  by code_simp+

lemma example_captured: "is_ok (fst (capture example_relay_env p None ''cup-4'' h ''x1'' example_start_state))"
  by code_simp

lemma example_relay: "is_ok (fst (relay_run example_relay_env example_path None ''cup-4'' example_hotkey [] example_start_state))"
  using example_captured by (simp add: relay_run_def act_bind_def act_simps example_identity)

theorem request_waits_for_authorization_witness:
  "\<exists>r s. relay_run example_relay_env example_path None ''cup-4'' example_hotkey [] example_start_state = (r, s) \<and> is_ok r \<and>
     preceded (releases_in_order example_relay_env example_path) [] (rl_log s)"
proof -
  obtain r s where run: "relay_run example_relay_env example_path None ''cup-4'' example_hotkey [] example_start_state = (r, s)" by force
  from request_waits_for_authorization [OF example_relay_laws run [unfolded example_start_state_def]] example_relay run
  show ?thesis by auto
qed

theorem answer_waits_for_evidence_witness:
  "\<exists>r s. relay_run example_relay_env example_path None ''cup-4'' example_hotkey [] example_start_state = (r, s) \<and>
     releases (rev (rl_log s)) = 3 \<and> to_miner (rev (rl_log s)) = from_provider (rev (rl_log s))"
proof -
  obtain r s where run: "relay_run example_relay_env example_path None ''cup-4'' example_hotkey [] example_start_state = (r, s)" by force
  from answer_waits_for_evidence [OF example_relay_laws run [unfolded example_start_state_def]] example_relay run
  show ?thesis by (auto simp: captured_def)
qed

end
