(* ===== verification/PodRuntime.thy ===== *)
theory PodRuntime
  imports Rounds Selection Budget Relay Submissions
begin

text \<open>
  The witness pod, \<^verbatim>\<open>PodRuntime\<close> of \<^verbatim>\<open>witness_pod/pod.py\<close>: its fences (draining, the selection, the policy of the
  round), the captures it starts, its evidence and spool. The call records, the budget and the selection are
  those of their theories, on the pod's world; the clocks, the disk, the evidence store, the verifier process,
  JSON and the content of diagnostics are parameters. \<open>px_others\<close> is what other threads did while one waited for
  the lock: it may change everything but the spool, in which each thread has a directory of its own, and the log, which
  is for the properties only. A loop that retries an upload takes fuel.
\<close>

section \<open>State\<close>

datatype pod_event =
    Taken string
  | Untaken string
  | Superseded string
  | Located string call
  | Reserving string
  | Unreserved string
  | Authorized string
  | Discarded string
  | IssuedAs string string
  | FailedAs string bool
  | Uploaded string string
  | Removing string

record 'w runtime =
  pt_world :: 'w
  pt_rates :: model_table
  pt_pricing :: string
  pt_policy :: "round_policy option"
  pt_until :: pyfloat
  pt_active :: "string list"
  pt_rendering :: int
  pt_accepting :: bool
  pt_draining :: bool
  pt_last_used :: pyfloat
  pt_spool :: "(string, files) dict"
  pt_log :: "pod_event list"

record ('w, 'k) runtime_env =
  px_scope :: scope
  px_start :: string
  px_pod :: string
  px_proof :: string
  px_round_end :: "int option"
  px_inputs :: "round_inputs option"
  px_max :: nat
  px_idle :: int
  px_fuel :: nat
  px_clock :: "('w, pyfloat) action"
  px_time :: "('w, pyfloat) action"
  px_sleep :: "int \<Rightarrow> ('w, unit) action"
  px_selection :: "'w sel_load option"
  px_records :: "'w call_context"
  px_budget :: "'w budget_env"
  px_get :: "string \<Rightarrow> ('w, string option) action"
  px_put :: "string \<Rightarrow> string \<Rightarrow> ('w, unit) action"
  px_write :: "string \<Rightarrow> string \<Rightarrow> string \<Rightarrow> ('w, unit) action"
  px_unlink :: "string \<Rightarrow> string \<Rightarrow> ('w, unit) action"
  px_rmtree :: "string \<Rightarrow> files \<Rightarrow> 'w \<Rightarrow> (unit result \<times> files) \<times> 'w"
  px_verify :: "string \<Rightarrow> files \<Rightarrow> 'w \<Rightarrow> ((string, json) dict result \<times> files) \<times> 'w"
  px_completed :: "string \<Rightarrow> bool"
  px_policy_of :: "json \<Rightarrow> round_policy result"
  px_diagnostic :: "call \<Rightarrow> exn \<Rightarrow> string \<Rightarrow> ('w, string \<times> string) action"
  px_hash :: "json \<Rightarrow> string"
  px_sha :: "string \<Rightarrow> string"
  px_json :: "string \<Rightarrow> json option"
  px_dumps :: "json \<Rightarrow> string"
  px_others :: "'w runtime \<Rightarrow> 'w runtime"
  px_relay :: "('w, 'k) relay_env"

type_synonym ('w, 'a) pt_action = "('w runtime, 'a) action"

definition world :: "('w, 'a) action \<Rightarrow> ('w, 'a) pt_action" where
  "world m s = (case m (pt_world s) of (r, w) \<Rightarrow> (r, s\<lparr>pt_world := w\<rparr>))"

definition mark_event :: "pod_event \<Rightarrow> ('w, unit) pt_action" where
  "mark_event e = act_modify (\<lambda>s. s\<lparr>pt_log := pt_log s @ [e]\<rparr>)"

definition on_budget :: "('w budget, 'a) action \<Rightarrow> ('w, 'a) pt_action" where
  "on_budget m s = (case m \<lparr>bd_store = pt_world s, bd_rates = pt_rates s, bd_hash = pt_pricing s\<rparr> of
     (r, b) \<Rightarrow> (r, s\<lparr>pt_world := bd_store b, pt_rates := bd_rates b, pt_pricing := bd_hash b\<rparr>))"

text \<open>\<^verbatim>\<open>with self.lock\<close>\<close>

definition acquire :: "('w, 'k) runtime_env \<Rightarrow> 'w runtime \<Rightarrow> 'w runtime" where
  "acquire env s = (px_others env s)\<lparr>pt_spool := pt_spool s, pt_log := pt_log s\<rparr>"

definition locked :: "('w, 'k) runtime_env \<Rightarrow> ('w, 'a) pt_action \<Rightarrow> ('w, 'a) pt_action" where
  "locked env m = act_bind (act_modify (acquire env)) (\<lambda>_. m)"

definition exn_class :: "exn \<Rightarrow> string" where
  "exn_class e = (case e of
     FileNotFoundError _ \<Rightarrow> ''FileNotFoundError'' | ValueError _ \<Rightarrow> ''ValueError'' | ValidationError _ \<Rightarrow> ''ValidationError''
   | RuntimeError _ \<Rightarrow> ''RuntimeError'' | KeyError \<Rightarrow> ''KeyError'' | IndexError \<Rightarrow> ''IndexError''
   | ZeroDivisionError \<Rightarrow> ''ZeroDivisionError'' | AssertionError \<Rightarrow> ''AssertionError'' | HTTPStatusError _ \<Rightarrow> ''HTTPStatusError''
   | RequestError \<Rightarrow> ''RequestError'' | StateConflict _ \<Rightarrow> ''StateConflict'' | WriteRejected _ \<Rightarrow> ''WriteRejected''
   | WriteUncertain _ \<Rightarrow> ''WriteUncertain'' | AuthRejected _ _ \<Rightarrow> ''AuthRejected'' | CapacityReached _ \<Rightarrow> ''CapacityReached''
   | CreateDeferred _ \<Rightarrow> ''CreateDeferred'' | AllocationConflict _ \<Rightarrow> ''AllocationConflict''
   | InventoryConflict _ \<Rightarrow> ''InventoryConflict'' | ProviderUnavailable _ \<Rightarrow> ''ProviderUnavailable''
   | CreateRejected _ \<Rightarrow> ''CreateRejected'' | CreateUnknown _ \<Rightarrow> ''CreateUnknown'' | BudgetRejected _ \<Rightarrow> ''BudgetRejected''
   | BudgetNotReserved _ \<Rightarrow> ''BudgetNotReserved'' | RecordingConflict _ \<Rightarrow> ''RecordingConflict'' | PyException n \<Rightarrow> n)"

definition is_value_error :: "exn \<Rightarrow> bool" where
  "is_value_error e = (case e of ValueError _ \<Rightarrow> True | ValidationError _ \<Rightarrow> True | _ \<Rightarrow> False)"

definition is_auth_rejected :: "exn \<Rightarrow> bool" where
  "is_auth_rejected e = (case e of AuthRejected _ _ \<Rightarrow> True | _ \<Rightarrow> False)"

definition is_uncertain :: "exn \<Rightarrow> bool" where
  "is_uncertain e = (case e of WriteUncertain _ \<Rightarrow> True | _ \<Rightarrow> False)"

definition is_not_reserved :: "exn \<Rightarrow> bool" where
  "is_not_reserved e = (case e of BudgetNotReserved _ \<Rightarrow> True | _ \<Rightarrow> False)"

section \<open>The fences\<close>

definition pod_drain :: "('w, 'k) runtime_env \<Rightarrow> ('w, unit) pt_action" where
  "pod_drain env = locked env (act_modify (\<lambda>s. s\<lparr>pt_accepting := False, pt_draining := True\<rparr>))"

definition quiet :: "'w runtime \<Rightarrow> bool" where
  "quiet s = (pt_active s = [] \<and> pt_rendering s = 0)"

definition pod_tick :: "('w, 'k) runtime_env \<Rightarrow> ('w, bool) pt_action" where
  "pod_tick env = locked env
     (act_bind (act_get quiet) (\<lambda>idle.
      act_bind (if idle
         then act_bind (world (px_clock env)) (\<lambda>now. act_modify (\<lambda>s.
           if of_int (px_idle env) \<le> fsub now (pt_last_used s) then s\<lparr>pt_accepting := False, pt_draining := True\<rparr> else s))
         else act_return ()) (\<lambda>_.
      act_get (\<lambda>s. pt_draining s \<and> quiet s))))"

text \<open>What \<^verbatim>\<open>selected\<close> and \<^verbatim>\<open>require_generation\<close> do once the lock is held: the lock is reentrant.\<close>

definition holds_selection :: "('w, 'k) runtime_env \<Rightarrow> ('w, bool) pt_action" where
  "holds_selection env = act_bind (act_get (\<lambda>s. pt_accepting s \<and> \<not> pt_draining s)) (\<lambda>open'.
     if \<not> open' then act_return False
     else (case px_selection env of None \<Rightarrow> act_return True
       | Some load \<Rightarrow> world (selected load (px_scope env) (px_start env) (px_pod env))))"

definition pod_selected :: "('w, 'k) runtime_env \<Rightarrow> ('w, bool) pt_action" where
  "pod_selected env = locked env (holds_selection env)"

definition require_policy :: "('w, 'k) runtime_env \<Rightarrow> ('w, unit) pt_action" where
  "require_policy env =
     (case px_inputs env of None \<Rightarrow> act_return ()
      | Some i \<Rightarrow>
          act_bind (act_get (\<lambda>s. (pt_policy s, pt_until s))) (\<lambda>(policy, until).
            case policy of None \<Rightarrow> act_raise stale_policy
            | Some p \<Rightarrow>
                act_bind (world (px_clock env)) (\<lambda>now.
                  if until \<le> now then act_raise stale_policy
                  else act_bind (world (px_time env)) (\<lambda>t. act_lift (policy_require (px_hash env) p i t True)))))"

definition require_open :: "('w, 'k) runtime_env \<Rightarrow> ('w, unit) pt_action" where
  "require_open env = (case px_round_end env of None \<Rightarrow> act_return ()
     | Some e \<Rightarrow> act_bind (world (px_time env)) (\<lambda>t. if of_int e \<le> t then act_raise round_closed else act_return ()))"

definition require_generation :: "('w, 'k) runtime_env \<Rightarrow> ('w, unit) pt_action" where
  "require_generation env = act_bind (require_policy env) (\<lambda>_. require_open env)"

definition install_policy :: "('w, 'k) runtime_env \<Rightarrow> json \<Rightarrow> string \<Rightarrow> string \<Rightarrow> ('w, unit) pt_action" where
  "install_policy env v pod_id start_id = locked env
     (act_bind (act_modify (\<lambda>s. s\<lparr>pt_policy := None, pt_until := 0\<rparr>)) (\<lambda>_.
        if pod_id \<noteq> px_pod env \<or> start_id \<noteq> px_start env \<or> v = JNull then act_return ()
        else
          act_bind (act_lift (px_policy_of env v)) (\<lambda>p.
          act_bind (act_modify (\<lambda>s. s\<lparr>pt_policy := Some p\<rparr>)) (\<lambda>_.
          act_bind (world (px_clock env)) (\<lambda>now.
          act_bind (world (px_time env)) (\<lambda>t.
            act_modify (\<lambda>s. s\<lparr>pt_until := fadd now (max 0 (min 120 (fsub (po_expires p) t)))\<rparr>)))))))"

text \<open>The commands of the gateway in \<^verbatim>\<open>run\<close>; \<open>True\<close> when the pod may go.\<close>

definition pod_command :: "('w, 'k) runtime_env \<Rightarrow> (string, json) dict \<Rightarrow> ('w, (string, json) dict option \<times> bool) pt_action" where
  "pod_command env v =
     (let kind = dget v ''type''; str = (\<lambda>k. case dget v k of Some (JStr x) \<Rightarrow> x | _ \<Rightarrow> ''None'') in
      if kind = Some (JStr ''activate'')
      then act_bind (locked env (act_modify (\<lambda>s. s\<lparr>pt_accepting := \<not> pt_draining s\<rparr>))) (\<lambda>_. act_return (None, False))
      else if kind = Some (JStr ''round_policy'')
      then act_bind (install_policy env (dget_default v ''policy'' JNull) (str ''pod_id'') (str ''start_id'')) (\<lambda>_. act_return (None, False))
      else
        act_bind (if kind = Some (JStr ''retired'') then pod_tick env else act_return False) (\<lambda>gone.
          if gone then act_return (None, True)
          else if kind = Some (JStr ''drain'')
          then act_bind (pod_drain env) (\<lambda>_.
            act_bind (act_lift (some_or (dget v ''id'') KeyError)) (\<lambda>i.
              act_return (Some [(''type'', JStr ''reply''), (''id'', i), (''drained'', JBool False)], False)))
          else act_raise (ValueError ''Unknown control command'')))"

text \<open>The heartbeat sent after each command, without the certificate.\<close>

definition heartbeat :: "('w, 'k) runtime_env \<Rightarrow> ('w, (string, json) dict) pt_action" where
  "heartbeat env = locked env (act_get (\<lambda>s. [(''type'', JStr ''heartbeat''), (''ready'', JBool (pt_accepting s \<and> \<not> pt_draining s)),
     (''active'', JInt (int (length (pt_active s)) + pt_rendering s)), (''proof_key_sha256'', JStr (px_proof env))]))"

section \<open>The spool and the evidence\<close>

definition store_prefix :: "('w, 'k) runtime_env \<Rightarrow> string" where
  "store_prefix env = (case px_inputs env of None \<Rightarrow> [] | Some i \<Rightarrow> ri_storage_prefix i)"

definition exchange_path :: "('w, 'k) runtime_env \<Rightarrow> string \<Rightarrow> string" where
  "exchange_path env x = ''rounds/'' @ sc_round (px_scope env) @ ''/'' @ sc_hotkey (px_scope env) @ ''/'' @ x"

definition evidence_prefix :: "('w, 'k) runtime_env \<Rightarrow> string \<Rightarrow> string" where
  "evidence_prefix env x = store_prefix env @ exchange_path env x"

definition read_evidence :: "('w, 'k) runtime_env \<Rightarrow> string \<Rightarrow> ('w, string option) pt_action" where
  "read_evidence env key = world (px_get env (store_prefix env @ key))"

definition upload :: "('w, 'k) runtime_env \<Rightarrow> string \<Rightarrow> string \<Rightarrow> ('w, unit) pt_action" where
  "upload env key b = act_bind (world (px_put env key b)) (\<lambda>_. mark_event (Uploaded key b))"

definition spool_files :: "'w runtime \<Rightarrow> string \<Rightarrow> files" where
  "spool_files s x = dget_default (pt_spool s) x []"

definition make_directory :: "string \<Rightarrow> ('w, unit) pt_action" where
  "make_directory x = act_modify (\<lambda>s. s\<lparr>pt_spool := dset x (spool_files s x) (pt_spool s)\<rparr>)"

definition save_file :: "('w, 'k) runtime_env \<Rightarrow> string \<Rightarrow> string \<Rightarrow> string \<Rightarrow> ('w, unit) pt_action" where
  "save_file env x name b = act_bind (world (px_write env x name b)) (\<lambda>_.
     act_modify (\<lambda>s. s\<lparr>pt_spool := dset x (dset name b (spool_files s x)) (pt_spool s)\<rparr>))"

definition get_file :: "string \<Rightarrow> string \<Rightarrow> ('w, string) pt_action" where
  "get_file x name = act_bind (act_get (\<lambda>s. dget (spool_files s x) name)) (\<lambda>f. act_lift (some_or f (FileNotFoundError name)))"

definition canonical_id :: "string \<Rightarrow> ('w, unit) pt_action" where
  "canonical_id x = act_bind (act_lift (session_uuid x)) (\<lambda>_. act_return ())"

definition save_failure :: "('w, 'k) runtime_env \<Rightarrow> call \<Rightarrow> ('w, unit) pt_action" where
  "save_failure env c =
     (let x = cl_exchange c;
          body = px_dumps env (JObj [(''status'', JStr ''failed''),
            (''error_type'', case cl_failure c of None \<Rightarrow> JNull | Some f \<Rightarrow> JStr f)])
      in act_bind (canonical_id x) (\<lambda>_.
         act_bind (act_get (\<lambda>s. dhas (pt_spool s) x)) (\<lambda>present.
         act_bind (if present then save_file env x ''failure.json'' body else act_return ()) (\<lambda>_.
           upload env (evidence_prefix env x @ ''/failure.json'') body))))"

definition diagnostic_name :: "string \<Rightarrow> bool" where
  "diagnostic_name n = (take 12 n = ''diagnostics/'' \<and> drop (length n - 5) n = ''.json'')"

definition save_diagnostic :: "('w, 'k) runtime_env \<Rightarrow> call \<Rightarrow> exn \<Rightarrow> string \<Rightarrow> ('w, unit) pt_action" where
  "save_diagnostic env c e operation =
     act_handle
       (act_bind (world (px_diagnostic env c e operation)) (\<lambda>(record_id, body).
        act_bind (canonical_id (cl_exchange c)) (\<lambda>_.
        act_bind (act_get (\<lambda>s. dget (pt_spool s) (cl_exchange c))) (\<lambda>directory.
          case directory of None \<Rightarrow> act_raise (FileNotFoundError ''diagnostics'')
          | Some files \<Rightarrow>
              (let name = ''diagnostics/'' @ record_id @ ''.json''
               in if dhas files name then act_return () else save_file env (cl_exchange c) name body)))))
       (\<lambda>error. if is_os_error error \<or> is_value_error error then act_return () else act_raise error)
       act_return"

fun upload_files :: "('w, 'k) runtime_env \<Rightarrow> string \<Rightarrow> (string \<times> string) list \<Rightarrow> ('w, unit) pt_action" where
  "upload_files env pre [] = act_return ()"
| "upload_files env pre ((name, b) # files) = act_bind (upload env (pre @ ''/'' @ name) b) (\<lambda>_. upload_files env pre files)"

definition upload_diagnostics :: "('w, 'k) runtime_env \<Rightarrow> string \<Rightarrow> ('w, unit) pt_action" where
  "upload_diagnostics env x =
     act_bind (canonical_id x) (\<lambda>_.
     act_bind (act_get (\<lambda>s. sort_key fst (filter (\<lambda>(n, _). diagnostic_name n) (spool_files s x)))) (\<lambda>files.
       upload_files env (evidence_prefix env x) files))"

definition try_upload_diagnostics :: "('w, 'k) runtime_env \<Rightarrow> string \<Rightarrow> ('w, unit) pt_action" where
  "try_upload_diagnostics env x = act_handle (upload_diagnostics env x) (\<lambda>_. act_return ()) act_return"

fun retry_upload :: "nat \<Rightarrow> ('w, 'k) runtime_env \<Rightarrow> int \<Rightarrow> ('w, 'a) pt_action \<Rightarrow> ('w, 'a) pt_action" where
  "retry_upload 0 env delay operation = act_raise (PyException ''out of fuel'')"
| "retry_upload (Suc n) env delay operation =
     act_handle operation
       (\<lambda>_. act_bind (world (px_sleep env delay)) (\<lambda>_. retry_upload n env (min 30 (delay * 2)) operation))
       act_return"

text \<open>\<open>PUBLIC_EVIDENCE\<close>, sorted.\<close>

definition PUBLIC_EVIDENCE :: "string list" where
  "PUBLIC_EVIDENCE = [''authorization-server.bin'', ''authorization.json'', ''claim.json'', ''client.bin'', ''handshake.json'',
     ''request.json'', ''response.sse'', ''server.bin'', ''session.json'']"

definition present_files :: "string list \<Rightarrow> files \<Rightarrow> (string \<times> string) list" where
  "present_files names files = concat (map (\<lambda>n. case dget files n of None \<Rightarrow> [] | Some b \<Rightarrow> [(n, b)]) names)"

definition remove_spool :: "('w, 'k) runtime_env \<Rightarrow> string \<Rightarrow> ('w, unit) pt_action" where
  "remove_spool env x =
     act_bind (mark_event (Removing x)) (\<lambda>_ s.
       case dget (pt_spool s) x of
         None \<Rightarrow> (Inr (), s)
       | Some files \<Rightarrow>
           (case px_rmtree env x files (pt_world s) of
              ((Inl e, left), w) \<Rightarrow>
                ((case e of FileNotFoundError _ \<Rightarrow> Inr () | _ \<Rightarrow> Inl e), s\<lparr>pt_world := w, pt_spool := dset x left (pt_spool s)\<rparr>)
            | ((Inr _, _), w) \<Rightarrow> (Inr (), s\<lparr>pt_world := w, pt_spool := ddel x (pt_spool s)\<rparr>)))"

definition remove_exchange :: "('w, 'k) runtime_env \<Rightarrow> string \<Rightarrow> bool \<Rightarrow> ('w, unit) pt_action" where
  "remove_exchange env x save_evidence =
     act_bind (canonical_id x) (\<lambda>_.
     act_bind (act_get (\<lambda>s. spool_files s x)) (\<lambda>files.
     act_bind (if save_evidence then upload_files env (evidence_prefix env x) (present_files (''failure.json'' # PUBLIC_EVIDENCE) files)
        else act_return ()) (\<lambda>_.
     act_bind (upload_diagnostics env x) (\<lambda>_. remove_spool env x))))"

definition cleanup :: "('w, 'k) runtime_env \<Rightarrow> string \<Rightarrow> bool \<Rightarrow> ('w, unit) pt_action" where
  "cleanup env x save_evidence = retry_upload (px_fuel env) env 1 (remove_exchange env x save_evidence)"

definition artifact_key :: "('w, 'k) runtime_env \<Rightarrow> string \<Rightarrow> string \<Rightarrow> string \<Rightarrow> string result" where
  "artifact_key env x name digest =
     (if name \<notin> set (''manifest.json'' # PUBLIC_EVIDENCE) \<or> \<not> hash_ok digest then Inl (ValueError ''Invalid public evidence object'')
      else rmap (\<lambda>x. store_prefix env @ ''evidence/v1/'' @ sc_deployment (px_scope env) @ ''/'' @ sc_round (px_scope env) @ ''/'' @
        sc_hotkey (px_scope env) @ ''/'' @ x @ ''/'' @ digest @ ''/'' @ name) (session_uuid x))"

fun publish_objects :: "('w, 'k) runtime_env \<Rightarrow> string \<Rightarrow> string list \<Rightarrow> ('w, (string, json) dict) pt_action" where
  "publish_objects env x [] = act_return []"
| "publish_objects env x (name # names) =
     act_bind (world (px_get env (evidence_prefix env x @ ''/'' @ name))) (\<lambda>raw.
       case raw of None \<Rightarrow> publish_objects env x names
       | Some b \<Rightarrow>
           act_bind (act_lift (artifact_key env x name (px_sha env b))) (\<lambda>key.
           act_bind (upload env key b) (\<lambda>_.
           act_bind (publish_objects env x names) (\<lambda>objects.
             act_return ((name, JObj [(''key'', JStr key), (''sha256'', JStr (px_sha env b)), (''size'', JInt (int (length b)))]) # objects)))))"

definition publish :: "('w, 'k) runtime_env \<Rightarrow> string \<Rightarrow> (string, json) dict \<Rightarrow> ('w, (string, json) dict) pt_action" where
  "publish env x metadata =
     act_bind (canonical_id x) (\<lambda>_.
     act_bind (publish_objects env x PUBLIC_EVIDENCE) (\<lambda>objects. act_return (dset ''artifacts'' (JObj objects) metadata)))"

section \<open>Starting a capture\<close>

datatype pod_job = Capturing_job | Recovery_job

definition claim_call :: "('w, 'k) runtime_env \<Rightarrow> request_key \<Rightarrow> string \<Rightarrow> string \<Rightarrow> ('w, bool) pt_action" where
  "claim_call env request x capture_id =
     act_bind (world (claim (px_records env) (px_scope env) request (px_pod env) capture_id)) (\<lambda>ok.
     act_bind (mark_event (if ok then Taken x else Untaken x)) (\<lambda>_. act_return ok))"

definition submit_job :: "('w, 'k) runtime_env \<Rightarrow> string \<Rightarrow> pod_job \<Rightarrow> ('w, bool \<times> pod_job option) pt_action" where
  "submit_job env x job =
     act_bind (act_modify (\<lambda>s. s\<lparr>pt_active := pt_active s @ [x]\<rparr>)) (\<lambda>_.
     act_bind (world (px_clock env)) (\<lambda>now.
     act_bind (act_modify (\<lambda>s. s\<lparr>pt_last_used := now\<rparr>)) (\<lambda>_.
       act_return (job = Capturing_job, Some job))))"

text \<open>Whether the miner may connect, and the job given to the executor.\<close>

definition start_capture :: "('w, 'k) runtime_env \<Rightarrow> request_key \<Rightarrow> call \<Rightarrow> ('w, bool \<times> pod_job option) pt_action" where
  "start_capture env request c = locked env
     (let x = cl_exchange c; no = act_return (False, None) in
      act_bind (act_get (\<lambda>s. x \<in> set (pt_active s))) (\<lambda>running.
        if running then no
        else act_bind (holds_selection env) (\<lambda>sel.
        act_bind (act_get (\<lambda>s. pt_draining s \<or> px_max env \<le> length (pt_active s))) (\<lambda>busy.
          if \<not> sel \<or> busy then no
          else
            act_handle (require_generation env) (\<lambda>e. if is_auth_rejected e then no else act_raise e) (\<lambda>_.
              case cl_capture c of
                None \<Rightarrow> no
              | Some capture_id \<Rightarrow>
                  if cl_pod c \<noteq> Some (px_pod env) \<or> cl_start c \<noteq> Some (px_start env) then no
                  else
                    act_bind (canonical_id x) (\<lambda>_.
                    act_bind (make_directory x) (\<lambda>_.
                    act_bind (save_file env x ''pending-claim'' capture_id) (\<lambda>_.
                      act_handle (claim_call env request x capture_id)
                        (\<lambda>e. if is_uncertain e then submit_job env x Recovery_job else act_raise e)
                        (\<lambda>ok. if ok then submit_job env x Capturing_job
                              else act_bind (cleanup env x False) (\<lambda>_. no))))))))))"

definition capture_done :: "('w, 'k) runtime_env \<Rightarrow> string \<Rightarrow> ('w, unit) pt_action" where
  "capture_done env x = locked env
     (act_bind (act_modify (\<lambda>s. s\<lparr>pt_active := filter (\<lambda>y. y \<noteq> x) (pt_active s)\<rparr>)) (\<lambda>_.
      act_bind (world (px_clock env)) (\<lambda>now. act_modify (\<lambda>s. s\<lparr>pt_last_used := now\<rparr>))))"

text \<open>The renderer of \<^verbatim>\<open>direct.py\<close> counts its requests the same way: \<^verbatim>\<open>admit\<close> and \<^verbatim>\<open>_artifact_done\<close>.\<close>

definition admit_render :: "('w, 'k) runtime_env \<Rightarrow> ('w, unit) pt_action" where
  "admit_render env = locked env
     (act_bind (holds_selection env) (\<lambda>sel.
        if \<not> sel then act_raise (AuthRejected ''pod_not_selected'' 409)
        else act_bind (require_generation env) (\<lambda>_. act_bind (require_open env) (\<lambda>_.
          act_modify (\<lambda>s. s\<lparr>pt_rendering := pt_rendering s + 1\<rparr>)))))"

definition render_done :: "('w, 'k) runtime_env \<Rightarrow> ('w, unit) pt_action" where
  "render_done env = locked env
     (act_bind (act_modify (\<lambda>s. s\<lparr>pt_rendering := pt_rendering s - 1\<rparr>)) (\<lambda>_.
      act_bind (world (px_clock env)) (\<lambda>now. act_modify (\<lambda>s. s\<lparr>pt_last_used := now\<rparr>))))"

text \<open>The constructor: what is left in the spool is recovered.\<close>

definition new_runtime :: "('w, 'k) runtime_env \<Rightarrow> url_parts \<Rightarrow> string \<Rightarrow> (string, files) dict \<Rightarrow> model_table \<Rightarrow> string \<Rightarrow> pyfloat \<Rightarrow> 'w \<Rightarrow> 'w runtime result" where
  "new_runtime env u query spool rates pricing now w =
     (if up_scheme u \<noteq> ''https'' \<or> up_hostname u \<in> {None, Some []} \<or> up_path u \<notin> {[], ''/''} \<or> query \<noteq> [] \<or> up_fragment u \<noteq> [] \<or>
         up_username u \<notin> {None, Some []}
      then Inl (ValueError ''Gateway must be an HTTPS origin'')
      else if px_idle env < 1800 \<or> px_max env < 1 \<or> 32 < px_max env then Inl (ValueError ''Invalid Pod concurrency or idle lifetime'')
      else if \<not> is_ok (session_uuid (px_start env)) then Inl (ValueError ''session UUID'')
      else if (case px_inputs env of None \<Rightarrow> False | Some i \<Rightarrow> ri_round i \<noteq> sc_round (px_scope env))
      then Inl (ValueError ''Frozen inputs belong to another round'')
      else Inr \<lparr>pt_world = w, pt_rates = rates, pt_pricing = pricing, pt_policy = None, pt_until = 0,
        pt_active = filter uuid_ok (map fst spool), pt_rendering = 0, pt_accepting = False, pt_draining = False, pt_last_used = now,
        pt_spool = spool, pt_log = []\<rparr>)"

end
