(* ===== verification/PodCapture.thy ===== *)
theory PodCapture
  imports PodRuntime
begin

text \<open>
  One capture of the witness pod: \<^verbatim>\<open>recovery.py\<close>, and \<^verbatim>\<open>_recover\<close>, \<^verbatim>\<open>_capture\<close> and \<^verbatim>\<open>_finalize\<close> of
  \<^verbatim>\<open>witness_pod/pod.py\<close>. \<^verbatim>\<open>_capture\<close> runs the relay of \<^verbatim>\<open>Relay\<close> with its hooks on the state of the pod, so that
  the dispatch is reserved and the outcome recorded by the operations of \<^verbatim>\<open>Budget\<close> and \<^verbatim>\<open>CallRecords\<close>.
  Which fact a diagnostic reports (\<^verbatim>\<open>FailureObservation\<close>) is left to its parameter.
\<close>

section \<open>Outcomes\<close>

definition json_object :: "('w, 'k) runtime_env \<Rightarrow> string \<Rightarrow> (string, json) dict result" where
  "json_object env raw = (case px_json env raw of None \<Rightarrow> Inl (ValueError ''json'')
     | Some (JObj m) \<Rightarrow> Inr m | Some _ \<Rightarrow> Inl (ValueError ''Expected a JSON object''))"

definition opt_str :: "string option \<Rightarrow> json" where
  "opt_str x = (case x of None \<Rightarrow> JNull | Some s \<Rightarrow> JStr s)"

definition request_json :: "request_key \<Rightarrow> json" where
  "request_json k = JObj ([(''provider'', JStr (rk_provider k)), (''request_sha256'', JStr (rk_sha k)), (''request_id'', JInt (rk_id k))] @
     (case rk_session k of None \<Rightarrow> [] | Some s \<Rightarrow> [(''session_id'', JStr s)]))"

definition response_failure :: "('w, 'k) runtime_env \<Rightarrow> (string, json) dict \<Rightarrow> string \<Rightarrow> string option" where
  "response_failure env metadata response =
     (if \<not> json_eq (JInt 200) (dget_default metadata ''provider_status'' JNull) then Some ''ProviderHTTPError''
      else if dget_default metadata ''usage'' JNull = JNull then Some ''InvalidProviderResponse''
      else if \<not> px_completed env response then Some ''InvalidProviderResponse'' else None)"

definition locate_call :: "('w, 'k) runtime_env \<Rightarrow> string \<Rightarrow> ('w, (request_key \<times> call) option) pt_action" where
  "locate_call env x =
     act_bind (world (locate (px_records env) (px_scope env) x)) (\<lambda>found.
     act_bind (case found of None \<Rightarrow> act_return () | Some (_, c) \<Rightarrow> mark_event (Located x c)) (\<lambda>_. act_return found))"

definition issue_call :: "('w, 'k) runtime_env \<Rightarrow> request_key \<Rightarrow> string \<Rightarrow> string \<Rightarrow> string \<Rightarrow> ('w, unit) pt_action" where
  "issue_call env request pod_id digest x =
     act_bind (world (issued (px_records env) (px_scope env) request pod_id digest x)) (\<lambda>_. mark_event (IssuedAs x digest))"

definition fail_call :: "('w, 'k) runtime_env \<Rightarrow> request_key \<Rightarrow> string \<Rightarrow> string \<Rightarrow> string \<Rightarrow> bool \<Rightarrow> string option \<Rightarrow> ('w, unit) pt_action" where
  "fail_call env request pod_id failure x not_dispatched digest =
     act_bind (world (failed (px_records env) (px_scope env) request pod_id failure x not_dispatched digest)) (\<lambda>_.
       mark_event (FailedAs x not_dispatched))"

definition discard_call :: "('w, 'k) runtime_env \<Rightarrow> request_key \<Rightarrow> string \<Rightarrow> ('w, unit) pt_action" where
  "discard_call env request x =
     act_bind (on_budget (discard (px_budget env) (px_scope env) request x)) (\<lambda>_. mark_event (Discarded x))"

definition settle_call :: "('w, 'k) runtime_env \<Rightarrow> request_key \<Rightarrow> (string, json) dict \<Rightarrow> string \<Rightarrow> ('w, unit) pt_action" where
  "settle_call env request metadata x =
     on_budget (settle (px_budget env) (px_scope env) request (dget_default metadata ''usage'' JNull) (Some x))"

section \<open>Recovery from durable evidence\<close>

definition durable_binding :: "('w, 'k) runtime_env \<Rightarrow> request_key \<Rightarrow> call \<Rightarrow> (string \<times> json) list" where
  "durable_binding env request c =
     [(''call_id'', JStr (cx_id (px_records env) request)), (''request_key'', request_json request),
      (''round'', JStr (sc_round (px_scope env))), (''hotkey'', JStr (sc_hotkey (px_scope env))),
      (''exchange_id'', JStr (cl_exchange c)), (''pod_id'', opt_str (cl_pod c)), (''pod_start_id'', opt_str (cl_start c)),
      (''proof_key_sha256'', JStr (px_proof env))]"

definition payload_differs :: "('w, 'k) runtime_env \<Rightarrow> request_key \<Rightarrow> (string, json) dict \<Rightarrow> string \<Rightarrow> string \<Rightarrow> string \<Rightarrow> bool" where
  "payload_differs env request metadata digest body response =
     (digest \<noteq> rk_sha request \<or> \<not> json_eq (JStr (px_sha env body)) (dget_default metadata ''request_sha256'' JNull) \<or>
      \<not> json_eq (JStr (px_sha env response)) (dget_default metadata ''response_sha256'' JNull) \<or>
      (case dget metadata ''provider_status'' of Some (JInt _) \<Rightarrow> False | _ \<Rightarrow> True))"

fun all_present :: "('w, 'k) runtime_env \<Rightarrow> string \<Rightarrow> string list \<Rightarrow> ('w, bool) pt_action" where
  "all_present env pre [] = act_return True"
| "all_present env pre (name # names) =
     act_bind (read_evidence env (pre @ ''/'' @ name)) (\<lambda>b. if b = None then act_return False else all_present env pre names)"

definition recorded_call :: "('w, 'k) runtime_env \<Rightarrow> call \<Rightarrow> string option \<Rightarrow> string \<Rightarrow> call" where
  "recorded_call env c failure manifest = c\<lparr>cl_phase := (if failure = None then Issued else Failing), cl_failure := failure,
     cl_manifest := Some (px_sha env manifest)\<rparr>"

definition record_outcome :: "('w, 'k) runtime_env \<Rightarrow> request_key \<Rightarrow> call \<Rightarrow> (string, json) dict \<Rightarrow> string \<Rightarrow> string \<Rightarrow> ('w, call) pt_action" where
  "record_outcome env request c metadata manifest response =
     (let failure = response_failure env metadata response; recovered = recorded_call env c failure manifest in
      case cl_pod c of
        None \<Rightarrow> act_raise AssertionError
      | Some pod_id \<Rightarrow>
          act_bind (case failure of
              None \<Rightarrow> act_bind (settle_call env request metadata (cl_exchange c)) (\<lambda>_.
                issue_call env request pod_id (px_sha env manifest) (cl_exchange c))
            | Some f \<Rightarrow> act_bind (discard_call env request (cl_exchange c)) (\<lambda>_.
                act_bind (fail_call env request pod_id f (cl_exchange c) False (Some (px_sha env manifest))) (\<lambda>_.
                  save_failure env recovered))) (\<lambda>_.
            act_return recovered))"

definition durable_names :: "string list" where
  "durable_names = [''client.bin'', ''server.bin'', ''authorization-server.bin'', ''claim.json'', ''session.json'']"

definition recover_issued :: "('w, 'k) runtime_env \<Rightarrow> request_key \<Rightarrow> call \<Rightarrow> ('w, call) pt_action" where
  "recover_issued env request c =
     (let pre = exchange_path env (cl_exchange c) in
      if cl_phase c \<noteq> Capturing \<or> \<not> cl_authorized c then act_return c
      else
        act_bind (read_evidence env (pre @ ''/manifest.json'')) (\<lambda>found.
          case found of None \<Rightarrow> act_return c
          | Some manifest \<Rightarrow>
              act_bind (act_lift (json_object env manifest)) (\<lambda>metadata.
                if list_ex (\<lambda>(k, v). \<not> json_eq v (dget_default metadata k JNull)) (durable_binding env request c)
                then act_raise (RecordingConflict ''Durable capture binding differs'')
                else
                  act_bind (read_evidence env (pre @ ''/request.json'')) (\<lambda>body.
                  act_bind (read_evidence env (pre @ ''/response.sse'')) (\<lambda>response.
                    case (body, response) of
                      (Some b, Some r) \<Rightarrow>
                        act_bind (act_lift (be_digest (px_budget env) b)) (\<lambda>digest.
                          if payload_differs env request metadata digest b r
                          then act_raise (RecordingConflict ''Durable capture payload differs'')
                          else
                            act_bind (all_present env pre durable_names) (\<lambda>present.
                              if \<not> present then act_return c else record_outcome env request c metadata manifest r))
                    | _ \<Rightarrow> act_return c)))))"

section \<open>The outcome of a capture\<close>

definition capture_files :: "string list" where
  "capture_files = [''client.bin'', ''server.bin'', ''authorization-server.bin'', ''claim.json'', ''authorization.json'',
     ''handshake.json'', ''request.json'', ''response.sse'']"

definition missing_record :: "('w, 'k) runtime_env \<Rightarrow> string \<Rightarrow> string \<Rightarrow> ('w, unit) pt_action" where
  "missing_record env x message =
     act_bind (world (replaced (px_records env) (px_scope env) x)) (\<lambda>r.
       if r then mark_event (Superseded x) else act_raise (RuntimeError message))"

definition reject_outcome :: "('w, 'k) runtime_env \<Rightarrow> request_key \<Rightarrow> call \<Rightarrow> string option \<Rightarrow> call \<Rightarrow> ('w, call) pt_action" where
  "reject_outcome env request c refusal current =
     (case refusal of None \<Rightarrow> act_return current
      | Some f \<Rightarrow>
          act_bind (discard_call env request (cl_exchange c)) (\<lambda>_.
          act_bind (fail_call env request (px_pod env) f (cl_exchange c) False None) (\<lambda>_.
            let now_failed = current\<lparr>cl_phase := Failing, cl_failure := Some f\<rparr>
            in act_bind (save_failure env now_failed) (\<lambda>_. act_return now_failed))))"

definition seal_outcome :: "('w, 'k) runtime_env \<Rightarrow> request_key \<Rightarrow> call \<Rightarrow> (string, json) dict \<Rightarrow> string option \<Rightarrow> ('w, unit) pt_action" where
  "seal_outcome env request c final refusal =
     (let x = cl_exchange c in
      act_bind (publish env x final) (\<lambda>final.
      let manifest = px_dumps env (JObj final) in
      act_bind (upload env (evidence_prefix env x @ ''/manifest.json'') manifest) (\<lambda>_.
        case refusal of
          None \<Rightarrow>
            act_bind (act_lift (some_or (dget final ''provider_status'') KeyError)) (\<lambda>provider_status.
            act_bind (world (px_time env)) (\<lambda>now.
            act_bind (upload env (evidence_prefix env x @ ''/status.json'') (px_dumps env (JObj [(''status'', JStr ''issued''),
              (''authorized'', JBool True), (''provider_status'', provider_status), (''usage'', dget_default final ''usage'' JNull),
              (''evidence_expires'', JInt (py_trunc (fmul (fadd now (7 * 86400)) 1000)))]))) (\<lambda>_.
            act_bind (settle_call env request final x) (\<lambda>_.
              issue_call env request (px_pod env) (px_sha env manifest) x))))
        | Some f \<Rightarrow> fail_call env request (px_pod env) f x False (Some (px_sha env manifest)))))"

text \<open>
  \<^verbatim>\<open>issued\<close> and \<^verbatim>\<open>failed\<close> of \<^verbatim>\<open>_finalize\<close>, from where the record is known: whether the evidence is saved once
  more when the spool goes.
\<close>

definition issue_located :: "('w, 'k) runtime_env \<Rightarrow> request_key \<Rightarrow> call \<Rightarrow> (string, json) dict \<Rightarrow> string option \<Rightarrow> call \<Rightarrow> ('w, bool) pt_action" where
  "issue_located env request c final refusal current =
     (let x = cl_exchange c in
      if cl_phase current = Issued then act_return False
      else if cl_phase current = Failing then act_bind (save_failure env current) (\<lambda>_. act_return True)
      else
        act_bind (reject_outcome env request c refusal current) (\<lambda>current.
        act_bind (act_get (\<lambda>s. spool_files s x)) (\<lambda>files.
        act_bind (upload_files env (evidence_prefix env x) (present_files capture_files files)) (\<lambda>_.
        act_bind (recover_issued env request current) (\<lambda>recovered.
          if cl_manifest recovered \<noteq> None then act_return False
          else act_bind (seal_outcome env request c final refusal) (\<lambda>_. act_return False))))))"

definition finish_issued :: "('w, 'k) runtime_env \<Rightarrow> request_key \<Rightarrow> call \<Rightarrow> (string, json) dict \<Rightarrow> ('w, bool) pt_action" where
  "finish_issued env request c final =
     (let x = cl_exchange c in
      act_bind (get_file x ''response.sse'') (\<lambda>response.
      let refusal = response_failure env final response in
      act_bind (case refusal of None \<Rightarrow> act_return () | Some f \<Rightarrow> save_diagnostic env c (PyException f) ''outcome'') (\<lambda>_.
      act_bind (locate_call env x) (\<lambda>located.
        case located of
          None \<Rightarrow> act_bind (missing_record env x ''Capture record is missing'') (\<lambda>_. act_return True)
        | Some (_, current) \<Rightarrow> issue_located env request c final refusal current))))"

definition failure_reason :: "call \<Rightarrow> string \<Rightarrow> string" where
  "failure_reason c failure = (case cl_failure c of None \<Rightarrow> failure | Some f \<Rightarrow> if f = [] then failure else f)"

definition fail_recovered :: "('w, 'k) runtime_env \<Rightarrow> request_key \<Rightarrow> call \<Rightarrow> string \<Rightarrow> bool \<Rightarrow> call \<Rightarrow> ('w, bool) pt_action" where
  "fail_recovered env request c failure not_dispatched recovered =
     (let x = cl_exchange c; reason = failure_reason recovered failure in
      act_bind (if \<not> not_dispatched \<or> cl_authorized recovered then discard_call env request x else act_return ()) (\<lambda>_.
      act_bind (fail_call env request (px_pod env) reason x not_dispatched None) (\<lambda>_.
      act_bind (save_failure env (recovered\<lparr>cl_phase := Failing, cl_failure := Some reason,
        cl_not_dispatched := not_dispatched \<and> \<not> cl_authorized recovered\<rparr>)) (\<lambda>_.
      act_bind (act_get (\<lambda>s. dget (pt_spool s) x)) (\<lambda>directory.
        case directory of None \<Rightarrow> act_raise (FileNotFoundError x)
        | Some files \<Rightarrow>
            act_bind (upload_files env (evidence_prefix env x) (filter (\<lambda>(n, _). n \<in> set (''manifest.json'' # capture_files)) files)) (\<lambda>_.
              act_return False))))))"

definition fail_located :: "('w, 'k) runtime_env \<Rightarrow> request_key \<Rightarrow> call \<Rightarrow> string \<Rightarrow> bool \<Rightarrow> call \<Rightarrow> ('w, bool) pt_action" where
  "fail_located env request c failure not_dispatched current =
     act_bind (recover_issued env request current) (\<lambda>recovered.
       if cl_manifest recovered \<noteq> None
       then if cl_phase recovered = Failing then act_bind (save_failure env recovered) (\<lambda>_. act_return True) else act_return False
       else fail_recovered env request c failure not_dispatched recovered)"

definition finish_failed :: "('w, 'k) runtime_env \<Rightarrow> request_key \<Rightarrow> call \<Rightarrow> string \<Rightarrow> bool \<Rightarrow> ('w, bool) pt_action" where
  "finish_failed env request c failure not_dispatched =
     (let x = cl_exchange c in
      act_bind (locate_call env x) (\<lambda>located.
        case located of
          None \<Rightarrow> act_bind (missing_record env x ''Capture record is missing'') (\<lambda>_. act_return True)
        | Some (_, current) \<Rightarrow> fail_located env request c failure not_dispatched current))"

definition finalize :: "('w, 'k) runtime_env \<Rightarrow> request_key \<Rightarrow> call \<Rightarrow> (string, json) dict option \<Rightarrow> string \<Rightarrow> bool \<Rightarrow> bool \<Rightarrow> ('w, bool) pt_action" where
  "finalize env request c metadata failure not_dispatched defer_cleanup =
     act_bind (canonical_id (cl_exchange c)) (\<lambda>_.
     act_bind (retry_upload (px_fuel env) env 1
         (case metadata of Some final \<Rightarrow> finish_issued env request c final | None \<Rightarrow> finish_failed env request c failure not_dispatched)) (\<lambda>save_evidence.
     act_bind (if defer_cleanup then act_return () else cleanup env (cl_exchange c) save_evidence) (\<lambda>_.
       act_return save_evidence)))"

section \<open>Recovery of a spool\<close>

definition run_verifier :: "('w, 'k) runtime_env \<Rightarrow> string \<Rightarrow> string \<Rightarrow> ('w, (string, json) dict) pt_action" where
  "run_verifier env x mode s =
     (case px_verify env mode (spool_files s x) (pt_world s) of
        ((r, files), w) \<Rightarrow> (r, s\<lparr>pt_world := w, pt_spool := (if dhas (pt_spool s) x then dset x files (pt_spool s) else pt_spool s)\<rparr>))"

definition capture_binding :: "('w, 'k) runtime_env \<Rightarrow> request_key \<Rightarrow> 'w runtime \<Rightarrow> (string \<times> json) list" where
  "capture_binding env request s =
     [(''request_key'', request_json request), (''call_id'', JStr (cx_id (px_records env) request)), (''pod_id'', JStr (px_pod env)),
      (''pod_start_id'', JStr (px_start env)), (''proof_key_sha256'', JStr (px_proof env)), (''pricing_sha256'', JStr (pt_pricing s))]"

definition verified_metadata :: "('w, 'k) runtime_env \<Rightarrow> request_key \<Rightarrow> string \<Rightarrow> ('w, (string, json) dict) pt_action" where
  "verified_metadata env request x =
     act_bind (run_verifier env x ''finish'') (\<lambda>metadata.
     act_bind (act_get (capture_binding env request)) (\<lambda>binding.
       act_return (dset_all (binding @ [(''round'', JStr (sc_round (px_scope env))), (''hotkey'', JStr (sc_hotkey (px_scope env))),
         (''exchange_id'', JStr x)]) metadata)))"

definition recover_metadata :: "('w, 'k) runtime_env \<Rightarrow> request_key \<Rightarrow> call \<Rightarrow> string \<Rightarrow> ('w, (string, json) dict option \<times> string) pt_action" where
  "recover_metadata env request c x =
     (if \<not> cl_authorized c then act_return (None, ''CaptureInterrupted'')
      else
        act_handle (verified_metadata env request x)
          (\<lambda>e.
            act_bind (save_diagnostic env c e ''recovery'') (\<lambda>_.
            act_bind (try_upload_diagnostics env x) (\<lambda>_.
            act_bind (upload env (evidence_prefix env x @ ''/status.json'') (px_dumps env (JObj [(''status'', JStr ''running''),
              (''authorized'', JBool True), (''usage_state'', JStr ''unknown''), (''error_type'', JStr (exn_class e))]))) (\<lambda>_.
              if is_value_error e then act_return (None, exn_class e) else act_raise e))))
          (\<lambda>metadata. act_return (Some metadata, ''CaptureInterrupted'')))"

definition reclaim :: "('w, 'k) runtime_env \<Rightarrow> request_key \<Rightarrow> call \<Rightarrow> string \<Rightarrow> bool \<Rightarrow> ('w, call) pt_action" where
  "reclaim env request c x not_dispatched =
     (if \<not> not_dispatched \<or> cl_phase c \<noteq> Assigned then act_return c
      else (case cl_capture c of None \<Rightarrow> act_raise AssertionError
        | Some capture_id \<Rightarrow>
            act_bind (claim_call env request x capture_id) (\<lambda>ok.
              if ok then act_return (c\<lparr>cl_phase := Capturing\<rparr>)
              else act_raise (RuntimeError ''Capture claim changed during recovery''))))"

definition recover_located :: "('w, 'k) runtime_env \<Rightarrow> string \<Rightarrow> request_key \<Rightarrow> call \<Rightarrow> ('w, unit) pt_action" where
  "recover_located env x request c =
     (if cl_pod c \<noteq> Some (px_pod env) \<or> cl_start c \<noteq> Some (px_start env)
      then act_raise (RuntimeError ''Spool belongs to a different capture allocation'')
      else
        act_bind (recover_issued env request c) (\<lambda>c.
          if cl_phase c = Issued \<or> cl_phase c = Failing
          then act_bind (if cl_phase c = Failing then save_failure env c else act_return ()) (\<lambda>_. cleanup env x (cl_phase c = Failing))
          else
            act_bind (act_get (\<lambda>s. dget (spool_files s x) ''pending-claim'')) (\<lambda>pending.
            let not_dispatched = (pending \<noteq> None \<and> pending = cl_capture c) in
            act_bind (reclaim env request c x not_dispatched) (\<lambda>c.
              if cl_phase c = Assigned then act_return ()
              else if cl_phase c \<noteq> Capturing then act_raise (RuntimeError ''Spool has no claimed capture'')
              else
                act_bind (recover_metadata env request c x) (\<lambda>(metadata, failure).
                act_bind (finalize env request c metadata failure not_dispatched False) (\<lambda>_. act_return ()))))))"

definition recover_spool :: "('w, 'k) runtime_env \<Rightarrow> string \<Rightarrow> ('w, unit) pt_action" where
  "recover_spool env x =
     act_bind (locate_call env x) (\<lambda>located.
       case located of
         None \<Rightarrow> act_bind (missing_record env x ''Spool has no inference record'') (\<lambda>_. cleanup env x True)
       | Some (request, c) \<Rightarrow> recover_located env x request c)"

definition recover_capture :: "('w, 'k) runtime_env \<Rightarrow> string \<Rightarrow> ('w, unit) pt_action" where
  "recover_capture env x = retry_upload (px_fuel env) env 1 (recover_spool env x)"

section \<open>A capture\<close>

record 'w capturing =
  cp_pod :: "'w runtime"
  cp_not_dispatched :: bool
  cp_finalized :: bool
  cp_cleanup :: "bool option"

definition on_pod :: "('w, 'a) pt_action \<Rightarrow> ('w capturing, 'a) action" where
  "on_pod m s = (case m (cp_pod s) of (r, p) \<Rightarrow> (r, s\<lparr>cp_pod := p\<rparr>))"

text \<open>The checks under the lock before the request may go out, twice the same.\<close>

definition require_selected :: "('w, 'k) runtime_env \<Rightarrow> string \<Rightarrow> ('w, unit) pt_action" where
  "require_selected env message = act_bind (holds_selection env) (\<lambda>sel. if sel then act_return () else act_raise (RuntimeError message))"

definition check_session :: "('w, 'k) runtime_env \<Rightarrow> request_key \<Rightarrow> string \<Rightarrow> ('w, unit) pt_action" where
  "check_session env request x =
     act_bind (get_file x ''authorization.json'') (\<lambda>raw.
       case px_json env raw of
         None \<Rightarrow> act_raise (ValueError ''json'')
       | Some (JObj authorization) \<Rightarrow>
           if json_eq (opt_str (rk_session request)) (dget_default authorization ''sessionId'' JNull) then act_return ()
           else act_raise (ValueError ''Verified routing header differs from reserved call'')
       | Some _ \<Rightarrow> act_raise (PyException ''AttributeError''))"

definition before_dispatch :: "('w, 'k) runtime_env \<Rightarrow> request_key \<Rightarrow> string \<Rightarrow> ('w, unit) pt_action" where
  "before_dispatch env request x = locked env
     (act_bind (act_get (\<lambda>s. pt_draining s \<or> \<not> pt_accepting s)) (\<lambda>fenced.
        if fenced then act_raise (RuntimeError ''Pod is fenced before provider release'')
        else
          act_bind (require_selected env ''RunPod allocation is no longer selected'') (\<lambda>_.
          act_bind (require_generation env) (\<lambda>_. check_session env request x))))"

definition reserve_exchange :: "('w, 'k) runtime_env \<Rightarrow> request_key \<Rightarrow> string \<Rightarrow> string \<Rightarrow> ('w capturing, unit) action" where
  "reserve_exchange env request x body =
     act_bind (act_modify (\<lambda>s. s\<lparr>cp_not_dispatched := False\<rparr>)) (\<lambda>_.
     act_bind (on_pod (mark_event (Reserving x))) (\<lambda>_.
       act_handle (on_pod (on_budget (reserve_call (px_budget env) (px_scope env) request x body)))
         (\<lambda>e. if is_not_reserved e
            then act_bind (act_modify (\<lambda>s. s\<lparr>cp_not_dispatched := True\<rparr>)) (\<lambda>_.
              act_bind (on_pod (mark_event (Unreserved x))) (\<lambda>_. act_raise e))
            else act_raise e)
         act_return))"

definition after_reservation :: "('w, 'k) runtime_env \<Rightarrow> request_key \<Rightarrow> string \<Rightarrow> ('w, pyfloat option) pt_action" where
  "after_reservation env request x =
     act_bind (world (authorize (px_records env) (px_scope env) request (px_pod env) x)) (\<lambda>deadline.
     act_bind (mark_event (Authorized x)) (\<lambda>_.
     act_bind (require_generation env) (\<lambda>_.
     act_bind (require_selected env ''Round ended before provider release'') (\<lambda>_.
     act_bind (world (px_clock env)) (\<lambda>monotonic.
     act_bind (world (px_time env)) (\<lambda>now. act_return (Some (fsub (fadd monotonic (of_int deadline)) now))))))))"

definition authorize_dispatch :: "('w, 'k) runtime_env \<Rightarrow> request_key \<Rightarrow> string \<Rightarrow> string \<Rightarrow> ('w capturing, pyfloat option) action" where
  "authorize_dispatch env request x body =
     act_bind (on_pod (before_dispatch env request x)) (\<lambda>_.
     act_bind (reserve_exchange env request x body) (\<lambda>_.
       on_pod (after_reservation env request x)))"

definition complete_capture :: "('w, 'k) runtime_env \<Rightarrow> request_key \<Rightarrow> call \<Rightarrow> (string, json) dict \<Rightarrow> ('w capturing, (string, json) dict) action" where
  "complete_capture env request c final =
     act_bind (on_pod (finalize env request c (Some final) ''CaptureFailed'' False True)) (\<lambda>save_evidence.
     act_bind (act_modify (\<lambda>s. s\<lparr>cp_cleanup := Some save_evidence, cp_finalized := True\<rparr>)) (\<lambda>_. act_return final))"

text \<open>The relay on the pod: its files are those of the spool, its hooks the pod's.\<close>

definition lift_relay :: "('w, 'a) action \<Rightarrow> ('w capturing, 'a) action" where
  "lift_relay m = on_pod (world m)"

definition capture_env :: "('w, 'k) runtime_env \<Rightarrow> request_key \<Rightarrow> call \<Rightarrow> (string \<times> json) list \<Rightarrow> ('w capturing, 'k) relay_env" where
  "capture_env env request c binding =
     (let base = px_relay env; x = cl_exchange c in
      \<lparr>ve_fuel = ve_fuel base, ve_auth = ve_auth base, ve_monotonic = lift_relay (ve_monotonic base),
       ve_time = lift_relay (ve_time base), ve_connect = lift_relay (ve_connect base), ve_close = lift_relay (ve_close base),
       ve_readable = (\<lambda>t. lift_relay (ve_readable base t)), ve_recv = lift_relay (ve_recv base),
       ve_sendall = (\<lambda>b. lift_relay (ve_sendall base b)), ve_channel_recv = (\<lambda>t. lift_relay (ve_channel_recv base t)),
       ve_channel_claim = (\<lambda>p. lift_relay (ve_channel_claim base p)), ve_channel_send = (\<lambda>b. lift_relay (ve_channel_send base b)),
       ve_channel_notify = (\<lambda>j. lift_relay (ve_channel_notify base j)), ve_channel_finish = lift_relay (ve_channel_finish base),
       ve_write = (\<lambda>n b. on_pod (save_file env x n b)),
       ve_verify = (\<lambda>mode files s. case px_verify env mode files (pt_world (cp_pod s)) of ((r, files'), w) \<Rightarrow>
          ((r, files'), s\<lparr>cp_pod := (cp_pod s)\<lparr>pt_world := w, pt_spool := dset x files' (pt_spool (cp_pod s))\<rparr>\<rparr>)),
       ve_put = (\<lambda>k b. on_pod (upload env k b)),
       ve_before_release = Some (authorize_dispatch env request x), ve_extra = Some binding,
       ve_seal = Some (\<lambda>m. on_pod (publish env x m)), ve_before_delivery = Some (complete_capture env request c),
       ve_observe_failure = None, ve_json = px_json env, ve_dumps = px_dumps env, ve_int = ve_int base\<rparr>)"

definition relay_capture :: "('w, 'k) runtime_env \<Rightarrow> request_key \<Rightarrow> call \<Rightarrow> ('w capturing, (string, json) dict) action" where
  "relay_capture env request c =
     act_bind (act_get (\<lambda>s. capture_binding env request (cp_pod s))) (\<lambda>binding s.
       case relay_run (capture_env env request c binding) (evidence_prefix env (cl_exchange c)) None (sc_round (px_scope env))
           (sc_hotkey (px_scope env)) (store_prefix env) (new_relay (spool_files (cp_pod s) (cl_exchange c)) s) of
         (r, t) \<Rightarrow> (r, rl_world t))"

definition PROVIDERS :: "(string, string) dict" where
  "PROVIDERS = [(''codex'', ''chatgpt.com/backend-api/codex/responses''), (''api'', ''api.openai.com/v1/responses'')]"

definition session_json :: "('w, 'k) runtime_env \<Rightarrow> string \<Rightarrow> string \<Rightarrow> json" where
  "session_json env x url = JObj [(''id'', JStr x), (''protocol'', JInt 2), (''provider'', JStr (''https://'' @ url)),
     (''proof_key_sha256'', JStr (px_proof env)), (''round'', JStr (sc_round (px_scope env))), (''miner'', JStr (sc_hotkey (px_scope env)))]"

definition capture_ready :: "('w, 'k) runtime_env \<Rightarrow> string \<Rightarrow> string \<Rightarrow> ('w, unit) pt_action" where
  "capture_ready env x url =
     act_bind (upload env (evidence_prefix env x @ ''/session.json'') (px_dumps env (session_json env x url))) (\<lambda>_.
       upload env (evidence_prefix env x @ ''/status.json'')
         (px_dumps env (JObj [(''status'', JStr ''running''), (''authorized'', JBool False)])))"

definition unlink_claim :: "('w, 'k) runtime_env \<Rightarrow> string \<Rightarrow> ('w, unit) pt_action" where
  "unlink_claim env x =
     act_bind (act_get (\<lambda>s. dhas (spool_files s x) ''pending-claim'')) (\<lambda>present.
       if \<not> present then act_return ()
       else act_bind (world (px_unlink env x ''pending-claim'')) (\<lambda>_.
         act_modify (\<lambda>s. s\<lparr>pt_spool := dset x (ddel ''pending-claim'' (spool_files s x)) (pt_spool s)\<rparr>)))"

definition capture_exchange :: "('w, 'k) runtime_env \<Rightarrow> request_key \<Rightarrow> call \<Rightarrow> string \<Rightarrow> ('w capturing, (string, json) dict) action" where
  "capture_exchange env request c url =
     act_bind (on_pod (unlink_claim env (cl_exchange c))) (\<lambda>_.
     act_bind (on_pod (retry_upload (px_fuel env) env 1 (capture_ready env (cl_exchange c) url))) (\<lambda>_.
       relay_capture env request c))"

definition capture_failed :: "('w, 'k) runtime_env \<Rightarrow> request_key \<Rightarrow> call \<Rightarrow> exn \<Rightarrow> ('w capturing, (string, json) dict option \<times> string) action" where
  "capture_failed env request c e =
     (let x = cl_exchange c in
      act_bind (on_pod (save_diagnostic env c e ''capture'')) (\<lambda>_.
      act_bind (act_get (\<lambda>s. spool_files (cp_pod s) x)) (\<lambda>files.
        if \<not> dhas files ''authorization.json'' \<or> \<not> dhas files ''server.bin'' then act_return (None, exn_class e)
        else
          act_handle (on_pod (verified_metadata env request x))
            (\<lambda>error.
              act_bind (on_pod (save_diagnostic env c error ''recovery'')) (\<lambda>_.
              act_bind (act_get cp_not_dispatched) (\<lambda>not_dispatched.
                if \<not> is_value_error error \<and> \<not> not_dispatched
                then act_bind (on_pod (recover_capture env x)) (\<lambda>_.
                  act_bind (act_modify (\<lambda>s. s\<lparr>cp_finalized := True\<rparr>)) (\<lambda>_. act_return (None, exn_class e)))
                else act_return (None, exn_class e))))
            (\<lambda>metadata. act_return (Some metadata, exn_class e)))))"

definition capture_body :: "('w, 'k) runtime_env \<Rightarrow> request_key \<Rightarrow> call \<Rightarrow> ('w capturing, unit) action" where
  "capture_body env request c =
     (let x = cl_exchange c in
      act_bind (act_lift (some_or (cl_capture c) AssertionError)) (\<lambda>_.
      act_bind (on_pod (canonical_id x)) (\<lambda>_.
      act_bind (on_pod (make_directory x)) (\<lambda>_.
      act_bind (act_lift (some_or (dget PROVIDERS (rk_provider request)) KeyError)) (\<lambda>url.
      act_bind (act_handle (capture_exchange env request c url) (capture_failed env request c)
          (\<lambda>metadata. act_return (Some metadata, ''CaptureFailed''))) (\<lambda>(metadata, failure).
      act_bind (act_get (\<lambda>s. (cp_finalized s, cp_not_dispatched s))) (\<lambda>(finalized, not_dispatched).
      act_bind (if finalized then act_return ()
         else on_pod (act_bind (finalize env request c metadata failure not_dispatched False) (\<lambda>_. act_return ()))) (\<lambda>_.
        suppress is_os_error (lift_relay (ve_channel_finish (px_relay env)))))))))))"

definition pod_capture :: "('w, 'k) runtime_env \<Rightarrow> request_key \<Rightarrow> call \<Rightarrow> ('w capturing, unit) action" where
  "pod_capture env request c =
     act_bind (capture_body env request c) (\<lambda>_.
     act_bind (act_get cp_cleanup) (\<lambda>pending.
       case pending of None \<Rightarrow> act_return () | Some save_evidence \<Rightarrow> on_pod (cleanup env (cl_exchange c) save_evidence)))"

definition run_capture :: "('w, 'k) runtime_env \<Rightarrow> request_key \<Rightarrow> call \<Rightarrow> ('w, unit) pt_action" where
  "run_capture env request c s =
     (case pod_capture env request c \<lparr>cp_pod = s, cp_not_dispatched = True, cp_finalized = False, cp_cleanup = None\<rparr> of
        (r, t) \<Rightarrow> (r, cp_pod t))"

end
