(* ===== verification/PodLaws.thy ===== *)
theory PodLaws
  imports PodCapture
begin

text \<open>
  What the witness pod guarantees: the spool of a capture goes only when its outcome is known, a request is
  let out only past every fence, and a drained pod stays quiet. The operations are followed along the log of the pod.
\<close>

section \<open>The operations of the pod\<close>

text \<open>Only the removal of a spool is constrained; every other event may be logged at any time.\<close>

definition final_event :: "string \<Rightarrow> pod_event \<Rightarrow> bool" where
  "final_event x e = (case e of Untaken y \<Rightarrow> y = x | Superseded y \<Rightarrow> y = x | IssuedAs y _ \<Rightarrow> y = x | FailedAs y _ \<Rightarrow> y = x
     | Located y c \<Rightarrow> y = x \<and> (cl_phase c \<in> {Issued, Failing} \<or> cl_manifest c \<noteq> None) | _ \<Rightarrow> False)"

definition settled :: "string \<Rightarrow> pod_event list \<Rightarrow> bool" where
  "settled x h = list_ex (final_event x) h"

definition removal_ok :: "pod_event \<Rightarrow> pod_event list \<Rightarrow> bool" where
  "removal_ok e h = (case e of Removing x \<Rightarrow> settled x h | _ \<Rightarrow> True)"

lemma settled_append [simp]: "settled x h \<Longrightarrow> settled x (es @ h)"
  by (simp add: settled_def)

lemma outcome_Cons: "settled x (e # h) \<longleftrightarrow> final_event x e \<or> settled x h"
  by (simp add: settled_def)

abbreviation "pod_yields \<equiv> yields pt_log removal_ok"
abbreviation "pod_plain m \<equiv> yields pt_log removal_ok m (\<lambda>_ _. True)"

lemma plain_world [yields_rules]: "pod_plain (world m)"
  by (rule plain_silent) (simp add: world_def split: prod.split)

lemma plain_budget [yields_rules]: "pod_plain (on_budget m)"
  by (rule plain_silent) (simp add: on_budget_def split: prod.split)

lemma plain_verifier [yields_rules]: "pod_plain (run_verifier env x mode)"
  by (rule plain_silent) (simp add: run_verifier_def split: prod.split)

definition free_event :: "pod_event \<Rightarrow> bool" where
  "free_event e = (case e of Removing _ \<Rightarrow> False | _ \<Rightarrow> True)"

lemma yields_mark: "free_event e \<Longrightarrow> (\<And>h. P () (e # h)) \<Longrightarrow> pod_yields (mark_event e) P"
  unfolding mark_event_def by (rule yields_event) (auto simp: removal_ok_def free_event_def split: pod_event.splits)

lemma plain_mark [yields_rules]: "free_event e \<Longrightarrow> pod_plain (mark_event e)"
  by (rule yields_mark) auto

lemma free_events [simp]:
  "free_event (Taken x)" "free_event (Untaken x)" "free_event (Superseded x)" "free_event (Located x c)" "free_event (Reserving x)"
  "free_event (Unreserved x)" "free_event (Authorized x)" "free_event (Discarded x)" "free_event (IssuedAs x d)"
  "free_event (FailedAs x b)" "free_event (Uploaded k v)"
  by (simp_all add: free_event_def)

lemma plain_upload [yields_rules]: "pod_plain (upload env k b)"
  unfolding upload_def by (intro yields_rules TrueI) simp

lemma plain_files [yields_rules]: "pod_plain (upload_files env pre files)"
  by (induction env pre files rule: upload_files.induct) (auto intro!: yields_rules)

lemma plain_save [yields_rules]: "pod_plain (save_file env x n b)" "pod_plain (make_directory x)"
  unfolding save_file_def make_directory_def by (intro yields_rules plain_modify | simp)+

lemma plain_small [yields_rules]: "pod_plain (get_file x n)" "pod_plain (canonical_id x)" "pod_plain (read_evidence env k)"
  unfolding get_file_def canonical_id_def read_evidence_def by (intro yields_rules TrueI)+

lemma plain_acquire [yields_rules]: "pod_plain (act_modify (acquire env))"
  by (rule plain_modify) (simp add: acquire_def)

lemma plain_locked [yields_rules]: "pod_yields m P \<Longrightarrow> pod_yields (locked env m) P"
  unfolding locked_def by (intro yields_rules TrueI)+

lemma plain_save_failure [yields_rules]: "pod_plain (save_failure env c)"
  unfolding save_failure_def Let_def by (intro yields_rules TrueI)+

lemma plain_diagnostic [yields_rules]: "pod_plain (save_diagnostic env c e operation)"
  unfolding save_diagnostic_def Let_def by (intro yields_rules TrueI)+

lemma plain_diagnostics [yields_rules]: "pod_plain (upload_diagnostics env x)" "pod_plain (try_upload_diagnostics env x)"
  unfolding try_upload_diagnostics_def upload_diagnostics_def by (intro yields_rules TrueI)+

lemma plain_publish [yields_rules]: "pod_plain (publish env x m)"
proof -
  have "pod_plain (publish_objects env x names)" for names
    by (induction env x names rule: publish_objects.induct) (auto intro!: yields_rules)
  then show ?thesis unfolding publish_def by (intro yields_rules TrueI)+
qed

lemma plain_fences [yields_rules]: "pod_plain (holds_selection env)" "pod_plain (require_generation env)"
  "pod_plain (require_selected env message)" "pod_plain (require_open env)"
  unfolding holds_selection_def require_generation_def require_policy_def require_open_def require_selected_def
  by (intro yields_rules TrueI)+

lemma yields_retry:
  assumes "pod_yields operation P"
  shows "pod_yields (retry_upload n env delay operation) P"
  by (induction n arbitrary: delay) (auto intro!: yields_rules yields_catch assms)

text \<open>What is known once an outcome has been read or recorded.\<close>

lemma yields_seq:
  assumes "yields lg C m R" "\<And>a h. R a h \<Longrightarrow> along lg C (f a) (\<lambda>r h'. \<forall>y. r = Inr y \<longrightarrow> P y h') h"
  shows "yields lg C (act_bind m f) P"
  unfolding yields_def
proof
  fix h
  show "along lg C (act_bind m f) (\<lambda>r h'. \<forall>y. r = Inr y \<longrightarrow> P y h') h"
    by (rule along_seq [where R = "\<lambda>r h'. \<forall>x. r = Inr x \<longrightarrow> R x h'"]) (use assms in \<open>auto simp: yields_def\<close>)
qed

lemma yieldsE: "yields lg C m P \<Longrightarrow> along lg C m (\<lambda>r h'. \<forall>y. r = Inr y \<longrightarrow> P y h') h"
  by (simp add: yields_def)

lemma yields_after:
  assumes "yields lg C m P" "\<And>y es. P y (es @ h) \<Longrightarrow> Q y (es @ h)"
  shows "along lg C m (\<lambda>r h'. \<forall>y. r = Inr y \<longrightarrow> Q y h') h"
  by (rule along_yields [OF assms(1)]) (auto intro: assms(2))

lemma yields_keep:
  assumes "pod_yields m (\<lambda>_ h. settled x h)" "\<And>a. pod_plain (f a)"
  shows "pod_yields (act_bind m f) (\<lambda>_ h. settled x h)"
  by (rule yields_seq [OF assms(1)], rule yields_after [OF assms(2)]) simp

lemma along_world: "(\<And>r w w'. m w = (r, w') \<Longrightarrow> Q r h) \<Longrightarrow> along pt_log C (world m) Q h"
  unfolding along_def traced_iff by (auto simp: world_def split: prod.splits)

lemma locate_exchange: "locate cx s x w = (Inr (Some (q, c)), w') \<Longrightarrow> cl_exchange c = x"
  by (auto simp: locate_def act_bind_Inr act_simps split: option.splits if_splits)

definition located_in :: "string \<Rightarrow> call \<Rightarrow> pod_event list \<Rightarrow> bool" where
  "located_in x c h = (cl_exchange c = x \<and> Located x c \<in> set h)"

lemma located_append [simp]: "located_in x c h \<Longrightarrow> located_in x c (es @ h)"
  by (simp add: located_in_def)

lemma yields_locate: "pod_yields (locate_call env x) (\<lambda>found h. \<forall>q c. found = Some (q, c) \<longrightarrow> located_in x c h)"
  unfolding locate_call_def
proof (rule yields_seq)
  show "pod_yields (world (locate (px_records env) (px_scope env) x)) (\<lambda>found h. \<forall>q c. found = Some (q, c) \<longrightarrow> cl_exchange c = x)"
    unfolding yields_def by (intro allI along_world) (auto dest: locate_exchange)
  fix found :: "(request_key \<times> call) option" and h
  assume a: "\<forall>q c. found = Some (q, c) \<longrightarrow> cl_exchange c = x"
  have "pod_yields (act_bind (case found of None \<Rightarrow> act_return () | Some (_, c) \<Rightarrow> mark_event (Located x c)) (\<lambda>_. act_return found))
      (\<lambda>found h. \<forall>q c. found = Some (q, c) \<longrightarrow> located_in x c h)"
  proof (rule yields_seq)
    show "pod_yields (case found of None \<Rightarrow> act_return () | Some (_, c) \<Rightarrow> mark_event (Located x c))
        (\<lambda>_ h. \<forall>q c. found = Some (q, c) \<longrightarrow> located_in x c h)"
      using a by (auto split: option.split intro: yields_return yields_mark simp: located_in_def)
  qed (auto intro: along_return)
  then show "along pt_log removal_ok (act_bind (case found of None \<Rightarrow> act_return () | Some (_, c) \<Rightarrow> mark_event (Located x c))
      (\<lambda>_. act_return found)) (\<lambda>r h'. \<forall>found. r = Inr found \<longrightarrow> (\<forall>q c. found = Some (q, c) \<longrightarrow> located_in x c h')) h"
    by (rule yieldsE)
qed

lemma located_final: "located_in x c h \<Longrightarrow> cl_phase c \<in> {Issued, Failing} \<or> cl_manifest c \<noteq> None \<Longrightarrow> settled x h"
  unfolding settled_def list_ex_iff by (rule bexI [of _ "Located x c"]) (auto simp: final_event_def located_in_def)

lemma yields_outcomes:
  "pod_yields (issue_call env request pod_id digest x) (\<lambda>_ h. settled x h)"
  "pod_yields (fail_call env request pod_id failure x nd d) (\<lambda>_ h. settled x h)"
  "pod_yields (missing_record env x message) (\<lambda>_ h. settled x h)"
  unfolding issue_call_def fail_call_def missing_record_def
  by (intro yields_bind plain_world yields_if yields_mark yields_raise; simp add: outcome_Cons final_event_def)+

lemma plain_charges [yields_rules]: "pod_plain (discard_call env request x)" "pod_plain (settle_call env request m x)"
  unfolding discard_call_def settle_call_def by (intro yields_rules TrueI | simp)+

lemma plain_claim [yields_rules]: "pod_plain (claim_call env request x capture_id)"
  unfolding claim_call_def by (intro yields_rules TrueI | simp)+

lemma yields_record:
  "pod_yields (record_outcome env request c metadata manifest response) (\<lambda>_ h. settled (cl_exchange c) h)"
  unfolding record_outcome_def Let_def
  by (intro yields_option yields_raise yields_keep [of _ "cl_exchange c"] yields_bind plain_charges yields_outcomes plain_save_failure yields_return TrueI)

lemma yields_recover_issued:
  "pod_yields (recover_issued env request c) (\<lambda>c' h. c' = c \<or> settled (cl_exchange c) h)"
proof -
  have present: "pod_plain (all_present env pre names)" for pre names
    by (induction env pre names rule: all_present.induct) (auto intro!: yields_rules)
  have same: "pod_yields (act_return c) (\<lambda>c' h. c' = c \<or> settled (cl_exchange c) h)" by (rule yields_return) simp
  show ?thesis
    unfolding recover_issued_def Let_def
    by (intro yields_if same yields_bind yields_option yields_pair yields_raise plain_small plain_lift present
        yields_weaken [OF yields_record] disjI2 | assumption)+
qed

lemma along_post: "along lg C m (\<lambda>r h'. \<forall>y. r = Inr y \<longrightarrow> P y h') h \<Longrightarrow> (\<And>y h'. P y h' \<Longrightarrow> Q y h') \<Longrightarrow>
    along lg C m (\<lambda>r h'. \<forall>y. r = Inr y \<longrightarrow> Q y h') h"
  by (erule along_mono) blast

lemma along_skip:
  assumes "plain lg C m" "\<And>x es. along lg C (f x) Q (es @ h)" "\<And>e es. Q (Inl e) (es @ h)"
  shows "along lg C (act_bind m f) Q h"
  by (rule along_seq [OF along_extends [OF yieldsE [OF assms(1)]]]) (use assms(2,3) in auto)

text \<open>After the outcome is settled, nothing unsettles it.\<close>

lemma along_settled: "pod_plain m \<Longrightarrow> settled x h \<Longrightarrow> along pt_log removal_ok m (\<lambda>r h'. \<forall>y. r = Inr y \<longrightarrow> settled x h') h"
  by (rule along_plain) auto

lemma yields_keep_or:
  assumes "pod_yields m (\<lambda>a h. R a \<or> settled x h)" "\<And>a. R a \<Longrightarrow> pod_yields (f a) (\<lambda>b h. S b \<or> settled x h)" "\<And>a. pod_plain (f a)"
  shows "pod_yields (act_bind m f) (\<lambda>b h. S b \<or> settled x h)"
proof (rule yields_seq [OF assms(1)])
  fix a h
  assume "R a \<or> settled x h"
  then show "along pt_log removal_ok (f a) (\<lambda>r h'. \<forall>y. r = Inr y \<longrightarrow> S y \<or> settled x h') h"
  proof
    assume "R a"
    from yieldsE [OF assms(2) [OF this]] show ?thesis .
  next
    assume "settled x h"
    with assms(3) show ?thesis by (rule along_post [OF along_settled]) simp
  qed
qed

lemma yields_reject: "pod_yields (reject_outcome env request c refusal current) (\<lambda>c' h. c' = current \<or> settled (cl_exchange c) h)"
proof (cases refusal)
  case (Some f)
  show ?thesis
    unfolding reject_outcome_def Some option.case Let_def
    by (rule yields_bind, rule plain_charges, rule yields_weaken [OF yields_keep [OF yields_outcomes(2)]])
       (intro yields_rules TrueI, simp)
qed (simp add: reject_outcome_def yields_return)

lemma yields_seal: "pod_yields (seal_outcome env request c final refusal) (\<lambda>_ h. settled (cl_exchange c) h)"
  unfolding seal_outcome_def Let_def
  by (intro yields_bind yields_option yields_outcomes plain_publish plain_upload plain_lift plain_world plain_charges)

lemma plain_outcomes [yields_rules]:
  "pod_plain (recover_issued env request c)" "pod_plain (reject_outcome env request c refusal current)"
  "pod_plain (seal_outcome env request c final refusal)" "pod_plain (locate_call env x)"
  "pod_plain (fail_call env request pod_id failure x nd d)" "pod_plain (missing_record env x message)"
  by (rule plainI [OF yields_recover_issued] plainI [OF yields_reject] plainI [OF yields_seal] plainI [OF yields_locate]
      plainI [OF yields_outcomes(2)] plainI [OF yields_outcomes(3)])+

text \<open>The part of a function that goes on with the record it found.\<close>

lemma yields_located:
  assumes "pod_yields missing (\<lambda>_ h. P h)"
    "\<And>q c h. located_in x c h \<Longrightarrow> along pt_log removal_ok (f q c) (\<lambda>r h'. \<forall>y. r = Inr y \<longrightarrow> P h') h"
  shows "pod_yields (act_bind (locate_call env x) (\<lambda>located. case located of None \<Rightarrow> missing | Some (q, c) \<Rightarrow> f q c)) (\<lambda>_ h. P h)"
proof (rule yields_seq [OF yields_locate])
  fix found :: "(request_key \<times> call) option" and h
  assume a: "\<forall>q c. found = Some (q, c) \<longrightarrow> located_in x c h"
  show "along pt_log removal_ok (case found of None \<Rightarrow> missing | Some (q, c) \<Rightarrow> f q c) (\<lambda>r h'. \<forall>y. r = Inr y \<longrightarrow> P h') h"
  proof (cases found)
    case None
    with yieldsE [OF assms(1)] show ?thesis by (simp only: option.case)
  next
    case (Some qc)
    obtain q c where qc: "qc = (q, c)" by force
    with Some a have "located_in x c h" by blast
    from assms(2) [OF this] show ?thesis by (simp only: Some qc option.case prod.case)
  qed
qed

text \<open>What is known of the call that \<open>recover_issued\<close> returns when it was located before.\<close>

lemma along_recover_issued:
  assumes "located_in x c h \<or> settled x h"
    "\<And>c' es. located_in x c' (es @ h) \<or> settled x (es @ h) \<Longrightarrow>
       along pt_log removal_ok (f c') (\<lambda>r h'. \<forall>y. r = Inr y \<longrightarrow> P h') (es @ h)"
  shows "along pt_log removal_ok (act_bind (recover_issued env request c) f) (\<lambda>r h'. \<forall>y. r = Inr y \<longrightarrow> P h') h"
proof (rule along_seq [OF along_extends [OF yieldsE [OF yields_recover_issued]]], goal_cases)
  case (2 c' h')
  then obtain es where es: "h' = es @ h" "c' = c \<or> settled (cl_exchange c) h'" by blast
  then have "located_in x c' (es @ h) \<or> settled x (es @ h)" using assms(1) by (auto simp: located_in_def)
  from assms(2) [OF this] es(1) show ?case by simp
qed simp

lemma yields_missing: "pod_yields (act_bind (missing_record env x m) (\<lambda>_. act_return b)) (\<lambda>_ h. settled x h)"
  by (intro yields_keep yields_outcomes yields_return TrueI)

lemma yields_fail_recovered: "pod_yields (fail_recovered env request c failure nd recovered) (\<lambda>_ h. settled (cl_exchange c) h)"
  unfolding fail_recovered_def Let_def
  by (rule yields_bind, intro yields_rules TrueI, rule yields_keep [OF yields_outcomes(2)], (intro yields_rules TrueI)+)

lemma plain_fail_recovered [yields_rules]: "pod_plain (fail_recovered env request c failure nd recovered)"
  by (rule plainI [OF yields_fail_recovered])

lemma yields_finish_failed: "pod_yields (finish_failed env request c failure nd) (\<lambda>_ h. settled (cl_exchange c) h)"
  unfolding finish_failed_def Let_def
proof (rule yields_located [OF yields_missing])
  fix q current h
  assume loc: "located_in (cl_exchange c) current h"
  show "along pt_log removal_ok (fail_located env request c failure nd current) (\<lambda>r h'. \<forall>y. r = Inr y \<longrightarrow> settled (cl_exchange c) h') h"
    unfolding fail_located_def
  proof (rule along_recover_issued)
    fix recovered es
    assume a: "located_in (cl_exchange c) recovered (es @ h) \<or> settled (cl_exchange c) (es @ h)"
    show "along pt_log removal_ok (if cl_manifest recovered \<noteq> None
        then if cl_phase recovered = Failing then act_bind (save_failure env recovered) (\<lambda>_. act_return True) else act_return False
        else fail_recovered env request c failure nd recovered) (\<lambda>r h'. \<forall>y. r = Inr y \<longrightarrow> settled (cl_exchange c) h') (es @ h)"
    proof (rule along_if)
      assume "cl_manifest recovered \<noteq> None"
      with a have "settled (cl_exchange c) (es @ h)" using located_final by blast
      then show "along pt_log removal_ok (if cl_phase recovered = Failing then act_bind (save_failure env recovered) (\<lambda>_. act_return True) else act_return False)
          (\<lambda>r h'. \<forall>y. r = Inr y \<longrightarrow> settled (cl_exchange c) h') (es @ h)"
        by (rule along_settled [rotated]) (intro yields_rules TrueI)
    qed (rule yieldsE [OF yields_fail_recovered])
  qed (use loc in simp)
qed

lemma yields_finish_issued: "pod_yields (finish_issued env request c final) (\<lambda>_ h. settled (cl_exchange c) h)"
proof -
  let ?x = "cl_exchange c"
  have known: "along pt_log removal_ok m (\<lambda>r h'. \<forall>y. r = Inr y \<longrightarrow> settled ?x h') h"
    if "pod_plain m" "located_in ?x current h" "cl_phase current \<in> {Issued, Failing}" for m :: "('a, bool) pt_action" and current h
    by (rule along_settled [OF that(1)], rule located_final [OF that(2)]) (use that(3) in simp)
  have rest: "along pt_log removal_ok (act_bind (recover_issued env request current) (\<lambda>recovered.
      if cl_manifest recovered \<noteq> None then act_return False else act_bind (seal_outcome env request c final refusal) (\<lambda>_. act_return False)))
      (\<lambda>r h'. \<forall>y. r = Inr y \<longrightarrow> settled ?x h') h" if "located_in ?x current h \<or> settled ?x h" for current refusal h
  proof (rule along_recover_issued [OF that], rule along_if)
    fix recovered es
    assume "located_in ?x recovered (es @ h) \<or> settled ?x (es @ h)" "cl_manifest recovered \<noteq> None"
    then have "settled ?x (es @ h)" using located_final by blast
    then show "along pt_log removal_ok (act_return False) (\<lambda>r h'. \<forall>y. r = Inr y \<longrightarrow> settled ?x h') (es @ h)"
      by (simp add: along_return)
  next
    fix es
    show "along pt_log removal_ok (act_bind (seal_outcome env request c final refusal) (\<lambda>_. act_return False))
      (\<lambda>r h'. \<forall>y. r = Inr y \<longrightarrow> settled ?x h') (es @ h)"
      by (rule yieldsE, rule yields_keep [OF yields_seal]) (intro yields_rules TrueI)
  qed
  have upload: "along pt_log removal_ok (act_bind (act_get (\<lambda>s. spool_files s ?x)) (\<lambda>files.
      act_bind (upload_files env (evidence_prefix env ?x) (present_files capture_files files)) (\<lambda>_. m)))
      (\<lambda>r h'. \<forall>y. r = Inr y \<longrightarrow> settled ?x h') h" if "\<And>es. along pt_log removal_ok m (\<lambda>r h'. \<forall>y. r = Inr y \<longrightarrow> settled ?x h') (es @ h)" for m h
    by (rule along_skip [OF plain_get], rule along_skip [OF plain_files], subst append_assoc [symmetric], rule that) simp_all
  show ?thesis
    unfolding finish_issued_def Let_def
  proof (rule yields_bind, rule plain_small(1), rule yields_bind, goal_cases)
    case (1 response)
    show ?case by (intro yields_rules TrueI)
  next
    case (2 response u)
    show ?case
    proof (rule yields_located [OF yields_missing])
      fix q current h
      assume loc: "located_in ?x current h"
      show "along pt_log removal_ok (issue_located env request c final (response_failure env final response) current)
          (\<lambda>r h'. \<forall>y. r = Inr y \<longrightarrow> settled ?x h') h"
        unfolding issue_located_def Let_def
      proof (rule along_if, goal_cases)
        case 1
        then show ?case by (intro known [OF _ loc] yields_rules TrueI) simp
      next
        case 2
        show ?case
        proof (rule along_if, goal_cases)
          case 1
          then show ?case by (intro known [OF _ loc] yields_rules TrueI) simp
        next
          case 2
          show ?case
          proof (rule along_seq [OF along_extends [OF yieldsE [OF yields_reject]]], goal_cases)
            case (2 c' h')
            then obtain es where "h' = es @ h" "c' = current \<or> settled ?x h'" by blast
            with loc have "located_in ?x c' h' \<or> settled ?x h'" by auto
            then show ?case by (intro upload rest) auto
          qed simp
        qed
      qed
    qed
  qed
qed

lemma plain_finish [yields_rules]: "pod_plain (finish_issued env request c final)" "pod_plain (finish_failed env request c failure nd)"
  by (rule plainI [OF yields_finish_issued] plainI [OF yields_finish_failed])+

text \<open>A spool is removed only when its outcome is settled.\<close>

lemma along_retry:
  assumes "\<And>es. along pt_log removal_ok operation (\<lambda>_ _. True) (es @ h)"
  shows "along pt_log removal_ok (retry_upload n env delay operation) (\<lambda>_ _. True) (es @ h)"
proof (induction n arbitrary: delay es)
  case (Suc n)
  show ?case
    unfolding retry_upload.simps
  proof (intro along_handle, rule along_mono [OF along_extends [OF assms]], goal_cases)
    case (1 r h')
    then obtain es' where h': "h' = es' @ es @ h" by blast
    have "along pt_log removal_ok (act_bind (world (px_sleep env delay)) (\<lambda>_. retry_upload n env (min 30 (delay * 2)) operation)) (\<lambda>_ _. True) h'"
    proof (rule along_skip [OF plain_world])
      fix x es''
      from Suc [of "min 30 (delay * 2)" "es'' @ es' @ es"]
      show "along pt_log removal_ok (retry_upload n env (min 30 (delay * 2)) operation) (\<lambda>_ _. True) (es'' @ h')"
        by (simp add: h')
    qed simp
    then show ?case by (cases r) (simp_all add: along_return)
  qed
qed (simp add: along_raise)

lemma remove_spool_log: "remove_spool env x s = (r, s') \<Longrightarrow> pt_log s' = pt_log s @ [Removing x]"
  by (auto simp: remove_spool_def mark_event_def act_bind_def act_simps split: option.splits prod.splits sum.splits)

lemma along_remove:
  assumes "settled x h"
  shows "along pt_log removal_ok (remove_exchange env x b) (\<lambda>_ _. True) h"
proof -
  have spool: "along pt_log removal_ok (remove_spool env x) (\<lambda>_ _. True) (es @ h)" for es
    unfolding along_def traced_iff using assms by (auto dest!: remove_spool_log simp: removal_ok_def)
  show ?thesis
    unfolding remove_exchange_def
    by (rule along_skip [OF plain_small(2)], rule along_skip [OF plain_get], rule along_skip, intro yields_rules TrueI,
        rule along_skip [OF plain_diagnostics(1)], simp only: append_assoc [symmetric], rule spool) simp_all
qed

lemma along_cleanup: "settled x h \<Longrightarrow> along pt_log removal_ok (cleanup env x b) (\<lambda>_ _. True) h"
  unfolding cleanup_def using along_retry [where es = "[]" and h = h, OF along_remove [OF settled_append]] by simp

lemma yields_finalize: "pod_yields (finalize env request c metadata failure nd defer) (\<lambda>_ h. settled (cl_exchange c) h)"
proof -
  let ?x = "cl_exchange c"
  have finish: "pod_yields (case metadata of Some final \<Rightarrow> finish_issued env request c final | None \<Rightarrow> finish_failed env request c failure nd)
      (\<lambda>_ h. settled ?x h)"
    by (cases metadata) (simp_all add: yields_finish_issued yields_finish_failed)
  show ?thesis
    unfolding finalize_def
  proof (rule yields_bind, rule plain_small(2), rule yields_seq [OF yields_retry [OF finish]], goal_cases)
    case (1 u b h)
    have "along pt_log removal_ok (if defer then act_return () else cleanup env ?x b) (\<lambda>_ _. True) h"
      using along_cleanup [OF 1, of env b] by (cases "defer") (simp_all add: along_return)
    from along_extends [OF this] 1 show ?case
      by (intro along_seq [where R = "\<lambda>_ h'. True \<and> (\<exists>es. h' = es @ h)"]) (auto intro: along_return)
  qed
qed

lemma plain_finalize [yields_rules]: "pod_plain (finalize env request c metadata failure nd defer)"
  by (rule plainI [OF yields_finalize])

lemma plain_metadata [yields_rules]: "pod_plain (verified_metadata env request x)" "pod_plain (recover_metadata env request c x)"
  "pod_plain (reclaim env request c x nd)"
  unfolding verified_metadata_def recover_metadata_def reclaim_def by (intro yields_rules TrueI)+

lemma along_any: "along lg C m (\<lambda>_ _. True) h \<Longrightarrow> along lg C m (\<lambda>r h'. \<forall>y. r = Inr y \<longrightarrow> True) h"
  by simp

lemma plain_recover [yields_rules]: "pod_plain (recover_capture env x)"
proof -
  have found: "along pt_log removal_ok (recover_located env x request c) (\<lambda>r h'. \<forall>y. r = Inr y \<longrightarrow> True) h"
    if loc: "located_in x c h" for request c h
    unfolding recover_located_def
  proof (rule along_if, goal_cases)
    case 2
    show ?case
    proof (rule along_recover_issued [OF disjI1 [OF loc]], rule along_if, goal_cases)
      case (1 c' es)
      then have s: "settled x (es @ h)" using located_final by blast
      show ?case
        by (rule along_skip, intro yields_rules TrueI, rule along_any, rule along_cleanup) (use s in simp_all)
    next
      case (2 c' es)
      show ?case by (rule yieldsE) (intro yields_rules TrueI)
    qed
  qed (simp add: along_raise)
  have missing: "pod_plain (act_bind (missing_record env x m) (\<lambda>_. cleanup env x True))" for m
    by (rule yields_seq [OF yields_outcomes(3)], rule along_any, erule along_cleanup)
  show ?thesis
    unfolding recover_capture_def recover_spool_def
    by (intro yields_retry yields_located [OF missing found])
qed

lemma yields_claim: "pod_yields (claim_call env request x capture_id) (\<lambda>ok h. \<not> ok \<longrightarrow> settled x h)"
  unfolding claim_call_def
proof (rule yields_bind, rule plain_world, rule yields_seq)
  fix ok h
  show "pod_yields (mark_event (if ok then Taken x else Untaken x)) (\<lambda>_ h. \<not> ok \<longrightarrow> settled x h)"
    by (rule yields_mark) (auto simp: outcome_Cons final_event_def)
qed (auto intro: along_return)

lemma plain_submit [yields_rules]: "pod_plain (submit_job env x job)"
  unfolding submit_job_def by (intro yields_rules TrueI plain_modify | simp)+

lemma plain_start [yields_rules]: "pod_plain (start_capture env request c)"
proof -
  have claim: "pod_plain (act_handle (claim_call env request x capture_id)
      (\<lambda>e. if is_uncertain e then submit_job env x Recovery_job else act_raise e)
      (\<lambda>ok. if ok then submit_job env x Capturing_job else act_bind (cleanup env x False) (\<lambda>_. act_return (False, None))))" for x capture_id
    unfolding yields_def
  proof (intro allI along_handle along_mono [OF yieldsE [OF yields_claim]], goal_cases)
    case (1 h r h')
    show ?case
    proof (cases r)
      case (Inl e)
      have "pod_plain (if is_uncertain e then submit_job env x Recovery_job else act_raise e)" by (intro yields_rules)
      from yieldsE [OF this] show ?thesis by (simp only: Inl sum.case)
    next
      case (Inr ok)
      have "along pt_log removal_ok (if ok then submit_job env x Capturing_job else act_bind (cleanup env x False) (\<lambda>_. act_return (False, None)))
          (\<lambda>r h'. \<forall>y. r = Inr y \<longrightarrow> True) h'"
        using 1 Inr by (intro along_if yieldsE [OF plain_submit] along_seq [OF along_cleanup]) (auto intro: along_return)
      with Inr show ?thesis by simp
    qed
  qed
  show ?thesis
    unfolding start_capture_def Let_def
    by (intro plain_locked yields_rules claim TrueI)
qed

lemma plain_controls [yields_rules]: "pod_plain (pod_drain env)" "pod_plain (pod_tick env)" "pod_plain (install_policy env v p st)"
  "pod_plain (capture_done env x)" "pod_plain (admit_render env)" "pod_plain (render_done env)" "pod_plain (pod_command env msg)"
proof -
  have p: "pod_plain (pod_drain env)" "pod_plain (pod_tick env)" "pod_plain (install_policy env v p st)" for v p st
    unfolding pod_drain_def pod_tick_def install_policy_def by (intro plain_locked yields_rules plain_modify TrueI | simp)+
  show "pod_plain (pod_drain env)" "pod_plain (pod_tick env)" "pod_plain (install_policy env v p st)" by (rule p)+
  show "pod_plain (capture_done env x)" "pod_plain (admit_render env)" "pod_plain (render_done env)"
    unfolding capture_done_def admit_render_def render_done_def by (intro plain_locked yields_rules plain_modify TrueI | simp)+
  show "pod_plain (pod_command env msg)"
    unfolding pod_command_def Let_def by (intro plain_locked yields_rules plain_modify p TrueI | simp)+
qed

section \<open>The relay on the pod\<close>

text \<open>The relay keeps an invariant of its world that everything it calls keeps.\<close>

definition env_keeps :: "('w \<Rightarrow> bool) \<Rightarrow> ('w, 'k) relay_env \<Rightarrow> bool" where
  "env_keeps P env = (keeps P (ve_monotonic env) \<and> keeps P (ve_time env) \<and> keeps P (ve_connect env) \<and> keeps P (ve_close env) \<and>
     (\<forall>t. keeps P (ve_readable env t)) \<and> keeps P (ve_recv env) \<and> (\<forall>b. keeps P (ve_sendall env b)) \<and>
     (\<forall>t. keeps P (ve_channel_recv env t)) \<and> (\<forall>p. keeps P (ve_channel_claim env p)) \<and> (\<forall>b. keeps P (ve_channel_send env b)) \<and>
     (\<forall>j. keeps P (ve_channel_notify env j)) \<and> keeps P (ve_channel_finish env) \<and> (\<forall>n b. keeps P (ve_write env n b)) \<and>
     (\<forall>mode files w. P w \<longrightarrow> P (snd (ve_verify env mode files w))) \<and> (\<forall>k b. keeps P (ve_put env k b)) \<and>
     (\<forall>f b. ve_before_release env = Some f \<longrightarrow> keeps P (f b)) \<and> (\<forall>f m. ve_seal env = Some f \<longrightarrow> keeps P (f m)) \<and>
     (\<forall>f m. ve_before_delivery env = Some f \<longrightarrow> keeps P (f m)) \<and> (\<forall>f e. ve_observe_failure env = Some f \<longrightarrow> keeps P (f e)))"

abbreviation "rl_keeps P m \<equiv> keeps (\<lambda>s. P (rl_world s)) m"

lemma keeps_finally: "keeps P m \<Longrightarrow> keeps P f \<Longrightarrow> keeps P (act_finally m f)"
  unfolding keeps_def act_finally_def by (simp split: prod.split sum.split) (metis snd_conv)

lemma keeps_pair: "(\<And>a b. x = (a, b) \<Longrightarrow> keeps P (f a b)) \<Longrightarrow> keeps P (case x of (a, b) \<Rightarrow> f a b)"
  by (cases x) simp

lemma rl_keeps_ext: "keeps P m \<Longrightarrow> rl_keeps P (ext m)"
  unfolding keeps_def ext_def by (auto split: prod.split)

lemma rl_keeps_silent: "(\<And>s. rl_world (f s) = rl_world s) \<Longrightarrow> rl_keeps P (act_modify f)"
  by (simp add: keeps_def act_simps)

lemma rl_keeps_record [keeps_intros]: "rl_keeps P (record_event e)" "rl_keeps P (receive_client c)" "rl_keeps P (receive_server c)" "rl_keeps P (read_file n)"
  unfolding record_event_def receive_client_def receive_server_def read_file_def by (intro rl_keeps_silent keeps_intros | simp)+

lemma rl_keeps_suppress [keeps_intros]: "keeps P m \<Longrightarrow> keeps P (suppress p m)"
  unfolding suppress_def by (intro keeps_handle keeps_intros)

lemma env_keeps_ext:
  assumes "env_keeps P env"
  shows "rl_keeps P (ext (ve_monotonic env))" "rl_keeps P (ext (ve_time env))" "rl_keeps P (ext (ve_connect env))" "rl_keeps P (ext (ve_close env))"
    "rl_keeps P (ext (ve_readable env t))" "rl_keeps P (ext (ve_recv env))" "rl_keeps P (ext (ve_sendall env b))" "rl_keeps P (ext (ve_channel_recv env t))"
    "rl_keeps P (ext (ve_channel_claim env p))" "rl_keeps P (ext (ve_channel_send env b))" "rl_keeps P (ext (ve_channel_notify env j))"
    "rl_keeps P (ext (ve_channel_finish env))" "rl_keeps P (ext (ve_write env n b))" "rl_keeps P (ext (ve_put env n b))"
    "rl_keeps P (verifier env mode)"
proof -
  show "rl_keeps P (verifier env mode)"
    unfolding keeps_def verifier_def
  proof (intro allI impI)
    fix s :: "'a relay"
    assume "P (rl_world s)"
    with assms have "P (snd (ve_verify env mode (rl_files s) (rl_world s)))" unfolding env_keeps_def by blast
    then show "P (rl_world (snd (case ve_verify env mode (rl_files s) (rl_world s) of
        ((Inl e, files), w) \<Rightarrow> (Inl e, s\<lparr>rl_world := w, rl_files := files\<rparr>)
      | ((Inr v, files), w) \<Rightarrow> (Inr v, s\<lparr>rl_world := w, rl_files := files, rl_log := rl_log s @ [Verified mode]\<rparr>))))"
      by (auto split: prod.split sum.split)
  qed
qed (use assms in \<open>auto simp: env_keeps_def intro: rl_keeps_ext\<close>)

lemma relay_keeps:
  assumes "env_keeps P env"
  shows "rl_keeps P (relay_run env pre deadline rn hk storage)"
proof -
  note e = env_keeps_ext [OF assms]
  note rules = keeps_intros keeps_handle keeps_finally keeps_pair e rl_keeps_silent
  have hello: "rl_keeps P (read_hello n env t)" for n t
    by (induction n) (auto intro!: rules)
  have files: "rl_keeps P (put_files env pre names)" for names
    unfolding put_def by (induction names) (auto intro!: rules simp: put_def)
  have time: "rl_keeps P (check_time env t)" for t
    unfolding check_time_def by (intro rules)
  have release_hello: "rl_keeps P (release_hello env t)" for t
    unfolding release_hello_def release_def write_file_def by (intro rules hello | simp)+
  have flight: "rl_keeps P (provider_flight env)" "rl_keeps P (miner_message env t)" for t
    unfolding provider_flight_def miner_message_def deliver_def by (intro rules | simp)+
  have finish: "rl_keeps P (finish_handshake env pre released)" for released
    unfolding finish_handshake_def release_def put_def by (intro rules | simp)+
  have reserve: "rl_keeps P (reserve_dispatch env pre d t)" for d t
  proof (cases "ve_before_release env")
    case (Some f)
    then have "rl_keeps P (ext (f b))" for b using assms by (auto simp: env_keeps_def intro: rl_keeps_ext)
    then show ?thesis
      unfolding reserve_dispatch_def Some option.case write_file_def put_def by (intro rules time | simp)+
  qed (simp add: reserve_dispatch_def keeps_intros)
  have dispatch: "rl_keeps P (dispatch env pre released d t)" for released d t
    unfolding dispatch_def release_def put_def by (intro rules files time reserve | simp)+
  have authorize: "rl_keeps P (authorize_loop n env pre d t hs released hb)" for n d t hs released hb
    by (induction n arbitrary: hs released hb) (auto intro!: rules flight time dispatch finish simp: write_file_def split: option.split prod.split)
  have response: "rl_keeps P (response_loop n env t)" for n t
    by (induction n) (auto intro!: rules time)
  have exchange: "rl_keeps P (exchange env pre d t u)" for d t u
    unfolding exchange_def by (intro rules release_hello authorize response)
  have hooks: "rl_keeps P (call_hook (ve_seal env) m ev)" "rl_keeps P (call_hook (ve_before_delivery env) m ev)" for m ev
    unfolding call_hook_def using assms by (auto simp: env_keeps_def split: option.split intro!: rules rl_keeps_ext)
  have finish_exchange: "rl_keeps P (finish_exchange env pre rn hk x n)" for x n
    unfolding finish_exchange_def write_file_def put_def deliver_def Let_def put_def by (intro rules hooks files | simp)+
  have spool: "rl_keeps P (keep_spool env)"
    unfolding keep_spool_def write_file_def by (intro rules | simp)+
  have observe: "rl_keeps P (case ve_observe_failure env of None \<Rightarrow> act_return () | Some f \<Rightarrow> ext (f e))" for e
    using assms by (auto simp: env_keeps_def split: option.split intro!: rules rl_keeps_ext)
  have capture: "rl_keeps P (capture env pre d rn hk x)" for d x
    unfolding capture_def Let_def by (intro rules exchange finish_exchange spool observe)
  show ?thesis
    unfolding relay_run_def by (intro rules capture)
qed

section \<open>A capture\<close>

text \<open>What a capture keeps: removals in order, and a spool that is to be removed is settled.\<close>

definition capture_ok :: "string \<Rightarrow> 'w capturing \<Rightarrow> bool" where
  "capture_ok x s = (preceded removal_ok [] (pt_log (cp_pod s)) \<and> (cp_cleanup s \<noteq> None \<longrightarrow> settled x (rev (pt_log (cp_pod s)))))"

lemma preceded_yields:
  assumes "pod_yields m P" "m s = (r, s')" "preceded removal_ok [] (pt_log s)"
  shows "preceded removal_ok [] (pt_log s')" "settled x (rev (pt_log s)) \<Longrightarrow> settled x (rev (pt_log s'))" "r = Inr y \<Longrightarrow> P y (rev (pt_log s'))"
proof -
  from yieldsD [OF assms(1,2), of "rev (pt_log s)"] obtain es where es: "pt_log s' = pt_log s @ es" "preceded removal_ok (rev (pt_log s)) es"
    "\<forall>x. r = Inr x \<longrightarrow> P x (rev es @ rev (pt_log s))" by blast
  then show "preceded removal_ok [] (pt_log s')" "settled x (rev (pt_log s)) \<Longrightarrow> settled x (rev (pt_log s'))" "r = Inr y \<Longrightarrow> P y (rev (pt_log s'))"
    using assms(3) by (auto simp: preceded_append)
qed

lemma preceded_along:
  assumes "along pt_log removal_ok m (\<lambda>_ _. True) (rev (pt_log s))" "m s = (r, s')" "preceded removal_ok [] (pt_log s)"
  shows "preceded removal_ok [] (pt_log s')"
proof -
  from tracedD [OF assms(1) [unfolded along_def] assms(2)] obtain es where "pt_log s' = pt_log s @ es" "preceded removal_ok (rev (pt_log s)) es" by blast
  with assms(3) show ?thesis by (simp add: preceded_append)
qed

lemma keeps_on_pod [keeps_intros]:
  assumes "pod_plain m"
  shows "keeps (capture_ok x) (on_pod m)"
  unfolding keeps_def
proof (intro allI impI)
  fix s :: "'a capturing"
  assume ok: "capture_ok x s"
  obtain r p where m: "m (cp_pod s) = (r, p)" by force
  from preceded_yields(1,2) [OF assms m] ok show "capture_ok x (snd (on_pod m s))"
    by (auto simp: capture_ok_def on_pod_def m)
qed

lemma keeps_flags [keeps_intros]:
  "keeps (capture_ok x) (act_modify (\<lambda>s. s\<lparr>cp_not_dispatched := b\<rparr>))" "keeps (capture_ok x) (act_modify (\<lambda>s. s\<lparr>cp_finalized := b\<rparr>))"
  by (simp_all add: keeps_def act_simps capture_ok_def)

lemma keeps_lift_relay [keeps_intros]: "keeps (capture_ok x) (lift_relay m)"
  unfolding lift_relay_def by (intro keeps_intros yields_rules)

lemma plain_check [yields_rules]: "pod_plain (check_session env request x)"
  unfolding check_session_def by (intro yields_rules) (auto split: json.split intro!: yields_rules)

lemma plain_dispatch [yields_rules]: "pod_plain (before_dispatch env request x)" "pod_plain (after_reservation env request x)"
  unfolding before_dispatch_def after_reservation_def by (intro plain_locked yields_rules TrueI | simp)+

lemma keeps_authorize [keeps_intros]: "keeps (capture_ok x) (authorize_dispatch env request y body)"
  unfolding authorize_dispatch_def reserve_exchange_def
  by (intro keeps_intros keeps_handle yields_rules | simp add: capture_ok_def)+

lemma keeps_complete [keeps_intros]: "keeps (capture_ok (cl_exchange c)) (complete_capture env request c final)"
  unfolding keeps_def
proof (intro allI impI)
  fix s :: "'a capturing"
  assume ok: "capture_ok (cl_exchange c) s"
  let ?m = "finalize env request c (Some final) ''CaptureFailed'' False True"
  obtain r p where m: "?m (cp_pod s) = (r, p)" by force
  from ok have "preceded removal_ok [] (pt_log (cp_pod s))" by (simp add: capture_ok_def)
  note p = preceded_yields [OF yields_finalize m this]
  show "capture_ok (cl_exchange c) (snd (complete_capture env request c final s))"
  proof (cases r)
    case (Inl e)
    with p(1,2) ok m show ?thesis by (auto simp: complete_capture_def act_bind_def on_pod_def capture_ok_def)
  next
    case (Inr b)
    with p(1) p(3) [OF Inr] m show ?thesis by (auto simp: complete_capture_def act_bind_def act_simps on_pod_def capture_ok_def)
  qed
qed

lemma capture_env_keeps: "env_keeps (capture_ok (cl_exchange c)) (capture_env env request c binding)"
proof -
  have v: "capture_ok x (snd (ve_verify (capture_env env request c binding) mode files w))" if "capture_ok x w" for x mode files w
    using that by (auto simp: capture_env_def Let_def capture_ok_def split: prod.split)
  show ?thesis
    unfolding env_keeps_def
    using v by (auto simp: capture_env_def Let_def intro!: keeps_intros yields_rules)
qed

lemma keeps_relay [keeps_intros]: "keeps (capture_ok (cl_exchange c)) (relay_capture env request c)"
  unfolding relay_capture_def
proof (intro keeps_bind keeps_get)
  fix binding
  let ?m = "relay_run (capture_env env request c binding) (evidence_prefix env (cl_exchange c)) None (sc_round (px_scope env))
           (sc_hotkey (px_scope env)) (store_prefix env)"
  have "keeps (\<lambda>s. capture_ok (cl_exchange c) (rl_world s)) ?m" by (rule relay_keeps [OF capture_env_keeps])
  then show "keeps (capture_ok (cl_exchange c)) (\<lambda>s. case ?m (new_relay (spool_files (cp_pod s) (cl_exchange c)) s) of (r, t) \<Rightarrow> (r, rl_world t))"
    unfolding keeps_def by (auto split: prod.split simp: new_relay_def) (metis relay.select_convs(1) snd_conv)
qed


lemma keeps_failed [keeps_intros]: "keeps (capture_ok x) (capture_failed env request c e)"
  unfolding capture_failed_def Let_def
  by (intro keeps_intros keeps_handle yields_rules | simp add: capture_ok_def)+

lemma run_capture_ok:
  assumes "preceded removal_ok [] (pt_log s)" "run_capture env request c s = (r, s')"
  shows "preceded removal_ok [] (pt_log s')"
proof -
  let ?x = "cl_exchange c" and ?s = "\<lparr>cp_pod = s, cp_not_dispatched = True, cp_finalized = False, cp_cleanup = None\<rparr>"
  let ?last = "act_bind (act_get cp_cleanup) (\<lambda>pending. case pending of None \<Rightarrow> act_return () | Some b \<Rightarrow> on_pod (cleanup env ?x b))"
  have ok: "capture_ok ?x ?s" using assms(1) by (simp add: capture_ok_def)
  have last: "preceded removal_ok [] (pt_log (cp_pod (snd (?last t))))" if "capture_ok ?x t" for t
  proof (cases "cp_cleanup t")
    case (Some b)
    obtain q p where c: "cleanup env ?x b (cp_pod t) = (q, p)" by force
    from that Some have "settled ?x (rev (pt_log (cp_pod t)))" "preceded removal_ok [] (pt_log (cp_pod t))" by (auto simp: capture_ok_def)
    from preceded_along [OF along_cleanup [OF this(1)] c this(2)] show ?thesis using Some c by (simp add: act_bind_def act_simps on_pod_def)
  qed (use that in \<open>simp add: act_bind_def act_simps capture_ok_def\<close>)
  have "keeps (capture_ok ?x) (capture_body env request c)"
    unfolding capture_body_def capture_exchange_def capture_ready_def unlink_claim_def Let_def
    by (intro keeps_intros keeps_handle keeps_pair yields_rules yields_retry plain_modify | simp)+
  obtain q t where b: "capture_body env request c ?s = (q, t)" by force
  from keepsD [OF \<open>keeps _ _\<close> ok b] have t: "capture_ok ?x t" .
  show ?thesis
  proof (cases q)
    case (Inl e)
    with assms(2) b t show ?thesis by (auto simp: run_capture_def pod_capture_def act_bind_def capture_ok_def)
  next
    case (Inr u)
    then have "pod_capture env request c ?s = ?last t" using b by (simp add: pod_capture_def act_bind_def)
    with assms(2) last [OF t] show ?thesis by (auto simp: run_capture_def split: prod.splits)
  qed
qed

section \<open>Runs of a pod\<close>

text \<open>
  The pod starts on what is left in its spool; its operations follow in any order, those of a capture while it is
  active and the end of a rendering while one runs, and the world goes on. The
  interleaving with other threads inside an operation is \<open>px_others\<close>.
\<close>

definition pod_step :: "('w, 'k) runtime_env \<Rightarrow> 'w runtime \<Rightarrow> 'w runtime \<Rightarrow> bool" where
  "pod_step env s s' = (s' = snd (pod_drain env s) \<or> s' = snd (pod_tick env s) \<or> (\<exists>msg. s' = snd (pod_command env msg s)) \<or>
     (\<exists>request c. s' = snd (start_capture env request c s)) \<or>
     (\<exists>request c. cl_exchange c \<in> set (pt_active s) \<and> s' = snd (run_capture env request c s)) \<or>
     (\<exists>x\<in>set (pt_active s). s' = snd (recover_capture env x s) \<or> s' = snd (capture_done env x s)) \<or>
     s' = snd (admit_render env s) \<or> 0 < pt_rendering s \<and> s' = snd (render_done env s) \<or> (\<exists>w. s' = s\<lparr>pt_world := w\<rparr>))"

inductive pod_reach :: "('w, 'k) runtime_env \<Rightarrow> 'w runtime \<Rightarrow> bool" for env where
  start: "new_runtime env u query spool rates pricing now w = Inr s \<Longrightarrow> pod_reach env s"
| step: "pod_reach env s \<Longrightarrow> pod_step env s s' \<Longrightarrow> pod_reach env s'"

lemma preceded_plain: "pod_plain m \<Longrightarrow> preceded removal_ok [] (pt_log s) \<Longrightarrow> preceded removal_ok [] (pt_log (snd (m s)))"
  by (metis preceded_yields(1) prod.collapse)

lemma pod_step_removals:
  assumes "pod_step env s s'" "preceded removal_ok [] (pt_log s)"
  shows "preceded removal_ok [] (pt_log s')"
  using assms(1) unfolding pod_step_def
  by (elim disjE exE conjE bexE) (simp_all add: preceded_plain [OF plain_controls(1) assms(2)] preceded_plain [OF plain_controls(2) assms(2)]
    preceded_plain [OF plain_controls(4) assms(2)] preceded_plain [OF plain_controls(5) assms(2)] preceded_plain [OF plain_controls(6) assms(2)]
    preceded_plain [OF plain_controls(7) assms(2)] preceded_plain [OF plain_start assms(2)] preceded_plain [OF plain_recover assms(2)]
    run_capture_ok [OF assms(2)] assms(2) prod.collapse run_capture_ok [OF assms(2) prod.collapse [symmetric]])

text \<open>
  C35: No capture is forgotten: in every run of a witness pod, whatever the stores, the disk, the verifier, the miner, the
  provider and the other threads do, the spool of an exchange is removed only after its outcome is known to be
  recorded: its record was read with a result, or issued or failed, the exchange was replaced by another, or its
  claim was refused.
\<close>

theorem spool_outlives_outcome:
  assumes "pod_reach env s"
  shows "preceded removal_ok [] (pt_log s)"
  using assms
proof induction
  case (start u query spool rates pricing now w s)
  then show ?case by (auto simp: new_runtime_def split: if_splits)
qed (rule pod_step_removals)

section \<open>The fences before a dispatch\<close>

lemma on_pod_Inr: "on_pod m s = (Inr y, s') \<longleftrightarrow> (\<exists>p. m (cp_pod s) = (Inr y, p) \<and> s' = s\<lparr>cp_pod := p\<rparr>)"
  by (auto simp: on_pod_def split: prod.splits)

lemma world_Inr: "world m s = (Inr y, s') \<longleftrightarrow> (\<exists>w. m (pt_world s) = (Inr y, w) \<and> s' = s\<lparr>pt_world := w\<rparr>)"
  by (auto simp: world_def split: prod.splits)

lemma locked_eq: "locked env m s = m (acquire env s)"
  by (simp add: locked_def act_bind_def act_simps)

text \<open>
  What the checks read, and when: each takes the world it starts in to the world it leaves. The flags of
  the pod do not change while the lock is held; the selection and the clocks are read anew each time.
\<close>

definition same_pod :: "'w runtime \<Rightarrow> 'w runtime \<Rightarrow> bool" where
  "same_pod p q = (\<exists>w. q = p\<lparr>pt_world := w\<rparr>)"

definition selection_at :: "('w, 'k) runtime_env \<Rightarrow> 'w runtime \<Rightarrow> 'w \<Rightarrow> 'w \<Rightarrow> bool" where
  "selection_at env p w w' = (pt_accepting p \<and> \<not> pt_draining p \<and>
     (case px_selection env of None \<Rightarrow> w' = w
      | Some load \<Rightarrow> selected load (px_scope env) (px_start env) (px_pod env) w = (Inr True, w')))"

definition policy_at :: "('w, 'k) runtime_env \<Rightarrow> 'w runtime \<Rightarrow> 'w \<Rightarrow> 'w \<Rightarrow> bool" where
  "policy_at env p w w' =
     (case px_inputs env of None \<Rightarrow> w' = w
      | Some i \<Rightarrow> (\<exists>policy now t w1. pt_policy p = Some policy \<and> px_clock env w = (Inr now, w1) \<and> now < pt_until p \<and>
          px_time env w1 = (Inr t, w') \<and> policy_require (px_hash env) policy i t True = Inr ()))"

definition round_at :: "('w, 'k) runtime_env \<Rightarrow> 'w \<Rightarrow> 'w \<Rightarrow> bool" where
  "round_at env w w' = (case px_round_end env of None \<Rightarrow> w' = w | Some e \<Rightarrow> (\<exists>t. px_time env w = (Inr t, w') \<and> t < of_int e))"

definition generation_at :: "('w, 'k) runtime_env \<Rightarrow> 'w runtime \<Rightarrow> 'w \<Rightarrow> 'w \<Rightarrow> bool" where
  "generation_at env p w w' = (\<exists>w1. policy_at env p w w1 \<and> round_at env w1 w')"

definition session_matches :: "('w, 'k) runtime_env \<Rightarrow> request_key \<Rightarrow> string \<Rightarrow> 'w runtime \<Rightarrow> bool" where
  "session_matches env request x p =
     (\<exists>raw authorization. dget (spool_files p x) ''authorization.json'' = Some raw \<and> px_json env raw = Some (JObj authorization) \<and>
        json_eq (opt_str (rk_session request)) (dget_default authorization ''sessionId'' JNull))"

lemma same_refl [simp]: "same_pod p p"
  by (auto simp: same_pod_def intro: exI [of _ "pt_world p"])

lemma same_trans [trans]: "same_pod p q \<Longrightarrow> same_pod q r \<Longrightarrow> same_pod p r"
  by (auto simp: same_pod_def)

lemma same_world [simp]: "same_pod p (q\<lparr>pt_world := w\<rparr>) \<longleftrightarrow> same_pod p q"
  by (auto simp: same_pod_def) (metis runtime.surjective runtime.update_convs(1))

lemma same_fields: "same_pod p q \<Longrightarrow> pt_log q = pt_log p \<and> pt_accepting q = pt_accepting p \<and> pt_draining q = pt_draining p \<and>
    pt_policy q = pt_policy p \<and> pt_until q = pt_until p \<and> pt_spool q = pt_spool p \<and> pt_active q = pt_active p \<and>
    pt_rendering q = pt_rendering p \<and> pt_rates q = pt_rates p \<and> pt_pricing q = pt_pricing p"
  by (auto simp: same_pod_def)

text \<open>The checks look only at the flags, the policy and the spool of the pod.\<close>

lemma at_fields:
  assumes "pt_accepting q = pt_accepting p" "pt_draining q = pt_draining p" "pt_policy q = pt_policy p" "pt_until q = pt_until p"
    "pt_spool q = pt_spool p"
  shows "selection_at env q = selection_at env p" "generation_at env q = generation_at env p"
    "session_matches env request x q = session_matches env request x p"
proof -
  have "policy_at env q = policy_at env p" by (intro ext) (simp add: policy_at_def assms split: option.split)
  then show "generation_at env q = generation_at env p" by (simp add: generation_at_def fun_eq_iff)
  show "selection_at env q = selection_at env p" "session_matches env request x q = session_matches env request x p"
    using assms by (simp_all add: selection_at_def session_matches_def spool_files_def fun_eq_iff)
qed

lemma at_same:
  assumes "same_pod p q"
  shows "selection_at env q = selection_at env p" "generation_at env q = generation_at env p"
    "session_matches env request x q = session_matches env request x p"
  by (rule at_fields; use same_fields [OF assms] in simp)+

lemma holds_selection_done:
  "holds_selection env p = (Inr True, q) \<Longrightarrow> same_pod p q \<and> selection_at env p (pt_world p) (pt_world q)"
  by (auto simp: holds_selection_def act_bind_Inr act_simps world_Inr selection_at_def split: if_splits option.splits)

lemma require_selected_done:
  "require_selected env m p = (Inr u, q) \<Longrightarrow> same_pod p q \<and> selection_at env p (pt_world p) (pt_world q)"
  by (auto simp: require_selected_def act_bind_Inr act_simps split: if_splits dest: holds_selection_done)

lemma require_policy_done:
  "require_policy env p = (Inr u, q) \<Longrightarrow> same_pod p q \<and> policy_at env p (pt_world p) (pt_world q)"
  by (auto simp: require_policy_def act_bind_Inr act_simps world_Inr policy_at_def not_le split: option.splits if_splits)

lemma require_open_done:
  "require_open env p = (Inr u, q) \<Longrightarrow> same_pod p q \<and> round_at env (pt_world p) (pt_world q)"
  by (auto simp: require_open_def act_bind_Inr act_simps world_Inr round_at_def not_le split: option.splits if_splits)

lemma require_generation_done:
  assumes "require_generation env p = (Inr u, q)"
  shows "same_pod p q \<and> generation_at env p (pt_world p) (pt_world q)"
proof -
  from assms obtain p1 where p: "require_policy env p = (Inr (), p1)" "require_open env p1 = (Inr u, q)"
    by (auto simp: require_generation_def act_bind_Inr)
  from require_policy_done [OF p(1)] require_open_done [OF p(2)] show ?thesis
    unfolding generation_at_def by (blast intro: same_trans)
qed

lemma on_budget_Inr: "on_budget m p = (Inr y, q) \<Longrightarrow>
    \<exists>b'. m \<lparr>bd_store = pt_world p, bd_rates = pt_rates p, bd_hash = pt_pricing p\<rparr> = (Inr y, b') \<and>
      q = p\<lparr>pt_world := bd_store b', pt_rates := bd_rates b', pt_pricing := bd_hash b'\<rparr>"
  by (auto simp: on_budget_def split: prod.splits intro!: exI)

lemma check_session_done:
  assumes "check_session env request x p = (Inr u, q)"
  shows "q = p \<and> session_matches env request x p"
  using assms
  by (auto simp: check_session_def get_file_def act_bind_Inr act_simps some_or_def session_matches_def split: option.splits json.splits if_splits)

lemma before_dispatch_done:
  assumes "before_dispatch env request x p = (Inr u, q)"
  shows "\<exists>w. same_pod (acquire env p) q \<and> selection_at env q (pt_world (acquire env p)) w \<and> generation_at env q w (pt_world q) \<and>
    session_matches env request x q"
proof -
  from assms obtain q1 q2 where "require_selected env ''RunPod allocation is no longer selected'' (acquire env p) = (Inr (), q1)"
    "require_generation env q1 = (Inr (), q2)" "check_session env request x q2 = (Inr u, q)"
    by (auto simp: before_dispatch_def locked_eq act_bind_Inr act_simps split: if_splits)
  from require_selected_done [OF this(1)] require_generation_done [OF this(2)] check_session_done [OF this(3)]
  show ?thesis using at_same same_trans by metis
qed

lemma reserve_exchange_done:
  assumes "reserve_exchange env request x body s = (Inr u, s')"
  shows "\<exists>b'. reserve_call (px_budget env) (px_scope env) request x body
      \<lparr>bd_store = pt_world (cp_pod s), bd_rates = pt_rates (cp_pod s), bd_hash = pt_pricing (cp_pod s)\<rparr> = (Inr (), b') \<and>
    s' = s\<lparr>cp_not_dispatched := False, cp_pod := (cp_pod s)\<lparr>pt_world := bd_store b', pt_rates := bd_rates b', pt_pricing := bd_hash b',
      pt_log := pt_log (cp_pod s) @ [Reserving x]\<rparr>\<rparr>"
proof -
  let ?b = "\<lparr>bd_store = pt_world (cp_pod s), bd_rates = pt_rates (cp_pod s), bd_hash = pt_pricing (cp_pod s)\<rparr>"
  obtain q b' where r: "reserve_call (px_budget env) (px_scope env) request x body ?b = (q, b')" by force
  show ?thesis
  proof (cases q)
    case (Inl e)
    with assms r have False
      by (auto simp: reserve_exchange_def act_bind_def act_handle_def act_simps on_pod_def on_budget_def mark_event_def split: if_splits)
    then show ?thesis ..
  next
    case (Inr v)
    with assms r show ?thesis
      by (auto simp: reserve_exchange_def act_bind_def act_handle_def act_simps on_pod_def on_budget_def mark_event_def)
  qed
qed

lemma after_reservation_done:
  assumes "after_reservation env request x p = (Inr d, q)"
  shows "\<exists>deadline w1 w2 w3 w4 monotonic now.
    authorize (px_records env) (px_scope env) request (px_pod env) x (pt_world p) = (Inr deadline, w1) \<and>
    generation_at env q w1 w2 \<and> selection_at env q w2 w3 \<and>
    px_clock env w3 = (Inr monotonic, w4) \<and> px_time env w4 = (Inr now, pt_world q) \<and>
    d = Some (fsub (fadd monotonic (of_int deadline)) now) \<and> pt_log q = pt_log p @ [Authorized x]"
proof -
  from assms obtain deadline w1 p1 p2 p3 w4 monotonic now where
    a: "authorize (px_records env) (px_scope env) request (px_pod env) x (pt_world p) = (Inr deadline, w1)"
    and p1: "p1 = p\<lparr>pt_world := w1, pt_log := pt_log p @ [Authorized x]\<rparr>"
    and p2: "require_generation env p1 = (Inr (), p2)" "require_selected env ''Round ended before provider release'' p2 = (Inr (), p3)"
    and c: "px_clock env (pt_world p3) = (Inr monotonic, w4)" "px_time env w4 = (Inr now, pt_world q)"
      "d = Some (fsub (fadd monotonic (of_int deadline)) now)" and q: "same_pod p3 q"
    by (auto simp: after_reservation_def act_bind_Inr act_simps world_Inr mark_event_def)
  note g = require_generation_done [OF p2(1)] and sl = require_selected_done [OF p2(2)]
  from g sl q have same: "same_pod p1 q" "same_pod p2 q" by (blast intro: same_trans)+
  have "pt_world p1 = w1" using p1 by simp
  with g have "generation_at env q w1 (pt_world p2)" by (simp only: at_same(2) [OF same(1)])
  moreover from sl have "selection_at env q (pt_world p2) (pt_world p3)" by (simp only: at_same(1) [OF same(2)])
  moreover have "pt_log q = pt_log p @ [Authorized x]" using same_fields [OF same(1)] p1 by simp
  ultimately show ?thesis using a c by blast
qed

lemma dispatch_done:
  assumes "authorize_dispatch env request x body s = (Inr d, s')"
  shows "\<exists>w1 w2 b w3 w4 w5 w6 deadline monotonic now.
    selection_at env (acquire env (cp_pod s)) (pt_world (acquire env (cp_pod s))) w1 \<and>
    generation_at env (acquire env (cp_pod s)) w1 w2 \<and> session_matches env request x (acquire env (cp_pod s)) \<and>
    reserve_call (px_budget env) (px_scope env) request x body \<lparr>bd_store = w2,
      bd_rates = pt_rates (acquire env (cp_pod s)), bd_hash = pt_pricing (acquire env (cp_pod s))\<rparr> = (Inr (), b) \<and>
    authorize (px_records env) (px_scope env) request (px_pod env) x (bd_store b) = (Inr deadline, w3) \<and>
    generation_at env (cp_pod s') w3 w4 \<and> selection_at env (cp_pod s') w4 w5 \<and>
    px_clock env w5 = (Inr monotonic, w6) \<and> px_time env w6 = (Inr now, pt_world (cp_pod s')) \<and>
    d = Some (fsub (fadd monotonic (of_int deadline)) now) \<and>
    pt_log (cp_pod s') = pt_log (cp_pod s) @ [Reserving x, Authorized x] \<and> \<not> cp_not_dispatched s'"
proof -
  from assms obtain p1 p2 s2 where p1: "before_dispatch env request x (cp_pod s) = (Inr (), p1)"
    and s2: "reserve_exchange env request x body (s\<lparr>cp_pod := p1\<rparr>) = (Inr (), s2)"
    and p2: "after_reservation env request x (cp_pod s2) = (Inr d, p2)" "s' = s2\<lparr>cp_pod := p2\<rparr>"
    by (auto simp: authorize_dispatch_def act_bind_Inr on_pod_Inr)
  from before_dispatch_done [OF p1] obtain w1 where b: "same_pod (acquire env (cp_pod s)) p1"
    "selection_at env p1 (pt_world (acquire env (cp_pod s))) w1" "generation_at env p1 w1 (pt_world p1)"
    "session_matches env request x p1" by blast
  note f = same_fields [OF b(1)] and at = at_same [OF b(1)]
  from reserve_exchange_done [OF s2] obtain b' where r: "reserve_call (px_budget env) (px_scope env) request x body
      \<lparr>bd_store = pt_world p1, bd_rates = pt_rates p1, bd_hash = pt_pricing p1\<rparr> = (Inr (), b')"
    "pt_world (cp_pod s2) = bd_store b'" "pt_log (cp_pod s2) = pt_log p1 @ [Reserving x]" "\<not> cp_not_dispatched s2" by auto
  from after_reservation_done [OF p2(1)] obtain deadline w3 w4 w5 w6 monotonic now where
    a: "authorize (px_records env) (px_scope env) request (px_pod env) x (bd_store b') = (Inr deadline, w3)"
    "generation_at env p2 w3 w4" "selection_at env p2 w4 w5" "px_clock env w5 = (Inr monotonic, w6)" "px_time env w6 = (Inr now, pt_world p2)"
    "d = Some (fsub (fadd monotonic (of_int deadline)) now)" "pt_log p2 = pt_log (cp_pod s2) @ [Authorized x]"
    unfolding r(2) by blast
  have q: "cp_pod s' = p2" "\<not> cp_not_dispatched s'" using p2(2) r(4) by simp_all
  have "pt_rates p1 = pt_rates (acquire env (cp_pod s))" "pt_pricing p1 = pt_pricing (acquire env (cp_pod s))" using f by simp_all
  note reserved = r(1) [unfolded this]
  have log: "pt_log p2 = pt_log (cp_pod s) @ [Reserving x, Authorized x]" using a(7) r(3) f by (simp add: acquire_def)
  show ?thesis
    unfolding q(1)
    by (intro exI conjI) (rule b(2,3,4) [unfolded at] reserved a(1-6) log q(2))+
qed

text \<open>
  C36: A dispatch is let through only past every fence, twice. The worlds w1 to w6 are the instants of
  a passing hook of the relay, each step starting in the world the one before it left: under the lock the pod
  accepts and is not draining and the store names it as selected (to w1), the policy of its round and the
  round itself are in force (to w2), the verified session is that of the request; then the charge is
  reserved and the call authorized (to w3); and after that, read anew, policy and round are still in force
  (to w4) and the pod is still accepting and selected (to w5), before the deadline is computed from
  the clocks. From the attempt to reserve on, the capture no longer counts as not dispatched.
\<close>

theorem dispatch_past_fences:
  assumes "authorize_dispatch env request x body s = (Inr d, s')"
  shows "\<exists>w1 w2 b w3 w4 w5 w6 deadline monotonic now.
    selection_at env (acquire env (cp_pod s)) (pt_world (acquire env (cp_pod s))) w1 \<and>
    generation_at env (acquire env (cp_pod s)) w1 w2 \<and> session_matches env request x (acquire env (cp_pod s)) \<and>
    reserve_call (px_budget env) (px_scope env) request x body \<lparr>bd_store = w2,
      bd_rates = pt_rates (acquire env (cp_pod s)), bd_hash = pt_pricing (acquire env (cp_pod s))\<rparr> = (Inr (), b) \<and>
    authorize (px_records env) (px_scope env) request (px_pod env) x (bd_store b) = (Inr deadline, w3) \<and>
    generation_at env (cp_pod s') w3 w4 \<and> selection_at env (cp_pod s') w4 w5 \<and>
    px_clock env w5 = (Inr monotonic, w6) \<and> px_time env w6 = (Inr now, pt_world (cp_pod s')) \<and>
    d = Some (fsub (fadd monotonic (of_int deadline)) now) \<and>
    pt_log (cp_pod s') = pt_log (cp_pod s) @ [Reserving x, Authorized x] \<and> \<not> cp_not_dispatched s'"
  using assms by (rule dispatch_done)

section \<open>A drained pod\<close>

definition retired_pod :: "'w runtime \<Rightarrow> bool" where
  "retired_pod s = (pt_draining s \<and> quiet s)"

text \<open>The other threads run the same operations, which keep this as shown below.\<close>

definition calm :: "('w, 'k) runtime_env \<Rightarrow> bool" where
  "calm env = (\<forall>s. retired_pod s \<longrightarrow> retired_pod (px_others env s))"

lemma retired_acquire: "calm env \<Longrightarrow> retired_pod s \<Longrightarrow> retired_pod (acquire env s)"
  by (auto simp: calm_def acquire_def retired_pod_def quiet_def)

lemma retired_refuses:
  assumes "calm env" "retired_pod s"
  shows "start_capture env request c s = (Inr (False, None), acquire env s)"
    "admit_render env s = (Inl (AuthRejected ''pod_not_selected'' 409), acquire env s)"
  using retired_acquire [OF assms]
  by (auto simp: start_capture_def admit_render_def locked_eq Let_def act_bind_def act_simps holds_selection_def retired_pod_def quiet_def)

lemma keeps_locked: "calm env \<Longrightarrow> keeps retired_pod m \<Longrightarrow> keeps retired_pod (locked env m)"
  by (auto simp: keeps_def locked_eq intro: retired_acquire)

lemma keeps_world: "keeps retired_pod (world m)"
  by (auto simp: keeps_def world_def retired_pod_def quiet_def split: prod.split)

lemma retired_controls:
  assumes "calm env"
  shows "keeps retired_pod (pod_drain env)" "keeps retired_pod (pod_tick env)" "keeps retired_pod (pod_command env msg)"
proof -
  have p: "keeps retired_pod (pod_drain env)" "keeps retired_pod (pod_tick env)" "keeps retired_pod (install_policy env v p st)" for v p st
    unfolding pod_drain_def pod_tick_def install_policy_def
    by (intro keeps_locked [OF assms] keeps_intros keeps_world | simp add: retired_pod_def quiet_def)+
  then show "keeps retired_pod (pod_drain env)" "keeps retired_pod (pod_tick env)" by blast+
  show "keeps retired_pod (pod_command env msg)"
    unfolding pod_command_def Let_def
    by (intro keeps_locked [OF assms] keeps_intros p | simp add: retired_pod_def quiet_def)+
qed

lemma retired_step:
  assumes "calm env" "pod_step env s s'" "retired_pod s"
  shows "retired_pod s'"
proof -
  have "pt_active s = []" "\<not> 0 < pt_rendering s" using assms(3) by (auto simp: retired_pod_def quiet_def)
  with assms(2) show ?thesis
    unfolding pod_step_def using retired_controls [OF assms(1)] retired_refuses [OF assms(1,3)] retired_acquire [OF assms(1,3)] assms(3)
    by (auto simp: keeps_def) (auto simp: retired_pod_def quiet_def)
qed

text \<open>
  C37: A drained pod stays drained: once its tick has told the gateway so, no operation makes it busy or selectable
  again, in particular no later activation; it starts no capture, admits no rendering and lets no dispatch through.
\<close>

theorem drained_pod_stays_quiet:
  assumes "calm env" "pod_tick env s = (Inr True, s1)" "(pod_step env)\<^sup>*\<^sup>* s1 t"
  shows "retired_pod t \<and> fst (start_capture env request c t) = Inr (False, None) \<and> \<not> is_ok (fst (admit_render env t)) \<and>
    \<not> is_ok (fst (authorize_dispatch env request x body \<lparr>cp_pod = t, cp_not_dispatched = True, cp_finalized = False, cp_cleanup = None\<rparr>))"
proof -
  have "retired_pod s1"
    using assms(2) by (auto simp: pod_tick_def locked_eq act_bind_Inr act_simps retired_pod_def)
  with assms(3) have t: "retired_pod t"
    by (induction rule: rtranclp_induct) (auto intro: retired_step [OF assms(1)])
  have "\<not> is_ok (fst (authorize_dispatch env request x body u))" if "cp_pod u = t" for u
  proof
    assume "is_ok (fst (authorize_dispatch env request x body u))"
    then obtain d u' where "authorize_dispatch env request x body u = (Inr d, u')" by (metis is_ok_iff prod.collapse)
    from dispatch_done [OF this] that show False
      using retired_acquire [OF assms(1) t] by (auto simp: selection_at_def retired_pod_def)
  qed
  with t retired_refuses [OF assms(1) t] show ?thesis by simp
qed

section \<open>An example\<close>

lemma conflict_exec: "(\<exists>m. e = StateConflict m) \<longleftrightarrow> is_conflict e"
  by (auto simp: is_conflict_def split: exn.splits)

lemmas cas_loop_exec [code] = cas_loop.simps [unfolded conflict_exec]

text \<open>A pod on a store of documents that never fails; nothing else runs in it.\<close>

definition example_load :: "string \<Rightarrow> ((string, document) dict, document snapshot option) action" where
  "example_load k w = (Inr (map_option (\<lambda>d. \<lparr>sn_etag = ''e'', sn_data = d\<rparr>) (dget w k)), w)"

definition example_save :: "string \<Rightarrow> document \<Rightarrow> string option \<Rightarrow> ((string, document) dict, document snapshot) action" where
  "example_save k d etag w = (Inr \<lparr>sn_etag = ''e'', sn_data = d\<rparr>, dset k d w)"

definition example_context :: "(string, document) dict call_context" where
  "example_context = \<lparr>cx_load = example_load, cx_save = example_save, cx_id = (\<lambda>_. replicate 64 (CHR ''a'')),
     cx_exchange = (\<lambda>_. example_start), cx_uuid = (\<lambda>_ _. ''u''), cx_now = (\<lambda>_. 100), cx_seconds = 1800\<rparr>"

definition example_pod_budget :: "(string, document) dict budget_env" where
  "example_pod_budget = \<lparr>be_load = (\<lambda>_. act_return None), be_save = (\<lambda>_ l _. act_return \<lparr>sn_etag = ''e'', sn_data = l\<rparr>),
     be_refresh = None, be_parse = example_table_of, be_sha = (\<lambda>_. ''h''), be_id = (\<lambda>_. ''call''), be_digest = (\<lambda>_. Inr ''ab''),
     be_request = (\<lambda>_. Inr (JObj [(''model'', JStr ''m'')])), be_uuid = (\<lambda>_ _. ''u'')\<rparr>"

definition example_relay_base :: "((string, document) dict, unit) relay_env" where
  "example_relay_base = \<lparr>ve_fuel = 5, ve_auth = ve_auth example_relay_env, ve_monotonic = act_return 0, ve_time = act_return 0,
     ve_connect = act_return (), ve_close = act_return (), ve_readable = (\<lambda>_. act_return False), ve_recv = act_return [],
     ve_sendall = (\<lambda>_. act_return ()), ve_channel_recv = (\<lambda>_. act_return []), ve_channel_claim = (\<lambda>_. act_return None),
     ve_channel_send = (\<lambda>_. act_return ()), ve_channel_notify = (\<lambda>_. act_return ()), ve_channel_finish = act_return (),
     ve_write = (\<lambda>_ _. act_return ()), ve_verify = example_verifier, ve_put = (\<lambda>_ _. act_return ()), ve_before_release = None,
     ve_extra = None, ve_seal = None, ve_before_delivery = None, ve_observe_failure = None, ve_json = (\<lambda>_. None),
     ve_dumps = (\<lambda>_. ''{}''), ve_int = (\<lambda>_. Inl KeyError)\<rparr>"

definition example_pod_env :: "((string, document) dict, unit) runtime_env" where
  "example_pod_env = \<lparr>px_scope = example_scope, px_start = example_start, px_pod = ''pod'', px_proof = ''proof'', px_round_end = Some 1000,
     px_inputs = None, px_max = 2, px_idle = 1800, px_fuel = 3, px_clock = act_return 5000, px_time = act_return 100,
     px_sleep = (\<lambda>_. act_return ()), px_selection = None, px_records = example_context, px_budget = example_pod_budget,
     px_get = (\<lambda>_. act_return None), px_put = (\<lambda>_ _. act_return ()), px_write = (\<lambda>_ _ _. act_return ()),
     px_unlink = (\<lambda>_ _. act_return ()), px_rmtree = (\<lambda>_ files w. ((Inr (), files), w)), px_verify = example_verifier,
     px_completed = (\<lambda>_. True), px_policy_of = (\<lambda>_. Inl KeyError), px_diagnostic = (\<lambda>_ _ _. act_raise KeyError), px_hash = (\<lambda>_. ''h''),
     px_sha = (\<lambda>_. ''h''), px_json = (\<lambda>_. Some (JObj [])), px_dumps = (\<lambda>_. ''{}''), px_others = (\<lambda>s. s), px_relay = example_relay_base\<rparr>"

definition example_call :: "call_phase \<Rightarrow> call" where
  "example_call p = (new_call example_request example_start)\<lparr>cl_phase := p, cl_start := Some example_start, cl_pod := Some ''pod'', cl_capture := Some ''x''\<rparr>"

definition example_documents :: "call_phase \<Rightarrow> (string, document) dict" where
  "example_documents p =
     (let s = sc_deployment example_scope @ ''/'' @ sc_round example_scope @ ''/'' @ sc_hotkey example_scope @ ''/''; i = replicate 64 (CHR ''a'')
      in [(''pod-exchanges/v2/'' @ s @ example_start @ ''.json'', IndexDoc i),
          (''pod-calls/v2/'' @ s @ i @ ''.json'', RecordDoc \<lparr>cr_revision = ''u'', cr_scope_key = scope_key example_scope, cr_call = example_call p\<rparr>)])"

definition example_origin :: url_parts where
  "example_origin = \<lparr>up_scheme = ''https'', up_netloc = ''g'', up_hostname = Some ''g'', up_username = None, up_path = [], up_fragment = []\<rparr>"

definition example_pod :: "(string, document) dict runtime" where
  "example_pod = \<lparr>pt_world = example_documents Capturing, pt_rates = example_table, pt_pricing = ''h'', pt_policy = None, pt_until = 0,
     pt_active = [example_start], pt_rendering = 0, pt_accepting = False, pt_draining = False, pt_last_used = 0,
     pt_spool = [(example_start, [(''client.bin'', ''c'')])], pt_log = []\<rparr>"

lemma example_new_pod:
  "new_runtime example_pod_env example_origin [] [(example_start, [(''client.bin'', ''c'')])] example_table ''h'' 0 (example_documents Capturing)
     = Inr example_pod"
proof -
  have u: "uuid_ok example_start" by code_simp
  then show ?thesis
    by (simp add: new_runtime_def example_pod_env_def example_origin_def example_pod_def session_uuid_def)
qed

text \<open>The spool left by a crash before dispatch: the call fails, the files are kept and the spool goes.\<close>

lemma example_recovered:
  "(let s = snd (recover_capture example_pod_env example_start example_pod)
    in (pt_spool s, map (\<lambda>e. case e of FailedAs _ b \<Rightarrow> 1 | Removing _ \<Rightarrow> 2 | _ \<Rightarrow> (0::int)) (pt_log s), last (pt_log s))) =
   ([], [0, 0, 0, 1, 0, 0, 2], Removing example_start)"
  by code_simp

theorem spool_outlives_outcome_witness:
  "\<exists>s us. pod_reach example_pod_env s \<and> pt_spool s = [] \<and> pt_log s = us @ [Removing example_start] \<and> settled example_start (rev us)"
proof -
  let ?s = "snd (recover_capture example_pod_env example_start example_pod)"
  have step: "pod_step example_pod_env example_pod ?s"
    unfolding pod_step_def by (simp add: example_pod_def)
  have reach: "pod_reach example_pod_env ?s"
    by (rule pod_reach.step [OF pod_reach.start [OF example_new_pod] step])
  from spool_outlives_outcome [OF this] have order: "preceded removal_ok [] (pt_log ?s)" .
  from example_recovered have e: "pt_spool ?s = []" "pt_log ?s \<noteq> []" "last (pt_log ?s) = Removing example_start" by (auto simp: Let_def)
  then have l: "pt_log ?s = butlast (pt_log ?s) @ [Removing example_start]" by (metis append_butlast_last_id)
  from preceded_split [OF order l] have "settled example_start (rev (butlast (pt_log ?s)))" by (simp add: removal_ok_def)
  with reach e(1) l show ?thesis by blast
qed

definition example_waiting :: "(string, document) dict capturing" where
  "example_waiting = \<lparr>cp_pod = example_pod\<lparr>pt_accepting := True, pt_spool := [(example_start, [(''authorization.json'', ''{}'')])]\<rparr>,
     cp_not_dispatched = True, cp_finalized = False, cp_cleanup = None\<rparr>"

lemma example_dispatch: "is_ok (fst (authorize_dispatch example_pod_env example_request example_start ''body'' example_waiting))"
  by code_simp

theorem dispatch_past_fences_witness:
  "\<exists>d s w w'. authorize_dispatch example_pod_env example_request example_start ''body'' example_waiting = (Inr d, s) \<and>
     selection_at example_pod_env (cp_pod s) w w' \<and> pt_log (cp_pod s) = [Reserving example_start, Authorized example_start] \<and> \<not> cp_not_dispatched s"
proof -
  obtain r s where run: "authorize_dispatch example_pod_env example_request example_start ''body'' example_waiting = (r, s)" by force
  then obtain d where "r = Inr d" using example_dispatch by (auto simp: is_ok_iff)
  with run have d: "authorize_dispatch example_pod_env example_request example_start ''body'' example_waiting = (Inr d, s)" by simp
  from dispatch_past_fences [OF d] obtain w w' where "selection_at example_pod_env (cp_pod s) w w'" "\<not> cp_not_dispatched s"
    "pt_log (cp_pod s) = pt_log (cp_pod example_waiting) @ [Reserving example_start, Authorized example_start]" by blast
  moreover have "pt_log (cp_pod example_waiting) = []" by (simp add: example_waiting_def example_pod_def)
  ultimately show ?thesis using d by auto
qed

theorem drained_pod_stays_quiet_witness:
  "\<exists>s. pod_tick example_pod_env (example_pod\<lparr>pt_active := []\<rparr>) = (Inr True, s) \<and>
     retired_pod (snd (pod_command example_pod_env [(''type'', JStr ''activate'')] s)) \<and>
     fst (start_capture example_pod_env example_request (example_call Assigned)
       (snd (pod_command example_pod_env [(''type'', JStr ''activate'')] s))) = Inr (False, None)"
proof -
  let ?s = "example_pod\<lparr>pt_active := []\<rparr>"
  have calm: "calm example_pod_env" by (simp add: calm_def example_pod_env_def)
  have idle: "1800 \<le> fsub 5000 0" by code_simp
  have "fst (pod_tick example_pod_env ?s) = Inr True"
    using idle by (simp add: pod_tick_def locked_eq act_bind_def act_simps quiet_def world_def acquire_def example_pod_env_def example_pod_def)
  then obtain s where s: "pod_tick example_pod_env ?s = (Inr True, s)" by (metis prod.collapse)
  let ?t = "snd (pod_command example_pod_env [(''type'', JStr ''activate'')] s)"
  have "pod_step example_pod_env s ?t" unfolding pod_step_def by blast
  then have "(pod_step example_pod_env)\<^sup>*\<^sup>* s ?t" by simp
  from drained_pod_stays_quiet [OF calm s this] s show ?thesis by blast
qed

end
