(* ===== verification/ProviderResponse.thy ===== *)
theory ProviderResponse
  imports Rounds Submissions
begin

text \<open>
  How the witness client reads a provider's answer, \<^verbatim>\<open>witness_client/response.py\<close>: the HTTP response, whose length
  must be given explicitly, the server-sent events in its body and the completed response they end in. JSON and
  UTF-8 are parameters; a response of the SDK is the dictionary it is built from.
\<close>

section \<open>Errors\<close>

record witness_error =
  we_status :: "int option"
  we_code :: "string option"
  we_source :: string
  we_provider_code :: "string option"
  we_param :: "string option"
  we_provider_message :: "string option"
  we_exchange :: "string option"
  we_retry_after :: "pyfloat option"

definition new_error :: "string \<Rightarrow> witness_error" where
  "new_error source = \<lparr>we_status = None, we_code = None, we_source = source, we_provider_code = None, we_param = None,
     we_provider_message = None, we_exchange = None, we_retry_after = None\<rparr>"

datatype client_error = Py exn | Witness witness_error

type_synonym 'a client = "client_error + 'a"

definition value_error :: "string \<Rightarrow> 'a client" where
  "value_error m = Inl (Py (ValueError m))"

definition type_error :: "'a client" where
  "type_error = Inl (Py (PyException ''TypeError''))"

definition attribute_error :: "'a client" where
  "attribute_error = Inl (Py (PyException ''AttributeError''))"

definition json_str :: "json option \<Rightarrow> string option" where
  "json_str v = (case v of Some (JStr s) \<Rightarrow> Some s | _ \<Rightarrow> None)"

definition provider_error :: "int \<Rightarrow> json option \<Rightarrow> witness_error" where
  "provider_error status v =
     (let details = (case v of
            Some (JObj m) \<Rightarrow> (case dget m ''error'' of Some (JObj e) \<Rightarrow> e | _ \<Rightarrow> [(''message'', dget_default m ''detail'' JNull)])
          | _ \<Rightarrow> [])
      in (new_error ''provider'')\<lparr>we_status := Some status,
        we_code := Some (if status \<in> {400, 401, 403, 404, 429} then ''provider_rejected'' else ''provider_error''),
        we_provider_code := json_str (dget details ''code''), we_param := json_str (dget details ''param''),
        we_provider_message := json_str (dget details ''message'')\<rparr>)"

section \<open>HTTP\<close>

definition crlf :: string where "crlf = [CHR 0x0D, CHR 0x0A]"

text \<open>\<^verbatim>\<open>s.partition(p)\<close> where \<open>p\<close> occurs.\<close>

fun cut :: "string \<Rightarrow> string \<Rightarrow> (string \<times> string) option" where
  "cut p s = (if take (length p) s = p then Some ([], drop (length p) s)
     else (case s of [] \<Rightarrow> None | c # cs \<Rightarrow> map_option (\<lambda>(a, b). (c # a, b)) (cut p cs)))"

declare cut.simps [simp del]

lemma cut_parts: "cut p s = Some (a, b) \<Longrightarrow> s = a @ p @ b"
proof (induction s arbitrary: a)
  case (Cons c s)
  then show ?case
    by (subst (asm) cut.simps) (auto split: if_splits simp: cut.simps, metis append_take_drop_id)
qed (auto simp: cut.simps split: if_splits)

function split_str :: "string \<Rightarrow> string \<Rightarrow> string list" where
  "split_str p s = (if p = [] then [s] else (case cut p s of None \<Rightarrow> [s] | Some (a, b) \<Rightarrow> a # split_str p b))"
  by auto
termination by (relation "measure (length \<circ> snd)") (auto dest!: cut_parts)

declare split_str.simps [simp del]

definition latin1_blank :: "char \<Rightarrow> bool" where
  "latin1_blank c = (is_blank c \<or> c = CHR 0x85 \<or> c = CHR 0xA0)"

definition latin1_strip :: "string \<Rightarrow> string" where
  "latin1_strip s = rev (dropWhile latin1_blank (rev (dropWhile latin1_blank s)))"

text \<open>\<^verbatim>\<open>^HTTP/1\.1 ([2-5][0-9]{2})(?: |$)\<close>\<close>

definition http_status :: "string \<Rightarrow> nat option" where
  "http_status line =
     (let digits = take 3 (drop 9 line); rest = drop 12 line
      in if take 9 line = ''HTTP/1.1 '' \<and> length digits = 3 \<and> list_all is_digit digits \<and> hd digits \<in> set ''2345'' \<and>
          (take 1 rest = '' '' \<or> rest = [] \<or> rest = [CHR 0x0A])
         then Some (nat_of_digits digits) else None)"

definition framing_names :: "string list" where
  "framing_names = [''content-length'', ''transfer-encoding'', ''content-encoding'']"

fun read_headers :: "string list \<Rightarrow> (string, string) dict \<Rightarrow> (string, string) dict client" where
  "read_headers [] headers = Inr headers"
| "read_headers (line # lines) headers =
     (case cut '':'' line of
        None \<Rightarrow> value_error ''Ambiguous HTTP response framing''
      | Some (n, v) \<Rightarrow>
          if dhas headers (lower n) \<and> lower n \<in> set framing_names then value_error ''Ambiguous HTTP response framing''
          else read_headers lines (dset (lower n) (latin1_strip v) headers))"

definition decimal_ok :: "string \<Rightarrow> bool" where
  "decimal_ok s = (s = ''0'' \<or> (case s of [] \<Rightarrow> False | c # cs \<Rightarrow> is_digit c \<and> c \<noteq> CHR ''0'' \<and> list_all is_digit cs))"

definition hex_digit :: "char \<Rightarrow> nat option" where
  "hex_digit c = (let n = of_char c :: nat in
     if 48 \<le> n \<and> n \<le> 57 then Some (n - 48) else if 97 \<le> n \<and> n \<le> 102 then Some (n - 87)
     else if 65 \<le> n \<and> n \<le> 70 then Some (n - 55) else None)"

definition hex_ok :: "string \<Rightarrow> bool" where
  "hex_ok s = (s \<noteq> [] \<and> length s \<le> 8 \<and> list_all (\<lambda>c. hex_digit c \<noteq> None) s)"

definition hex_number :: "string \<Rightarrow> nat" where
  "hex_number s = foldl (\<lambda>n c. 16 * n + (case hex_digit c of None \<Rightarrow> 0 | Some d \<Rightarrow> d)) 0 s"

function dechunk :: "string \<Rightarrow> string \<Rightarrow> string client" where
  "dechunk out rest =
     (if rest = [] then value_error ''Missing final HTTP chunk''
      else (case cut crlf rest of
        None \<Rightarrow> value_error ''Invalid HTTP chunk''
      | Some (sz, after) \<Rightarrow>
          if \<not> hex_ok sz then value_error ''Invalid HTTP chunk''
          else let n = hex_number sz in
            if length after < n + 2 \<or> take 2 (drop n after) \<noteq> crlf then value_error ''Truncated HTTP chunk''
            else if n = 0 then (if length after \<noteq> 2 then value_error ''Extra HTTP response bytes'' else Inr out)
            else dechunk (out @ take n after) (drop (n + 2) after)))"
  by auto
termination by (relation "measure (length \<circ> snd)") (auto dest!: cut_parts)

declare dechunk.simps [simp del]

definition framed_body :: "(string, string) dict \<Rightarrow> string \<Rightarrow> string client" where
  "framed_body headers body =
     (case dget headers ''content-length'' of
        Some n \<Rightarrow>
          if dhas headers ''transfer-encoding'' \<or> \<not> decimal_ok n \<or> nat_of_digits n \<noteq> length body
          then value_error ''Incomplete/additional HTTP body'' else Inr body
      | None \<Rightarrow>
          if dget headers ''transfer-encoding'' \<noteq> Some ''chunked'' then value_error ''Explicit HTTP response framing required''
          else dechunk [] body)"

definition http_body :: "(string \<Rightarrow> json option) \<Rightarrow> string \<Rightarrow> bool \<Rightarrow> string client" where
  "http_body loads raw allow_error =
     (case cut (crlf @ crlf) raw of
        None \<Rightarrow> value_error ''Invalid HTTP response headers''
      | Some (head, body) \<Rightarrow>
          if 32768 < int (length head) then value_error ''Invalid HTTP response headers''
          else (case split_str crlf head of
            [] \<Rightarrow> value_error ''Invalid provider HTTP status''
          | first # lines \<Rightarrow>
              (case http_status first of
                 None \<Rightarrow> value_error ''Invalid provider HTTP status''
               | Some status \<Rightarrow>
                   rbind (read_headers lines []) (\<lambda>headers.
                     if dget_default headers ''content-encoding'' ''identity'' \<noteq> ''identity'' then value_error ''Compressed responses unsupported''
                     else rbind (framed_body headers body) (\<lambda>b.
                       if status \<noteq> 200 \<and> \<not> allow_error then Inl (Witness (provider_error (int status) (loads b))) else Inr b)))))"

section \<open>Framing is exact\<close>

lemma cut_here: "cut p (p @ u) = Some ([], u)"
  by (simp add: cut.simps)

lemma cut_extend: "cut p s = Some (a, b) \<Longrightarrow> cut p (s @ t) = Some (a, b @ t)"
proof (induction s arbitrary: a)
  case Nil
  then have "p = []" by (simp add: cut.simps split: if_splits)
  with Nil show ?case by (auto simp: cut.simps)
next
  case (Cons c s)
  show ?case
  proof (cases "take (length p) (c # s) = p")
    case True
    then obtain u where u: "c # s = p @ u" by (metis append_take_drop_id)
    with Cons.prems have "a = []" "b = u" using cut_here [of p u] by auto
    then show ?thesis using u cut_here [of p "u @ t"] by (metis append_assoc)
  next
    case False
    with Cons.prems obtain a' where a: "a = c # a'" "cut p s = Some (a', b)" by (subst (asm) cut.simps) auto
    have "take (length p) (c # s @ t) \<noteq> p"
    proof
      assume t: "take (length p) (c # s @ t) = p"
      from cut_parts [OF a(2)] have "length p \<le> length (c # s)" by simp
      with t have "take (length p) (c # s) = p" by (metis append_Cons take_append diff_is_0_eq take0 append_Nil2 take_0)
      with False show False by simp
    qed
    with a Cons.IH show ?thesis by (simp add: cut.simps [of p "c # s @ t"])
  qed
qed

lemma dechunk_extend:
  assumes "dechunk out s = Inr x" "dechunk out (s @ t) = Inr y"
  shows "t = []"
  using assms
proof (induction out s arbitrary: x y rule: dechunk.induct)
  case (1 out s)
  from 1(2) obtain sz after where c: "s \<noteq> []" "cut crlf s = Some (sz, after)" "hex_ok sz"
    "hex_number sz + 2 \<le> length after" "take 2 (drop (hex_number sz) after) = crlf"
    by (subst (asm) dechunk.simps) (auto simp: value_error_def Let_def split: if_splits option.splits)
  let ?n = "hex_number sz"
  have c': "cut crlf (s @ t) = Some (sz, after @ t)" by (rule cut_extend [OF c(2)])
  have cr: "take 2 (drop ?n (after @ t)) = crlf" using c(4,5) by simp
  show ?case
  proof (cases "?n = 0")
    case True
    from 1(2) c True have "length after = 2" by (subst (asm) dechunk.simps) (auto simp: value_error_def Let_def split: if_splits)
    moreover from 1(3) c c' cr True have "length (after @ t) = 2"
      by (subst (asm) dechunk.simps) (auto simp: value_error_def Let_def split: if_splits)
    ultimately show ?thesis by simp
  next
    case False
    from 1(2) c False have x: "dechunk (out @ take ?n after) (drop (?n + 2) after) = Inr x"
      by (subst (asm) dechunk.simps) (auto simp: value_error_def Let_def split: if_splits)
    from 1(3) c c' cr False have "dechunk (out @ take ?n (after @ t)) (drop (?n + 2) (after @ t)) = Inr y"
      by (subst (asm) dechunk.simps) (auto simp: value_error_def Let_def split: if_splits)
    then have y: "dechunk (out @ take ?n after) (drop (?n + 2) after @ t) = Inr y" using c(4) by simp
    from 1(1) [OF c(1) c(2) refl _ refl _ False x y] c show ?thesis by simp
  qed
qed

text \<open>
  C38: A response delimits itself: no proper prefix of an accepted HTTP response is accepted, and nothing may follow it, whether its
  length is given by a header or by chunks. A truncated answer is never taken for a whole one.
\<close>

theorem response_delimits_itself:
  assumes "http_body loads raw allow = Inr b" "http_body loads (raw @ extra) allow' = Inr b'"
  shows "extra = []"
proof -
  from assms(1) obtain head body where c: "cut (crlf @ crlf) raw = Some (head, body)"
    by (auto simp: http_body_def value_error_def split: option.splits)
  have c': "cut (crlf @ crlf) (raw @ extra) = Some (head, body @ extra)" by (rule cut_extend [OF c])
  from assms(1) c obtain first lines status headers where h: "split_str crlf head = first # lines" "http_status first = Some status"
    "read_headers lines [] = Inr headers" "framed_body headers body = Inr b"
    by (auto simp: http_body_def value_error_def rbind_eq_Inr split: option.splits if_splits list.splits)
  from assms(2) c' h have "framed_body headers (body @ extra) = Inr b'"
    by (auto simp: http_body_def value_error_def rbind_eq_Inr split: if_splits)
  with h(4) show ?thesis
    by (auto simp: framed_body_def value_error_def split: option.splits if_splits dest: dechunk_extend)
qed

section \<open>Events\<close>

text \<open>\<^verbatim>\<open>s.replace(a, b)\<close> and \<^verbatim>\<open>s.splitlines()\<close>.\<close>

definition replace_str :: "string \<Rightarrow> string \<Rightarrow> string \<Rightarrow> string" where
  "replace_str a b s = join_with b (split_str a s)"

definition is_line_end :: "char \<Rightarrow> bool" where
  "is_line_end c = (c \<in> {CHR 0x0A, CHR 0x0B, CHR 0x0C, CHR 0x0D, CHR 0x1C, CHR 0x1D, CHR 0x1E})"

function splitlines :: "string \<Rightarrow> string list" where
  "splitlines s = (if s = [] then [] else
     (let line = takeWhile (\<lambda>c. \<not> is_line_end c) s; rest = dropWhile (\<lambda>c. \<not> is_line_end c) s
      in line # splitlines (drop (if take 2 rest = crlf then 2 else 1) rest)))"
  by auto
termination
proof (relation "measure length")
  fix s line rest
  assume s: "s \<noteq> []" and rest: "rest = dropWhile (\<lambda>c. \<not> is_line_end c) s"
  have "length rest \<le> length s" unfolding rest by (rule length_dropWhile_le)
  moreover have "length s > 0" using s by simp
  ultimately have "length (drop k rest) < length s" if "k > 0" for k
    using that unfolding length_drop by linarith
  then show "(drop (if take 2 rest = crlf then 2 else 1) rest, s) \<in> measure length" by simp
qed simp

declare splitlines.simps [simp del]

definition event_data :: "string \<Rightarrow> string" where
  "event_data event = join_with [CHR 0x0A] (map (\<lambda>line. dropWhile (\<lambda>c. c = CHR '' '') (drop 5 line))
     (filter (\<lambda>line. take 5 line = ''data:'') (splitlines event)))"

definition sse_data :: "string \<Rightarrow> string list" where
  "sse_data t = filter (\<lambda>d. d \<noteq> [] \<and> d \<noteq> ''[DONE]'')
     (map event_data (split_str [CHR 0x0A, CHR 0x0A] (replace_str crlf [CHR 0x0A] t)))"

section \<open>The completed response\<close>

text \<open>
  A key of the dictionaries is an output and a content index. Equal numbers are one key; a list or a dictionary
  cannot be one.
\<close>

type_synonym text_key = "json \<times> json"

definition key_part :: "json \<Rightarrow> json client" where
  "key_part v = (case v of JList _ \<Rightarrow> type_error | JObj _ \<Rightarrow> type_error
     | _ \<Rightarrow> Inr (case num_of v of Some q \<Rightarrow> JFloat q | None \<Rightarrow> v))"

definition event_key :: "(string, json) dict \<Rightarrow> text_key client" where
  "event_key v = rbind (key_part (dget_default v ''output_index'' (JInt 0))) (\<lambda>i.
     rbind (key_part (dget_default v ''content_index'' (JInt 0))) (\<lambda>j. Inr (i, j)))"

definition event_field :: "(string, json) dict \<Rightarrow> string \<Rightarrow> json client" where
  "event_field v k = some_or (dget v k) (Py KeyError)"

definition as_dict :: "json \<Rightarrow> (string, json) dict client" where
  "as_dict v = (case v of JObj m \<Rightarrow> Inr m | _ \<Rightarrow> attribute_error)"

record sse_state =
  ss_completed :: "(string, json) dict option"
  ss_items :: "(int, json) dict"
  ss_texts :: "(text_key, json) dict"
  ss_deltas :: "(text_key, json list) dict"

definition terminal_kinds :: "(string \<times> string) list" where
  "terminal_kinds = [(''response.completed'', ''completed''), (''response.failed'', ''failed''), (''response.incomplete'', ''incomplete'')]"

definition read_delta :: "(string, json) dict \<Rightarrow> sse_state \<Rightarrow> sse_state client" where
  "read_delta v s = rbind (event_key v) (\<lambda>key. rbind (event_field v ''delta'') (\<lambda>d.
     Inr (s\<lparr>ss_deltas := dset key (dget_default (ss_deltas s) key [] @ [d]) (ss_deltas s)\<rparr>)))"

definition read_text :: "(string, json) dict \<Rightarrow> sse_state \<Rightarrow> sse_state client" where
  "read_text v s = rbind (event_key v) (\<lambda>key.
     if dhas (ss_texts s) key then value_error ''Duplicate completed output text''
     else rbind (event_field v ''text'') (\<lambda>t. Inr (s\<lparr>ss_texts := dset key t (ss_texts s)\<rparr>)))"

definition read_item :: "(string, json) dict \<Rightarrow> sse_state \<Rightarrow> sse_state client" where
  "read_item v s = rbind (event_field v ''output_index'') (\<lambda>index.
     case index of
       JInt i \<Rightarrow>
         if i < 0 \<or> dhas (ss_items s) i then value_error ''Invalid or duplicate completed output item index''
         else rbind (event_field v ''item'') (\<lambda>x. Inr (s\<lparr>ss_items := dset i x (ss_items s)\<rparr>))
     | _ \<Rightarrow> value_error ''Invalid or duplicate completed output item index'')"

definition read_terminal :: "string \<Rightarrow> (string, json) dict \<Rightarrow> sse_state \<Rightarrow> sse_state client" where
  "read_terminal status v s =
     (if ss_completed s \<noteq> None then value_error ''Multiple completed responses''
      else rbind (event_field v ''response'') (\<lambda>r. rbind (as_dict r) (\<lambda>completed.
        if dget completed ''status'' \<noteq> Some (JStr status) then value_error ''Inconsistent terminal response status''
        else Inr (s\<lparr>ss_completed := Some completed\<rparr>))))"

definition is_error_event :: "(string, json) dict \<Rightarrow> bool" where
  "is_error_event v = (dget v ''type'' = Some (JStr ''error'') \<or> truthy (dget_default v ''error'' JNull))"

definition error_details :: "(string, json) dict \<Rightarrow> json" where
  "error_details v = (case dget v ''error'' of Some (JObj _) \<Rightarrow> JObj v | _ \<Rightarrow> JObj [(''error'', JObj v)])"

definition read_event :: "json \<Rightarrow> sse_state \<Rightarrow> sse_state client" where
  "read_event value s = rbind (as_dict value) (\<lambda>v.
     if is_error_event v then Inl (Witness (provider_error 200 (Some (error_details v))))
     else (case dget v ''type'' of
         Some (JStr kind) \<Rightarrow>
           if kind = ''response.output_text.delta'' then read_delta v s
           else if kind = ''response.output_text.done'' then read_text v s
           else if kind = ''response.output_item.done'' then read_item v s
           else (case dget terminal_kinds kind of Some status \<Rightarrow> read_terminal status v s | None \<Rightarrow> Inr s)
       | _ \<Rightarrow> Inr s))"

fun read_events :: "(string \<Rightarrow> json option) \<Rightarrow> string list \<Rightarrow> sse_state \<Rightarrow> sse_state client" where
  "read_events loads [] s = Inr s"
| "read_events loads (d # ds) s =
     (case loads d of None \<Rightarrow> value_error ''json''
      | Some value \<Rightarrow> rbind (read_event value s) (read_events loads ds))"

text \<open>Iteration over a JSON value, and \<^verbatim>\<open>sorted\<close> on keys: it raises when two of them cannot be compared.\<close>

definition iterate :: "json \<Rightarrow> json list client" where
  "iterate v = (case v of JList xs \<Rightarrow> Inr xs | JStr s \<Rightarrow> Inr (map (\<lambda>c. JStr [c]) s) | JObj m \<Rightarrow> Inr (map (JStr \<circ> fst) m)
     | _ \<Rightarrow> type_error)"

definition key_less :: "text_key \<Rightarrow> text_key \<Rightarrow> bool option" where
  "key_less a b = (if fst a = fst b then json_less (snd a) (snd b) else json_less (fst a) (fst b))"

fun insert_key :: "text_key \<times> 'a \<Rightarrow> (text_key \<times> 'a) list \<Rightarrow> (text_key \<times> 'a) list" where
  "insert_key x [] = [x]"
| "insert_key x (y # ys) = (if key_less (fst x) (fst y) = Some True then x # y # ys else y # insert_key x ys)"

definition sorted_items :: "(text_key, 'a) dict \<Rightarrow> (text_key \<times> 'a) list client" where
  "sorted_items d =
     (if list_all (\<lambda>a. list_all (\<lambda>b. fst a = fst b \<or> key_less (fst a) (fst b) \<noteq> None) d) d
      then Inr (foldr insert_key d []) else type_error)"

definition item_texts :: "json \<Rightarrow> json \<Rightarrow> (text_key \<times> json) list client" where
  "item_texts i item =
     rbind (as_dict item) (\<lambda>m.
       if dget m ''type'' \<noteq> Some (JStr ''message'') then Inr []
       else rbind (iterate (dget_default m ''content'' (JList []))) (\<lambda>contents.
         rmap concat (rmapM (\<lambda>(j, content). rbind (as_dict content) (\<lambda>c.
             if dget c ''type'' \<noteq> Some (JStr ''output_text'') then Inr []
             else rmap (\<lambda>t. [((i, JFloat (of_nat j)), t)]) (event_field c ''text'')))
           (enumerate 0 contents))))"

definition final_texts :: "(json \<times> json) list \<Rightarrow> (text_key, json) dict client" where
  "final_texts items = rmap (\<lambda>ts. dset_all (concat ts) []) (rmapM (\<lambda>(i, item). item_texts i item) items)"

definition same_texts :: "(text_key, json) dict \<Rightarrow> (text_key, json) dict \<Rightarrow> bool" where
  "same_texts a b = (length a = length b \<and> list_all (\<lambda>(k, v). case dget b k of None \<Rightarrow> False | Some w \<Rightarrow> json_eq v w) a)"

fun join_texts :: "json list \<Rightarrow> string client" where
  "join_texts [] = Inr []"
| "join_texts (v # vs) = (case v of JStr s \<Rightarrow> rmap (\<lambda>t. s @ t) (join_texts vs) | _ \<Rightarrow> type_error)"

fun check_deltas :: "(text_key \<times> json list) list \<Rightarrow> (text_key, json) dict \<Rightarrow> unit client" where
  "check_deltas [] texts = Inr ()"
| "check_deltas ((key, parts) # ds) texts =
     rbind (join_texts parts) (\<lambda>s.
       if dget texts key \<noteq> Some (JStr s) then value_error ''Missing/inconsistent completed output text'' else check_deltas ds texts)"

text \<open>The output when the terminal event leaves it out: from the items, or from the texts.\<close>

definition with_items :: "(int, json) dict \<Rightarrow> (string, json) dict \<Rightarrow> ((json \<times> json) list \<times> (string, json) dict) client" where
  "with_items items completed =
     (if \<not> truthy (dget_default completed ''output'' JNull) \<and> items \<noteq> []
      then (let sorted = sort_key fst items
            in Inr (map (\<lambda>(i, x). (JFloat (of_int i), x)) sorted, dset ''output'' (JList (map snd sorted)) completed))
      else rmap (\<lambda>xs. (map (\<lambda>(i, x). (JFloat (of_nat i), x)) (enumerate 0 xs), completed))
        (iterate (dget_default completed ''output'' (JList []))))"

fun group_texts :: "(text_key \<times> json) list \<Rightarrow> (json, json list) dict \<Rightarrow> (json, json list) dict" where
  "group_texts [] d = d"
| "group_texts (((i, _), t) # ts) d = group_texts ts (dset i (dget_default d i [] @
     [JObj [(''type'', JStr ''output_text''), (''text'', t)]]) d)"

definition with_texts :: "(text_key, json) dict \<Rightarrow> (string, json) dict \<Rightarrow> (string, json) dict client" where
  "with_texts texts completed =
     (if truthy (dget_default completed ''output'' JNull) \<or> texts = [] then Inr completed
      else rmap (\<lambda>sorted. dset ''output'' (JList (map (\<lambda>(_, contents). JObj [(''type'', JStr ''message''), (''content'', JList contents)])
        (group_texts sorted []))) completed) (sorted_items texts))"

definition settle_texts :: "sse_state \<Rightarrow> (string, json) dict \<Rightarrow> ((text_key, json) dict \<times> (string, json) dict) client" where
  "settle_texts s completed =
     rbind (with_items (ss_items s) completed) (\<lambda>(indexed, completed).
     rbind (final_texts indexed) (\<lambda>final.
       if final \<noteq> [] \<and> ss_texts s \<noteq> [] \<and> \<not> same_texts final (ss_texts s) then value_error ''Final output differs from streamed text''
       else let texts = (if final \<noteq> [] then final else ss_texts s) in
         rbind (check_deltas (ss_deltas s) texts) (\<lambda>_. rbind (with_texts texts completed) (\<lambda>completed. Inr (texts, completed)))))"

definition response_error :: "(string, json) dict \<Rightarrow> string \<Rightarrow> witness_error" where
  "response_error completed status =
     (let e = (case dget completed ''error'' of Some (JObj m) \<Rightarrow> m | _ \<Rightarrow> [])
      in (new_error ''provider'')\<lparr>we_code := Some (''provider_'' @ status), we_provider_code := json_str (dget e ''code''),
           we_provider_message := json_str (dget e ''message'')\<rparr>)"

definition completed_response :: "(string \<Rightarrow> json option) \<Rightarrow> (string \<Rightarrow> string result) \<Rightarrow> string \<Rightarrow> bool \<Rightarrow> (string \<times> (string, json) dict) client" where
  "completed_response loads decode body raise_failed =
     (case decode body of Inl e \<Rightarrow> Inl (Py e)
      | Inr t \<Rightarrow>
          rbind (read_events loads (sse_data t) \<lparr>ss_completed = None, ss_items = [], ss_texts = [], ss_deltas = []\<rparr>) (\<lambda>s.
            case ss_completed s of None \<Rightarrow> value_error ''Missing completed OpenAI response''
            | Some completed \<Rightarrow>
                rbind (settle_texts s completed) (\<lambda>(texts, completed).
                  let status = (case json_str (dget completed ''status'') of None \<Rightarrow> [] | Some x \<Rightarrow> x) in
                  if raise_failed \<and> status \<noteq> ''completed'' then Inl (Witness (response_error completed status))
                  else rbind (sorted_items texts) (\<lambda>sorted. rmap (\<lambda>text. (text, completed)) (join_texts (map snd sorted))))))"

text \<open>The value a caller gets from retained bytes: \<^verbatim>\<open>model_result\<close> without streaming, and \<^verbatim>\<open>ModelStream\<close>.\<close>

datatype model_error = StatusError string int "json option" | ApiError string "string option" "string option"

definition status_class :: "int \<Rightarrow> string" where
  "status_class status =
     (case dget [(400, ''BadRequestError''), (401, ''AuthenticationError''), (403, ''PermissionDeniedError''), (404, ''NotFoundError''),
         (409, ''ConflictError''), (422, ''UnprocessableEntityError''), (429, ''RateLimitError'')] status of
        Some c \<Rightarrow> c | None \<Rightarrow> if 500 \<le> status then ''InternalServerError'' else ''APIStatusError'')"

definition model_result :: "(string \<Rightarrow> json option) \<Rightarrow> (string \<Rightarrow> string result) \<Rightarrow> int \<Rightarrow> string \<Rightarrow> (exn + model_error) + (string, json) dict" where
  "model_result loads decode status body =
     (if status \<noteq> 200
      then Inl (Inr (StatusError (status_class status) status (case loads body of Some (JObj m) \<Rightarrow> Some (dget_default m ''error'' (JObj m)) | v \<Rightarrow> v)))
      else (case completed_response loads decode body False of
          Inr (_, r) \<Rightarrow> Inr r
        | Inl (Witness e) \<Rightarrow> Inl (Inr (ApiError
            (case we_provider_message e of Some (c # cs) \<Rightarrow> c # cs | _ \<Rightarrow> ''OpenAI reported a streaming error; inference was not retried'')
            (we_provider_code e) (we_param e)))
        | Inl (Py (ValueError m)) \<Rightarrow> Inl (Inr (ApiError m None None))
        | Inl (Py e) \<Rightarrow> Inl (Inl e)))"

record model_stream =
  ms_rest :: "string list"
  ms_closed :: bool
  ms_terminal :: bool

datatype stream_step = Yield "(string, json) dict" | Stop | Fail "exn option"

text \<open>One \<^verbatim>\<open>__next__\<close>; \<open>Fail None\<close> is an error of the SDK.\<close>

definition stream_next :: "(string \<Rightarrow> json option) \<Rightarrow> model_stream \<Rightarrow> stream_step \<times> model_stream" where
  "stream_next loads s =
     (if ms_closed s then (Stop, s)
      else (case ms_rest s of
          [] \<Rightarrow> (if ms_terminal s then Stop else Fail None, s\<lparr>ms_closed := True\<rparr>)
        | d # ds \<Rightarrow>
            (case loads d of
               None \<Rightarrow> (Fail (Some (ValueError ''json'')), s\<lparr>ms_closed := True\<rparr>)
             | Some (JObj v) \<Rightarrow>
                 if is_error_event v then (Fail None, s\<lparr>ms_rest := ds, ms_closed := True\<rparr>)
                 else (Yield v, s\<lparr>ms_rest := ds, ms_terminal := ms_terminal s \<or>
                   (case dget v ''type'' of Some (JStr k) \<Rightarrow> dhas terminal_kinds k | _ \<Rightarrow> False)\<rparr>)
             | Some _ \<Rightarrow> (Fail (Some (PyException ''AttributeError'')), s\<lparr>ms_closed := True\<rparr>))))"

section \<open>What was streamed is what is returned\<close>

text \<open>The text that the events of a key streamed, in order.\<close>

fun streamed :: "(string \<Rightarrow> json option) \<Rightarrow> text_key \<Rightarrow> string list \<Rightarrow> json list" where
  "streamed loads key [] = []"
| "streamed loads key (d # ds) =
     (case loads d of Some (JObj v) \<Rightarrow>
        if dget v ''type'' = Some (JStr ''response.output_text.delta'') \<and> event_key v = Inr key
        then (case dget v ''delta'' of Some x \<Rightarrow> x # streamed loads key ds | None \<Rightarrow> streamed loads key ds)
        else streamed loads key ds
      | _ \<Rightarrow> streamed loads key ds)"


lemma read_text_deltas: "read_text v s = Inr s' \<Longrightarrow> ss_deltas s' = ss_deltas s"
  by (auto simp: read_text_def value_error_def rbind_eq_Inr split: if_splits)

lemma read_item_deltas:
  assumes "read_item v s = Inr s'"
  shows "ss_deltas s' = ss_deltas s"
proof -
  from assms obtain index where "event_field v ''output_index'' = Inr index" by (auto simp: read_item_def rbind_eq_Inr)
  with assms show ?thesis
    by (cases index) (auto simp: read_item_def value_error_def rbind_eq_Inr split: if_splits)
qed

lemma read_terminal_deltas: "read_terminal status v s = Inr s' \<Longrightarrow> ss_deltas s' = ss_deltas s"
  by (auto simp: read_terminal_def value_error_def rbind_eq_Inr split: if_splits)

lemma read_event_other:
  assumes "read_event w s = Inr s'" "w = JObj v" "dget v ''type'' \<noteq> Some (JStr ''response.output_text.delta'')"
  shows "ss_deltas s' = ss_deltas s"
proof (cases "dget v ''type''")
  case (Some k)
  show ?thesis
  proof (cases k)
    case (JStr kind)
    with assms Some show ?thesis
      by (simp add: read_event_def as_dict_def split: if_splits option.splits)
        (auto dest: read_text_deltas read_item_deltas read_terminal_deltas)
  qed (use assms Some in \<open>simp_all add: read_event_def as_dict_def split: if_splits\<close>)
qed (use assms in \<open>simp add: read_event_def as_dict_def split: if_splits\<close>)

lemma read_event_deltas:
  assumes "read_event w s = Inr s'"
  shows "dget_default (ss_deltas s') key [] = dget_default (ss_deltas s) key [] @
    (case w of JObj v \<Rightarrow> if dget v ''type'' = Some (JStr ''response.output_text.delta'') \<and> event_key v = Inr key
        then (case dget v ''delta'' of Some x \<Rightarrow> [x] | None \<Rightarrow> []) else [] | _ \<Rightarrow> [])"
proof -
  from assms obtain v where v: "w = JObj v" "\<not> is_error_event v"
    by (cases w) (auto simp: read_event_def as_dict_def attribute_error_def split: if_splits)
  show ?thesis
  proof (cases "dget v ''type'' = Some (JStr ''response.output_text.delta'')")
    case True
    with assms v obtain k d where "event_key v = Inr k" "dget v ''delta'' = Some d"
      "s' = s\<lparr>ss_deltas := dset k (dget_default (ss_deltas s) k [] @ [d]) (ss_deltas s)\<rparr>"
      by (auto simp: read_event_def as_dict_def read_delta_def event_field_def rbind_eq_Inr)
    with True v show ?thesis by (auto simp: dget_default_def)
  next
    case False
    with read_event_other [OF assms v(1)] v(1) show ?thesis by simp
  qed
qed

lemma read_events_deltas:
  "read_events loads ds s = Inr s' \<Longrightarrow> dget_default (ss_deltas s') key [] = dget_default (ss_deltas s) key [] @ streamed loads key ds"
proof (induction loads ds s rule: read_events.induct)
  case (2 loads d ds s)
  then obtain w s1 where l: "loads d = Some w" "read_event w s = Inr s1" "read_events loads ds s1 = Inr s'"
    by (auto simp: value_error_def rbind_eq_Inr split: option.splits)
  from 2(1) [OF l(1,3)] read_event_deltas [OF l(2), of key] l(1)
  show ?case by (cases w) (auto split: option.splits)
qed simp

lemma check_deltas_done: "check_deltas ds texts = Inr u \<Longrightarrow> (key, parts) \<in> set ds \<Longrightarrow>
    \<exists>s. join_texts parts = Inr s \<and> dget texts key = Some (JStr s)"
  by (induction ds texts rule: check_deltas.induct) (auto simp: rbind_eq_Inr value_error_def split: if_splits)

text \<open>
  C39: What was streamed is what is returned: when a response is accepted, its text is that of its parts in the order of
  their indices, and for every part of which text was streamed, the pieces put together are exactly the final text of that part.
\<close>

theorem streamed_text_is_final:
  assumes "completed_response loads decode body raise_failed = Inr (text, r)"
  shows "\<exists>t texts sorted. decode body = Inr t \<and> sorted_items texts = Inr sorted \<and> join_texts (map snd sorted) = Inr text \<and>
    (\<forall>key. streamed loads key (sse_data t) \<noteq> [] \<longrightarrow>
      (\<exists>s. join_texts (streamed loads key (sse_data t)) = Inr s \<and> dget texts key = Some (JStr s)))"
proof -
  let ?s0 = "\<lparr>ss_completed = None, ss_items = [], ss_texts = [], ss_deltas = []\<rparr>"
  from assms obtain t s completed texts completed' where t: "decode body = Inr t" and s: "read_events loads (sse_data t) ?s0 = Inr s"
    and settle: "settle_texts s completed = Inr (texts, completed')" and out: "\<exists>sorted. sorted_items texts = Inr sorted \<and> join_texts (map snd sorted) = Inr text"
    by (auto simp: completed_response_def value_error_def rbind_eq_Inr rmap_eq_Inr Let_def split: sum.splits option.splits if_splits)
  from settle obtain u where check: "check_deltas (ss_deltas s) texts = Inr u"
    by (auto simp: settle_texts_def rbind_eq_Inr value_error_def Let_def split: if_splits)
  have "\<exists>x. join_texts (streamed loads key (sse_data t)) = Inr x \<and> dget texts key = Some (JStr x)"
    if "streamed loads key (sse_data t) \<noteq> []" for key
  proof -
    from read_events_deltas [OF s, of key] that have "dget (ss_deltas s) key = Some (streamed loads key (sse_data t))"
      by (auto simp: dget_default_def split: option.splits)
    then show ?thesis by (blast intro: check_deltas_done [OF check] dget_mem)
  qed
  with t out show ?thesis by blast
qed

definition hello_http :: string where
  "hello_http = ''HTTP/1.1 200 OK'' @ crlf @ ''Transfer-Encoding: chunked'' @ crlf @ crlf @
     ''2'' @ crlf @ ''he'' @ crlf @ ''3'' @ crlf @ ''llo'' @ crlf @ ''0'' @ crlf @ crlf"

theorem response_delimits_itself_witness:
  "http_body (\<lambda>_. None) hello_http False = Inr ''hello'' \<and> (\<forall>b. http_body (\<lambda>_. None) (hello_http @ ''!'') False \<noteq> Inr b)"
proof -
  have r: "http_body (\<lambda>_. None) hello_http False = Inr ''hello''" by code_simp
  moreover have False if "http_body (\<lambda>_. None) (hello_http @ ''!'') False = Inr b" for b
    using response_delimits_itself [OF r that] by simp
  ultimately show ?thesis by blast
qed

definition hello_loads :: "string \<Rightarrow> json option" where
  "hello_loads d = dget
     [(''a'', JObj [(''type'', JStr ''response.output_text.delta''), (''delta'', JStr ''he'')]),
      (''b'', JObj [(''type'', JStr ''response.output_text.delta''), (''delta'', JStr ''llo'')]),
      (''c'', JObj [(''type'', JStr ''response.output_text.done''), (''text'', JStr ''hello'')]),
      (''d'', JObj [(''type'', JStr ''response.completed''), (''response'', JObj [(''status'', JStr ''completed'')])])] d"

definition hello_sse :: string where
  "hello_sse = concat (map (\<lambda>c. ''data: '' @ [c] @ [CHR 0x0A, CHR 0x0A]) ''abcd'') @ ''data: [DONE]''"

theorem streamed_text_is_final_witness:
  "rmap fst (completed_response hello_loads Inr hello_sse True) = Inr ''hello'' \<and>
     (\<exists>texts. dget texts (JFloat 0, JFloat 0) = Some (JStr ''hello'') \<and>
        rbind (sorted_items texts) (\<lambda>sorted. join_texts (map snd sorted)) = Inr ''hello'')"
proof -
  have o: "rmap fst (completed_response hello_loads Inr hello_sse True) = Inr ''hello''" by code_simp
  then obtain r where r: "completed_response hello_loads Inr hello_sse True = Inr (''hello'', r)"
    by (auto simp: rmap_eq_Inr)
  have d: "streamed hello_loads (JFloat 0, JFloat 0) (sse_data hello_sse) = [JStr ''he'', JStr ''llo'']" by code_simp
  have j: "join_texts [JStr ''he'', JStr ''llo''] = Inr ''hello''" by code_simp
  from streamed_text_is_final [OF r] obtain texts sorted where t: "sorted_items texts = Inr sorted"
    "join_texts (map snd sorted) = Inr ''hello''"
    "\<forall>key. streamed hello_loads key (sse_data hello_sse) \<noteq> [] \<longrightarrow>
      (\<exists>s. join_texts (streamed hello_loads key (sse_data hello_sse)) = Inr s \<and> dget texts key = Some (JStr s))"
    by auto
  from t(3) d j have "dget texts (JFloat 0, JFloat 0) = Some (JStr ''hello'')"
    using spec [OF t(3), of "(JFloat 0, JFloat 0)"] by simp
  with o t(1,2) show ?thesis by auto
qed

section \<open>A stream that stops has ended\<close>

fun stream_run :: "(string \<Rightarrow> json option) \<Rightarrow> nat \<Rightarrow> model_stream \<Rightarrow> stream_step list \<times> model_stream" where
  "stream_run loads 0 s = ([], s)"
| "stream_run loads (Suc n) s = (let (o1, s1) = stream_next loads s; (os, s2) = stream_run loads n s1 in (o1 # os, s2))"

definition ends_response :: "stream_step \<Rightarrow> bool" where
  "ends_response o1 = (case o1 of Yield v \<Rightarrow> (case dget v ''type'' of Some (JStr k) \<Rightarrow> dhas terminal_kinds k | _ \<Rightarrow> False) | _ \<Rightarrow> False)"

lemma stream_next_closed: "ms_closed s \<Longrightarrow> stream_next loads s = (Stop, s)"
  by (simp add: stream_next_def)

lemma stream_run_closed: "ms_closed s \<Longrightarrow> stream_run loads n s = (replicate n Stop, s)"
  by (induction n) (simp_all add: stream_next_closed)

lemma stream_next_open:
  assumes "stream_next loads s = (o1, s1)" "\<not> ms_closed s"
  shows "case o1 of Yield v \<Rightarrow> \<not> ms_closed s1 \<and> ms_terminal s1 = (ms_terminal s \<or> ends_response o1)
    | Stop \<Rightarrow> ms_terminal s \<and> ms_closed s1 | Fail e \<Rightarrow> ms_closed s1"
  using assms
  by (auto simp: stream_next_def ends_response_def split: list.splits option.splits json.splits if_splits)

lemma suffix_of_replicate: "o1 # replicate n x = a @ y # b \<Longrightarrow> b = replicate (length b) x"
proof -
  assume "o1 # replicate n x = a @ y # b"
  then have "drop (Suc (length a)) (o1 # replicate n x) = drop (Suc (length a)) (a @ y # b)" by simp
  then have b: "b = replicate (n - length a) x" by (simp add: drop_replicate)
  then show ?thesis by simp
qed

text \<open>
  C40: A stream that stops has ended: the first time an event stream reports its end, either an error has been reported, or the terminal
  event of the response has been handed out; a body that breaks off never looks finished. After an end or an error it stays at its end.
\<close>

theorem stream_stops_after_terminal:
  "stream_run loads n s = (os, s') \<Longrightarrow> \<not> ms_closed s \<Longrightarrow> \<not> ms_terminal s \<Longrightarrow> os = a @ Stop # b \<Longrightarrow>
     ((\<exists>o1 \<in> set a. ends_response o1) \<or> (\<exists>e. Fail e \<in> set a)) \<and> b = replicate (length b) Stop"
proof -
  have ended: "((\<exists>o1 \<in> set a. ends_response o1) \<or> ms_terminal s \<or> (\<exists>e. Fail e \<in> set a)) \<and> b = replicate (length b) Stop"
    if "stream_run loads n s = (os, s')" "\<not> ms_closed s" "os = a @ Stop # b" for a
    using that
  proof (induction n arbitrary: s os a)
    case (Suc n)
    from Suc.prems(1) obtain o1 s1 os1 where st: "stream_next loads s = (o1, s1)" "stream_run loads n s1 = (os1, s')" "os = o1 # os1"
      by (auto split: prod.splits)
    note one = stream_next_open [OF st(1) Suc.prems(2)]
    show ?case
    proof (cases o1)
      case (Yield v)
      with Suc.prems(3) st(3) obtain a' where a: "a = o1 # a'" "os1 = a' @ Stop # b" by (cases a) auto
      from Suc.IH [OF st(2) _ a(2)] one Yield a show ?thesis by auto
    next
      case Stop
      with one have "os1 = replicate n Stop" using stream_run_closed [of s1 loads n] st(2) by simp
      with Suc.prems(3) st(3) have "b = replicate (length b) Stop"
        using suffix_of_replicate [of o1 n Stop a Stop b] by simp
      with Stop one show ?thesis by simp
    next
      case (Fail e)
      with one have "os1 = replicate n Stop" using stream_run_closed [of s1 loads n] st(2) by simp
      with Suc.prems(3) st(3) have "b = replicate (length b) Stop"
        using suffix_of_replicate [of o1 n Stop a Stop b] by simp
      moreover from Suc.prems(3) st(3) Fail have "o1 \<in> set a" by (cases a) auto
      ultimately show ?thesis using Fail by auto
    qed
  qed simp
  then show "((\<exists>o1 \<in> set a. ends_response o1) \<or> (\<exists>e. Fail e \<in> set a)) \<and> b = replicate (length b) Stop"
    if "stream_run loads n s = (os, s')" "\<not> ms_closed s" "\<not> ms_terminal s" "os = a @ Stop # b"
    using that by blast
qed

theorem stream_stops_after_terminal_witness:
  "ends_response (Yield [(''type'', JStr ''response.completed''), (''response'', JObj [(''status'', JStr ''completed'')])]) \<and>
   (\<exists>a b. fst (stream_run hello_loads 6 \<lparr>ms_rest = sse_data hello_sse, ms_closed = False, ms_terminal = False\<rparr>) = a @ Stop # b \<and>
     (\<exists>o1 \<in> set a. ends_response o1) \<and> b = [Stop])"
proof -
  let ?s = "\<lparr>ms_rest = sse_data hello_sse, ms_closed = False, ms_terminal = False\<rparr>"
  obtain os s' where run: "stream_run hello_loads 6 ?s = (os, s')" by (cases "stream_run hello_loads 6 ?s")
  have os: "fst (stream_run hello_loads 6 ?s) = take 4 (fst (stream_run hello_loads 6 ?s)) @ [Stop, Stop]"
    "\<not> list_ex (\<lambda>x. case x of Fail _ \<Rightarrow> True | _ \<Rightarrow> False) (take 4 (fst (stream_run hello_loads 6 ?s)))" by code_simp+
  with run have os': "os = take 4 os @ Stop # [Stop]" "\<forall>e. Fail e \<notin> set (take 4 os)" by (auto simp: list_ex_iff)
  from stream_stops_after_terminal [OF run _ _ os'(1)] os'(2) have "\<exists>o1 \<in> set (take 4 os). ends_response o1" by simp
  moreover have "ends_response (Yield [(''type'', JStr ''response.completed''), (''response'', JObj [(''status'', JStr ''completed'')])])"
    by code_simp
  ultimately show ?thesis using run os'(1) by auto
qed

end
