(* ===== verification/Spec2Isabelle.thy ===== *)
theory Spec2Isabelle
  imports Prelude Traces PyFloat Competition Timeline Png VlmChat Judge MatchExecution JudgeLaws RoundRunner
    Repo RoundManager Submissions Collector Lifecycle GitStore StateStore WitnessModels Selection CallRecords
    Weights Admission Pricing Budget Auth PodSpec RunPod Allocator Rounds Membership Relay PodRuntime PodCapture PodLaws
    ProviderResponse
begin

text \<open>
  The 404-GEN subnet runs a competition of 3D generators. Its state is a git repository
  of JSON files, and services take turns on it: the submission collector (\<^verbatim>\<open>src/submission-collector\<close>)
  opens a round, reads the commitments of the miners from the chain, draws the prompts and collects the
  generations; the judge service (\<^verbatim>\<open>src/judge-service\<close>) compares the generations of the miners pairwise
  with a vision model and derives the winner; the round manager (\<^verbatim>\<open>src/round-manager\<close>) closes the round,
  changes the leader and schedules the next round. The stage in \<^verbatim>\<open>state.json\<close> says whose turn it is. The
  witness services (\<^verbatim>\<open>src/shared/subnet_common/witness\<close>, \<^verbatim>\<open>src/witness-server\<close>, \<^verbatim>\<open>src/witness-gateway\<close>) run
  the miners' model calls in pods that keep their decisions in a bucket with conditional writes.

  \<^bold>\<open>Theories.\<close> Paths are relative to \<^verbatim>\<open>src/\<close>.

  \<^item> \<open>Prelude\<close>: results as sums of an exception and a value, Python dictionaries as association lists in
    insertion order, state actions with their weakest preconditions (\<open>wp_\<close> rules), strings and numerals.
  \<^item> \<open>Traces\<close>: what an action adds to a log, with the history before every event (\<open>along_rules\<close>).
  \<^item> \<open>PyFloat\<close>: Python floats as the rationals, with every operation rounded to 53 bits; NaN, infinities and
    the exponent range are not represented.
  \<^item> \<open>Competition\<close>: the data of \<^verbatim>\<open>shared/subnet_common/competition\<close>; \<open>Repo\<close>: the documents of the repository at a
    commit and their readers.
  \<^item> Judge: \<open>Timeline\<close> (\<^verbatim>\<open>judge_service/timeline.py\<close>: who holds the lead after which challenger),
    \<open>VlmChat\<close> (recovering JSON from model replies), \<open>Png\<close> (the inline PNG reader and the gray gate), \<open>Judge\<close> and
    \<open>JudgeLaws\<close> (the four stages of a duel in \<^verbatim>\<open>judges/multi_stage.py\<close>), \<open>MatchExecution\<close> (a match over all
    prompts), \<open>RoundRunner\<close> (\<^verbatim>\<open>round_runner.py\<close>: qualification, the loop over matches, finalization).
  \<^item> Collector: \<open>Submissions\<close> (parsing, conviction lock, order), \<open>Collector\<close> (\<^verbatim>\<open>collection_iteration.py\<close>,
    \<^verbatim>\<open>prompts.py\<close>, \<^verbatim>\<open>download.py\<close>).
  \<^item> \<open>RoundManager\<close> (\<^verbatim>\<open>finalize_round.py\<close>) and \<open>Lifecycle\<close>, where collector and round manager meet.
  \<^item> \<open>GitStore\<close>: the GitHub client and the commit batcher (\<^verbatim>\<open>github.py\<close>, \<^verbatim>\<open>git_batcher.py\<close>).
  \<^item> Witness: \<open>StateStore\<close> (\<^verbatim>\<open>witness/state.py\<close>, conditional writes with retries and readback), \<open>WitnessModels\<close>
    (\<^verbatim>\<open>witness/models.py\<close>, who owns a pod), \<open>Selection\<close> (\<^verbatim>\<open>witness/selection.py\<close>, which pod of a miner is active),
    \<open>CallRecords\<close> (\<^verbatim>\<open>witness_pod/records.py\<close>, the life of a model call), \<open>Pricing\<close> (\<^verbatim>\<open>witness/pricing.py\<close> and
    \<^verbatim>\<open>miner_runtime/accounting.py\<close>, rates, credits and the budget of a replay), \<open>Budget\<close> (\<^verbatim>\<open>witness_pod/budget.py\<close>,
    the ledger entered before a call is dispatched), \<open>Admission\<close> (\<^verbatim>\<open>pod_gateway/admission.py\<close>, the queue of pods to start).
  \<^item> \<open>Auth\<close> (\<^verbatim>\<open>witness/auth.py\<close> and \<^verbatim>\<open>witness_client/auth.py\<close>, signed requests and replay protection) and
    \<open>PodSpec\<close> (\<^verbatim>\<open>witness/security.py\<close> and the pod shape of \<^verbatim>\<open>witness/models.py\<close>, tokens and create requests).
  \<^item> \<open>RunPod\<close> (\<^verbatim>\<open>pod_gateway/runpod.py\<close>, the client of the pod provider) and \<open>Allocator\<close>
    (\<^verbatim>\<open>pod_gateway/lifecycle.py\<close>, which pod of a miner is the one, activated, drained, deleted, replaced).
  \<^item> \<open>Relay\<close> (\<^verbatim>\<open>witness_pod/worker.py\<close>, the capture of one exchange between a miner and the model provider).
  \<^item> \<open>PodRuntime\<close> (\<^verbatim>\<open>witness_pod/pod.py\<close>: the fences, the spool and the start of captures), \<open>PodCapture\<close>
    (\<^verbatim>\<open>_capture\<close>, \<^verbatim>\<open>_recover\<close>, \<^verbatim>\<open>_finalize\<close> and \<^verbatim>\<open>witness_pod/recovery.py\<close>, over \<open>Relay\<close>, \<open>Budget\<close>, \<open>CallRecords\<close> and
    \<open>Selection\<close>) and \<open>PodLaws\<close> (what a pod guarantees in every run).
  \<^item> \<open>ProviderResponse\<close> (\<^verbatim>\<open>witness_client/response.py\<close>: the framing of a provider's answer, its events, the completed
    response and the stream of events).
  \<^item> \<open>Rounds\<close> (\<^verbatim>\<open>witness/rounds.py\<close> and \<^verbatim>\<open>pod_gateway/rounds.py\<close>, the frozen inputs of a round and the lease to
    generate) and \<open>Membership\<close> (\<^verbatim>\<open>pod_gateway/membership.py\<close>, the registrations read from the chain).
  \<^item> \<open>Weights\<close>: the weights setter (\<^verbatim>\<open>weights-setter/weights_service.py\<close>), from the leader to the weights on the chain.

  \<^bold>\<open>How code becomes definitions.\<close> A raise is \<open>Inl\<close> of an exception, a coroutine or method with effects is an
  action from a state to a result and a state, which keeps the state reached when an exception leaves it.
  What is outside the repository's code is an argument: the chain, the clock, random numbers, hashes, the
  vision model, HTTP, S3, GitHub, JSON and pydantic. Where a property relies on such a part, the documented
  behaviour is a hypothesis (\<open>github_laws\<close>) or a locale (\<open>s3_service\<close>), each with an instance in the
  development. Loops are structural recursions, functions with a measure (\<open>buffer_loop\<close>), or take fuel
  (\<open>run_loop\<close>, whose fuel is proved to suffice: one tick more than there are pairs of miners;
  \<open>rp_pages\<close>: one page more than there are cursors; the loops of \<open>Relay\<close> end by the clock and those of
  \<open>PodCapture\<close> when a store answers again, and running out of fuel is one more way for them to fail). Coroutines that
  share state appear as the pieces between their awaits, interleaved by a step relation (\<open>batch_step\<close>,
  \<open>cell_step\<close>).

  \<^bold>\<open>What is shown.\<close> For the judge: the runner ends and the winner it writes passed both audits
  (\<open>RoundRunner\<close>), every entry of a timeline is what matrix and audits say (\<open>Timeline\<close>), exchanging the sides of
  a duel, with every question answered as before, mirrors its outcome (\<open>JudgeLaws\<close>), recorded margins are complete and final. For the collector:
  the stage only moves along the edges of the round, the inputs of a round are published in one commit, made
  after a block past the reveal window was read and the commitments after it, the duels start with all generations in place. For the round manager: the next round is
  the earliest admissible one, reveal windows tile the time. For the stores: a commit is one fast-forward of
  its own branch with exactly its files replaced, or it raises and moves no branch, whatever other clients do (\<open>GitStore\<close>); the batcher
  refines a map that is written through, a conditional save never lies about its outcome. For the witness
  services: no request reaches the provider before its authorization is durable and no answer reaches the miner
  before its evidence is, a dispatch finds its pod selected and its round open, once before
  its reservation and once more after its authorization, a spool outlives its outcome, a drained pod stays
  quiet, an answer cut short is never read as a whole one and streamed text is what is returned, a pod once fenced never serves again, a result once issued is final, a capture is claimed and an
  exchange authorized at most once, a dispatch is charged once and its settled usage is final, starts are
  served in order, paced and authorized once, a pod is deleted only fenced and drained,
  stopped, or made way for by the start it served, and created only when nothing of its miner is left, an inventory is whole or refused, published rates are final, all of it under every interleaving of
  the gateways and the pods; a signed request is accepted again only when the clock left its window while an
  earlier verification was under way (\<open>Auth\<close>), and a token opens what it was made for. For the weights setter: the weights it sets follow from a published leader history,
  and its attempts are spaced.

  \<^bold>\<open>Interfaces.\<close> The compare-and-swap contract is the locale \<open>cas_store\<close>, provided by the R2 store over any
  \<open>s3_service\<close> and by prefixed stores, used by every operation on selections, calls and the queue; \<open>ledger_store\<close> extends it for budgets. The bucket of the
  examples interprets them.

  \<open>pod_provider\<close> is what the allocator relies on of a provider, proved of the RunPod client; \<open>fleet\<close> extends it and
  holds the history lemmas of every operation of the allocator, interpreted for the allocator over that client.

  \<^bold>\<open>Limits.\<close> In the collector the miners' tasks run one after another, in any order; after a task has raised,
  the tasks still running in the code may go on writing. Repository documents are typed values, so a
  document that pydantic rejects is an error of its reader and nothing more.

  \<^bold>\<open>Not modelled.\<close> The HTTP server and the socket registry of the gateway (\<^verbatim>\<open>pod_gateway/server.py\<close>, \<^verbatim>\<open>control.py\<close>) and
  the revivor, whose decisions are the operations of \<open>Admission\<close>, \<open>Allocator\<close>, \<open>Rounds\<close>, \<open>Selection\<close> and \<open>Auth\<close>; the
  HTTP endpoints of a pod (\<^verbatim>\<open>witness_pod/direct.py\<close>), its stores of evidence, replay bundles and diagnostics; certificates; the
  transport of the witness client (threads, tunnels, the native prover); the runtime and the reference of the
  miners; the renderers and their clients; notices, settings and entry points of the services; benchmarks and
  deployment. They are I/O around the modelled operations or programs of the miners.
\<close>

end
